(* ===== verification/Prelude.thy ===== *)
theory Prelude
  imports Complex_Main "HOL-Library.Word"
begin

text \<open>
  What every component of the model shares: machine integers and bytes, the panics of the
  program as values, the combinators for code that may panic or return early, checked indexing,
  and the list idioms of the Rust standard library the sources use
  (\<open>iter_mut().zip()\<close>, \<open>chunks\<close>, \<open>chunks_exact\<close>, \<open>resize\<close>, \<open>collect\<close> over a panicking closure).
\<close>

section \<open>Machine types\<close>

type_synonym u8 = "8 word"
type_synonym u16 = "16 word"
type_synonym u32 = "32 word"
type_synonym u64 = "64 word"
type_synonym bytes = "u8 list"

text \<open>
  \<open>run_simps\<close> collects the rewrite rules of the panic combinators; \<open>vec_simps\<close> the rules for
  vectors kept as lists.
\<close>

named_theorems run_simps
named_theorems vec_simps

text \<open>A byte string literal \<open>b"..."\<close>.\<close>

definition str_bytes :: "string \<Rightarrow> bytes" where
  "str_bytes s = map of_char s"

section \<open>Panics and early returns\<close>

text \<open>
  One constructor per \<open>assert!\<close>, \<open>assert_eq!\<close>, \<open>expect\<close>, \<open>unwrap\<close> or indexing operation of the
  sources that can abort the thread.
\<close>

datatype panic =
    RowLengthMismatch          \<comment> \<open>add_row: row length must equal n\<close>
  | MatrixAlreadyFull          \<comment> \<open>add_row: matrix is already full rank\<close>
  | MatrixNotFull              \<comment> \<open>inverse: matrix is not full rank\<close>
  | NoVectors                  \<comment> \<open>linear_combination: need at least one vector\<close>
  | CoeffLengthMismatch        \<comment> \<open>linear_combination: vecs and coeffs length mismatch\<close>
  | EmptyChunk                 \<comment> \<open>Chunk::new: chunk must not be empty\<close>
  | ChunkLengthMismatch        \<comment> \<open>Chunk::new_checked: chunk must contain exactly m elements\<close>
  | CoeffVectorLength          \<comment> \<open>CodedChunk::new: coefficient vector must have length N\<close>
  | CannotDecode               \<comment> \<open>decode: need N independent chunks\<close>
  | CannotReencode             \<comment> \<open>reencode_with: no coded chunks\<close>
  | AlphasLength               \<comment> \<open>reencode_with: alphas length must equal chunk count\<close>
  | WindowTooLong              \<comment> \<open>pack: window length exceeds DATA_BYTES\<close>
  | InvalidScalar              \<comment> \<open>pack: expect on the codec\<close>
  | SplitOffOutOfBounds        \<comment> \<open>unpack: split_off(1) of an empty buffer\<close>
  | BlockTooLarge              \<comment> \<open>as_chunks: block requires more than N * m elements\<close>
  | ZeroChunkSize              \<comment> \<open>chunks, chunks_exact: size zero\<close>
  | WrongChunkCount            \<comment> \<open>from_chunks, sign_coded: expected N chunks\<close>
  | SliceOutOfBounds           \<comment> \<open>from_chunks: slice end beyond the bytes\<close>
  | InvalidBlock               \<comment> \<open>from_chunks, decode: expect on the codec\<close>
  | CommitLength               \<comment> \<open>commit: expects exactly m scalars\<close>
  | TooFewHashPoints           \<comment> \<open>BFKW: hash_points must have at least N elements\<close>
  | SignChunkLength            \<comment> \<open>BFKW sign: chunk must have m elements\<close>
  | ChunkIndexOutOfRange       \<comment> \<open>BFKW sign: chunk_index out of range\<close>
  | NotProposer                \<comment> \<open>propose called on a node with no signer\<close>
  | NoContext                  \<comment> \<open>init_receiver before init_proposer\<close>
  | NothingReceived            \<comment> \<open>baseline: forward, recode or decode before receive\<close>
  | IndexOutOfBounds           \<comment> \<open>indexing outside a vector\<close>
  | ArithmeticOverflow         \<comment> \<open>checked arithmetic of usize\<close>
  | DegreeTooLarge             \<comment> \<open>random_mesh: degree must be below num_nodes\<close>
  | NoNodes                    \<comment> \<open>run: num_nodes must be positive\<close>
  | BadDuration                \<comment> \<open>Duration::from_secs_f64: negative, too large or not a number\<close>
  | TooManyBlocks              \<comment> \<open>mean_propagation, mean_p99: block count exceeds u32\<close>
  | DurationOverflow           \<comment> \<open>overflow when adding durations\<close>
  | ThreadPanicked             \<comment> \<open>run_simulation: expect on a joined thread\<close>

type_synonym 'a run = "panic + 'a"

definition bindR :: "'e + 'a \<Rightarrow> ('a \<Rightarrow> 'e + 'b) \<Rightarrow> 'e + 'b" where
  "bindR m f = (case m of Inl e \<Rightarrow> Inl e | Inr x \<Rightarrow> f x)"

definition assertR :: "bool \<Rightarrow> 'e \<Rightarrow> 'e + 'a \<Rightarrow> 'e + 'a" where
  "assertR c e m = (if c then m else Inl e)"

definition mapRes :: "('a \<Rightarrow> 'b) \<Rightarrow> 'e + 'a \<Rightarrow> 'e + 'b" where
  "mapRes f m = (case m of Inl e \<Rightarrow> Inl e | Inr x \<Rightarrow> Inr (f x))"

text \<open>\<open>map_err\<close>.\<close>

definition map_err :: "('d \<Rightarrow> 'e) \<Rightarrow> 'd + 'a \<Rightarrow> 'e + 'a" where
  "map_err f m = (case m of Inl e \<Rightarrow> Inl (f e) | Inr x \<Rightarrow> Inr x)"

lemma map_err_simps [simp]: "map_err f (Inl e) = Inl (f e)" "map_err f (Inr x) = Inr x"
  by (simp_all add: map_err_def)

lemma bindR_simps [simp, run_simps]:
  "bindR (Inl e) f = Inl e"
  "bindR (Inr x) f = f x"
  by (simp_all add: bindR_def)

lemma mapRes_simps [simp, run_simps]:
  "mapRes f (Inl e) = Inl e"
  "mapRes f (Inr x) = Inr (f x)"
  by (simp_all add: mapRes_def)

lemma assertR_simps [simp, run_simps]:
  "c \<Longrightarrow> assertR c e m = m"
  "\<not> c \<Longrightarrow> assertR c e m = Inl e"
  by (simp_all add: assertR_def)

lemma bindR_eq_Inr: "bindR m f = Inr y \<longleftrightarrow> (\<exists>x. m = Inr x \<and> f x = Inr y)"
  by (cases m) auto

lemma bindR_eq_Inl: "bindR m f = Inl e \<longleftrightarrow> m = Inl e \<or> (\<exists>x. m = Inr x \<and> f x = Inl e)"
  by (cases m) simp_all

lemma assertR_eq_Inr: "assertR c e m = Inr y \<longleftrightarrow> c \<and> m = Inr y"
  by (simp add: assertR_def)

lemma bindR_cong [fundef_cong]:
  "m = m' \<Longrightarrow> (\<And>x. m' = Inr x \<Longrightarrow> f x = f' x) \<Longrightarrow> bindR m f = bindR m' f'"
  by (cases m') auto

text \<open>A loop over a list whose body may panic, and \<open>map(..).collect()\<close> over such a closure.\<close>

fun foldR :: "('x \<Rightarrow> 'a \<Rightarrow> 'e + 'a) \<Rightarrow> 'x list \<Rightarrow> 'a \<Rightarrow> 'e + 'a" where
  "foldR f [] a = Inr a"
| "foldR f (x # xs) a = bindR (f x a) (foldR f xs)"

fun mapR :: "('a \<Rightarrow> 'e + 'b) \<Rightarrow> 'a list \<Rightarrow> 'e + 'b list" where
  "mapR f [] = Inr []"
| "mapR f (x # xs) = bindR (f x) (\<lambda>y. bindR (mapR f xs) (\<lambda>ys. Inr (y # ys)))"

text \<open>
  A panicking loop is a pure one wherever an invariant of the accumulator keeps every body
  from panicking. This is how each loop of the model is related to its pure counterpart.
\<close>

lemma foldR_pure:
  assumes "I a"
    and "\<And>x a. x \<in> set xs \<Longrightarrow> I a \<Longrightarrow> f x a = Inr (g x a) \<and> I (g x a)"
  shows "foldR f xs a = Inr (fold g xs a) \<and> I (fold g xs a)"
  using assms by (induction xs arbitrary: a) auto

lemma foldR_append: "foldR f (xs @ ys) a = bindR (foldR f xs a) (foldR f ys)"
proof (induction xs arbitrary: a)
  case (Cons x xs)
  then show ?case by (cases "f x a") auto
qed simp

lemma foldR_inv:
  assumes "foldR f xs a = Inr a'" and "I a"
    and "\<And>x a a'. x \<in> set xs \<Longrightarrow> I a \<Longrightarrow> f x a = Inr a' \<Longrightarrow> I a'"
  shows "I a'"
  using assms
proof (induction xs arbitrary: a)
  case (Cons x xs)
  then obtain a1 where "f x a = Inr a1" "foldR f xs a1 = Inr a'"
    by (auto simp: bindR_eq_Inr)
  with Cons show ?case by (meson list.set_intros)
qed simp

lemma foldR_map: "foldR f (map g xs) a = foldR (\<lambda>x. f (g x)) xs a"
  by (induction xs arbitrary: a) (auto simp: bindR_def split: sum.splits)

lemma foldR_cong:
  "(\<And>x a. x \<in> set xs \<Longrightarrow> f x a = g x a) \<Longrightarrow> foldR f xs a = foldR g xs a"
proof (induction xs arbitrary: a)
  case (Cons x xs)
  then have "f x a = g x a" and "foldR f xs b = foldR g xs b" for b by simp_all
  then show ?case by (cases "g x a") simp_all
qed simp

lemma mapR_Inr_iff:
  "mapR f xs = Inr ys \<longleftrightarrow> list_all2 (\<lambda>x y. f x = Inr y) xs ys"
  by (induction xs arbitrary: ys) (auto simp: bindR_eq_Inr list_all2_Cons1)

lemma mapR_pure:
  "(\<And>x. x \<in> set xs \<Longrightarrow> f x = Inr (g x)) \<Longrightarrow> mapR f xs = Inr (map g xs)"
  by (induction xs) auto

lemma mapR_length: "mapR f xs = Inr ys \<Longrightarrow> length ys = length xs"
  by (auto simp: mapR_Inr_iff dest: list_all2_lengthD)

lemma mapR_nth: "mapR f xs = Inr ys \<Longrightarrow> i < length xs \<Longrightarrow> f (xs ! i) = Inr (ys ! i)"
  by (auto simp: mapR_Inr_iff dest: list_all2_nthD)

lemma mapR_append: "mapR f (xs @ ys) = 
    bindR (mapR f xs) (\<lambda>us. bindR (mapR f ys) (\<lambda>vs. Inr (us @ vs)))"
  by (induction xs) (auto simp: bindR_def split: sum.splits)

section \<open>Results and panics\<close>

text \<open>Whatever a computation gives: a panic is a \<open>Q\<close>, a value is a \<open>P\<close>.\<close>

definition run_ok :: "('e \<Rightarrow> bool) \<Rightarrow> ('a \<Rightarrow> bool) \<Rightarrow> 'e + 'a \<Rightarrow> bool" where
  "run_ok Q P m \<longleftrightarrow> (case m of Inl e \<Rightarrow> Q e | Inr x \<Rightarrow> P x)"

lemma run_ok_simps [simp]: "run_ok Q P (Inl e) \<longleftrightarrow> Q e" "run_ok Q P (Inr x) \<longleftrightarrow> P x"
  by (simp_all add: run_ok_def)

lemma run_ok_bind: "run_ok Q R m \<Longrightarrow> (\<And>x. m = Inr x \<Longrightarrow> R x \<Longrightarrow> run_ok Q P (f x)) \<Longrightarrow> run_ok Q P (bindR m f)"
  by (cases m) simp_all

lemma run_ok_value: "run_ok Q P (bindR m f)" if "m = Inr x" "run_ok Q P (f x)"
  using that by simp

lemma run_ok_assert: "(c \<Longrightarrow> run_ok Q P m) \<Longrightarrow> (\<not> c \<Longrightarrow> Q e) \<Longrightarrow> run_ok Q P (assertR c e m)"
  by (cases c) simp_all

lemma run_ok_foldR:
  assumes "P a" "\<And>x a. x \<in> set xs \<Longrightarrow> P a \<Longrightarrow> run_ok Q P (f x a)"
  shows "run_ok Q P (foldR f xs a)"
  using assms by (induction xs arbitrary: a) (auto intro: run_ok_bind)

lemma run_ok_mapR:
  assumes "\<And>x. x \<in> set xs \<Longrightarrow> run_ok Q (\<lambda>_. True) (f x)"
  shows "run_ok Q (\<lambda>ys. length ys = length xs) (mapR f xs)"
  using assms
proof (induction xs)
  case (Cons x xs)
  then have "run_ok Q (\<lambda>_. True) (f x)" "run_ok Q (\<lambda>ys. length ys = length xs) (mapR f xs)" by simp_all
  then show ?case by (cases "f x"; cases "mapR f xs") simp_all
qed simp

lemma run_ok_weaken: "run_ok Q P m \<Longrightarrow> (\<And>e. Q e \<Longrightarrow> Q' e) \<Longrightarrow> (\<And>x. P x \<Longrightarrow> P' x) \<Longrightarrow> run_ok Q' P' m"
  by (cases m) simp_all

section \<open>Checked indexing\<close>

text \<open>\<open>xs[i]\<close> and \<open>xs[i] = x\<close> of Rust: out of range they panic.\<close>

definition idx :: "'a list \<Rightarrow> nat \<Rightarrow> 'a run" where
  "idx xs i = (if i < length xs then Inr (xs ! i) else Inl IndexOutOfBounds)"

definition upd :: "'a list \<Rightarrow> nat \<Rightarrow> 'a \<Rightarrow> 'a list run" where
  "upd xs i x = (if i < length xs then Inr (xs[i := x]) else Inl IndexOutOfBounds)"

lemma idx_in [simp, run_simps]: "i < length xs \<Longrightarrow> idx xs i = Inr (xs ! i)"
  by (simp add: idx_def)

lemma upd_in [simp, run_simps]: "i < length xs \<Longrightarrow> upd xs i x = Inr (xs[i := x])"
  by (simp add: upd_def)

section \<open>List idioms of the standard library\<close>

text \<open>
  \<open>for (x, y) in xs.iter_mut().zip(ys) { *x = f(x, y) }\<close>: the elements of \<open>xs\<close> beyond the
  length of \<open>ys\<close> stay as they are.
\<close>

fun zip_update :: "('a \<Rightarrow> 'b \<Rightarrow> 'a) \<Rightarrow> 'a list \<Rightarrow> 'b list \<Rightarrow> 'a list" where
  "zip_update f (x # xs) (y # ys) = f x y # zip_update f xs ys"
| "zip_update f xs ys = xs"

lemma length_zip_update [simp, vec_simps]: "length (zip_update f xs ys) = length xs"
  by (induction f xs ys rule: zip_update.induct) auto

lemma nth_zip_update [vec_simps]:
  "i < length xs \<Longrightarrow>
   zip_update f xs ys ! i = (if i < length ys then f (xs ! i) (ys ! i) else xs ! i)"
proof (induction f xs ys arbitrary: i rule: zip_update.induct)
  case (1 f x xs y ys)
  then show ?case by (cases i) auto
qed auto

text \<open>\<open>xs.iter().position(p)\<close>.\<close>

fun position :: "('a \<Rightarrow> bool) \<Rightarrow> 'a list \<Rightarrow> nat option" where
  "position p [] = None"
| "position p (x # xs) = (if p x then Some 0 else map_option Suc (position p xs))"

lemma position_None: "position p xs = None \<longleftrightarrow> (\<forall>x \<in> set xs. \<not> p x)"
  by (induction xs) auto

lemma position_Some:
  "position p xs = Some i \<Longrightarrow> i < length xs \<and> p (xs ! i) \<and> (\<forall>j < i. \<not> p (xs ! j))"
proof (induction xs arbitrary: i)
  case (Cons x xs)
  then show ?case
    by (auto split: if_splits simp: less_Suc_eq_0_disj nth_Cons split: nat.splits)
qed simp

text \<open>\<open>xs.chunks(k)\<close> (the last window may be shorter) and \<open>xs.chunks_exact(k)\<close> (it is dropped).\<close>

fun chunks_of :: "nat \<Rightarrow> 'a list \<Rightarrow> 'a list list" where
  "chunks_of k xs = (if k = 0 \<or> xs = [] then [] else take k xs # chunks_of k (drop k xs))"

declare chunks_of.simps [simp del]

definition chunks_exact :: "nat \<Rightarrow> 'a list \<Rightarrow> 'a list list" where
  "chunks_exact k xs = filter (\<lambda>c. length c = k) (chunks_of k xs)"

lemma chunks_of_Nil [simp]: "chunks_of k [] = []"
  by (simp add: chunks_of.simps)

lemma chunks_of_step: "0 < k \<Longrightarrow> xs \<noteq> [] \<Longrightarrow> chunks_of k xs = take k xs # chunks_of k (drop k xs)"
  by (subst chunks_of.simps) simp

lemma concat_chunks_of: "0 < k \<Longrightarrow> concat (chunks_of k xs) = xs"
proof (induction k xs rule: chunks_of.induct)
  case (1 k xs)
  then show ?case by (cases "xs = []") (auto simp: chunks_of_step)
qed

lemma chunks_of_multiple:
  "0 < k \<Longrightarrow> length xs = q * k \<Longrightarrow>
   length (chunks_of k xs) = q \<and> (\<forall>c \<in> set (chunks_of k xs). length c = k)"
proof (induction q arbitrary: xs)
  case (Suc q)
  from Suc.prems have "xs \<noteq> []" and len: "length (drop k xs) = q * k" by auto
  then have step: "chunks_of k xs = take k xs # chunks_of k (drop k xs)"
    using Suc.prems(1) by (simp add: chunks_of_step)
  have "length (take k xs) = k" using Suc.prems by simp
  with Suc.IH [OF Suc.prems(1) len] show ?case
    unfolding step by simp
qed simp

lemma chunks_exact_multiple:
  assumes "0 < k" and "length xs = q * k"
  shows "chunks_exact k xs = chunks_of k xs"
    and "length (chunks_exact k xs) = q"
    and "\<forall>c \<in> set (chunks_exact k xs). length c = k"
    and "concat (chunks_exact k xs) = xs"
proof -
  from chunks_of_multiple [OF assms]
  show eq: "chunks_exact k xs = chunks_of k xs"
    by (simp add: chunks_exact_def)
  from chunks_of_multiple [OF assms] concat_chunks_of [OF assms(1)]
  show "length (chunks_exact k xs) = q"
    and "\<forall>c \<in> set (chunks_exact k xs). length c = k"
    and "concat (chunks_exact k xs) = xs"
    by (simp_all add: eq)
qed

lemma chunks_of_length_le: "c \<in> set (chunks_of k xs) \<Longrightarrow> length c \<le> k"
proof (induction k xs rule: chunks_of.induct)
  case (1 k xs)
  then show ?case by (subst (asm) chunks_of.simps) (auto split: if_splits)
qed

text \<open>\<open>v.resize(k, x)\<close>.\<close>

definition resize :: "nat \<Rightarrow> 'a \<Rightarrow> 'a list \<Rightarrow> 'a list" where
  "resize k x xs = take k xs @ replicate (k - length xs) x"

lemma length_resize [simp]: "length (resize k x xs) = k"
  by (simp add: resize_def)

section \<open>Randomness\<close>

text \<open>
  The random number generator is a parameter of the model: a state \<open>'r\<close> and a function that
  draws one value. Drawing \<open>n\<close> values in order threads the state.
\<close>

fun draw_n :: "('r \<Rightarrow> 'a \<times> 'r) \<Rightarrow> nat \<Rightarrow> 'r \<Rightarrow> 'a list \<times> 'r" where
  "draw_n draw 0 r = ([], r)"
| "draw_n draw (Suc n) r =
     (let (x, r1) = draw r; (xs, r2) = draw_n draw n r1 in (x # xs, r2))"

lemma length_draw_n [simp]: "length (fst (draw_n draw n r)) = n"
  by (induction n arbitrary: r) (auto simp: case_prod_beta Let_def)

section \<open>Integers as bytes\<close>

text \<open>\<open>u64::to_le_bytes\<close>, \<open>u64::to_be_bytes\<close> and \<open>u64::from_be_bytes\<close>.\<close>

definition to_le_bytes :: "u64 \<Rightarrow> bytes" where
  "to_le_bytes x = map (\<lambda>i. ucast (drop_bit (8 * i) x)) [0..<8]"

definition to_be_bytes :: "u64 \<Rightarrow> bytes" where
  "to_be_bytes x = rev (to_le_bytes x)"

definition from_be_bytes :: "bytes \<Rightarrow> u64" where
  "from_be_bytes bs = fold (\<lambda>b acc. push_bit 8 acc + ucast b) bs 0"

lemma length_to_le_bytes [simp]: "length (to_le_bytes x) = 8"
  by (simp add: to_le_bytes_def)

lemma length_to_be_bytes [simp]: "length (to_be_bytes x) = 8"
  by (simp add: to_be_bytes_def)

lemma ucast_byte: "ucast (ucast (y :: u64) :: u8) = take_bit 8 y"
  by (rule bit_word_eqI) (auto simp: bit_simps)

lemma be_step: "push_bit 8 (drop_bit (n + 8) x) + ucast (ucast (drop_bit n (x :: u64)) :: u8) = drop_bit n x"
proof -
  have "drop_bit (n + 8) x = drop_bit 8 (drop_bit n x)" by (simp add: add.commute)
  then show ?thesis by (simp only: ucast_byte bits_ident)
qed

lemma from_be_bytes_to_be_bytes [simp]: "from_be_bytes (to_be_bytes x) = x"
proof -
  have top: "drop_bit 64 x = 0" by (rule bit_word_eqI) (simp add: bit_simps)
  have "to_be_bytes x = map (\<lambda>n. ucast (drop_bit n x)) [56, 48, 40, 32, 24, 16, 8, 0]"
    by (simp add: to_be_bytes_def to_le_bytes_def upt_rec)
  then show ?thesis
    using be_step [of 56 x] be_step [of 48 x] be_step [of 40 x] be_step [of 32 x]
      be_step [of 24 x] be_step [of 16 x] be_step [of 8 x] be_step [of 0 x] top
    by (simp add: from_be_bytes_def)
qed

end
