(* ===== verification/Linalg.thy ===== *)
theory Linalg
  imports Prelude
begin

text \<open>
  \<open>crates/primitives/math/src/linalg.rs\<close>: linear combinations of vectors of field elements,
  random coefficient vectors, and re-encoding. The Rust code is generic over \<open>F: Field\<close>; the model
  is generic over HOL's type class of fields. \<open>comb\<close> is the mathematical linear combination the
  loops are compared with.

  \<open>linear_combination\<close> is modelled as the release build runs it: its \<open>debug_assert!\<close> on the inner
  lengths is not compiled, and \<open>zip\<close> stops at the shorter vector.
\<close>

section \<open>The operations\<close>

definition lc_step :: "'f::field list \<times> 'f \<Rightarrow> 'f list \<Rightarrow> 'f list" where
  "lc_step = (\<lambda>(vec, coeff) result. zip_update (\<lambda>r v. r + v * coeff) result vec)"

definition linear_combination :: "'f::field list list \<Rightarrow> 'f list \<Rightarrow> 'f list run" where
  "linear_combination vecs coeffs =
     assertR (vecs \<noteq> []) NoVectors
       (assertR (length vecs = length coeffs) CoeffLengthMismatch
         (Inr (fold lc_step (zip vecs coeffs) (replicate (length (hd vecs)) 0))))"

definition random_coefficients :: "('r \<Rightarrow> 'f \<times> 'r) \<Rightarrow> nat \<Rightarrow> 'r \<Rightarrow> 'f list \<times> 'r" where
  "random_coefficients random n rng = draw_n random n rng"

definition reencode ::
  "'f::field list list \<Rightarrow> 'f list list \<Rightarrow> 'f list \<Rightarrow> ('f list \<times> 'f list) run" where
  "reencode data_vecs coeff_vecs alphas =
     bindR (linear_combination data_vecs alphas) (\<lambda>new_data.
       bindR (linear_combination coeff_vecs alphas) (\<lambda>new_coeffs.
         Inr (new_data, new_coeffs)))"

section \<open>The mathematical linear combination\<close>

text \<open>Entry \<open>k\<close> of the combination of the rows \<open>R\<close> with the coefficients \<open>c 0, c 1, \<dots>\<close>.\<close>

definition comb :: "(nat \<Rightarrow> 'f::field) \<Rightarrow> 'f list list \<Rightarrow> nat \<Rightarrow> 'f" where
  "comb c R k = (\<Sum>i < length R. c i * R ! i ! k)"

text \<open>A vector of length \<open>n\<close> is in the span of \<open>R\<close>.\<close>

definition in_span :: "nat \<Rightarrow> 'f::field list list \<Rightarrow> 'f list \<Rightarrow> bool" where
  "in_span n R v \<longleftrightarrow> (\<exists>c. \<forall>k < n. v ! k = comb c R k)"

definition unit_vec :: "nat \<Rightarrow> nat \<Rightarrow> 'f::field list" where
  "unit_vec n i = (replicate n 0)[i := 1]"

lemma length_unit_vec [simp]: "length (unit_vec n i) = n"
  by (simp add: unit_vec_def)

lemma nth_unit_vec [simp]: "k < n \<Longrightarrow> unit_vec n i ! k = (if k = i then 1 else 0)"
  by (auto simp: unit_vec_def nth_list_update)

lemma comb_Nil [simp]: "comb c [] k = 0"
  by (simp add: comb_def)

lemma comb_snoc: "comb c (R @ [r]) k = comb c R k + c (length R) * r ! k"
  by (simp add: comb_def nth_append)

lemma comb_Cons: "comb c (r # R) k = c 0 * r ! k + comb (\<lambda>i. c (Suc i)) R k"
  by (simp add: comb_def sum.lessThan_Suc_shift del: sum.lessThan_Suc)

lemma comb_cong: "(\<And>i. i < length R \<Longrightarrow> c i = d i) \<Longrightarrow> comb c R k = comb d R k"
  by (auto simp: comb_def intro: sum.cong)

lemma comb_add: "comb (\<lambda>i. c i + d i) R k = comb c R k + comb d R k"
  by (simp add: comb_def algebra_simps sum.distrib)

lemma comb_diff: "comb (\<lambda>i. c i - d i) R k = comb c R k - comb d R k"
  by (simp add: comb_def algebra_simps sum_subtractf)

lemma comb_scale: "comb (\<lambda>i. a * c i) R k = a * comb c R k"
  by (simp add: comb_def sum_distrib_left mult.assoc)

lemma comb_scale_right: "comb (\<lambda>i. c i * a) R k = comb c R k * a"
  by (simp add: comb_def sum_distrib_right mult.assoc mult.commute [of a] mult.left_commute)

lemma comb_zero [simp]: "comb (\<lambda>i. 0) R k = 0"
  by (simp add: comb_def)

lemma comb_delta: "j < length R \<Longrightarrow> comb (\<lambda>i. if i = j then a else 0) R k = a * R ! j ! k"
  by (simp add: comb_def if_distrib [where f = "\<lambda>x. x * _"] cong: if_cong)

text \<open>
  Combining combinations: the matrix product is associative. \<open>C ! i\<close> holds the coefficients of
  row \<open>i\<close> over \<open>R\<close>.
\<close>

lemma comb_comb:
  assumes "\<And>i. i < length W \<Longrightarrow> W ! i ! k = comb (\<lambda>j. C i j) R k"
  shows "comb a W k = comb (\<lambda>j. \<Sum>i < length W. a i * C i j) R k"
proof -
  have "comb a W k = (\<Sum>i < length W. a i * (\<Sum>j < length R. C i j * R ! j ! k))"
    by (simp add: comb_def [of a] assms) (simp add: comb_def)
  also have "\<dots> = (\<Sum>i < length W. \<Sum>j < length R. a i * C i j * R ! j ! k)"
    by (simp add: sum_distrib_left mult.assoc)
  also have "\<dots> = (\<Sum>j < length R. \<Sum>i < length W. a i * C i j * R ! j ! k)"
    by (rule sum.swap)
  finally show ?thesis
    by (simp add: comb_def sum_distrib_right)
qed

section \<open>The span\<close>

lemma in_spanI: "(\<And>k. k < n \<Longrightarrow> v ! k = comb c R k) \<Longrightarrow> in_span n R v"
  by (auto simp: in_span_def)

lemma in_span_member: "i < length R \<Longrightarrow> in_span n R (R ! i)"
  by (rule in_spanI [where c = "\<lambda>j. if j = i then 1 else 0"]) (simp add: comb_delta)

lemma in_span_comb2:
  assumes "in_span n R u" "in_span n R v"
    and "\<And>k. k < n \<Longrightarrow> x ! k = a * u ! k + b * v ! k"
  shows "in_span n R x"
proof -
  from assms(1,2) obtain c d where
    c: "\<And>k. k < n \<Longrightarrow> u ! k = comb c R k" and d: "\<And>k. k < n \<Longrightarrow> v ! k = comb d R k"
    by (auto simp: in_span_def)
  show ?thesis
    by (rule in_spanI [where c = "\<lambda>i. a * c i + b * d i"])
       (simp add: assms(3) c d comb_add comb_scale)
qed

lemma in_span_snoc:
  assumes "in_span n R v"
  shows "in_span n (R @ [r]) v"
proof -
  from assms obtain c where c: "\<And>k. k < n \<Longrightarrow> v ! k = comb c R k"
    by (auto simp: in_span_def)
  show ?thesis
    by (rule in_spanI [where c = "\<lambda>i. if i < length R then c i else 0"])
       (simp add: c comb_snoc cong: comb_cong)
qed

lemma in_span_trans:
  assumes "in_span n R v" and "\<And>i. i < length R \<Longrightarrow> in_span n S (R ! i)"
  shows "in_span n S v"
proof -
  from assms(1) obtain c where c: "\<And>k. k < n \<Longrightarrow> v ! k = comb c R k"
    by (auto simp: in_span_def)
  from assms(2) obtain C where C: "\<And>i k. i < length R \<Longrightarrow> k < n \<Longrightarrow> R ! i ! k = comb (C i) S k"
    unfolding in_span_def by metis
  show ?thesis
  proof (rule in_spanI)
    fix k assume "k < n"
    then show "v ! k = comb (\<lambda>j. \<Sum>i < length R. c i * C i j) S k"
      using c [of k] comb_comb [of R k C S c] C by simp
  qed
qed

section \<open>The loops compute the mathematical combination\<close>

lemma length_fold_lc_step [simp]:
  "length (fold lc_step ps acc) = length acc"
  by (induction ps arbitrary: acc) (auto simp: lc_step_def split: prod.splits)

lemma nth_fold_lc_step:
  assumes "length vecs = length coeffs" "\<forall>v \<in> set vecs. length v = m" "length acc = m" "k < m"
  shows "fold lc_step (zip vecs coeffs) acc ! k = acc ! k + comb ((!) coeffs) vecs k"
  using assms
proof (induction vecs coeffs arbitrary: acc rule: list_induct2)
  case (Cons v vs c cs)
  then show ?case
    by (simp add: lc_step_def nth_zip_update comb_Cons algebra_simps)
qed simp

lemma linear_combination_comb:
  assumes "vecs \<noteq> []" "length coeffs = length vecs" "\<forall>v \<in> set vecs. length v = m"
  shows "linear_combination vecs coeffs = Inr (map (comb ((!) coeffs) vecs) [0..<m])"
proof -
  let ?acc = "replicate m (0::'a)"
  have m: "length (hd vecs) = m" using assms by simp
  have "fold lc_step (zip vecs coeffs) ?acc = map (comb ((!) coeffs) vecs) [0..<m]"
    by (rule nth_equalityI)
       (use assms nth_fold_lc_step [of vecs coeffs m ?acc] in \<open>auto simp: comb_def\<close>)
  with assms m show ?thesis by (simp add: linear_combination_def)
qed

text \<open>With no length discipline at all the result still has the length of the first vector.\<close>

lemma linear_combination_Inr:
  "linear_combination vecs coeffs = Inr r \<longleftrightarrow>
     vecs \<noteq> [] \<and> length vecs = length coeffs \<and>
     r = fold lc_step (zip vecs coeffs) (replicate (length (hd vecs)) 0)"
  by (auto simp: linear_combination_def assertR_eq_Inr)

lemma linear_combination_length:
  "linear_combination vecs coeffs = Inr r \<Longrightarrow> length r = length (hd vecs)"
  by (simp add: linear_combination_Inr)

lemma linear_combination_panics:
  "linear_combination [] coeffs = Inl NoVectors"
  "vecs \<noteq> [] \<Longrightarrow> length vecs \<noteq> length coeffs \<Longrightarrow>
     linear_combination vecs coeffs = Inl CoeffLengthMismatch"
  by (simp_all add: linear_combination_def)

end
