(* ===== verification/Echelon.thy ===== *)
theory Echelon
  imports Linalg
begin

text \<open>
  \<open>crates/primitives/math/src/echelon.rs\<close>: the incremental row-echelon tracker. This theory holds
  the state, \<open>new\<close>, \<open>add_row\<close>, \<open>rank\<close>, \<open>is_full\<close>, \<open>inverse\<close> and \<open>reset\<close>, the well-formedness
  invariant, and the correctness of \<open>add_row\<close>; \<open>Echelon_Inverse\<close> proves \<open>inverse\<close>.
\<close>

section \<open>State and operations\<close>

record 'f incremental_echelon =
  ie_n :: nat
  ie_echelon :: "'f list list"
  ie_pivots :: "nat list"
  ie_transform :: "'f list list"

definition ie_new :: "nat \<Rightarrow> 'f incremental_echelon" where
  "ie_new n = \<lparr>ie_n = n, ie_echelon = [], ie_pivots = [], ie_transform = []\<rparr>"

definition ie_rank :: "'f incremental_echelon \<Rightarrow> nat" where
  "ie_rank s = length (ie_echelon s)"

definition ie_is_full :: "'f incremental_echelon \<Rightarrow> bool" where
  "ie_is_full s \<longleftrightarrow> length (ie_echelon s) = ie_n s"

definition ie_reset :: "'f incremental_echelon \<Rightarrow> 'f incremental_echelon" where
  "ie_reset s = s\<lparr>ie_echelon := [], ie_pivots := [], ie_transform := []\<rparr>"

text \<open>One iteration of "reduce against existing echelon rows".\<close>

definition sub_scaled :: "'f::field \<Rightarrow> 'f list \<Rightarrow> 'f list \<Rightarrow> 'f list" where
  "sub_scaled factor xs es = zip_update (\<lambda>x e. x - e * factor) xs es"

definition reduce_step ::
  "'f::field incremental_echelon \<Rightarrow> nat \<Rightarrow> 'f list \<times> 'f list \<Rightarrow> ('f list \<times> 'f list) run" where
  "reduce_step s j = (\<lambda>(row, trow).
     bindR (idx (ie_pivots s) j) (\<lambda>pivot_col.
     bindR (idx row pivot_col) (\<lambda>factor.
       if factor = 0 then Inr (row, trow)
       else bindR (idx (ie_echelon s) j) (\<lambda>erow.
            bindR (idx (ie_transform s) j) (\<lambda>terow.
              Inr (sub_scaled factor row erow, sub_scaled factor trow terow))))))"

definition ie_add_row ::
  "'f::field incremental_echelon \<Rightarrow> 'f list \<Rightarrow> ('f incremental_echelon \<times> bool) run" where
  "ie_add_row s row0 =
     assertR (length row0 = ie_n s) RowLengthMismatch
     (assertR (\<not> ie_is_full s) MatrixAlreadyFull
     (let rank = length (ie_echelon s) in
      bindR (upd (replicate (ie_n s) 0) rank 1) (\<lambda>trow0.
      bindR (foldR (reduce_step s) [0..<rank] (row0, trow0)) (\<lambda>(row, trow).
        case position (\<lambda>x. x \<noteq> 0) row of
          None \<Rightarrow> Inr (s, False)
        | Some pivot \<Rightarrow>
            bindR (idx row pivot) (\<lambda>p.
              let inv = inverse p in
              Inr (s\<lparr>ie_echelon := ie_echelon s @ [map (\<lambda>x. x * inv) row],
                     ie_pivots := ie_pivots s @ [pivot],
                     ie_transform := ie_transform s @ [map (\<lambda>x. x * inv) trow]\<rparr>, True))))))"

text \<open>
  Back-substitution. The inner loop body works on row \<open>i\<close> of both matrices with row \<open>j\<close>;
  \<open>split_at_mut(j)\<close> only serves the borrow checker, \<open>upper[i]\<close> is row \<open>i\<close> and \<open>lower[0]\<close> row \<open>j\<close>.
\<close>

definition back_step ::
  "nat list \<Rightarrow> nat \<Rightarrow> nat \<Rightarrow> 'f::field list list \<times> 'f list list \<Rightarrow>
   ('f list list \<times> 'f list list) run" where
  "back_step pivots j i = (\<lambda>(ech, tr).
     bindR (idx pivots j) (\<lambda>pivot_col.
     bindR (idx ech i) (\<lambda>ech_i.
     bindR (idx ech_i pivot_col) (\<lambda>factor.
       if factor = 0 then Inr (ech, tr)
       else bindR (idx ech j) (\<lambda>ech_j.
            bindR (idx tr i) (\<lambda>tr_i.
            bindR (idx tr j) (\<lambda>tr_j.
              Inr (ech[i := sub_scaled factor ech_i ech_j],
                   tr[i := sub_scaled factor tr_i tr_j]))))))))"

definition back_substitute ::
  "nat list \<Rightarrow> nat \<Rightarrow> 'f::field list list \<times> 'f list list \<Rightarrow>
   ('f list list \<times> 'f list list) run" where
  "back_substitute pivots n st =
     foldR (\<lambda>j. foldR (back_step pivots j) [0..<j]) (rev [0..<n]) st"

text \<open>\<open>core::mem::take\<close> leaves an empty row behind; row \<open>j\<close> is taken once, for \<open>inverse[pivots[j]]\<close>.\<close>

definition place_rows ::
  "nat list \<Rightarrow> nat \<Rightarrow> 'f::field list list \<Rightarrow> 'f list list run" where
  "place_rows pivots n tr =
     foldR (\<lambda>j inv. bindR (idx tr j) (\<lambda>row. bindR (idx pivots j) (\<lambda>p. upd inv p row)))
       [0..<n] (replicate n (replicate n 0))"

definition ie_inverse :: "'f::field incremental_echelon \<Rightarrow> 'f list list run" where
  "ie_inverse s =
     assertR (ie_is_full s) MatrixNotFull
       (bindR (back_substitute (ie_pivots s) (ie_n s) (ie_echelon s, ie_transform s))
         (\<lambda>(ech, tr). place_rows (ie_pivots s) (ie_n s) tr))"

section \<open>Well-formedness\<close>

text \<open>
  \<open>ie_wf R s\<close>: the tracker \<open>s\<close> is in order and has accepted exactly the rows \<open>R\<close>, oldest first
  (\<open>R\<close> is not stored by the code). Each echelon row starts with a one at its pivot, is zero at the
  pivots of the rows before it, and is the combination of \<open>R\<close> its transformation row says;
  transformation row \<open>j\<close> uses rows up to \<open>j\<close> only. Together \<open>R\<close> and the echelon rows span the
  same vectors.
\<close>

definition derives :: "nat \<Rightarrow> 'f::field list list \<Rightarrow> 'f list \<Rightarrow> 'f list \<Rightarrow> bool" where
  "derives n R row trow \<longleftrightarrow> length row = n \<and> length trow = n \<and>
     (\<forall>k < n. row ! k = comb ((!) trow) R k)"

definition ech_row_ok :: "nat \<Rightarrow> 'f::field list list \<Rightarrow> nat list \<Rightarrow> nat \<Rightarrow> bool" where
  "ech_row_ok n ech piv j \<longleftrightarrow> length (ech ! j) = n \<and> piv ! j < n \<and> ech ! j ! (piv ! j) = 1 \<and>
     (\<forall>i < j. ech ! j ! (piv ! i) = 0)"

definition ie_wf :: "'f::field list list \<Rightarrow> 'f incremental_echelon \<Rightarrow> bool" where
  "ie_wf R s \<longleftrightarrow>
     (let r = length R; ech = ie_echelon s; piv = ie_pivots s; tr = ie_transform s in
      r \<le> ie_n s \<and> (\<forall>v \<in> set R. length v = ie_n s) \<and>
      length ech = r \<and> length piv = r \<and> length tr = r \<and>
      (\<forall>j < r. ech_row_ok (ie_n s) ech piv j \<and> derives (ie_n s) R (ech ! j) (tr ! j) \<and>
         (\<forall>i. j < i \<and> i < ie_n s \<longrightarrow> tr ! j ! i = 0)) \<and>
      (\<forall>i < r. in_span (ie_n s) ech (R ! i)))"

lemma ie_wfD:
  assumes "ie_wf R s"
  shows "length R \<le> ie_n s" "v \<in> set R \<Longrightarrow> length v = ie_n s"
    "length (ie_echelon s) = length R" "length (ie_pivots s) = length R"
    "length (ie_transform s) = length R"
    "j < length R \<Longrightarrow> ech_row_ok (ie_n s) (ie_echelon s) (ie_pivots s) j"
    "j < length R \<Longrightarrow> derives (ie_n s) R (ie_echelon s ! j) (ie_transform s ! j)"
    "j < length R \<Longrightarrow> j < i \<Longrightarrow> i < ie_n s \<Longrightarrow> ie_transform s ! j ! i = 0"
    "j < length R \<Longrightarrow> in_span (ie_n s) (ie_echelon s) (R ! j)"
  using assms by (auto simp: ie_wf_def Let_def)

lemma ie_wf_new: "ie_wf [] (ie_new n)"
  by (simp add: ie_wf_def ie_new_def)

lemma ie_wf_reset: "ie_wf [] (ie_reset s)"
  by (simp add: ie_wf_def ie_reset_def)

lemma ie_n_new [simp]: "ie_n (ie_new n) = n"
  by (simp add: ie_new_def)

lemma ie_n_reset [simp]: "ie_n (ie_reset s) = ie_n s"
  by (simp add: ie_reset_def)

lemma ie_wf_rank: "ie_wf R s \<Longrightarrow> ie_rank s = length R"
  by (simp add: ie_rank_def ie_wfD)

lemma ie_wf_full: "ie_wf R s \<Longrightarrow> ie_is_full s \<longleftrightarrow> length R = ie_n s"
  by (simp add: ie_is_full_def ie_wfD)

lemma ie_reset_new: "ie_reset s = ie_new (ie_n s)"
  by (simp add: ie_reset_def ie_new_def)

section \<open>The reduction loop\<close>

lemma length_sub_scaled [simp, vec_simps]: "length (sub_scaled f xs es) = length xs"
  by (simp add: sub_scaled_def)

lemma nth_sub_scaled [vec_simps]:
  "k < length xs \<Longrightarrow> length es = length xs \<Longrightarrow> sub_scaled f xs es ! k = xs ! k - es ! k * f"
  by (simp add: sub_scaled_def nth_zip_update)

lemma derives_sub_scaled:
  assumes "derives n R row trow" "derives n R erow terow" "length R \<le> n"
  shows "derives n R (sub_scaled f row erow) (sub_scaled f trow terow)"
proof -
  have "comb ((!) (sub_scaled f trow terow)) R k
      = comb (\<lambda>i. trow ! i - terow ! i * f) R k" for k
    using assms by (intro comb_cong) (auto simp: derives_def nth_sub_scaled)
  then show ?thesis
    using assms by (auto simp: derives_def nth_sub_scaled comb_diff comb_scale_right)
qed

lemma derives_scale:
  assumes "derives n R row trow" "length R \<le> n"
  shows "derives n R (map (\<lambda>x. x * a) row) (map (\<lambda>x. x * a) trow)"
proof -
  have "comb ((!) (map (\<lambda>x. x * a) trow)) R k = comb (\<lambda>i. trow ! i * a) R k" for k
    using assms by (intro comb_cong) (auto simp: derives_def)
  then show ?thesis
    using assms by (auto simp: derives_def comb_scale_right)
qed

lemma derives_snoc:
  assumes "derives n R row trow" "trow ! length R = 0"
  shows "derives n (R @ [r]) row trow"
  using assms by (auto simp: derives_def comb_snoc)

text \<open>
  What the reduction loop keeps true after the first \<open>j\<close> echelon rows: the row is zero at their
  pivots; the transformation row derives it from the rows accepted so far and the new one, and
  still has its one at the new row's position; and row and input differ by a vector in the span of
  the echelon rows.
\<close>

definition reduce_inv ::
  "'f::field list list \<Rightarrow> 'f incremental_echelon \<Rightarrow> 'f list \<Rightarrow> nat \<Rightarrow> 'f list \<times> 'f list \<Rightarrow> bool" where
  "reduce_inv R s row0 j = (\<lambda>(row, trow).
     derives (ie_n s) (R @ [row0]) row trow \<and>
     trow ! length R = 1 \<and> (\<forall>i. length R < i \<and> i < ie_n s \<longrightarrow> trow ! i = 0) \<and>
     (\<forall>i < j. row ! (ie_pivots s ! i) = 0) \<and>
     (\<exists>c. \<forall>k < ie_n s. row ! k = row0 ! k - comb c (ie_echelon s) k))"

lemma reduce_inv_start:
  assumes "length row0 = ie_n s" "length R < ie_n s"
  shows "reduce_inv R s row0 0 (row0, (replicate (ie_n s) 0)[length R := 1])"
proof -
  let ?t = "(replicate (ie_n s) 0)[length R := 1 :: 'a]"
  have "comb ((!) ?t) R k = comb (\<lambda>i. 0) R k" for k
    using assms by (intro comb_cong) (auto simp: nth_list_update)
  then have "derives (ie_n s) (R @ [row0]) row0 ?t"
    using assms by (simp add: derives_def comb_snoc)
  moreover have "\<exists>c. \<forall>k < ie_n s. row0 ! k = row0 ! k - comb c (ie_echelon s) k"
    by (rule exI [of _ "\<lambda>i. 0"]) simp
  ultimately show ?thesis
    using assms by (auto simp: reduce_inv_def)
qed

lemma reduce_step_inv:
  assumes wf: "ie_wf R s" and lt: "length R < ie_n s" and j: "j < length R"
    and inv: "reduce_inv R s row0 j st"
  shows "\<exists>st'. reduce_step s j st = Inr st' \<and> reduce_inv R s row0 (Suc j) st'"
proof -
  note D = ie_wfD [OF wf]
  obtain row trow where st: "st = (row, trow)" by (cases st)
  define pc where "pc = ie_pivots s ! j"
  from inv have dv: "derives (ie_n s) (R @ [row0]) row trow"
    and t1: "trow ! length R = 1" and t0: "\<And>i. length R < i \<Longrightarrow> i < ie_n s \<Longrightarrow> trow ! i = 0"
    and z: "\<And>i. i < j \<Longrightarrow> row ! (ie_pivots s ! i) = 0"
    and sp: "\<exists>c. \<forall>k < ie_n s. row ! k = row0 ! k - comb c (ie_echelon s) k"
    by (auto simp: reduce_inv_def st)
  from dv have len: "length row = ie_n s" "length trow = ie_n s"
    by (simp_all add: derives_def)
  from D(6) [OF j] have ok: "length (ie_echelon s ! j) = ie_n s" "pc < ie_n s"
    "ie_echelon s ! j ! pc = 1" "\<And>i. i < j \<Longrightarrow> ie_echelon s ! j ! (ie_pivots s ! i) = 0"
    by (auto simp: ech_row_ok_def pc_def)
  from D(7) [OF j] have dj: "derives (ie_n s) R (ie_echelon s ! j) (ie_transform s ! j)" .
  then have lt_j: "length (ie_transform s ! j) = ie_n s" by (simp add: derives_def)
  show ?thesis
  proof (cases "row ! pc = 0")
    case True
    then have "reduce_step s j st = Inr st"
      using j D(4) len ok(2) by (simp add: reduce_step_def st pc_def [symmetric])
    moreover have "reduce_inv R s row0 (Suc j) st"
      using inv True by (auto simp: reduce_inv_def st pc_def less_Suc_eq)
    ultimately show ?thesis by blast
  next
    case False
    let ?f = "row ! pc"
    let ?row = "sub_scaled ?f row (ie_echelon s ! j)"
    let ?trow = "sub_scaled ?f trow (ie_transform s ! j)"
    have step: "reduce_step s j st = Inr (?row, ?trow)"
      using j D(3,4,5) len ok(2) False by (simp add: reduce_step_def st pc_def [symmetric])
    have "derives (ie_n s) (R @ [row0]) (ie_echelon s ! j) (ie_transform s ! j)"
      by (rule derives_snoc [OF dj]) (use D(8) [OF j, of "length R"] j lt in simp)
    then have 1: "derives (ie_n s) (R @ [row0]) ?row ?trow"
      by (rule derives_sub_scaled [OF dv]) (use lt in simp)
    have 2: "?trow ! length R = 1 \<and> (\<forall>i. length R < i \<and> i < ie_n s \<longrightarrow> ?trow ! i = 0)"
      using t1 t0 D(8) [OF j] j lt len lt_j by (auto simp: nth_sub_scaled)
    have 3: "?row ! (ie_pivots s ! i) = 0" if "i < Suc j" for i
    proof (cases "i = j")
      case True
      then show ?thesis using ok len by (simp add: pc_def [symmetric] nth_sub_scaled)
    next
      case False
      with that have i: "i < j" by simp
      then have "ie_pivots s ! i < ie_n s"
        using D(6) [of i] j by (simp add: ech_row_ok_def)
      then show ?thesis using z [OF i] ok(1) ok(4) [OF i] len by (simp add: nth_sub_scaled)
    qed
    from sp obtain c where c: "\<And>k. k < ie_n s \<Longrightarrow> row ! k = row0 ! k - comb c (ie_echelon s) k"
      by auto
    have "?row ! k = row0 ! k - comb (\<lambda>i. c i + (if i = j then ?f else 0)) (ie_echelon s) k"
      if "k < ie_n s" for k
      using that c [OF that] len ok(1) j D(3)
      by (simp add: nth_sub_scaled comb_add comb_delta mult.commute)
    then have 4: "\<exists>c. \<forall>k < ie_n s. ?row ! k = row0 ! k - comb c (ie_echelon s) k" by blast
    from 1 2 3 4 have "reduce_inv R s row0 (Suc j) (?row, ?trow)"
      by (auto simp: reduce_inv_def)
    with step show ?thesis by blast
  qed
qed

lemma reduce_loop:
  assumes wf: "ie_wf R s" and lt: "length R < ie_n s" and len: "length row0 = ie_n s"
    and "j \<le> length R"
  shows "\<exists>st. foldR (reduce_step s) [0..<j] (row0, (replicate (ie_n s) 0)[length R := 1]) = Inr st
            \<and> reduce_inv R s row0 j st"
  using assms(4)
proof (induction j)
  case 0
  then show ?case using reduce_inv_start [OF len lt] by simp
next
  case (Suc j)
  then obtain st where
    "foldR (reduce_step s) [0..<j] (row0, (replicate (ie_n s) 0)[length R := 1]) = Inr st"
    and inv: "reduce_inv R s row0 j st" by auto
  moreover from Suc.prems have "j < length R" by simp
  from reduce_step_inv [OF wf lt this inv] obtain st' where
    "reduce_step s j st = Inr st'" "reduce_inv R s row0 (Suc j) st'" by blast
  ultimately show ?case by (auto simp: foldR_append)
qed

section \<open>Spans of an echelon family\<close>

text \<open>A combination of echelon rows that vanishes at every pivot is zero.\<close>

lemma triangular_zero:
  assumes rows: "\<And>j. j < length ech \<Longrightarrow> ech_row_ok n ech piv j"
    and zero: "\<And>j. j < length ech \<Longrightarrow> comb c ech (piv ! j) = 0"
  shows "j < length ech \<Longrightarrow> c j = 0"
proof (induction j rule: less_induct)
  case (less j)
  have "c i * ech ! i ! (piv ! j) = (if i = j then c j else 0)" if "i < length ech" for i
  proof (cases i j rule: linorder_cases)
    case less
    with less.IH [of i] that show ?thesis by simp
  next
    case equal
    then show ?thesis using rows [OF that] by (simp add: ech_row_ok_def)
  next
    case greater
    then show ?thesis using rows [OF that] by (simp add: ech_row_ok_def)
  qed
  then have "comb c ech (piv ! j) = (\<Sum>i < length ech. if i = j then c j else 0)"
    by (simp add: comb_def)
  also have "\<dots> = c j" using less.prems by simp
  finally show ?case using zero [OF less.prems] by simp
qed

lemma span_zero_at_pivots:
  assumes rows: "\<And>j. j < length ech \<Longrightarrow> ech_row_ok n ech piv j"
    and sp: "in_span n ech v"
    and zero: "\<And>j. j < length ech \<Longrightarrow> v ! (piv ! j) = 0"
    and k: "k < n"
  shows "v ! k = 0"
proof -
  from sp obtain c where c: "\<And>k. k < n \<Longrightarrow> v ! k = comb c ech k"
    by (auto simp: in_span_def)
  have "comb c ech (piv ! j) = 0" if "j < length ech" for j
    using c [of "piv ! j"] zero [OF that] rows [OF that] by (simp add: ech_row_ok_def)
  then have "c j = 0" if "j < length ech" for j
    using triangular_zero [OF rows] that by blast
  then show ?thesis using c [OF k] by (simp add: comb_def)
qed

text \<open>The rows accepted and the echelon rows span the same vectors.\<close>

lemma ie_wf_span_iff:
  assumes wf: "ie_wf R s"
  shows "in_span (ie_n s) (ie_echelon s) v \<longleftrightarrow> in_span (ie_n s) R v"
proof
  assume "in_span (ie_n s) R v"
  then show "in_span (ie_n s) (ie_echelon s) v"
    by (rule in_span_trans) (rule ie_wfD(9) [OF wf])
next
  assume "in_span (ie_n s) (ie_echelon s) v"
  then show "in_span (ie_n s) R v"
  proof (rule in_span_trans)
    fix i assume "i < length (ie_echelon s)"
    then have "derives (ie_n s) R (ie_echelon s ! i) (ie_transform s ! i)"
      using ie_wfD(3,7) [OF wf] by simp
    then show "in_span (ie_n s) R (ie_echelon s ! i)"
      by (auto simp: derives_def intro: in_spanI)
  qed
qed


section \<open>add_row\<close>

lemma ech_row_ok_snoc:
  "j < length ech \<Longrightarrow> length piv = length ech \<Longrightarrow>
   ech_row_ok n (ech @ [e]) (piv @ [p]) j = ech_row_ok n ech piv j"
  by (auto simp: ech_row_ok_def nth_append)

text \<open>Appending a normalised independent row keeps the tracker well formed.\<close>

lemma ie_wf_push:
  fixes row0 :: "'f::field list"
  assumes wf: "ie_wf R s" and lt: "length R < ie_n s" and len: "length row0 = ie_n s"
    and inv: "reduce_inv R s row0 (length R) (row, trow)"
    and piv: "pivot < ie_n s" "row ! pivot \<noteq> 0"
  shows "ie_wf (R @ [row0])
    (s\<lparr>ie_echelon := ie_echelon s @ [map (\<lambda>x. x * inverse (row ! pivot)) row],
       ie_pivots := ie_pivots s @ [pivot],
       ie_transform := ie_transform s @ [map (\<lambda>x. x * inverse (row ! pivot)) trow]\<rparr>)"
proof -
  note D = ie_wfD [OF wf]
  let ?a = "inverse (row ! pivot)"
  let ?e = "map (\<lambda>x. x * ?a) row"
  let ?t = "map (\<lambda>x. x * ?a) trow"
  let ?ech = "ie_echelon s @ [?e]" and ?piv = "ie_pivots s @ [pivot]"
    and ?tr = "ie_transform s @ [?t]"
  from inv have dv: "derives (ie_n s) (R @ [row0]) row trow"
    and t0: "\<And>i. length R < i \<Longrightarrow> i < ie_n s \<Longrightarrow> trow ! i = 0"
    and z: "\<And>i. i < length R \<Longrightarrow> row ! (ie_pivots s ! i) = 0"
    and sp: "\<exists>c. \<forall>k < ie_n s. row ! k = row0 ! k - comb c (ie_echelon s) k"
    by (auto simp: reduce_inv_def)
  from dv have lens: "length row = ie_n s" "length trow = ie_n s" by (simp_all add: derives_def)
  have rows: "ech_row_ok (ie_n s) ?ech ?piv j" if "j < Suc (length R)" for j
  proof (cases "j < length R")
    case True
    then show ?thesis using D(3,4) D(6) [OF True] by (simp add: ech_row_ok_snoc)
  next
    case False
    with that have j: "j = length R" by simp
    have "?e ! (ie_pivots s ! i) = 0" if "i < length R" for i
      using z [OF that] D(6) [OF that] lens by (simp add: ech_row_ok_def)
    then show ?thesis
      using D(3,4) lens piv by (simp add: ech_row_ok_def j nth_append)
  qed
  have ders: "derives (ie_n s) (R @ [row0]) (?ech ! j) (?tr ! j) \<and>
      (\<forall>i. j < i \<and> i < ie_n s \<longrightarrow> ?tr ! j ! i = 0)" if "j < Suc (length R)" for j
  proof (cases "j < length R")
    case True
    have "derives (ie_n s) (R @ [row0]) (ie_echelon s ! j) (ie_transform s ! j)"
      by (rule derives_snoc [OF D(7) [OF True]]) (use D(8) [OF True] True lt in simp)
    with True show ?thesis using D(3,5) D(8) [OF True] by (simp add: nth_append)
  next
    case False
    with that have j: "j = length R" by simp
    have "derives (ie_n s) (R @ [row0]) ?e ?t"
      by (rule derives_scale [OF dv]) (use lt in simp)
    then show ?thesis using D(3,5) t0 lens by (simp add: j nth_append)
  qed
  have new: "in_span (ie_n s) ?ech row0"
  proof -
    from sp obtain c where c: "\<And>k. k < ie_n s \<Longrightarrow> row ! k = row0 ! k - comb c (ie_echelon s) k"
      by auto
    have "in_span (ie_n s) ?ech ?e"
      using in_span_member [of "length R" ?ech] D(3) by (simp add: nth_append)
    moreover have "in_span (ie_n s) ?ech (map (comb c (ie_echelon s)) [0..<ie_n s])"
      by (rule in_span_snoc) (auto intro: in_spanI [where c = c])
    ultimately show ?thesis
      by (rule in_span_comb2 [where a = "row ! pivot" and b = 1])
         (use c lens piv in \<open>simp add: field_simps\<close>)
  qed
  have spans: "in_span (ie_n s) ?ech ((R @ [row0]) ! i)" if "i < Suc (length R)" for i
  proof (cases "i < length R")
    case True
    then show ?thesis using in_span_snoc [OF D(9) [OF True]] by (simp add: nth_append)
  next
    case False
    with that have "i = length R" by simp
    with new show ?thesis by simp
  qed
  show ?thesis
    using rows ders spans D(1-5) lt len by (auto simp: ie_wf_def Let_def)
qed

lemma reduce_residual_span:
  fixes row0 :: "'f::field list"
  assumes wf: "ie_wf R s" and inv: "reduce_inv R s row0 (length R) (row, trow)"
  shows "in_span (ie_n s) R row0 \<longleftrightarrow> (\<forall>k < ie_n s. row ! k = 0)"
proof -
  note D = ie_wfD [OF wf]
  from inv have z: "\<And>i. i < length R \<Longrightarrow> row ! (ie_pivots s ! i) = 0"
    and "\<exists>c. \<forall>k < ie_n s. row ! k = row0 ! k - comb c (ie_echelon s) k"
    by (auto simp: reduce_inv_def)
  then obtain c where c: "\<And>k. k < ie_n s \<Longrightarrow> row ! k = row0 ! k - comb c (ie_echelon s) k"
    by auto
  show ?thesis
  proof
    assume "\<forall>k < ie_n s. row ! k = 0"
    then have "in_span (ie_n s) (ie_echelon s) row0"
      using c by (auto intro: in_spanI [where c = c])
    then show "in_span (ie_n s) R row0" by (simp add: ie_wf_span_iff [OF wf])
  next
    assume "in_span (ie_n s) R row0"
    then obtain d where d: "\<And>k. k < ie_n s \<Longrightarrow> row0 ! k = comb d (ie_echelon s) k"
      unfolding ie_wf_span_iff [OF wf, symmetric] by (auto simp: in_span_def)
    have "in_span (ie_n s) (ie_echelon s) row"
      by (rule in_spanI [where c = "\<lambda>i. d i - c i"]) (simp add: c d comb_diff)
    then show "\<forall>k < ie_n s. row ! k = 0"
      using span_zero_at_pivots [of "ie_echelon s" "ie_n s" "ie_pivots s" row] D(3,6) z by simp
  qed
qed

text \<open>
  The contract of \<open>add_row\<close>: with a row of the right length and a matrix that is not full it does
  not panic, accepts the row exactly when it is linearly independent of the accepted ones, and
  leaves a tracker that has accepted one row more.
\<close>

lemma ie_add_row_spec:
  fixes row0 :: "'f::field list"
  assumes wf: "ie_wf R s" and lt: "length R < ie_n s" and len: "length row0 = ie_n s"
  shows "if in_span (ie_n s) R row0 then ie_add_row s row0 = Inr (s, False)
         else \<exists>s'. ie_add_row s row0 = Inr (s', True) \<and> ie_wf (R @ [row0]) s' \<and> ie_n s' = ie_n s"
proof -
  note D = ie_wfD [OF wf]
  from reduce_loop [OF wf lt len order_refl] obtain row trow where
    loop: "foldR (reduce_step s) [0..<length R]
        (row0, (replicate (ie_n s) 0)[length R := 1]) = Inr (row, trow)"
    and inv: "reduce_inv R s row0 (length R) (row, trow)" by auto
  then have lens: "length row = ie_n s" by (simp add: reduce_inv_def derives_def)
  have unfold: "ie_add_row s row0 =
      (case position (\<lambda>x. x \<noteq> 0) row of
          None \<Rightarrow> Inr (s, False)
        | Some pivot \<Rightarrow>
            bindR (idx row pivot) (\<lambda>p.
              let inv = inverse p in
              Inr (s\<lparr>ie_echelon := ie_echelon s @ [map (\<lambda>x. x * inv) row],
                     ie_pivots := ie_pivots s @ [pivot],
                     ie_transform := ie_transform s @ [map (\<lambda>x. x * inv) trow]\<rparr>, True)))"
    using len lt loop D(3) by (simp add: ie_add_row_def ie_is_full_def)
  show ?thesis
  proof (cases "position (\<lambda>x. x \<noteq> 0) row")
    case None
    then have "\<forall>k < ie_n s. row ! k = 0" using lens by (auto simp: position_None)
    then show ?thesis using None unfold reduce_residual_span [OF wf inv] by simp
  next
    case (Some pivot)
    from position_Some [OF this] have p: "pivot < ie_n s" "row ! pivot \<noteq> 0" using lens by auto
    then have "\<not> in_span (ie_n s) R row0" using reduce_residual_span [OF wf inv] by auto
    with ie_wf_push [OF wf lt len inv p] Some unfold p lens show ?thesis
      by (simp add: Let_def)
  qed
qed

lemma ie_add_row_panics:
  "length row0 \<noteq> ie_n s \<Longrightarrow> ie_add_row s row0 = Inl RowLengthMismatch"
  "length row0 = ie_n s \<Longrightarrow> ie_is_full s \<Longrightarrow> ie_add_row s row0 = Inl MatrixAlreadyFull"
  by (simp_all add: ie_add_row_def)

end
