(* ===== verification/Echelon_Inverse.thy ===== *)
theory Echelon_Inverse
  imports Echelon
begin

text \<open>
  Correctness of \<open>IncrementalEchelon::inverse\<close>: back-substitution turns the echelon rows into unit
  vectors, and the reordered transformation rows are the inverse of the matrix of accepted rows.
\<close>

section \<open>Back-substitution\<close>

text \<open>
  \<open>back_inv R n piv j i\<close>: the columns of the pivots after row \<open>j\<close> are cleared above their pivot, and
  the column of pivot \<open>j\<close> is cleared in the first \<open>i\<close> rows; the facts of a well-formed tracker still
  hold.
\<close>

definition back_inv ::
  "'f::field list list \<Rightarrow> nat \<Rightarrow> nat list \<Rightarrow> nat \<Rightarrow> nat \<Rightarrow> 'f list list \<times> 'f list list \<Rightarrow> bool" where
  "back_inv R n piv j i = (\<lambda>(ech, tr).
     length R = n \<and> length piv = n \<and> length ech = n \<and> length tr = n \<and>
     (\<forall>a < n. ech_row_ok n ech piv a \<and> derives n R (ech ! a) (tr ! a)) \<and>
     (\<forall>k a. j < k \<and> k < n \<and> a < k \<longrightarrow> ech ! a ! (piv ! k) = 0) \<and>
     (\<forall>a < i. ech ! a ! (piv ! j) = 0))"

lemma back_invD:
  assumes "back_inv R n piv j i (ech, tr)"
  shows "length R = n" "length piv = n" "length ech = n" "length tr = n"
    "a < n \<Longrightarrow> length (ech ! a) = n" "a < n \<Longrightarrow> piv ! a < n" "a < n \<Longrightarrow> ech ! a ! (piv ! a) = 1"
    "a < n \<Longrightarrow> b < a \<Longrightarrow> ech ! a ! (piv ! b) = 0"
    "a < n \<Longrightarrow> derives n R (ech ! a) (tr ! a)"
    "j < k \<Longrightarrow> k < n \<Longrightarrow> a < k \<Longrightarrow> ech ! a ! (piv ! k) = 0"
    "a < i \<Longrightarrow> ech ! a ! (piv ! j) = 0"
  using assms by (auto simp: back_inv_def ech_row_ok_def)

lemma back_step_inv:
  assumes inv: "back_inv R n piv j i st" and ij: "i < j" "j < n"
  shows "\<exists>st'. back_step piv j i st = Inr st' \<and> back_inv R n piv j (Suc i) st'"
proof -
  obtain ech tr where st: "st = (ech, tr)" by (cases st)
  note D = back_invD [OF inv [unfolded st]]
  have i: "i < n" using ij by simp
  show ?thesis
  proof (cases "ech ! i ! (piv ! j) = 0")
    case True
    then have "back_step piv j i st = Inr st"
      using D(2,3) D(5) [OF i] D(6) [OF ij(2)] ij i by (simp add: back_step_def st)
    moreover have "back_inv R n piv j (Suc i) st"
      using inv True by (auto simp: back_inv_def st less_Suc_eq)
    ultimately show ?thesis by blast
  next
    case False
    define f where "f = ech ! i ! (piv ! j)"
    define ei where "ei = sub_scaled f (ech ! i) (ech ! j)"
    define ti where "ti = sub_scaled f (tr ! i) (tr ! j)"
    have step: "back_step piv j i st = Inr (ech[i := ei], tr[i := ti])"
      using D(2-4) D(5) [OF i] D(6) [OF ij(2)] ij i False
      by (simp add: back_step_def st ei_def ti_def f_def)
    have nth: "ei ! (piv ! k) = ech ! i ! (piv ! k) - ech ! j ! (piv ! k) * f" if "k < n" for k
      using D(5) [OF i] D(5) [OF ij(2)] D(6) [OF that] by (simp add: ei_def nth_sub_scaled)
    have row_i: "ech_row_ok n (ech[i := ei]) piv i"
      using nth D(3,8) D(6,7) [OF i] D(5) [OF i] ij i
      by (auto simp: ech_row_ok_def ei_def)
    have "derives n R ei ti"
      unfolding ei_def ti_def using D(1) D(9) [OF i] D(9) [OF ij(2)]
      by (intro derives_sub_scaled) simp_all
    with row_i have rows: "ech_row_ok n (ech[i := ei]) piv a \<and>
        derives n R (ech[i := ei] ! a) (tr[i := ti] ! a)" if "a < n" for a
      using that inv D(3,4) by (cases "a = i") (auto simp: back_inv_def st ech_row_ok_def)
    have later: "ech[i := ei] ! a ! (piv ! k) = 0" if "j < k" "k < n" "a < k" for k a
      using that nth [of k] D(10) [OF that] D(10) [of k j] D(10) [of k i] D(3) ij
      by (cases "a = i") auto
    have "ei ! (piv ! j) = 0"
      using nth [OF ij(2)] D(7) [OF ij(2)] by (simp add: f_def)
    then have here: "ech[i := ei] ! a ! (piv ! j) = 0" if "a < Suc i" for a
      using that D(3,11) i by (cases "a = i") auto
    have "back_inv R n piv j (Suc i) (ech[i := ei], tr[i := ti])"
      using rows later here D(1-4) by (auto simp: back_inv_def)
    with step show ?thesis by blast
  qed
qed

lemma back_inner:
  assumes "back_inv R n piv j 0 st" and "j < n" and "m \<le> j"
  shows "\<exists>st'. foldR (back_step piv j) [0..<m] st = Inr st' \<and> back_inv R n piv j m st'"
  using assms(3)
proof (induction m)
  case 0
  with assms(1) show ?case by simp
next
  case (Suc m)
  then obtain st1 where "foldR (back_step piv j) [0..<m] st = Inr st1" "back_inv R n piv j m st1"
    by auto
  moreover from this(2) Suc.prems assms(2) obtain st2 where
    "back_step piv j m st1 = Inr st2" "back_inv R n piv j (Suc m) st2"
    using back_step_inv [of R n piv j m st1] by auto
  ultimately show ?case by (auto simp: foldR_append)
qed

text \<open>Column \<open>j\<close> done is the start of column \<open>j - 1\<close>.\<close>

lemma back_inv_next: "back_inv R n piv (Suc j) (Suc j) st \<Longrightarrow> back_inv R n piv j 0 st"
  by (auto simp: back_inv_def split: prod.splits) (metis Suc_lessI)

lemma back_outer:
  assumes "back_inv R n piv (m - 1) 0 st" and "0 < m" and "m \<le> n"
  shows "\<exists>st'. foldR (\<lambda>j. foldR (back_step piv j) [0..<j]) (rev [0..<m]) st = Inr st' \<and>
      back_inv R n piv 0 0 st'"
  using assms
proof (induction m arbitrary: st)
  case (Suc m)
  then have "back_inv R n piv m 0 st" "m < n" by simp_all
  from back_inner [OF this order_refl] obtain st1 where
    st1: "foldR (back_step piv m) [0..<m] st = Inr st1" "back_inv R n piv m m st1" by auto
  show ?case
  proof (cases m)
    case 0
    with st1 show ?thesis by auto
  next
    case (Suc m')
    with st1(2) have "back_inv R n piv (m - 1) 0 st1" by (auto dest: back_inv_next)
    from Suc.IH [OF this] Suc Suc.prems st1(1) show ?thesis by auto
  qed
qed simp

lemma ie_wf_back_inv:
  assumes "ie_wf R s" and "length R = ie_n s"
  shows "back_inv R (ie_n s) (ie_pivots s) (ie_n s - 1) 0 (ie_echelon s, ie_transform s)"
  using assms ie_wfD(3-7) [OF assms(1)] by (auto simp: back_inv_def)

section \<open>The echelon rows become unit vectors\<close>

lemma back_inv_pivots:
  assumes "back_inv R n piv j i st"
  shows "inj_on ((!) piv) {..<n}" and "(!) piv ` {..<n} = {..<n}"
proof -
  obtain ech tr where st: "st = (ech, tr)" by (cases st)
  note D = back_invD [OF assms [unfolded st]]
  have "piv ! a \<noteq> piv ! b" if "a < b" "b < n" for a b
    using D(7) [of b] D(8) [of b a] that by auto
  then show inj: "inj_on ((!) piv) {..<n}"
    by (intro inj_onI) (metis lessThan_iff linorder_neqE_nat)
  have "(!) piv ` {..<n} \<subseteq> {..<n}" using D(6) by auto
  then show "(!) piv ` {..<n} = {..<n}"
    using inj by (simp add: endo_inj_surj)
qed

lemma back_inv_final_unit:
  assumes inv: "back_inv R n piv 0 0 (ech, tr)" and "a < n" "k < n"
  shows "ech ! a ! k = (if k = piv ! a then 1 else 0)"
proof -
  note D = back_invD [OF inv]
  from back_inv_pivots(2) [OF inv] \<open>k < n\<close> obtain b where b: "b < n" "k = piv ! b" by blast
  consider "b = a" | "b < a" | "a < b" by linarith
  then show ?thesis
  proof cases
    case 1
    then show ?thesis using D(7) assms b by simp
  next
    case 2
    then have "piv ! b \<noteq> piv ! a"
      using back_inv_pivots(1) [OF inv] b(1) \<open>a < n\<close> by (auto dest: inj_onD)
    with 2 b assms D(8) [of a b] show ?thesis by simp
  next
    case 3
    then have "piv ! b \<noteq> piv ! a"
      using back_inv_pivots(1) [OF inv] b(1) \<open>a < n\<close> by (auto dest: inj_onD)
    with 3 b assms D(10) [of b a] show ?thesis by simp
  qed
qed

section \<open>Reordering and the inverse\<close>

lemma place_rows_loop:
  assumes "length piv = n" "length tr = n" "inj_on ((!) piv) {..<n}" "\<And>a. a < n \<Longrightarrow> piv ! a < n"
    and "m \<le> n"
  shows "\<exists>inv. foldR (\<lambda>j inv. bindR (idx tr j) (\<lambda>row. bindR (idx piv j) (\<lambda>p. upd inv p row)))
      [0..<m] (replicate n (replicate n 0)) = Inr inv \<and>
      length inv = n \<and> (\<forall>j < m. inv ! (piv ! j) = tr ! j)"
  using assms(5)
proof (induction m)
  case (Suc m)
  then have m: "m < n" by simp
  from Suc obtain inv where
    "foldR (\<lambda>j inv. bindR (idx tr j) (\<lambda>row. bindR (idx piv j) (\<lambda>p. upd inv p row)))
      [0..<m] (replicate n (replicate n 0)) = Inr inv"
    and len: "length inv = n" and set: "\<And>j. j < m \<Longrightarrow> inv ! (piv ! j) = tr ! j" by auto
  moreover have "inv[piv ! m := tr ! m] ! (piv ! j) = tr ! j" if "j < Suc m" for j
  proof (cases "j = m")
    case True
    then show ?thesis using assms(4) [OF m] len by simp
  next
    case False
    with that have "j < m" by simp
    moreover from this m have "piv ! m \<noteq> piv ! j"
      using assms(3) by (auto dest: inj_onD)
    ultimately show ?thesis using set by simp
  qed
  ultimately show ?case
    using m assms(1,2) assms(4) [OF m] by (simp add: foldR_append)
qed simp

text \<open>
  \<open>inverse\<close> of a full tracker returns the left inverse of the matrix of accepted rows: row \<open>c\<close> of
  the result, as coefficients over the accepted rows, gives the \<open>c\<close>-th unit vector.
\<close>

definition left_inverse :: "nat \<Rightarrow> 'f::field list list \<Rightarrow> 'f list list \<Rightarrow> bool" where
  "left_inverse n B R \<longleftrightarrow> length B = n \<and> (\<forall>c < n. length (B ! c) = n) \<and>
     (\<forall>c < n. \<forall>k < n. comb ((!) (B ! c)) R k = (if k = c then 1 else 0))"

lemma ie_inverse_spec:
  fixes R :: "'f::field list list"
  assumes wf: "ie_wf R s" and full: "length R = ie_n s"
  shows "\<exists>B. ie_inverse s = Inr B \<and> left_inverse (ie_n s) B R"
proof (cases "ie_n s = 0")
  case True
  then have "ie_inverse s = Inr []"
    using ie_wfD(3) [OF wf] full
    by (simp add: ie_inverse_def ie_is_full_def back_substitute_def place_rows_def)
  then show ?thesis using True by (simp add: left_inverse_def)
next
  case False
  let ?n = "ie_n s" and ?piv = "ie_pivots s"
  from back_outer [OF ie_wf_back_inv [OF wf full]] False obtain st where
    bs: "back_substitute ?piv ?n (ie_echelon s, ie_transform s) = Inr st"
    and inv: "back_inv R ?n ?piv 0 0 st" by (auto simp: back_substitute_def)
  obtain ech tr where st: "st = (ech, tr)" by (cases st)
  note D = back_invD [OF inv [unfolded st]]
  from place_rows_loop [OF D(2) D(4) back_inv_pivots(1) [OF inv] D(6) order_refl] obtain B where
    B: "place_rows ?piv ?n tr = Inr B" "length B = ?n"
    and Bp: "\<And>j. j < ?n \<Longrightarrow> B ! (?piv ! j) = tr ! j" by (auto simp: place_rows_def)
  have res: "ie_inverse s = Inr B"
    using bs B(1) full ie_wfD(3) [OF wf] by (simp add: ie_inverse_def ie_is_full_def st)
  have "length (B ! c) = ?n \<and> (\<forall>k < ?n. comb ((!) (B ! c)) R k = (if k = c then 1 else 0))"
    if "c < ?n" for c
  proof -
    from that back_inv_pivots(2) [OF inv] obtain j where j: "j < ?n" "c = ?piv ! j" by blast
    from D(9) [OF j(1)] have "length (tr ! j) = ?n"
      and "\<And>k. k < ?n \<Longrightarrow> comb ((!) (tr ! j)) R k = ech ! j ! k" by (auto simp: derives_def)
    then show ?thesis
      using back_inv_final_unit [OF inv [unfolded st] j(1)] Bp [OF j(1)] j(2) by simp
  qed
  then show ?thesis using res B(2) by (auto simp: left_inverse_def)
qed

lemma ie_inverse_panics: "\<not> ie_is_full s \<Longrightarrow> ie_inverse s = Inl MatrixNotFull"
  by (simp add: ie_inverse_def)

end
