(* ===== verification/Coding.thy ===== *)
theory Coding
  imports Echelon_Inverse
begin

text \<open>
  \<open>crates/primitives/types/src/coding.rs\<close>: \<open>Chunk\<close>, \<open>CodedChunk\<close> and the \<open>BlockDecoder\<close> with
  \<open>add\<close>, \<open>decode\<close>, \<open>reencode_with\<close>, \<open>reencode\<close> and \<open>reset\<close>. The const generic \<open>N\<close> of the Rust types
  is an argument of the operations that read it.

  The lemmas: every operation keeps the decoder well formed; \<open>add\<close> accepts exactly the independent
  chunks; a decoder whose chunks all encode the same original chunks decodes to these; re-encoded
  chunks still encode them; a decoder that is not complete still lacks one of the unit vectors.
\<close>

section \<open>Data and operations\<close>

record 'f chunk =
  chunk_v :: "'f list"

definition chunk_new :: "'f list \<Rightarrow> 'f chunk run" where
  "chunk_new v = assertR (v \<noteq> []) EmptyChunk (Inr \<lparr>chunk_v = v\<rparr>)"

definition chunk_new_checked :: "'f list \<Rightarrow> nat \<Rightarrow> 'f chunk run" where
  "chunk_new_checked v m = assertR (length v = m) ChunkLengthMismatch (Inr \<lparr>chunk_v = v\<rparr>)"

record 'f coded_chunk =
  cc_w :: "'f chunk"
  cc_b :: "'f list"

definition coded_chunk_new :: "nat \<Rightarrow> 'f chunk \<Rightarrow> 'f list \<Rightarrow> 'f coded_chunk run" where
  "coded_chunk_new N w b = assertR (length b = N) CoeffVectorLength (Inr \<lparr>cc_w = w, cc_b = b\<rparr>)"

definition coded_chunk_into_parts :: "'f coded_chunk \<Rightarrow> 'f chunk \<times> 'f list" where
  "coded_chunk_into_parts c = (cc_w c, cc_b c)"

record 'f block_decoder =
  bd_coded_chunks :: "'f coded_chunk list"
  bd_echelon :: "'f incremental_echelon"

definition bd_new :: "nat \<Rightarrow> 'f block_decoder" where
  "bd_new N = \<lparr>bd_coded_chunks = [], bd_echelon = ie_new N\<rparr>"

definition bd_add ::
  "'f::field block_decoder \<Rightarrow> 'f coded_chunk \<Rightarrow> ('f block_decoder \<times> bool) run" where
  "bd_add d coded =
     (if ie_is_full (bd_echelon d) then Inr (d, False)
      else bindR (ie_add_row (bd_echelon d) (cc_b coded)) (\<lambda>(ech, added).
        if added
        then Inr (d\<lparr>bd_echelon := ech, bd_coded_chunks := bd_coded_chunks d @ [coded]\<rparr>, True)
        else Inr (d\<lparr>bd_echelon := ech\<rparr>, False)))"

definition bd_rank :: "'f block_decoder \<Rightarrow> nat" where
  "bd_rank d = ie_rank (bd_echelon d)"

definition bd_is_complete :: "'f block_decoder \<Rightarrow> bool" where
  "bd_is_complete d = ie_is_full (bd_echelon d)"

definition bd_decode :: "nat \<Rightarrow> 'f::field block_decoder \<Rightarrow> 'f chunk list run" where
  "bd_decode N d =
     assertR (bd_is_complete d) CannotDecode
       (bindR (ie_inverse (bd_echelon d)) (\<lambda>inv.
          let data_refs = map (\<lambda>c. chunk_v (cc_w c)) (bd_coded_chunks d) in
          mapR (\<lambda>i. bindR (idx inv i) (\<lambda>row.
                    bindR (linear_combination data_refs row) chunk_new)) [0..<N]))"

definition bd_reencode_with ::
  "nat \<Rightarrow> 'f::field block_decoder \<Rightarrow> 'f list \<Rightarrow> 'f coded_chunk run" where
  "bd_reencode_with N d alphas =
     assertR (bd_coded_chunks d \<noteq> []) CannotReencode
       (assertR (length alphas = length (bd_coded_chunks d)) AlphasLength
         (let data_refs = map (\<lambda>c. chunk_v (cc_w c)) (bd_coded_chunks d);
              coeff_refs = map cc_b (bd_coded_chunks d) in
          bindR (reencode data_refs coeff_refs alphas) (\<lambda>(new_data, new_coeffs).
            bindR (chunk_new new_data) (\<lambda>w. coded_chunk_new N w new_coeffs))))"

definition bd_reencode ::
  "('r \<Rightarrow> 'f \<times> 'r) \<Rightarrow> nat \<Rightarrow> 'f::field block_decoder \<Rightarrow> 'r \<Rightarrow> ('f coded_chunk \<times> 'r) run" where
  "bd_reencode random N d rng =
     (let (alphas, rng') = random_coefficients random (length (bd_coded_chunks d)) rng in
      bindR (bd_reencode_with N d alphas) (\<lambda>c. Inr (c, rng')))"

definition bd_reset :: "'f block_decoder \<Rightarrow> 'f block_decoder" where
  "bd_reset d = d\<lparr>bd_coded_chunks := [], bd_echelon := ie_reset (bd_echelon d)\<rparr>"

text \<open>\<open>for coded in cs { decoder.add(coded); }\<close>, as proposers and receivers run it.\<close>

definition bd_add_all ::
  "'f::field coded_chunk list \<Rightarrow> 'f block_decoder \<Rightarrow> 'f block_decoder run" where
  "bd_add_all cs d = foldR (\<lambda>c d. mapRes fst (bd_add d c)) cs d"

section \<open>Well-formed decoders\<close>

definition bd_wf :: "nat \<Rightarrow> 'f::field block_decoder \<Rightarrow> bool" where
  "bd_wf N d \<longleftrightarrow> ie_n (bd_echelon d) = N \<and> ie_wf (map cc_b (bd_coded_chunks d)) (bd_echelon d)"

lemma bd_wf_new: "bd_wf N (bd_new N)"
  by (simp add: bd_wf_def bd_new_def ie_wf_new)

lemma bd_wf_reset: "bd_wf N d \<Longrightarrow> bd_wf N (bd_reset d)"
  by (simp add: bd_wf_def bd_reset_def ie_wf_reset)

lemma bd_reset_new: "bd_wf N d \<Longrightarrow> bd_reset d = bd_new N"
  by (simp add: bd_wf_def bd_reset_def bd_new_def ie_reset_new)

lemma bd_wf_rank: "bd_wf N d \<Longrightarrow> bd_rank d = length (bd_coded_chunks d)"
  by (auto simp: bd_wf_def bd_rank_def dest: ie_wf_rank)

lemma bd_wf_complete: "bd_wf N d \<Longrightarrow> bd_is_complete d \<longleftrightarrow> length (bd_coded_chunks d) = N"
  by (auto simp: bd_wf_def bd_is_complete_def ie_wf_full)

lemma bd_wf_rank_le: "bd_wf N d \<Longrightarrow> length (bd_coded_chunks d) \<le> N"
  by (auto simp: bd_wf_def dest: ie_wfD(1))

lemma bd_wf_coeffs: "bd_wf N d \<Longrightarrow> c \<in> set (bd_coded_chunks d) \<Longrightarrow> length (cc_b c) = N"
  by (auto simp: bd_wf_def dest: ie_wfD(2) [where v = "cc_b c"])

text \<open>\<open>add\<close> on every branch.\<close>

definition bd_span :: "nat \<Rightarrow> 'f::field block_decoder \<Rightarrow> 'f list \<Rightarrow> bool" where
  "bd_span N d v = in_span N (map cc_b (bd_coded_chunks d)) v"

lemma bd_add_spec:
  assumes wf: "bd_wf N d" and len: "length (cc_b c) = N"
  shows "if bd_is_complete d \<or> bd_span N d (cc_b c) then bd_add d c = Inr (d, False)
         else \<exists>d'. bd_add d c = Inr (d', True) \<and> bd_wf N d' \<and>
                   bd_coded_chunks d' = bd_coded_chunks d @ [c]"
proof (cases "bd_is_complete d")
  case True
  then show ?thesis by (simp add: bd_add_def bd_is_complete_def)
next
  case False
  let ?s = "bd_echelon d" and ?R = "map cc_b (bd_coded_chunks d)"
  from wf have w: "ie_wf ?R ?s" and n: "ie_n ?s = N" by (simp_all add: bd_wf_def)
  have "length ?R < ie_n ?s"
    using False ie_wfD(1) [OF w] by (simp add: bd_is_complete_def ie_wf_full [OF w])
  note spec = ie_add_row_spec [OF w this, unfolded n, OF len]
  show ?thesis
  proof (cases "in_span N ?R (cc_b c)")
    case True
    with spec False show ?thesis by (simp add: bd_add_def bd_is_complete_def bd_span_def)
  next
    case notin: False
    with spec obtain s' where "ie_add_row ?s (cc_b c) = Inr (s', True)"
      "ie_wf (?R @ [cc_b c]) s'" "ie_n s' = N" by auto
    with False notin show ?thesis
      by (simp add: bd_add_def bd_is_complete_def bd_span_def bd_wf_def)
  qed
qed

lemma bd_add_cases:
  assumes "bd_wf N d" and "length (cc_b c) = N"
  obtains (rejected) "bd_add d c = Inr (d, False)" "bd_is_complete d \<or> bd_span N d (cc_b c)"
  | (accepted) d' where "bd_add d c = Inr (d', True)" "bd_wf N d'"
      "bd_coded_chunks d' = bd_coded_chunks d @ [c]" "\<not> bd_is_complete d" "\<not> bd_span N d (cc_b c)"
  using bd_add_spec [OF assms] by (auto split: if_splits)

text \<open>What has been accepted stays in the span, and what has been received is in it.\<close>

lemma complete_spans:
  assumes wf: "bd_wf N d" and full: "bd_is_complete d" and len: "length v = N"
  shows "bd_span N d v"
proof -
  let ?R = "map cc_b (bd_coded_chunks d)"
  from wf have w: "ie_wf ?R (bd_echelon d)" and n: "ie_n (bd_echelon d) = N"
    by (simp_all add: bd_wf_def)
  have r: "length ?R = N" using bd_wf_complete [OF wf] full by simp
  from ie_wf_back_inv [OF w] r n
  have inv: "back_inv ?R N (ie_pivots (bd_echelon d)) (N - 1) 0
      (ie_echelon (bd_echelon d), ie_transform (bd_echelon d))" by simp
  show ?thesis
  proof (cases "N = 0")
    case True
    then show ?thesis by (simp add: bd_span_def in_span_def)
  next
    case False
    from back_outer [OF inv] False obtain ech tr where
      fin: "back_inv ?R N (ie_pivots (bd_echelon d)) 0 0 (ech, tr)" by auto
    note D = back_invD [OF fin]
    have "in_span N ech v"
    proof (rule in_spanI)
      fix k assume k: "k < N"
      let ?piv = "ie_pivots (bd_echelon d)"
      have "k \<in> (!) ?piv ` {..<N}" unfolding back_inv_pivots(2) [OF fin] using k by simp
      then obtain j where j: "j < N" "?piv ! j = k" by (elim imageE) simp
      have "v ! (?piv ! i) * ech ! i ! k = (if i = j then v ! k else 0)" if i: "i < N" for i
      proof (cases "i = j")
        case True
        with j k back_inv_final_unit [OF fin i k] show ?thesis by simp
      next
        case False
        then have "k \<noteq> ?piv ! i"
          using back_inv_pivots(1) [OF fin] i j by (auto dest: inj_onD)
        with False back_inv_final_unit [OF fin i k] show ?thesis by simp
      qed
      then have "comb (\<lambda>i. v ! (?piv ! i)) ech k = (\<Sum>i < N. if i = j then v ! k else 0)"
        unfolding comb_def D(3) by (intro sum.cong) simp_all
      then show "v ! k = comb (\<lambda>i. v ! (?piv ! i)) ech k" using j by simp
    qed
    then show ?thesis
      unfolding bd_span_def
      by (rule in_span_trans) (use D(3,9) in \<open>auto simp: derives_def intro: in_spanI\<close>)
  qed
qed

lemma bd_add_keeps:
  assumes wf: "bd_wf N d" and len: "length (cc_b c) = N"
  shows "\<exists>d' r. bd_add d c = Inr (d', r) \<and> bd_wf N d' \<and> bd_span N d' (cc_b c) \<and>
      set (bd_coded_chunks d') \<subseteq> insert c (set (bd_coded_chunks d)) \<and>
      (\<forall>v. bd_span N d v \<longrightarrow> bd_span N d' v)"
  using wf len
proof (cases rule: bd_add_cases)
  case rejected
  then show ?thesis using complete_spans [OF wf _ len] wf by auto
next
  case (accepted d')
  have "bd_span N d' (cc_b c)"
    using in_span_member [of "length (bd_coded_chunks d)" "map cc_b (bd_coded_chunks d')" N]
    by (simp add: bd_span_def accepted nth_append)
  moreover have "bd_span N d v \<Longrightarrow> bd_span N d' v" for v
    by (simp add: bd_span_def accepted in_span_snoc)
  ultimately show ?thesis using accepted by auto
qed

lemma bd_add_all_keeps:
  assumes "bd_wf N d" and "\<forall>c \<in> set cs. length (cc_b c) = N"
  shows "\<exists>d'. bd_add_all cs d = Inr d' \<and> bd_wf N d' \<and> (\<forall>c \<in> set cs. bd_span N d' (cc_b c)) \<and>
      set (bd_coded_chunks d') \<subseteq> set cs \<union> set (bd_coded_chunks d) \<and>
      (\<forall>v. bd_span N d v \<longrightarrow> bd_span N d' v)"
  using assms
proof (induction cs arbitrary: d)
  case Nil
  then show ?case by (simp add: bd_add_all_def)
next
  case (Cons c cs)
  then obtain d1 r where d1: "bd_add d c = Inr (d1, r)" "bd_wf N d1" "bd_span N d1 (cc_b c)"
    "set (bd_coded_chunks d1) \<subseteq> insert c (set (bd_coded_chunks d))"
    "\<And>v. bd_span N d v \<Longrightarrow> bd_span N d1 v"
    using bd_add_keeps [of N d c] by auto
  with Cons.IH [of d1] Cons.prems obtain d' where
    "bd_add_all cs d1 = Inr d'" "bd_wf N d'" "\<forall>c \<in> set cs. bd_span N d' (cc_b c)"
    "set (bd_coded_chunks d') \<subseteq> set cs \<union> set (bd_coded_chunks d1)"
    "\<And>v. bd_span N d1 v \<Longrightarrow> bd_span N d' v" by auto
  with d1 show ?case by (auto simp: bd_add_all_def)
qed

text \<open>An incomplete decoder misses some unit vector: the column of no pivot.\<close>

lemma incomplete_misses_unit:
  fixes d :: "'f::field block_decoder"
  assumes wf: "bd_wf N d" and inc: "\<not> bd_is_complete d"
  shows "\<exists>i < N. \<not> bd_span N d (unit_vec N i)"
proof -
  let ?R = "map cc_b (bd_coded_chunks d)" and ?s = "bd_echelon d"
  from wf have w: "ie_wf ?R ?s" and n: "ie_n ?s = N" by (simp_all add: bd_wf_def)
  note D = ie_wfD [OF w]
  have r: "length ?R < N" using bd_wf_complete [OF wf] bd_wf_rank_le [OF wf] inc by simp
  have "card (set (ie_pivots ?s)) < N"
    using card_length [of "ie_pivots ?s"] D(4) r by simp
  then have "\<not> {..<N} \<subseteq> set (ie_pivots ?s)"
    using card_mono [of "set (ie_pivots ?s)" "{..<N}"] by auto
  then obtain i where i: "i < N" "i \<notin> set (ie_pivots ?s)" by auto
  have "\<not> in_span N (ie_echelon ?s) (unit_vec N i :: 'f list)"
  proof
    assume sp: "in_span N (ie_echelon ?s) (unit_vec N i :: 'f list)"
    have "(unit_vec N i :: 'f list) ! i = 0"
    proof (rule span_zero_at_pivots [OF _ sp _ i(1)])
      fix j assume j: "j < length (ie_echelon ?s)"
      then have jr: "j < length ?R" using D(3) by simp
      show "ech_row_ok N (ie_echelon ?s) (ie_pivots ?s) j" using D(6) [OF jr] n by simp
      then have "ie_pivots ?s ! j < N" by (simp add: ech_row_ok_def)
      moreover have "ie_pivots ?s ! j \<noteq> i" using i(2) jr D(4) nth_mem by metis
      ultimately show "(unit_vec N i :: 'f list) ! (ie_pivots ?s ! j) = 0" by simp
    qed
    with i(1) show False by simp
  qed
  then show ?thesis
    using i(1) ie_wf_span_iff [OF w] n by (auto simp: bd_span_def)
qed

lemma spanning_completes:
  assumes "bd_wf N d" and "\<And>i. i < N \<Longrightarrow> bd_span N d (unit_vec N i)"
  shows "bd_is_complete d"
  using incomplete_misses_unit [OF assms(1)] assms(2) by blast

section \<open>Encoding the original chunks\<close>

text \<open>
  \<open>coded_by N m V c\<close>: the coded chunk \<open>c\<close> is the combination of the \<open>N\<close> original chunks \<open>V\<close> (of
  \<open>m\<close> elements each) that its coefficient vector says.
\<close>

definition originals :: "nat \<Rightarrow> nat \<Rightarrow> 'f list list \<Rightarrow> bool" where
  "originals N m V \<longleftrightarrow> length V = N \<and> (\<forall>v \<in> set V. length v = m) \<and> 0 < m"

definition coded_by :: "nat \<Rightarrow> nat \<Rightarrow> 'f::field list list \<Rightarrow> 'f coded_chunk \<Rightarrow> bool" where
  "coded_by N m V c \<longleftrightarrow> length (cc_b c) = N \<and> length (chunk_v (cc_w c)) = m \<and>
     (\<forall>k < m. chunk_v (cc_w c) ! k = comb ((!) (cc_b c)) V k)"

definition honest :: "nat \<Rightarrow> nat \<Rightarrow> 'f::field list list \<Rightarrow> 'f block_decoder \<Rightarrow> bool" where
  "honest N m V d \<longleftrightarrow> bd_wf N d \<and> (\<forall>c \<in> set (bd_coded_chunks d). coded_by N m V c)"

lemma honest_new: "honest N m V (bd_new N)"
  by (simp add: honest_def bd_wf_new) (simp add: bd_new_def)

lemma honest_add:
  assumes "honest N m V d" and "coded_by N m V c"
  shows "\<exists>d' r. bd_add d c = Inr (d', r) \<and> honest N m V d'"
proof -
  from assms have "bd_wf N d" "length (cc_b c) = N" by (auto simp: honest_def coded_by_def)
  from bd_add_keeps [OF this] show ?thesis using assms by (fastforce simp: honest_def)
qed

lemma honest_add_all:
  assumes "honest N m V d" and "\<forall>c \<in> set cs. coded_by N m V c"
  shows "\<exists>d'. bd_add_all cs d = Inr d' \<and> honest N m V d' \<and>
      (\<forall>c \<in> set cs. bd_span N d' (cc_b c))"
proof -
  from assms have "bd_wf N d" "\<forall>c \<in> set cs. length (cc_b c) = N"
    by (auto simp: honest_def coded_by_def)
  from bd_add_all_keeps [OF this] obtain d' where "bd_add_all cs d = Inr d'" "bd_wf N d'"
    "\<forall>c \<in> set cs. bd_span N d' (cc_b c)"
    "set (bd_coded_chunks d') \<subseteq> set cs \<union> set (bd_coded_chunks d)" by auto
  with assms show ?thesis by (auto simp: honest_def)
qed

text \<open>The matrix argument behind decoding: \<open>B\<^sup>-\<^sup>1 \<cdot> (B \<cdot> V) = V\<close>.\<close>

lemma left_inverse_recovers:
  assumes inv: "left_inverse N B (map cc_b cs)" and cs: "length cs = N"
    and V: "length V = N" and coded: "\<forall>c \<in> set cs. coded_by N m V c"
    and i: "i < N" and k: "k < m"
  shows "comb ((!) (B ! i)) (map (\<lambda>c. chunk_v (cc_w c)) cs) k = V ! i ! k"
proof -
  let ?W = "map (\<lambda>c. chunk_v (cc_w c)) cs"
  have "comb ((!) (B ! i)) ?W k = comb (\<lambda>j. \<Sum>l < length ?W. B ! i ! l * cc_b (cs ! l) ! j) V k"
    by (rule comb_comb) (use coded k in \<open>auto simp: coded_by_def\<close>)
  also have "\<dots> = comb (\<lambda>j. if j = i then 1 else 0) V k"
  proof (rule comb_cong)
    fix j assume "j < length V"
    then have "j < N" using V by simp
    then have "comb ((!) (B ! i)) (map cc_b cs) j = (if j = i then 1 else 0)"
      using inv i by (simp add: left_inverse_def)
    then show "(\<Sum>l < length ?W. B ! i ! l * cc_b (cs ! l) ! j) = (if j = i then 1 else 0)"
      by (simp add: comb_def)
  qed
  also have "\<dots> = V ! i ! k" using i V by (simp add: comb_delta)
  finally show ?thesis .
qed

lemma inverse_recovers:
  assumes V: "originals N m V" and h: "honest N m V d" and full: "bd_is_complete d"
  obtains B where "ie_inverse (bd_echelon d) = Inr B" "length B = N"
    "\<And>i. i < N \<Longrightarrow>
      linear_combination (map (\<lambda>c. chunk_v (cc_w c)) (bd_coded_chunks d)) (B ! i) = Inr (V ! i)"
proof -
  let ?cs = "bd_coded_chunks d" and ?W = "map (\<lambda>c. chunk_v (cc_w c)) (bd_coded_chunks d)"
  from h have wf: "bd_wf N d" and coded: "\<forall>c \<in> set ?cs. coded_by N m V c"
    by (simp_all add: honest_def)
  from wf have w: "ie_wf (map cc_b ?cs) (bd_echelon d)" and n: "ie_n (bd_echelon d) = N"
    by (simp_all add: bd_wf_def)
  have len: "length ?cs = N" using bd_wf_complete [OF wf] full by simp
  from ie_inverse_spec [OF w] len n obtain B where
    B: "ie_inverse (bd_echelon d) = Inr B" and inv: "left_inverse N B (map cc_b ?cs)" by auto
  have "linear_combination ?W (B ! i) = Inr (V ! i)" if "i < N" for i
  proof -
    have "linear_combination ?W (B ! i) = Inr (map (comb ((!) (B ! i)) ?W) [0..<m])"
      by (rule linear_combination_comb)
         (use len inv that coded in \<open>auto simp: left_inverse_def coded_by_def\<close>)
    also have "map (comb ((!) (B ! i)) ?W) [0..<m] = V ! i"
      by (rule nth_equalityI)
         (use V that left_inverse_recovers [OF inv len _ coded that] in
           \<open>auto simp: originals_def\<close>)
    finally show ?thesis .
  qed
  with that B inv show thesis by (simp add: left_inverse_def)
qed

lemma bd_decode_correct:
  assumes V: "originals N m V" and h: "honest N m V d" and full: "bd_is_complete d"
  shows "bd_decode N d = Inr (map (\<lambda>v. \<lparr>chunk_v = v\<rparr>) V)"
proof -
  let ?W = "map (\<lambda>c. chunk_v (cc_w c)) (bd_coded_chunks d)"
  from inverse_recovers [OF V h full] obtain B where
    B: "ie_inverse (bd_echelon d) = Inr B" "length B = N"
      "\<And>i. i < N \<Longrightarrow> linear_combination ?W (B ! i) = Inr (V ! i)" by blast
  have "chunk_new (V ! i) = Inr \<lparr>chunk_v = V ! i\<rparr>" if "i < N" for i
  proof -
    have "length (V ! i) = m" "0 < m" using V that by (simp_all add: originals_def)
    then have "V ! i \<noteq> []" by auto
    then show ?thesis by (simp add: chunk_new_def)
  qed
  with B have "mapR (\<lambda>i. bindR (idx B i) (\<lambda>row. bindR (linear_combination ?W row) chunk_new)) [0..<N]
      = Inr (map (\<lambda>i. \<lparr>chunk_v = V ! i\<rparr>) [0..<N])"
    by (intro mapR_pure) simp
  also have "map (\<lambda>i. \<lparr>chunk_v = V ! i\<rparr>) [0..<N] = map (\<lambda>v. \<lparr>chunk_v = v\<rparr>) V"
    using V by (intro nth_equalityI) (auto simp: originals_def)
  finally show ?thesis using full B(1) by (simp add: bd_decode_def Let_def)
qed

lemma bd_decode_panics: "\<not> bd_is_complete d \<Longrightarrow> bd_decode N d = Inl CannotDecode"
  by (simp add: bd_decode_def)

text \<open>Re-encoding.\<close>

lemma coded_by_combination:
  assumes V: "originals N m V" and cs: "\<forall>c \<in> set cs. coded_by N m V c"
    and w: "chunk_v (cc_w c) = map (comb ((!) alphas) (map (\<lambda>c. chunk_v (cc_w c)) cs)) [0..<m]"
    and b: "cc_b c = map (comb ((!) alphas) (map cc_b cs)) [0..<N]"
  shows "coded_by N m V c"
proof -
  let ?W = "map (\<lambda>c. chunk_v (cc_w c)) cs" and ?B = "map cc_b cs"
  have "comb ((!) alphas) ?W k = comb ((!) (map (comb ((!) alphas) ?B) [0..<N])) V k"
    if "k < m" for k
  proof -
    have "comb ((!) alphas) ?W k
        = comb (\<lambda>j. \<Sum>l < length ?W. alphas ! l * cc_b (cs ! l) ! j) V k"
      by (rule comb_comb) (use cs that in \<open>auto simp: coded_by_def\<close>)
    also have "\<dots> = comb ((!) (map (comb ((!) alphas) ?B) [0..<N])) V k"
      by (rule comb_cong) (use V in \<open>simp add: originals_def comb_def\<close>)
    finally show ?thesis .
  qed
  then show ?thesis by (simp add: coded_by_def w b)
qed

lemma bd_reencode_with_coded:
  assumes V: "originals N m V" and h: "honest N m V d"
    and ne: "bd_coded_chunks d \<noteq> []" and la: "length alphas = length (bd_coded_chunks d)"
  shows "\<exists>c. bd_reencode_with N d alphas = Inr c \<and> coded_by N m V c \<and> bd_span N d (cc_b c) \<and>
      chunk_v (cc_w c) = map (comb ((!) alphas) (map (\<lambda>c. chunk_v (cc_w c)) (bd_coded_chunks d)))
        [0..<m] \<and>
      cc_b c = map (comb ((!) alphas) (map cc_b (bd_coded_chunks d))) [0..<N]"
proof -
  let ?cs = "bd_coded_chunks d"
  let ?W = "map (\<lambda>c. chunk_v (cc_w c)) ?cs" and ?B = "map cc_b ?cs"
  from h have coded: "\<forall>c \<in> set ?cs. coded_by N m V c" by (simp add: honest_def)
  have data: "linear_combination ?W alphas = Inr (map (comb ((!) alphas) ?W) [0..<m])"
    by (rule linear_combination_comb) (use ne la coded in \<open>auto simp: coded_by_def\<close>)
  have coeff: "linear_combination ?B alphas = Inr (map (comb ((!) alphas) ?B) [0..<N])"
    by (rule linear_combination_comb) (use ne la coded in \<open>auto simp: coded_by_def\<close>)
  let ?c = "\<lparr>cc_w = \<lparr>chunk_v = map (comb ((!) alphas) ?W) [0..<m]\<rparr>,
             cc_b = map (comb ((!) alphas) ?B) [0..<N]\<rparr>"
  have "bd_reencode_with N d alphas = Inr ?c"
    using ne la data coeff V
    by (simp add: bd_reencode_with_def reencode_def chunk_new_def coded_chunk_new_def originals_def
        Let_def)
  moreover have "coded_by N m V ?c"
    by (rule coded_by_combination [OF V coded, where alphas = alphas]) simp_all
  moreover have "bd_span N d (cc_b ?c)"
    unfolding bd_span_def by (rule in_spanI [where c = "(!) alphas"]) simp
  ultimately show ?thesis by auto
qed

lemma bd_reencode_with_panics:
  "bd_coded_chunks d = [] \<Longrightarrow> bd_reencode_with N d alphas = Inl CannotReencode"
  "bd_coded_chunks d \<noteq> [] \<Longrightarrow> length alphas \<noteq> length (bd_coded_chunks d) \<Longrightarrow>
     bd_reencode_with N d alphas = Inl AlphasLength"
  by (simp_all add: bd_reencode_with_def)

text \<open>The systematic chunks a proposer feeds its own decoder: original \<open>i\<close> with unit vector \<open>i\<close>.\<close>

definition systematic :: "nat \<Rightarrow> 'f::field list list \<Rightarrow> 'f coded_chunk list" where
  "systematic N V = map (\<lambda>i. \<lparr>cc_w = \<lparr>chunk_v = V ! i\<rparr>, cc_b = unit_vec N i\<rparr>) [0..<length V]"

lemma systematic_coded:
  assumes "originals N m V"
  shows "\<forall>c \<in> set (systematic N V). coded_by N m V c"
proof -
  have "comb ((!) (unit_vec N i)) V k = V ! i ! k" if "i < N" for i k
  proof -
    have "comb ((!) (unit_vec N i)) V k = comb (\<lambda>j. if j = i then 1 else 0) V k"
      using assms by (intro comb_cong) (simp add: originals_def)
    then show ?thesis using that assms by (simp add: comb_delta originals_def)
  qed
  then show ?thesis using assms by (auto simp: systematic_def coded_by_def originals_def)
qed

lemma systematic_completes:
  assumes V: "originals N m V"
  shows "\<exists>d. bd_add_all (systematic N V) (bd_new N) = Inr d \<and> honest N m V d \<and> bd_is_complete d"
proof -
  from honest_add_all [OF honest_new systematic_coded [OF V]] obtain d where
    d: "bd_add_all (systematic N V) (bd_new N) = Inr d" "honest N m V d"
    "\<forall>c \<in> set (systematic N V). bd_span N d (cc_b c)" by auto
  have "bd_span N d (unit_vec N i)" if "i < N" for i
    using d(3) V that by (auto simp: systematic_def originals_def)
  then have "bd_is_complete d"
    using d(2) spanning_completes by (auto simp: honest_def)
  with d show ?thesis by blast
qed

text \<open>
  The loop with which every proposer fills its own decoder:
  \<open>for (i, orig) in original_chunks.iter().enumerate() { let mut b = vec![0; N]; b[i] = 1;
   decoder.add(CodedChunk::new(orig.clone(), b)); }\<close>.
\<close>

definition proposer_decoder :: "nat \<Rightarrow> 'f::field chunk list \<Rightarrow> 'f block_decoder run" where
  "proposer_decoder N original_chunks =
     foldR (\<lambda>(i, orig) d.
         bindR (upd (replicate N 0) i 1) (\<lambda>b.
         bindR (coded_chunk_new N orig b) (\<lambda>coded. mapRes fst (bd_add d coded))))
       (zip [0..<length original_chunks] original_chunks) (bd_new N)"

lemma proposer_decoder_systematic:
  assumes "length V = N"
  shows "proposer_decoder N (map (\<lambda>v. \<lparr>chunk_v = v\<rparr>) V) = bd_add_all (systematic N V) (bd_new N)"
proof -
  have zip: "zip [0..<length V] (map (\<lambda>v. \<lparr>chunk_v = v\<rparr>) V)
      = map (\<lambda>i. (i, \<lparr>chunk_v = V ! i\<rparr>)) [0..<length V]"
    by (rule nth_equalityI) simp_all
  show ?thesis
    unfolding proposer_decoder_def bd_add_all_def systematic_def length_map zip foldR_map
    by (rule foldR_cong) (use assms in \<open>simp add: coded_chunk_new_def unit_vec_def\<close>)
qed

lemma proposer_decoder_complete:
  assumes V: "originals N m V"
  shows "\<exists>d. proposer_decoder N (map (\<lambda>v. \<lparr>chunk_v = v\<rparr>) V) = Inr d \<and> honest N m V d \<and>
      bd_is_complete d"
  using systematic_completes [OF V] V by (simp add: proposer_decoder_systematic originals_def)

text \<open>The proposer accepts every systematic chunk: its decoder keeps them all, in order.\<close>

lemma bd_add_all_counts:
  assumes "bd_wf N d" "\<forall>c \<in> set cs. length (cc_b c) = N" "bd_add_all cs d = Inr d'"
  shows "length (bd_coded_chunks d') \<le> length (bd_coded_chunks d) + length cs \<and>
    (length (bd_coded_chunks d') = length (bd_coded_chunks d) + length cs \<longrightarrow>
       bd_coded_chunks d' = bd_coded_chunks d @ cs)"
  using assms
proof (induction cs arbitrary: d)
  case (Cons c cs)
  from Cons.prems(2) have "length (cc_b c) = N" by simp
  with Cons.prems(1) show ?case
  proof (cases rule: bd_add_cases)
    case rejected
    then show ?thesis using Cons.IH [of d] Cons.prems by (simp add: bd_add_all_def)
  next
    case (accepted d1)
    then show ?thesis using Cons.IH [of d1] Cons.prems by (simp add: bd_add_all_def)
  qed
qed (simp add: bd_add_all_def)

lemma proposer_decoder_chunks:
  assumes V: "originals N m V"
  shows "\<exists>d. proposer_decoder N (map (\<lambda>v. \<lparr>chunk_v = v\<rparr>) V) = Inr d \<and> honest N m V d \<and>
      bd_is_complete d \<and> bd_coded_chunks d = systematic N V"
proof -
  from systematic_completes [OF V] obtain d where
    d: "bd_add_all (systematic N V) (bd_new N) = Inr d" "honest N m V d" "bd_is_complete d" by blast
  have "length (bd_coded_chunks d) = length (systematic N V)"
    using d(2,3) V bd_wf_complete [of N d] by (simp add: honest_def systematic_def originals_def)
  moreover have "\<forall>c \<in> set (systematic N V). length (cc_b c) = N"
    using systematic_coded [OF V] by (auto simp: coded_by_def)
  ultimately have "bd_coded_chunks d = systematic N V"
    using bd_add_all_counts [OF bd_wf_new _ d(1)] by (simp add: bd_new_def)
  with d V show ?thesis by (simp add: proposer_decoder_systematic originals_def)
qed

end
