(* ===== verification/Packing.thy ===== *)
theory Packing
  imports Linalg
begin

text \<open>
  \<open>crates/primitives/types/src/util.rs\<close>: the \<open>PackableField\<close> trait, its implementation for the
  BLS12-381 scalar, \<open>bytes_to_field_elements\<close>, \<open>field_elements_to_bytes\<close>, \<open>read_field\<close> and
  \<open>read_group\<close>.

  The codecs themselves (\<open>commonware-codec\<close>'s \<open>Read\<close> and \<open>Write\<close> of scalars, points, integers) are
  not in the repository: a codec is a record of functions, and what the code relies on is a
  predicate over that record. The trait \<open>PackableField\<close> is a locale; its laws are proved for the
  scalar implementation by an interpretation.
\<close>

section \<open>Codecs and error values\<close>

datatype codec_error = EndOfBuffer | CodecError string

record 'a codec =
  cd_size :: nat                                             \<comment> \<open>\<open>FixedSize::SIZE\<close>\<close>
  cd_write :: "'a \<Rightarrow> bytes"                                  \<comment> \<open>\<open>Write::write\<close>\<close>
  cd_read :: "bytes \<Rightarrow> codec_error + 'a \<times> bytes"             \<comment> \<open>\<open>Read::read_cfg\<close>, with the rest\<close>

text \<open>The \<open>String\<close> errors of the receive path, one constructor per message.\<close>

datatype err =
    NotEnoughFieldBytes
  | InvalidFieldElement codec_error
  | NotEnoughGroupBytes
  | InvalidGroupElement codec_error
  | BadSigma codec_error
  | BadCommitmentCount codec_error
  | TooManyCommitments
  | BadSignature codec_error
  | SignatureInvalid               \<comment> \<open>PedersenError::InvalidSignature\<close>
  | CommitmentMismatch             \<comment> \<open>PedersenError::CommitmentMismatch\<close>
  | PairingMismatch                \<comment> \<open>BfkwError::PairingMismatch\<close>
  | AnnouncementTooShort
  | DataBeforeAnnouncement
  | BlockDecodeFailed codec_error

section \<open>read_field and read_group\<close>

definition read_field :: "'f::zero codec \<Rightarrow> bytes \<Rightarrow> err + 'f \<times> bytes" where
  "read_field c buf =
     (if length buf < cd_size c then Inl NotEnoughFieldBytes
      else if list_all (\<lambda>b. b = 0) (take (cd_size c) buf) then Inr (0, drop (cd_size c) buf)
      else case cd_read c buf of
             Inl e \<Rightarrow> Inl (InvalidFieldElement e)
           | Inr r \<Rightarrow> Inr r)"

definition read_group :: "'g::zero codec \<Rightarrow> bytes \<Rightarrow> err + 'g \<times> bytes" where
  "read_group c buf =
     (if length buf < cd_size c then Inl NotEnoughGroupBytes
      else let identity_bytes = cd_write c 0 in
        if take (cd_size c) buf = identity_bytes then Inr (0, drop (cd_size c) buf)
        else case cd_read c buf of
               Inl e \<Rightarrow> Inl (InvalidGroupElement e)
             | Inr r \<Rightarrow> Inr r)"

text \<open>
  The documented behaviour of the element codecs: every element is written in \<open>cd_size\<close> bytes, and
  the standard reader refuses the encoding of zero (the identity). An element is \<open>encodable\<close> when
  the reader gives it back, or it is zero.
\<close>

definition element_codec_ok :: "'a::zero codec \<Rightarrow> bool" where
  "element_codec_ok c \<longleftrightarrow> (\<forall>x. length (cd_write c x) = cd_size c) \<and>
     (\<forall>rest. \<exists>e. cd_read c (cd_write c 0 @ rest) = Inl e)"

definition encodable :: "'a::zero codec \<Rightarrow> 'a \<Rightarrow> bool" where
  "encodable c x \<longleftrightarrow> x = 0 \<or> (\<forall>rest. cd_read c (cd_write c x @ rest) = Inr (x, rest))"

lemma encodable_nonzero:
  assumes "element_codec_ok c" "encodable c x" "x \<noteq> 0"
  shows "cd_write c x \<noteq> cd_write c 0" "cd_read c (cd_write c x @ rest) = Inr (x, rest)"
proof -
  show rd: "cd_read c (cd_write c x @ rest) = Inr (x, rest)" for rest
    using assms by (auto simp: encodable_def)
  obtain e where "cd_read c (cd_write c 0 @ []) = Inl e"
    using assms(1) unfolding element_codec_ok_def by metis
  with rd [of "[]"] show "cd_write c x \<noteq> cd_write c 0" by auto
qed

lemma read_group_write:
  assumes "element_codec_ok c" "encodable c x"
  shows "read_group c (cd_write c x @ rest) = Inr (x, rest)"
proof -
  have len: "length (cd_write c x) = cd_size c" "length (cd_write c 0) = cd_size c"
    using assms(1) by (simp_all add: element_codec_ok_def)
  show ?thesis
  proof (cases "x = 0")
    case True
    with len show ?thesis by (simp add: read_group_def)
  next
    case False
    with encodable_nonzero [OF assms False] len show ?thesis by (simp add: read_group_def)
  qed
qed

lemma all_zero_replicate: "list_all (\<lambda>b. b = 0) bs \<longleftrightarrow> bs = replicate (length bs) 0"
  by (induction bs) auto

lemma read_field_write:
  assumes "element_codec_ok c" "cd_write c 0 = replicate (cd_size c) 0" "encodable c x"
  shows "read_field c (cd_write c x @ rest) = Inr (x, rest)"
proof -
  have len: "length (cd_write c x) = cd_size c" "length (cd_write c 0) = cd_size c"
    using assms(1) by (simp_all add: element_codec_ok_def)
  show ?thesis
  proof (cases "x = 0")
    case True
    with len assms(2) show ?thesis by (simp add: read_field_def all_zero_replicate)
  next
    case False
    from encodable_nonzero(1) [OF assms(1,3) False] assms(2) len
    have "\<not> list_all (\<lambda>b. b = 0) (cd_write c x)" by (simp add: all_zero_replicate)
    with encodable_nonzero(2) [OF assms(1,3) False] len show ?thesis by (simp add: read_field_def)
  qed
qed

lemma read_field_short: "length buf < cd_size c \<Longrightarrow> read_field c buf = Inl NotEnoughFieldBytes"
  by (simp add: read_field_def)

lemma read_group_short: "length buf < cd_size c \<Longrightarrow> read_group c buf = Inl NotEnoughGroupBytes"
  by (simp add: read_group_def)

section \<open>PackableField\<close>

text \<open>The trait's dictionary.\<close>

record 'f packable =
  pf_data_bytes :: nat
  pf_pack :: "bytes \<Rightarrow> 'f run"
  pf_unpack :: "'f \<Rightarrow> bytes run"

definition bytes_to_field_elements :: "'f::zero packable \<Rightarrow> bytes \<Rightarrow> 'f list run" where
  "bytes_to_field_elements pf data =
     (if data = [] then Inr [0]
      else assertR (pf_data_bytes pf \<noteq> 0) ZeroChunkSize
             (mapR (pf_pack pf) (chunks_of (pf_data_bytes pf) data)))"

definition field_elements_to_bytes :: "'f packable \<Rightarrow> 'f list \<Rightarrow> bytes run" where
  "field_elements_to_bytes pf elements = mapRes concat (mapR (pf_unpack pf) elements)"

text \<open>
  The contract of the trait, as its documentation states it: a window of at most \<open>DATA_BYTES\<close>
  bytes packs, and unpacks to the window right-padded with zeros; the zero element unpacks to
  zeros. \<open>lawful\<close> says for which dictionaries the provider promises it.
\<close>

locale packable_field =
  fixes lawful :: "'c \<Rightarrow> bool"
    and pf :: "'c \<Rightarrow> 'f::field packable"
  assumes data_bytes_pos: "lawful c \<Longrightarrow> 0 < pf_data_bytes (pf c)"
    and pack_unpack: "lawful c \<Longrightarrow> length w \<le> pf_data_bytes (pf c) \<Longrightarrow>
      \<exists>x. pf_pack (pf c) w = Inr x \<and>
          pf_unpack (pf c) x = Inr (w @ replicate (pf_data_bytes (pf c) - length w) 0)"
    and unpack_zero: "lawful c \<Longrightarrow> pf_unpack (pf c) 0 = Inr (replicate (pf_data_bytes (pf c)) 0)"

text \<open>Padding every window and cutting the padding of the last one off again.\<close>

lemma take_concat_padded:
  "0 < k \<Longrightarrow> take (length xs)
     (concat (map (\<lambda>w. w @ replicate (k - length w) z) (chunks_of k xs)) @ ys) = xs"
proof (induction k xs rule: chunks_of.induct)
  case (1 k xs)
  show ?case
  proof (cases "xs = []")
    case False
    let ?pad = "\<lambda>w. w @ replicate (k - length w) z"
    have step: "chunks_of k xs = take k xs # chunks_of k (drop k xs)"
      using 1(2) False by (rule chunks_of_step)
    show ?thesis
    proof (cases "length xs < k")
      case True
      then show ?thesis by (simp add: step)
    next
      case ge: False
      have "take (length (drop k xs)) (concat (map ?pad (chunks_of k (drop k xs))) @ ys) = drop k xs"
        using 1 False by auto
      with ge show ?thesis
        by (simp add: step)
    qed
  qed simp
qed

lemma length_chunks_of: "0 < k \<Longrightarrow> length (chunks_of k xs) = (length xs + k - 1) div k"
proof (induction k xs rule: chunks_of.induct)
  case (1 k xs)
  show ?case
  proof (cases "xs = []")
    case False
    then have step: "chunks_of k xs = take k xs # chunks_of k (drop k xs)"
      using 1(2) chunks_of_step by blast
    have "length (chunks_of k xs) = Suc ((length xs - k + k - 1) div k)"
      using 1 False by (simp add: step)
    also have "\<dots> = (length xs + k - 1) div k"
    proof (cases "length xs < k")
      case True
      moreover have "1 \<le> length xs" using False by (cases xs) simp_all
      ultimately have "(length xs + k - 1) div k = 1"
        by (intro div_nat_eqI) simp_all
      with True 1(2) show ?thesis by simp
    next
      case ge: False
      then have "length xs + k - 1 = (length xs - k + k - 1) + k" using 1(2) by simp
      then show ?thesis using 1(2) by (metis div_add_self2 Suc_eq_plus1 not_less0)
    qed
    finally show ?thesis .
  qed (use 1(2) in simp)
qed

context packable_field
begin

lemma unpack_zeros:
  assumes "lawful c"
  shows "mapR (pf_unpack (pf c)) (replicate k 0)
    = Inr (replicate k (replicate (pf_data_bytes (pf c)) 0))"
  by (induction k) (simp_all add: unpack_zero [OF assms])

lemma pack_windows:
  assumes "lawful c" and "\<forall>w \<in> set ws. length w \<le> pf_data_bytes (pf c)"
  shows "\<exists>es. mapR (pf_pack (pf c)) ws = Inr es \<and> length es = length ws \<and>
     mapR (pf_unpack (pf c)) es
       = Inr (map (\<lambda>w. w @ replicate (pf_data_bytes (pf c) - length w) 0) ws)"
  using assms(2)
proof (induction ws)
  case (Cons w ws)
  then obtain es where "mapR (pf_pack (pf c)) ws = Inr es" "length es = length ws"
    "mapR (pf_unpack (pf c)) es
       = Inr (map (\<lambda>w. w @ replicate (pf_data_bytes (pf c) - length w) 0) ws)" by auto
  moreover obtain x where "pf_pack (pf c) w = Inr x"
    "pf_unpack (pf c) x = Inr (w @ replicate (pf_data_bytes (pf c) - length w) 0)"
    using pack_unpack [OF assms(1), of w] Cons.prems by auto
  ultimately show ?case by auto
qed simp

text \<open>
  The conversion of bytes is lossless: packing, appending any number of zero elements and unpacking
  gives back the data, once cut to its length.
\<close>

lemma bytes_roundtrip:
  assumes lf: "lawful c"
  shows "\<exists>es. bytes_to_field_elements (pf c) data = Inr es \<and>
     length es = max 1 ((length data + pf_data_bytes (pf c) - 1) div pf_data_bytes (pf c)) \<and>
     (\<forall>k. \<exists>bs. field_elements_to_bytes (pf c) (es @ replicate k 0) = Inr bs \<and>
        take (length data) bs = data \<and> length bs = pf_data_bytes (pf c) * (length es + k))"
proof -
  let ?D = "pf_data_bytes (pf c)"
  have D: "0 < ?D" by (rule data_bytes_pos [OF lf])
  show ?thesis
  proof (cases "data = []")
    case True
    have "mapR (pf_unpack (pf c)) (0 # replicate k 0) = Inr (replicate (Suc k) (replicate ?D 0))" for k
      using unpack_zeros [OF lf, of "Suc k"] by simp
    moreover have "sum_list (replicate k ?D) = k * ?D" for k by (simp add: sum_list_replicate)
    ultimately show ?thesis using True D
      by (auto simp: bytes_to_field_elements_def field_elements_to_bytes_def length_concat
          algebra_simps)
  next
    case False
    let ?ws = "chunks_of ?D data"
    let ?pad = "\<lambda>w. w @ replicate (?D - length w) 0"
    have le: "\<forall>w \<in> set ?ws. length w \<le> ?D" by (auto dest: chunks_of_length_le)
    from pack_windows [OF lf le] obtain es where
      es: "mapR (pf_pack (pf c)) ?ws = Inr es" "length es = length ?ws"
        "mapR (pf_unpack (pf c)) es = Inr (map ?pad ?ws)" by blast
    have enc: "bytes_to_field_elements (pf c) data = Inr es"
      using False D es(1) by (simp add: bytes_to_field_elements_def)
    have "1 \<le> length ?ws" using False D by (simp add: chunks_of_step)
    with length_chunks_of [OF D, of data] es(2)
    have len: "length es = max 1 ((length data + ?D - 1) div ?D)" by simp
    have "\<exists>bs. field_elements_to_bytes (pf c) (es @ replicate k 0) = Inr bs \<and>
        take (length data) bs = data \<and> length bs = ?D * (length es + k)" for k
    proof -
      let ?bs = "concat (map ?pad ?ws) @ concat (replicate k (replicate ?D 0))"
      have "field_elements_to_bytes (pf c) (es @ replicate k 0) = Inr ?bs"
        by (simp add: field_elements_to_bytes_def mapR_append es(3) unpack_zeros [OF lf])
      moreover have "take (length data) ?bs = data"
        by (rule take_concat_padded [OF D])
      moreover have "length (concat (map ?pad ws)) = ?D * length ws"
        if "\<forall>w \<in> set ws. length w \<le> ?D" for ws :: "bytes list"
        using that by (induction ws) auto
      then have "length ?bs = ?D * (length es + k)"
        using le es(2) by (simp add: length_concat sum_list_replicate algebra_simps)
      ultimately show ?thesis by blast
    qed
    with enc len show ?thesis by blast
  qed
qed

end

section \<open>The scalar implementation\<close>

definition scalar_pack :: "'f::zero codec \<Rightarrow> bytes \<Rightarrow> 'f run" where
  "scalar_pack c window =
     assertR (length window \<le> 31) WindowTooLong
       (if list_all (\<lambda>b. b = 0) window then Inr 0
        else let be = 0 # window @ replicate (31 - length window) 0 in
          case cd_read c be of
            Inl e \<Rightarrow> Inl InvalidScalar
          | Inr (x, rest) \<Rightarrow> Inr x)"

definition scalar_unpack :: "'f codec \<Rightarrow> 'f \<Rightarrow> bytes run" where
  "scalar_unpack c x =
     (let buf = cd_write c x in
      if length buf < 1 then Inl SplitOffOutOfBounds else Inr (drop 1 buf))"

definition scalar_packable :: "'f::zero codec \<Rightarrow> 'f packable" where
  "scalar_packable c =
     \<lparr>pf_data_bytes = 31, pf_pack = scalar_pack c, pf_unpack = scalar_unpack c\<rparr>"

text \<open>
  What the packing relies on of the scalar codec (documented for BLS12-381 scalars): 32 bytes,
  big-endian and canonical, zero written as zeros and refused by the reader, and every non-zero
  value below \<open>2\<^sup>2\<^sup>4\<^sup>8\<close> accepted and written back as it was read.
\<close>

definition scalar_codec_ok :: "'f::zero codec \<Rightarrow> bool" where
  "scalar_codec_ok c \<longleftrightarrow> element_codec_ok c \<and> cd_size c = 32 \<and> cd_write c 0 = replicate 32 0 \<and>
     (\<forall>w rest. length w = 31 \<and> \<not> list_all (\<lambda>b. b = 0) w \<longrightarrow>
        (\<exists>x. cd_read c (0 # w @ rest) = Inr (x, rest) \<and> cd_write c x = 0 # w))"

lemma scalar_pack_unpack:
  assumes ok: "scalar_codec_ok c" and len: "length w \<le> 31"
  shows "\<exists>x. scalar_pack c w = Inr x \<and>
    scalar_unpack c x = Inr (w @ replicate (31 - length w) 0)"
proof (cases "list_all (\<lambda>b. b = 0) w")
  case True
  then have w: "w = replicate (length w) 0" by (simp add: all_zero_replicate)
  have "replicate 31 (0::u8) = w @ replicate (31 - length w) 0"
    using len by (subst w) (simp add: replicate_add [symmetric])
  then show ?thesis
    using True len ok by (simp add: scalar_pack_def scalar_unpack_def scalar_codec_ok_def)
next
  case False
  let ?v = "w @ replicate (31 - length w) (0::u8)"
  have "length ?v = 31" "\<not> list_all (\<lambda>b. b = 0) ?v" using False len by auto
  with ok obtain x where "cd_read c (0 # ?v @ []) = Inr (x, [])" "cd_write c x = 0 # ?v"
    unfolding scalar_codec_ok_def by blast
  then show ?thesis
    using False len by (simp add: scalar_pack_def scalar_unpack_def Let_def)
qed

interpretation scalar_pf: packable_field scalar_codec_ok scalar_packable
proof unfold_locales
  fix c :: "'f::field codec"
  assume ok: "scalar_codec_ok c"
  show "0 < pf_data_bytes (scalar_packable c)" by (simp add: scalar_packable_def)
  show "pf_unpack (scalar_packable c) 0 = Inr (replicate (pf_data_bytes (scalar_packable c)) 0)"
    using ok by (simp add: scalar_packable_def scalar_unpack_def scalar_codec_ok_def)
  fix w :: bytes
  assume "length w \<le> pf_data_bytes (scalar_packable c)"
  with scalar_pack_unpack [OF ok, of w]
  show "\<exists>x. pf_pack (scalar_packable c) w = Inr x \<and> pf_unpack (scalar_packable c) x =
      Inr (w @ replicate (pf_data_bytes (scalar_packable c) - length w) 0)"
    by (simp add: scalar_packable_def)
qed

text \<open>
  The same laws as a predicate on a dictionary: code that is generic over \<open>F: PackableField\<close> is
  proved for every dictionary that keeps them, and the scalar's does.
\<close>

definition packable_ok :: "'f::field packable \<Rightarrow> bool" where
  "packable_ok pf \<longleftrightarrow> 0 < pf_data_bytes pf \<and>
     (\<forall>w. length w \<le> pf_data_bytes pf \<longrightarrow>
        (\<exists>x. pf_pack pf w = Inr x \<and>
             pf_unpack pf x = Inr (w @ replicate (pf_data_bytes pf - length w) 0))) \<and>
     pf_unpack pf 0 = Inr (replicate (pf_data_bytes pf) 0)"

interpretation any_pf: packable_field packable_ok "\<lambda>pf. pf"
  by unfold_locales (simp_all add: packable_ok_def)

lemma scalar_packable_ok:
  fixes c :: "'f::field codec"
  assumes "scalar_codec_ok c"
  shows "packable_ok (scalar_packable c)"
  unfolding packable_ok_def
  using scalar_pf.data_bytes_pos [OF assms] scalar_pf.pack_unpack [OF assms]
    scalar_pf.unpack_zero [OF assms] by blast

lemma scalar_pack_panics:
  "31 < length w \<Longrightarrow> scalar_pack c w = Inl WindowTooLong"
  by (simp add: scalar_pack_def)

end
