(* ===== verification/Block.thy ===== *)
theory Block
  imports Coding Packing
begin

text \<open>
  \<open>crates/primitives/types/src/block.rs\<close>: the block, its codec, and the conversion of a block to
  original chunks (\<open>as_chunks\<close>), to coded chunks (\<open>encode_chunks\<close>) and back (\<open>from_chunks\<close>).

  \<open>B256\<close> values are byte lists of length 32 (\<open>block_ok\<close>). The codecs of \<open>u64\<close> and of \<open>Vec<u8>\<close>, the
  leftover check of \<open>DecodeExt::decode\<close> and \<open>keccak256\<close> are library code: fields of \<open>wire\<close> and a
  parameter. Sizes are \<open>nat\<close>: \<open>N * m\<close> and the lengths stay far below \<open>2\<^sup>6\<^sup>4\<close>.
\<close>

section \<open>The block and its codec\<close>

record block =
  bl_parent_hash :: bytes
  bl_number :: u64
  bl_timestamp :: u64
  bl_gas_used :: u64
  bl_gas_limit :: u64
  bl_state_root :: bytes
  bl_transactions :: bytes

record wire =
  w_u64 :: "u64 codec"
  w_put_bytes :: "bytes \<Rightarrow> bytes"                               \<comment> \<open>write of a byte slice\<close>
  w_bytes_size :: "bytes \<Rightarrow> nat"                                \<comment> \<open>its \<open>encode_size\<close>\<close>
  w_get_bytes :: "nat \<Rightarrow> bytes \<Rightarrow> codec_error + bytes \<times> bytes"   \<comment> \<open>\<open>Vec<u8>::read_cfg\<close>, \<open>0..=max\<close>\<close>
  w_leftover :: "bytes \<Rightarrow> codec_error option"                   \<comment> \<open>\<open>decode\<close> on trailing bytes\<close>

definition max_transactions_bytes :: nat where
  "max_transactions_bytes = 16 * 1024 * 1024"

definition block_eq :: "block \<Rightarrow> block \<Rightarrow> bool" where
  "block_eq a b \<longleftrightarrow> bl_parent_hash a = bl_parent_hash b \<and> bl_number a = bl_number b \<and>
     bl_timestamp a = bl_timestamp b \<and> bl_gas_used a = bl_gas_used b \<and>
     bl_gas_limit a = bl_gas_limit b \<and> bl_state_root a = bl_state_root b \<and>
     bl_transactions a = bl_transactions b"

definition block_write :: "wire \<Rightarrow> block \<Rightarrow> bytes" where
  "block_write wc b =
     bl_parent_hash b @
     cd_write (w_u64 wc) (bl_number b) @
     cd_write (w_u64 wc) (bl_timestamp b) @
     cd_write (w_u64 wc) (bl_gas_used b) @
     cd_write (w_u64 wc) (bl_gas_limit b) @
     bl_state_root b @
     w_put_bytes wc (bl_transactions b)"

definition block_encode_size :: "wire \<Rightarrow> block \<Rightarrow> nat" where
  "block_encode_size wc b =
     32 + cd_size (w_u64 wc) + cd_size (w_u64 wc) + cd_size (w_u64 wc) + cd_size (w_u64 wc) + 32 +
     w_bytes_size wc (bl_transactions b)"

definition read_32 :: "bytes \<Rightarrow> codec_error + bytes \<times> bytes" where
  "read_32 buf = (if length buf < 32 then Inl EndOfBuffer else Inr (take 32 buf, drop 32 buf))"

definition block_read :: "wire \<Rightarrow> bytes \<Rightarrow> codec_error + block \<times> bytes" where
  "block_read wc buf =
     bindR (read_32 buf) (\<lambda>(parent_hash, buf).
     bindR (cd_read (w_u64 wc) buf) (\<lambda>(number, buf).
     bindR (cd_read (w_u64 wc) buf) (\<lambda>(timestamp, buf).
     bindR (cd_read (w_u64 wc) buf) (\<lambda>(gas_used, buf).
     bindR (cd_read (w_u64 wc) buf) (\<lambda>(gas_limit, buf).
     bindR (read_32 buf) (\<lambda>(state_root, buf).
     bindR (w_get_bytes wc max_transactions_bytes buf) (\<lambda>(transactions, buf).
       Inr (\<lparr>bl_parent_hash = parent_hash, bl_number = number, bl_timestamp = timestamp,
             bl_gas_used = gas_used, bl_gas_limit = gas_limit, bl_state_root = state_root,
             bl_transactions = transactions\<rparr>, buf))))))))"

definition block_decode :: "wire \<Rightarrow> bytes \<Rightarrow> codec_error + block" where
  "block_decode wc data =
     bindR (block_read wc data) (\<lambda>(b, rest).
       case w_leftover wc rest of None \<Rightarrow> Inr b | Some e \<Rightarrow> Inl e)"

definition block_hash :: "(bytes \<Rightarrow> bytes) \<Rightarrow> wire \<Rightarrow> block \<Rightarrow> bytes" where
  "block_hash keccak256 wc b = keccak256 (block_write wc b)"

section \<open>Blocks and chunks\<close>

definition as_chunks ::
  "wire \<Rightarrow> 'f::zero packable \<Rightarrow> nat \<Rightarrow> nat \<Rightarrow> block \<Rightarrow> ('f chunk list \<times> nat) run" where
  "as_chunks wc pf N m b =
     (let encoded = block_write wc b; byte_len = length encoded in
      bindR (bytes_to_field_elements pf encoded) (\<lambda>elements.
        let total_slots = N * m in
        assertR (length elements \<le> total_slots) BlockTooLarge
          (let padded = resize total_slots 0 elements in
           assertR (m \<noteq> 0) ZeroChunkSize
             (bindR (mapR chunk_new (chunks_exact m padded)) (\<lambda>chunks. Inr (chunks, byte_len))))))"

fun encode_loop ::
  "('r \<Rightarrow> 'f::field \<times> 'r) \<Rightarrow> nat \<Rightarrow> 'f list list \<Rightarrow> nat \<Rightarrow> 'r \<Rightarrow> ('f coded_chunk list \<times> 'r) run" where
  "encode_loop random N chunk_refs 0 rng = Inr ([], rng)"
| "encode_loop random N chunk_refs (Suc count) rng =
     (let (coeffs, rng1) = random_coefficients random N rng in
      bindR (linear_combination chunk_refs coeffs) (\<lambda>coded_data.
      bindR (chunk_new coded_data) (\<lambda>w.
      bindR (coded_chunk_new N w coeffs) (\<lambda>c.
      bindR (encode_loop random N chunk_refs count rng1) (\<lambda>(cs, rng2). Inr (c # cs, rng2))))))"

definition encode_chunks ::
  "wire \<Rightarrow> 'f::field packable \<Rightarrow> ('r \<Rightarrow> 'f \<times> 'r) \<Rightarrow> nat \<Rightarrow> nat \<Rightarrow> nat \<Rightarrow> block \<Rightarrow> 'r \<Rightarrow>
   (('f coded_chunk list \<times> nat) \<times> 'r) run" where
  "encode_chunks wc pf random N m count b rng =
     bindR (as_chunks wc pf N m b) (\<lambda>(original_chunks, byte_len).
       let chunk_refs = map chunk_v original_chunks in
       bindR (encode_loop random N chunk_refs count rng) (\<lambda>(coded, rng'). Inr ((coded, byte_len), rng')))"

definition from_chunks ::
  "wire \<Rightarrow> 'f packable \<Rightarrow> nat \<Rightarrow> 'f chunk list \<Rightarrow> nat \<Rightarrow> block run" where
  "from_chunks wc pf N chunks byte_len =
     assertR (length chunks = N) WrongChunkCount
       (let elements = concat (map chunk_v chunks) in
        bindR (field_elements_to_bytes pf elements) (\<lambda>all_bytes.
          assertR (byte_len \<le> length all_bytes) SliceOutOfBounds
            (case block_read wc (take byte_len all_bytes) of
               Inl e \<Rightarrow> Inl InvalidBlock
             | Inr (b, rest) \<Rightarrow> Inr b)))"

section \<open>The codec round trip\<close>

definition block_ok :: "block \<Rightarrow> bool" where
  "block_ok b \<longleftrightarrow> length (bl_parent_hash b) = 32 \<and> length (bl_state_root b) = 32"

text \<open>
  The documented behaviour of the library codecs: \<open>u64\<close> takes eight bytes and reads back; a byte
  vector reads back within the allowed length and is refused beyond it; \<open>encode_size\<close> is the number
  of bytes written; \<open>decode\<close> accepts an empty rest.
\<close>

definition wire_ok :: "wire \<Rightarrow> bool" where
  "wire_ok wc \<longleftrightarrow>
     cd_size (w_u64 wc) = 8 \<and> (\<forall>x. length (cd_write (w_u64 wc) x) = 8) \<and>
     (\<forall>x rest. cd_read (w_u64 wc) (cd_write (w_u64 wc) x @ rest) = Inr (x, rest)) \<and>
     (\<forall>bs. w_bytes_size wc bs = length (w_put_bytes wc bs)) \<and>
     (\<forall>mx bs rest. length bs < 2 ^ 32 \<and> length bs \<le> mx \<longrightarrow>
        w_get_bytes wc mx (w_put_bytes wc bs @ rest) = Inr (bs, rest)) \<and>
     (\<forall>mx bs rest. length bs < 2 ^ 32 \<and> mx < length bs \<longrightarrow>
        (\<exists>e. w_get_bytes wc mx (w_put_bytes wc bs @ rest) = Inl e)) \<and>
     w_leftover wc [] = None"

lemma block_eq_iff: "block_eq a b \<longleftrightarrow> a = b"
  by (auto simp: block_eq_def)

lemma read_32_append [run_simps]: "length h = 32 \<Longrightarrow> read_32 (h @ rest) = Inr (h, rest)"
  by (simp add: read_32_def)

lemma block_read_header:
  assumes "wire_ok wc" "block_ok b"
  shows "block_read wc (block_write wc b @ rest) =
    bindR (w_get_bytes wc max_transactions_bytes (w_put_bytes wc (bl_transactions b) @ rest))
      (\<lambda>(txs, buf). Inr (b\<lparr>bl_transactions := txs\<rparr>, buf))"
  using assms
  by (cases b) (simp add: block_read_def block_write_def wire_ok_def block_ok_def read_32_append)

lemma block_read_write:
  assumes "wire_ok wc" "block_ok b" "length (bl_transactions b) \<le> max_transactions_bytes"
  shows "block_read wc (block_write wc b @ rest) = Inr (b, rest)"
proof -
  have "length (bl_transactions b) < 2 ^ 32"
    using assms(3) by (simp add: max_transactions_bytes_def)
  then show ?thesis
    using assms by (simp add: block_read_header) (simp add: wire_ok_def)
qed

lemma block_read_oversized:
  assumes "wire_ok wc" "block_ok b" "max_transactions_bytes < length (bl_transactions b)"
    "length (bl_transactions b) < 2 ^ 32"
  shows "\<exists>e. block_read wc (block_write wc b @ rest) = Inl e"
proof -
  have "\<exists>e. w_get_bytes wc max_transactions_bytes (w_put_bytes wc (bl_transactions b) @ rest) = Inl e"
    using assms by (simp add: wire_ok_def)
  then show ?thesis using assms(1,2) by (auto simp: block_read_header)
qed

lemma block_decode_write:
  assumes "wire_ok wc" "block_ok b" "length (bl_transactions b) \<le> max_transactions_bytes"
  shows "block_decode wc (block_write wc b) = Inr b"
  using block_read_write [OF assms, of "[]"] assms(1)
  by (simp add: block_decode_def wire_ok_def)

lemma block_encode_size_length:
  assumes "wire_ok wc" "block_ok b"
  shows "block_encode_size wc b = length (block_write wc b)"
  using assms by (simp add: block_encode_size_def block_write_def wire_ok_def block_ok_def)

lemma block_write_length: "wire_ok wc \<Longrightarrow> block_ok b \<Longrightarrow> 96 \<le> length (block_write wc b)"
  by (simp add: block_write_def wire_ok_def block_ok_def)

section \<open>Chunking round trip\<close>

text \<open>The number of field elements a byte string of length \<open>l\<close> needs.\<close>

definition elements_needed :: "nat \<Rightarrow> nat \<Rightarrow> nat" where
  "elements_needed D l = max 1 ((l + D - 1) div D)"

lemma mapR_chunk_new:
  "\<forall>v \<in> set vs. v \<noteq> [] \<Longrightarrow> mapR chunk_new vs = Inr (map (\<lambda>v. \<lparr>chunk_v = v\<rparr>) vs)"
  by (rule mapR_pure) (simp add: chunk_new_def)

context packable_field
begin

lemma as_chunks_spec:
  assumes lf: "lawful c"
    and fits: "elements_needed (pf_data_bytes (pf c)) (length (block_write wc b)) \<le> N * m"
  shows "\<exists>V. as_chunks wc (pf c) N m b = Inr (map (\<lambda>v. \<lparr>chunk_v = v\<rparr>) V, length (block_write wc b)) \<and>
     originals N m V \<and>
     (\<exists>bs. field_elements_to_bytes (pf c) (concat V) = Inr bs \<and>
        length (block_write wc b) \<le> length bs \<and> length bs = pf_data_bytes (pf c) * (N * m) \<and>
        take (length (block_write wc b)) bs = block_write wc b)"
proof -
  let ?enc = "block_write wc b"
  from bytes_roundtrip [OF lf, of ?enc] obtain es where
    es: "bytes_to_field_elements (pf c) ?enc = Inr es"
      "length es = elements_needed (pf_data_bytes (pf c)) (length ?enc)"
    and back_bytes: "\<And>k. \<exists>bs. field_elements_to_bytes (pf c) (es @ replicate k 0) = Inr bs \<and>
        take (length ?enc) bs = ?enc \<and> length bs = pf_data_bytes (pf c) * (length es + k)"
    unfolding elements_needed_def by blast
  have fit: "length es \<le> N * m" using fits es(2) by simp
  have "1 \<le> length es" by (simp add: es(2) elements_needed_def)
  with fit have m: "0 < m" by (cases m) auto
  define padded where "padded = resize (N * m) 0 es"
  define V where "V = chunks_exact m padded"
  have len: "length padded = N * m" by (simp add: padded_def)
  note ch = chunks_exact_multiple [OF m len, folded V_def]
  have "mapR chunk_new V = Inr (map (\<lambda>v. \<lparr>chunk_v = v\<rparr>) V)"
    using ch(3) m by (intro mapR_chunk_new) auto
  then have "as_chunks wc (pf c) N m b = Inr (map (\<lambda>v. \<lparr>chunk_v = v\<rparr>) V, length ?enc)"
    using es(1) fit m by (simp add: as_chunks_def Let_def padded_def V_def)
  moreover have "originals N m V" using ch(2,3) m by (simp add: originals_def)
  moreover have "concat V = es @ replicate (N * m - length es) 0"
    using ch(4) fit by (simp add: padded_def resize_def)
  with back_bytes [of "N * m - length es"] fit obtain bs where
    bs: "field_elements_to_bytes (pf c) (concat V) = Inr bs" "take (length ?enc) bs = ?enc"
      "length bs = pf_data_bytes (pf c) * (N * m)" by auto
  moreover have "length ?enc \<le> length bs"
    using arg_cong [OF bs(2), of length] by simp
  ultimately show ?thesis by blast
qed

lemma as_chunks_too_large:
  assumes lf: "lawful c"
    and big: "N * m < elements_needed (pf_data_bytes (pf c)) (length (block_write wc b))"
  shows "as_chunks wc (pf c) N m b = Inl BlockTooLarge"
proof -
  from bytes_roundtrip [OF lf, of "block_write wc b"] obtain es where
    "bytes_to_field_elements (pf c) (block_write wc b) = Inr es"
    "length es = elements_needed (pf_data_bytes (pf c)) (length (block_write wc b))"
    unfolding elements_needed_def by blast
  with big show ?thesis by (simp add: as_chunks_def Let_def)
qed

lemma from_chunks_reads:
  assumes lf: "lawful c" and run: "as_chunks wc (pf c) N m b = Inr (cs, byte_len)"
  shows "from_chunks wc (pf c) N cs byte_len =
    (case block_read wc (block_write wc b) of Inl e \<Rightarrow> Inl InvalidBlock | Inr (b', rest) \<Rightarrow> Inr b')"
proof -
  have "elements_needed (pf_data_bytes (pf c)) (length (block_write wc b)) \<le> N * m"
    using as_chunks_too_large [OF lf, of N m wc b] run by fastforce
  from as_chunks_spec [OF lf this] run obtain V bs where
    V: "cs = map (\<lambda>v. \<lparr>chunk_v = v\<rparr>) V" "byte_len = length (block_write wc b)" "length V = N"
    and bs: "field_elements_to_bytes (pf c) (concat V) = Inr bs"
      "length (block_write wc b) \<le> length bs"
      "take (length (block_write wc b)) bs = block_write wc b"
    by (auto simp: originals_def)
  have "map chunk_v cs = V" by (simp add: V(1) comp_def)
  then show ?thesis using V bs by (simp add: from_chunks_def Let_def)
qed

lemma from_chunks_as_chunks:
  assumes "lawful c" "wire_ok wc" "block_ok b" "length (bl_transactions b) \<le> max_transactions_bytes"
    and "as_chunks wc (pf c) N m b = Inr (cs, byte_len)"
  shows "from_chunks wc (pf c) N cs byte_len = Inr b"
  using block_read_write [OF assms(2-4), of "[]"] by (simp add: from_chunks_reads [OF assms(1,5)])

lemma from_chunks_oversized:
  assumes "lawful c" "wire_ok wc" "block_ok b" "max_transactions_bytes < length (bl_transactions b)"
    "length (bl_transactions b) < 2 ^ 32" and "as_chunks wc (pf c) N m b = Inr (cs, byte_len)"
  shows "from_chunks wc (pf c) N cs byte_len = Inl InvalidBlock"
  using block_read_oversized [OF assms(2-5), of "[]"] by (auto simp: from_chunks_reads [OF assms(1,6)])

text \<open>A slice end beyond the decoded bytes, or bytes that are no block, panics.\<close>

lemma from_chunks_slice_panics:
  assumes lf: "lawful c" and bytes: "field_elements_to_bytes (pf c) (concat V) = Inr bs"
    and "length V = N" "length bs < byte_len"
  shows "from_chunks wc (pf c) N (map (\<lambda>v. \<lparr>chunk_v = v\<rparr>) V) byte_len = Inl SliceOutOfBounds"
  using assms by (simp add: from_chunks_def Let_def comp_def)

end

section \<open>Encoding\<close>

lemma encode_loop_coded:
  assumes "originals N m V" and "0 < N"
  shows "\<exists>cs rng'. encode_loop random N V count rng = Inr (cs, rng') \<and> length cs = count \<and>
      (\<forall>c \<in> set cs. coded_by N m V c)"
proof (induction count arbitrary: rng)
  case (Suc count)
  obtain coeffs rng1 where r: "random_coefficients random N rng = (coeffs, rng1)"
    by (cases "random_coefficients random N rng")
  then have len: "length coeffs = N"
    using length_draw_n [of random N rng] by (simp add: random_coefficients_def)
  let ?data = "map (comb ((!) coeffs) V) [0..<m]"
  have lc: "linear_combination V coeffs = Inr ?data"
    by (rule linear_combination_comb) (use assms len in \<open>auto simp: originals_def\<close>)
  obtain cs rng2 where "encode_loop random N V count rng1 = Inr (cs, rng2)" "length cs = count"
    "\<forall>c \<in> set cs. coded_by N m V c"
    using Suc.IH by blast
  then show ?case
    using r len lc assms
    by (simp add: chunk_new_def coded_chunk_new_def originals_def coded_by_def)
qed simp

lemma map_chunk_v_wrap [simp]: "map chunk_v (map (\<lambda>v. \<lparr>chunk_v = v\<rparr>) V) = V"
  by (simp add: comp_def)

context packable_field
begin

lemma encode_chunks_spec:
  assumes lf: "lawful c"
    and fits: "elements_needed (pf_data_bytes (pf c)) (length (block_write wc b)) \<le> N * m"
  shows "\<exists>V cs rng'. as_chunks wc (pf c) N m b
        = Inr (map (\<lambda>v. \<lparr>chunk_v = v\<rparr>) V, length (block_write wc b)) \<and>
      originals N m V \<and>
      encode_chunks wc (pf c) random N m count b rng
        = Inr ((cs, length (block_write wc b)), rng') \<and>
      length cs = count \<and> (\<forall>c \<in> set cs. coded_by N m V c)"
proof -
  from as_chunks_spec [OF lf fits] obtain V where
    V: "as_chunks wc (pf c) N m b = Inr (map (\<lambda>v. \<lparr>chunk_v = v\<rparr>) V, length (block_write wc b))"
      "originals N m V" by blast
  have "0 < N" using fits by (cases N) (auto simp: elements_needed_def)
  from encode_loop_coded [OF V(2) this, of random count rng] obtain cs rng' where
    "encode_loop random N V count rng = Inr (cs, rng')" "length cs = count"
    "\<forall>c \<in> set cs. coded_by N m V c" by blast
  with V show ?thesis
    by (auto simp: encode_chunks_def Let_def simp del: map_map)
qed

end

end
