(* ===== verification/Strategy_Core.thy ===== *)
theory Strategy_Core
  imports Block
begin

text \<open>
  \<open>crates/strategy/core/src\<close>: the forwarding conditions (\<open>lib.rs\<close>), the traits \<open>IntegrityScheme\<close>
  and \<open>IntegrityProof\<close> with \<open>SignedPacket\<close> and the no-op scheme (\<open>proof.rs\<close>), and the shared
  \<open>coded_receive\<close> and \<open>coded_forward\<close> (\<open>helpers.rs\<close>).

  A trait is a record of its functions. The contract both schemes keep is the locale
  \<open>coded_integrity\<close>: honest proofs verify, and combining honest proofs gives an honest proof of the
  re-encoded chunk. Inside it the receive and forward helpers are proved once for all schemes.
\<close>

section \<open>Traits and packets\<close>

datatype forward_condition = AfterDecode | OneShot | UntilDecode

record ('ctx, 'f, 'p) integrity_scheme =
  is_verify :: "'ctx \<Rightarrow> 'f coded_chunk \<Rightarrow> 'p \<Rightarrow> (err + unit) run"
  is_combine :: "'p list \<Rightarrow> 'f list \<Rightarrow> 'p run"

record 'p integrity_proof =
  ip_serialize :: "'p \<Rightarrow> bytes"
  ip_deserialize :: "bytes \<Rightarrow> err + 'p \<times> bytes"
  ip_wire_size :: "'p \<Rightarrow> nat"

record ('f, 'p) signed_packet =
  sp_chunk :: "'f coded_chunk"
  sp_proof :: 'p

definition sp_verify ::
  "('ctx, 'f, 'p) integrity_scheme \<Rightarrow> 'ctx \<Rightarrow> ('f, 'p) signed_packet \<Rightarrow> (err + unit) run" where
  "sp_verify S ctx pkt = is_verify S ctx (sp_chunk pkt) (sp_proof pkt)"

definition sp_serialize ::
  "'f codec \<Rightarrow> 'p integrity_proof \<Rightarrow> ('f, 'p) signed_packet \<Rightarrow> bytes" where
  "sp_serialize fc ip pkt =
     concat (map (cd_write fc) (chunk_v (cc_w (sp_chunk pkt)))) @
     concat (map (cd_write fc) (cc_b (sp_chunk pkt))) @
     ip_serialize ip (sp_proof pkt)"

definition sp_wire_size ::
  "'f codec \<Rightarrow> 'p integrity_proof \<Rightarrow> nat \<Rightarrow> ('f, 'p) signed_packet \<Rightarrow> nat" where
  "sp_wire_size fc ip N pkt =
     (let m = length (chunk_v (cc_w (sp_chunk pkt))) in
      cd_size fc * m + cd_size fc * N + ip_wire_size ip (sp_proof pkt))"

fun read_fields :: "'f::zero codec \<Rightarrow> nat \<Rightarrow> bytes \<Rightarrow> err + 'f list \<times> bytes" where
  "read_fields c 0 buf = Inr ([], buf)"
| "read_fields c (Suc k) buf =
     bindR (read_field c buf) (\<lambda>(x, buf1).
     bindR (read_fields c k buf1) (\<lambda>(xs, buf2). Inr (x # xs, buf2)))"

text \<open>Bytes left over after the proof are ignored, as in the code.\<close>

definition sp_deserialize ::
  "'f::zero codec \<Rightarrow> 'p integrity_proof \<Rightarrow> nat \<Rightarrow> bytes \<Rightarrow> nat \<Rightarrow>
   (err + ('f, 'p) signed_packet) run" where
  "sp_deserialize fc ip N data m =
     (case bindR (read_fields fc m data) (\<lambda>(w, buf1).
           bindR (read_fields fc N buf1) (\<lambda>(b, buf2).
           bindR (ip_deserialize ip buf2) (\<lambda>(proof, buf3). Inr (w, b, proof)))) of
        Inl e \<Rightarrow> Inr (Inl e)
      | Inr (w, b, proof) \<Rightarrow>
          bindR (chunk_new w) (\<lambda>w.
          bindR (coded_chunk_new N w b) (\<lambda>chunk.
            Inr (Inr \<lparr>sp_chunk = chunk, sp_proof = proof\<rparr>))))"

definition noop_scheme :: "(unit, 'f, unit) integrity_scheme" where
  "noop_scheme = \<lparr>is_verify = (\<lambda>ctx chunk proof. Inr (Inr ())), is_combine = (\<lambda>proofs alphas. Inr ())\<rparr>"

definition unit_proof :: "unit integrity_proof" where
  "unit_proof = \<lparr>ip_serialize = (\<lambda>_. []), ip_deserialize = (\<lambda>buf. Inr ((), buf)),
     ip_wire_size = (\<lambda>_. 0)\<rparr>"

text \<open>
  The trait \<open>Strategy\<close>. \<open>'self\<close> is the strategy value; \<open>init_proposer\<close> returns it too, because BFKW
  caches a context in it (interior mutability). \<open>receive\<close> returns the mutated node state.
\<close>

record ('self, 's, 'p, 'r) strategy =
  st_name :: string
  st_forward_condition :: forward_condition
  st_init_proposer :: "'self \<Rightarrow> block \<Rightarrow> nat \<Rightarrow> 'r \<Rightarrow> (('self \<times> 's \<times> 'p list \<times> nat) \<times> 'r) run"
  st_init_receiver :: "'self \<Rightarrow> 's run"
  st_receive :: "'self \<Rightarrow> 's \<Rightarrow> 'p \<Rightarrow> ('s \<times> (err + bool)) run"
  st_can_decode :: "'self \<Rightarrow> 's \<Rightarrow> bool"
  st_forward :: "'self \<Rightarrow> 's \<Rightarrow> nat \<Rightarrow> 'r \<Rightarrow> ('p list \<times> 'r) run"
  st_packet_size :: "'self \<Rightarrow> 'p \<Rightarrow> nat"
  st_decode :: "'self \<Rightarrow> 's \<Rightarrow> nat \<Rightarrow> block run"

section \<open>coded_receive and coded_forward\<close>

text \<open>Decoder and proofs are mutable borrows: the result carries their new values.\<close>

definition coded_receive ::
  "('ctx, 'f::field, 'p) integrity_scheme \<Rightarrow> 'f block_decoder \<Rightarrow> 'p list \<Rightarrow> 'ctx \<Rightarrow>
   ('f, 'p) signed_packet \<Rightarrow> (('f block_decoder \<times> 'p list) \<times> (err + bool)) run" where
  "coded_receive S decoder proofs ctx packet =
     bindR (is_verify S ctx (sp_chunk packet) (sp_proof packet)) (\<lambda>verdict.
       case verdict of
         Inl e \<Rightarrow> Inr ((decoder, proofs), Inl e)
       | Inr _ \<Rightarrow>
           bindR (bd_add decoder (sp_chunk packet)) (\<lambda>(decoder', added).
             if added then Inr ((decoder', proofs @ [sp_proof packet]), Inr True)
             else Inr ((decoder', proofs), Inr False)))"

fun coded_forward ::
  "('ctx, 'f::field, 'p) integrity_scheme \<Rightarrow> ('r \<Rightarrow> 'f \<times> 'r) \<Rightarrow> nat \<Rightarrow> 'f block_decoder \<Rightarrow> 'p list \<Rightarrow>
   nat \<Rightarrow> 'r \<Rightarrow> (('f, 'p) signed_packet list \<times> 'r) run" where
  "coded_forward S random N decoder proofs 0 rng = Inr ([], rng)"
| "coded_forward S random N decoder proofs (Suc num_peers) rng =
     (let (alphas, rng1) = random_coefficients random (bd_rank decoder) rng in
      bindR (bd_reencode_with N decoder alphas) (\<lambda>new_chunk.
      bindR (is_combine S proofs alphas) (\<lambda>new_proof.
      bindR (coded_forward S random N decoder proofs num_peers rng1) (\<lambda>(pkts, rng2).
        Inr (\<lparr>sp_chunk = new_chunk, sp_proof = new_proof\<rparr> # pkts, rng2)))))"

section \<open>Wire round trip\<close>

definition proof_codec_ok :: "'p integrity_proof \<Rightarrow> 'p \<Rightarrow> bool" where
  "proof_codec_ok ip p \<longleftrightarrow> (\<forall>rest. ip_deserialize ip (ip_serialize ip p @ rest) = Inr (p, rest)) \<and>
     length (ip_serialize ip p) = ip_wire_size ip p"

lemma read_fields_write:
  assumes "element_codec_ok c" "cd_write c 0 = replicate (cd_size c) 0" "\<forall>x \<in> set xs. encodable c x"
  shows "read_fields c (length xs) (concat (map (cd_write c) xs) @ rest) = Inr (xs, rest)"
  using assms(3) by (induction xs) (simp_all add: read_field_write [OF assms(1,2)])

lemma length_write_all:
  "element_codec_ok c \<Longrightarrow> length (concat (map (cd_write c) xs)) = cd_size c * length xs"
  by (induction xs) (auto simp: element_codec_ok_def)

lemma sp_deserialize_serialize:
  assumes "element_codec_ok fc" "cd_write fc 0 = replicate (cd_size fc) 0"
    and "\<forall>x \<in> set (chunk_v (cc_w (sp_chunk pkt))) \<union> set (cc_b (sp_chunk pkt)). encodable fc x"
    and "chunk_v (cc_w (sp_chunk pkt)) \<noteq> []" "length (cc_b (sp_chunk pkt)) = N"
    and "proof_codec_ok ip (sp_proof pkt)"
  shows "sp_deserialize fc ip N (sp_serialize fc ip pkt @ trailing)
     (length (chunk_v (cc_w (sp_chunk pkt)))) = Inr (Inr pkt)"
proof -
  have "read_fields fc (length (chunk_v (cc_w (sp_chunk pkt))))
      (sp_serialize fc ip pkt @ trailing)
    = Inr (chunk_v (cc_w (sp_chunk pkt)),
        concat (map (cd_write fc) (cc_b (sp_chunk pkt))) @ ip_serialize ip (sp_proof pkt) @ trailing)"
    unfolding sp_serialize_def append_assoc
    by (rule read_fields_write [OF assms(1,2)]) (use assms(3) in simp)
  moreover have "read_fields fc N (concat (map (cd_write fc) (cc_b (sp_chunk pkt))) @
      ip_serialize ip (sp_proof pkt) @ trailing)
    = Inr (cc_b (sp_chunk pkt), ip_serialize ip (sp_proof pkt) @ trailing)"
    unfolding assms(5) [symmetric]
    by (rule read_fields_write [OF assms(1,2)]) (use assms(3) in simp)
  ultimately show ?thesis
    using assms(4-6)
    by (simp add: sp_deserialize_def proof_codec_ok_def chunk_new_def coded_chunk_new_def)
qed

lemma sp_wire_size_length:
  assumes "element_codec_ok fc" "length (cc_b (sp_chunk pkt)) = N"
    and "proof_codec_ok ip (sp_proof pkt)"
  shows "sp_wire_size fc ip N pkt = length (sp_serialize fc ip pkt)"
  using assms
  by (simp add: sp_wire_size_def sp_serialize_def length_write_all proof_codec_ok_def Let_def)

lemma unit_proof_codec_ok: "proof_codec_ok unit_proof p"
  by (simp add: proof_codec_ok_def unit_proof_def)

section \<open>The contract of an integrity scheme\<close>

text \<open>
  \<open>node_ok prf N m V d ps\<close>: the decoder \<open>d\<close> is honest for the original chunks \<open>V\<close>, and the proofs
  \<open>ps\<close> the node keeps go with the decoder's chunks as \<open>prf\<close> demands.
\<close>

definition node_ok ::
  "('f::field coded_chunk list \<Rightarrow> 'p list \<Rightarrow> bool) \<Rightarrow> nat \<Rightarrow> nat \<Rightarrow> 'f list list \<Rightarrow>
   'f block_decoder \<Rightarrow> 'p list \<Rightarrow> bool" where
  "node_ok prf N m V d ps \<longleftrightarrow> honest N m V d \<and> prf (bd_coded_chunks d) ps"

text \<open>
  \<open>c\<close> stands for the library code a scheme calls. \<open>setting c N m ctx V\<close>: context \<open>ctx\<close> belongs to a
  block with the original chunks \<open>V\<close>. \<open>good c ctx V ch p\<close>: \<open>p\<close> is an honest proof for the coded
  chunk \<open>ch\<close>. \<open>proofs c ctx V cs ps\<close>: the proofs a node keeps go with the chunks its decoder keeps.
\<close>

locale coded_integrity =
  fixes scheme :: "'c \<Rightarrow> nat \<Rightarrow> ('ctx, 'f::field, 'p) integrity_scheme"
    and setting :: "'c \<Rightarrow> nat \<Rightarrow> nat \<Rightarrow> 'ctx \<Rightarrow> 'f list list \<Rightarrow> bool"
    and good :: "'c \<Rightarrow> nat \<Rightarrow> nat \<Rightarrow> 'ctx \<Rightarrow> 'f list list \<Rightarrow> 'f coded_chunk \<Rightarrow> 'p \<Rightarrow> bool"
    and proofs :: "'c \<Rightarrow> nat \<Rightarrow> nat \<Rightarrow> 'ctx \<Rightarrow> 'f list list \<Rightarrow> 'f coded_chunk list \<Rightarrow> 'p list \<Rightarrow> bool"
  assumes setting_originals: "setting c N m ctx V \<Longrightarrow> originals N m V"
    and good_coded: "setting c N m ctx V \<Longrightarrow> good c N m ctx V ch p \<Longrightarrow> coded_by N m V ch"
    and verify_good: "setting c N m ctx V \<Longrightarrow> good c N m ctx V ch p \<Longrightarrow>
      is_verify (scheme c N) ctx ch p = Inr (Inr ())"
    and proofs_Nil: "setting c N m ctx V \<Longrightarrow> proofs c N m ctx V [] []"
    and proofs_snoc: "setting c N m ctx V \<Longrightarrow> proofs c N m ctx V cs ps \<Longrightarrow>
      good c N m ctx V ch p \<Longrightarrow> proofs c N m ctx V (cs @ [ch]) (ps @ [p])"
    and combine_good: "setting c N m ctx V \<Longrightarrow> proofs c N m ctx V cs ps \<Longrightarrow> cs \<noteq> [] \<Longrightarrow>
      \<forall>ch \<in> set cs. coded_by N m V ch \<Longrightarrow>
      length alphas = length cs \<Longrightarrow> coded_by N m V new \<Longrightarrow>
      chunk_v (cc_w new) = map (comb ((!) alphas) (map (\<lambda>c. chunk_v (cc_w c)) cs)) [0..<m] \<Longrightarrow>
      cc_b new = map (comb ((!) alphas) (map cc_b cs)) [0..<N] \<Longrightarrow>
      \<exists>p. is_combine (scheme c N) ps alphas = Inr p \<and> good c N m ctx V new p"
begin

lemma node_ok_new: "setting c N m ctx V \<Longrightarrow> node_ok (proofs c N m ctx V) N m V (bd_new N) []"
  using proofs_Nil by (simp add: node_ok_def honest_new) (simp add: bd_new_def)

text \<open>Receiving an honest packet never fails, and reports whether it was new information.\<close>

lemma receive_good:
  assumes st: "setting c N m ctx V" and ok: "node_ok (proofs c N m ctx V) N m V d ps"
    and gd: "good c N m ctx V (sp_chunk pkt) (sp_proof pkt)"
  shows "\<exists>d' ps'. coded_receive (scheme c N) d ps ctx pkt
      = Inr ((d', ps'), Inr (\<not> bd_is_complete d \<and> \<not> bd_span N d (cc_b (sp_chunk pkt)))) \<and>
      node_ok (proofs c N m ctx V) N m V d' ps' \<and> bd_span N d' (cc_b (sp_chunk pkt)) \<and>
      (\<forall>v. bd_span N d v \<longrightarrow> bd_span N d' v) \<and>
      bd_coded_chunks d' = bd_coded_chunks d @
        (if \<not> bd_is_complete d \<and> \<not> bd_span N d (cc_b (sp_chunk pkt)) then [sp_chunk pkt] else []) \<and>
      (bd_is_complete d \<longrightarrow> bd_is_complete d')"
proof -
  let ?ch = "sp_chunk pkt"
  have cd: "coded_by N m V ?ch" by (rule good_coded [OF st gd])
  have wf: "bd_wf N d" and len: "length (cc_b ?ch) = N"
    using ok cd by (simp_all add: node_ok_def honest_def coded_by_def)
  from bd_add_keeps [OF wf len] obtain d' r where
    add: "bd_add d ?ch = Inr (d', r)" and wf': "bd_wf N d'"
    and sp: "bd_span N d' (cc_b ?ch)" "\<forall>v. bd_span N d v \<longrightarrow> bd_span N d' v" by blast
  have recv: "coded_receive (scheme c N) d ps ctx pkt
    = (if r then Inr ((d', ps @ [sp_proof pkt]), Inr True) else Inr ((d', ps), Inr False))"
    by (simp add: coded_receive_def verify_good [OF st gd] add)
  from wf len show ?thesis
  proof (cases rule: bd_add_cases)
    case rejected
    then show ?thesis using recv add ok sp by auto
  next
    case (accepted d2)
    then have "node_ok (proofs c N m ctx V) N m V d' (ps @ [sp_proof pkt])"
      using add ok cd proofs_snoc [OF st _ gd] by (auto simp: node_ok_def honest_def)
    then show ?thesis using recv add accepted sp by auto
  qed
qed

text \<open>
  An honest node that holds at least one chunk can always forward: one packet per peer, each with
  an honest proof.
\<close>

lemma forward_good:
  assumes st: "setting c N m ctx V" and ok: "node_ok (proofs c N m ctx V) N m V d ps"
    and ne: "bd_coded_chunks d \<noteq> []"
  shows "\<exists>pkts rng'. coded_forward (scheme c N) random N d ps k rng = Inr (pkts, rng') \<and>
      length pkts = k \<and>
      (\<forall>pkt \<in> set pkts. good c N m ctx V (sp_chunk pkt) (sp_proof pkt) \<and>
        bd_span N d (cc_b (sp_chunk pkt)))"
proof (induction k arbitrary: rng)
  case (Suc k)
  from ok have h: "honest N m V d" and pr: "proofs c N m ctx V (bd_coded_chunks d) ps"
    by (simp_all add: node_ok_def)
  from h have wf: "bd_wf N d" and cds: "\<forall>ch \<in> set (bd_coded_chunks d). coded_by N m V ch"
    by (simp_all add: honest_def)
  obtain alphas rng1 where r: "random_coefficients random (bd_rank d) rng = (alphas, rng1)"
    by (cases "random_coefficients random (bd_rank d) rng")
  then have la: "length alphas = length (bd_coded_chunks d)"
    using length_draw_n [of random "bd_rank d" rng] bd_wf_rank [OF wf]
    by (simp add: random_coefficients_def)
  from bd_reencode_with_coded [OF setting_originals [OF st] h ne la] obtain new where
    new: "bd_reencode_with N d alphas = Inr new" "coded_by N m V new" "bd_span N d (cc_b new)"
      "chunk_v (cc_w new)
        = map (comb ((!) alphas) (map (\<lambda>c. chunk_v (cc_w c)) (bd_coded_chunks d))) [0..<m]"
      "cc_b new = map (comb ((!) alphas) (map cc_b (bd_coded_chunks d))) [0..<N]" by blast
  from combine_good [OF st pr ne cds la new(2,4,5)] obtain p where
    p: "is_combine (scheme c N) ps alphas = Inr p" "good c N m ctx V new p" by blast
  from Suc.IH [of rng1] obtain pkts rng' where
    "coded_forward (scheme c N) random N d ps k rng1 = Inr (pkts, rng')" "length pkts = k"
    "\<forall>pkt \<in> set pkts. good c N m ctx V (sp_chunk pkt) (sp_proof pkt) \<and>
        bd_span N d (cc_b (sp_chunk pkt))" by blast
  then show ?case using r new p by simp
qed simp

text \<open>A complete honest node decodes to the original chunks.\<close>

lemma decode_good:
  assumes "setting c N m ctx V" "node_ok (proofs c N m ctx V) N m V d ps" "bd_is_complete d"
  shows "bd_decode N d = Inr (map (\<lambda>v. \<lparr>chunk_v = v\<rparr>) V)"
  using assms by (intro bd_decode_correct [OF setting_originals]) (auto simp: node_ok_def)

end

text \<open>The no-op scheme keeps the contract.\<close>

interpretation noop: coded_integrity
  "\<lambda>(c :: unit) N. noop_scheme" "\<lambda>c N m ctx V. originals N m V"
  "\<lambda>c N m ctx V ch p. coded_by N m V ch" "\<lambda>c N m ctx V cs ps. True"
  by unfold_locales (auto simp: noop_scheme_def)

section \<open>Rejected packets\<close>

lemma coded_receive_rejects:
  assumes "is_verify S ctx (sp_chunk pkt) (sp_proof pkt) = Inr (Inl e)"
  shows "coded_receive S d ps ctx pkt = Inr ((d, ps), Inl e)"
  using assms by (simp add: coded_receive_def)

lemma coded_forward_empty:
  assumes "bd_coded_chunks d = []"
  shows "coded_forward S random N d ps (Suc k) rng = Inl CannotReencode"
  using assms by (simp add: bd_reencode_with_panics case_prod_beta Let_def)

text \<open>Every accepted chunk comes with its proof: the two lists grow together.\<close>

lemma coded_receive_lengths:
  assumes "coded_receive S d ps ctx pkt = Inr ((d', ps'), r)"
    and "bd_wf N d" "length (cc_b (sp_chunk pkt)) = N"
  shows "length ps' + length (bd_coded_chunks d) = length ps + length (bd_coded_chunks d')"
proof -
  from assms(1) obtain v where v: "is_verify S ctx (sp_chunk pkt) (sp_proof pkt) = Inr v"
    by (auto simp: coded_receive_def bindR_eq_Inr)
  from assms(2,3) show ?thesis
    by (cases rule: bd_add_cases) (use assms(1) v in \<open>cases v; auto simp: coded_receive_def\<close>)+
qed

end
