(* ===== verification/Props_Coding.thy ===== *)
theory Props_Coding
  imports Block Strategy_Core
begin

text \<open>
  What the coding core promises: decoding recovers the original chunks exactly when the received
  coefficient vectors span the space, whatever order, duplicates and dependent chunks arrive; the
  decoder accepts exactly what is new; recoding stays within what was received.
\<close>

section \<open>Shared steps\<close>

lemma bd_span_received:
  assumes "bd_add_all cs (bd_new N) = Inr d" "\<forall>c \<in> set cs. length (cc_b c) = N"
  shows "bd_span N d v \<longleftrightarrow> in_span N (map cc_b cs) v"
proof -
  from bd_add_all_keeps [OF bd_wf_new assms(2)] assms(1) have
    wf: "bd_wf N d" and sp: "\<forall>c \<in> set cs. bd_span N d (cc_b c)"
    and sub: "set (bd_coded_chunks d) \<subseteq> set cs" by (auto simp: bd_new_def)
  have "in_span N (map cc_b cs) (map cc_b (bd_coded_chunks d) ! i)"
    if "i < length (map cc_b (bd_coded_chunks d))" for i
  proof -
    have "bd_coded_chunks d ! i \<in> set cs" using that sub nth_mem by auto
    then have "map cc_b (bd_coded_chunks d) ! i \<in> set (map cc_b cs)" using that by simp
    then show ?thesis by (metis in_set_conv_nth in_span_member)
  qed
  moreover have "in_span N (map cc_b (bd_coded_chunks d)) (map cc_b cs ! i)"
    if "i < length (map cc_b cs)" for i
    using sp that by (simp add: bd_span_def)
  ultimately show ?thesis
    unfolding bd_span_def by (blast intro: in_span_trans)
qed

lemma bd_complete_iff_units:
  fixes d :: "'f::field block_decoder"
  assumes "bd_wf N d"
  shows "bd_is_complete d \<longleftrightarrow> (\<forall>i < N. bd_span N d (unit_vec N i))"
  using complete_spans [OF assms] spanning_completes [OF assms] by auto

lemma in_span_subset: "set R \<subseteq> set S \<Longrightarrow> in_span n R v \<Longrightarrow> in_span n S v"
  by (erule in_span_trans) (metis in_set_conv_nth in_span_member nth_mem subsetD)

text \<open>A sample over the rationals: two original chunks of one element, and a coded pair.\<close>

definition pair_ex :: "rat coded_chunk list" where
  "pair_ex = [\<lparr>cc_w = \<lparr>chunk_v = [8]\<rparr>, cc_b = [1, 1]\<rparr>, \<lparr>cc_w = \<lparr>chunk_v = [-2]\<rparr>, cc_b = [1, -1]\<rparr>]"

lemma pair_ex_coded: "originals 2 1 [[3], [5 :: rat]]" "\<forall>c \<in> set pair_ex. coded_by 2 1 [[3], [5]] c"
  by (simp_all add: originals_def pair_ex_def coded_by_def comb_def numeral_2_eq_2)

definition chunk_ex :: "rat coded_chunk" where
  "chunk_ex = \<lparr>cc_w = \<lparr>chunk_v = [13]\<rparr>, cc_b = [1, 2]\<rparr>"

definition relay_ex :: "rat block_decoder" where
  "relay_ex = projr (bd_add_all pair_ex (bd_new 2))"

lemma relay_ex_run: "bd_add_all pair_ex (bd_new 2) = Inr relay_ex"
  using honest_add_all [OF honest_new pair_ex_coded(2)] by (auto simp: relay_ex_def)

definition rows_ex :: "rat list list" where
  "rows_ex = [[2, 1], [1, 1]]"

section \<open>Decoding\<close>

text \<open>
  C1: Random linear network coding works. Feed a fresh decoder any list of coded chunks of the same
  original chunks, in any order, with duplicates and dependent ones: \<open>add\<close> never panics, the decoder
  is complete exactly when the coefficient vectors received span all unit vectors, and then \<open>decode\<close>
  returns the original chunks; before that \<open>decode\<close> panics.
\<close>

theorem decoder_recovers_originals:
  fixes V :: "'f::field list list"
  assumes "originals N m V" "\<forall>c \<in> set cs. coded_by N m V c"
  shows "\<exists>d. bd_add_all cs (bd_new N) = Inr d \<and>
    (bd_is_complete d \<longleftrightarrow> (\<forall>i < N. in_span N (map cc_b cs) (unit_vec N i))) \<and>
    bd_decode N d = (if bd_is_complete d then Inr (map (\<lambda>v. \<lparr>chunk_v = v\<rparr>) V) else Inl CannotDecode)"
proof -
  from honest_add_all [OF honest_new assms(2)] obtain d where
    d: "bd_add_all cs (bd_new N) = Inr d" "honest N m V d" by blast
  have len: "\<forall>c \<in> set cs. length (cc_b c) = N" using assms(2) by (simp add: coded_by_def)
  have "bd_is_complete d \<longleftrightarrow> (\<forall>i < N. in_span N (map cc_b cs) (unit_vec N i))"
    using d by (simp add: bd_complete_iff_units [of N] bd_span_received [OF d(1) len] honest_def)
  with d bd_decode_correct [OF assms(1) d(2)] bd_decode_panics show ?thesis by auto
qed

theorem decoder_recovers_originals_witness:
  "\<exists>d. bd_add_all pair_ex (bd_new 2) = Inr d \<and>
    (bd_is_complete d \<longleftrightarrow> (\<forall>i < 2. in_span 2 (map cc_b pair_ex) (unit_vec 2 i))) \<and>
    bd_decode 2 d = (if bd_is_complete d then Inr (map (\<lambda>v. \<lparr>chunk_v = v\<rparr>) [[3], [5]])
      else Inl CannotDecode)"
  by (rule decoder_recovers_originals [OF pair_ex_coded])

text \<open>
  C17: \<open>BlockDecoder::add\<close> accepts exactly the innovative chunks. On a decoder built by \<open>add\<close> calls it
  returns true if and only if the decoder is not complete and the coefficient vector is independent
  of all vectors received so far; the rank then grows by one and otherwise nothing changes; a vector
  of the wrong length panics unless the decoder is complete.
\<close>

theorem add_accepts_innovative:
  fixes c :: "'f::field coded_chunk"
  assumes run: "bd_add_all cs (bd_new N) = Inr d" and len: "\<forall>c \<in> set cs. length (cc_b c) = N"
  shows "if bd_is_complete d then bd_add d c = Inr (d, False)
    else if length (cc_b c) \<noteq> N then bd_add d c = Inl RowLengthMismatch
    else if in_span N (map cc_b cs) (cc_b c) then bd_add d c = Inr (d, False)
    else \<exists>d'. bd_add d c = Inr (d', True) \<and> bd_coded_chunks d' = bd_coded_chunks d @ [c] \<and>
      bd_rank d' = bd_rank d + 1"
proof -
  from bd_add_all_keeps [OF bd_wf_new len] run have wf: "bd_wf N d" by auto
  have "bd_add d c = Inl RowLengthMismatch" if "\<not> bd_is_complete d" "length (cc_b c) \<noteq> N"
    using that wf ie_add_row_panics(1) [of "cc_b c" "bd_echelon d"]
    by (simp add: bd_add_def bd_is_complete_def bd_wf_def)
  moreover have "\<exists>d'. bd_add d c = Inr (d', True) \<and> bd_coded_chunks d' = bd_coded_chunks d @ [c] \<and>
      bd_rank d' = bd_rank d + 1"
    if "\<not> bd_is_complete d" "length (cc_b c) = N" "\<not> bd_span N d (cc_b c)"
    using bd_add_spec [OF wf that(2)] that(1,3) by (auto simp: bd_wf_rank [OF wf] bd_wf_rank)
  moreover have "bd_add d c = Inr (d, False)" if "bd_is_complete d"
    using that by (simp add: bd_add_def bd_is_complete_def)
  moreover have "bd_add d c = Inr (d, False)" if "length (cc_b c) = N" "bd_span N d (cc_b c)"
    using bd_add_spec [OF wf that(1)] that(2) by simp
  ultimately show ?thesis by (simp add: bd_span_received [OF run len, symmetric])
qed

theorem add_accepts_innovative_witness:
  "if bd_is_complete relay_ex then bd_add relay_ex chunk_ex = Inr (relay_ex, False)
    else if length (cc_b chunk_ex) \<noteq> 2 then bd_add relay_ex chunk_ex = Inl RowLengthMismatch
    else if in_span 2 (map cc_b pair_ex) (cc_b chunk_ex) then bd_add relay_ex chunk_ex = Inr (relay_ex, False)
    else \<exists>d'. bd_add relay_ex chunk_ex = Inr (d', True) \<and>
      bd_coded_chunks d' = bd_coded_chunks relay_ex @ [chunk_ex] \<and> bd_rank d' = bd_rank relay_ex + 1"
  by (rule add_accepts_innovative [OF relay_ex_run]) (use pair_ex_coded in \<open>simp add: coded_by_def\<close>)

definition add_rows :: "'f::field list list \<Rightarrow> 'f incremental_echelon \<Rightarrow> ('f incremental_echelon \<times> bool) run" where
  "add_rows rows s = foldR (\<lambda>row (s, ok). mapRes (\<lambda>(s', added). (s', ok \<and> added)) (ie_add_row s row))
     rows (s, True)"

lemma add_rows_wf:
  assumes "ie_wf R s" "ie_n s = n" "\<forall>row \<in> set rows. length row = n"
    and "foldR (\<lambda>row (s, ok). mapRes (\<lambda>(s', added). (s', ok \<and> added)) (ie_add_row s row)) rows (s, True)
      = Inr (s', True)"
  shows "ie_wf (R @ rows) s' \<and> ie_n s' = n"
  using assms
proof (induction rows arbitrary: R s)
  case (Cons row rows)
  let ?f = "\<lambda>row (s, ok). mapRes (\<lambda>(s', added). (s', ok \<and> added)) (ie_add_row s row)"
  have stuck: "foldR ?f xs (t, False) = Inr (t', b) \<Longrightarrow> \<not> b" for xs t t' b
    by (induction xs arbitrary: t) (auto simp: bindR_eq_Inr mapRes_def split: sum.splits)
  from Cons.prems(4) obtain s1 added where
    s1: "ie_add_row s row = Inr (s1, added)" and rest: "foldR ?f rows (s1, added) = Inr (s', True)"
    by (auto simp: bindR_eq_Inr mapRes_def split: sum.splits)
  have added: "added" using stuck rest by (cases added) auto
  have "length row = ie_n s" using Cons.prems(2,3) by simp
  moreover from this s1 have "length R < ie_n s"
    using ie_add_row_panics(2) [of row s] ie_wf_full [OF Cons.prems(1)] ie_wfD(1) [OF Cons.prems(1)]
    by fastforce
  ultimately have "ie_wf (R @ [row]) s1 \<and> ie_n s1 = ie_n s"
    using ie_add_row_spec [OF Cons.prems(1), of row] s1 added by (simp split: if_splits)
  with Cons.IH [of "R @ [row]" s1] rest added Cons.prems(2,3) show ?case by simp
qed simp

text \<open>
  C8: \<open>IncrementalEchelon\<close> inverts. When every one of \<open>n\<close> rows given to \<open>add_row\<close> was accepted,
  \<open>inverse\<close> returns an \<open>n\<close> by \<open>n\<close> matrix whose product with the matrix of the rows, in the order
  they were added, is the identity; with fewer rows \<open>inverse\<close> panics.
\<close>

theorem inverse_inverts:
  fixes rows :: "'f::field list list"
  assumes "\<forall>row \<in> set rows. length row = n" and run: "add_rows rows (ie_new n) = Inr (s, True)"
  shows "if length rows = n then \<exists>B. ie_inverse s = Inr B \<and> left_inverse n B rows
    else ie_inverse s = Inl MatrixNotFull"
proof -
  have wf: "ie_wf rows s \<and> ie_n s = n"
    using add_rows_wf [OF ie_wf_new ie_n_new assms(1)] run by (simp add: add_rows_def)
  then show ?thesis
    using ie_inverse_spec [of rows s] ie_inverse_panics [of s] ie_wf_full [of rows s] by auto
qed

theorem inverse_inverts_witness:
  "if length rows_ex = 2
    then \<exists>B. ie_inverse (fst (projr (add_rows rows_ex (ie_new 2)))) = Inr B \<and> left_inverse 2 B rows_ex
    else ie_inverse (fst (projr (add_rows rows_ex (ie_new 2)))) = Inl MatrixNotFull"
proof (rule inverse_inverts)
  show "add_rows rows_ex (ie_new 2) = Inr (fst (projr (add_rows rows_ex (ie_new 2))), True)"
    by code_simp
qed (simp add: rows_ex_def)

section \<open>Recoding\<close>

text \<open>
  A relay that recodes stays honest. From any coded chunks of the original chunks, \<open>reencode\<close>
  with any random coefficients gives a coded chunk of the same original chunks whose coefficient
  vector lies in the span of those received; a relay that received nothing panics.
\<close>

lemma recoding_stays_coded:
  fixes V :: "'f::field list list"
  assumes "originals N m V" "\<forall>c \<in> set cs. coded_by N m V c" and "bd_add_all cs (bd_new N) = Inr d"
  shows "if bd_coded_chunks d = [] then bd_reencode random N d rng = Inl CannotReencode
    else \<exists>c rng'. bd_reencode random N d rng = Inr (c, rng') \<and> coded_by N m V c \<and>
      in_span N (map cc_b cs) (cc_b c)"
proof -
  from honest_add_all [OF honest_new assms(2)] assms(3) have h: "honest N m V d" by auto
  have len: "\<forall>c \<in> set cs. length (cc_b c) = N" using assms(2) by (simp add: coded_by_def)
  obtain alphas rng' where r: "random_coefficients random (length (bd_coded_chunks d)) rng = (alphas, rng')"
    by (cases "random_coefficients random (length (bd_coded_chunks d)) rng")
  then have "length alphas = length (bd_coded_chunks d)"
    using length_draw_n [of random "length (bd_coded_chunks d)" rng] by (simp add: random_coefficients_def)
  with bd_reencode_with_coded [OF assms(1) h] bd_reencode_with_panics(1) r show ?thesis
    by (fastforce simp: bd_reencode_def bd_span_received [OF assms(3) len])
qed

text \<open>
  Recoding creates no knowledge. If a decoder that was fed only recodings of one relay's chunks
  is complete, then the relay's decoder is complete too.
\<close>

lemma recoding_adds_nothing:
  fixes relay :: "'f::field block_decoder"
  assumes relay: "bd_add_all cs (bd_new N) = Inr relay" "\<forall>c \<in> set cs. length (cc_b c) = N"
    and recoded: "\<forall>c \<in> set cs'. \<exists>alphas. bd_reencode_with N relay alphas = Inr c"
    and down: "bd_add_all cs' (bd_new N) = Inr d" "bd_is_complete d"
  shows "bd_is_complete relay"
proof -
  from bd_add_all_keeps [OF bd_wf_new relay(2)] relay(1) have wf: "bd_wf N relay" by auto
  have in_relay: "length (cc_b c) = N \<and> bd_span N relay (cc_b c)" if c: "c \<in> set cs'" for c
  proof -
    from recoded c obtain alphas where r: "bd_reencode_with N relay alphas = Inr c" by blast
    let ?B = "map cc_b (bd_coded_chunks relay)"
    have B: "\<forall>b \<in> set ?B. length b = N" using bd_wf_coeffs [OF wf] by auto
    from r obtain w where ne: "?B \<noteq> []" and la: "length alphas = length ?B"
      and lc: "linear_combination ?B alphas = Inr (cc_b c)"
      by (auto simp: bd_reencode_with_def reencode_def Let_def assertR_eq_Inr bindR_eq_Inr
          coded_chunk_new_def)
    from linear_combination_comb [OF ne la B] lc have "cc_b c = map (comb ((!) alphas) ?B) [0..<N]"
      by simp
    then show ?thesis unfolding bd_span_def by (auto intro: in_spanI)
  qed
  then have len: "\<forall>c \<in> set cs'. length (cc_b c) = N" by blast
  from bd_add_all_keeps [OF bd_wf_new len] down(1) have wf': "bd_wf N d" by auto
  have "bd_span N relay (unit_vec N i)" if "i < N" for i
  proof -
    have "in_span N (map cc_b cs') (unit_vec N i)"
      using complete_spans [OF wf' down(2)] bd_span_received [OF down(1) len] by simp
    then show ?thesis
      unfolding bd_span_def by (rule in_span_trans) (use in_relay in \<open>simp add: bd_span_def\<close>)
  qed
  then show ?thesis by (rule spanning_completes [OF wf])
qed

end
