(* ===== verification/Baseline.thy ===== *)
theory Baseline
  imports Strategy_Core
begin

text \<open>
  \<open>crates/strategy/baseline/src/lib.rs\<close>: the gossipsub strategy, which forwards whole encoded
  blocks. The strategy value is the unit; a packet is a byte vector.
\<close>

record baseline_node_state =
  bn_block_bytes :: "bytes option"

definition baseline_init_proposer ::
  "wire \<Rightarrow> unit \<Rightarrow> block \<Rightarrow> nat \<Rightarrow> 'r \<Rightarrow> ((unit \<times> baseline_node_state \<times> bytes list \<times> nat) \<times> 'r) run" where
  "baseline_init_proposer wc self b num_peers rng =
     (let bytes = block_write wc b;
          byte_len = length bytes;
          packets = replicate num_peers bytes;
          state = \<lparr>bn_block_bytes = Some bytes\<rparr> in
      Inr ((self, state, packets, byte_len), rng))"

definition baseline_init_receiver :: "unit \<Rightarrow> baseline_node_state run" where
  "baseline_init_receiver self = Inr \<lparr>bn_block_bytes = None\<rparr>"

definition baseline_receive ::
  "unit \<Rightarrow> baseline_node_state \<Rightarrow> bytes \<Rightarrow> (baseline_node_state \<times> (err + bool)) run" where
  "baseline_receive self state packet =
     (if bn_block_bytes state \<noteq> None then Inr (state, Inr False)
      else Inr (state\<lparr>bn_block_bytes := Some packet\<rparr>, Inr True))"

definition baseline_can_decode :: "unit \<Rightarrow> baseline_node_state \<Rightarrow> bool" where
  "baseline_can_decode self state = (bn_block_bytes state \<noteq> None)"

definition baseline_forward ::
  "unit \<Rightarrow> baseline_node_state \<Rightarrow> nat \<Rightarrow> 'r \<Rightarrow> (bytes list \<times> 'r) run" where
  "baseline_forward self state num_peers rng =
     (case bn_block_bytes state of
        None \<Rightarrow> Inl NothingReceived
      | Some bytes \<Rightarrow> Inr (replicate num_peers bytes, rng))"

definition baseline_decode :: "wire \<Rightarrow> unit \<Rightarrow> baseline_node_state \<Rightarrow> nat \<Rightarrow> block run" where
  "baseline_decode wc self state byte_len =
     (case bn_block_bytes state of
        None \<Rightarrow> Inl NothingReceived
      | Some raw \<Rightarrow> (case block_decode wc raw of Inl e \<Rightarrow> Inl InvalidBlock | Inr b \<Rightarrow> Inr b))"

definition baseline_strategy ::
  "wire \<Rightarrow> (unit, baseline_node_state, bytes, 'r) strategy" where
  "baseline_strategy wc =
     \<lparr>st_name = ''Baseline'',
      st_forward_condition = AfterDecode,
      st_init_proposer = baseline_init_proposer wc,
      st_init_receiver = baseline_init_receiver,
      st_receive = baseline_receive,
      st_can_decode = baseline_can_decode,
      st_forward = baseline_forward,
      st_packet_size = (\<lambda>self packet. length packet),
      st_decode = baseline_decode wc\<rparr>"

lemma baseline_forward_panics:
  "bn_block_bytes s = None \<Longrightarrow> baseline_forward self s k rng = Inl NothingReceived"
  by (simp add: baseline_forward_def)

text \<open>A block beyond the size its own reader allows is proposed, and every receiver panics on it.\<close>

lemma baseline_oversized_panics:
  assumes "wire_ok wc" "block_ok b" "max_transactions_bytes < length (bl_transactions b)"
    "length (bl_transactions b) < 2 ^ 32"
  shows "baseline_decode wc self \<lparr>bn_block_bytes = Some (block_write wc b)\<rparr> n = Inl InvalidBlock"
proof -
  from block_read_oversized [OF assms, of "[]"] obtain e where
    "block_read wc (block_write wc b) = Inl e" by auto
  then show ?thesis by (simp add: baseline_decode_def block_decode_def)
qed

end
