(* ===== verification/Strategy_Contract.thy ===== *)
theory Strategy_Contract
  imports Baseline
begin

text \<open>
  What the code above a \<open>Strategy\<close> relies on: the locale \<open>honest_strategy\<close>. A proposer of a block
  that fits emits one honest packet per peer; nodes that only see honest packets never panic, forward
  honest packets, and decode to the proposer's block. The baseline keeps the contract here; the coded
  strategies keep it in their own theories.

  The theory also has the dictionary of library code that the coded strategies and protocols share.
\<close>

section \<open>Library code shared by the coded strategies\<close>

text \<open>
  The block codec, the packing of the scalar field, the codec of the scalars and the random scalars.
\<close>

record ('f, 'r) scalar_lib =
  sl_wire :: wire
  sl_pf :: "'f packable"
  sl_codec :: "'f codec"
  sl_random :: "'r \<Rightarrow> 'f \<times> 'r"

definition packing_ok :: "('f::field, 'r) scalar_lib \<Rightarrow> bool" where
  "packing_ok sl \<longleftrightarrow> wire_ok (sl_wire sl) \<and> packable_ok (sl_pf sl)"

definition scalar_lib_ok :: "('f::field, 'r) scalar_lib \<Rightarrow> bool" where
  "scalar_lib_ok sl \<longleftrightarrow> packing_ok sl \<and>
     element_codec_ok (sl_codec sl) \<and>
     cd_write (sl_codec sl) 0 = replicate (cd_size (sl_codec sl)) 0 \<and>
     (\<forall>x. encodable (sl_codec sl) x)"

lemma scalar_lib_packing: "scalar_lib_ok sl \<Longrightarrow> packing_ok sl"
  by (simp add: scalar_lib_ok_def)

text \<open>A block the program can propose with \<open>N\<close> chunks of \<open>m\<close> elements, and its original chunks.\<close>

definition readable :: "block \<Rightarrow> bool" where
  "readable b \<longleftrightarrow> block_ok b \<and> length (bl_transactions b) \<le> max_transactions_bytes"

definition block_fits :: "('f::field, 'r) scalar_lib \<Rightarrow> nat \<Rightarrow> nat \<Rightarrow> block \<Rightarrow> bool" where
  "block_fits sl N m b \<longleftrightarrow> readable b \<and>
     elements_needed (pf_data_bytes (sl_pf sl)) (length (block_write (sl_wire sl) b)) \<le> N * m"

definition chunked :: "('f::field, 'r) scalar_lib \<Rightarrow> nat \<Rightarrow> nat \<Rightarrow> block \<Rightarrow> 'f list list \<Rightarrow> bool" where
  "chunked sl N m b V \<longleftrightarrow> originals N m V \<and>
     as_chunks (sl_wire sl) (sl_pf sl) N m b
       = Inr (map (\<lambda>v. \<lparr>chunk_v = v\<rparr>) V, length (block_write (sl_wire sl) b))"

lemma block_fits_pos: "block_fits sl N m b \<Longrightarrow> 0 < N \<and> 0 < m"
  by (auto simp: block_fits_def elements_needed_def intro!: Nat.gr0I)

lemma chunked_exists:
  assumes "packing_ok sl" "block_fits sl N m b"
  shows "\<exists>V. chunked sl N m b V"
proof -
  have "packable_ok (sl_pf sl)"
    "elements_needed (pf_data_bytes (sl_pf sl)) (length (block_write (sl_wire sl) b)) \<le> N * m"
    using assms by (simp_all add: packing_ok_def block_fits_def)
  from any_pf.as_chunks_spec [OF this] show ?thesis by (auto simp: chunked_def)
qed

lemma map_wrap_inj: "map (\<lambda>v. \<lparr>chunk_v = v\<rparr>) V = map (\<lambda>v. \<lparr>chunk_v = v\<rparr>) W \<Longrightarrow> V = W"
  by (drule arg_cong [where f = "map chunk_v"]) (simp add: comp_def)

lemma chunked_unique: "chunked sl N m b V \<Longrightarrow> chunked sl N m b W \<Longrightarrow> W = V"
  unfolding chunked_def by (rule map_wrap_inj) simp

lemma chunked_encode:
  assumes ok: "packing_ok sl" and ft: "block_fits sl N m b" and V: "chunked sl N m b V"
  shows "\<exists>cs rng'. encode_chunks (sl_wire sl) (sl_pf sl) random N m count b rng
      = Inr ((cs, length (block_write (sl_wire sl) b)), rng') \<and>
    length cs = count \<and> (\<forall>c \<in> set cs. coded_by N m V c)"
proof -
  have "packable_ok (sl_pf sl)"
    "elements_needed (pf_data_bytes (sl_pf sl)) (length (block_write (sl_wire sl) b)) \<le> N * m"
    using ok ft by (simp_all add: packing_ok_def block_fits_def)
  from any_pf.encode_chunks_spec [OF this] obtain W cs rng' where
    W: "chunked sl N m b W"
    and cs: "encode_chunks (sl_wire sl) (sl_pf sl) random N m count b rng
        = Inr ((cs, length (block_write (sl_wire sl) b)), rng')"
      "length cs = count" "\<forall>c \<in> set cs. coded_by N m W c"
    unfolding chunked_def by metis
  with chunked_unique [OF V W] show ?thesis by blast
qed

lemma chunked_decode:
  assumes "packing_ok sl" "block_fits sl N m b" "chunked sl N m b V"
  shows "from_chunks (sl_wire sl) (sl_pf sl) N (map (\<lambda>v. \<lparr>chunk_v = v\<rparr>) V)
    (length (block_write (sl_wire sl) b)) = Inr b"
  by (rule any_pf.from_chunks_as_chunks)
     (use assms in \<open>auto simp: packing_ok_def block_fits_def readable_def chunked_def\<close>)

lemma chunked_fed:
  assumes "chunked sl N m b V" "block_fits sl N m b" "honest N m V d" "bd_is_complete d"
  shows "bd_coded_chunks d \<noteq> []"
  using assms block_fits_pos [OF assms(2)] bd_wf_complete [of N d] by (auto simp: honest_def)

lemma incomplete_room:
  "bd_wf N d \<Longrightarrow> \<not> bd_is_complete d \<Longrightarrow> length (bd_coded_chunks d) < N"
  using bd_wf_complete [of N d] bd_wf_rank_le [of N d] by simp

lemma new_incomplete: "0 < N \<Longrightarrow> \<not> bd_is_complete (bd_new N :: 'f::field block_decoder)"
  unfolding bd_wf_complete [OF bd_wf_new] by (simp add: bd_new_def)

section \<open>The contract of a strategy\<close>

text \<open>
  \<open>ready c self b\<close>: the strategy value has proposed \<open>b\<close>. \<open>node c self b s\<close>: the node state \<open>s\<close> has
  seen only honest packets of \<open>b\<close>. \<open>fed c s\<close>: it holds something to forward. \<open>room c s\<close> bounds how
  often the node can still be told something new, and is at most \<open>capacity c\<close> at first. All packets
  have \<open>packet_len c b\<close> bytes.
\<close>

locale honest_strategy =
  fixes strat :: "'c \<Rightarrow> ('self, 's, 'p, 'r) strategy"
    and self_ok :: "'c \<Rightarrow> 'self \<Rightarrow> bool"
    and fits :: "'c \<Rightarrow> block \<Rightarrow> bool"
    and byte_len :: "'c \<Rightarrow> block \<Rightarrow> nat"
    and ready :: "'c \<Rightarrow> 'self \<Rightarrow> block \<Rightarrow> bool"
    and node :: "'c \<Rightarrow> 'self \<Rightarrow> block \<Rightarrow> 's \<Rightarrow> bool"
    and packet :: "'c \<Rightarrow> 'self \<Rightarrow> block \<Rightarrow> 'p \<Rightarrow> bool"
    and fed :: "'c \<Rightarrow> 's \<Rightarrow> bool"
    and room :: "'c \<Rightarrow> 's \<Rightarrow> nat"
    and capacity :: "'c \<Rightarrow> nat"
    and packet_len :: "'c \<Rightarrow> block \<Rightarrow> nat"
  assumes init_proposer: "self_ok c self \<Longrightarrow> fits c b \<Longrightarrow>
      \<exists>self' s ps rng'. st_init_proposer (strat c) self b k rng
          = Inr ((self', s, ps, byte_len c b), rng') \<and>
        self_ok c self' \<and> ready c self' b \<and> node c self' b s \<and> st_can_decode (strat c) self' s \<and>
        length ps = k \<and> (\<forall>p \<in> set ps. packet c self' b p)"
    and init_receiver: "ready c self b \<Longrightarrow>
      \<exists>s. st_init_receiver (strat c) self = Inr s \<and> node c self b s \<and>
        \<not> st_can_decode (strat c) self s \<and> room c s \<le> capacity c"
    and receive: "ready c self b \<Longrightarrow> node c self b s \<Longrightarrow> packet c self b p \<Longrightarrow>
      \<exists>s' r. st_receive (strat c) self s p = Inr (s', Inr r) \<and> node c self b s' \<and>
        (r \<longrightarrow> fed c s' \<and> room c s' < room c s) \<and> room c s' \<le> room c s \<and>
        (fed c s \<longrightarrow> fed c s') \<and>
        (st_can_decode (strat c) self s \<longrightarrow> st_can_decode (strat c) self s' \<and> \<not> r)"
    and can_decode_fed: "ready c self b \<Longrightarrow> node c self b s \<Longrightarrow> st_can_decode (strat c) self s \<Longrightarrow>
      fed c s"
    and forward: "ready c self b \<Longrightarrow> node c self b s \<Longrightarrow> fed c s \<Longrightarrow>
      \<exists>ps rng'. st_forward (strat c) self s k rng = Inr (ps, rng') \<and> length ps = k \<and>
        (\<forall>p \<in> set ps. packet c self b p)"
    and decode: "ready c self b \<Longrightarrow> node c self b s \<Longrightarrow> st_can_decode (strat c) self s \<Longrightarrow>
      st_decode (strat c) self s (byte_len c b) = Inr b"
    and packet_size: "ready c self b \<Longrightarrow> packet c self b p \<Longrightarrow>
      st_packet_size (strat c) self p = packet_len c b"

section \<open>The baseline keeps it\<close>

definition baseline_ready :: "wire \<Rightarrow> unit \<Rightarrow> block \<Rightarrow> bool" where
  "baseline_ready wc self b \<longleftrightarrow> wire_ok wc \<and> readable b"

definition baseline_node :: "wire \<Rightarrow> unit \<Rightarrow> block \<Rightarrow> baseline_node_state \<Rightarrow> bool" where
  "baseline_node wc self b s \<longleftrightarrow>
     bn_block_bytes s = None \<or> bn_block_bytes s = Some (block_write wc b)"

interpretation baseline: honest_strategy
  baseline_strategy "\<lambda>wc self. wire_ok wc" "\<lambda>wc b. readable b" "\<lambda>wc b. length (block_write wc b)"
  baseline_ready baseline_node "\<lambda>wc self b p. p = block_write wc b"
  "\<lambda>wc s. bn_block_bytes s \<noteq> None" "\<lambda>wc s. if bn_block_bytes s = None then 1 else 0" "\<lambda>wc. 1"
  "\<lambda>wc b. length (block_write wc b)"
  by unfold_locales
     (auto simp: baseline_strategy_def baseline_init_proposer_def baseline_init_receiver_def
       baseline_receive_def baseline_can_decode_def baseline_forward_def baseline_decode_def
       baseline_ready_def baseline_node_def readable_def block_decode_write Let_def)

end
