(* ===== verification/Protocol.thy ===== *)
theory Protocol
  imports Strategy_Contract
begin

text \<open>
  \<open>crates/node/src/protocol.rs\<close> (the trait \<open>Protocol\<close>, \<open>Channel\<close>, \<open>Proposal\<close>),
  \<open>crates/node/src/baseline.rs\<close>, and \<open>compute_m\<close> of \<open>crates/node/src/config.rs\<close>.

  The trait is a record of its functions over a protocol value \<open>'self\<close>; \<open>&mut self\<close> is the value
  returned updated. What the actor relies on is the locale \<open>honest_protocol\<close>.
\<close>

section \<open>The trait\<close>

datatype channel = Announce | Data

record proposal =
  pr_announcement :: bytes
  pr_packets :: "bytes list"

record ('self, 'r) protocol =
  pt_name :: string
  pt_forward_condition :: forward_condition
  pt_propose :: "'self \<Rightarrow> block \<Rightarrow> nat \<Rightarrow> 'r \<Rightarrow> ((proposal \<times> 'self) \<times> 'r) run"
  pt_ingest :: "'self \<Rightarrow> channel \<Rightarrow> u64 \<Rightarrow> bytes \<Rightarrow> ('self \<times> (err + bool)) run"
  pt_is_complete :: "'self \<Rightarrow> bool"
  pt_recode :: "'self \<Rightarrow> nat \<Rightarrow> 'r \<Rightarrow> (bytes list \<times> 'r) run"
  pt_decode :: "'self \<Rightarrow> (block \<times> 'self) run"
  pt_reset :: "'self \<Rightarrow> 'self"
  pt_packet_wire_size :: "'self \<Rightarrow> nat"

text \<open>
  \<open>idle\<close>: no block in progress. \<open>live c b s\<close>: the announcement of \<open>b\<close> and only honest packets of \<open>b\<close>
  were ingested. \<open>fed c s\<close>: there is something to recode. \<open>proposer c s\<close>: the value holds a signer.
  An honest packet is never fatal and never spoils the state; it may be refused (BFKW cannot read a
  packet whose signature is the identity).
\<close>

locale honest_protocol =
  fixes proto :: "'c \<Rightarrow> ('self, 'r) protocol"
    and fits :: "'c \<Rightarrow> block \<Rightarrow> bool"
    and idle :: "'c \<Rightarrow> 'self \<Rightarrow> bool"
    and proposer :: "'c \<Rightarrow> 'self \<Rightarrow> bool"
    and live :: "'c \<Rightarrow> block \<Rightarrow> 'self \<Rightarrow> bool"
    and fed :: "'c \<Rightarrow> 'self \<Rightarrow> bool"
    and announcement :: "'c \<Rightarrow> block \<Rightarrow> bytes \<Rightarrow> bool"
    and packet :: "'c \<Rightarrow> block \<Rightarrow> bytes \<Rightarrow> bool"
  assumes propose: "idle c s \<Longrightarrow> proposer c s \<Longrightarrow> fits c b \<Longrightarrow>
      \<exists>pr s' rng'. pt_propose (proto c) s b k rng = Inr ((pr, s'), rng') \<and>
        live c b s' \<and> proposer c s' \<and> pt_is_complete (proto c) s' \<and>
        announcement c b (pr_announcement pr) \<and> length (pr_packets pr) = k \<and>
        (\<forall>p \<in> set (pr_packets pr). packet c b p)"
    and announce: "idle c s \<Longrightarrow> fits c b \<Longrightarrow> announcement c b a \<Longrightarrow>
      \<exists>s'. pt_ingest (proto c) s Announce (bl_number b) a = Inr (s', Inr True) \<and> live c b s'"
    and data: "live c b s \<Longrightarrow> packet c b p \<Longrightarrow>
      \<exists>s' r. pt_ingest (proto c) s Data (bl_number b) p = Inr (s', r) \<and> live c b s' \<and>
        (r = Inr True \<longrightarrow> fed c s') \<and>
        (pt_is_complete (proto c) s \<longrightarrow> pt_is_complete (proto c) s' \<and> r \<noteq> Inr True)"
    and recode: "live c b s \<Longrightarrow> fed c s \<Longrightarrow>
      \<exists>ps rng'. pt_recode (proto c) s k rng = Inr (ps, rng') \<and> length ps = k \<and>
        (\<forall>p \<in> set ps. packet c b p)"
    and decode: "live c b s \<Longrightarrow> pt_is_complete (proto c) s \<Longrightarrow>
      \<exists>s'. pt_decode (proto c) s = Inr (b, s') \<and> idle c (pt_reset (proto c) s')"
    and reset: "live c b s \<Longrightarrow> idle c (pt_reset (proto c) s)"
    and reset_proposer: "proposer c s \<Longrightarrow> proposer c (pt_reset (proto c) s)"

text \<open>A receiver that ingests data packets one after the other; refused packets are ignored.\<close>

definition ingest_all ::
  "('self, 'r) protocol \<Rightarrow> u64 \<Rightarrow> bytes list \<Rightarrow> 'self \<Rightarrow> 'self run" where
  "ingest_all P n pkts s = foldR (\<lambda>p s. mapRes fst (pt_ingest P s Data n p)) pkts s"

context honest_protocol
begin

lemma ingest_all_live:
  assumes "live c b s" "\<forall>p \<in> set pkts. packet c b p"
  shows "\<exists>s'. ingest_all (proto c) (bl_number b) pkts s = Inr s' \<and> live c b s'"
  using assms
proof (induction pkts arbitrary: s)
  case (Cons p pkts)
  then have p: "packet c b p" "\<forall>p \<in> set pkts. packet c b p" by simp_all
  from data [OF Cons.prems(1) p(1)] obtain s1 r where
    "pt_ingest (proto c) s Data (bl_number b) p = Inr (s1, r)" "live c b s1" by blast
  with Cons.IH [OF this(2) p(2)] show ?case by (simp add: ingest_all_def)
qed (simp add: ingest_all_def)

text \<open>From the proposal to the decoded block, over any selection, order and repetition of packets.\<close>

lemma proposal_delivers:
  assumes "idle c s" "proposer c s" "idle c r" "fits c b"
  shows "\<exists>pr s' rng' r0. pt_propose (proto c) s b k rng = Inr ((pr, s'), rng') \<and>
    length (pr_packets pr) = k \<and>
    pt_ingest (proto c) r Announce (bl_number b) (pr_announcement pr) = Inr (r0, Inr True) \<and>
    (\<forall>pkts. set pkts \<subseteq> set (pr_packets pr) \<longrightarrow>
      (\<exists>r1. ingest_all (proto c) (bl_number b) pkts r0 = Inr r1 \<and>
        (pt_is_complete (proto c) r1 \<longrightarrow> (\<exists>r2. pt_decode (proto c) r1 = Inr (b, r2)))))"
proof -
  from propose [OF assms(1,2,4), of k rng] obtain pr s' rng' where
    p: "pt_propose (proto c) s b k rng = Inr ((pr, s'), rng')" "length (pr_packets pr) = k"
    and ann: "announcement c b (pr_announcement pr)" and pk: "\<forall>p \<in> set (pr_packets pr). packet c b p"
    by (elim exE conjE) (rule that)
  from announce [OF assms(3,4) ann] obtain r0 where
    r0: "pt_ingest (proto c) r Announce (bl_number b) (pr_announcement pr) = Inr (r0, Inr True)"
    and lv: "live c b r0" by (elim exE conjE) (rule that)
  have "\<exists>r1. ingest_all (proto c) (bl_number b) pkts r0 = Inr r1 \<and>
        (pt_is_complete (proto c) r1 \<longrightarrow> (\<exists>r2. pt_decode (proto c) r1 = Inr (b, r2)))"
    if "set pkts \<subseteq> set (pr_packets pr)" for pkts
  proof -
    have "\<forall>p \<in> set pkts. packet c b p" using pk that by blast
    from ingest_all_live [OF lv this] obtain r1 where
      r1: "ingest_all (proto c) (bl_number b) pkts r0 = Inr r1" "live c b r1" by (elim exE conjE) (rule that)
    have "pt_is_complete (proto c) r1 \<longrightarrow> (\<exists>r2. pt_decode (proto c) r1 = Inr (b, r2))"
      using decode [OF r1(2)] by blast
    with r1(1) show ?thesis by blast
  qed
  with p r0 show ?thesis by blast
qed

end

section \<open>Announcements\<close>

text \<open>Every protocol announces \<open>byte_len\<close> as eight bytes and reads the first eight back.\<close>

definition encode_announcement :: "nat \<Rightarrow> bytes" where
  "encode_announcement byte_len = to_be_bytes (of_nat byte_len)"

definition read_announcement :: "bytes \<Rightarrow> err + nat" where
  "read_announcement data =
     (if length data < 8 then Inl AnnouncementTooShort
      else Inr (unat (from_be_bytes (take 8 data))))"

lemma read_encode_announcement:
  "n < 2 ^ 64 \<Longrightarrow> read_announcement (encode_announcement n @ rest) = Inr n"
  by (simp add: read_announcement_def encode_announcement_def unat_of_nat)

section \<open>compute_m\<close>

text \<open>\<open>usize::div_ceil\<close>, which panics on a zero divisor.\<close>

definition div_ceil :: "nat \<Rightarrow> nat \<Rightarrow> nat run" where
  "div_ceil a b = (if b = 0 then Inl ArithmeticOverflow else Inr ((a + b - 1) div b))"

text \<open>The block size is read from a file and may be any \<open>usize\<close>: in a release build the sum wraps.\<close>

definition compute_m :: "nat \<Rightarrow> nat \<Rightarrow> nat run" where
  "compute_m block_size n = div_ceil ((block_size + 100) mod 2 ^ 64) (31 * n mod 2 ^ 64)"

text \<open>No configuration below \<open>2 ^ 64 - 100\<close> bytes and no small number of chunks overflows.\<close>

definition compute_m_fits_usize :: "nat \<Rightarrow> nat \<Rightarrow> bool" where
  "compute_m_fits_usize block_size n \<longleftrightarrow> block_size + 100 < 2 ^ 64 \<and> 31 * n < 2 ^ 64"

lemma compute_m_exact:
  assumes "compute_m_fits_usize block_size n"
  shows "compute_m block_size n
    = (if n = 0 then Inl ArithmeticOverflow else Inr ((block_size + 100 + 31 * n - 1) div (31 * n)))"
  using assms by (simp add: compute_m_fits_usize_def compute_m_def div_ceil_def)

text \<open>
  The chunk dimension is large enough: a block whose encoding is at most \<open>block_size + 100\<close> bytes
  fits \<open>n\<close> chunks of \<open>compute_m\<close> elements of 31 bytes, and it is the least such dimension.
\<close>

lemma compute_m_fits:
  assumes "compute_m_fits_usize block_size n" and m: "compute_m block_size n = Inr m" and len: "len \<le> block_size + 100"
  shows "elements_needed 31 len \<le> n * m"
proof -
  let ?A = "block_size + 100"
  from m compute_m_exact [OF assms(1)] have n: "0 < n" and m': "m = (?A + 31 * n - 1) div (31 * n)"
    by (auto split: if_splits)
  have pos: "1 \<le> m"
    unfolding m' using n by (simp add: div_greater_zero_iff Suc_le_eq)
  have "?A \<le> 31 * n * m"
  proof -
    have "?A + 31 * n - 1 < 31 * n * (m + 1)"
      unfolding m' using dividend_less_times_div [of "31 * n" "?A + 31 * n - 1"] n by simp
    then show ?thesis by (simp add: algebra_simps)
  qed
  with len have "len \<le> 31 * (n * m)" by simp
  then have "(len + 30) div 31 \<le> n * m" by simp
  moreover have "1 \<le> n * m" using n pos by simp
  ultimately show ?thesis by (simp add: elements_needed_def)
qed

lemma compute_m_least:
  assumes "compute_m_fits_usize block_size n" and m: "compute_m block_size n = Inr m"
    and k: "block_size + 100 \<le> 31 * (n * k)"
  shows "m \<le> k"
proof -
  from m compute_m_exact [OF assms(1)] have n: "0 < n" and m': "m = (block_size + 100 + 31 * n - 1) div (31 * n)"
    by (auto split: if_splits)
  have "block_size + 100 + 31 * n - 1 < 31 * n * (k + 1)"
    using k n by (simp add: algebra_simps)
  then show ?thesis
    unfolding m' by (simp add: less_mult_imp_div_less mult.commute flip: less_Suc_eq_le)
qed

section \<open>The baseline protocol\<close>

record baseline_protocol_state =
  bp_block :: "block option"
  bp_block_bytes :: "bytes option"
  bp_byte_len :: nat

definition baseline_protocol_new :: baseline_protocol_state where
  "baseline_protocol_new = \<lparr>bp_block = None, bp_block_bytes = None, bp_byte_len = 0\<rparr>"

definition baseline_propose ::
  "wire \<Rightarrow> baseline_protocol_state \<Rightarrow> block \<Rightarrow> nat \<Rightarrow> 'r \<Rightarrow> ((proposal \<times> baseline_protocol_state) \<times> 'r) run" where
  "baseline_propose wc self b num_targets rng =
     (let bytes = block_write wc b;
          byte_len = length bytes;
          announcement = encode_announcement byte_len;
          packets = replicate num_targets bytes;
          self' = self\<lparr>bp_block := Some b, bp_block_bytes := Some bytes, bp_byte_len := byte_len\<rparr> in
      Inr ((\<lparr>pr_announcement = announcement, pr_packets = packets\<rparr>, self'), rng))"

fun baseline_ingest ::
  "wire \<Rightarrow> baseline_protocol_state \<Rightarrow> channel \<Rightarrow> u64 \<Rightarrow> bytes \<Rightarrow> (baseline_protocol_state \<times> (err + bool)) run" where
  "baseline_ingest wc self Announce block_num data =
     (case read_announcement data of
        Inl e \<Rightarrow> Inr (self, Inl e)
      | Inr byte_len \<Rightarrow> Inr (self\<lparr>bp_byte_len := byte_len\<rparr>, Inr True))"
| "baseline_ingest wc self Data block_num data =
     (if bp_block self \<noteq> None then Inr (self, Inr False)
      else case map_err BlockDecodeFailed (block_decode wc data) of
             Inl e \<Rightarrow> Inr (self, Inl e)
           | Inr b \<Rightarrow> Inr (self\<lparr>bp_block_bytes := Some data, bp_block := Some b\<rparr>, Inr True))"

definition baseline_is_complete :: "baseline_protocol_state \<Rightarrow> bool" where
  "baseline_is_complete self = (bp_block self \<noteq> None)"

definition baseline_recode :: "baseline_protocol_state \<Rightarrow> nat \<Rightarrow> 'r \<Rightarrow> (bytes list \<times> 'r) run" where
  "baseline_recode self num_targets rng =
     (case bp_block_bytes self of
        None \<Rightarrow> Inl NothingReceived
      | Some bytes \<Rightarrow> Inr (replicate num_targets bytes, rng))"

definition baseline_protocol_decode :: "baseline_protocol_state \<Rightarrow> (block \<times> baseline_protocol_state) run" where
  "baseline_protocol_decode self =
     (case bp_block self of
        None \<Rightarrow> Inl NothingReceived
      | Some b \<Rightarrow> Inr (b, self\<lparr>bp_block := None\<rparr>))"

definition baseline_reset :: "baseline_protocol_state \<Rightarrow> baseline_protocol_state" where
  "baseline_reset self = self\<lparr>bp_block := None, bp_block_bytes := None, bp_byte_len := 0\<rparr>"

definition baseline_protocol :: "wire \<Rightarrow> (baseline_protocol_state, 'r) protocol" where
  "baseline_protocol wc =
     \<lparr>pt_name = ''Baseline'',
      pt_forward_condition = AfterDecode,
      pt_propose = baseline_propose wc,
      pt_ingest = baseline_ingest wc,
      pt_is_complete = baseline_is_complete,
      pt_recode = baseline_recode,
      pt_decode = baseline_protocol_decode,
      pt_reset = baseline_reset,
      pt_packet_wire_size = bp_byte_len\<rparr>"

section \<open>The baseline keeps the contract\<close>

definition baseline_live :: "wire \<Rightarrow> block \<Rightarrow> baseline_protocol_state \<Rightarrow> bool" where
  "baseline_live wc b s \<longleftrightarrow> wire_ok wc \<and> readable b \<and>
     (bp_block s = None \<or> bp_block s = Some b \<and> bp_block_bytes s = Some (block_write wc b))"

interpretation baseline_node: honest_protocol
  baseline_protocol "\<lambda>wc b. wire_ok wc \<and> readable b \<and> length (block_write wc b) < 2 ^ 64"
  "\<lambda>wc s. bp_block s = None" "\<lambda>wc s. True" baseline_live "\<lambda>wc s. bp_block s \<noteq> None"
  "\<lambda>wc b a. a = encode_announcement (length (block_write wc b))" "\<lambda>wc b p. p = block_write wc b"
  by unfold_locales
     (auto simp: baseline_protocol_def baseline_propose_def baseline_is_complete_def
       baseline_recode_def baseline_protocol_decode_def baseline_reset_def baseline_live_def
       readable_def block_decode_write read_encode_announcement [where rest = "[]", simplified]
       Let_def)

end
