(* ===== verification/Actor.thy ===== *)
theory Actor
  imports Protocol "HOL-Library.AList"
begin

text \<open>
  \<open>crates/node/src/actor.rs\<close> and the counters of \<open>crates/node/src/metrics.rs\<close>: the node actor that
  drives a protocol over the two channels, one block after the other.

  The P2P senders and the network behind them are a value \<open>'w\<close> and the function \<open>ae_send\<close>, which
  gives the peers reached (\<open>None\<close>: \<open>Err\<close>); the random generator is a value \<open>'r\<close>. The \<open>BTreeMap\<close>
  buffer is an association list. Wall-clock time (\<open>decode_start\<close>, the duration histogram, \<open>sleep\<close>)
  is not modelled. The messages a receiver gets are a list of events.
\<close>

section \<open>State\<close>

datatype actor_state = Init u64 | Decoding u64

fun current_block :: "actor_state \<Rightarrow> u64" where
  "current_block (Init n) = n"
| "current_block (Decoding n) = n"

datatype 'k recipients = All | One 'k

record metrics =
  mt_bytes_uploaded :: u64
  mt_bytes_downloaded :: u64
  mt_announcements_sent :: u64
  mt_announcements_received :: u64
  mt_packets_sent :: u64
  mt_packets_received :: u64
  mt_packets_useful :: u64
  mt_packets_redundant :: u64
  mt_packets_failed :: u64
  mt_blocks_proposed :: u64
  mt_blocks_decoded :: u64
  mt_current_block :: int

definition metrics_default :: metrics where
  "metrics_default =
     \<lparr>mt_bytes_uploaded = 0, mt_bytes_downloaded = 0, mt_announcements_sent = 0,
      mt_announcements_received = 0, mt_packets_sent = 0, mt_packets_received = 0,
      mt_packets_useful = 0, mt_packets_redundant = 0, mt_packets_failed = 0,
      mt_blocks_proposed = 0, mt_blocks_decoded = 0, mt_current_block = 0\<rparr>"

text \<open>\<open>Metrics::init\<close>: the names and help texts registered with the context, the histogram's too.\<close>

definition metrics_registry :: "(string \<times> string) list" where
  "metrics_registry =
     [(''bytes_uploaded'', ''Total bytes uploaded (announcements + data packets)''),
      (''bytes_downloaded'', ''Total bytes downloaded (announcements + data packets)''),
      (''announcements_sent'', ''Total announcements sent (including re-broadcasts)''),
      (''announcements_received'', ''Total announcements received''),
      (''packets_sent'', ''Total data packets sent (initial + forwarded)''),
      (''packets_received'', ''Total data packets received''),
      (''packets_useful'', ''Packets that increased decoder rank''),
      (''packets_redundant'', ''Packets that were linearly dependent (redundant)''),
      (''packets_failed'', ''Packets that failed integrity verification''),
      (''blocks_proposed'', ''Total blocks proposed by this node''),
      (''blocks_decoded'', ''Total blocks successfully decoded by this node''),
      (''decode_duration_seconds'', ''Histogram of block decode durations in seconds''),
      (''current_block'', ''Current block number being processed'')]"

definition metrics_init :: "(string \<times> string \<Rightarrow> 'c \<Rightarrow> 'c) \<Rightarrow> 'c \<Rightarrow> metrics \<times> 'c" where
  "metrics_init register context = (metrics_default, fold register metrics_registry context)"

type_synonym message = "channel \<times> bytes"
type_synonym buffer = "(u64 \<times> message list) list"
type_synonym work_item = "channel \<times> u64 \<times> bytes"

record ('p, 'k, 'w, 'r) node_actor =
  na_protocol :: 'p
  na_net :: 'w
  na_peers :: "'k list"
  na_mesh_degree :: nat
  na_rng :: 'r
  na_metrics :: metrics
  na_state :: actor_state
  na_buffer :: buffer
  na_forwarded :: bool

record ('p, 'k, 'w, 'r) actor_env =
  ae_protocol :: "('p, 'r) protocol"
  ae_send :: "'w \<Rightarrow> channel \<Rightarrow> 'k recipients \<Rightarrow> bytes \<Rightarrow> bool \<Rightarrow> 'k list option \<times> 'w"
  ae_shuffle :: "'k list \<Rightarrow> 'r \<Rightarrow> 'k list \<times> 'r"
  ae_random_byte :: "'r \<Rightarrow> u8 \<times> 'r"
  ae_fill :: "'r \<Rightarrow> bytes \<times> 'r"

definition node_actor_new ::
  "'p \<Rightarrow> 'w \<Rightarrow> 'k list \<Rightarrow> nat \<Rightarrow> 'r \<Rightarrow> metrics \<Rightarrow> ('p, 'k, 'w, 'r) node_actor" where
  "node_actor_new protocol net peers mesh_degree rng metrics =
     \<lparr>na_protocol = protocol, na_net = net, na_peers = peers, na_mesh_degree = mesh_degree,
      na_rng = rng, na_metrics = metrics, na_state = Init 0, na_buffer = [], na_forwarded = False\<rparr>"

text \<open>\<open>buffer.entry(n).or_default().push(m)\<close> and \<open>buffer.remove(&n)\<close>.\<close>

definition buffered :: "u64 \<Rightarrow> buffer \<Rightarrow> message list" where
  "buffered n buf = (case map_of buf n of None \<Rightarrow> [] | Some msgs \<Rightarrow> msgs)"

definition buffer_push :: "u64 \<Rightarrow> message \<Rightarrow> buffer \<Rightarrow> buffer" where
  "buffer_push n m buf = AList.update n (buffered n buf @ [m]) buf"

definition buffer_remove :: "u64 \<Rightarrow> buffer \<Rightarrow> message list \<times> buffer" where
  "buffer_remove n buf = (buffered n buf, AList.delete n buf)"

section \<open>Sending\<close>

definition select_peers ::
  "('p, 'k, 'w, 'r) actor_env \<Rightarrow> 'k option \<Rightarrow> ('p, 'k, 'w, 'r) node_actor \<Rightarrow>
   'k list \<times> ('p, 'k, 'w, 'r) node_actor" where
  "select_peers E exclude a =
     (let candidates = filter (\<lambda>p. exclude \<noteq> Some p) (na_peers a);
          (shuffled, rng') = ae_shuffle E candidates (na_rng a) in
      (take (na_mesh_degree a) shuffled, a\<lparr>na_rng := rng'\<rparr>))"

text \<open>The announcement of a proposer and the re-broadcast of a receiver are the same code.\<close>

definition broadcast_announcement ::
  "('p, 'k, 'w, 'r) actor_env \<Rightarrow> u64 \<Rightarrow> bytes \<Rightarrow> ('p, 'k, 'w, 'r) node_actor \<Rightarrow>
   ('p, 'k, 'w, 'r) node_actor" where
  "broadcast_announcement E n data a =
     (let msg = to_be_bytes n @ data;
          msg_len = of_nat (length msg);
          (result, net') = ae_send E (na_net a) Announce All msg True;
          count = (case result of None \<Rightarrow> 0 | Some ps \<Rightarrow> length ps);
          a1 = a\<lparr>na_net := net'\<rparr> in
      if count = 0 then a1
      else a1\<lparr>na_metrics := (na_metrics a1)
             \<lparr>mt_bytes_uploaded := mt_bytes_uploaded (na_metrics a1) + msg_len * of_nat count,
              mt_announcements_sent := mt_announcements_sent (na_metrics a1) + of_nat count\<rparr>\<rparr>)"

definition send_packet ::
  "('p, 'k, 'w, 'r) actor_env \<Rightarrow> u64 \<Rightarrow> 'k \<Rightarrow> bytes \<Rightarrow> ('p, 'k, 'w, 'r) node_actor \<Rightarrow>
   ('p, 'k, 'w, 'r) node_actor" where
  "send_packet E n target pkt a =
     (let msg = to_be_bytes n @ pkt;
          msg_len = of_nat (length msg);
          (result, net') = ae_send E (na_net a) Data (One target) msg False;
          a1 = a\<lparr>na_net := net'\<rparr> in
      if (case result of None \<Rightarrow> True | Some ps \<Rightarrow> ps = []) then a1
      else a1\<lparr>na_metrics := (na_metrics a1)
             \<lparr>mt_bytes_uploaded := mt_bytes_uploaded (na_metrics a1) + msg_len,
              mt_packets_sent := mt_packets_sent (na_metrics a1) + 1\<rparr>\<rparr>)"

definition send_packets ::
  "('p, 'k, 'w, 'r) actor_env \<Rightarrow> u64 \<Rightarrow> bytes list \<Rightarrow> 'k list \<Rightarrow> ('p, 'k, 'w, 'r) node_actor \<Rightarrow>
   ('p, 'k, 'w, 'r) node_actor" where
  "send_packets E n packets targets a =
     fold (\<lambda>(i, pkt) a. if i < length targets then send_packet E n (targets ! i) pkt a else a)
       (zip [0..<length packets] packets) a"

section \<open>route\<close>

definition set_current :: "u64 \<Rightarrow> ('p, 'k, 'w, 'r) node_actor \<Rightarrow> ('p, 'k, 'w, 'r) node_actor" where
  "set_current n a = a\<lparr>na_metrics := (na_metrics a)
     \<lparr>mt_current_block := (if unat n < 2 ^ 63 then int (unat n) else 2 ^ 63 - 1)\<rparr>\<rparr>"

text \<open>One message in state \<open>Init n\<close>.\<close>

fun process_init ::
  "('p, 'k, 'w, 'r) actor_env \<Rightarrow> u64 \<Rightarrow> channel \<Rightarrow> bytes \<Rightarrow> ('p, 'k, 'w, 'r) node_actor \<Rightarrow>
   work_item list \<Rightarrow> (('p, 'k, 'w, 'r) node_actor \<times> work_item list) run" where
  "process_init E n Announce data a work =
     bindR (pt_ingest (ae_protocol E) (na_protocol a) Announce n data) (\<lambda>(protocol, result).
       let a = a\<lparr>na_protocol := protocol\<rparr> in
       case result of
         Inl e \<Rightarrow> Inr (a, work)
       | Inr ok \<Rightarrow>
           if \<not> ok then Inr (a, work)
           else let a = set_current n (a\<lparr>na_state := Decoding n\<rparr>);
                    a = broadcast_announcement E n data a;
                    (msgs, buf) = buffer_remove n (na_buffer a) in
                Inr (a\<lparr>na_buffer := buf\<rparr>,
                     work @ map (\<lambda>(ch, pkt). (Data, n, pkt)) (filter (\<lambda>(ch, pkt). ch = Data) msgs)))"
| "process_init E n Data data a work =
     Inr (a\<lparr>na_buffer := buffer_push n (Data, data) (na_buffer a)\<rparr>, work)"

definition should_forward :: "forward_condition \<Rightarrow> bool \<Rightarrow> bool \<Rightarrow> bool" where
  "should_forward cond is_complete forwarded =
     (case cond of
        AfterDecode \<Rightarrow> is_complete \<and> \<not> forwarded
      | UntilDecode \<Rightarrow> \<not> is_complete
      | OneShot \<Rightarrow> \<not> forwarded)"

definition forward_packets ::
  "('p, 'k, 'w, 'r) actor_env \<Rightarrow> u64 \<Rightarrow> 'k option \<Rightarrow> ('p, 'k, 'w, 'r) node_actor \<Rightarrow>
   ('p, 'k, 'w, 'r) node_actor run" where
  "forward_packets E n sender a =
     (let a = a\<lparr>na_forwarded := True\<rparr> in
      bindR (pt_recode (ae_protocol E) (na_protocol a) (na_mesh_degree a) (na_rng a))
        (\<lambda>(packets, rng').
           let (targets, a) = select_peers E sender (a\<lparr>na_rng := rng'\<rparr>) in
           Inr (send_packets E n packets targets a)))"

definition finish_block ::
  "('p, 'k, 'w, 'r) actor_env \<Rightarrow> u64 \<Rightarrow> ('p, 'k, 'w, 'r) node_actor \<Rightarrow> work_item list \<Rightarrow> u64 \<Rightarrow>
   (('p, 'k, 'w, 'r) node_actor \<times> work_item list \<times> u64) run" where
  "finish_block E n a work decoded_count =
     bindR (pt_decode (ae_protocol E) (na_protocol a)) (\<lambda>(b, protocol).
       let next = n + 1;
           (msgs, buf) = buffer_remove next (na_buffer a);
           a = a\<lparr>na_protocol := pt_reset (ae_protocol E) protocol,
                 na_metrics := (na_metrics a)
                   \<lparr>mt_blocks_decoded := mt_blocks_decoded (na_metrics a) + 1\<rparr>,
                 na_forwarded := False, na_state := Init next, na_buffer := buf\<rparr>;
           announcements = map snd (filter (\<lambda>(ch, pkt). ch = Announce) msgs);
           data_msgs = map snd (filter (\<lambda>(ch, pkt). ch = Data) msgs) in
       Inr (a, work @ map (\<lambda>pkt. (Announce, next, pkt)) announcements @
                 map (\<lambda>pkt. (Data, next, pkt)) data_msgs, decoded_count + 1))"

text \<open>One message in state \<open>Decoding n\<close>.\<close>

fun process_decoding ::
  "('p, 'k, 'w, 'r) actor_env \<Rightarrow> u64 \<Rightarrow> 'k option \<Rightarrow> channel \<Rightarrow> bytes \<Rightarrow>
   ('p, 'k, 'w, 'r) node_actor \<Rightarrow> work_item list \<Rightarrow> u64 \<Rightarrow>
   (('p, 'k, 'w, 'r) node_actor \<times> work_item list \<times> u64) run" where
  "process_decoding E n sender Announce data a work decoded_count = Inr (a, work, decoded_count)"
| "process_decoding E n sender Data data a work decoded_count =
     bindR (pt_ingest (ae_protocol E) (na_protocol a) Data n data) (\<lambda>(protocol, result).
       let a = a\<lparr>na_protocol := protocol\<rparr> in
       case result of
         Inl e \<Rightarrow> Inr (a\<lparr>na_metrics := (na_metrics a)
                     \<lparr>mt_packets_failed := mt_packets_failed (na_metrics a) + 1\<rparr>\<rparr>,
                   work, decoded_count)
       | Inr useful \<Rightarrow>
           if \<not> useful
           then Inr (a\<lparr>na_metrics := (na_metrics a)
                     \<lparr>mt_packets_redundant := mt_packets_redundant (na_metrics a) + 1\<rparr>\<rparr>,
                   work, decoded_count)
           else let a = a\<lparr>na_metrics := (na_metrics a)
                     \<lparr>mt_packets_useful := mt_packets_useful (na_metrics a) + 1\<rparr>\<rparr> in
             bindR (if should_forward (pt_forward_condition (ae_protocol E))
                        (pt_is_complete (ae_protocol E) (na_protocol a)) (na_forwarded a)
                    then forward_packets E n sender a else Inr a) (\<lambda>a.
               if pt_is_complete (ae_protocol E) (na_protocol a)
               then finish_block E n a work decoded_count
               else Inr (a, work, decoded_count)))"

definition process ::
  "('p, 'k, 'w, 'r) actor_env \<Rightarrow> 'k option \<Rightarrow> channel \<Rightarrow> bytes \<Rightarrow>
   ('p, 'k, 'w, 'r) node_actor \<Rightarrow> work_item list \<Rightarrow> u64 \<Rightarrow>
   (('p, 'k, 'w, 'r) node_actor \<times> work_item list \<times> u64) run" where
  "process E sender ch data a work decoded_count =
     (case na_state a of
        Init n \<Rightarrow> bindR (process_init E n ch data a work)
                    (\<lambda>(a, work). Inr (a, work, decoded_count))
      | Decoding n \<Rightarrow> process_decoding E n sender ch data a work decoded_count)"

text \<open>
  The work loop ends: every round takes one item out of the queue and the buffer together, or moves
  one from the queue to the buffer.
\<close>

definition backlog :: "buffer \<Rightarrow> nat" where
  "backlog buf = sum_list (map (length \<circ> snd) buf)"

lemma backlog_update:
  "backlog (AList.update n ms buf) + length (buffered n buf) = backlog buf + length ms"
  by (induction buf) (auto simp: backlog_def buffered_def)

lemma backlog_push [simp]: "backlog (buffer_push n m buf) = Suc (backlog buf)"
  using backlog_update [of n "buffered n buf @ [m]" buf] by (simp add: buffer_push_def)

lemma backlog_remove:
  "backlog (snd (buffer_remove n buf)) + length (fst (buffer_remove n buf)) \<le> backlog buf"
proof -
  have "backlog (AList.delete n buf) + length (buffered n buf) \<le> backlog buf"
  proof (induction buf)
    case (Cons x buf)
    have "backlog (AList.delete n buf) \<le> backlog buf" using Cons by simp
    with Cons show ?case by (cases x) (auto simp: backlog_def buffered_def AList.delete_eq)
  qed (simp add: backlog_def buffered_def)
  then show ?thesis by (simp add: buffer_remove_def)
qed

lemma send_packet_fields [simp]:
  "na_protocol (send_packet E n t pkt a) = na_protocol a"
  "na_state (send_packet E n t pkt a) = na_state a"
  "na_buffer (send_packet E n t pkt a) = na_buffer a"
  "na_forwarded (send_packet E n t pkt a) = na_forwarded a"
  "na_peers (send_packet E n t pkt a) = na_peers a"
  "na_mesh_degree (send_packet E n t pkt a) = na_mesh_degree a"
  by (simp_all add: send_packet_def Let_def case_prod_beta)

lemma send_loop_fields:
  fixes E n targets
  defines "body \<equiv> \<lambda>(i, pkt) a. if i < length targets then send_packet E n (targets ! i) pkt a else a"
  shows "na_protocol (fold body xs a) = na_protocol a \<and> na_state (fold body xs a) = na_state a \<and>
    na_buffer (fold body xs a) = na_buffer a \<and> na_forwarded (fold body xs a) = na_forwarded a \<and>
    na_peers (fold body xs a) = na_peers a \<and> na_mesh_degree (fold body xs a) = na_mesh_degree a"
proof (induction xs arbitrary: a)
  case (Cons x xs)
  have "na_protocol (body x a) = na_protocol a \<and> na_state (body x a) = na_state a \<and>
    na_buffer (body x a) = na_buffer a \<and> na_forwarded (body x a) = na_forwarded a \<and>
    na_peers (body x a) = na_peers a \<and> na_mesh_degree (body x a) = na_mesh_degree a"
    by (simp add: body_def case_prod_beta)
  with Cons.IH [of "body x a"] show ?case by simp
qed simp

lemma send_packets_fields [simp]:
  "na_protocol (send_packets E n pkts targets a) = na_protocol a"
  "na_state (send_packets E n pkts targets a) = na_state a"
  "na_buffer (send_packets E n pkts targets a) = na_buffer a"
  "na_forwarded (send_packets E n pkts targets a) = na_forwarded a"
  "na_peers (send_packets E n pkts targets a) = na_peers a"
  "na_mesh_degree (send_packets E n pkts targets a) = na_mesh_degree a"
  by (simp_all add: send_packets_def send_loop_fields)

lemma broadcast_announcement_fields [simp]:
  "na_protocol (broadcast_announcement E n d a) = na_protocol a"
  "na_state (broadcast_announcement E n d a) = na_state a"
  "na_buffer (broadcast_announcement E n d a) = na_buffer a"
  "na_forwarded (broadcast_announcement E n d a) = na_forwarded a"
  "na_peers (broadcast_announcement E n d a) = na_peers a"
  "na_mesh_degree (broadcast_announcement E n d a) = na_mesh_degree a"
  by (simp_all add: broadcast_announcement_def Let_def case_prod_beta)

lemma set_current_fields [simp]:
  "na_protocol (set_current n a) = na_protocol a" "na_state (set_current n a) = na_state a"
  "na_buffer (set_current n a) = na_buffer a" "na_forwarded (set_current n a) = na_forwarded a"
  "na_net (set_current n a) = na_net a"
  by (simp_all add: set_current_def)

lemma select_peers_fields [simp]:
  "na_protocol (snd (select_peers E ex a)) = na_protocol a"
  "na_state (snd (select_peers E ex a)) = na_state a"
  "na_buffer (snd (select_peers E ex a)) = na_buffer a"
  "na_forwarded (snd (select_peers E ex a)) = na_forwarded a"
  "na_net (snd (select_peers E ex a)) = na_net a"
  by (simp_all add: select_peers_def Let_def case_prod_beta)

lemma forward_packets_fields:
  "forward_packets E n sender a = Inr a' \<Longrightarrow>
   na_protocol a' = na_protocol a \<and> na_state a' = na_state a \<and> na_buffer a' = na_buffer a"
  by (auto simp: forward_packets_def bindR_eq_Inr Let_def case_prod_beta)

lemma process_init_Announce_cases:
  assumes "process_init E n Announce data a work = Inr (a', work')"
  obtains (refused) p r where
    "pt_ingest (ae_protocol E) (na_protocol a) Announce n data = Inr (p, r)" "r \<noteq> Inr True"
    "a' = a\<lparr>na_protocol := p\<rparr>" "work' = work"
  | (accepted) p where
    "pt_ingest (ae_protocol E) (na_protocol a) Announce n data = Inr (p, Inr True)"
    "a' = broadcast_announcement E n data
        (set_current n (a\<lparr>na_protocol := p, na_state := Decoding n\<rparr>))
        \<lparr>na_buffer := snd (buffer_remove n (na_buffer a))\<rparr>"
    "work' = work @ map (\<lambda>(ch, pkt). (Data, n, pkt))
        (filter (\<lambda>(ch, pkt). ch = Data) (fst (buffer_remove n (na_buffer a))))"
proof -
  from assms obtain p r where
    ing: "pt_ingest (ae_protocol E) (na_protocol a) Announce n data = Inr (p, r)"
    by (auto simp: bindR_eq_Inr)
  show thesis
  proof (cases "r = Inr True")
    case True
    then show thesis using assms ing by (intro accepted) (auto simp: Let_def case_prod_beta)
  next
    case False
    then show thesis using assms ing
      by (intro refused) (auto simp: Let_def split: sum.splits if_splits)
  qed
qed

lemma process_init_measure:
  assumes "process_init E n ch data a work = Inr (a', work')"
  shows "backlog (na_buffer a') + length work' \<le> backlog (na_buffer a) + length work \<or>
    backlog (na_buffer a') + length work' = Suc (backlog (na_buffer a) + length work) \<and>
    length work' \<le> length work"
proof (cases ch)
  case Announce
  let ?msgs = "fst (buffer_remove n (na_buffer a))"
  have "length (filter (\<lambda>(ch, pkt). ch = Data) ?msgs) \<le> length ?msgs" by (rule length_filter_le)
  with backlog_remove [of n "na_buffer a"]
  have "backlog (snd (buffer_remove n (na_buffer a))) +
      length (filter (\<lambda>(ch, pkt). ch = Data) ?msgs) \<le> backlog (na_buffer a)" by linarith
  then show ?thesis
    by (cases rule: process_init_Announce_cases [OF assms [unfolded Announce]]) auto
qed (use assms in auto)

lemma length_filter_channels:
  "length (filter (\<lambda>(ch, pkt). ch = Announce) ms) + length (filter (\<lambda>(ch, pkt). ch = Data) ms) = length ms"
proof (induction ms)
  case (Cons x ms)
  then show ?case by (cases x, cases "fst x") auto
qed simp

lemma finish_block_measure:
  assumes "finish_block E n a work dc = Inr (a', work', dc')"
  shows "backlog (na_buffer a') + length work' \<le> backlog (na_buffer a) + length work"
  using assms backlog_remove [of "n + 1" "na_buffer a"]
    length_filter_channels [of "fst (buffer_remove (n + 1) (na_buffer a))"]
  by (auto simp: finish_block_def bindR_eq_Inr Let_def case_prod_beta)

lemma process_decoding_measure:
  assumes "process_decoding E n sender ch data a work dc = Inr (a', work', dc')"
  shows "backlog (na_buffer a') + length work' \<le> backlog (na_buffer a) + length work"
proof (cases ch)
  case Data
  from assms obtain protocol result where
    "pt_ingest (ae_protocol E) (na_protocol a) Data n data = Inr (protocol, result)"
    by (auto simp: Data bindR_eq_Inr)
  with assms show ?thesis
    by (cases result)
       (auto simp: Data Let_def bindR_eq_Inr split: if_splits
          dest!: forward_packets_fields finish_block_measure)
qed (use assms in auto)

lemma process_measure:
  assumes "process E sender ch data a work dc = Inr (a', work', dc')"
  shows "((backlog (na_buffer a') + length work', length work'),
          (backlog (na_buffer a) + Suc (length work), Suc (length work))) \<in> less_than <*lex*> less_than"
proof (cases "na_state a")
  case (Init n)
  with assms have "process_init E n ch data a work = Inr (a', work')"
    by (auto simp: process_def bindR_eq_Inr)
  from process_init_measure [OF this] show ?thesis by auto
next
  case (Decoding n)
  with assms have "process_decoding E n sender ch data a work dc = Inr (a', work', dc')"
    by (simp add: process_def)
  from process_decoding_measure [OF this] show ?thesis by auto
qed

declare prod.case_cong [fundef_cong]

function route_loop ::
  "('p, 'k, 'w, 'r) actor_env \<Rightarrow> 'k option \<Rightarrow> bool \<Rightarrow> work_item list \<Rightarrow>
   ('p, 'k, 'w, 'r) node_actor \<Rightarrow> u64 \<Rightarrow> (('p, 'k, 'w, 'r) node_actor \<times> u64) run" where
  "route_loop E sender is_first [] a decoded_count = Inr (a, decoded_count)"
| "route_loop E sender is_first ((ch, bn, data) # work) a decoded_count =
     (let cur = current_block (na_state a) in
      if bn \<noteq> cur then route_loop E sender is_first work a decoded_count
      else let current_sender = (if is_first then sender else None) in
        bindR (process E current_sender ch data a work decoded_count)
          (\<lambda>(a', work', decoded_count'). route_loop E sender False work' a' decoded_count'))"
  by pat_completeness auto
termination
  by (relation "inv_image (less_than <*lex*> less_than)
        (\<lambda>(E, sender, is_first, work, a, dc). (backlog (na_buffer a) + length work, length work))")
     (auto dest: process_measure)

definition route ::
  "('p, 'k, 'w, 'r) actor_env \<Rightarrow> channel \<Rightarrow> u64 \<Rightarrow> bytes \<Rightarrow> 'k option \<Rightarrow>
   ('p, 'k, 'w, 'r) node_actor \<Rightarrow> u64 \<Rightarrow> (('p, 'k, 'w, 'r) node_actor \<times> u64) run" where
  "route E ch block_num payload sender a decoded_count =
     (let current = current_block (na_state a) in
      if block_num < current then Inr (a, decoded_count)
      else if block_num > current
      then Inr (a\<lparr>na_buffer := buffer_push block_num (ch, payload) (na_buffer a)\<rparr>, decoded_count)
      else route_loop E sender True [(ch, block_num, payload)] a decoded_count)"

section \<open>The receiver and the proposer\<close>

datatype 'k event = Received channel 'k bytes | Closed channel

datatype receiver_end = AllDecoded | ChannelClosed channel | Waiting

definition count_received ::
  "channel \<Rightarrow> nat \<Rightarrow> ('p, 'k, 'w, 'r) node_actor \<Rightarrow> ('p, 'k, 'w, 'r) node_actor" where
  "count_received ch len a =
     (let mt = (na_metrics a)
            \<lparr>mt_bytes_downloaded := mt_bytes_downloaded (na_metrics a) + of_nat len\<rparr> in
      a\<lparr>na_metrics := (case ch of
           Announce \<Rightarrow> mt\<lparr>mt_announcements_received := mt_announcements_received mt + 1\<rparr>
         | Data \<Rightarrow> mt\<lparr>mt_packets_received := mt_packets_received mt + 1\<rparr>)\<rparr>)"

text \<open>
  \<open>run_receiver\<close> on the messages in the order \<open>select!\<close> delivers them. \<open>Waiting\<close>: the loop is
  suspended at the end of the list.
\<close>

fun run_receiver ::
  "('p, 'k, 'w, 'r) actor_env \<Rightarrow> u64 \<Rightarrow> 'k event list \<Rightarrow> ('p, 'k, 'w, 'r) node_actor \<Rightarrow> u64 \<Rightarrow>
   (receiver_end \<times> ('p, 'k, 'w, 'r) node_actor \<times> u64) run" where
  "run_receiver E num_blocks [] a decoded_count =
     Inr (if num_blocks \<le> decoded_count then AllDecoded else Waiting, a, decoded_count)"
| "run_receiver E num_blocks (ev # evs) a decoded_count =
     (if num_blocks \<le> decoded_count then Inr (AllDecoded, a, decoded_count)
      else case ev of
        Closed ch \<Rightarrow> Inr (ChannelClosed ch, a, decoded_count)
      | Received ch sender msg \<Rightarrow>
          (let a = count_received ch (length msg) a in
           if length msg < 8 then run_receiver E num_blocks evs a decoded_count
           else let block_num = from_be_bytes (take 8 msg); payload = drop 8 msg in
             bindR (route E ch block_num payload (Some sender) a decoded_count)
               (\<lambda>(a', decoded_count'). run_receiver E num_blocks evs a' decoded_count')))"

text \<open>\<open>fill\<close> is \<open>rng.fill\<close> on an array of 32 bytes, which need not draw byte by byte.\<close>

definition generate_random_block ::
  "('r \<Rightarrow> u8 \<times> 'r) \<Rightarrow> ('r \<Rightarrow> bytes \<times> 'r) \<Rightarrow> nat \<Rightarrow> u64 \<Rightarrow> 'r \<Rightarrow> block \<times> 'r" where
  "generate_random_block random_byte fill size_bytes block_num rng =
     (let (transactions, rng1) = draw_n random_byte size_bytes rng;
          (parent, rng2) = fill rng1;
          (state_root, rng3) = fill rng2 in
      (\<lparr>bl_parent_hash = parent, bl_number = block_num, bl_timestamp = 1700000000,
        bl_gas_used = 15000000, bl_gas_limit = 30000000, bl_state_root = state_root,
        bl_transactions = transactions\<rparr>, rng3))"

text \<open>One round of the proposer's loop.\<close>

definition propose_block ::
  "('p, 'k, 'w, 'r) actor_env \<Rightarrow> nat \<Rightarrow> u64 \<Rightarrow> ('p, 'k, 'w, 'r) node_actor \<Rightarrow>
   ('p, 'k, 'w, 'r) node_actor run" where
  "propose_block E block_size block_num a =
     (let a = (if block_num > 0
               then a\<lparr>na_protocol := pt_reset (ae_protocol E) (na_protocol a), na_forwarded := False\<rparr>
               else a);
          (b, rng1) = generate_random_block (ae_random_byte E) (ae_fill E) block_size block_num (na_rng a) in
      bindR (pt_propose (ae_protocol E) (na_protocol a) b (na_mesh_degree a) rng1)
        (\<lambda>((proposal, protocol), rng2).
          let a = a\<lparr>na_protocol := protocol, na_rng := rng2,
                    na_metrics := (na_metrics a)
                      \<lparr>mt_blocks_proposed := mt_blocks_proposed (na_metrics a) + 1\<rparr>\<rparr>;
              a = set_current block_num a;
              a = a\<lparr>na_state := Decoding block_num\<rparr>;
              a = broadcast_announcement E block_num (pr_announcement proposal) a;
              (targets, a) = select_peers E None a in
          Inr (send_packets E block_num (pr_packets proposal) targets a)))"

text \<open>
  The probe of \<open>run_proposer\<close> repeats until a peer is reached; it may never be, so it is a partial
  function.
\<close>

partial_function (option) probe_peers ::
  "('p, 'k, 'w, 'r) actor_env \<Rightarrow> ('p, 'k, 'w, 'r) node_actor \<Rightarrow> ('p, 'k, 'w, 'r) node_actor option" where
  "probe_peers E a =
     (let (result, net') = ae_send E (na_net a) Announce All [] False;
          connected = (case result of None \<Rightarrow> 0 | Some ps \<Rightarrow> length ps);
          a' = a\<lparr>na_net := net'\<rparr> in
      if 0 < connected then Some a' else probe_peers E a')"

definition run_proposer ::
  "('p, 'k, 'w, 'r) actor_env \<Rightarrow> u64 \<Rightarrow> nat \<Rightarrow> ('p, 'k, 'w, 'r) node_actor \<Rightarrow>
   ('p, 'k, 'w, 'r) node_actor run option" where
  "run_proposer E num_blocks block_size a =
     (case probe_peers E a of
        None \<Rightarrow> None
      | Some a \<Rightarrow> Some (foldR (\<lambda>i a. propose_block E block_size (of_nat i) a)
                              [0..<unat num_blocks] a))"

end
