(* ===== verification/Actor_Honest.thy ===== *)
theory Actor_Honest
  imports Actor_Facts
begin

text \<open>
  Every protocol with the contract \<open>honest_protocol\<close> runs safely under the actor: a node that only
  gets honest messages of the blocks \<open>B 0, B 1, ...\<close>, in any order, with any losses, repetitions
  and stale or early messages, never panics, decodes exactly these blocks, and only sends honest
  messages.
\<close>

definition honest_message ::
  "('c \<Rightarrow> block \<Rightarrow> bytes \<Rightarrow> bool) \<Rightarrow> ('c \<Rightarrow> block \<Rightarrow> bytes \<Rightarrow> bool) \<Rightarrow> 'c \<Rightarrow> (u64 \<Rightarrow> block) \<Rightarrow>
   u64 \<Rightarrow> channel \<Rightarrow> bytes \<Rightarrow> bool" where
  "honest_message announcement packet c B n ch d =
     (case ch of Announce \<Rightarrow> announcement c (B n) d | Data \<Rightarrow> packet c (B n) d)"

text \<open>
  The invariant of the actor. \<open>W\<close> is any property of the network that sending honest messages keeps,
  for instance that all messages sent so far are honest.
\<close>

definition receiver_ok ::
  "('c \<Rightarrow> 'p \<Rightarrow> bool) \<Rightarrow> ('c \<Rightarrow> block \<Rightarrow> 'p \<Rightarrow> bool) \<Rightarrow> (u64 \<Rightarrow> channel \<Rightarrow> bytes \<Rightarrow> bool) \<Rightarrow>
   ('w \<Rightarrow> bool) \<Rightarrow> 'c \<Rightarrow> (u64 \<Rightarrow> block) \<Rightarrow> ('p, 'k, 'w, 'r) node_actor \<Rightarrow> bool" where
  "receiver_ok idle live hm W c B a \<longleftrightarrow>
     (case na_state a of
        Init n \<Rightarrow> idle c (na_protocol a)
      | Decoding n \<Rightarrow> live c (B n) (na_protocol a)) \<and>
     (\<forall>n. \<forall>(ch, d) \<in> set (buffered n (na_buffer a)). hm n ch d) \<and> W (na_net a)"

definition sends_keep ::
  "(u64 \<Rightarrow> channel \<Rightarrow> bytes \<Rightarrow> bool) \<Rightarrow> ('w \<Rightarrow> bool) \<Rightarrow> ('p, 'k, 'w, 'r) actor_env \<Rightarrow> bool" where
  "sends_keep hm W E \<longleftrightarrow>
     (\<forall>w n ch to d prio. W w \<longrightarrow> hm n ch d \<longrightarrow> W (snd (ae_send E w ch to (to_be_bytes n @ d) prio)))"

lemma broadcast_keeps:
  assumes "sends_keep hm W E" "W (na_net a)" "hm n Announce d"
  shows "W (na_net (broadcast_announcement E n d a))"
  using assms by (simp add: sends_keep_def broadcast_announcement_def Let_def case_prod_beta)

lemma send_packet_keeps:
  assumes "sends_keep hm W E" "W (na_net a)" "hm n Data d"
  shows "W (na_net (send_packet E n t d a))"
  using assms by (simp add: sends_keep_def send_packet_def Let_def case_prod_beta)

lemma send_packets_keeps:
  assumes keep: "sends_keep hm W E" and w: "W (na_net a)"
    and pkts: "\<forall>d \<in> set pkts. hm n Data d"
  shows "W (na_net (send_packets E n pkts targets a))"
proof -
  have "W (na_net (fold (\<lambda>(i, pkt) a. if i < length targets then send_packet E n (targets ! i) pkt a
      else a) xs a))" if "W (na_net a)" "\<forall>(i, d) \<in> set xs. hm n Data d" for xs a
    using that
  proof (induction xs arbitrary: a)
    case (Cons x xs)
    obtain i d where x: "x = (i, d)" by (cases x)
    with Cons.prems send_packet_keeps [OF keep, of a n d "targets ! i"] have
      "W (na_net (if i < length targets then send_packet E n (targets ! i) d a else a))" by simp
    with Cons.IH [OF this] Cons.prems(2) show ?case by (simp add: x)
  qed simp
  from this [OF w, of "zip [0..<length pkts] pkts"] pkts show ?thesis
    by (auto simp: send_packets_def dest!: set_zip_rightD)
qed

context honest_protocol
begin

lemma forward_honest:
  assumes keep: "sends_keep (honest_message announcement packet c B) W E"
    and E: "ae_protocol E = proto c"
    and lv: "live c (B n) (na_protocol a)" and fd: "fed c (na_protocol a)" and w: "W (na_net a)"
  shows "\<exists>a'. forward_packets E n sender a = Inr a' \<and> na_protocol a' = na_protocol a \<and>
    na_state a' = na_state a \<and> na_buffer a' = na_buffer a \<and> W (na_net a')"
proof -
  from recode [OF lv fd, of "na_mesh_degree a" "na_rng a"] obtain ps rng' where
    rec: "pt_recode (proto c) (na_protocol a) (na_mesh_degree a) (na_rng a) = Inr (ps, rng')"
    and ps: "\<forall>p \<in> set ps. packet c (B n) p" by blast
  let ?a = "a\<lparr>na_forwarded := True, na_rng := rng'\<rparr>"
  let ?sel = "select_peers E sender ?a"
  have "forward_packets E n sender a = Inr (send_packets E n ps (fst ?sel) (snd ?sel))"
    using rec E by (simp add: forward_packets_def Let_def case_prod_beta)
  moreover have "W (na_net (send_packets E n ps (fst ?sel) (snd ?sel)))"
    by (rule send_packets_keeps [OF keep]) (use w ps in \<open>simp_all add: honest_message_def\<close>)
  ultimately show ?thesis by simp
qed

lemma announce_honest:
  assumes E: "ae_protocol E = proto c"
    and keep: "sends_keep (honest_message announcement packet c B) W E"
    and B: "fits c (B n) \<and> bl_number (B n) = n"
    and ok: "receiver_ok idle live (honest_message announcement packet c B) W c B a"
    and st: "na_state a = Init n" and ann: "announcement c (B n) d"
    and work: "\<forall>(ch, bn, d) \<in> set work. honest_message announcement packet c B bn ch d"
  shows "\<exists>a' work' dc'. process E sender Announce d a work dc = Inr (a', work', dc') \<and>
    receiver_ok idle live (honest_message announcement packet c B) W c B a' \<and>
    (\<forall>(ch, bn, d) \<in> set work'. honest_message announcement packet c B bn ch d)"
proof -
  have id: "idle c (na_protocol a)" and w: "W (na_net a)"
    and buf: "\<And>k. \<forall>(ch, d) \<in> set (buffered k (na_buffer a)).
      honest_message announcement packet c B k ch d"
    using ok st by (auto simp: receiver_ok_def)
  from announce [OF id _ ann] B obtain s' where
    ing: "pt_ingest (proto c) (na_protocol a) Announce n d = Inr (s', Inr True)"
    and lv: "live c (B n) s'" by auto
  let ?a1 = "broadcast_announcement E n d
      (set_current n (a\<lparr>na_protocol := s', na_state := Decoding n\<rparr>))"
  let ?a' = "?a1\<lparr>na_buffer := snd (buffer_remove n (na_buffer a))\<rparr>"
  let ?work' = "work @ map (\<lambda>(ch, pkt). (Data, n, pkt))
      (filter (\<lambda>(ch, pkt). ch = Data) (buffered n (na_buffer a)))"
  have "process E sender Announce d a work dc = Inr (?a', ?work', dc)"
    using ing st E by (simp add: process_def Let_def case_prod_beta)
  moreover have "W (na_net ?a1)"
    by (rule broadcast_keeps [OF keep]) (use w ann in \<open>simp_all add: honest_message_def\<close>)
  then have "receiver_ok idle live (honest_message announcement packet c B) W c B ?a'"
    using lv buf by (auto simp: receiver_ok_def buffered_remove)
  moreover have "\<forall>(ch, bn, d) \<in> set ?work'. honest_message announcement packet c B bn ch d"
    using work buf [of n] by auto
  ultimately show ?thesis by blast
qed

lemma finish_honest:
  assumes E: "ae_protocol E = proto c"
    and lv: "live c (B n) (na_protocol a)" and full: "pt_is_complete (proto c) (na_protocol a)"
    and w: "W (na_net a)"
    and buf: "\<And>k. \<forall>(ch, d) \<in> set (buffered k (na_buffer a)).
      honest_message announcement packet c B k ch d"
    and work: "\<forall>(ch, bn, d) \<in> set work. honest_message announcement packet c B bn ch d"
  shows "\<exists>a' work' dc'. finish_block E n a work dc = Inr (a', work', dc') \<and>
    receiver_ok idle live (honest_message announcement packet c B) W c B a' \<and>
    (\<forall>(ch, bn, d) \<in> set work'. honest_message announcement packet c B bn ch d)"
proof -
  from decode [OF lv full] obtain s2 where
    dec: "pt_decode (proto c) (na_protocol a) = Inr (B n, s2)" "idle c (pt_reset (proto c) s2)" by blast
  let ?next = "n + 1" and ?msgs = "buffered (n + 1) (na_buffer a)"
  let ?a' = "a\<lparr>na_protocol := pt_reset (proto c) s2,
      na_metrics := (na_metrics a)\<lparr>mt_blocks_decoded := mt_blocks_decoded (na_metrics a) + 1\<rparr>,
      na_forwarded := False, na_state := Init ?next,
      na_buffer := snd (buffer_remove ?next (na_buffer a))\<rparr>"
  let ?work' = "work @ map (\<lambda>pkt. (Announce, ?next, pkt))
      (map snd (filter (\<lambda>(ch, pkt). ch = Announce) ?msgs)) @
      map (\<lambda>pkt. (Data, ?next, pkt)) (map snd (filter (\<lambda>(ch, pkt). ch = Data) ?msgs))"
  have "finish_block E n a work dc = Inr (?a', ?work', dc + 1)"
    using dec(1) E by (simp add: finish_block_def Let_def case_prod_beta)
  moreover have "receiver_ok idle live (honest_message announcement packet c B) W c B ?a'"
    using dec(2) w buf by (auto simp: receiver_ok_def buffered_remove)
  moreover have "\<forall>(ch, bn, d) \<in> set ?work'. honest_message announcement packet c B bn ch d"
    using work buf [of ?next] by auto
  ultimately show ?thesis by blast
qed

lemma data_honest:
  assumes E: "ae_protocol E = proto c"
    and keep: "sends_keep (honest_message announcement packet c B) W E"
    and B: "fits c (B n) \<and> bl_number (B n) = n"
    and ok: "receiver_ok idle live (honest_message announcement packet c B) W c B a"
    and st: "na_state a = Decoding n" and pk: "packet c (B n) d"
    and work: "\<forall>(ch, bn, d) \<in> set work. honest_message announcement packet c B bn ch d"
  shows "\<exists>a' work' dc'. process E sender Data d a work dc = Inr (a', work', dc') \<and>
    receiver_ok idle live (honest_message announcement packet c B) W c B a' \<and>
    (\<forall>(ch, bn, d) \<in> set work'. honest_message announcement packet c B bn ch d)"
proof -
  have lv: "live c (B n) (na_protocol a)" and w: "W (na_net a)"
    and buf: "\<And>k. \<forall>(ch, d) \<in> set (buffered k (na_buffer a)).
      honest_message announcement packet c B k ch d"
    using ok st by (auto simp: receiver_ok_def)
  from data [OF lv pk] B obtain s' r where
    ing: "pt_ingest (proto c) (na_protocol a) Data n d = Inr (s', r)" and lv': "live c (B n) s'"
    and fd: "r = Inr True \<Longrightarrow> fed c s'" by auto
  show ?thesis
  proof (cases "r = Inr True")
    case False
    then show ?thesis
      using ing lv' ok work E st by (cases r) (auto simp: process_def receiver_ok_def Let_def)
  next
    case True
    let ?a1 = "a\<lparr>na_protocol := s', na_metrics := (na_metrics a)
        \<lparr>mt_packets_useful := mt_packets_useful (na_metrics a) + 1\<rparr>\<rparr>"
    let ?go = "should_forward (pt_forward_condition (proto c)) (pt_is_complete (proto c) s')
        (na_forwarded a)"
    obtain a2 where a2: "(if ?go then forward_packets E n sender ?a1 else Inr ?a1) = Inr a2"
        "na_protocol a2 = s'" "na_state a2 = Decoding n" "na_buffer a2 = na_buffer a" "W (na_net a2)"
      using forward_honest [OF keep E, of n ?a1 sender] lv' fd [OF True] w st by (cases ?go) auto
    have run: "process E sender Data d a work dc
        = (if pt_is_complete (proto c) s' then finish_block E n a2 work dc else Inr (a2, work, dc))"
      using ing True E st a2 by (simp add: process_def Let_def)
    show ?thesis
    proof (cases "pt_is_complete (proto c) s'")
      case False
      then show ?thesis using run a2 lv' buf work by (auto simp: receiver_ok_def)
    next
      case full: True
      have "\<exists>a' work' dc'. finish_block E n a2 work dc = Inr (a', work', dc') \<and>
          receiver_ok idle live (honest_message announcement packet c B) W c B a' \<and>
          (\<forall>(ch, bn, d) \<in> set work'. honest_message announcement packet c B bn ch d)"
        by (rule finish_honest [where c = c]) (use E work a2 lv' full buf in simp_all)
      with run full show ?thesis by simp
    qed
  qed
qed

lemma process_honest:
  assumes E: "ae_protocol E = proto c"
    and keep: "sends_keep (honest_message announcement packet c B) W E"
    and B: "\<And>n. fits c (B n) \<and> bl_number (B n) = n"
    and ok: "receiver_ok idle live (honest_message announcement packet c B) W c B a"
    and msg: "honest_message announcement packet c B (current_block (na_state a)) ch d"
    and work: "\<forall>(ch, bn, d) \<in> set work. honest_message announcement packet c B bn ch d"
  shows "\<exists>a' work' dc'. process E sender ch d a work dc = Inr (a', work', dc') \<and>
    receiver_ok idle live (honest_message announcement packet c B) W c B a' \<and>
    (\<forall>(ch, bn, d) \<in> set work'. honest_message announcement packet c B bn ch d)"
proof (cases "na_state a")
  case (Init n)
  show ?thesis
  proof (cases ch)
    case Data
    with Init ok msg work show ?thesis
      by (auto simp: process_def receiver_ok_def buffered_push)
  next
    case Announce
    with msg Init have "announcement c (B n) d" by (simp add: honest_message_def)
    from announce_honest [OF E keep B ok Init this work] Announce show ?thesis by simp
  qed
next
  case (Decoding n)
  show ?thesis
  proof (cases ch)
    case Announce
    with Decoding ok work show ?thesis by (simp add: process_def)
  next
    case Data
    with msg Decoding have "packet c (B n) d" by (simp add: honest_message_def)
    from data_honest [OF E keep B ok Decoding this work] Data show ?thesis by simp
  qed
qed

lemma route_loop_honest:
  assumes E: "ae_protocol E = proto c"
    and keep: "sends_keep (honest_message announcement packet c B) W E"
    and B: "\<And>n. fits c (B n) \<and> bl_number (B n) = n"
    and ok: "receiver_ok idle live (honest_message announcement packet c B) W c B a"
    and work: "\<forall>(ch, bn, d) \<in> set work. honest_message announcement packet c B bn ch d"
  shows "\<exists>a' dc'. route_loop E sender first work a dc = Inr (a', dc') \<and>
    receiver_ok idle live (honest_message announcement packet c B) W c B a'"
  using E keep ok work
proof (induction E sender first work a dc rule: route_loop.induct)
  case (2 E sender first ch bn d work a dc)
  show ?case
  proof (cases "bn = current_block (na_state a)")
    case False
    with 2(1) [OF refl False 2(3,4,5)] 2(6) show ?thesis by simp
  next
    case True
    with 2(6) have m: "honest_message announcement packet c B (current_block (na_state a)) ch d"
      and rest: "\<forall>(ch, bn, d) \<in> set work. honest_message announcement packet c B bn ch d" by auto
    let ?s = "if first then sender else None"
    from process_honest [OF 2(3,4) B 2(5) m rest, of ?s dc] obtain a1 work1 dc1 where
      step: "process E ?s ch d a work dc = Inr (a1, work1, dc1)"
      and ok1: "receiver_ok idle live (honest_message announcement packet c B) W c B a1"
      and w1: "\<forall>(ch, bn, d) \<in> set work1. honest_message announcement packet c B bn ch d" by blast
    have "\<not> bn \<noteq> current_block (na_state a)" using True by simp
    from 2(2) [OF refl this refl step refl refl 2(3,4) ok1 w1] step True show ?thesis by simp
  qed
qed simp

lemma route_honest:
  assumes E: "ae_protocol E = proto c"
    and keep: "sends_keep (honest_message announcement packet c B) W E"
    and B: "\<And>n. fits c (B n) \<and> bl_number (B n) = n"
    and ok: "receiver_ok idle live (honest_message announcement packet c B) W c B a"
    and msg: "honest_message announcement packet c B bn ch d"
  shows "\<exists>a' dc'. route E ch bn d sender a dc = Inr (a', dc') \<and>
    receiver_ok idle live (honest_message announcement packet c B) W c B a'"
proof -
  consider "bn < current_block (na_state a)" | "current_block (na_state a) < bn"
    | "bn = current_block (na_state a)" by (rule linorder_cases)
  then show ?thesis
  proof cases
    case 1
    then show ?thesis using ok by (simp add: route_stale)
  next
    case 2
    then show ?thesis using ok msg by (auto simp: route_future receiver_ok_def buffered_push split: actor_state.splits)
  next
    case 3
    with route_loop_honest [OF E keep B ok, of "[(ch, bn, d)]" sender True dc] msg show ?thesis
      by (simp add: route_def Let_def)
  qed
qed

text \<open>
  A whole run of the receiver. A message shorter than eight bytes (the proposer's probe) is skipped;
  every other one must be an honest message behind its block number.
\<close>

lemma run_receiver_honest:
  assumes E: "ae_protocol E = proto c"
    and keep: "sends_keep (honest_message announcement packet c B) W E"
    and B: "\<And>n. fits c (B n) \<and> bl_number (B n) = n"
    and ok: "receiver_ok idle live (honest_message announcement packet c B) W c B a"
    and evs: "\<forall>ch sender msg. Received ch sender msg \<in> set evs \<longrightarrow> 8 \<le> length msg \<longrightarrow>
      honest_message announcement packet c B (from_be_bytes (take 8 msg)) ch (drop 8 msg)"
  shows "\<exists>r a' dc'. run_receiver E num_blocks evs a dc = Inr (r, a', dc') \<and>
    receiver_ok idle live (honest_message announcement packet c B) W c B a'"
  using ok evs
proof (induction evs arbitrary: a dc)
  case (Cons ev evs)
  show ?case
  proof (cases "num_blocks \<le> dc")
    case False
    show ?thesis
    proof (cases ev)
      case (Received ch sender msg)
      let ?a = "count_received ch (length msg) a"
      have ok1: "receiver_ok idle live (honest_message announcement packet c B) W c B ?a"
        using Cons.prems(1)
        by (simp add: receiver_ok_def count_received_def Let_def split: actor_state.splits)
      show ?thesis
      proof (cases "length msg < 8")
        case True
        then show ?thesis
          using Cons.IH [OF ok1, of dc] Cons.prems(2) False Received by (simp add: Let_def)
      next
        case long: False
        with Cons.prems(2) Received have
          "honest_message announcement packet c B (from_be_bytes (take 8 msg)) ch (drop 8 msg)"
          by simp
        from route_honest [OF E keep B ok1 this, of "Some sender" dc] obtain a1 dc1 where
          "route E ch (from_be_bytes (take 8 msg)) (drop 8 msg) (Some sender) ?a dc = Inr (a1, dc1)"
          "receiver_ok idle live (honest_message announcement packet c B) W c B a1" by blast
        then show ?thesis
          using Cons.IH [of a1 dc1] Cons.prems(2) False long Received by (simp add: Let_def)
      qed
    qed (use Cons.prems False in simp)
  qed (use Cons.prems in simp)
qed simp

text \<open>A node that starts fresh, on any list of honest messages.\<close>

lemma fresh_receiver_honest:
  assumes E: "ae_protocol E = proto c"
    and keep: "sends_keep (honest_message announcement packet c B) W E"
    and B: "\<And>n. fits c (B n) \<and> bl_number (B n) = n"
    and fresh: "idle c p" "W w"
    and evs: "\<forall>ch sender msg. Received ch sender msg \<in> set evs \<longrightarrow> 8 \<le> length msg \<longrightarrow>
      honest_message announcement packet c B (from_be_bytes (take 8 msg)) ch (drop 8 msg)"
  shows "\<exists>r a dc. run_receiver E num_blocks evs (node_actor_new p w peers degree rng mt) 0 = Inr (r, a, dc) \<and>
    dc = current_block (na_state a) \<and> W (na_net a) \<and>
    (case na_state a of Init n \<Rightarrow> idle c (na_protocol a) | Decoding n \<Rightarrow> live c (B n) (na_protocol a))"
proof -
  let ?a = "node_actor_new p w peers degree rng mt"
  have "receiver_ok idle live (honest_message announcement packet c B) W c B ?a"
    using fresh by (simp add: receiver_ok_def node_actor_new_def buffered_def)
  from run_receiver_honest [OF E keep B this evs, of num_blocks 0] obtain r a dc where
    run: "run_receiver E num_blocks evs ?a 0 = Inr (r, a, dc)"
    and ok: "receiver_ok idle live (honest_message announcement packet c B) W c B a"
    by (elim exE conjE) (rule that)
  have "current_block (na_state a) - dc = 0"
    using run_receiver_progress [OF run] by (simp add: node_actor_new_def)
  with run ok show ?thesis by (auto simp: receiver_ok_def split: actor_state.splits)
qed

end

section \<open>The proposer\<close>

lemma generate_random_block_number:
  "bl_number (fst (generate_random_block rb fill sz n rng)) = n \<and>
   length (bl_transactions (fst (generate_random_block rb fill sz n rng))) = sz"
  by (simp add: generate_random_block_def Let_def case_prod_beta)

lemma generate_random_block_ok:
  "(\<And>r. length (fst (fill r)) = 32) \<Longrightarrow> block_ok (fst (generate_random_block rb fill sz n rng))"
  by (simp add: generate_random_block_def Let_def case_prod_beta block_ok_def)

text \<open>A message is honest for the proposer when it belongs to some block that fits.\<close>

definition proposed_message ::
  "('c \<Rightarrow> block \<Rightarrow> bool) \<Rightarrow> ('c \<Rightarrow> block \<Rightarrow> bytes \<Rightarrow> bool) \<Rightarrow> ('c \<Rightarrow> block \<Rightarrow> bytes \<Rightarrow> bool) \<Rightarrow> 'c \<Rightarrow>
   u64 \<Rightarrow> channel \<Rightarrow> bytes \<Rightarrow> bool" where
  "proposed_message fits announcement packet c n ch d \<longleftrightarrow>
     (\<exists>b. fits c b \<and> bl_number b = n \<and> honest_message announcement packet c (\<lambda>_. b) n ch d)"

definition proposer_ok ::
  "('c \<Rightarrow> 'p \<Rightarrow> bool) \<Rightarrow> ('c \<Rightarrow> 'p \<Rightarrow> bool) \<Rightarrow> ('c \<Rightarrow> block \<Rightarrow> 'p \<Rightarrow> bool) \<Rightarrow> ('w \<Rightarrow> bool) \<Rightarrow> 'c \<Rightarrow> u64 \<Rightarrow>
   ('p, 'k, 'w, 'r) node_actor \<Rightarrow> bool" where
  "proposer_ok idle proposer live W c n a \<longleftrightarrow> proposer c (na_protocol a) \<and> W (na_net a) \<and>
     (if n = 0 then idle c (na_protocol a) else \<exists>b. live c b (na_protocol a))"

context honest_protocol
begin

lemma propose_block_honest:
  assumes E: "ae_protocol E = proto c"
    and keep: "sends_keep (proposed_message fits announcement packet c) W E"
    and sz: "\<And>n rng. fits c (fst (generate_random_block (ae_random_byte E) (ae_fill E) block_size n rng))"
    and ok: "proposer_ok idle proposer live W c n a"
  shows "\<exists>a' b. propose_block E block_size n a = Inr a' \<and> na_state a' = Decoding n \<and>
    bl_number b = n \<and> live c b (na_protocol a') \<and> pt_is_complete (proto c) (na_protocol a') \<and>
    proposer c (na_protocol a') \<and> W (na_net a')"
proof -
  let ?a0 = "if n > 0
      then a\<lparr>na_protocol := pt_reset (ae_protocol E) (na_protocol a), na_forwarded := False\<rparr> else a"
  have id: "idle c (na_protocol ?a0)" and pr: "proposer c (na_protocol ?a0)" and w: "W (na_net ?a0)"
    using ok reset reset_proposer E by (auto simp: proposer_ok_def word_gt_0 split: if_splits)
  obtain b rng1 where gen: "generate_random_block (ae_random_byte E) (ae_fill E) block_size n (na_rng ?a0) = (b, rng1)"
    by (cases "generate_random_block (ae_random_byte E) (ae_fill E) block_size n (na_rng ?a0)")
  have b: "fits c b" "bl_number b = n"
    using sz [of n "na_rng ?a0"] generate_random_block_number [of "ae_random_byte E" "ae_fill E" block_size n "na_rng ?a0"]
    unfolding gen by simp_all
  from propose [OF id pr b(1), of "na_mesh_degree ?a0" rng1] obtain pl s' rng2 where
    run: "pt_propose (proto c) (na_protocol ?a0) b (na_mesh_degree ?a0) rng1 = Inr ((pl, s'), rng2)"
    and s': "live c b s'" "proposer c s'" "pt_is_complete (proto c) s'"
    and ann: "announcement c b (pr_announcement pl)"
    and pkts: "\<forall>p \<in> set (pr_packets pl). packet c b p" by blast
  let ?a1 = "set_current n (?a0\<lparr>na_protocol := s', na_rng := rng2, na_metrics := (na_metrics ?a0)
      \<lparr>mt_blocks_proposed := mt_blocks_proposed (na_metrics ?a0) + 1\<rparr>\<rparr>)"
  let ?a2 = "broadcast_announcement E n (pr_announcement pl) (?a1\<lparr>na_state := Decoding n\<rparr>)"
  let ?sel = "select_peers E None ?a2"
  let ?a3 = "send_packets E n (pr_packets pl) (fst ?sel) (snd ?sel)"
  have "propose_block E block_size n a = Inr ?a3"
    using gen run E by (simp only: propose_block_def Let_def case_prod_beta bindR_simps fst_conv snd_conv)
  moreover have "W (na_net ?a2)"
    by (rule broadcast_keeps [OF keep])
       (use w ann b in \<open>auto simp: proposed_message_def honest_message_def\<close>)
  then have "W (na_net ?a3)"
    by (intro send_packets_keeps [OF keep])
       (use pkts b in \<open>auto simp: proposed_message_def honest_message_def\<close>)
  ultimately show ?thesis using s' b by auto
qed

lemma run_proposer_honest:
  assumes E: "ae_protocol E = proto c"
    and keep: "sends_keep (proposed_message fits announcement packet c) W E"
    and sz: "\<And>n rng. fits c (fst (generate_random_block (ae_random_byte E) (ae_fill E) block_size n rng))"
    and ok: "proposer_ok idle proposer live W c 0 a"
    and reached: "probe_peers E a = Some a0" and probed: "W (na_net a0)" "na_protocol a0 = na_protocol a"
  shows "\<exists>a'. run_proposer E num_blocks block_size a = Some (Inr a') \<and> W (na_net a')"
proof -
  have "\<exists>a'. foldR (\<lambda>i a. propose_block E block_size (of_nat i) a) [0..<k] a0 = Inr a' \<and>
      (k < 2 ^ 64 \<longrightarrow> proposer_ok idle proposer live W c (of_nat k) a') \<and> W (na_net a')"
    if "k \<le> unat num_blocks" for k
    using that
  proof (induction k)
    case 0
    then show ?case using ok probed by (simp add: proposer_ok_def)
  next
    case (Suc k)
    have lt: "Suc k < 2 ^ 64" using Suc.prems unsigned_less [where 'b = 64 and 'a = nat and w = num_blocks] by simp
    with Suc obtain a1 where
      a1: "foldR (\<lambda>i a. propose_block E block_size (of_nat i) a) [0..<k] a0 = Inr a1"
      "proposer_ok idle proposer live W c (of_nat k) a1" by auto
    from propose_block_honest [OF E keep sz a1(2)] obtain a2 b where
      "propose_block E block_size (of_nat k) a1 = Inr a2" "live c b (na_protocol a2)"
      "proposer c (na_protocol a2)" "W (na_net a2)" by blast
    moreover have "(of_nat (Suc k) :: u64) \<noteq> 0"
      using lt by (auto simp: word_of_nat_eq_0_iff simp del: of_nat_Suc dest!: dvd_imp_le)
    ultimately show ?case using a1(1) by (auto simp: foldR_append proposer_ok_def)
  qed
  from this [of "unat num_blocks"] reached show ?thesis by (auto simp: run_proposer_def)
qed

end

section \<open>The probe\<close>

text \<open>The network after \<open>i\<close> probes, and whether probe \<open>i\<close> reaches a peer.\<close>

fun probe_net :: "('p, 'k, 'w, 'r) actor_env \<Rightarrow> 'w \<Rightarrow> nat \<Rightarrow> 'w" where
  "probe_net E w 0 = w"
| "probe_net E w (Suc i) = probe_net E (snd (ae_send E w Announce All [] False)) i"

definition probe_reaches :: "('p, 'k, 'w, 'r) actor_env \<Rightarrow> 'w \<Rightarrow> nat \<Rightarrow> bool" where
  "probe_reaches E w i \<longleftrightarrow>
     (case fst (ae_send E (probe_net E w i) Announce All [] False) of None \<Rightarrow> False | Some ps \<Rightarrow> ps \<noteq> [])"

lemma probe_peers_unfold:
  "probe_peers E a = (let net' = snd (ae_send E (na_net a) Announce All [] False) in
     if probe_reaches E (na_net a) 0 then Some (a\<lparr>na_net := net'\<rparr>)
     else probe_peers E (a\<lparr>na_net := net'\<rparr>))"
  by (subst probe_peers.simps)
     (auto simp: Let_def case_prod_beta probe_reaches_def split: option.splits)

lemma probe_peers_reaches:
  assumes "probe_reaches E (na_net a) i" "\<forall>j < i. \<not> probe_reaches E (na_net a) j"
  shows "probe_peers E a = Some (a\<lparr>na_net := probe_net E (na_net a) (Suc i)\<rparr>)"
  using assms
proof (induction i arbitrary: a)
  case 0
  then show ?case by (subst probe_peers_unfold) (simp add: Let_def)
next
  case (Suc i)
  let ?w = "snd (ae_send E (na_net a) Announce All [] False)"
  have shift: "probe_reaches E (na_net a) (Suc j) = probe_reaches E ?w j" for j
    by (simp add: probe_reaches_def)
  have "\<forall>j < i. \<not> probe_reaches E ?w j" using Suc.prems(2) by (simp flip: shift)
  with Suc.IH [of "a\<lparr>na_net := ?w\<rparr>"] Suc.prems show ?case
    by (subst probe_peers_unfold) (simp add: Let_def shift)
qed

lemma probe_peers_only_then:
  assumes "probe_peers E a = Some a'"
  shows "\<exists>i. probe_reaches E (na_net a) i"
proof (rule probe_peers.raw_induct [OF _ assms], goal_cases)
  case (1 probe E a a')
  show ?case
  proof (cases "probe_reaches E (na_net a) 0")
    case False
    let ?w = "snd (ae_send E (na_net a) Announce All [] False)"
    from 1(2) False have "probe E (a\<lparr>na_net := ?w\<rparr>) = Some a'"
      by (auto simp: Let_def case_prod_beta probe_reaches_def split: option.splits if_splits)
    from 1(1) [OF this] obtain i where "probe_reaches E ?w i" by auto
    then have "probe_reaches E (na_net a) (Suc i)" by (simp add: probe_reaches_def)
    then show ?thesis ..
  qed blast
qed

end
