(* ===== verification/Crypto_Groups.thy ===== *)
theory Crypto_Groups
  imports Linalg
begin

text \<open>
  The library interfaces both integrity schemes call: the \<open>CryptoGroup\<close> and \<open>HashToGroup\<close> traits of
  \<open>commonware-math\<close> (scalar multiplication, multi-scalar multiplication, hashing to a point) and
  the signers of \<open>commonware-cryptography\<close>. They are records of functions with the documented laws
  as predicates; the lemmas are the linearity of multi-scalar multiplication.
\<close>

record ('f, 'g) group_ops =
  g_smul :: "'f \<Rightarrow> 'g \<Rightarrow> 'g"
  g_msm :: "'g list \<Rightarrow> 'f list \<Rightarrow> 'g"
  g_hash_to_group :: "bytes \<Rightarrow> bytes \<Rightarrow> 'g"
  g_generator :: 'g

record ('sk, 'pk, 'sig) signer_ops =
  sg_public_key :: "'sk \<Rightarrow> 'pk"
  sg_sign :: "'sk \<Rightarrow> bytes \<Rightarrow> bytes \<Rightarrow> 'sig"            \<comment> \<open>namespace, message\<close>
  sg_verify :: "'pk \<Rightarrow> bytes \<Rightarrow> bytes \<Rightarrow> 'sig \<Rightarrow> bool"

text \<open>Scalars act linearly, and \<open>msm\<close> of equally long lists is the sum of the products.\<close>

definition group_ok :: "('f::field, 'g::ab_group_add) group_ops \<Rightarrow> bool" where
  "group_ok G \<longleftrightarrow>
     (\<forall>a x y. g_smul G a (x + y) = g_smul G a x + g_smul G a y) \<and>
     (\<forall>a b x. g_smul G (a + b) x = g_smul G a x + g_smul G b x) \<and>
     (\<forall>a b x. g_smul G a (g_smul G b x) = g_smul G (a * b) x) \<and>
     (\<forall>x. g_smul G 1 x = x) \<and>
     (\<forall>ps ss. length ps = length ss \<longrightarrow>
        g_msm G ps ss = (\<Sum>i < length ps. g_smul G (ss ! i) (ps ! i)))"

definition signer_ok :: "('sk, 'pk, 'sig) signer_ops \<Rightarrow> bool" where
  "signer_ok S \<longleftrightarrow> (\<forall>sk ns msg. sg_verify S (sg_public_key S sk) ns msg (sg_sign S sk ns msg))"

lemma smul_add_right: "group_ok G \<Longrightarrow> g_smul G a (x + y) = g_smul G a x + g_smul G a y"
  and smul_add_left: "group_ok G \<Longrightarrow> g_smul G (a + b) x = g_smul G a x + g_smul G b x"
  and smul_smul: "group_ok G \<Longrightarrow> g_smul G a (g_smul G b x) = g_smul G (a * b) x"
  and smul_one: "group_ok G \<Longrightarrow> g_smul G 1 x = x"
  by (simp_all add: group_ok_def)

lemma msm_sum:
  "group_ok G \<Longrightarrow> length ps = length ss \<Longrightarrow>
   g_msm G ps ss = (\<Sum>i < length ps. g_smul G (ss ! i) (ps ! i))"
  by (simp add: group_ok_def)

lemma smul_zero_left: "group_ok G \<Longrightarrow> g_smul G 0 x = 0"
  using smul_add_left [of G 0 0 x] by simp

lemma smul_zero_right: "group_ok G \<Longrightarrow> g_smul G a 0 = 0"
  using smul_add_right [of G a 0 0] by simp

lemma smul_sum_left: "group_ok G \<Longrightarrow> g_smul G (\<Sum>i < (n::nat). f i) x = (\<Sum>i < n. g_smul G (f i) x)"
  by (induction n) (simp_all add: smul_zero_left smul_add_left)

lemma smul_sum_right: "group_ok G \<Longrightarrow> g_smul G a (\<Sum>i < (n::nat). f i) = (\<Sum>i < n. g_smul G a (f i))"
  by (induction n) (simp_all add: smul_zero_right smul_add_right)

text \<open>
  Multi-scalar multiplication is linear: the product for a combination of vectors is the same
  combination of the products.
\<close>

lemma msm_linear:
  fixes G :: "('f::field, 'g::ab_group_add) group_ops"
  assumes G: "group_ok G" and len: "length w = length P"
    and W: "\<forall>v \<in> set W. length v = length P" and b: "length b = length W"
    and comb: "\<And>k. k < length P \<Longrightarrow> w ! k = comb ((!) b) W k"
  shows "g_msm G P w = g_msm G (map (g_msm G P) W) b"
proof -
  have "g_msm G P w = (\<Sum>k < length P. g_smul G (\<Sum>i < length W. b ! i * W ! i ! k) (P ! k))"
    by (simp add: msm_sum [OF G] len comb) (simp add: comb_def)
  also have "\<dots> = (\<Sum>k < length P. \<Sum>i < length W. g_smul G (b ! i) (g_smul G (W ! i ! k) (P ! k)))"
    by (simp add: smul_sum_left [OF G] smul_smul [OF G])
  also have "\<dots> = (\<Sum>i < length W. g_smul G (b ! i) (\<Sum>k < length P. g_smul G (W ! i ! k) (P ! k)))"
    by (subst sum.swap) (simp add: smul_sum_right [OF G])
  also have "\<dots> = (\<Sum>i < length W. g_smul G (b ! i) (g_msm G P (W ! i)))"
    using W by (intro sum.cong) (simp_all add: msm_sum [OF G])
  also have "\<dots> = g_msm G (map (g_msm G P) W) b"
    using b by (simp add: msm_sum [OF G])
  finally show ?thesis .
qed

text \<open>A common factor can be taken out of the points.\<close>

lemma msm_smul:
  fixes G :: "('f::field, 'g::ab_group_add) group_ops"
  assumes "group_ok G" "length P = length b"
  shows "g_msm G (map (g_smul G a) P) b = g_smul G a (g_msm G P b)"
  using assms
  by (simp add: msm_sum [OF assms(1)] smul_sum_right [OF assms(1)] smul_smul [OF assms(1)]
      mult.commute)

section \<open>Collisions\<close>

text \<open>
  Two vectors with the same product are equal or give a linear relation between the points: a vector
  that is not zero and whose product is. Finding one is the hard problem that both schemes rest on; in a
  group of one dimension relations exist, so that they do not is never assumed.
\<close>

definition relation_among :: "('f::zero, 'g::zero) group_ops \<Rightarrow> 'g list \<Rightarrow> 'f list \<Rightarrow> bool" where
  "relation_among G P d \<longleftrightarrow> length d = length P \<and> (\<exists>x \<in> set d. x \<noteq> 0) \<and> g_msm G P d = 0"

lemma msm_diff:
  fixes G :: "('f::field, 'g::ab_group_add) group_ops"
  assumes "group_ok G" "length u = length P" "length v = length P"
  shows "g_msm G P (map2 (-) u v) = g_msm G P u - g_msm G P v"
proof -
  have "g_smul G (a - b) x = g_smul G a x - g_smul G b x" for a b x
    using smul_add_left [OF assms(1), of "a - b" b x] by (simp add: algebra_simps)
  then show ?thesis using assms by (simp add: msm_sum [OF assms(1)] sum_subtractf)
qed

lemma msm_collision:
  fixes G :: "('f::field, 'g::ab_group_add) group_ops"
  assumes "group_ok G" "length u = length P" "length v = length P"
  shows "g_msm G P u = g_msm G P v \<longleftrightarrow> u = v \<or> relation_among G P (map2 (-) u v)"
proof -
  have "(\<exists>x \<in> set (map2 (-) u v). x \<noteq> 0) \<longleftrightarrow> u \<noteq> v"
    unfolding Bex_def in_set_conv_nth using assms(2,3) by (auto simp: list_eq_iff_nth_eq [of u v])
  then show ?thesis using assms msm_diff [OF assms] by (auto simp: relation_among_def)
qed

end
