(* ===== verification/Pedersen.thy ===== *)
theory Pedersen
  imports Strategy_Core Crypto_Groups
begin

text \<open>
  \<open>crates/strategy/pedersen/src/commitment.rs\<close> and \<open>pedersen.rs\<close>: the commitment key, the proofs
  with their wire format, the integrity scheme and the proposer's signer. The group, the signer and
  the codecs are the fields of \<open>pedersen_lib\<close>.

  The lemmas: an honest proof verifies, on every re-encoding (an interpretation of
  \<open>coded_integrity\<close>); what acceptance means and that it binds the data to the coefficients; the wire
  round trip of the proofs.
\<close>

section \<open>Commitment key\<close>

record 'g commitment_key =
  ck_generators :: "'g list"

definition pedersen_gen_dst :: bytes where
  "pedersen_gen_dst = str_bytes ''RLNC-PEDERSEN-GEN-v1''"

definition ck_deterministic :: "('f, 'g) group_ops \<Rightarrow> nat \<Rightarrow> bytes \<Rightarrow> 'g commitment_key" where
  "ck_deterministic G m dst =
     \<lparr>ck_generators = map (\<lambda>j. g_hash_to_group G dst (to_le_bytes (of_nat j))) [0..<m]\<rparr>"

definition ck_canonical :: "('f, 'g) group_ops \<Rightarrow> nat \<Rightarrow> 'g commitment_key" where
  "ck_canonical G m = ck_deterministic G m pedersen_gen_dst"

definition ck_commit :: "('f, 'g) group_ops \<Rightarrow> 'g commitment_key \<Rightarrow> 'f list \<Rightarrow> 'g run" where
  "ck_commit G ck scalars =
     (let m = length (ck_generators ck) in
      assertR (length scalars = m) CommitLength (Inr (g_msm G (ck_generators ck) scalars)))"

definition ck_verify ::
  "('f, 'g) group_ops \<Rightarrow> 'g commitment_key \<Rightarrow> 'f list \<Rightarrow> 'f list \<Rightarrow> 'g list \<Rightarrow> bool run" where
  "ck_verify G ck w coefficients commitments =
     bindR (ck_commit G ck w) (\<lambda>lhs.
       let rhs = g_msm G commitments coefficients in Inr (lhs = rhs))"

lemma ck_canonical_length [simp]: "length (ck_generators (ck_canonical G m)) = m"
  by (simp add: ck_canonical_def ck_deterministic_def)

section \<open>Proofs, context, scheme\<close>

definition pedersen_sig_ns :: bytes where
  "pedersen_sig_ns = str_bytes ''RLNC-PEDERSEN-SIG-v1''"

record ('g, 'sig) pedersen_proof =
  pp_commitments :: "'g list"
  pp_signature :: 'sig

record ('g, 'pk) pedersen_context =
  pc_key :: "'g commitment_key"
  pc_public_key :: 'pk

record ('f, 'g, 'sk, 'pk, 'sig) pedersen_lib =
  pl_group :: "('f, 'g) group_ops"
  pl_signer :: "('sk, 'pk, 'sig) signer_ops"
  pl_gcodec :: "'g codec"
  pl_scodec :: "'sig codec"
  pl_u32 :: "u32 codec"

definition serialize_commitments :: "'g codec \<Rightarrow> 'g list \<Rightarrow> bytes" where
  "serialize_commitments gc commitments = concat (map (cd_write gc) commitments)"

definition pedersen_verify ::
  "('f, 'g, 'sk, 'pk, 'sig) pedersen_lib \<Rightarrow> ('g, 'pk) pedersen_context \<Rightarrow> 'f coded_chunk \<Rightarrow>
   ('g, 'sig) pedersen_proof \<Rightarrow> (err + unit) run" where
  "pedersen_verify lib ctx chunk proof =
     (let msg = serialize_commitments (pl_gcodec lib) (pp_commitments proof) in
      if \<not> sg_verify (pl_signer lib) (pc_public_key ctx) pedersen_sig_ns msg (pp_signature proof)
      then Inr (Inl SignatureInvalid)
      else bindR (ck_verify (pl_group lib) (pc_key ctx) (chunk_v (cc_w chunk)) (cc_b chunk)
                    (pp_commitments proof)) (\<lambda>ok.
             if \<not> ok then Inr (Inl CommitmentMismatch) else Inr (Inr ())))"

definition pedersen_combine :: "('g, 'sig) pedersen_proof list \<Rightarrow> 'f list \<Rightarrow> ('g, 'sig) pedersen_proof run" where
  "pedersen_combine proofs alphas = idx proofs 0"

definition pedersen_scheme ::
  "('f, 'g, 'sk, 'pk, 'sig) pedersen_lib \<Rightarrow>
   (('g, 'pk) pedersen_context, 'f, ('g, 'sig) pedersen_proof) integrity_scheme" where
  "pedersen_scheme lib = \<lparr>is_verify = pedersen_verify lib, is_combine = pedersen_combine\<rparr>"

definition pedersen_sign_block ::
  "('f, 'g, 'sk, 'pk, 'sig) pedersen_lib \<Rightarrow> 'sk \<Rightarrow> 'g commitment_key \<Rightarrow> 'f list list \<Rightarrow>
   ('g, 'sig) pedersen_proof run" where
  "pedersen_sign_block lib signer key chunks =
     bindR (mapR (ck_commit (pl_group lib) key) chunks) (\<lambda>commitments.
       let msg = serialize_commitments (pl_gcodec lib) commitments;
           signature = sg_sign (pl_signer lib) signer pedersen_sig_ns msg in
       Inr \<lparr>pp_commitments = commitments, pp_signature = signature\<rparr>)"

definition pedersen_context_of ::
  "('f, 'g, 'sk, 'pk, 'sig) pedersen_lib \<Rightarrow> 'sk \<Rightarrow> 'g commitment_key \<Rightarrow> ('g, 'pk) pedersen_context" where
  "pedersen_context_of lib signer key =
     \<lparr>pc_key = key, pc_public_key = sg_public_key (pl_signer lib) signer\<rparr>"

section \<open>Wire format of the proofs\<close>

definition pedersen_serialize_proof ::
  "('f, 'g, 'sk, 'pk, 'sig) pedersen_lib \<Rightarrow> ('g, 'sig) pedersen_proof \<Rightarrow> bytes" where
  "pedersen_serialize_proof lib proof =
     (let count = of_nat (length (pp_commitments proof)) in
      cd_write (pl_u32 lib) count @
      concat (map (cd_write (pl_gcodec lib)) (pp_commitments proof)) @
      cd_write (pl_scodec lib) (pp_signature proof))"

fun read_groups :: "'g::zero codec \<Rightarrow> nat \<Rightarrow> bytes \<Rightarrow> err + 'g list \<times> bytes" where
  "read_groups c 0 buf = Inr ([], buf)"
| "read_groups c (Suc k) buf =
     bindR (read_group c buf) (\<lambda>(x, buf1).
     bindR (read_groups c k buf1) (\<lambda>(xs, buf2). Inr (x # xs, buf2)))"

definition pedersen_deserialize_proof ::
  "('f, 'g::zero, 'sk, 'pk, 'sig) pedersen_lib \<Rightarrow> bytes \<Rightarrow> err + ('g, 'sig) pedersen_proof \<times> bytes" where
  "pedersen_deserialize_proof lib buf =
     bindR (map_err BadCommitmentCount (cd_read (pl_u32 lib) buf)) (\<lambda>(count, buf1).
       let n = unat count in
       if 1024 < n then Inl TooManyCommitments
       else bindR (read_groups (pl_gcodec lib) n buf1) (\<lambda>(commitments, buf2).
            bindR (map_err BadSignature (cd_read (pl_scodec lib) buf2)) (\<lambda>(signature, buf3).
              Inr (\<lparr>pp_commitments = commitments, pp_signature = signature\<rparr>, buf3))))"

definition pedersen_proof_wire_size ::
  "('f, 'g, 'sk, 'pk, 'sig) pedersen_lib \<Rightarrow> ('g, 'sig) pedersen_proof \<Rightarrow> nat" where
  "pedersen_proof_wire_size lib proof =
     4 + length (pp_commitments proof) * cd_size (pl_gcodec lib) + cd_size (pl_scodec lib)"

definition pedersen_integrity_proof ::
  "('f, 'g::zero, 'sk, 'pk, 'sig) pedersen_lib \<Rightarrow> ('g, 'sig) pedersen_proof integrity_proof" where
  "pedersen_integrity_proof lib =
     \<lparr>ip_serialize = pedersen_serialize_proof lib,
      ip_deserialize = pedersen_deserialize_proof lib,
      ip_wire_size = pedersen_proof_wire_size lib\<rparr>"

text \<open>What the wire format relies on: the library codecs of counts, points and signatures.\<close>

definition pedersen_codecs_ok :: "('f, 'g::zero, 'sk, 'pk, 'sig) pedersen_lib \<Rightarrow> bool" where
  "pedersen_codecs_ok lib \<longleftrightarrow>
     (\<forall>x. length (cd_write (pl_u32 lib) x) = 4) \<and>
     (\<forall>x rest. cd_read (pl_u32 lib) (cd_write (pl_u32 lib) x @ rest) = Inr (x, rest)) \<and>
     element_codec_ok (pl_gcodec lib) \<and>
     (\<forall>s. length (cd_write (pl_scodec lib) s) = cd_size (pl_scodec lib))"

lemma read_groups_write:
  assumes "element_codec_ok c" "\<forall>x \<in> set xs. encodable c x"
  shows "read_groups c (length xs) (concat (map (cd_write c) xs) @ rest) = Inr (xs, rest)"
  using assms(2) by (induction xs) (simp_all add: read_group_write [OF assms(1)])

lemma pedersen_proof_roundtrip:
  assumes ok: "pedersen_codecs_ok lib" and few: "length (pp_commitments p) \<le> 1024"
    and enc: "\<forall>x \<in> set (pp_commitments p). encodable (pl_gcodec lib) x"
    and sig: "\<And>rest. cd_read (pl_scodec lib) (cd_write (pl_scodec lib) (pp_signature p) @ rest)
      = Inr (pp_signature p, rest)"
  shows "proof_codec_ok (pedersen_integrity_proof lib) p"
proof -
  have cnt: "unat (of_nat (length (pp_commitments p)) :: u32) = length (pp_commitments p)"
    using few by (simp add: unat_of_nat)
  show ?thesis
    using ok few cnt read_groups_write [OF _ enc] sig
    by (simp add: proof_codec_ok_def pedersen_integrity_proof_def pedersen_serialize_proof_def
        pedersen_deserialize_proof_def pedersen_proof_wire_size_def pedersen_codecs_ok_def Let_def
        length_write_all)
qed

lemma pedersen_too_many:
  assumes "pedersen_codecs_ok lib" "1024 < length (pp_commitments p)"
    "length (pp_commitments p) < 2 ^ 32"
  shows "pedersen_deserialize_proof lib (pedersen_serialize_proof lib p @ rest) = Inl TooManyCommitments"
proof -
  have "unat (of_nat (length (pp_commitments p)) :: u32) = length (pp_commitments p)"
    using assms(3) by (simp add: unat_of_nat)
  then show ?thesis
    using assms by (simp add: pedersen_serialize_proof_def pedersen_deserialize_proof_def
        pedersen_codecs_ok_def Let_def)
qed

section \<open>Acceptance\<close>

lemma ck_commit_Inr:
  "ck_commit G ck v = Inr c \<longleftrightarrow> length v = length (ck_generators ck) \<and> c = g_msm G (ck_generators ck) v"
  by (auto simp: ck_commit_def Let_def assertR_eq_Inr)

text \<open>\<open>verify\<close> on every branch; it panics exactly when the data has the wrong length.\<close>

lemma pedersen_verify_cases:
  "pedersen_verify lib ctx chunk proof =
     (if \<not> sg_verify (pl_signer lib) (pc_public_key ctx) pedersen_sig_ns
           (serialize_commitments (pl_gcodec lib) (pp_commitments proof)) (pp_signature proof)
      then Inr (Inl SignatureInvalid)
      else if length (chunk_v (cc_w chunk)) \<noteq> length (ck_generators (pc_key ctx)) then Inl CommitLength
      else if g_msm (pl_group lib) (ck_generators (pc_key ctx)) (chunk_v (cc_w chunk))
              \<noteq> g_msm (pl_group lib) (pp_commitments proof) (cc_b chunk)
      then Inr (Inl CommitmentMismatch)
      else Inr (Inr ()))"
  by (simp add: pedersen_verify_def ck_verify_def ck_commit_def Let_def)

section \<open>The contract\<close>

definition pedersen_setting ::
  "('f::field, 'g::ab_group_add, 'sk, 'pk, 'sig) pedersen_lib \<Rightarrow> nat \<Rightarrow> nat \<Rightarrow>
   ('g, 'pk) pedersen_context \<Rightarrow> 'f list list \<Rightarrow> bool" where
  "pedersen_setting lib N m ctx V \<longleftrightarrow> group_ok (pl_group lib) \<and> originals N m V \<and>
     length (ck_generators (pc_key ctx)) = m"

text \<open>A proof over the commitments of exactly the block's chunks, signed by the proposer.\<close>

definition pedersen_authentic ::
  "('f, 'g, 'sk, 'pk, 'sig) pedersen_lib \<Rightarrow> ('g, 'pk) pedersen_context \<Rightarrow> 'f list list \<Rightarrow>
   ('g, 'sig) pedersen_proof \<Rightarrow> bool" where
  "pedersen_authentic lib ctx V p \<longleftrightarrow>
     pp_commitments p = map (g_msm (pl_group lib) (ck_generators (pc_key ctx))) V \<and>
     sg_verify (pl_signer lib) (pc_public_key ctx) pedersen_sig_ns
       (serialize_commitments (pl_gcodec lib) (pp_commitments p)) (pp_signature p)"

definition pedersen_good ::
  "('f::field, 'g, 'sk, 'pk, 'sig) pedersen_lib \<Rightarrow> nat \<Rightarrow> nat \<Rightarrow> ('g, 'pk) pedersen_context \<Rightarrow>
   'f list list \<Rightarrow> 'f coded_chunk \<Rightarrow> ('g, 'sig) pedersen_proof \<Rightarrow> bool" where
  "pedersen_good lib N m ctx V ch p \<longleftrightarrow> coded_by N m V ch \<and> pedersen_authentic lib ctx V p"

definition pedersen_proofs ::
  "('f::field, 'g, 'sk, 'pk, 'sig) pedersen_lib \<Rightarrow> nat \<Rightarrow> nat \<Rightarrow> ('g, 'pk) pedersen_context \<Rightarrow>
   'f list list \<Rightarrow> 'f coded_chunk list \<Rightarrow> ('g, 'sig) pedersen_proof list \<Rightarrow> bool" where
  "pedersen_proofs lib N m ctx V cs ps \<longleftrightarrow>
     (cs \<noteq> [] \<longrightarrow> ps \<noteq> []) \<and> (\<forall>p \<in> set ps. pedersen_authentic lib ctx V p)"

lemma pedersen_verify_good:
  fixes lib :: "('f::field, 'g::ab_group_add, 'sk, 'pk, 'sig) pedersen_lib"
  assumes st: "pedersen_setting lib N m ctx V" and gd: "pedersen_good lib N m ctx V ch p"
  shows "pedersen_verify lib ctx ch p = Inr (Inr ())"
proof -
  let ?P = "ck_generators (pc_key ctx)"
  from st gd have "g_msm (pl_group lib) ?P (chunk_v (cc_w ch))
      = g_msm (pl_group lib) (map (g_msm (pl_group lib) ?P) V) (cc_b ch)"
    by (intro msm_linear)
       (auto simp: pedersen_setting_def pedersen_good_def coded_by_def originals_def)
  with st gd show ?thesis
    by (auto simp: pedersen_verify_cases pedersen_setting_def pedersen_good_def
        pedersen_authentic_def coded_by_def)
qed

interpretation pedersen: coded_integrity
  "\<lambda>lib N. pedersen_scheme lib" pedersen_setting pedersen_good pedersen_proofs
proof (unfold_locales, goal_cases)
  case (1 lib N m ctx V)
  then show ?case by (simp add: pedersen_setting_def)
next
  case (2 lib N m ctx V ch p)
  then show ?case by (simp add: pedersen_good_def)
next
  case (3 lib N m ctx V ch p)
  then show ?case by (simp add: pedersen_scheme_def pedersen_verify_good)
next
  case (4 lib N m ctx V)
  then show ?case by (simp add: pedersen_proofs_def)
next
  case (5 lib N m ctx V cs ps ch p)
  then show ?case by (auto simp: pedersen_proofs_def pedersen_good_def)
next
  case (6 lib N m ctx V cs ps alphas new)
  then have "ps \<noteq> []" by (simp add: pedersen_proofs_def)
  then have "ps ! 0 \<in> set ps" "0 < length ps" by simp_all
  with 6 show ?case
    by (auto simp: pedersen_scheme_def pedersen_combine_def pedersen_good_def pedersen_proofs_def)
qed

text \<open>
  With an authentic proof, exactly the chunks that its block codes are accepted, and those whose data
  differs from it by a relation between the generators.
\<close>

definition coded_data :: "nat \<Rightarrow> 'f::field list list \<Rightarrow> 'f coded_chunk \<Rightarrow> 'f list" where
  "coded_data m V ch = map (comb ((!) (cc_b ch)) V) [0..<m]"

lemma coded_by_data:
  "coded_by N m V ch \<longleftrightarrow> length (cc_b ch) = N \<and> chunk_v (cc_w ch) = coded_data m V ch"
  by (simp add: coded_by_def coded_data_def list_eq_iff_nth_eq [of "chunk_v (cc_w ch)"] cong: conj_cong)

lemma pedersen_verify_authentic:
  fixes lib :: "('f::field, 'g::ab_group_add, 'sk, 'pk, 'sig) pedersen_lib"
  assumes st: "pedersen_setting lib N m ctx V" and auth: "pedersen_authentic lib ctx V p"
    and len: "length (cc_b ch) = N"
  shows "pedersen_verify lib ctx ch p = Inr (Inr ()) \<longleftrightarrow>
    coded_by N m V ch \<or> length (chunk_v (cc_w ch)) = m \<and>
      relation_among (pl_group lib) (ck_generators (pc_key ctx)) (map2 (-) (chunk_v (cc_w ch)) (coded_data m V ch))"
proof -
  let ?G = "pl_group lib" and ?P = "ck_generators (pc_key ctx)"
  from st have G: "group_ok ?G" and V: "originals N m V" and m: "length ?P = m"
    by (simp_all add: pedersen_setting_def)
  have "g_msm ?G ?P (coded_data m V ch) = g_msm ?G (map (g_msm ?G ?P) V) (cc_b ch)"
    by (rule msm_linear [OF G]) (use V m len in \<open>simp_all add: originals_def coded_data_def\<close>)
  then show ?thesis
    using auth m len msm_collision [OF G, of "chunk_v (cc_w ch)" ?P "coded_data m V ch"]
    by (auto simp: pedersen_verify_cases pedersen_authentic_def coded_by_data coded_data_def)
qed

text \<open>The proposer's proof is authentic for the context it hands out.\<close>

lemma pedersen_sign_block_authentic:
  fixes lib :: "('f::field, 'g::ab_group_add, 'sk, 'pk, 'sig) pedersen_lib"
  assumes "signer_ok (pl_signer lib)" and "originals N (length (ck_generators key)) V"
  shows "\<exists>p. pedersen_sign_block lib sk key V = Inr p \<and>
      pedersen_authentic lib (pedersen_context_of lib sk key) V p"
proof -
  have "mapR (ck_commit (pl_group lib) key) V
      = Inr (map (g_msm (pl_group lib) (ck_generators key)) V)"
    by (rule mapR_pure) (use assms(2) in \<open>auto simp: originals_def ck_commit_def\<close>)
  then show ?thesis
    using assms(1)
    by (simp add: pedersen_sign_block_def pedersen_authentic_def pedersen_context_of_def
        signer_ok_def Let_def)
qed

end
