(* ===== verification/Protocol_Pedersen.thy ===== *)
theory Protocol_Pedersen
  imports Actor_Honest Pedersen
begin

text \<open>
  \<open>crates/node/src/pedersen.rs\<close>: the RLNC + Pedersen protocol of the node, with its wire format. It
  keeps the contract \<open>honest_protocol\<close>.
\<close>

section \<open>The protocol\<close>

record ('f, 'g, 'sk, 'pk, 'sig) pedersen_protocol_state =
  pd_signer :: "'sk option"
  pd_ctx :: "('g, 'pk) pedersen_context"
  pd_m :: nat
  pd_decoder :: "'f block_decoder"
  pd_proofs :: "('g, 'sig) pedersen_proof list"
  pd_byte_len :: nat

definition pedersen_protocol_new ::
  "('f, 'g, 'sk, 'pk, 'sig) pedersen_lib \<Rightarrow> nat \<Rightarrow> nat \<Rightarrow> 'pk \<Rightarrow> 'sk option \<Rightarrow>
   ('f, 'g, 'sk, 'pk, 'sig) pedersen_protocol_state" where
  "pedersen_protocol_new lib N m proposer_pk signer =
     \<lparr>pd_signer = signer,
      pd_ctx = \<lparr>pc_key = ck_canonical (pl_group lib) m, pc_public_key = proposer_pk\<rparr>,
      pd_m = m, pd_decoder = bd_new N, pd_proofs = [], pd_byte_len = 0\<rparr>"

definition pedersen_propose ::
  "('f::field, 'r) scalar_lib \<Rightarrow> ('f, 'g::zero, 'sk, 'pk, 'sig) pedersen_lib \<Rightarrow> nat \<Rightarrow>
   ('f, 'g, 'sk, 'pk, 'sig) pedersen_protocol_state \<Rightarrow> block \<Rightarrow> nat \<Rightarrow> 'r \<Rightarrow>
   ((proposal \<times> ('f, 'g, 'sk, 'pk, 'sig) pedersen_protocol_state) \<times> 'r) run" where
  "pedersen_propose sl lib N self b num_targets rng =
     bindR (encode_chunks (sl_wire sl) (sl_pf sl) (sl_random sl) N (pd_m self) num_targets b rng)
       (\<lambda>((coded_chunks, byte_len), rng').
     bindR (as_chunks (sl_wire sl) (sl_pf sl) N (pd_m self) b) (\<lambda>(original_chunks, _).
       let chunk_refs = map chunk_v original_chunks in
       case pd_signer self of
         None \<Rightarrow> Inl NotProposer
       | Some signer \<Rightarrow>
     bindR (pedersen_sign_block lib signer (pc_key (pd_ctx self)) chunk_refs) (\<lambda>proof.
       let packets = map (\<lambda>chunk. sp_serialize (sl_codec sl) (pedersen_integrity_proof lib)
                            \<lparr>sp_chunk = chunk, sp_proof = proof\<rparr>) coded_chunks in
     bindR (proposer_decoder N original_chunks) (\<lambda>decoder.
       let self' = self\<lparr>pd_decoder := decoder,
                        pd_proofs := replicate (length original_chunks) proof,
                        pd_byte_len := byte_len\<rparr> in
       Inr ((\<lparr>pr_announcement = encode_announcement byte_len, pr_packets = packets\<rparr>, self'), rng')))))"

fun pedersen_ingest ::
  "('f::field, 'r) scalar_lib \<Rightarrow> ('f, 'g::zero, 'sk, 'pk, 'sig) pedersen_lib \<Rightarrow> nat \<Rightarrow>
   ('f, 'g, 'sk, 'pk, 'sig) pedersen_protocol_state \<Rightarrow> channel \<Rightarrow> u64 \<Rightarrow> bytes \<Rightarrow>
   (('f, 'g, 'sk, 'pk, 'sig) pedersen_protocol_state \<times> (err + bool)) run" where
  "pedersen_ingest sl lib N self Announce block_num data =
     (case read_announcement data of
        Inl e \<Rightarrow> Inr (self, Inl e)
      | Inr byte_len \<Rightarrow> Inr (self\<lparr>pd_byte_len := byte_len\<rparr>, Inr True))"
| "pedersen_ingest sl lib N self Data block_num data =
     bindR (sp_deserialize (sl_codec sl) (pedersen_integrity_proof lib) N data (pd_m self)) (\<lambda>r.
       case r of
         Inl e \<Rightarrow> Inr (self, Inl e)
       | Inr packet \<Rightarrow>
           bindR (coded_receive (pedersen_scheme lib) (pd_decoder self) (pd_proofs self) (pd_ctx self)
                    packet)
             (\<lambda>((decoder, proofs), res). Inr (self\<lparr>pd_decoder := decoder, pd_proofs := proofs\<rparr>, res)))"

definition pedersen_is_complete :: "('f, 'g, 'sk, 'pk, 'sig) pedersen_protocol_state \<Rightarrow> bool" where
  "pedersen_is_complete self = bd_is_complete (pd_decoder self)"

definition pedersen_recode ::
  "('f::field, 'r) scalar_lib \<Rightarrow> ('f, 'g::zero, 'sk, 'pk, 'sig) pedersen_lib \<Rightarrow> nat \<Rightarrow>
   ('f, 'g, 'sk, 'pk, 'sig) pedersen_protocol_state \<Rightarrow> nat \<Rightarrow> 'r \<Rightarrow> (bytes list \<times> 'r) run" where
  "pedersen_recode sl lib N self num_targets rng =
     bindR (coded_forward (pedersen_scheme lib) (sl_random sl) N (pd_decoder self) (pd_proofs self)
              num_targets rng)
       (\<lambda>(packets, rng').
          Inr (map (sp_serialize (sl_codec sl) (pedersen_integrity_proof lib)) packets, rng'))"

definition pedersen_protocol_decode ::
  "('f::field, 'r) scalar_lib \<Rightarrow> nat \<Rightarrow> ('f, 'g, 'sk, 'pk, 'sig) pedersen_protocol_state \<Rightarrow>
   (block \<times> ('f, 'g, 'sk, 'pk, 'sig) pedersen_protocol_state) run" where
  "pedersen_protocol_decode sl N self =
     bindR (bd_decode N (pd_decoder self)) (\<lambda>decoded_chunks.
     bindR (from_chunks (sl_wire sl) (sl_pf sl) N decoded_chunks (pd_byte_len self)) (\<lambda>b.
       Inr (b, self)))"

definition pedersen_reset ::
  "('f, 'g, 'sk, 'pk, 'sig) pedersen_protocol_state \<Rightarrow> ('f, 'g, 'sk, 'pk, 'sig) pedersen_protocol_state" where
  "pedersen_reset self =
     self\<lparr>pd_decoder := bd_reset (pd_decoder self), pd_proofs := [], pd_byte_len := 0\<rparr>"

definition pedersen_packet_wire_size ::
  "('f, 'r) scalar_lib \<Rightarrow> ('f, 'g, 'sk, 'pk, 'sig) pedersen_lib \<Rightarrow> nat \<Rightarrow>
   ('f, 'g, 'sk, 'pk, 'sig) pedersen_protocol_state \<Rightarrow> nat" where
  "pedersen_packet_wire_size sl lib N self =
     cd_size (sl_codec sl) * pd_m self + cd_size (sl_codec sl) * N +
     cd_size (pl_gcodec lib) * N + cd_size (pl_scodec lib)"

definition pedersen_protocol ::
  "('f::field, 'r) scalar_lib \<Rightarrow> ('f, 'g::zero, 'sk, 'pk, 'sig) pedersen_lib \<Rightarrow> nat \<Rightarrow>
   (('f, 'g, 'sk, 'pk, 'sig) pedersen_protocol_state, 'r) protocol" where
  "pedersen_protocol sl lib N =
     \<lparr>pt_name = ''Pedersen'',
      pt_forward_condition = UntilDecode,
      pt_propose = pedersen_propose sl lib N,
      pt_ingest = pedersen_ingest sl lib N,
      pt_is_complete = pedersen_is_complete,
      pt_recode = pedersen_recode sl lib N,
      pt_decode = pedersen_protocol_decode sl N,
      pt_reset = pedersen_reset,
      pt_packet_wire_size = pedersen_packet_wire_size sl lib N\<rparr>"

lemma pedersen_propose_without_signer:
  assumes "encode_chunks (sl_wire sl) (sl_pf sl) (sl_random sl) N (pd_m self) k b rng = Inr x"
    and "as_chunks (sl_wire sl) (sl_pf sl) N (pd_m self) b = Inr y" and "pd_signer self = None"
  shows "pedersen_propose sl lib N self b k rng = Inl NotProposer"
  using assms by (simp add: pedersen_propose_def case_prod_beta Let_def)

section \<open>The contract\<close>

definition pedersen_lib_ok :: "('f::field, 'g::ab_group_add, 'sk, 'pk, 'sig) pedersen_lib \<Rightarrow> bool" where
  "pedersen_lib_ok lib \<longleftrightarrow> group_ok (pl_group lib) \<and> signer_ok (pl_signer lib) \<and>
     pedersen_codecs_ok lib \<and> (\<forall>x. encodable (pl_gcodec lib) x) \<and>
     (\<forall>s rest. cd_read (pl_scodec lib) (cd_write (pl_scodec lib) s @ rest) = Inr (s, rest))"

type_synonym ('f, 'g, 'sk, 'pk, 'sig, 'r) pedersen_generics =
  "('f, 'r) scalar_lib \<times> ('f, 'g, 'sk, 'pk, 'sig) pedersen_lib \<times> nat \<times> nat \<times> 'pk"

definition pedersen_fits ::
  "('f::field, 'g::ab_group_add, 'sk, 'pk, 'sig, 'r) pedersen_generics \<Rightarrow> block \<Rightarrow> bool" where
  "pedersen_fits c b \<longleftrightarrow> (case c of (sl, lib, N, m, pk) \<Rightarrow>
     scalar_lib_ok sl \<and> pedersen_lib_ok lib \<and> N \<le> 1024 \<and> block_fits sl N m b \<and>
     length (block_write (sl_wire sl) b) < 2 ^ 64)"

definition pedersen_ctx ::
  "('f::field, 'g::ab_group_add, 'sk, 'pk, 'sig, 'r) pedersen_generics \<Rightarrow> ('g, 'pk) pedersen_context" where
  "pedersen_ctx c = (case c of (sl, lib, N, m, pk) \<Rightarrow>
     \<lparr>pc_key = ck_canonical (pl_group lib) m, pc_public_key = pk\<rparr>)"

definition pedersen_idle ::
  "('f::field, 'g::ab_group_add, 'sk, 'pk, 'sig, 'r) pedersen_generics \<Rightarrow>
   ('f, 'g, 'sk, 'pk, 'sig) pedersen_protocol_state \<Rightarrow> bool" where
  "pedersen_idle c s \<longleftrightarrow> (case c of (sl, lib, N, m, pk) \<Rightarrow>
     pd_ctx s = pedersen_ctx c \<and> pd_m s = m \<and> pd_decoder s = bd_new N \<and> pd_proofs s = [])"

definition pedersen_proposer ::
  "('f::field, 'g::ab_group_add, 'sk, 'pk, 'sig, 'r) pedersen_generics \<Rightarrow>
   ('f, 'g, 'sk, 'pk, 'sig) pedersen_protocol_state \<Rightarrow> bool" where
  "pedersen_proposer c s \<longleftrightarrow> (case c of (sl, lib, N, m, pk) \<Rightarrow>
     \<exists>sk. pd_signer s = Some sk \<and> sg_public_key (pl_signer lib) sk = pk)"

definition pedersen_live ::
  "('f::field, 'g::ab_group_add, 'sk, 'pk, 'sig, 'r) pedersen_generics \<Rightarrow> block \<Rightarrow>
   ('f, 'g, 'sk, 'pk, 'sig) pedersen_protocol_state \<Rightarrow> bool" where
  "pedersen_live c b s \<longleftrightarrow> pedersen_fits c b \<and> (case c of (sl, lib, N, m, pk) \<Rightarrow>
     pd_ctx s = pedersen_ctx c \<and> pd_m s = m \<and>
     pd_byte_len s = length (block_write (sl_wire sl) b) \<and>
     (\<exists>V. chunked sl N m b V \<and>
        node_ok (pedersen_proofs lib N m (pedersen_ctx c) V) N m V (pd_decoder s) (pd_proofs s)))"

definition pedersen_honest_packet ::
  "('f::field, 'g::ab_group_add, 'sk, 'pk, 'sig, 'r) pedersen_generics \<Rightarrow> block \<Rightarrow> bytes \<Rightarrow> bool" where
  "pedersen_honest_packet c b data \<longleftrightarrow> (case c of (sl, lib, N, m, pk) \<Rightarrow>
     \<exists>V p. chunked sl N m b V \<and>
       pedersen_good lib N m (pedersen_ctx c) V (sp_chunk p) (sp_proof p) \<and>
       data = sp_serialize (sl_codec sl) (pedersen_integrity_proof lib) p)"

lemma pedersen_fits_setting:
  assumes "pedersen_fits (sl, lib, N, m, pk) b" "chunked sl N m b V"
  shows "pedersen_setting lib N m (pedersen_ctx (sl, lib, N, m, pk)) V"
  using assms
  by (simp add: pedersen_setting_def pedersen_fits_def pedersen_lib_ok_def pedersen_ctx_def chunked_def)

text \<open>Honest packets survive the wire.\<close>

lemma pedersen_packet_readable:
  assumes ft: "pedersen_fits (sl, lib, N, m, pk) b" and V: "chunked sl N m b V"
    and gd: "pedersen_good lib N m (pedersen_ctx (sl, lib, N, m, pk)) V (sp_chunk p) (sp_proof p)"
  shows "sp_deserialize (sl_codec sl) (pedersen_integrity_proof lib) N
    (sp_serialize (sl_codec sl) (pedersen_integrity_proof lib) p) m = Inr (Inr p)"
proof -
  from ft have sl: "scalar_lib_ok sl" and lib: "pedersen_lib_ok lib" and N: "N \<le> 1024"
    by (simp_all add: pedersen_fits_def)
  from V gd have len: "length (chunk_v (cc_w (sp_chunk p))) = m" "0 < m"
    "length (cc_b (sp_chunk p)) = N" "length (pp_commitments (sp_proof p)) = N"
    by (auto simp: chunked_def originals_def pedersen_good_def coded_by_def pedersen_authentic_def)
  have "proof_codec_ok (pedersen_integrity_proof lib) (sp_proof p)"
    using lib N len(4) by (intro pedersen_proof_roundtrip) (simp_all add: pedersen_lib_ok_def)
  then show ?thesis
    using sp_deserialize_serialize [of "sl_codec sl" p N "pedersen_integrity_proof lib" "[]"] sl len
    by (auto simp: scalar_lib_ok_def packing_ok_def)
qed

lemma pedersen_data_ok:
  assumes lv: "pedersen_live (sl, lib, N, m, pk) b s"
    and pk: "pedersen_honest_packet (sl, lib, N, m, pk) b data"
  shows "\<exists>s' r. pedersen_ingest sl lib N s Data num data = Inr (s', Inr r) \<and>
    pedersen_live (sl, lib, N, m, pk) b s' \<and> (r \<longrightarrow> bd_coded_chunks (pd_decoder s') \<noteq> []) \<and>
    (bd_is_complete (pd_decoder s) \<longrightarrow> bd_is_complete (pd_decoder s') \<and> \<not> r)"
proof -
  let ?ctx = "pedersen_ctx (sl, lib, N, m, pk)"
  from lv obtain V where V: "chunked sl N m b V" and ft: "pedersen_fits (sl, lib, N, m, pk) b"
    and ok: "node_ok (pedersen_proofs lib N m ?ctx V) N m V (pd_decoder s) (pd_proofs s)"
    and s: "pd_ctx s = ?ctx" "pd_m s = m"
    by (auto simp: pedersen_live_def)
  from pk obtain W p where W: "chunked sl N m b W"
    "pedersen_good lib N m ?ctx W (sp_chunk p) (sp_proof p)"
    and data: "data = sp_serialize (sl_codec sl) (pedersen_integrity_proof lib) p"
    by (auto simp: pedersen_honest_packet_def)
  note gd = W(2) [unfolded chunked_unique [OF V W(1)]]
  let ?r = "\<not> bd_is_complete (pd_decoder s) \<and> \<not> bd_span N (pd_decoder s) (cc_b (sp_chunk p))"
  from pedersen.receive_good [OF pedersen_fits_setting [OF ft V] ok gd] obtain d' ps' where
    run: "coded_receive (pedersen_scheme lib) (pd_decoder s) (pd_proofs s) ?ctx p
        = Inr ((d', ps'), Inr ?r)"
    and ok': "node_ok (pedersen_proofs lib N m ?ctx V) N m V d' ps'"
    and cs': "bd_coded_chunks d' = bd_coded_chunks (pd_decoder s) @ (if ?r then [sp_chunk p] else [])"
    and full: "bd_is_complete (pd_decoder s) \<Longrightarrow> bd_is_complete d'" by blast
  let ?s' = "s\<lparr>pd_decoder := d', pd_proofs := ps'\<rparr>"
  have "pedersen_ingest sl lib N s Data num data = Inr (?s', Inr ?r)"
    using run s by (simp add: data pedersen_packet_readable [OF ft V gd])
  moreover have "pedersen_live (sl, lib, N, m, pk) b ?s'"
    using lv V ok' by (auto simp: pedersen_live_def)
  moreover have "?r \<longrightarrow> bd_coded_chunks d' \<noteq> []" using cs' by simp
  ultimately show ?thesis using full by force
qed

text \<open>What a proposal is, given the coded chunks that the encoder returned.\<close>

lemma pedersen_propose_spec:
  assumes id: "pedersen_idle (sl, lib, N, m, pk) s"
    and pr: "pedersen_proposer (sl, lib, N, m, pk) s" and ft: "pedersen_fits (sl, lib, N, m, pk) b"
    and V: "chunked sl N m b V"
    and enc: "encode_chunks (sl_wire sl) (sl_pf sl) (sl_random sl) N m k b rng
        = Inr ((cs, length (block_write (sl_wire sl) b)), rng')"
  obtains p s' where
    "pedersen_propose sl lib N s b k rng
      = Inr ((\<lparr>pr_announcement = encode_announcement (length (block_write (sl_wire sl) b)),
               pr_packets = map (\<lambda>ch. sp_serialize (sl_codec sl) (pedersen_integrity_proof lib)
                 \<lparr>sp_chunk = ch, sp_proof = p\<rparr>) cs\<rparr>, s'), rng')"
    "pedersen_live (sl, lib, N, m, pk) b s'" "pd_signer s' = pd_signer s" "bd_is_complete (pd_decoder s')"
    "pedersen_authentic lib (pedersen_ctx (sl, lib, N, m, pk)) V p"
proof -
  let ?ctx = "pedersen_ctx (sl, lib, N, m, pk)"
  from ft have bf: "block_fits sl N m b" and sg: "signer_ok (pl_signer lib)"
    by (simp_all add: pedersen_fits_def pedersen_lib_ok_def)
  from pr obtain sk where sk: "pd_signer s = Some sk" "sg_public_key (pl_signer lib) sk = pk"
    by (auto simp: pedersen_proposer_def)
  from id have s: "pd_ctx s = ?ctx" "pd_m s = m" by (simp_all add: pedersen_idle_def)
  have orig: "originals N m V" using V by (simp add: chunked_def)
  then have "originals N (length (ck_generators (pc_key ?ctx))) V"
    by (simp add: pedersen_ctx_def)
  moreover have "pedersen_context_of lib sk (pc_key ?ctx) = ?ctx"
    using sk(2) by (simp add: pedersen_context_of_def pedersen_ctx_def)
  ultimately obtain p where p: "pedersen_sign_block lib sk (pc_key ?ctx) V = Inr p"
      "pedersen_authentic lib ?ctx V p"
    using pedersen_sign_block_authentic [OF sg, of N "pc_key ?ctx" V sk] by auto
  from proposer_decoder_complete [OF orig] obtain d where
    d: "proposer_decoder N (map (\<lambda>v. \<lparr>chunk_v = v\<rparr>) V) = Inr d" "honest N m V d"
      "bd_is_complete d" by blast
  have refs: "map (chunk_v \<circ> (\<lambda>v. \<lparr>chunk_v = v\<rparr>)) V = V" by (simp add: comp_def)
  let ?blen = "length (block_write (sl_wire sl) b)"
  let ?s' = "s\<lparr>pd_decoder := d, pd_proofs := replicate (length V) p, pd_byte_len := ?blen\<rparr>"
  have "V \<noteq> []" using orig block_fits_pos [OF bf] by (auto simp: originals_def)
  then have "pedersen_proofs lib N m ?ctx V (bd_coded_chunks d) (replicate (length V) p)"
    using p(2) by (simp add: pedersen_proofs_def)
  then have "pedersen_live (sl, lib, N, m, pk) b ?s'"
    using ft V s d(2) by (auto simp: pedersen_live_def node_ok_def)
  with that [of p ?s'] show thesis
    using V enc p d(1,3) s sk(1) refs by (simp add: pedersen_propose_def chunked_def Let_def)
qed

lemma pedersen_propose_ok:
  assumes id: "pedersen_idle (sl, lib, N, m, pk) s"
    and pr: "pedersen_proposer (sl, lib, N, m, pk) s" and ft: "pedersen_fits (sl, lib, N, m, pk) b"
  shows "\<exists>prop s' rng'. pedersen_propose sl lib N s b k rng = Inr ((prop, s'), rng') \<and>
    pedersen_live (sl, lib, N, m, pk) b s' \<and> pd_signer s' = pd_signer s \<and>
    bd_is_complete (pd_decoder s') \<and>
    pr_announcement prop = encode_announcement (length (block_write (sl_wire sl) b)) \<and>
    length (pr_packets prop) = k \<and>
    (\<forall>p \<in> set (pr_packets prop). pedersen_honest_packet (sl, lib, N, m, pk) b p)"
proof -
  from ft have sl: "packing_ok sl" and bf: "block_fits sl N m b"
    by (simp_all add: pedersen_fits_def scalar_lib_ok_def)
  from chunked_exists [OF sl bf] obtain V where V: "chunked sl N m b V" ..
  from chunked_encode [OF sl bf V] obtain cs rng' where
    enc: "encode_chunks (sl_wire sl) (sl_pf sl) (sl_random sl) N m k b rng
        = Inr ((cs, length (block_write (sl_wire sl) b)), rng')"
    and cs: "length cs = k" "\<forall>c \<in> set cs. coded_by N m V c" by metis
  show ?thesis
  proof (rule pedersen_propose_spec [OF id pr ft V enc])
    fix p s' assume p: "pedersen_propose sl lib N s b k rng
      = Inr ((\<lparr>pr_announcement = encode_announcement (length (block_write (sl_wire sl) b)),
               pr_packets = map (\<lambda>ch. sp_serialize (sl_codec sl) (pedersen_integrity_proof lib)
                 \<lparr>sp_chunk = ch, sp_proof = p\<rparr>) cs\<rparr>, s'), rng')" "pedersen_live (sl, lib, N, m, pk) b s'"
        "pd_signer s' = pd_signer s" "bd_is_complete (pd_decoder s')"
      and au: "pedersen_authentic lib (pedersen_ctx (sl, lib, N, m, pk)) V p"
    have "pedersen_honest_packet (sl, lib, N, m, pk) b (sp_serialize (sl_codec sl)
        (pedersen_integrity_proof lib) \<lparr>sp_chunk = ch, sp_proof = p\<rparr>)" if "ch \<in> set cs" for ch
      using V that cs(2) au unfolding pedersen_honest_packet_def by (force simp: pedersen_good_def)
    with p cs(1) show ?thesis by auto
  qed
qed

lemma pedersen_live_wf:
  "pedersen_live (sl, lib, N, m, pk) b s \<Longrightarrow> bd_wf N (pd_decoder s) \<and> 0 < N"
  by (auto simp: pedersen_live_def node_ok_def honest_def pedersen_fits_def dest: block_fits_pos)

interpretation pedersen_node: honest_protocol
  "\<lambda>(sl, lib, N, m, pk). pedersen_protocol sl lib N" pedersen_fits pedersen_idle pedersen_proposer
  pedersen_live "\<lambda>c s. bd_coded_chunks (pd_decoder s) \<noteq> []"
  "\<lambda>(sl, lib, N, m, pk) b a. a = encode_announcement (length (block_write (sl_wire sl) b))"
  pedersen_honest_packet
proof (unfold_locales, goal_cases)
  case (1 c s b k rng)
  obtain sl lib N m pk where c: "c = (sl, lib, N, m, pk)" by (cases c)
  from pedersen_propose_ok [OF 1 [unfolded c], of k rng] obtain pr s' rng' where
    "pedersen_propose sl lib N s b k rng = Inr ((pr, s'), rng')" "pedersen_live c b s'"
    "pd_signer s' = pd_signer s" "bd_is_complete (pd_decoder s')"
    "pr_announcement pr = encode_announcement (length (block_write (sl_wire sl) b))"
    "length (pr_packets pr) = k" "\<forall>p \<in> set (pr_packets pr). pedersen_honest_packet c b p"
    unfolding c by metis
  with 1(2) show ?case
    by (simp add: c pedersen_protocol_def pedersen_is_complete_def pedersen_proposer_def)
next
  case (2 c s b a)
  obtain sl lib N m pk where c: "c = (sl, lib, N, m, pk)" by (cases c)
  let ?blen = "length (block_write (sl_wire sl) b)"
  from 2(2) have sl: "scalar_lib_ok sl" and bf: "block_fits sl N m b" and "?blen < 2 ^ 64"
    by (simp_all add: c pedersen_fits_def)
  from chunked_exists [OF scalar_lib_packing [OF sl] bf] obtain V where V: "chunked sl N m b V" ..
  have "pedersen_ingest sl lib N s Announce (bl_number b) a = Inr (s\<lparr>pd_byte_len := ?blen\<rparr>, Inr True)"
    using 2(3) read_encode_announcement [of ?blen "[]"] \<open>?blen < 2 ^ 64\<close> by (simp add: c)
  moreover have "pedersen_live c b (s\<lparr>pd_byte_len := ?blen\<rparr>)"
    using 2(1,2) V pedersen.node_ok_new [OF pedersen_fits_setting [OF 2(2) [unfolded c] V]]
    by (auto simp: c pedersen_live_def pedersen_idle_def)
  ultimately show ?case by (simp add: c pedersen_protocol_def)
next
  case (3 c b s p)
  obtain sl lib N m pk where c: "c = (sl, lib, N, m, pk)" by (cases c)
  from pedersen_data_ok [OF 3 [unfolded c], of "bl_number b"] obtain s' r where
    "pedersen_ingest sl lib N s Data (bl_number b) p = Inr (s', Inr r)" "pedersen_live c b s'"
    "r \<longrightarrow> bd_coded_chunks (pd_decoder s') \<noteq> []"
    "bd_is_complete (pd_decoder s) \<longrightarrow> bd_is_complete (pd_decoder s') \<and> \<not> r"
    unfolding c by metis
  then show ?case by (simp add: c pedersen_protocol_def pedersen_is_complete_def)
next
  case (4 c b s k rng)
  obtain sl lib N m pk where c: "c = (sl, lib, N, m, pk)" by (cases c)
  from 4(1) obtain V where V: "chunked sl N m b V" and ft: "pedersen_fits (sl, lib, N, m, pk) b"
    and ok: "node_ok (pedersen_proofs lib N m (pedersen_ctx c) V) N m V (pd_decoder s) (pd_proofs s)"
    by (auto simp: c pedersen_live_def)
  from pedersen.forward_good [OF pedersen_fits_setting [OF ft V] ok [unfolded c] 4(2),
      of "sl_random sl" k rng] V
  show ?case
    by (fastforce simp: c pedersen_protocol_def pedersen_recode_def pedersen_honest_packet_def)
next
  case (5 c b s)
  obtain sl lib N m pk where c: "c = (sl, lib, N, m, pk)" by (cases c)
  from 5(1) obtain V where V: "chunked sl N m b V" and ft: "pedersen_fits (sl, lib, N, m, pk) b"
    and ok: "node_ok (pedersen_proofs lib N m (pedersen_ctx c) V) N m V (pd_decoder s) (pd_proofs s)"
    and bl: "pd_byte_len s = length (block_write (sl_wire sl) b)"
    and cs: "pd_ctx s = pedersen_ctx c" "pd_m s = m"
    by (auto simp: c pedersen_live_def)
  from ft have sl: "scalar_lib_ok sl" and bf: "block_fits sl N m b" by (simp_all add: pedersen_fits_def)
  from 5(2) have "bd_is_complete (pd_decoder s)"
    by (simp add: c pedersen_protocol_def pedersen_is_complete_def)
  from pedersen.decode_good [OF pedersen_fits_setting [OF ft V] ok [unfolded c] this]
    chunked_decode [OF scalar_lib_packing [OF sl] bf V] bl cs bd_reset_new [of N "pd_decoder s"]
    pedersen_live_wf [OF 5(1) [unfolded c]]
  show ?case
    by (simp add: c pedersen_protocol_def pedersen_protocol_decode_def pedersen_idle_def
        pedersen_reset_def)
next
  case (6 c b s)
  obtain sl lib N m pk where c: "c = (sl, lib, N, m, pk)" by (cases c)
  from 6 pedersen_live_wf [OF 6 [unfolded c]] bd_reset_new [of N "pd_decoder s"] show ?case
    by (simp add: c pedersen_protocol_def pedersen_idle_def pedersen_reset_def pedersen_live_def)
next
  case (7 c s)
  then show ?case
    by (auto simp: pedersen_protocol_def pedersen_proposer_def pedersen_reset_def)
qed

end
