(* ===== verification/Topology.thy ===== *)
theory Topology
  imports Prelude "HOL-Library.Multiset"
begin

text \<open>
  \<open>crates/sim/src/topology.rs\<close>: the random mesh of the simulator. \<open>shuffle\<close> and
  \<open>partial_shuffle\<close> of the \<open>rand\<close> crate are parameters that give the slice after the call; what is
  proved of the mesh needs only that they permute it. The mesh has the degree the documentation
  promises, no self-loops, no duplicates, and every node is reachable from node 0.
\<close>

section \<open>Model\<close>

record topology =
  tp_neighbors :: "nat list list"
  tp_degree :: nat

definition push_at :: "'a list list \<Rightarrow> nat \<Rightarrow> 'a \<Rightarrow> 'a list list run" where
  "push_at xss i x = bindR (idx xss i) (\<lambda>xs. upd xss i (xs @ [x]))"

definition hamiltonian_path :: "nat list \<Rightarrow> nat list list \<Rightarrow> nat list list run" where
  "hamiltonian_path perm neighbors =
     bindR (bindR (idx perm 0) (push_at neighbors 0)) (\<lambda>neighbors.
       foldR (\<lambda>i neighbors. bindR (idx perm i) (\<lambda>a. bindR (idx perm (i + 1)) (push_at neighbors a)))
         [0..<length perm - 1] neighbors)"

text \<open>
  The second phase. With \<open>degree < peers.len()\<close> the subtraction overflows: a panic in debug builds,
  and in release builds the wrapped count makes the slice below panic.
\<close>

fun fill_peers ::
  "(nat list \<Rightarrow> nat \<Rightarrow> 'r \<Rightarrow> nat list \<times> 'r) \<Rightarrow> nat \<Rightarrow> nat \<Rightarrow> nat \<Rightarrow> nat list list \<Rightarrow> 'r \<Rightarrow>
   (nat list list \<times> 'r) run" where
  "fill_peers partial_shuffle num_nodes degree node [] rng = Inr ([], rng)"
| "fill_peers partial_shuffle num_nodes degree node (peers # rest) rng =
     (if degree < length peers then Inl ArithmeticOverflow
      else let remaining = degree - length peers in
        bindR (if remaining = 0 then Inr (peers, rng)
               else let candidates = filter (\<lambda>p. p \<notin> set peers) ([0..<node] @ [node + 1..<num_nodes]);
                        (shuffled, rng') = partial_shuffle candidates remaining rng in
                    assertR (remaining \<le> length shuffled) SliceOutOfBounds
                      (Inr (peers @ take remaining shuffled, rng')))
          (\<lambda>(peers', rng1).
             bindR (fill_peers partial_shuffle num_nodes degree (node + 1) rest rng1)
               (\<lambda>(rest', rng2). Inr (peers' # rest', rng2))))"

definition random_mesh ::
  "(nat list \<Rightarrow> 'r \<Rightarrow> nat list \<times> 'r) \<Rightarrow> (nat list \<Rightarrow> nat \<Rightarrow> 'r \<Rightarrow> nat list \<times> 'r) \<Rightarrow> nat \<Rightarrow> nat \<Rightarrow> 'r \<Rightarrow>
   (topology \<times> 'r) run" where
  "random_mesh shuffle partial_shuffle num_nodes degree rng =
     assertR (degree < num_nodes) DegreeTooLarge
       (let neighbors = replicate num_nodes [] in
        bindR (if num_nodes > 1
               then let (perm, rng') = shuffle [1..<num_nodes] rng in
                    bindR (hamiltonian_path perm neighbors) (\<lambda>neighbors. Inr (neighbors, rng'))
               else Inr (neighbors, rng))
          (\<lambda>(neighbors, rng1).
             bindR (fill_peers partial_shuffle num_nodes degree 0 neighbors rng1)
               (\<lambda>(neighbors, rng2). Inr (\<lparr>tp_neighbors = neighbors, tp_degree = degree\<rparr>, rng2))))"

definition tp_num_nodes :: "topology \<Rightarrow> nat" where
  "tp_num_nodes t = length (tp_neighbors t)"

definition tp_neighbors_of :: "topology \<Rightarrow> nat \<Rightarrow> nat list run" where
  "tp_neighbors_of t i = idx (tp_neighbors t) i"

section \<open>The path\<close>

text \<open>The pushes of the first phase, along the path \<open>q = 0 # perm\<close>.\<close>

lemma hamiltonian_path_along:
  assumes "perm \<noteq> []"
  shows "hamiltonian_path perm nb
    = foldR (\<lambda>i nb. push_at nb ((0 # perm) ! i) (perm ! i)) [0..<length perm] nb"
proof -
  let ?f = "\<lambda>i nb. push_at nb ((0 # perm) ! i) (perm ! i)"
  have "[0..<length perm] = 0 # map Suc [0..<length perm - 1]"
    using assms by (simp add: map_Suc_upt upt_conv_Cons)
  moreover have "foldR (\<lambda>i nb. bindR (idx perm i) (\<lambda>a. bindR (idx perm (i + 1)) (push_at nb a)))
        [0..<length perm - 1] nb'
      = foldR (\<lambda>i. ?f (Suc i)) [0..<length perm - 1] nb'" for nb'
    using assms by (intro foldR_cong) (auto simp: nth_Cons')
  moreover have "foldR g (map Suc xs) = foldR (\<lambda>i. g (Suc i)) xs" for g :: "nat \<Rightarrow> nat list list \<Rightarrow> nat list list run" and xs
    by (rule ext) (rule foldR_map)
  ultimately show ?thesis using assms by (simp add: hamiltonian_path_def)
qed

lemma path_pushes:
  assumes q: "distinct q" "set q = {..<n}" and k: "k < length q"
  shows "\<exists>nb. foldR (\<lambda>i nb. push_at nb (q ! i) (q ! Suc i)) [0..<k] (replicate n []) = Inr nb \<and>
    length nb = n \<and> (\<forall>i < length q. nb ! (q ! i) = (if i < k then [q ! Suc i] else []))"
  using k
proof (induction k)
  case 0
  have "q ! i < n" if "i < length q" for i using q(2) nth_mem [OF that] by simp
  then show ?case by simp
next
  case (Suc k)
  then obtain nb where nb: "foldR (\<lambda>i nb. push_at nb (q ! i) (q ! Suc i)) [0..<k] (replicate n []) = Inr nb"
    "length nb = n" "\<forall>i < length q. nb ! (q ! i) = (if i < k then [q ! Suc i] else [])" by auto
  have qk: "q ! k < n" using q(2) nth_mem [of k q] Suc.prems by simp
  let ?nb = "nb[q ! k := [q ! Suc k]]"
  have "push_at nb (q ! k) (q ! Suc k) = Inr ?nb"
    using nb(2,3) qk Suc.prems by (simp add: push_at_def)
  moreover have "?nb ! (q ! i) = (if i < Suc k then [q ! Suc i] else [])" if "i < length q" for i
    using that nb(2,3) qk Suc.prems q(1)
    by (cases "i = k") (auto simp: nth_list_update nth_eq_iff_index_eq)
  ultimately show ?case using nb by (simp add: foldR_append)
qed

section \<open>Filling\<close>

definition peers_ok :: "nat \<Rightarrow> nat \<Rightarrow> nat list \<Rightarrow> bool" where
  "peers_ok n node ps \<longleftrightarrow> distinct ps \<and> node \<notin> set ps \<and> set ps \<subseteq> {..<n}"

lemma length_candidates:
  assumes "node < n" "peers_ok n node ps"
  shows "length (filter (\<lambda>p. p \<notin> set ps) ([0..<node] @ [node + 1..<n])) = n - 1 - length ps"
proof -
  let ?cs = "filter (\<lambda>p. p \<notin> set ps) ([0..<node] @ [node + 1..<n])"
  have "distinct ?cs" by auto
  moreover have "set ?cs = {..<n} - ({node} \<union> set ps)" using assms(1) by auto
  moreover have "card ({..<n} - ({node} \<union> set ps)) = n - card ({node} \<union> set ps)"
    using assms by (subst card_Diff_subset) (auto simp: peers_ok_def)
  moreover have "card ({node} \<union> set ps) = 1 + length ps"
    using assms(2) by (simp add: peers_ok_def distinct_card)
  ultimately show ?thesis using distinct_card [of ?cs] by simp
qed

lemma fill_peers_spec:
  assumes perm: "\<And>xs k r. mset (fst (partial_shuffle xs k r)) = mset xs"
    and deg: "degree < n" and len: "node + length nbs = n"
    and ok: "\<forall>i < length nbs. peers_ok n (node + i) (nbs ! i) \<and> length (nbs ! i) \<le> degree"
  shows "\<exists>nbs' rng'. fill_peers partial_shuffle n degree node nbs rng = Inr (nbs', rng') \<and>
    length nbs' = length nbs \<and>
    (\<forall>i < length nbs. peers_ok n (node + i) (nbs' ! i) \<and> length (nbs' ! i) = degree \<and>
       set (nbs ! i) \<subseteq> set (nbs' ! i))"
  using len ok
proof (induction nbs arbitrary: node rng)
  case (Cons ps nbs)
  have node: "node < n" and pok: "peers_ok n node ps" and psl: "length ps \<le> degree"
    using Cons.prems by auto
  define remaining where "remaining = degree - length ps"
  define cs where "cs = filter (\<lambda>p. p \<notin> set ps) ([0..<node] @ [node + 1..<n])"
  let ?sh = "fst (partial_shuffle cs remaining rng)"
  let ?body = "if remaining = 0 then Inr (ps, rng)
       else assertR (remaining \<le> length ?sh) SliceOutOfBounds
              (Inr (ps @ take remaining ?sh, snd (partial_shuffle cs remaining rng)))"
  note ms = perm [of cs remaining rng]
  have "distinct cs" by (auto simp: cs_def)
  then have sh: "distinct ?sh" "set ?sh = set cs" "length ?sh = length cs"
    using mset_eq_imp_distinct_iff [OF ms] mset_eq_setD [OF ms] mset_eq_length [OF ms] by simp_all
  have "length cs = n - 1 - length ps"
    unfolding cs_def by (rule length_candidates [OF node pok])
  then have fits: "remaining \<le> length ?sh" using deg sh(3) by (simp add: remaining_def)
  have sub: "set (take remaining ?sh) \<subseteq> {..<n} - ({node} \<union> set ps)"
    using set_take_subset [of remaining ?sh] node unfolding sh(2) by (auto simp: cs_def)
  obtain ps' rng1 where body: "?body = Inr (ps', rng1)" and ps': "peers_ok n node ps'"
      "length ps' = degree" "set ps \<subseteq> set ps'"
  proof (cases "remaining = 0")
    case True
    then show thesis using pok psl by (intro that [of ps rng]) (simp_all add: remaining_def)
  next
    case False
    have "peers_ok n node (ps @ take remaining ?sh)"
      using pok sh(1) sub by (auto simp: peers_ok_def)
    then show thesis
      using fits False psl
      by (intro that [of "ps @ take remaining ?sh" "snd (partial_shuffle cs remaining rng)"])
         (simp_all add: remaining_def)
  qed
  have "\<forall>i < length nbs. peers_ok n (node + 1 + i) (nbs ! i) \<and> length (nbs ! i) \<le> degree"
    using Cons.prems(2) by force
  with Cons.IH [of "node + 1" rng1] Cons.prems(1) obtain nbs' rng2 where
    rest: "fill_peers partial_shuffle n degree (node + 1) nbs rng1 = Inr (nbs', rng2)"
      "length nbs' = length nbs"
      "\<forall>i < length nbs. peers_ok n (node + 1 + i) (nbs' ! i) \<and> length (nbs' ! i) = degree \<and>
         set (nbs ! i) \<subseteq> set (nbs' ! i)" by auto
  have "fill_peers partial_shuffle n degree node (ps # nbs) rng
      = bindR ?body (\<lambda>(peers', rng1).
          bindR (fill_peers partial_shuffle n degree (node + 1) nbs rng1)
            (\<lambda>(rest', rng2). Inr (peers' # rest', rng2)))"
    using psl by (simp add: remaining_def cs_def Let_def case_prod_beta)
  then have "fill_peers partial_shuffle n degree node (ps # nbs) rng = Inr (ps' # nbs', rng2)"
    unfolding body using rest(1) by simp
  moreover have "peers_ok n (node + i) ((ps' # nbs') ! i) \<and> length ((ps' # nbs') ! i) = degree \<and>
      set ((ps # nbs) ! i) \<subseteq> set ((ps' # nbs') ! i)" if "i < length (ps # nbs)" for i
    using that ps' rest(2,3) by (cases i) auto
  ultimately show ?case using rest(2) by auto
qed simp

section \<open>The mesh\<close>

text \<open>The links of the mesh.\<close>

definition mesh_edges :: "topology \<Rightarrow> (nat \<times> nat) set" where
  "mesh_edges t = {(a, b). a < tp_num_nodes t \<and> b \<in> set (tp_neighbors t ! a)}"

text \<open>The number of hops from the proposer.\<close>

definition hops :: "topology \<Rightarrow> nat \<Rightarrow> nat" where
  "hops t j = (LEAST k. (0, j) \<in> mesh_edges t ^^ k)"

lemma hops_le: "(0, j) \<in> mesh_edges t ^^ k \<Longrightarrow> hops t j \<le> k"
  unfolding hops_def by (rule Least_le)

lemma hops_path: "(0, j) \<in> (mesh_edges t)\<^sup>* \<Longrightarrow> (0, j) \<in> mesh_edges t ^^ hops t j"
  unfolding hops_def by (auto dest!: rtrancl_imp_relpow intro: LeastI)

lemma hops_0 [simp]: "hops t 0 = 0"
  using hops_le [where t = t and j = 0 and k = 0] by simp

lemma path_reachable:
  assumes "\<And>i. Suc i < length q \<Longrightarrow> (q ! i, q ! Suc i) \<in> E" and "i < length q"
  shows "(q ! 0, q ! i) \<in> E\<^sup>*"
  using assms(2)
proof (induction i)
  case (Suc i)
  then have "(q ! 0, q ! i) \<in> E\<^sup>*" "(q ! i, q ! Suc i) \<in> E" using assms(1) by simp_all
  then show ?case by (rule rtrancl_into_rtrancl)
qed simp

lemma random_mesh_ok:
  assumes sh: "\<And>xs r. mset (fst (shuffle xs r)) = mset xs"
    and psh: "\<And>xs k r. mset (fst (partial_shuffle xs k r)) = mset xs"
    and deg: "degree < n" "0 < degree \<or> n = 1"
  shows "\<exists>t rng'. random_mesh shuffle partial_shuffle n degree rng = Inr (t, rng') \<and>
    tp_num_nodes t = n \<and> tp_degree t = degree \<and>
    (\<forall>i < n. peers_ok n i (tp_neighbors t ! i) \<and> length (tp_neighbors t ! i) = degree) \<and>
    (\<forall>j < n. (0, j) \<in> (mesh_edges t)\<^sup>*)"
proof -
  define q where "q = (if n > 1 then 0 # fst (shuffle [1..<n] rng) else [0])"
  note ms = sh [of "[1..<n]" rng]
  have q: "distinct q" "set q = {..<n}" "length q = n"
    using mset_eq_imp_distinct_iff [OF ms] mset_eq_setD [OF ms] mset_eq_length [OF ms] deg(1)
    by (auto simp: q_def)
  let ?rng1 = "if n > 1 then snd (shuffle [1..<n] rng) else rng"
  let ?first = "if n > 1 then let (perm, rng') = shuffle [1..<n] rng in
      bindR (hamiltonian_path perm (replicate n [])) (\<lambda>nb. Inr (nb, rng'))
    else Inr (replicate n [], rng)"
  have "n - 1 < length q" using q(3) deg(1) by simp
  from path_pushes [OF q(1,2) this] obtain nb where
    nb: "foldR (\<lambda>i nb. push_at nb (q ! i) (q ! Suc i)) [0..<n - 1] (replicate n []) = Inr nb"
      "length nb = n" "\<forall>i < length q. nb ! (q ! i) = (if i < n - 1 then [q ! Suc i] else [])" by blast
  have first: "?first = Inr (nb, ?rng1)"
  proof (cases "n > 1")
    case True
    let ?perm = "fst (shuffle [1..<n] rng)"
    have "length ?perm = n - 1" using mset_eq_length [OF ms] by simp
    then have "hamiltonian_path ?perm (replicate n []) = Inr nb"
      using nb(1) True by (subst hamiltonian_path_along) (auto simp: q_def)
    with True show ?thesis by (simp add: case_prod_beta Let_def)
  qed (use nb(1) deg(1) in simp)
  have at: "\<exists>k < n. q ! k = i" if "i < n" for i
    using that q by (metis in_set_conv_nth lessThan_iff)
  have nb_ok: "peers_ok n (0 + i) (nb ! i) \<and> length (nb ! i) \<le> degree" if i: "i < length nb" for i
  proof -
    obtain k where k: "k < n" "q ! k = i" using at i nb(2) by auto
    have "q ! Suc k \<noteq> i \<and> q ! Suc k < n" if "k < n - 1"
      using that k q nth_eq_iff_index_eq [OF q(1), of "Suc k" k] nth_mem [of "Suc k" q] by auto
    with nb(3) k q(3) deg show ?thesis by (auto simp: peers_ok_def)
  qed
  obtain nb' rng2 where
    fill: "fill_peers partial_shuffle n degree 0 nb ?rng1 = Inr (nb', rng2)" "length nb' = n"
      "\<forall>i < n. peers_ok n i (nb' ! i) \<and> length (nb' ! i) = degree \<and> set (nb ! i) \<subseteq> set (nb' ! i)"
    using fill_peers_spec [where partial_shuffle = partial_shuffle and node = 0 and nbs = nb
        and rng = ?rng1, OF psh deg(1)] nb(2) nb_ok by auto
  let ?t = "\<lparr>tp_neighbors = nb', tp_degree = degree\<rparr>"
  have "random_mesh shuffle partial_shuffle n degree rng
      = bindR ?first (\<lambda>(nb, rng1). bindR (fill_peers partial_shuffle n degree 0 nb rng1)
          (\<lambda>(nb, rng2). Inr (\<lparr>tp_neighbors = nb, tp_degree = degree\<rparr>, rng2)))"
    using deg(1) by (simp add: random_mesh_def Let_def)
  then have "random_mesh shuffle partial_shuffle n degree rng = Inr (?t, rng2)"
    unfolding first using fill(1) by simp
  moreover have "(0, j) \<in> (mesh_edges ?t)\<^sup>*" if "j < n" for j
  proof -
    have edge: "(q ! i, q ! Suc i) \<in> mesh_edges ?t" if "Suc i < length q" for i
    proof -
      have "q ! i < n" using nth_mem [of i q] that q(2) by simp
      moreover have "nb ! (q ! i) = [q ! Suc i]" using nb(3) that q(3) by simp
      ultimately show ?thesis using fill(2,3) by (force simp: mesh_edges_def tp_num_nodes_def)
    qed
    obtain k where "k < n" "q ! k = j" using at [OF \<open>j < n\<close>] by blast
    with path_reachable [of q, OF edge, of k] q(3) show ?thesis by (simp add: q_def split: if_splits)
  qed
  ultimately show ?thesis using fill(2,3) by (auto simp: tp_num_nodes_def)
qed

text \<open>Degree 0 on more than one node always aborts: node 0 already has a peer on the path.\<close>

lemma random_mesh_degree_zero:
  assumes sh: "\<And>xs r. mset (fst (shuffle xs r)) = mset xs" and n: "1 < n"
  shows "random_mesh shuffle partial_shuffle n 0 rng = Inl ArithmeticOverflow"
proof -
  let ?perm = "fst (shuffle [1..<n] rng)" and ?q = "0 # fst (shuffle [1..<n] rng)"
  note ms = sh [of "[1..<n]" rng]
  have q: "distinct ?q" "set ?q = {..<n}" and len: "length ?perm = n - 1"
    using mset_eq_imp_distinct_iff [OF ms] mset_eq_setD [OF ms] mset_eq_length [OF ms] n by auto
  have "n - 1 < length ?q" using len n by simp
  from path_pushes [OF q this] obtain nb where
    nb: "foldR (\<lambda>i nb. push_at nb (?q ! i) (?q ! Suc i)) [0..<n - 1] (replicate n []) = Inr nb"
      "length nb = n" "\<forall>i < length ?q. nb ! (?q ! i) = (if i < n - 1 then [?q ! Suc i] else [])"
    by blast
  have "?perm \<noteq> []" using len n by auto
  then have path: "hamiltonian_path ?perm (replicate n []) = Inr nb"
    using nb(1) len by (simp add: hamiltonian_path_along)
  have "nb ! 0 \<noteq> []" using spec [OF nb(3), of 0] n len by simp
  then obtain ps rest where "nb = ps # rest" "ps \<noteq> []" using nb(2) n by (cases nb) auto
  then show ?thesis using path n by (simp add: random_mesh_def Let_def case_prod_beta)
qed

end
