(* ===== verification/Floats.thy ===== *)
theory Floats
  imports Prelude "HOL-Library.Log_Nat"
begin

text \<open>
  The floating-point arithmetic the simulation uses. An \<open>f64\<close> is the rational number it stands for;
  every operation is the exact one followed by \<open>f64_round\<close>, rounding to 53 significant bits, nearest,
  ties to even (IEEE 754). Infinities, NaNs, negative zero and subnormal numbers are not modelled:
  the sources divide by zero only where noted, and no value they compute from \<open>u64\<close> counters comes near
  the ends of the exponent range. \<open>Duration\<close> is its number of nanoseconds.
\<close>

type_synonym f64 = rat

section \<open>Rounding\<close>

definition round_half_even :: "rat \<Rightarrow> int" where
  "round_half_even x =
     (let f = \<lfloor>x\<rfloor>; d = x - of_int f in
      if d < 1 / 2 \<or> (d = 1 / 2 \<and> even f) then f else f + 1)"

text \<open>The exponent of the leading bit of a positive number.\<close>

definition f64_exponent :: "rat \<Rightarrow> int" where
  "f64_exponent x =
     (let (p, q) = quotient_of x; k = int (floorlog 2 (nat p)) - int (floorlog 2 (nat q)) in
      if 2 powi k \<le> x then k else k - 1)"

definition f64_round :: "rat \<Rightarrow> f64" where
  "f64_round x =
     (if x = 0 then 0
      else let ulp = 2 powi (f64_exponent \<bar>x\<bar> - 52) in of_int (round_half_even (x / ulp)) * ulp)"

definition f64_of_nat :: "nat \<Rightarrow> f64" where
  "f64_of_nat n = f64_round (of_nat n)"

definition f64_div :: "f64 \<Rightarrow> f64 \<Rightarrow> f64" where
  "f64_div a b = f64_round (a / b)"

definition f64_mult :: "f64 \<Rightarrow> f64 \<Rightarrow> f64" where
  "f64_mult a b = f64_round (a * b)"

definition f64_add :: "f64 \<Rightarrow> f64 \<Rightarrow> f64" where
  "f64_add a b = f64_round (a + b)"

text \<open>\<open>as usize\<close> truncates, and saturates at the ends.\<close>

definition f64_to_usize :: "f64 \<Rightarrow> nat" where
  "f64_to_usize x = min (nat \<lfloor>x\<rfloor>) (2 ^ 64 - 1)"

section \<open>Durations\<close>

definition nanos_per_sec :: nat where
  "nanos_per_sec = 1000000000"

text \<open>
  \<open>Duration::from_secs_f64\<close> rounds the exact value to nanoseconds, ties to even, and panics on
  negative values and on those of \<open>2 ^ 64\<close> seconds or more.
\<close>

definition duration_from_secs_f64 :: "f64 \<Rightarrow> nat run" where
  "duration_from_secs_f64 x =
     (let nanos = round_half_even (x * of_nat nanos_per_sec) in
      if x < 0 \<or> int (2 ^ 64 * nanos_per_sec) \<le> nanos then Inl BadDuration else Inr (nat nanos))"

text \<open>\<open>Duration + Duration\<close> panics on overflow of the seconds.\<close>

definition duration_add :: "nat \<Rightarrow> nat \<Rightarrow> nat run" where
  "duration_add a b = assertR (a + b < 2 ^ 64 * nanos_per_sec) DurationOverflow (Inr (a + b))"

definition duration_as_secs_f64 :: "nat \<Rightarrow> f64" where
  "duration_as_secs_f64 d =
     f64_add (f64_of_nat (d div nanos_per_sec))
       (f64_div (f64_of_nat (d mod nanos_per_sec)) (f64_of_nat nanos_per_sec))"

section \<open>Facts\<close>

lemma round_half_even_bounds: "\<lfloor>x\<rfloor> \<le> round_half_even x" "round_half_even x \<le> \<lceil>x\<rceil>"
proof -
  show "\<lfloor>x\<rfloor> \<le> round_half_even x" by (simp add: round_half_even_def Let_def)
  show "round_half_even x \<le> \<lceil>x\<rceil>"
  proof (cases "x = of_int \<lfloor>x\<rfloor>")
    case True
    then have "round_half_even x = \<lfloor>x\<rfloor>" by (simp add: round_half_even_def Let_def)
    then show ?thesis by (metis True ceiling_of_int order_refl)
  next
    case False
    then have "\<lceil>x\<rceil> = \<lfloor>x\<rfloor> + 1" by (simp add: ceiling_altdef)
    then show ?thesis by (simp add: round_half_even_def Let_def)
  qed
qed

lemma round_half_even_of_int [simp]: "round_half_even (of_int k) = k"
  by (simp add: round_half_even_def)

lemma round_half_even_of_nat [simp]: "round_half_even (of_nat k) = int k"
  using round_half_even_of_int [of "int k"] by simp

lemma round_half_even_numeral [simp]: "round_half_even (numeral k) = numeral k"
  using round_half_even_of_int [of "numeral k"] by simp

lemma round_half_even_0 [simp]: "round_half_even 0 = 0"
  using round_half_even_of_int [of 0] by simp

lemma round_half_even_mono: "x \<le> y \<Longrightarrow> round_half_even x \<le> round_half_even y"
proof (cases "\<lfloor>x\<rfloor> = \<lfloor>y\<rfloor>")
  case True
  then show "x \<le> y \<Longrightarrow> ?thesis" by (auto simp: round_half_even_def Let_def)
next
  case False
  assume "x \<le> y"
  with False have "\<lfloor>x\<rfloor> + 1 \<le> \<lfloor>y\<rfloor>" by (meson floor_mono le_less zless_imp_add1_zle)
  moreover have "\<lceil>x\<rceil> \<le> \<lfloor>x\<rfloor> + 1" by (simp add: ceiling_altdef)
  ultimately show ?thesis using round_half_even_bounds(2) [of x] round_half_even_bounds(1) [of y] by linarith
qed

lemma round_half_even_le: "x \<le> of_int k \<Longrightarrow> round_half_even x \<le> k"
  using round_half_even_mono [of x "of_int k"] by simp

lemma le_round_half_even: "of_int k \<le> x \<Longrightarrow> k \<le> round_half_even x"
  using round_half_even_mono [of "of_int k" x] by simp

lemma powi_2_pos [simp]: "0 < (2 :: rat) powi k"
  by simp

lemma powi_2_less: "(2 :: rat) powi a < 2 powi b \<Longrightarrow> a < b"
  using power_int_increasing [of b a "2 :: rat"] by (cases "a < b") simp_all

lemma floorlog_bounds_rat:
  assumes "0 < p"
  shows "2 powi (int (floorlog 2 (nat p)) - 1) \<le> (of_int p :: rat)"
    "(of_int p :: rat) < 2 powi int (floorlog 2 (nat p))"
proof -
  define a where "a = floorlog 2 (nat p)"
  have a: "2 ^ (a - 1) \<le> nat p" "nat p < 2 ^ a" using floorlog_bounds [of "nat p" 2] assms by (simp_all add: a_def)
  have pos: "0 < a" using assms floorlog_eq_zero_iff [of 2 "nat p"] by (auto simp: a_def)
  have p: "(of_int p :: rat) = of_nat (nat p)" using assms by simp
  have "(of_nat (2 ^ (a - 1)) :: rat) \<le> of_nat (nat p)" using a(1) by (rule of_nat_mono)
  moreover have "int a - 1 = int (a - 1)" using pos by simp
  ultimately show "2 powi (int (floorlog 2 (nat p)) - 1) \<le> (of_int p :: rat)"
    unfolding a_def [symmetric] p by (simp only: power_int_of_nat of_nat_power of_nat_numeral)
  have "(of_nat (nat p) :: rat) < of_nat (2 ^ a)" using a(2) by (simp only: of_nat_less_iff)
  then show "(of_int p :: rat) < 2 powi int (floorlog 2 (nat p))"
    unfolding a_def [symmetric] p by (simp only: power_int_of_nat of_nat_power of_nat_numeral)
qed

lemma f64_exponent_bounds:
  assumes "0 < x"
  shows "2 powi f64_exponent x \<le> x" "x < 2 powi (f64_exponent x + 1)"
proof -
  obtain p q where pq: "quotient_of x = (p, q)" by fastforce
  have x: "x = of_int p / of_int q" "0 < q" using pq by (simp_all add: quotient_of_div quotient_of_denom_pos)
  with assms have p: "0 < p" by (simp add: zero_less_divide_iff)
  define a b where "a = int (floorlog 2 (nat p))" and "b = int (floorlog 2 (nat q))"
  note P = floorlog_bounds_rat [OF p, folded a_def] and Q = floorlog_bounds_rat [OF x(2), folded b_def]
  have e: "f64_exponent x = (if 2 powi (a - b) \<le> x then a - b else a - b - 1)"
    by (simp add: f64_exponent_def pq a_def b_def Let_def)
  have q: "0 < (of_int q :: rat)" using x(2) by simp
  have "(2 :: rat) powi (a - b - 1) * of_int q \<le> 2 powi (a - b - 1) * 2 powi b"
    using Q(2) by (intro mult_left_mono) simp_all
  also have "\<dots> = 2 powi (a - 1)" by (simp add: power_int_add [symmetric])
  also have "\<dots> \<le> of_int p" by (rule P(1))
  finally have lo: "2 powi (a - b - 1) \<le> x" unfolding x(1) using q by (simp add: pos_le_divide_eq)
  have "(of_int p :: rat) < 2 powi (a - b + 1) * 2 powi (b - 1)" using P(2) by (simp add: power_int_add [symmetric])
  also have "\<dots> \<le> 2 powi (a - b + 1) * of_int q" using Q(1) by (intro mult_left_mono) simp_all
  finally have hi: "x < 2 powi (a - b + 1)" unfolding x(1) using q by (simp add: pos_divide_less_eq)
  show "2 powi f64_exponent x \<le> x" using lo by (simp add: e)
  show "x < 2 powi (f64_exponent x + 1)" using hi by (simp add: e)
qed

lemma f64_exponent_mono:
  assumes "0 < x" "x \<le> y"
  shows "f64_exponent x \<le> f64_exponent y"
proof (rule ccontr)
  assume "\<not> ?thesis"
  then have "(2 :: rat) powi (f64_exponent y + 1) \<le> 2 powi f64_exponent x"
    by (intro power_int_increasing) simp_all
  with f64_exponent_bounds(1) [OF assms(1)] f64_exponent_bounds(2) [of y] assms show False by simp
qed

text \<open>Rounding a positive number keeps it in its binade; it is monotone and exact on small integers.\<close>

lemma f64_round_pos:
  assumes "0 < x"
  defines "ulp \<equiv> (2 :: rat) powi (f64_exponent x - 52)"
  shows "f64_round x = of_int (round_half_even (x / ulp)) * ulp" "0 < ulp"
  using assms by (simp_all add: f64_round_def Let_def)

lemma f64_round_binade:
  assumes "0 < x"
  shows "2 powi f64_exponent x \<le> f64_round x" "f64_round x \<le> 2 powi (f64_exponent x + 1)"
proof -
  define ulp where "ulp = (2 :: rat) powi (f64_exponent x - 52)"
  note r = f64_round_pos [OF assms, folded ulp_def]
  have lo: "of_int (2 ^ 52) * ulp = 2 powi f64_exponent x"
    and hi: "of_int (2 ^ 53) * ulp = 2 powi (f64_exponent x + 1)"
    unfolding ulp_def by (simp_all add: power_int_diff power_int_add power_int_add_1)
  have "of_int (2 ^ 52) \<le> x / ulp" "x / ulp \<le> of_int (2 ^ 53)"
    using f64_exponent_bounds [OF assms] r(2) by (simp_all only: pos_le_divide_eq pos_divide_le_eq lo hi)
  then have "2 ^ 52 \<le> round_half_even (x / ulp)" "round_half_even (x / ulp) \<le> 2 ^ 53"
    using le_round_half_even round_half_even_le by blast+
  then have "of_int (2 ^ 52) \<le> (of_int (round_half_even (x / ulp)) :: rat)"
    "(of_int (round_half_even (x / ulp)) :: rat) \<le> of_int (2 ^ 53)" by (simp_all only: of_int_le_iff)
  with r(2) show "2 powi f64_exponent x \<le> f64_round x" "f64_round x \<le> 2 powi (f64_exponent x + 1)"
    unfolding r(1) lo [symmetric] hi [symmetric] by (simp_all only: mult_right_mono less_imp_le)
qed

lemma f64_round_0 [simp]: "f64_round 0 = 0"
  by (simp add: f64_round_def)

lemma f64_round_nonneg [simp]: "0 \<le> x \<Longrightarrow> 0 \<le> f64_round x"
  using f64_round_binade(1) [of x] power_int_nonneg_exp by (cases "x = 0") (auto intro: order_trans [rotated])

lemma f64_round_positive: "0 < x \<Longrightarrow> 0 < f64_round x"
  using f64_round_binade(1) [of x] powi_2_pos [of "f64_exponent x"] by linarith

lemma f64_round_negative:
  assumes "x < 0"
  shows "f64_round x < 0"
proof -
  define ulp where "ulp = (2 :: rat) powi (f64_exponent (- x) - 52)"
  have u: "0 < ulp" by (simp add: ulp_def)
  have "ulp \<le> 2 powi f64_exponent (- x)" by (simp add: ulp_def power_int_increasing)
  also have "\<dots> \<le> - x" using f64_exponent_bounds(1) [of "- x"] assms by simp
  finally have "x / ulp \<le> of_int (- 1)" using u by (simp add: pos_divide_le_eq)
  then have "round_half_even (x / ulp) \<le> round_half_even (of_int (- 1))" by (rule round_half_even_mono)
  then have "round_half_even (x / ulp) < 0" by (simp only: round_half_even_of_int)
  then show ?thesis using assms u by (simp add: f64_round_def Let_def mult_neg_pos flip: ulp_def)
qed

lemma f64_round_mono:
  assumes "0 \<le> x" "x \<le> y"
  shows "f64_round x \<le> f64_round y"
proof (cases "x = 0")
  case True
  then show ?thesis using assms by simp
next
  case False
  with assms have pos: "0 < x" "0 < y" by simp_all
  show ?thesis
  proof (cases "f64_exponent x = f64_exponent y")
    case True
    have "x / 2 powi (f64_exponent y - 52) \<le> y / 2 powi (f64_exponent y - 52)"
      using assms(2) by (simp add: divide_right_mono)
    then show ?thesis unfolding f64_round_pos(1) [OF pos(1)] f64_round_pos(1) [OF pos(2)] True
      by (intro mult_right_mono) (simp_all add: round_half_even_mono)
  next
    case False
    with f64_exponent_mono [OF pos(1) assms(2)] have "f64_exponent x + 1 \<le> f64_exponent y" by simp
    then have "(2 :: rat) powi (f64_exponent x + 1) \<le> 2 powi f64_exponent y"
      by (intro power_int_increasing) simp_all
    with f64_round_binade(2) [OF pos(1)] f64_round_binade(1) [OF pos(2)] show ?thesis by linarith
  qed
qed

lemma f64_round_of_nat [simp]:
  assumes "n < 2 ^ 53"
  shows "f64_round (of_nat n) = of_nat n"
proof (cases "n = 0")
  case False
  let ?x = "of_nat n :: rat"
  define e where "e = f64_exponent ?x"
  have pos: "0 < ?x" using False by simp
  have "(of_nat n :: rat) < of_nat (2 ^ 53)" using assms by (simp only: of_nat_less_iff)
  then have "(2 :: rat) powi e < 2 powi 53"
    using f64_exponent_bounds(1) [OF pos] by (simp add: e_def)
  then have "e < 53" by (rule powi_2_less)
  define k where "k = nat (52 - e)"
  have k: "e - 52 = - int k" using \<open>e < 53\<close> by (simp add: k_def)
  have "(2 :: rat) powi (e - 52) = inverse (2 ^ k)"
    unfolding k power_int_minus power_int_of_nat ..
  then have "?x / 2 powi (e - 52) = of_int (int n * 2 ^ k)" "2 ^ k * (2 :: rat) powi (e - 52) = 1"
    by (simp_all add: divide_inverse)
  then show ?thesis
    unfolding f64_round_pos(1) [OF pos] e_def [symmetric]
    by (simp only: round_half_even_of_int) simp
qed simp

lemma f64_exponent_unique:
  assumes "2 powi e \<le> x" "x < 2 powi (e + 1)"
  shows "f64_exponent x = e"
proof -
  have x: "0 < x" using assms(1) less_le_trans [OF powi_2_pos] by blast
  note b = f64_exponent_bounds [OF x]
  have "(2 :: rat) powi f64_exponent x < 2 powi (e + 1)" using b(1) assms(2) by (rule le_less_trans)
  then have "f64_exponent x < e + 1" by (rule powi_2_less)
  moreover have "(2 :: rat) powi e < 2 powi (f64_exponent x + 1)" using assms(1) b(2) by (rule le_less_trans)
  then have "e < f64_exponent x + 1" by (rule powi_2_less)
  ultimately show ?thesis by simp
qed

lemma f64_round_half [simp]: "f64_round (1 / 2) = 1 / 2"
proof -
  have e: "f64_exponent (1 / 2) = - 1" by (rule f64_exponent_unique) (simp_all add: power_int_minus)
  have "(1 / 2 :: rat) / 2 powi (- 1 - 52) = of_int (2 ^ 52)"
    using power_int_minus [of "2 :: rat" 53] by simp
  then show ?thesis
    using f64_round_pos(1) [of "1 / 2"] power_int_minus [of "2 :: rat" 53] by (simp only: e) simp
qed

lemma f64_round_halve: "0 \<le> x \<Longrightarrow> f64_round (x / 2) = f64_round x / 2"
proof (cases "x = 0")
  case False
  assume "0 \<le> x"
  with False have x: "0 < x" "0 < x / 2" by simp_all
  have e: "f64_exponent (x / 2) = f64_exponent x - 1"
    using f64_exponent_bounds [OF x(1)] by (intro f64_exponent_unique) (simp_all add: power_int_diff power_int_add_1)
  have u: "(2 :: rat) powi (f64_exponent x - 1 - 52) = 2 powi (f64_exponent x - 52) / 2"
    by (simp add: power_int_diff)
  show ?thesis unfolding f64_round_pos(1) [OF x(1)] f64_round_pos(1) [OF x(2)] e u by simp
qed simp

lemma f64_to_usize_half: "k < 2 ^ 53 \<Longrightarrow> f64_to_usize (of_nat k / 2) = k div 2"
  using floor_divide_of_nat_eq [of k 2, where 'a = rat] by (simp add: f64_to_usize_def)

lemma f64_of_nat_small [simp]: "n < 2 ^ 53 \<Longrightarrow> f64_of_nat n = of_nat n"
  by (simp add: f64_of_nat_def)

lemma f64_of_nat_nonneg [simp]: "0 \<le> f64_of_nat n"
  by (simp add: f64_of_nat_def)

lemma f64_of_nat_mono: "a \<le> b \<Longrightarrow> f64_of_nat a \<le> f64_of_nat b"
  by (simp add: f64_of_nat_def f64_round_mono)

lemma f64_mult_mono: "0 \<le> a \<Longrightarrow> 0 \<le> b \<Longrightarrow> b \<le> c \<Longrightarrow> f64_mult a b \<le> f64_mult a c"
  by (simp add: f64_mult_def f64_round_mono mult_left_mono)

lemma f64_to_usize_mono: "a \<le> b \<Longrightarrow> f64_to_usize a \<le> f64_to_usize b"
  unfolding f64_to_usize_def by (intro min.mono nat_mono floor_mono) simp_all

lemma duration_from_secs_of_nat:
  assumes "k < 2 ^ 64"
  shows "duration_from_secs_f64 (of_nat k) = Inr (k * nanos_per_sec)"
proof -
  have "round_half_even (of_nat k * of_nat nanos_per_sec) = int (k * nanos_per_sec)"
    using round_half_even_of_nat [of "k * nanos_per_sec"] by (simp only: of_nat_mult)
  moreover have "\<not> 2 ^ 64 * nanos_per_sec \<le> k * nanos_per_sec"
    using assms by (simp add: nanos_per_sec_def)
  ultimately show ?thesis
    unfolding duration_from_secs_f64_def Let_def
    by (simp only: of_nat_le_iff nat_int of_nat_less_0_iff simp_thms if_False)
qed

lemma duration_from_secs_negative: "x < 0 \<Longrightarrow> duration_from_secs_f64 x = Inl BadDuration"
  by (simp add: duration_from_secs_f64_def Let_def)

lemma f64_div_mono: "0 \<le> a \<Longrightarrow> a \<le> b \<Longrightarrow> 0 \<le> c \<Longrightarrow> f64_div a c \<le> f64_div b c"
  by (simp add: f64_div_def f64_round_mono divide_right_mono)

lemma duration_from_secs_mono:
  assumes "0 \<le> x" "x \<le> y" "duration_from_secs_f64 y = Inr D"
  shows "\<exists>d \<le> D. duration_from_secs_f64 x = Inr d"
proof -
  let ?f = "\<lambda>x. round_half_even (x * of_nat nanos_per_sec)"
  have "x * of_nat nanos_per_sec \<le> y * of_nat nanos_per_sec"
    using assms(2) by (intro mult_right_mono) simp_all
  then have "?f x \<le> ?f y" by (rule round_half_even_mono)
  then show ?thesis using assms
    by (auto simp: duration_from_secs_f64_def Let_def split: if_splits)
qed

text \<open>Rounding concrete numbers.\<close>

lemma round_half_even_unique:
  assumes "2 * \<bar>x - of_int k\<bar> < 1"
  shows "round_half_even x = k"
proof -
  have f: "\<lfloor>x\<rfloor> = (if of_int k \<le> x then k else k - 1)"
    using assms by (auto simp: floor_eq_iff abs_if split: if_splits)
  show ?thesis unfolding round_half_even_def Let_def f using assms by (auto simp: abs_if split: if_splits)
qed

lemma f64_round_numeral [simp]: "numeral k < (2 ^ 53 :: nat) \<Longrightarrow> f64_round (numeral k) = numeral k"
  using f64_round_of_nat [of "numeral k"] by simp

end
