(* ===== verification/Engine.thy ===== *)
theory Engine
  imports Strategy_Contract Topology Floats
begin

text \<open>
  \<open>crates/sim/src/engine.rs\<close> and \<open>strategy.rs\<close>: the discrete-event simulation of one block over a
  mesh, for any strategy; \<open>compute_m\<close> of \<open>crates/sim/src/config.rs\<close>.

  Times are nanoseconds. \<open>BinaryHeap::pop\<close> gives some event of least time; which of several it
  is, is library code, so \<open>pop\<close> is a parameter. The traffic counters are \<open>u64\<close> words. The loop may not
  end for an arbitrary strategy: it is a partial function.
\<close>

section \<open>Model\<close>

record 'p sim_event =
  ev_time :: nat
  ev_to :: nat
  ev_packet :: 'p

record ('self, 's, 'p, 'r) mechanism =
  mc_num_nodes :: nat
  mc_mesh_degree :: nat
  mc_hop_latency :: nat
  mc_bandwidth :: f64
  mc_strategy :: "('self, 's, 'p, 'r) strategy"
  mc_self :: 'self

record 'r sim_lib =
  lb_shuffle :: "nat list \<Rightarrow> 'r \<Rightarrow> nat list \<times> 'r"
  lb_partial_shuffle :: "nat list \<Rightarrow> nat \<Rightarrow> 'r \<Rightarrow> nat list \<times> 'r"

record ('s, 'p, 'r) sim_state =
  ss_states :: "'s list"
  ss_upload :: "u64 list"
  ss_download :: "u64 list"
  ss_decode_times :: "nat option list"
  ss_has_forwarded :: "bool list"
  ss_total_packets :: u64
  ss_useful_packets :: u64
  ss_redundant_packets :: u64
  ss_queue :: "'p sim_event list"
  ss_rng :: 'r

definition add_at :: "u64 list \<Rightarrow> nat \<Rightarrow> u64 \<Rightarrow> u64 list run" where
  "add_at xs i k = bindR (idx xs i) (\<lambda>x. upd xs i (x + k))"

text \<open>A bandwidth of zero makes the quotient infinite or not a number, which \<open>from_secs_f64\<close> refuses.\<close>

definition transmission_delay :: "nat \<Rightarrow> nat \<Rightarrow> f64 \<Rightarrow> nat run" where
  "transmission_delay hop_latency packet_bytes bandwidth =
     assertR (bandwidth \<noteq> 0) BadDuration
       (let serialization_secs = f64_div (f64_of_nat packet_bytes) bandwidth in
        bindR (duration_from_secs_f64 serialization_secs) (duration_add hop_latency))"

definition percentile_idx :: "nat \<Rightarrow> f64 \<Rightarrow> nat" where
  "percentile_idx len pct =
     (if len = 0 then 0
      else let idx = f64_to_usize (f64_mult (f64_of_nat (len - 1)) pct) in min idx (len - 1))"

lemma transmission_delay_unit:
  assumes "k < 2 ^ 53" "hop + k * nanos_per_sec < 2 ^ 64 * nanos_per_sec"
  shows "transmission_delay hop k 1 = Inr (hop + k * nanos_per_sec)"
  using assms by (simp add: transmission_delay_def f64_div_def duration_from_secs_of_nat duration_add_def)

lemma transmission_delay_mono:
  assumes "transmission_delay hop K bandwidth = Inr D" "0 \<le> bandwidth" "k \<le> K"
  shows "\<exists>d \<le> D. transmission_delay hop k bandwidth = Inr d"
proof -
  let ?secs = "\<lambda>k. f64_div (f64_of_nat k) bandwidth"
  from assms(1) obtain D0 where D0: "duration_from_secs_f64 (?secs K) = Inr D0" "duration_add hop D0 = Inr D"
    and bw: "bandwidth \<noteq> 0"
    by (auto simp: transmission_delay_def Let_def bindR_eq_Inr assertR_eq_Inr)
  have "0 \<le> ?secs k" "?secs k \<le> ?secs K"
    using assms(2,3) by (auto simp: f64_div_def intro: f64_div_mono [unfolded f64_div_def] f64_of_nat_mono)
  from duration_from_secs_mono [OF this D0(1)] obtain d0 where
    "d0 \<le> D0" "duration_from_secs_f64 (?secs k) = Inr d0" by blast
  with D0(2) bw show ?thesis
    by (auto simp: transmission_delay_def Let_def duration_add_def assertR_eq_Inr intro!: exI [of _ "hop + d0"])
qed

lemma percentile_idx_mono:
  assumes "0 \<le> p" "p \<le> q"
  shows "percentile_idx len p \<le> percentile_idx len q"
proof -
  have "f64_to_usize (f64_mult (f64_of_nat (len - 1)) p) \<le> f64_to_usize (f64_mult (f64_of_nat (len - 1)) q)"
    using assms by (intro f64_to_usize_mono f64_mult_mono) simp_all
  then show ?thesis by (simp add: percentile_idx_def Let_def min.coboundedI1)
qed

lemma percentile_idx_less: "0 < len \<Longrightarrow> percentile_idx len p < len"
  by (auto simp: percentile_idx_def Let_def min_def)

lemma percentile_idx_half:
  assumes "len \<le> 2 ^ 53"
  shows "percentile_idx len (1 / 2) = (len - 1) div 2"
proof (cases "len = 0")
  case False
  with assms have "len - 1 < 2 ^ 53" by simp
  then have "f64_to_usize (f64_mult (f64_of_nat (len - 1)) (1 / 2)) = (len - 1) div 2"
    by (simp add: f64_mult_def f64_round_halve f64_to_usize_half)
  then show ?thesis using False by (simp add: percentile_idx_def Let_def)
qed (simp add: percentile_idx_def)

text \<open>One transmission from \<open>src\<close> at time \<open>now\<close>: the body of both send loops.\<close>

definition transmit ::
  "('self, 's, 'p, 'r) mechanism \<Rightarrow> 'self \<Rightarrow> nat \<Rightarrow> nat \<Rightarrow> nat \<times> 'p \<Rightarrow> ('s, 'p, 'r) sim_state \<Rightarrow>
   ('s, 'p, 'r) sim_state run" where
  "transmit mc self src now pp st =
     (case pp of (peer, packet) \<Rightarrow>
       let pkt_size = st_packet_size (mc_strategy mc) self packet in
       bindR (transmission_delay (mc_hop_latency mc) pkt_size (mc_bandwidth mc)) (\<lambda>delay.
       bindR (duration_add now delay) (\<lambda>arrival.
       bindR (add_at (ss_upload st) src (of_nat pkt_size)) (\<lambda>upload.
       bindR (add_at (ss_download st) peer (of_nat pkt_size)) (\<lambda>download.
         Inr (st\<lparr>ss_upload := upload, ss_download := download,
                 ss_total_packets := ss_total_packets st + 1,
                 ss_queue := \<lparr>ev_time = arrival, ev_to = peer, ev_packet = packet\<rparr> # ss_queue st\<rparr>))))))"

definition sim_should_forward :: "forward_condition \<Rightarrow> bool \<Rightarrow> bool \<Rightarrow> bool \<Rightarrow> bool" where
  "sim_should_forward cond decodable rank_increased forwarded =
     (case cond of
        AfterDecode \<Rightarrow> decodable
      | OneShot \<Rightarrow> rank_increased \<and> \<not> forwarded
      | UntilDecode \<Rightarrow> rank_increased)"

definition forward_step ::
  "('self, 's, 'p, 'r) mechanism \<Rightarrow> 'self \<Rightarrow> topology \<Rightarrow> nat \<Rightarrow> nat \<Rightarrow> 's \<Rightarrow> ('s, 'p, 'r) sim_state \<Rightarrow>
   ('s, 'p, 'r) sim_state run" where
  "forward_step mc self topo dest now s st =
     bindR (upd (ss_has_forwarded st) dest True) (\<lambda>forwarded.
     bindR (tp_neighbors_of topo dest) (\<lambda>peers.
     bindR (st_forward (mc_strategy mc) self s (length peers) (ss_rng st)) (\<lambda>(packets, rng).
       foldR (transmit mc self dest now) (zip peers packets)
         (st\<lparr>ss_has_forwarded := forwarded, ss_rng := rng\<rparr>))))"

definition handle_event ::
  "('self, 's, 'p, 'r) mechanism \<Rightarrow> 'self \<Rightarrow> topology \<Rightarrow> 'p sim_event \<Rightarrow> ('s, 'p, 'r) sim_state \<Rightarrow>
   ('s, 'p, 'r) sim_state run" where
  "handle_event mc self topo ev st =
     (let dest = ev_to ev in
      bindR (idx (ss_decode_times st) dest) (\<lambda>decoded.
      if decoded \<noteq> None then Inr st
      else bindR (idx (ss_states st) dest) (\<lambda>s.
           bindR (st_receive (mc_strategy mc) self s (ev_packet ev)) (\<lambda>(s', result).
             let st = st\<lparr>ss_states := (ss_states st)[dest := s']\<rparr> in
             case result of
               Inl e \<Rightarrow> Inr (st\<lparr>ss_redundant_packets := ss_redundant_packets st + 1\<rparr>)
             | Inr rank_increased \<Rightarrow>
                 let st = (if rank_increased
                           then st\<lparr>ss_useful_packets := ss_useful_packets st + 1\<rparr>
                           else st\<lparr>ss_redundant_packets := ss_redundant_packets st + 1\<rparr>);
                     decodable = st_can_decode (mc_strategy mc) self s' in
                 bindR (idx (ss_has_forwarded st) dest) (\<lambda>forwarded.
                 bindR (if sim_should_forward (st_forward_condition (mc_strategy mc)) decodable
                             rank_increased forwarded
                        then forward_step mc self topo dest (ev_time ev) s' st else Inr st) (\<lambda>st.
                   if decodable
                   then bindR (upd (ss_decode_times st) dest (Some (ev_time ev))) (\<lambda>times.
                          Inr (st\<lparr>ss_decode_times := times\<rparr>))
                   else Inr st))))))"

partial_function (option) event_loop ::
  "('p sim_event list \<Rightarrow> 'p sim_event \<times> 'p sim_event list) \<Rightarrow> ('self, 's, 'p, 'r) mechanism \<Rightarrow> 'self \<Rightarrow>
   topology \<Rightarrow> ('s, 'p, 'r) sim_state \<Rightarrow> ('s, 'p, 'r) sim_state run option" where
  "event_loop pop mc self topo st =
     (if ss_queue st = [] then Some (Inr st)
      else let (ev, queue) = pop (ss_queue st) in
        case handle_event mc self topo ev (st\<lparr>ss_queue := queue\<rparr>) of
          Inl e \<Rightarrow> Some (Inl e)
        | Inr st' \<Rightarrow> event_loop pop mc self topo st')"

definition sim_start ::
  "'r sim_lib \<Rightarrow> ('self, 's, 'p, 'r) mechanism \<Rightarrow> block \<Rightarrow> 'r \<Rightarrow>
   ('self \<times> topology \<times> nat \<times> ('s, 'p, 'r) sim_state) run" where
  "sim_start lb mc b rng =
     (let n = mc_num_nodes mc in
      assertR (0 < n) NoNodes
       (bindR (random_mesh (lb_shuffle lb) (lb_partial_shuffle lb) n (mc_mesh_degree mc) rng)
          (\<lambda>(topo, rng1).
        bindR (tp_neighbors_of topo 0) (\<lambda>proposer_neighbors.
        bindR (st_init_proposer (mc_strategy mc) (mc_self mc) b (length proposer_neighbors) rng1)
          (\<lambda>((self, proposer_state, proposer_packets, byte_len), rng2).
        bindR (mapR (\<lambda>_. st_init_receiver (mc_strategy mc) self) [0..<n - 1]) (\<lambda>receivers.
          let st = \<lparr>ss_states = proposer_state # receivers, ss_upload = replicate n 0,
                    ss_download = replicate n 0, ss_decode_times = (replicate n None)[0 := Some 0],
                    ss_has_forwarded = replicate n False, ss_total_packets = 0,
                    ss_useful_packets = 0, ss_redundant_packets = 0, ss_queue = [], ss_rng = rng2\<rparr> in
          bindR (foldR (transmit mc self 0 0) (zip proposer_neighbors proposer_packets) st)
            (\<lambda>st. Inr (self, topo, byte_len, st))))))))"

record sim_metrics =
  sm_strategy :: string
  sm_num_nodes :: nat
  sm_mesh_degree :: nat
  sm_block_size :: nat
  sm_total_bytes_sent :: u64
  sm_useful_bytes :: u64
  sm_redundancy_ratio :: f64
  sm_per_node_upload :: "u64 list"
  sm_per_node_download :: "u64 list"
  sm_mean_upload :: f64
  sm_max_upload :: u64
  sm_decode_times :: "nat option list"
  sm_nodes_decoded :: nat
  sm_propagation_time :: nat
  sm_p50_time :: nat
  sm_p99_time :: nat
  sm_total_packets :: u64
  sm_useful_packets :: u64
  sm_redundant_packets :: u64

text \<open>\<open>sorted_times.get(i).copied().unwrap_or(Duration::ZERO)\<close>.\<close>

definition time_at :: "nat list \<Rightarrow> nat \<Rightarrow> nat" where
  "time_at ts i = (if i < length ts then ts ! i else 0)"

definition sim_metrics_of ::
  "('self, 's, 'p, 'r) mechanism \<Rightarrow> nat \<Rightarrow> ('s, 'p, 'r) sim_state \<Rightarrow> sim_metrics" where
  "sim_metrics_of mc byte_len st =
     (let n = mc_num_nodes mc;
          nodes_decoded = length (filter (\<lambda>t. t \<noteq> None) (ss_decode_times st));
          total_bytes_sent = sum_list (ss_upload st);
          useful_bytes = of_nat byte_len * of_nat nodes_decoded;
          redundancy_ratio = (if useful_bytes > 0
            then f64_div (f64_of_nat (unat total_bytes_sent)) (f64_of_nat (unat useful_bytes)) else 0);
          mean_upload = f64_div (f64_of_nat (unat total_bytes_sent)) (f64_of_nat n);
          sorted_times = sort (map the (filter (\<lambda>t. t \<noteq> None) (ss_decode_times st))) in
      \<lparr>sm_strategy = st_name (mc_strategy mc), sm_num_nodes = n,
       sm_mesh_degree = mc_mesh_degree mc, sm_block_size = byte_len,
       sm_total_bytes_sent = total_bytes_sent, sm_useful_bytes = useful_bytes,
       sm_redundancy_ratio = redundancy_ratio,
       sm_per_node_upload = ss_upload st, sm_per_node_download = ss_download st,
       sm_mean_upload = mean_upload, sm_max_upload = fold max (ss_upload st) 0,
       sm_decode_times = ss_decode_times st, sm_nodes_decoded = nodes_decoded,
       sm_propagation_time = (if sorted_times = [] then 0 else last sorted_times),
       sm_p50_time = time_at sorted_times (percentile_idx (length sorted_times) (1 / 2)),
       sm_p99_time = time_at sorted_times (percentile_idx (length sorted_times) (f64_round (99 / 100))),
       sm_total_packets = ss_total_packets st, sm_useful_packets = ss_useful_packets st,
       sm_redundant_packets = ss_redundant_packets st\<rparr>)"

definition sim_run ::
  "'r sim_lib \<Rightarrow> ('p sim_event list \<Rightarrow> 'p sim_event \<times> 'p sim_event list) \<Rightarrow>
   ('self, 's, 'p, 'r) mechanism \<Rightarrow> block \<Rightarrow> 'r \<Rightarrow> sim_metrics run option" where
  "sim_run lb pop mc b rng =
     (case sim_start lb mc b rng of
        Inl e \<Rightarrow> Some (Inl e)
      | Inr (self, topo, byte_len, st) \<Rightarrow>
          (case event_loop pop mc self topo st of
             None \<Rightarrow> None
           | Some (Inl e) \<Rightarrow> Some (Inl e)
           | Some (Inr st') \<Rightarrow> Some (Inr (sim_metrics_of mc byte_len st'))))"

definition block_header_bytes :: nat where
  "block_header_bytes = 100"

text \<open>\<open>SimConfig::compute_m\<close>; the sum and the product of configured \<open>usize\<close> values wrap.\<close>

definition sim_compute_m :: "nat \<Rightarrow> nat \<Rightarrow> nat run" where
  "sim_compute_m block_size n =
     (let estimated_encoded = (block_size + block_header_bytes) mod 2 ^ 64; d = 31 * n mod 2 ^ 64 in
      if d = 0 then Inl ArithmeticOverflow else Inr ((estimated_encoded + d - 1) div d))"

text \<open>What the code relies on of \<open>BinaryHeap\<close> over \<open>Reverse\<close>.\<close>

definition pop_ok :: "('p sim_event list \<Rightarrow> 'p sim_event \<times> 'p sim_event list) \<Rightarrow> bool" where
  "pop_ok pop \<longleftrightarrow> (\<forall>q. q \<noteq> [] \<longrightarrow> mset q = add_mset (fst (pop q)) (mset (snd (pop q))) \<and>
     (\<forall>e \<in> set q. ev_time (fst (pop q)) \<le> ev_time e))"

end
