(* ===== verification/Engine_Facts.thy ===== *)
theory Engine_Facts
  imports Engine
begin

text \<open>
  What holds of a simulation run: every byte sent is a byte received; with a strategy that keeps the
  contract \<open>honest_strategy\<close> the run ends, nobody panics and every decoded node holds the proposer's
  block; with the baseline every node is reached.
\<close>

section \<open>Traffic\<close>

definition balanced :: "('s, 'p, 'r) sim_state \<Rightarrow> bool" where
  "balanced st \<longleftrightarrow> sum_list (ss_upload st) = sum_list (ss_download st)"

lemma sum_list_add_at:
  fixes xs :: "'a::comm_monoid_add list"
  shows "i < length xs \<Longrightarrow> sum_list (xs[i := xs ! i + k]) = sum_list xs + k"
proof (induction xs arbitrary: i)
  case (Cons x xs)
  then show ?case by (cases i) (simp_all add: ac_simps)
qed simp

lemma add_at_sum: "add_at xs i k = Inr ys \<Longrightarrow> sum_list ys = sum_list xs + k \<and> length ys = length xs"
  by (auto simp: add_at_def idx_def upd_def bindR_eq_Inr sum_list_add_at split: if_splits)

lemma transmit_balanced:
  assumes "transmit mc self src now pp st = Inr st'" "balanced st"
  shows "balanced st'"
  using assms by (auto simp: transmit_def balanced_def Let_def bindR_eq_Inr split: prod.splits
      dest!: add_at_sum)

lemma forward_step_balanced:
  assumes "forward_step mc self topo dest now s st = Inr st'" "balanced st"
  shows "balanced st'"
proof -
  from assms(1) obtain fw peers packets rng where
    "foldR (transmit mc self dest now) (zip peers packets)
       (st\<lparr>ss_has_forwarded := fw, ss_rng := rng\<rparr>) = Inr st'"
    by (auto simp: forward_step_def bindR_eq_Inr)
  then show ?thesis
    by (rule foldR_inv) (use assms(2) transmit_balanced in \<open>auto simp: balanced_def\<close>)
qed

lemma handle_event_balanced:
  assumes run: "handle_event mc self topo ev st = Inr st'" and bal: "balanced st"
  shows "balanced st'"
proof -
  from run obtain decoded where d: "idx (ss_decode_times st) (ev_to ev) = Inr decoded"
    by (auto simp: handle_event_def bindR_eq_Inr Let_def)
  show ?thesis
  proof (cases decoded)
    case None
    with run d obtain s s' result where
      "idx (ss_states st) (ev_to ev) = Inr s"
      and rcv: "st_receive (mc_strategy mc) self s (ev_packet ev) = Inr (s', result)"
      by (auto simp: handle_event_def bindR_eq_Inr Let_def)
    then show ?thesis
      using run d None bal
      by (cases result)
         (auto simp: handle_event_def Let_def bindR_eq_Inr balanced_def split: if_splits
           dest!: forward_step_balanced)
  qed (use run d bal in \<open>simp add: handle_event_def Let_def\<close>)
qed

lemma sim_start_balanced:
  assumes "sim_start lb mc b rng = Inr (self, topo, byte_len, st)"
  shows "balanced st"
proof -
  let ?n = "mc_num_nodes mc"
  from assms obtain peers packets states rng' where
    run: "foldR (transmit mc self 0 0) (zip peers packets)
      \<lparr>ss_states = states, ss_upload = replicate ?n 0, ss_download = replicate ?n 0,
       ss_decode_times = (replicate ?n None)[0 := Some 0], ss_has_forwarded = replicate ?n False,
       ss_total_packets = 0, ss_useful_packets = 0, ss_redundant_packets = 0, ss_queue = [],
       ss_rng = rng'\<rparr> = Inr st"
    unfolding sim_start_def Let_def bindR_eq_Inr assertR_eq_Inr
    by (auto simp: bindR_eq_Inr)
  show ?thesis
    by (rule foldR_inv [OF run]) (auto simp: balanced_def dest!: transmit_balanced [unfolded balanced_def])
qed

text \<open>The event loop for any strategy, panics included.\<close>

lemma event_loop_run:
  fixes J :: "('s, 'p, 'r) sim_state \<Rightarrow> bool"
  assumes "event_loop pop mc self topo st = Some y" and "J st"
    and "\<And>st ev q. J st \<Longrightarrow> pop (ss_queue st) = (ev, q) \<Longrightarrow> ss_queue st \<noteq> [] \<Longrightarrow>
      run_ok Q J (handle_event mc self topo ev (st\<lparr>ss_queue := q\<rparr>))"
  shows "run_ok Q (\<lambda>st'. ss_queue st' = [] \<and> J st') y"
proof -
  let ?P = "\<lambda>pop mc self topo st (y :: ('s, 'p, 'r) sim_state run). \<forall>J :: ('s, 'p, 'r) sim_state \<Rightarrow> bool. J st \<longrightarrow>
      (\<forall>st ev q. J st \<longrightarrow> pop (ss_queue st) = (ev, q) \<longrightarrow> ss_queue st \<noteq> [] \<longrightarrow>
        run_ok Q J (handle_event mc self topo ev (st\<lparr>ss_queue := q\<rparr>))) \<longrightarrow>
      run_ok Q (\<lambda>st'. ss_queue st' = [] \<and> J st') y"
  have "?P pop mc self topo st y"
  proof (rule event_loop.raw_induct [OF _ assms(1)], goal_cases)
    case (1 loop pop mc self topo st y)
    note IH = 1(1) and body = 1(2)
    show ?case
    proof (intro allI impI, goal_cases)
      case (1 J)
      obtain ev q where pq: "pop (ss_queue st) = (ev, q)" by (cases "pop (ss_queue st)")
      show ?case
      proof (cases "ss_queue st = []")
        case True
        with body 1 show ?thesis by auto
      next
        case False
        with 1 pq have h: "run_ok Q J (handle_event mc self topo ev (st\<lparr>ss_queue := q\<rparr>))" by blast
        show ?thesis
        proof (cases "handle_event mc self topo ev (st\<lparr>ss_queue := q\<rparr>)")
          case (Inl e)
          with body False pq h show ?thesis by (auto simp: Let_def)
        next
          case (Inr st1)
          with body False pq have "loop pop mc self topo st1 = Some y" by (simp add: Let_def)
          from IH [OF this] 1(2) h Inr show ?thesis by auto
        qed
      qed
    qed
  qed
  then show ?thesis using assms(2,3) by blast
qed

text \<open>
  Partial correctness of the event loop, for any strategy: what handling an event keeps holds at the
  end, and the queue is empty then.
\<close>

lemma event_loop_inv:
  fixes J :: "('s, 'p, 'r) sim_state \<Rightarrow> bool"
  assumes "event_loop pop mc self topo st = Some (Inr st')" and "J st"
    and "\<And>st st1 ev q. J st \<Longrightarrow> pop (ss_queue st) = (ev, q) \<Longrightarrow> ss_queue st \<noteq> [] \<Longrightarrow>
      handle_event mc self topo ev (st\<lparr>ss_queue := q\<rparr>) = Inr st1 \<Longrightarrow> J st1"
  shows "ss_queue st' = [] \<and> J st'"
proof -
  have "run_ok (\<lambda>_. True) (\<lambda>st'. ss_queue st' = [] \<and> J st') (Inr st' :: ('s, 'p, 'r) sim_state run)"
    by (rule event_loop_run [where J = J, OF assms(1,2)]) (use assms(3) in \<open>auto simp: run_ok_def split: sum.split\<close>)
  then show ?thesis by simp
qed

section \<open>Honest runs\<close>

text \<open>What the undecoded nodes can still learn.\<close>

definition potential :: "('s \<Rightarrow> nat) \<Rightarrow> 's list \<Rightarrow> nat option list \<Rightarrow> nat" where
  "potential room ss dt = (\<Sum>i < length ss. if dt ! i = None then Suc (room (ss ! i)) else 0)"

text \<open>
  \<open>delta\<close> is the time a packet takes. Every forward uses up some potential, so no event comes later
  than \<open>T\<close>.
\<close>

definition sim_ok ::
  "('s \<Rightarrow> bool) \<Rightarrow> ('p \<Rightarrow> bool) \<Rightarrow> ('s \<Rightarrow> bool) \<Rightarrow> ('s \<Rightarrow> nat) \<Rightarrow> nat \<Rightarrow> nat \<Rightarrow> topology \<Rightarrow>
   ('s, 'p, 'r) sim_state \<Rightarrow> bool" where
  "sim_ok node packet can_decode room delta T topo st \<longleftrightarrow>
     (let n = tp_num_nodes topo in
      (\<forall>i < n. set (tp_neighbors topo ! i) \<subseteq> {..<n}) \<and>
      length (ss_states st) = n \<and> length (ss_upload st) = n \<and> length (ss_download st) = n \<and>
      length (ss_decode_times st) = n \<and> length (ss_has_forwarded st) = n \<and>
      (\<forall>i < n. node (ss_states st ! i)) \<and>
      (\<forall>ev \<in> set (ss_queue st). ev_to ev < n \<and> packet (ev_packet ev) \<and>
        ev_time ev + potential room (ss_states st) (ss_decode_times st) * delta \<le> T) \<and>
      (\<forall>i < n. ss_decode_times st ! i \<noteq> None \<longrightarrow> can_decode (ss_states st ! i)) \<and>
      (\<forall>i < n. \<forall>t. ss_decode_times st ! i = Some t \<longrightarrow> t \<le> T))"

text \<open>The largest time a run can reach, for packets of \<open>packet_bytes\<close> bytes and nodes of \<open>capacity\<close>, fits.\<close>

definition delays_fit :: "('self, 's, 'p, 'r) mechanism \<Rightarrow> nat \<Rightarrow> nat \<Rightarrow> nat \<Rightarrow> bool" where
  "delays_fit mc packet_bytes capacity delta \<longleftrightarrow>
     transmission_delay (mc_hop_latency mc) packet_bytes (mc_bandwidth mc) = Inr delta \<and>
     delta * Suc (mc_num_nodes mc * Suc capacity) < 2 ^ 64 * nanos_per_sec"

text \<open>A bandwidth that is not positive never fits: the serialization time of a packet would panic.\<close>

lemma delays_fit_bandwidth:
  assumes "delays_fit mc packet_bytes capacity delta" "0 < packet_bytes"
  shows "0 < mc_bandwidth mc"
proof (rule ccontr)
  assume "\<not> 0 < mc_bandwidth mc"
  moreover have "mc_bandwidth mc \<noteq> 0"
    using assms(1) by (auto simp: delays_fit_def transmission_delay_def assertR_eq_Inr)
  ultimately have "mc_bandwidth mc < 0" by simp
  moreover have "0 < f64_of_nat packet_bytes" using assms(2) by (simp add: f64_of_nat_def f64_round_positive)
  ultimately have "f64_div (f64_of_nat packet_bytes) (mc_bandwidth mc) < 0"
    by (simp add: f64_div_def f64_round_negative divide_pos_neg)
  with assms(1) show False
    by (simp add: delays_fit_def transmission_delay_def duration_from_secs_negative assertR_def Let_def split: if_splits)
qed

lemma delays_fit_mono:
  assumes "delays_fit mc K cap D" "0 \<le> mc_bandwidth mc" "k \<le> K" "cap' \<le> cap"
  shows "\<exists>d \<le> D. delays_fit mc k cap' d"
proof -
  from assms transmission_delay_mono [of "mc_hop_latency mc" K "mc_bandwidth mc" D k] obtain d where
    d: "d \<le> D" "transmission_delay (mc_hop_latency mc) k (mc_bandwidth mc) = Inr d"
    by (auto simp: delays_fit_def)
  have "d * Suc (mc_num_nodes mc * Suc cap') \<le> D * Suc (mc_num_nodes mc * Suc cap)"
    using d(1) assms(4) by (intro mult_le_mono) simp_all
  with assms(1) d show ?thesis by (auto simp: delays_fit_def)
qed

lemma transmit_spec:
  assumes "length (ss_upload st) = n" "length (ss_download st) = n" "src < n" "peer < n"
    and "transmission_delay (mc_hop_latency mc) (st_packet_size (mc_strategy mc) self p) (mc_bandwidth mc)
      = Inr delta" "now + delta < 2 ^ 64 * nanos_per_sec"
  shows "\<exists>st' ev. transmit mc self src now (peer, p) st = Inr st' \<and>
    ss_queue st' = ev # ss_queue st \<and> ev_to ev = peer \<and> ev_packet ev = p \<and> ev_time ev = now + delta \<and>
    ss_states st' = ss_states st \<and> ss_decode_times st' = ss_decode_times st \<and>
    ss_has_forwarded st' = ss_has_forwarded st \<and>
    length (ss_upload st') = n \<and> length (ss_download st') = n"
  using assms by (simp add: transmit_def add_at_def duration_add_def Let_def)

lemma transmit_all:
  assumes "length (ss_upload st) = n" "length (ss_download st) = n" "src < n"
    "length packets = length peers" "\<forall>q \<in> set peers. q < n"
    "\<forall>p \<in> set packets. transmission_delay (mc_hop_latency mc) (st_packet_size (mc_strategy mc) self p)
      (mc_bandwidth mc) = Inr delta" "now + delta < 2 ^ 64 * nanos_per_sec"
  shows "\<exists>st' evs. foldR (transmit mc self src now) (zip peers packets) st = Inr st' \<and>
    ss_queue st' = evs @ ss_queue st \<and> set (map ev_to evs) = set peers \<and>
    set (map ev_packet evs) \<subseteq> set packets \<and> (\<forall>e \<in> set evs. ev_time e = now + delta) \<and>
    ss_states st' = ss_states st \<and> ss_decode_times st' = ss_decode_times st \<and>
    ss_has_forwarded st' = ss_has_forwarded st \<and>
    length (ss_upload st') = n \<and> length (ss_download st') = n"
  using assms(4,5,1,2,6)
proof (induction peers packets arbitrary: st rule: list_induct2')
  case (4 q peers p packets)
  then have q: "q < n" and tp: "transmission_delay (mc_hop_latency mc)
      (st_packet_size (mc_strategy mc) self p) (mc_bandwidth mc) = Inr delta" by simp_all
  from transmit_spec [where mc = mc and self = self and now = now and p = p,
      OF 4(4,5) assms(3) q tp assms(7)] obtain st1 ev where
    s1: "transmit mc self src now (q, p) st = Inr st1" "ss_queue st1 = ev # ss_queue st"
      "ev_to ev = q" "ev_packet ev = p" "ev_time ev = now + delta" "ss_states st1 = ss_states st"
      "ss_decode_times st1 = ss_decode_times st" "ss_has_forwarded st1 = ss_has_forwarded st"
      "length (ss_upload st1) = n" "length (ss_download st1) = n"
    by (elim exE conjE) (rule that)
  have "length packets = length peers" "\<forall>q \<in> set peers. q < n"
    "\<forall>p \<in> set packets. transmission_delay (mc_hop_latency mc) (st_packet_size (mc_strategy mc) self p)
      (mc_bandwidth mc) = Inr delta" using 4(2,3,6) by simp_all
  from 4(1) [OF this(1,2) s1(9,10) this(3)] obtain st2 evs where
    s2: "foldR (transmit mc self src now) (zip peers packets) st1 = Inr st2"
      "ss_queue st2 = evs @ ss_queue st1" "set (map ev_to evs) = set peers"
      "set (map ev_packet evs) \<subseteq> set packets" "\<forall>e \<in> set evs. ev_time e = now + delta" "ss_states st2 = ss_states st1"
      "ss_decode_times st2 = ss_decode_times st1" "ss_has_forwarded st2 = ss_has_forwarded st1"
      "length (ss_upload st2) = n" "length (ss_download st2) = n"
    by (elim exE conjE) (rule that)
  show ?case
    by (intro exI [of _ st2] exI [of _ "evs @ [ev]"]) (use s1 s2 in auto)
qed simp_all

lemma potential_update:
  assumes i: "i < length ss" and dt: "dt ! i = None" "length dt = length ss"
  shows "potential room (ss[i := s]) dt + room (ss ! i) = potential room ss dt + room s"
    and "potential room (ss[i := s]) (dt[i := Some t]) + Suc (room (ss ! i)) = potential room ss dt"
proof -
  let ?f = "\<lambda>ss dt k. if dt ! k = None then Suc (room (ss ! k)) else 0"
  have fin: "finite {..<length ss}" and i': "i \<in> {..<length ss}" using i by simp_all
  have rest: "sum (?f (ss[i := s]) (dt[i := d])) ({..<length ss} - {i})
      = sum (?f ss dt) ({..<length ss} - {i})" for d
    by (rule sum.cong) auto
  have split: "potential room ss dt = Suc (room (ss ! i)) + sum (?f ss dt) ({..<length ss} - {i})"
    unfolding potential_def sum.remove [OF fin i'] using dt by simp
  have "dt[i := None] = dt" using dt(1) list_update_id [of dt i] by simp
  then have "potential room (ss[i := s]) dt = Suc (room s) + sum (?f ss dt) ({..<length ss} - {i})"
    unfolding potential_def length_list_update sum.remove [OF fin i'] using rest [of None] i dt by simp
  with split show "potential room (ss[i := s]) dt + room (ss ! i) = potential room ss dt + room s"
    by simp
  have "potential room (ss[i := s]) (dt[i := Some t]) = sum (?f ss dt) ({..<length ss} - {i})"
    unfolding potential_def length_list_update sum.remove [OF fin i'] using rest [of "Some t"] i dt
    by simp
  with split show "potential room (ss[i := s]) (dt[i := Some t]) + Suc (room (ss ! i))
      = potential room ss dt" by simp
qed

lemma forward_step_spec:
  assumes topo: "dest < tp_num_nodes topo" "set (tp_neighbors topo ! dest) \<subseteq> {..<n}"
    and len: "length (ss_upload st) = n" "length (ss_download st) = n" "dest < n"
      "length (ss_has_forwarded st) = n"
    and fwd: "st_forward (mc_strategy mc) self s (length (tp_neighbors topo ! dest)) (ss_rng st)
        = Inr (ps, rng')" "length ps = length (tp_neighbors topo ! dest)"
    and del: "\<forall>p \<in> set ps. transmission_delay (mc_hop_latency mc)
      (st_packet_size (mc_strategy mc) self p) (mc_bandwidth mc) = Inr delta"
      "now + delta < 2 ^ 64 * nanos_per_sec"
  shows "\<exists>st' evs. forward_step mc self topo dest now s st = Inr st' \<and>
    ss_queue st' = evs @ ss_queue st \<and> set (map ev_to evs) = set (tp_neighbors topo ! dest) \<and>
    set (map ev_packet evs) \<subseteq> set ps \<and> (\<forall>e \<in> set evs. ev_time e = now + delta) \<and>
    ss_states st' = ss_states st \<and> ss_decode_times st' = ss_decode_times st \<and>
    length (ss_has_forwarded st') = n \<and> length (ss_upload st') = n \<and> length (ss_download st') = n"
proof -
  let ?nb = "tp_neighbors topo ! dest"
  let ?st = "st\<lparr>ss_has_forwarded := (ss_has_forwarded st)[dest := True], ss_rng := rng'\<rparr>"
  have "forward_step mc self topo dest now s st
      = foldR (transmit mc self dest now) (zip ?nb ps) ?st"
    using topo(1) len fwd by (simp add: forward_step_def tp_neighbors_of_def tp_num_nodes_def)
  moreover have "length (ss_upload ?st) = n" "length (ss_download ?st) = n" "\<forall>q \<in> set ?nb. q < n"
    using len topo(2) by auto
  from transmit_all [OF this(1,2) len(3) fwd(2) this(3) del] obtain st' evs where
    "foldR (transmit mc self dest now) (zip ?nb ps) ?st = Inr st'"
      "ss_queue st' = evs @ ss_queue ?st" "set (map ev_to evs) = set ?nb"
      "set (map ev_packet evs) \<subseteq> set ps" "\<forall>e \<in> set evs. ev_time e = now + delta"
      "ss_states st' = ss_states ?st"
      "ss_decode_times st' = ss_decode_times ?st" "ss_has_forwarded st' = ss_has_forwarded ?st"
      "length (ss_upload st') = n" "length (ss_download st') = n"
    by (elim exE conjE) (rule that)
  ultimately show ?thesis using len(4) by simp
qed

text \<open>Packets travel along the links of the mesh, \<open>delta\<close> each; so nobody decodes before its distance.\<close>

definition on_paths :: "nat \<Rightarrow> topology \<Rightarrow> ('s, 'p, 'r) sim_state \<Rightarrow> bool" where
  "on_paths delta topo st \<longleftrightarrow>
     (\<forall>ev \<in> set (ss_queue st). \<exists>k. (0, ev_to ev) \<in> mesh_edges topo ^^ k \<and> ev_time ev = k * delta) \<and>
     (\<forall>i < tp_num_nodes topo. \<forall>t. ss_decode_times st ! i = Some t \<longrightarrow>
       (\<exists>k. (0, i) \<in> mesh_edges topo ^^ k \<and> t = k * delta))"

lemma on_paths_time:
  "on_paths delta topo st \<Longrightarrow> i < tp_num_nodes topo \<Longrightarrow> ss_decode_times st ! i = Some t \<Longrightarrow>
   hops topo i * delta \<le> t"
  unfolding on_paths_def by (metis hops_le mult_le_mono1)

lemma potential_decreases:
  assumes "d < length ss" "dt ! d = None" "length dt = length ss"
    and "room s \<le> room (ss ! d)" "r \<Longrightarrow> room s < room (ss ! d)"
  shows "potential room (ss[d := s]) (if can then dt[d := Some t] else dt) \<le> potential room ss dt"
    and "can \<or> r \<Longrightarrow> potential room (ss[d := s]) (if can then dt[d := Some t] else dt) < potential room ss dt"
  using potential_update(1) [of d ss dt room s] potential_update(2) [of d ss dt room s t] assms
  by (cases can; simp; linarith)+

text \<open>Events stay within \<open>T\<close> when new ones come one delay after now and cost potential.\<close>

lemma events_within:
  fixes P P' :: nat
  assumes "e \<in> set (evs @ q)" "\<forall>e \<in> set evs. ev_time e = now + delta"
    and "\<forall>e \<in> set q. ev_time e + P * delta \<le> T" "now + P * delta \<le> T"
    and "P' \<le> P" "evs \<noteq> [] \<Longrightarrow> P' < P"
  shows "ev_time e + P' * delta \<le> T"
proof (cases "e \<in> set evs")
  case True
  then have "Suc P' \<le> P" using assms(6) by fastforce
  then have "Suc P' * delta \<le> P * delta" by (rule mult_le_mono1)
  with True assms(2,4) show ?thesis by simp
next
  case False
  have "P' * delta \<le> P * delta" using assms(5) by (rule mult_le_mono1)
  moreover have "ev_time e + P * delta \<le> T" using False assms(1,3) by simp
  ultimately show ?thesis by linarith
qed

text \<open>Nodes that know nothing but the proposer, and its packets one delay away.\<close>

lemma sim_ok_initial:
  assumes n: "0 < n" "tp_num_nodes topo = n" and nbs: "\<forall>i < n. set (tp_neighbors topo ! i) \<subseteq> {..<n}"
    and s: "nd s" "can s" and s0: "nd s0" "rm s0 \<le> cap"
    and st: "ss_states st = s # replicate (n - 1) s0" "ss_decode_times st = (replicate n None)[0 := Some 0]"
      "length (ss_upload st) = n" "length (ss_download st) = n" "length (ss_has_forwarded st) = n"
    and q: "\<forall>ev \<in> set (ss_queue st). ev_to ev < n \<and> pk (ev_packet ev) \<and> ev_time ev = delta"
  shows "sim_ok nd pk can rm delta (delta * Suc (n * Suc cap)) topo st"
proof -
  have len: "length (ss_states st) = n" using n(1) by (simp add: st)
  have nodes: "nd (ss_states st ! i)" if "i < n" for i
    using that s(1) s0(1) by (cases i) (simp_all add: st)
  have dec: "can (ss_states st ! i)" "t \<le> delta * Suc (n * Suc cap)"
    if "i < n" "ss_decode_times st ! i = Some t" for i t
    using that s(2) by (cases i; simp add: st)+
  have "(if ss_decode_times st ! i = None then Suc (rm (ss_states st ! i)) else 0) \<le> Suc cap" if "i < n" for i
    using that s0(2) by (cases i) (simp_all add: st)
  then have "potential rm (ss_states st) (ss_decode_times st) \<le> (\<Sum>i < n. Suc cap)"
    unfolding potential_def len by (intro sum_mono) simp
  then have "potential rm (ss_states st) (ss_decode_times st) * delta \<le> n * Suc cap * delta"
    by (intro mult_le_mono1) simp
  then have "\<forall>ev \<in> set (ss_queue st). ev_time ev + potential rm (ss_states st) (ss_decode_times st) * delta
      \<le> delta * Suc (n * Suc cap)"
    using q by (simp add: algebra_simps)
  moreover have "length (ss_decode_times st) = n" by (simp add: st(2))
  moreover have "\<forall>i < n. ss_decode_times st ! i \<noteq> None \<longrightarrow> can (ss_states st ! i)" using dec(1) by blast
  moreover have "\<forall>i < n. \<forall>t. ss_decode_times st ! i = Some t \<longrightarrow> t \<le> delta * Suc (n * Suc cap)" using dec(2) by blast
  ultimately show ?thesis
    unfolding sim_ok_def Let_def n(2) using nbs len nodes st(3-5) q by simp
qed

context honest_strategy
begin

text \<open>The forwarding phase of a node that may forward.\<close>

lemma forward_phase:
  assumes rd: "ready c self b" and mc: "mc_strategy mc = strat c"
    and d: "d < tp_num_nodes topo" and nb: "set (tp_neighbors topo ! d) \<subseteq> {..<tp_num_nodes topo}"
    and nd: "node c self b s" and fd: "go \<Longrightarrow> fed c s"
    and len: "length (ss_upload st) = tp_num_nodes topo" "length (ss_download st) = tp_num_nodes topo"
      "length (ss_has_forwarded st) = tp_num_nodes topo"
    and del: "transmission_delay (mc_hop_latency mc) (packet_len c b) (mc_bandwidth mc) = Inr delta"
      "now + delta < 2 ^ 64 * nanos_per_sec"
  shows "\<exists>st2 evs. (if go then forward_step mc self topo d now s st else Inr st) = Inr st2 \<and>
    ss_queue st2 = evs @ ss_queue st \<and>
    (if go then set (map ev_to evs) = set (tp_neighbors topo ! d) else evs = []) \<and>
    (\<forall>e \<in> set evs. packet c self b (ev_packet e) \<and> ev_time e = now + delta) \<and>
    ss_states st2 = ss_states st \<and> ss_decode_times st2 = ss_decode_times st \<and>
    length (ss_has_forwarded st2) = tp_num_nodes topo \<and> length (ss_upload st2) = tp_num_nodes topo \<and>
    length (ss_download st2) = tp_num_nodes topo"
proof (cases go)
  case True
  from forward [OF rd nd fd [OF True], of "length (tp_neighbors topo ! d)" "ss_rng st"] obtain ps rng' where
    ps: "st_forward (strat c) self s (length (tp_neighbors topo ! d)) (ss_rng st) = Inr (ps, rng')"
      "length ps = length (tp_neighbors topo ! d)" and good: "\<forall>p \<in> set ps. packet c self b p"
    by (elim exE conjE) (rule that)
  have sizes: "\<forall>p \<in> set ps. transmission_delay (mc_hop_latency mc)
      (st_packet_size (mc_strategy mc) self p) (mc_bandwidth mc) = Inr delta"
    using good packet_size [OF rd] del(1) mc by simp
  from forward_step_spec [where mc = mc and st = st and now = now, OF d nb len(1,2) d len(3)
      ps(1) [folded mc] ps(2) sizes del(2)]
  obtain st2 evs where "forward_step mc self topo d now s st = Inr st2"
    "ss_queue st2 = evs @ ss_queue st" "set (map ev_to evs) = set (tp_neighbors topo ! d)"
    "set (map ev_packet evs) \<subseteq> set ps" "\<forall>e \<in> set evs. ev_time e = now + delta"
    "ss_states st2 = ss_states st"
    "ss_decode_times st2 = ss_decode_times st" "length (ss_has_forwarded st2) = tp_num_nodes topo"
    "length (ss_upload st2) = tp_num_nodes topo" "length (ss_download st2) = tp_num_nodes topo" by metis
  with True good show ?thesis by (intro exI [of _ st2] exI [of _ evs]) auto
qed (use len in simp)

lemma handle_event_ok:
  assumes rd: "ready c self b" and mc: "mc_strategy mc = strat c"
    and ok: "sim_ok (node c self b) (packet c self b) (st_can_decode (strat c) self) (room c) delta T topo st"
    and ev: "ev_to ev < tp_num_nodes topo" "packet c self b (ev_packet ev)"
      "ev_time ev + potential (room c) (ss_states st) (ss_decode_times st) * delta \<le> T"
    and del: "transmission_delay (mc_hop_latency mc) (packet_len c b) (mc_bandwidth mc) = Inr delta"
      "T < 2 ^ 64 * nanos_per_sec"
  shows "\<exists>st' evs. handle_event mc self topo ev st = Inr st' \<and>
    sim_ok (node c self b) (packet c self b) (st_can_decode (strat c) self) (room c) delta T topo st' \<and>
    ss_queue st' = evs @ ss_queue st \<and>
    (if evs = [] then potential (room c) (ss_states st') (ss_decode_times st')
        \<le> potential (room c) (ss_states st) (ss_decode_times st)
     else potential (room c) (ss_states st') (ss_decode_times st')
        < potential (room c) (ss_states st) (ss_decode_times st)) \<and>
    (\<forall>e \<in> set evs. ev_time e = ev_time ev + delta) \<and>
    (ss_decode_times st ! ev_to ev \<noteq> None \<longrightarrow> evs = []) \<and>
    set (map ev_to evs) \<subseteq> set (tp_neighbors topo ! ev_to ev) \<and>
    (\<forall>i. ss_decode_times st ! i \<noteq> None \<longrightarrow> ss_decode_times st' ! i = ss_decode_times st ! i) \<and>
    (ss_decode_times st ! ev_to ev = None \<longrightarrow>
      ss_decode_times st' ! ev_to ev \<in> {None, Some (ev_time ev)}) \<and>
    (\<forall>i. i \<noteq> ev_to ev \<longrightarrow> ss_decode_times st' ! i = ss_decode_times st ! i) \<and>
    (st_forward_condition (strat c) = AfterDecode \<longrightarrow> ss_decode_times st ! ev_to ev = None \<longrightarrow>
      ss_decode_times st' ! ev_to ev \<noteq> None \<longrightarrow>
      set (map ev_to evs) = set (tp_neighbors topo ! ev_to ev)) \<and>
    (ss_decode_times st ! ev_to ev = None \<longrightarrow>
      (\<exists>r s'. st_receive (strat c) self (ss_states st ! ev_to ev) (ev_packet ev) = Inr (s', Inr r) \<and>
        (st_can_decode (strat c) self s' \<longrightarrow> ss_decode_times st' ! ev_to ev \<noteq> None)))"
proof -
  let ?n = "tp_num_nodes topo" and ?d = "ev_to ev" and ?can = "st_can_decode (strat c) self"
  from ok have len: "length (ss_states st) = ?n" "length (ss_upload st) = ?n"
      "length (ss_download st) = ?n" "length (ss_decode_times st) = ?n"
      "length (ss_has_forwarded st) = ?n"
    and nodes: "\<forall>i < ?n. node c self b (ss_states st ! i)"
    and nbs: "\<forall>i < ?n. set (tp_neighbors topo ! i) \<subseteq> {..<?n}"
    and queue: "\<forall>ev \<in> set (ss_queue st). ev_to ev < ?n \<and> packet c self b (ev_packet ev) \<and>
      ev_time ev + potential (room c) (ss_states st) (ss_decode_times st) * delta \<le> T"
    and dec: "\<forall>i < ?n. ss_decode_times st ! i \<noteq> None \<longrightarrow> ?can (ss_states st ! i)"
      "\<forall>i < ?n. \<forall>t. ss_decode_times st ! i = Some t \<longrightarrow> t \<le> T"
    by (simp_all add: sim_ok_def Let_def)
  show ?thesis
  proof (cases "ss_decode_times st ! ?d")
    case (Some t)
    then have "handle_event mc self topo ev st = Inr st"
      using len ev(1) by (simp add: handle_event_def Let_def)
    then show ?thesis using ok Some by (intro exI [of _ st] exI [of _ "[]"]) simp
  next
    case None
    have nd: "node c self b (ss_states st ! ?d)" using nodes ev(1) by simp
    from receive [OF rd nd ev(2)] obtain s' r where
      rcv: "st_receive (strat c) self (ss_states st ! ?d) (ev_packet ev) = Inr (s', Inr r)"
      and nd': "node c self b s'" and fd: "r \<longrightarrow> fed c s' \<and> room c s' < room c (ss_states st ! ?d)"
      and rm: "room c s' \<le> room c (ss_states st ! ?d)" by blast
    define st1 where "st1 = (let st = st\<lparr>ss_states := (ss_states st)[?d := s']\<rparr> in
        if r then st\<lparr>ss_useful_packets := ss_useful_packets st + 1\<rparr>
        else st\<lparr>ss_redundant_packets := ss_redundant_packets st + 1\<rparr>)"
    have st1: "ss_states st1 = (ss_states st)[?d := s']" "ss_decode_times st1 = ss_decode_times st"
      "ss_queue st1 = ss_queue st" "ss_upload st1 = ss_upload st" "ss_download st1 = ss_download st"
      "ss_has_forwarded st1 = ss_has_forwarded st"
      by (simp_all add: st1_def Let_def)
    let ?go = "sim_should_forward (st_forward_condition (strat c)) (?can s') r
        (ss_has_forwarded st ! ?d)"
    let ?fwd = "if ?go then forward_step mc self topo ?d (ev_time ev) s' st1 else Inr st1"
    have can: "?go \<Longrightarrow> ?can s' \<or> r"
      by (auto simp: sim_should_forward_def split: forward_condition.splits)
    have d: "?d < length (ss_states st)" "length (ss_decode_times st) = length (ss_states st)"
      using len ev(1) by simp_all
    have "1 \<le> potential (room c) (ss_states st) (ss_decode_times st)"
      using potential_decreases(2) [where can = True and t = 0, OF d(1) None d(2) rm, of r] fd by fastforce
    then have "delta \<le> potential (room c) (ss_states st) (ss_decode_times st) * delta" by simp
    with ev(3) del(2) have now: "ev_time ev + delta < 2 ^ 64 * nanos_per_sec" by linarith
    have "set (tp_neighbors topo ! ?d) \<subseteq> {..<?n}" using nbs ev(1) by blast
    from forward_phase [where st = st1 and go = ?go, OF rd mc ev(1) this nd' _ _ _ _ del(1) now]
      can fd can_decode_fed [OF rd nd'] len st1
    obtain st2 evs where fwd: "?fwd = Inr st2" and q2: "ss_queue st2 = evs @ ss_queue st"
      and go: "if ?go then set (map ev_to evs) = set (tp_neighbors topo ! ?d) else evs = []"
      and evs: "\<forall>e \<in> set evs. packet c self b (ev_packet e) \<and> ev_time e = ev_time ev + delta"
      and s2: "ss_states st2 = (ss_states st)[?d := s']" "ss_decode_times st2 = ss_decode_times st"
        "length (ss_has_forwarded st2) = ?n" "length (ss_upload st2) = ?n"
        "length (ss_download st2) = ?n"
      by auto
    define st3 where "st3 = (if ?can s'
        then st2\<lparr>ss_decode_times := (ss_decode_times st)[?d := Some (ev_time ev)]\<rparr> else st2)"
    have "handle_event mc self topo ev st = bindR ?fwd (\<lambda>st'. if ?can s'
        then bindR (upd (ss_decode_times st') ?d (Some (ev_time ev)))
               (\<lambda>times. Inr (st'\<lparr>ss_decode_times := times\<rparr>))
        else Inr st')"
      using len ev(1) None rcv mc by (cases r) (simp_all add: handle_event_def Let_def st1_def)
    then have run: "handle_event mc self topo ev st = Inr st3"
      unfolding fwd using len ev(1) s2(2) by (simp add: st3_def)
    have evs_to: "\<forall>ev \<in> set evs. ev_to ev < ?n"
    proof
      fix e assume e: "e \<in> set evs"
      then have "ev_to e \<in> set (tp_neighbors topo ! ?d)" using go by (cases ?go) auto
      with nbs ev(1) show "ev_to e < ?n" by blast
    qed
    have "evs \<noteq> [] \<Longrightarrow> ?can s' \<or> r" using go can by (cases ?go) auto
    moreover have "ss_decode_times st3 = (if ?can s' then (ss_decode_times st)[?d := Some (ev_time ev)] else ss_decode_times st)"
      "ss_states st3 = (ss_states st)[?d := s']" using s2(1,2) by (simp_all add: st3_def)
    moreover note potential_decreases [where can = "?can s'" and r = r and room = "room c" and t = "ev_time ev",
        OF d(1) None d(2) rm]
    ultimately have pot: "potential (room c) (ss_states st3) (ss_decode_times st3)
          \<le> potential (room c) (ss_states st) (ss_decode_times st)"
      "evs \<noteq> [] \<Longrightarrow> potential (room c) (ss_states st3) (ss_decode_times st3)
          < potential (room c) (ss_states st) (ss_decode_times st)"
      using fd by simp_all
    have later: "ev_time e + potential (room c) (ss_states st3) (ss_decode_times st3) * delta \<le> T"
      if "e \<in> set (evs @ ss_queue st)" for e
      by (rule events_within [OF that _ _ ev(3) pot]) (use evs queue in simp_all)
    have "ev_time ev \<le> T" using ev(3) by simp
    then have "sim_ok (node c self b) (packet c self b) ?can (room c) delta T topo st3"
      unfolding sim_ok_def Let_def
      using len nodes nbs queue dec nd' s2 q2 evs evs_to ev(1) None later
      by (auto simp: st3_def nth_list_update)
    moreover have "ss_queue st3 = evs @ ss_queue st" using q2 by (simp add: st3_def)
    moreover have "if evs = []
        then potential (room c) (ss_states st3) (ss_decode_times st3)
          \<le> potential (room c) (ss_states st) (ss_decode_times st)
        else potential (room c) (ss_states st3) (ss_decode_times st3)
          < potential (room c) (ss_states st) (ss_decode_times st)" using pot by simp
    moreover have "\<forall>e \<in> set evs. ev_time e = ev_time ev + delta" using evs by blast
    moreover have "set (map ev_to evs) \<subseteq> set (tp_neighbors topo ! ?d)" using go by (cases ?go) auto
    moreover have "ss_decode_times st3 ! ?d \<in> {None, Some (ev_time ev)}"
      using None s2(2) len ev(1) by (simp add: st3_def)
    moreover have "ss_decode_times st3 ! i = ss_decode_times st ! i" if "ss_decode_times st ! i \<noteq> None" for i
      using that None s2(2) by (cases "i = ?d") (auto simp: st3_def)
    moreover have "ss_decode_times st3 ! i = ss_decode_times st ! i" if "i \<noteq> ?d" for i
      using that s2(2) by (simp add: st3_def)
    moreover have "set (map ev_to evs) = set (tp_neighbors topo ! ?d)"
      if "st_forward_condition (strat c) = AfterDecode" "ss_decode_times st3 ! ?d \<noteq> None"
      using that go None s2(2) by (auto simp: st3_def sim_should_forward_def split: if_splits)
    moreover have "?can s' \<longrightarrow> ss_decode_times st3 ! ?d \<noteq> None"
      using len ev(1) by (simp add: st3_def)
    ultimately show ?thesis using run rcv None by (intro exI [of _ st3] exI [of _ evs]) blast
  qed
qed

lemma on_paths_step:
  assumes rd: "ready c self b" and mc: "mc_strategy mc = strat c" and pop: "pop_ok pop"
    and del: "transmission_delay (mc_hop_latency mc) (packet_len c b) (mc_bandwidth mc) = Inr delta"
      "T < 2 ^ 64 * nanos_per_sec"
    and p: "on_paths delta topo st1"
    and ok: "sim_ok (node c self b) (packet c self b) (st_can_decode (strat c) self) (room c) delta T topo st1"
    and ne: "ss_queue st1 \<noteq> []"
    and run: "handle_event mc self topo (fst (pop (ss_queue st1)))
        (st1\<lparr>ss_queue := snd (pop (ss_queue st1))\<rparr>) = Inr st2"
  shows "on_paths delta topo st2"
proof -
  let ?ev = "fst (pop (ss_queue st1))" and ?q = "snd (pop (ss_queue st1))"
  let ?st = "st1\<lparr>ss_queue := ?q\<rparr>" and ?d = "ev_to (fst (pop (ss_queue st1)))"
  have "mset (ss_queue st1) = add_mset ?ev (mset ?q)" using pop ne by (simp_all add: pop_ok_def)
  then have sub: "set (ss_queue st1) = insert ?ev (set ?q)"
    by (metis set_mset_add_mset_insert set_mset_mset)
  have ok': "sim_ok (node c self b) (packet c self b) (st_can_decode (strat c) self) (room c) delta T topo ?st"
    using ok sub by (simp add: sim_ok_def Let_def)
  have ev: "?d < tp_num_nodes topo" "packet c self b (ev_packet ?ev)"
    "ev_time ?ev + potential (room c) (ss_states ?st) (ss_decode_times ?st) * delta \<le> T"
    using ok sub by (simp_all add: sim_ok_def Let_def)
  from handle_event_ok [OF rd mc ok' ev del] obtain st3 evs where
    run3: "handle_event mc self topo ?ev ?st = Inr st3"
    and H: "ss_queue st3 = evs @ ss_queue ?st"
      "\<forall>e \<in> set evs. ev_time e = ev_time ?ev + delta"
      "set (map ev_to evs) \<subseteq> set (tp_neighbors topo ! ?d)"
      "\<forall>i. ss_decode_times ?st ! i \<noteq> None \<longrightarrow> ss_decode_times st3 ! i = ss_decode_times ?st ! i"
      "ss_decode_times ?st ! ?d = None \<longrightarrow> ss_decode_times st3 ! ?d \<in> {None, Some (ev_time ?ev)}"
      "\<forall>i. i \<noteq> ?d \<longrightarrow> ss_decode_times st3 ! i = ss_decode_times ?st ! i"
    by (elim exE conjE) (rule that)
  have [simp]: "st3 = st2" using run run3 by simp
  from p sub obtain k where k: "(0, ?d) \<in> mesh_edges topo ^^ k" "ev_time ?ev = k * delta"
    by (auto simp: on_paths_def)
  have "\<exists>k. (0, ev_to e) \<in> mesh_edges topo ^^ k \<and> ev_time e = k * delta" if "e \<in> set (ss_queue st2)" for e
  proof (cases "e \<in> set evs")
    case True
    with H(3) ev(1) have "(?d, ev_to e) \<in> mesh_edges topo" by (auto simp: mesh_edges_def)
    with k(1) have "(0, ev_to e) \<in> mesh_edges topo ^^ Suc k" by auto
    then show ?thesis using H(2) True k(2) by (intro exI [of _ "Suc k"]) simp
  next
    case False
    with that H(1) have "e \<in> set ?q" by simp
    then show ?thesis using p sub by (auto simp: on_paths_def)
  qed
  moreover have "\<exists>k. (0, i) \<in> mesh_edges topo ^^ k \<and> t = k * delta"
    if i: "i < tp_num_nodes topo" "ss_decode_times st2 ! i = Some t" for i t
  proof (cases "ss_decode_times st1 ! i = None")
    case True
    with H(6) i(2) have "i = ?d" by (cases "i = ?d") simp_all
    with H(5) True i(2) k show ?thesis by auto
  next
    case False
    with H(4) i p show ?thesis by (auto simp: on_paths_def)
  qed
  ultimately show ?thesis by (simp add: on_paths_def)
qed

text \<open>The event loop ends. \<open>J\<close> is any further property that handling an event keeps.\<close>

lemma event_loop_ok:
  assumes rd: "ready c self b" and mc: "mc_strategy mc = strat c" and pop: "pop_ok pop"
    and del: "transmission_delay (mc_hop_latency mc) (packet_len c b) (mc_bandwidth mc) = Inr delta"
      "T < 2 ^ 64 * nanos_per_sec"
    and ok: "sim_ok (node c self b) (packet c self b) (st_can_decode (strat c) self) (room c) delta T topo st"
    and J: "J st"
    and step: "\<And>st st'. J st \<Longrightarrow>
      sim_ok (node c self b) (packet c self b) (st_can_decode (strat c) self) (room c) delta T topo st \<Longrightarrow>
      ss_queue st \<noteq> [] \<Longrightarrow>
      handle_event mc self topo (fst (pop (ss_queue st)))
        (st\<lparr>ss_queue := snd (pop (ss_queue st))\<rparr>) = Inr st' \<Longrightarrow> J st'"
  shows "\<exists>st'. event_loop pop mc self topo st = Some (Inr st') \<and> ss_queue st' = [] \<and> J st' \<and>
    sim_ok (node c self b) (packet c self b) (st_can_decode (strat c) self) (room c) delta T topo st'"
proof -
  let ?m = "\<lambda>st. (potential (room c) (ss_states st) (ss_decode_times st), length (ss_queue st))"
  show ?thesis
    using ok J
  proof (induction "?m st" arbitrary: st rule: wf_induct_rule [OF wf_lex_prod [OF wf_less_than wf_less_than]])
    case (1 st)
    show ?case
    proof (cases "ss_queue st = []")
      case True
      then show ?thesis using 1(2,3) by (subst event_loop.simps) simp
    next
      case False
      obtain ev q where pq: "pop (ss_queue st) = (ev, q)" by (cases "pop (ss_queue st)")
      then have ms: "mset (ss_queue st) = add_mset ev (mset q)"
        using pop False unfolding pop_ok_def by (metis fst_conv snd_conv)
      then have sub: "set (ss_queue st) = insert ev (set q)"
        by (metis set_mset_add_mset_insert set_mset_mset)
      have len: "length (ss_queue st) = Suc (length q)"
        using arg_cong [OF ms, of size] by simp
      let ?st = "st\<lparr>ss_queue := q\<rparr>"
      have ok1: "sim_ok (node c self b) (packet c self b) (st_can_decode (strat c) self) (room c) delta T topo ?st"
        using 1(2) sub by (simp add: sim_ok_def Let_def)
      have ev: "ev_to ev < tp_num_nodes topo" "packet c self b (ev_packet ev)"
        "ev_time ev + potential (room c) (ss_states ?st) (ss_decode_times ?st) * delta \<le> T"
        using 1(2) sub by (simp_all add: sim_ok_def Let_def)
      from handle_event_ok [OF rd mc ok1 ev del] obtain st2 evs where
        run: "handle_event mc self topo ev ?st = Inr st2"
        and ok2: "sim_ok (node c self b) (packet c self b) (st_can_decode (strat c) self) (room c) delta T topo st2"
        and q2: "ss_queue st2 = evs @ ss_queue ?st"
        and pot: "if evs = [] then potential (room c) (ss_states st2) (ss_decode_times st2)
            \<le> potential (room c) (ss_states ?st) (ss_decode_times ?st)
          else potential (room c) (ss_states st2) (ss_decode_times st2)
            < potential (room c) (ss_states ?st) (ss_decode_times ?st)"
        by (elim exE conjE) (rule that)
      have "(?m st2, ?m st) \<in> less_than <*lex*> less_than"
        using pot q2 len by (auto split: if_splits)
      moreover have "J st2" using step [OF 1(3,2) False] run pq by simp
      ultimately obtain st' where "event_loop pop mc self topo st2 = Some (Inr st')"
        "ss_queue st' = []" "J st'"
        "sim_ok (node c self b) (packet c self b) (st_can_decode (strat c) self) (room c) delta T topo st'"
        using 1(1) ok2 by blast
      then show ?thesis
        using False pq run by (subst event_loop.simps) simp
    qed
  qed
qed

text \<open>Setting up a run: the proposer is decoded, its packets are on their way to its peers.\<close>

lemma sim_start_ok:
  assumes sok: "self_ok c self0" and ft: "fits c b"
    and mc: "mc_strategy mc = strat c" "mc_self mc = self0" "mc_num_nodes mc = n" "mc_mesh_degree mc = D"
    and perm: "\<And>xs r. mset (fst (lb_shuffle lb xs r)) = mset xs"
      "\<And>xs k r. mset (fst (lb_partial_shuffle lb xs k r)) = mset xs"
    and deg: "D < n" "0 < D \<or> n = 1"
    and del: "delays_fit mc (packet_len c b) (capacity c) delta"
  shows "\<exists>self topo rng' st. sim_start lb mc b rng = Inr (self, topo, byte_len c b, st) \<and>
    random_mesh (lb_shuffle lb) (lb_partial_shuffle lb) n D rng = Inr (topo, rng') \<and>
    ready c self b \<and> tp_num_nodes topo = n \<and>
    sim_ok (node c self b) (packet c self b) (st_can_decode (strat c) self) (room c) delta (delta * Suc (n * Suc (capacity c))) topo st \<and>
    (\<forall>j < n. (0, j) \<in> (mesh_edges topo)\<^sup>*) \<and>
    ss_decode_times st = (replicate n None)[0 := Some 0] \<and>
    set (map ev_to (ss_queue st)) = set (tp_neighbors topo ! 0) \<and>
    (\<forall>ev \<in> set (ss_queue st). ev_time ev = delta) \<and> balanced st \<and> self_ok c self"
proof -
  have n: "0 < n" using deg(1) by simp
  from random_mesh_ok [where shuffle = "lb_shuffle lb" and partial_shuffle = "lb_partial_shuffle lb"
      and rng = rng, OF perm deg] obtain topo rng1 where
    topo: "random_mesh (lb_shuffle lb) (lb_partial_shuffle lb) n D rng = Inr (topo, rng1)"
      "tp_num_nodes topo = n" and peers: "\<forall>i < n. peers_ok n i (tp_neighbors topo ! i)"
    and reach: "\<forall>j < n. (0, j) \<in> (mesh_edges topo)\<^sup>*" by metis
  let ?nb = "tp_neighbors topo ! 0"
  have nb: "tp_neighbors_of topo 0 = Inr ?nb"
    using topo(2) n by (simp add: tp_neighbors_of_def tp_num_nodes_def)
  from init_proposer [OF sok ft, of "length ?nb" rng1] obtain self s ps rng2 where
    prp: "st_init_proposer (strat c) self0 b (length ?nb) rng1
        = Inr ((self, s, ps, byte_len c b), rng2)"
    and sok': "self_ok c self" and rd: "ready c self b" and s: "node c self b s" "st_can_decode (strat c) self s"
    and ps: "length ps = length ?nb" "\<forall>p \<in> set ps. packet c self b p"
    by (elim exE conjE) (rule that)
  from init_receiver [OF rd] obtain s0 where
    s0: "st_init_receiver (strat c) self = Inr s0" "node c self b s0" "room c s0 \<le> capacity c" by blast
  have rcvs: "mapR (\<lambda>_. st_init_receiver (strat c) self) [0..<n - 1] = Inr (replicate (n - 1) s0)"
    using mapR_pure [of "[0..<n - 1]" "\<lambda>_. st_init_receiver (strat c) self" "\<lambda>_. s0"] s0(1)
    by (simp add: map_replicate_const)
  define st0 :: "('s, 'p, 'r) sim_state" where "st0 = \<lparr>ss_states = s # replicate (n - 1) s0, ss_upload = replicate n 0,
      ss_download = replicate n 0, ss_decode_times = (replicate n None)[0 := Some 0],
      ss_has_forwarded = replicate n False, ss_total_packets = 0,
      ss_useful_packets = 0, ss_redundant_packets = 0, ss_queue = [], ss_rng = rng2\<rparr>"
  have sub: "\<forall>q \<in> set ?nb. q < n" using peers n by (auto simp: peers_ok_def)
  have "length (ss_upload st0) = n" "length (ss_download st0) = n" by (simp_all add: st0_def)
  have "\<forall>p \<in> set ps. transmission_delay (mc_hop_latency mc) (st_packet_size (mc_strategy mc) self p)
      (mc_bandwidth mc) = Inr delta" "0 + delta < 2 ^ 64 * nanos_per_sec"
    using del ps(2) packet_size [OF rd] mc(1) by (auto simp: delays_fit_def)
  from transmit_all [OF \<open>length (ss_upload st0) = n\<close> \<open>length (ss_download st0) = n\<close> n ps(1) sub this] obtain st evs where
    tr: "foldR (transmit mc self 0 0) (zip ?nb ps) st0 = Inr st" "ss_queue st = evs @ ss_queue st0"
      "set (map ev_to evs) = set ?nb" "set (map ev_packet evs) \<subseteq> set ps"
      "\<forall>e \<in> set evs. ev_time e = 0 + delta" "ss_states st = ss_states st0" "ss_decode_times st = ss_decode_times st0"
      "ss_has_forwarded st = ss_has_forwarded st0" "length (ss_upload st) = n"
      "length (ss_download st) = n"
    by (elim exE conjE) (rule that)
  have "sim_start lb mc b rng = Inr (self, topo, byte_len c b, st)"
    using n mc topo(1) nb prp rcvs tr(1) by (simp add: sim_start_def Let_def st0_def)
  moreover have "sim_ok (node c self b) (packet c self b) (st_can_decode (strat c) self) (room c) delta
      (delta * Suc (n * Suc (capacity c))) topo st"
  proof (rule sim_ok_initial [where nd = "node c self b" and can = "st_can_decode (strat c) self"
        and rm = "room c" and cap = "capacity c", OF n topo(2) _ s s0(2,3)])
    show "\<forall>i < n. set (tp_neighbors topo ! i) \<subseteq> {..<n}" using peers by (simp add: peers_ok_def)
    have "ev_to ev < n \<and> packet c self b (ev_packet ev) \<and> ev_time ev = delta" if "ev \<in> set evs" for ev
      using that tr(3,4,5) sub ps(2) by fastforce
    then show "\<forall>ev \<in> set (ss_queue st). ev_to ev < n \<and> packet c self b (ev_packet ev) \<and> ev_time ev = delta"
      using tr(2) by (simp add: st0_def)
  qed (use tr in \<open>simp_all add: st0_def\<close>)
  moreover have "balanced st0" by (simp add: balanced_def st0_def)
  then have "balanced st" by (rule foldR_inv [OF tr(1)]) (rule transmit_balanced)
  ultimately show ?thesis using sok' rd topo reach tr by (simp add: st0_def)
qed

text \<open>
  A whole run ends without a panic; every byte uploaded is a byte downloaded, and each decoded node
  decodes to the proposer's block.
\<close>

lemma sim_honest:
  assumes sok: "self_ok c self0" and ft: "fits c b" and pop: "pop_ok pop"
    and mc: "mc_strategy mc = strat c" "mc_self mc = self0" "mc_num_nodes mc = n" "mc_mesh_degree mc = D"
    and perm: "\<And>xs r. mset (fst (lb_shuffle lb xs r)) = mset xs"
      "\<And>xs k r. mset (fst (lb_partial_shuffle lb xs k r)) = mset xs"
    and deg: "D < n" "0 < D \<or> n = 1"
    and del: "delays_fit mc (packet_len c b) (capacity c) delta"
  shows "\<exists>self topo rng' st st'. sim_start lb mc b rng = Inr (self, topo, byte_len c b, st) \<and>
    random_mesh (lb_shuffle lb) (lb_partial_shuffle lb) n D rng = Inr (topo, rng') \<and>
    event_loop pop mc self topo st = Some (Inr st') \<and>
    sim_run lb pop mc b rng = Some (Inr (sim_metrics_of mc (byte_len c b) st')) \<and>
    ss_queue st' = [] \<and> sum_list (ss_upload st') = sum_list (ss_download st') \<and>
    (\<forall>i < n. \<forall>t. ss_decode_times st' ! i = Some t \<longrightarrow> hops topo i * delta \<le> t \<and>
      st_decode (strat c) self (ss_states st' ! i) (byte_len c b) = Inr b) \<and>
    self_ok c self \<and> length (ss_decode_times st') = n \<and>
    (\<forall>i < n. \<forall>t. ss_decode_times st' ! i = Some t \<longrightarrow> t \<le> delta * Suc (n * Suc (capacity c)))"
proof -
  from sim_start_ok [OF sok ft mc perm deg del, of rng] obtain self topo rng' st where
    start: "sim_start lb mc b rng = Inr (self, topo, byte_len c b, st)"
    and mesh: "random_mesh (lb_shuffle lb) (lb_partial_shuffle lb) n D rng = Inr (topo, rng')"
    and rd: "ready c self b" and tn: "tp_num_nodes topo = n"
    and ok: "sim_ok (node c self b) (packet c self b) (st_can_decode (strat c) self) (room c) delta
      (delta * Suc (n * Suc (capacity c))) topo st"
    and dt: "ss_decode_times st = (replicate n None)[0 := Some 0]"
    and q: "set (map ev_to (ss_queue st)) = set (tp_neighbors topo ! 0)"
      "\<forall>ev \<in> set (ss_queue st). ev_time ev = delta"
    and bal: "balanced st" and sok': "self_ok c self" by (elim exE conjE) (rule that)
  have delay: "transmission_delay (mc_hop_latency mc) (packet_len c b) (mc_bandwidth mc) = Inr delta"
    "delta * Suc (n * Suc (capacity c)) < 2 ^ 64 * nanos_per_sec" using del mc(3) by (simp_all add: delays_fit_def)
  have paths: "on_paths delta topo st"
  proof -
    have "(0, ev_to ev) \<in> mesh_edges topo ^^ 1 \<and> ev_time ev = 1 * delta" if "ev \<in> set (ss_queue st)" for ev
      using that q tn deg(1) by (auto simp: mesh_edges_def)
    moreover have "(0, i) \<in> mesh_edges topo ^^ 0 \<and> t = 0 * delta"
      if "i < n" "ss_decode_times st ! i = Some t" for i t
      using that by (cases i) (simp_all add: dt)
    ultimately show ?thesis using tn unfolding on_paths_def by blast
  qed
  have "\<exists>st'. event_loop pop mc self topo st = Some (Inr st') \<and> ss_queue st' = [] \<and>
      (balanced st' \<and> on_paths delta topo st') \<and>
      sim_ok (node c self b) (packet c self b) (st_can_decode (strat c) self) (room c) delta
        (delta * Suc (n * Suc (capacity c))) topo st'"
  proof (rule event_loop_ok [OF rd mc(1) pop delay ok])
    show "balanced st \<and> on_paths delta topo st" using bal paths by simp
    fix st1 st2
    assume J: "balanced st1 \<and> on_paths delta topo st1"
      and ok1: "sim_ok (node c self b) (packet c self b) (st_can_decode (strat c) self) (room c) delta
        (delta * Suc (n * Suc (capacity c))) topo st1"
      and ne: "ss_queue st1 \<noteq> []"
      and run: "handle_event mc self topo (fst (pop (ss_queue st1)))
        (st1\<lparr>ss_queue := snd (pop (ss_queue st1))\<rparr>) = Inr st2"
    have "balanced st2" using handle_event_balanced [OF run] J by (simp add: balanced_def)
    with on_paths_step [OF rd mc(1) pop delay _ ok1 ne run] J
    show "balanced st2 \<and> on_paths delta topo st2" by simp
  qed
  then obtain st' where
    loop: "event_loop pop mc self topo st = Some (Inr st')" "ss_queue st' = []"
      "balanced st'" "on_paths delta topo st'"
    and ok': "sim_ok (node c self b) (packet c self b) (st_can_decode (strat c) self) (room c) delta
      (delta * Suc (n * Suc (capacity c))) topo st'"
    by (elim exE conjE) (rule that)
  have "hops topo i * delta \<le> t \<and> st_decode (strat c) self (ss_states st' ! i) (byte_len c b) = Inr b"
    if "i < n" "ss_decode_times st' ! i = Some t" for i t
  proof
    show "hops topo i * delta \<le> t" using on_paths_time [OF loop(4)] that tn by simp
    show "st_decode (strat c) self (ss_states st' ! i) (byte_len c b) = Inr b"
      using ok' that tn by (intro decode [OF rd]) (simp_all add: sim_ok_def Let_def)
  qed
  moreover have "length (ss_decode_times st') = n \<and>
      (\<forall>i < n. \<forall>t. ss_decode_times st' ! i = Some t \<longrightarrow> t \<le> delta * Suc (n * Suc (capacity c)))"
    using ok' tn by (simp add: sim_ok_def Let_def)
  ultimately show ?thesis using start mesh loop sok' by (auto simp: sim_run_def balanced_def)
qed

end

text \<open>
  With a strategy that forwards after decoding and whose nodes decode from any one packet, the
  simulation is a breadth-first search of the mesh. \<open>wavefront\<close> is its invariant: a decoded node was
  decoded after as many packet times as its distance, and each of its peers is decoded or has a
  packet under way; packets travel along paths.
\<close>

definition wavefront :: "nat \<Rightarrow> topology \<Rightarrow> ('s, 'p, 'r) sim_state \<Rightarrow> bool" where
  "wavefront delta topo st \<longleftrightarrow> ss_decode_times st ! 0 = Some 0 \<and>
     (\<forall>i < tp_num_nodes topo. \<forall>t. ss_decode_times st ! i = Some t \<longrightarrow> t = hops topo i * delta \<and>
       (\<forall>j \<in> set (tp_neighbors topo ! i). ss_decode_times st ! j \<noteq> None \<or>
         (\<exists>ev \<in> set (ss_queue st). ev_to ev = j \<and> ev_time ev = Suc (hops topo i) * delta))) \<and>
     (\<forall>ev \<in> set (ss_queue st). \<exists>k. (0, ev_to ev) \<in> mesh_edges topo ^^ k \<and> ev_time ev = k * delta)"

lemma wavefront_link:
  "wavefront delta topo st \<Longrightarrow> i < tp_num_nodes topo \<Longrightarrow> ss_decode_times st ! i \<noteq> None \<Longrightarrow>
   j \<in> set (tp_neighbors topo ! i) \<Longrightarrow> ss_decode_times st ! j \<noteq> None \<or>
     (\<exists>ev \<in> set (ss_queue st). ev_to ev = j \<and> ev_time ev = Suc (hops topo i) * delta)"
  unfolding wavefront_def by blast

lemma wavefront_reaches:
  assumes w: "wavefront delta topo st" and n: "0 < tp_num_nodes topo"
  shows "(0, j) \<in> mesh_edges topo ^^ k \<Longrightarrow>
    ss_decode_times st ! j \<noteq> None \<or> (\<exists>ev \<in> set (ss_queue st). ev_time ev \<le> k * delta)"
proof (induction k arbitrary: j)
  case 0
  then show ?case using w by (simp add: wavefront_def)
next
  case (Suc k)
  then obtain i where i: "(0, i) \<in> mesh_edges topo ^^ k" and e: "(i, j) \<in> mesh_edges topo" by auto
  from Suc.IH [OF i] show ?case
  proof
    assume "ss_decode_times st ! i \<noteq> None"
    with w e have "ss_decode_times st ! j \<noteq> None \<or>
        (\<exists>ev \<in> set (ss_queue st). ev_to ev = j \<and> ev_time ev = Suc (hops topo i) * delta)"
      by (intro wavefront_link) (auto simp: mesh_edges_def)
    moreover have "Suc (hops topo i) * delta \<le> Suc k * delta"
      using hops_le [OF i] by (intro mult_le_mono1) simp
    ultimately show ?thesis by (metis (no_types))
  next
    assume "\<exists>ev \<in> set (ss_queue st). ev_time ev \<le> k * delta"
    then show ?thesis by (metis mult_Suc trans_le_add2)
  qed
qed

text \<open>
  One event moves the wave. An event for an undecoded node is the earliest packet that reaches it, so
  its time is the distance of the node (\<open>first_contact\<close>); the node then decodes at that time and its
  packets carry the wave one link further (\<open>wavefront_grows\<close>).
\<close>

lemma first_contact:
  assumes w: "wavefront delta topo st" and ev: "ev \<in> set (ss_queue st)"
    and least: "\<forall>e \<in> set (ss_queue st). ev_time ev \<le> ev_time e"
    and d: "ev_to ev < tp_num_nodes topo" "ss_decode_times st ! ev_to ev = None"
  shows "ev_time ev = hops topo (ev_to ev) * delta"
proof (rule antisym)
  from w ev obtain k where k: "(0, ev_to ev) \<in> mesh_edges topo ^^ k" "ev_time ev = k * delta"
    by (auto simp: wavefront_def)
  have "(0, ev_to ev) \<in> mesh_edges topo ^^ hops topo (ev_to ev)"
    by (rule hops_path) (use k(1) relpow_imp_rtrancl in blast)
  from wavefront_reaches [OF w _ this] d obtain e where
    "e \<in> set (ss_queue st)" "ev_time e \<le> hops topo (ev_to ev) * delta" by auto
  with least show "ev_time ev \<le> hops topo (ev_to ev) * delta" using le_trans by blast
  show "hops topo (ev_to ev) * delta \<le> ev_time ev"
    unfolding k(2) by (rule mult_le_mono1) (rule hops_le [OF k(1)])
qed

lemma wavefront_path:
  assumes w: "wavefront delta topo st" and ev: "ev \<in> set (ss_queue st)" "ev_to ev < tp_num_nodes topo"
    and e: "ev_to e \<in> set (tp_neighbors topo ! ev_to ev)" "ev_time e = ev_time ev + delta"
  shows "\<exists>k. (0, ev_to e) \<in> mesh_edges topo ^^ k \<and> ev_time e = k * delta"
proof -
  from w ev obtain k where k: "(0, ev_to ev) \<in> mesh_edges topo ^^ k" "ev_time ev = k * delta"
    by (auto simp: wavefront_def)
  from ev(2) e(1) have "(ev_to ev, ev_to e) \<in> mesh_edges topo" by (simp add: mesh_edges_def)
  with k(1) have "(0, ev_to e) \<in> mesh_edges topo ^^ Suc k" by auto
  with e(2) k(2) show ?thesis by (intro exI [of _ "Suc k"]) simp
qed

lemma wavefront_grows:
  assumes w: "wavefront delta topo st1" and sub: "set (ss_queue st1) = insert ev (set q)"
    and least: "\<forall>e \<in> set (ss_queue st1). ev_time ev \<le> ev_time e"
    and d: "ev_to ev < tp_num_nodes topo"
    and q2: "ss_queue st2 = evs @ q" and times: "\<forall>e \<in> set evs. ev_time e = ev_time ev + delta"
    and other: "\<And>i. i \<noteq> ev_to ev \<Longrightarrow> ss_decode_times st2 ! i = ss_decode_times st1 ! i"
    and now: "ss_decode_times st2 ! ev_to ev = (if ss_decode_times st1 ! ev_to ev = None
      then Some (ev_time ev) else ss_decode_times st1 ! ev_to ev)"
    and fwd: "if ss_decode_times st1 ! ev_to ev = None
      then set (map ev_to evs) = set (tp_neighbors topo ! ev_to ev) else evs = []"
  shows "wavefront delta topo st2"
proof -
  let ?d = "ev_to ev"
  have ev: "ev \<in> set (ss_queue st1)" using sub by simp
  note first = first_contact [OF w ev least d]
  have keep: "ss_decode_times st2 ! i = ss_decode_times st1 ! i" if "ss_decode_times st1 ! i \<noteq> None" for i
    using that other [of i] now by (cases "i = ?d") simp_all
  have "t = hops topo i * delta \<and> (\<forall>j \<in> set (tp_neighbors topo ! i). ss_decode_times st2 ! j \<noteq> None \<or>
      (\<exists>ev \<in> set (ss_queue st2). ev_to ev = j \<and> ev_time ev = Suc (hops topo i) * delta))"
    if i: "i < tp_num_nodes topo" "ss_decode_times st2 ! i = Some t" for i t
  proof (cases "ss_decode_times st1 ! i")
    case None
    with i other [of i] have d: "i = ?d" by (cases "i = ?d") auto
    with None fwd have "set (tp_neighbors topo ! i) = ev_to ` set evs" by simp
    with d None i(2) now first times q2 show ?thesis by auto
  next
    case (Some u)
    with keep [of i] i w have "t = hops topo i * delta" by (auto simp: wavefront_def)
    moreover have "ss_decode_times st2 ! j \<noteq> None \<or>
        (\<exists>ev \<in> set (ss_queue st2). ev_to ev = j \<and> ev_time ev = Suc (hops topo i) * delta)"
      if j: "j \<in> set (tp_neighbors topo ! i)" for j
    proof -
      from wavefront_link [OF w i(1) _ j] Some have "ss_decode_times st1 ! j \<noteq> None \<or>
          (\<exists>ev \<in> set (ss_queue st1). ev_to ev = j \<and> ev_time ev = Suc (hops topo i) * delta)" by simp
      then show ?thesis using keep now sub q2 by (auto split: if_splits)
    qed
    ultimately show ?thesis by blast
  qed
  moreover have "\<exists>k. (0, ev_to e) \<in> mesh_edges topo ^^ k \<and> ev_time e = k * delta"
    if e: "e \<in> set (ss_queue st2)" for e
  proof (cases "e \<in> set evs")
    case True
    then have "ev_to e \<in> set (tp_neighbors topo ! ?d)" using fwd by (auto split: if_splits)
    from wavefront_path [OF w ev d this] times True show ?thesis by simp
  next
    case False
    with e q2 w sub show ?thesis by (auto simp: wavefront_def)
  qed
  moreover have "ss_decode_times st2 ! 0 = Some 0" using w keep [of 0] by (simp add: wavefront_def)
  ultimately show ?thesis unfolding wavefront_def by blast
qed

context honest_strategy
begin

lemma wavefront_step:
  assumes rd: "ready c self b" and mc: "mc_strategy mc = strat c" and pop: "pop_ok pop"
    and del: "transmission_delay (mc_hop_latency mc) (packet_len c b) (mc_bandwidth mc) = Inr delta"
      "T < 2 ^ 64 * nanos_per_sec"
    and after: "st_forward_condition (strat c) = AfterDecode"
    and one: "\<And>self b s p s' r. ready c self b \<Longrightarrow> node c self b s \<Longrightarrow> packet c self b p \<Longrightarrow>
      st_receive (strat c) self s p = Inr (s', Inr r) \<Longrightarrow> st_can_decode (strat c) self s'"
    and w: "wavefront delta topo st1"
    and ok: "sim_ok (node c self b) (packet c self b) (st_can_decode (strat c) self) (room c) delta T topo st1"
    and ne: "ss_queue st1 \<noteq> []"
    and run: "handle_event mc self topo (fst (pop (ss_queue st1)))
        (st1\<lparr>ss_queue := snd (pop (ss_queue st1))\<rparr>) = Inr st2"
  shows "wavefront delta topo st2"
proof -
  let ?ev = "fst (pop (ss_queue st1))" and ?q = "snd (pop (ss_queue st1))"
  let ?st = "st1\<lparr>ss_queue := ?q\<rparr>" and ?d = "ev_to (fst (pop (ss_queue st1)))"
  have ms: "mset (ss_queue st1) = add_mset ?ev (mset ?q)"
    and least: "\<forall>e \<in> set (ss_queue st1). ev_time ?ev \<le> ev_time e" using pop ne by (simp_all add: pop_ok_def)
  then have sub: "set (ss_queue st1) = insert ?ev (set ?q)"
    by (metis set_mset_add_mset_insert set_mset_mset)
  have ok': "sim_ok (node c self b) (packet c self b) (st_can_decode (strat c) self) (room c) delta T topo ?st"
    using ok sub by (simp add: sim_ok_def Let_def)
  have ev: "?d < tp_num_nodes topo" "packet c self b (ev_packet ?ev)"
    "ev_time ?ev + potential (room c) (ss_states ?st) (ss_decode_times ?st) * delta \<le> T"
    using ok sub by (simp_all add: sim_ok_def Let_def)
  from handle_event_ok [OF rd mc ok' ev del] obtain st3 evs where
    run3: "handle_event mc self topo ?ev ?st = Inr st3"
    and H: "ss_queue st3 = evs @ ss_queue ?st"
      "\<forall>e \<in> set evs. ev_time e = ev_time ?ev + delta"
      "ss_decode_times ?st ! ?d \<noteq> None \<longrightarrow> evs = []" "set (map ev_to evs) \<subseteq> set (tp_neighbors topo ! ?d)"
      "\<forall>i. ss_decode_times ?st ! i \<noteq> None \<longrightarrow> ss_decode_times st3 ! i = ss_decode_times ?st ! i"
      "ss_decode_times ?st ! ?d = None \<longrightarrow> ss_decode_times st3 ! ?d \<in> {None, Some (ev_time ?ev)}"
      "\<forall>i. i \<noteq> ?d \<longrightarrow> ss_decode_times st3 ! i = ss_decode_times ?st ! i"
      "st_forward_condition (strat c) = AfterDecode \<longrightarrow> ss_decode_times ?st ! ?d = None \<longrightarrow>
        ss_decode_times st3 ! ?d \<noteq> None \<longrightarrow> set (map ev_to evs) = set (tp_neighbors topo ! ?d)"
      "ss_decode_times ?st ! ?d = None \<longrightarrow>
        (\<exists>r s'. st_receive (strat c) self (ss_states ?st ! ?d) (ev_packet ?ev) = Inr (s', Inr r) \<and>
          (st_can_decode (strat c) self s' \<longrightarrow> ss_decode_times st3 ! ?d \<noteq> None))"
    by (elim exE conjE) (rule that)
  have [simp]: "st3 = st2" using run run3 by simp
  have nd: "node c self b (ss_states st1 ! ?d)" using ok ev(1) by (simp add: sim_ok_def Let_def)
  have now: "ss_decode_times st2 ! ?d = (if ss_decode_times st1 ! ?d = None then Some (ev_time ?ev)
      else ss_decode_times st1 ! ?d)"
    using H(5,6,9) one [OF rd nd ev(2)] by (cases "ss_decode_times st1 ! ?d") auto
  show ?thesis
  proof (rule wavefront_grows [OF w sub least ev(1) _ H(2) _ now])
    show "ss_queue st2 = evs @ ?q" using H(1) by simp
    show "ss_decode_times st2 ! i = ss_decode_times st1 ! i" if "i \<noteq> ?d" for i
      using H(7) that by simp
    show "if ss_decode_times st1 ! ?d = None then set (map ev_to evs) = set (tp_neighbors topo ! ?d)
        else evs = []" using H(3,8) now after by simp
  qed
qed

lemma sim_breadth_first:
  assumes sok: "self_ok c self0" and ft: "fits c b" and pop: "pop_ok pop"
    and mc: "mc_strategy mc = strat c" "mc_self mc = self0" "mc_num_nodes mc = n" "mc_mesh_degree mc = D"
    and perm: "\<And>xs r. mset (fst (lb_shuffle lb xs r)) = mset xs"
      "\<And>xs k r. mset (fst (lb_partial_shuffle lb xs k r)) = mset xs"
    and deg: "D < n" "0 < D \<or> n = 1"
    and del: "delays_fit mc (packet_len c b) (capacity c) delta"
    and after: "st_forward_condition (strat c) = AfterDecode"
    and one: "\<And>self b s p s' r. ready c self b \<Longrightarrow> node c self b s \<Longrightarrow> packet c self b p \<Longrightarrow>
      st_receive (strat c) self s p = Inr (s', Inr r) \<Longrightarrow> st_can_decode (strat c) self s'"
  shows "\<exists>topo rng' m. random_mesh (lb_shuffle lb) (lb_partial_shuffle lb) n D rng = Inr (topo, rng') \<and>
    sim_run lb pop mc b rng = Some (Inr m) \<and> sm_nodes_decoded m = n \<and>
    sm_decode_times m = map (\<lambda>i. Some (hops topo i * delta)) [0..<n]"
proof -
  from sim_start_ok [OF sok ft mc perm deg del, of rng] obtain self topo rng' st where
    start: "sim_start lb mc b rng = Inr (self, topo, byte_len c b, st)"
    and mesh: "random_mesh (lb_shuffle lb) (lb_partial_shuffle lb) n D rng = Inr (topo, rng')"
    and rd: "ready c self b" and tn: "tp_num_nodes topo = n"
    and ok: "sim_ok (node c self b) (packet c self b) (st_can_decode (strat c) self) (room c) delta
      (delta * Suc (n * Suc (capacity c))) topo st"
    and reach: "\<forall>j < n. (0, j) \<in> (mesh_edges topo)\<^sup>*"
    and dt: "ss_decode_times st = (replicate n None)[0 := Some 0]"
    and q: "set (map ev_to (ss_queue st)) = set (tp_neighbors topo ! 0)"
    and at: "\<forall>ev \<in> set (ss_queue st). ev_time ev = delta" by (elim exE conjE) (rule that)
  have delay: "transmission_delay (mc_hop_latency mc) (packet_len c b) (mc_bandwidth mc) = Inr delta"
    "delta * Suc (n * Suc (capacity c)) < 2 ^ 64 * nanos_per_sec" using del mc(3) by (simp_all add: delays_fit_def)
  have n: "0 < n" using deg(1) by simp
  have w0: "wavefront delta topo st"
    unfolding wavefront_def
  proof (intro conjI allI impI ballI)
    show "ss_decode_times st ! 0 = Some 0" using n by (simp add: dt)
  next
    fix i t assume i: "i < tp_num_nodes topo" "ss_decode_times st ! i = Some t"
    then have z: "i = 0" "t = 0" by (cases i; simp add: dt tn)+
    then show "t = hops topo i * delta" by simp
    fix j assume "j \<in> set (tp_neighbors topo ! i)"
    with z q at show "ss_decode_times st ! j \<noteq> None \<or>
        (\<exists>ev \<in> set (ss_queue st). ev_to ev = j \<and> ev_time ev = Suc (hops topo i) * delta)" by force
  next
    fix ev assume ev: "ev \<in> set (ss_queue st)"
    with q have "ev_to ev \<in> set (tp_neighbors topo ! 0)" by auto
    with n tn have "(0, ev_to ev) \<in> mesh_edges topo" by (simp add: mesh_edges_def)
    with at ev show "\<exists>k. (0, ev_to ev) \<in> mesh_edges topo ^^ k \<and> ev_time ev = k * delta"
      by (intro exI [of _ 1]) simp
  qed
  have "\<exists>st'. event_loop pop mc self topo st = Some (Inr st') \<and> ss_queue st' = [] \<and>
      wavefront delta topo st' \<and>
      sim_ok (node c self b) (packet c self b) (st_can_decode (strat c) self) (room c) delta
        (delta * Suc (n * Suc (capacity c))) topo st'"
    by (rule event_loop_ok [where J = "wavefront delta topo", OF rd mc(1) pop delay ok w0])
       (rule wavefront_step [OF rd mc(1) pop delay after one])
  then obtain st' where
    loop: "event_loop pop mc self topo st = Some (Inr st')" "ss_queue st' = []"
    and w: "wavefront delta topo st'"
    and ok': "sim_ok (node c self b) (packet c self b) (st_can_decode (strat c) self) (room c) delta
      (delta * Suc (n * Suc (capacity c))) topo st'"
    by (elim exE conjE) (rule that)
  have all: "ss_decode_times st' ! j = Some (hops topo j * delta)" if "j < n" for j
  proof -
    have "(0, j) \<in> mesh_edges topo ^^ hops topo j" using reach that by (simp add: hops_path)
    from wavefront_reaches [OF w _ this] n tn loop(2) have "ss_decode_times st' ! j \<noteq> None" by simp
    with w that tn show ?thesis by (auto simp: wavefront_def)
  qed
  have len: "length (ss_decode_times st') = n" using ok' tn by (simp add: sim_ok_def Let_def)
  then have eq: "ss_decode_times st' = map (\<lambda>i. Some (hops topo i * delta)) [0..<n]"
    using all by (intro nth_equalityI) simp_all
  have "filter (\<lambda>t. t \<noteq> None) (ss_decode_times st') = ss_decode_times st'"
    unfolding eq by (simp add: filter_id_conv)
  with mesh start loop(1) eq show ?thesis
    by (simp add: sim_run_def sim_metrics_of_def Let_def)
qed

end

section \<open>The report\<close>

lemma time_at_sorted:
  "sorted ts \<Longrightarrow> i \<le> j \<Longrightarrow> j < length ts \<Longrightarrow> time_at ts i \<le> time_at ts j"
  by (simp add: time_at_def sorted_nth_mono)

text \<open>The indices of the 50th and the 99th percentile, in order.\<close>

lemma percentile_indices:
  assumes "0 < len"
  shows "percentile_idx len (1 / 2) \<le> percentile_idx len (f64_round (99 / 100))"
    "percentile_idx len (f64_round (99 / 100)) < len"
proof -
  have "f64_round (1 / 2) \<le> f64_round (99 / 100)" by (rule f64_round_mono) simp_all
  then show "percentile_idx len (1 / 2) \<le> percentile_idx len (f64_round (99 / 100))"
    by (intro percentile_idx_mono) simp_all
qed (rule percentile_idx_less [OF assms])

lemma sorted_prefix_count:
  assumes "sorted ts" "i < length ts"
  shows "Suc i \<le> length (filter (\<lambda>t. t \<le> ts ! i) ts)"
proof -
  have "filter (\<lambda>t. t \<le> ts ! i) (take (Suc i) ts) = take (Suc i) ts"
    using assms by (auto simp: filter_id_conv in_set_conv_nth less_Suc_eq_le sorted_iff_nth_mono)
  then have "Suc i = length (filter (\<lambda>t. t \<le> ts ! i) (take (Suc i) ts))" using assms(2) by simp
  also have "\<dots> \<le> length (filter (\<lambda>t. t \<le> ts ! i) (take (Suc i) ts @ drop (Suc i) ts))"
    unfolding filter_append by simp
  finally show ?thesis by (simp only: append_take_drop_id)
qed

end
