(* ===== verification/Network.thy ===== *)
theory Network
  imports Engine_Facts
begin

text \<open>
  The abstract specification of block propagation: nodes of one strategy and the set of packets that
  have ever been sent. A packet may reach any node, at any time, any number of times; a node that
  learned something or can decode may send out any number of forwarded packets. Schedules, delays,
  topologies and forwarding conditions are all instances of it.

  A strategy that keeps the contract \<open>honest_strategy\<close> never panics in a reachable network, and what
  its nodes decode is the proposer's block. The simulation engine refines the network: handling an
  event is one step of it or none.
\<close>

section \<open>The step relation\<close>

record ('s, 'p) network =
  nw_nodes :: "'s list"
  nw_sent :: "'p set"

inductive net_step ::
  "('self, 's, 'p, 'r) strategy \<Rightarrow> 'self \<Rightarrow> ('s, 'p) network \<Rightarrow> ('s, 'p) network run \<Rightarrow> bool"
  for S self where
  deliver: "net_step S self w (Inr (w\<lparr>nw_nodes := (nw_nodes w)[i := s']\<rparr>))"
    if "i < length (nw_nodes w)" "p \<in> nw_sent w"
      "st_receive S self (nw_nodes w ! i) p = Inr (s', r)"
| deliver_panic: "net_step S self w (Inl e)"
    if "i < length (nw_nodes w)" "p \<in> nw_sent w" "st_receive S self (nw_nodes w ! i) p = Inl e"
| relay: "net_step S self w
      (Inr (w\<lparr>nw_nodes := (nw_nodes w)[i := s'], nw_sent := nw_sent w \<union> set ps\<rparr>))"
    if "i < length (nw_nodes w)" "p \<in> nw_sent w"
      "st_receive S self (nw_nodes w ! i) p = Inr (s', Inr r)" "r \<or> st_can_decode S self s'"
      "st_forward S self s' k rng = Inr (ps, rng')"
| relay_panic: "net_step S self w (Inl e)"
    if "i < length (nw_nodes w)" "p \<in> nw_sent w"
      "st_receive S self (nw_nodes w ! i) p = Inr (s', Inr r)" "r \<or> st_can_decode S self s'"
      "st_forward S self s' k rng = Inl e"

inductive_cases net_step_panicE: "net_step S self w (Inl e)"
inductive_cases net_step_okE: "net_step S self w (Inr w')"

inductive net_reach ::
  "('self, 's, 'p, 'r) strategy \<Rightarrow> 'self \<Rightarrow> ('s, 'p) network \<Rightarrow> ('s, 'p) network run \<Rightarrow> bool"
  for S self w where
  start: "net_reach S self w (Inr w)"
| step: "net_reach S self w (Inr w') \<Longrightarrow> net_step S self w' r \<Longrightarrow> net_reach S self w r"

text \<open>The network after the proposer's \<open>k\<close> packets are out, with \<open>n\<close> receivers.\<close>

definition net_start ::
  "('self, 's, 'p, 'r) strategy \<Rightarrow> 'self \<Rightarrow> block \<Rightarrow> nat \<Rightarrow> nat \<Rightarrow> 'r \<Rightarrow> ('self \<times> nat \<times> ('s, 'p) network) run" where
  "net_start S self b k n rng =
     bindR (st_init_proposer S self b k rng) (\<lambda>((self', s, ps, byte_len), rng').
     bindR (mapR (\<lambda>_. st_init_receiver S self') [0..<n]) (\<lambda>receivers.
       Inr (self', byte_len, \<lparr>nw_nodes = s # receivers, nw_sent = set ps\<rparr>)))"

section \<open>Safety\<close>

definition net_ok :: "('s \<Rightarrow> bool) \<Rightarrow> ('p \<Rightarrow> bool) \<Rightarrow> ('s, 'p) network \<Rightarrow> bool" where
  "net_ok node packet w \<longleftrightarrow> (\<forall>s \<in> set (nw_nodes w). node s) \<and> (\<forall>p \<in> nw_sent w. packet p)"

lemma net_ok_node: "net_ok node packet w \<Longrightarrow> i < length (nw_nodes w) \<Longrightarrow> node (nw_nodes w ! i)"
  by (simp add: net_ok_def)

lemma net_ok_update:
  assumes "net_ok node packet w" "node s'" "\<forall>p \<in> P. packet p"
  shows "net_ok node packet (w\<lparr>nw_nodes := (nw_nodes w)[i := s'], nw_sent := nw_sent w \<union> P\<rparr>)"
  using assms by (auto simp: net_ok_def dest: set_update_subset_insert [THEN subsetD])

lemma net_ok_update_node:
  assumes "net_ok node packet w" "node s'"
  shows "net_ok node packet (w\<lparr>nw_nodes := (nw_nodes w)[i := s']\<rparr>)"
  using assms by (auto simp: net_ok_def dest: set_update_subset_insert [THEN subsetD])

context honest_strategy
begin

lemma net_step_ok:
  assumes rd: "ready c self b" and run: "net_step (strat c) self w r"
    and ok: "net_ok (node c self b) (packet c self b) w"
  shows "\<exists>w'. r = Inr w' \<and> net_ok (node c self b) (packet c self b) w'"
proof -
  have rcv: "\<exists>s' r. st_receive (strat c) self (nw_nodes w ! i) p = Inr (s', Inr r) \<and>
      node c self b s' \<and> (r \<or> st_can_decode (strat c) self s' \<longrightarrow> fed c s')"
    if "i < length (nw_nodes w)" "p \<in> nw_sent w" for i p
    using receive [OF rd net_ok_node [OF ok that(1)], of p] can_decode_fed [OF rd] ok that(2)
    unfolding net_ok_def by metis
  show ?thesis
    using run
  proof cases
    case (deliver i p s' r')
    with rcv [OF deliver(2,3)] show ?thesis by (auto intro: net_ok_update_node [OF ok])
  next
    case (deliver_panic i p e)
    with rcv [OF deliver_panic(2,3)] show ?thesis by auto
  next
    case (relay i p s' r' k rng ps rng')
    with rcv [OF relay(2,3)] have "node c self b s'" "fed c s'" by auto
    from forward [OF rd this, of k rng] relay have "\<forall>p \<in> set ps. packet c self b p" by auto
    with relay(1) \<open>node c self b s'\<close> show ?thesis by (auto intro: net_ok_update [OF ok])
  next
    case (relay_panic i p s' r' k rng e)
    with rcv [OF relay_panic(2,3)] have "node c self b s'" "fed c s'" by auto
    from forward [OF rd this, of k rng] relay_panic show ?thesis by auto
  qed
qed

lemma net_reach_ok:
  assumes "net_reach (strat c) self w r" and "ready c self b"
    and "net_ok (node c self b) (packet c self b) w"
  shows "\<exists>w'. r = Inr w' \<and> net_ok (node c self b) (packet c self b) w'"
  using assms by (induction rule: net_reach.induct) (auto dest: net_step_ok)

text \<open>From any proposal, whatever the network does next.\<close>

lemma network_safe:
  assumes "self_ok c self" "fits c b"
  shows "\<exists>self' w. net_start (strat c) self b k n rng = Inr (self', byte_len c b, w) \<and>
    length (nw_nodes w) = Suc n \<and> st_can_decode (strat c) self' (nw_nodes w ! 0) \<and>
    (\<forall>r. net_reach (strat c) self' w r \<longrightarrow>
      (\<exists>w'. r = Inr w' \<and> (\<forall>s \<in> set (nw_nodes w'). st_can_decode (strat c) self' s \<longrightarrow>
        st_decode (strat c) self' s (byte_len c b) = Inr b)))"
proof -
  from init_proposer [OF assms, of k rng] obtain self' s ps rng' where
    p: "st_init_proposer (strat c) self b k rng = Inr ((self', s, ps, byte_len c b), rng')"
    and rd: "ready c self' b" and nd: "node c self' b s" "st_can_decode (strat c) self' s"
    and pk: "\<forall>p \<in> set ps. packet c self' b p" by (elim exE conjE) (rule that)
  from init_receiver [OF rd] obtain s0 where
    s0: "st_init_receiver (strat c) self' = Inr s0" "node c self' b s0" by blast
  let ?w = "\<lparr>nw_nodes = s # replicate n s0, nw_sent = set ps\<rparr>"
  have "mapR (\<lambda>_. st_init_receiver (strat c) self') [0..<n] = Inr (replicate n s0)"
    using mapR_pure [where xs = "[0..<n]" and f = "\<lambda>_. st_init_receiver (strat c) self'" and g = "\<lambda>_. s0"]
    by (simp add: s0(1) map_replicate_const)
  then have "net_start (strat c) self b k n rng = Inr (self', byte_len c b, ?w)"
    by (simp add: net_start_def p)
  moreover have ok: "net_ok (node c self' b) (packet c self' b) ?w"
    using nd(1) s0(2) pk by (simp add: net_ok_def)
  have "\<exists>w'. r = Inr w' \<and> (\<forall>s \<in> set (nw_nodes w'). st_can_decode (strat c) self' s \<longrightarrow>
      st_decode (strat c) self' s (byte_len c b) = Inr b)" if "net_reach (strat c) self' ?w r" for r
    using net_reach_ok [OF that rd ok] decode [OF rd] by (auto simp: net_ok_def)
  ultimately show ?thesis using nd(2) by (intro exI [of _ self'] exI [of _ ?w]) simp
qed

end

section \<open>The engine refines the network\<close>

definition sim_refines :: "('s, 'p, 'r) sim_state \<Rightarrow> ('s, 'p) network \<Rightarrow> bool" where
  "sim_refines st w \<longleftrightarrow> nw_nodes w = ss_states st \<and> ev_packet ` set (ss_queue st) \<subseteq> nw_sent w"

lemma transmit_effect:
  assumes "transmit mc self src now (peer, p) st = Inr st'"
  shows "ss_states st' = ss_states st \<and>
    ev_packet ` set (ss_queue st') = insert p (ev_packet ` set (ss_queue st))"
  using assms by (auto simp: transmit_def Let_def bindR_eq_Inr)

lemma transmits_effect:
  assumes "foldR (transmit mc self src now) pps st = Inr st'"
  shows "ss_states st' = ss_states st \<and>
    ev_packet ` set (ss_queue st') = snd ` set pps \<union> ev_packet ` set (ss_queue st)"
  using assms
proof (induction pps arbitrary: st)
  case (Cons pp pps)
  then obtain st1 where "transmit mc self src now pp st = Inr st1"
    "foldR (transmit mc self src now) pps st1 = Inr st'" by (auto simp: bindR_eq_Inr)
  with Cons.IH transmit_effect [of mc self src now "fst pp" "snd pp" st st1] show ?case by auto
qed simp

lemma forward_step_effect:
  assumes "forward_step mc self topo dest now s st = Inr st'"
  obtains ps k rng' where "st_forward (mc_strategy mc) self s k (ss_rng st) = Inr (ps, rng')"
    "ss_states st' = ss_states st"
    "ev_packet ` set (ss_queue st') \<subseteq> set ps \<union> ev_packet ` set (ss_queue st)"
proof -
  from assms obtain fw peers ps rng' where
    f: "st_forward (mc_strategy mc) self s (length peers) (ss_rng st) = Inr (ps, rng')"
    and t: "foldR (transmit mc self dest now) (zip peers ps)
       (st\<lparr>ss_has_forwarded := fw, ss_rng := rng'\<rparr>) = Inr st'"
    by (auto simp: forward_step_def bindR_eq_Inr)
  show thesis
    by (rule that [OF f]) (use transmits_effect [OF t] in \<open>auto dest: set_zip_rightD\<close>)
qed

lemma handle_event_refines:
  assumes run: "handle_event mc self topo ev st = Inr st'"
    and rel: "sim_refines st w" and p: "ev_packet ev \<in> nw_sent w"
  shows "\<exists>w'. (w' = w \<or> net_step (mc_strategy mc) self w (Inr w')) \<and> sim_refines st' w'"
proof -
  let ?S = "mc_strategy mc" and ?d = "ev_to ev"
  from run obtain decoded where d: "idx (ss_decode_times st) ?d = Inr decoded"
    by (auto simp: handle_event_def bindR_eq_Inr Let_def)
  show ?thesis
  proof (cases decoded)
    case (Some t)
    with run d rel show ?thesis by (auto simp: handle_event_def Let_def)
  next
    case None
    with run d obtain s s' result where s: "idx (ss_states st) ?d = Inr s"
      and rcv: "st_receive ?S self s (ev_packet ev) = Inr (s', result)"
      by (auto simp: handle_event_def bindR_eq_Inr Let_def)
    from s have i: "?d < length (nw_nodes w)" "nw_nodes w ! ?d = s"
      using rel by (auto simp: idx_def sim_refines_def split: if_splits)
    let ?w = "w\<lparr>nw_nodes := (nw_nodes w)[?d := s']\<rparr>"
    have quiet: ?thesis
      if "ss_states st' = (ss_states st)[?d := s']" "ss_queue st' = ss_queue st"
    proof -
      have "net_step ?S self w (Inr ?w)" using i p rcv by (intro net_step.deliver) simp_all
      then show ?thesis using that rel by (intro exI [of _ ?w]) (auto simp: sim_refines_def)
    qed
    show ?thesis
    proof (cases result)
      case (Inl e)
      with run d None s rcv show ?thesis by (intro quiet) (auto simp: handle_event_def Let_def)
    next
      case (Inr r)
      define st1 where "st1 = (let st = st\<lparr>ss_states := (ss_states st)[?d := s']\<rparr> in
          if r then st\<lparr>ss_useful_packets := ss_useful_packets st + 1\<rparr>
          else st\<lparr>ss_redundant_packets := ss_redundant_packets st + 1\<rparr>)"
      have st1: "ss_states st1 = (ss_states st)[?d := s']" "ss_queue st1 = ss_queue st"
        by (simp_all add: st1_def Let_def)
      let ?can = "st_can_decode ?S self s'"
      have "handle_event mc self topo ev st = bindR (idx (ss_has_forwarded st) ?d) (\<lambda>fw.
          bindR (if sim_should_forward (st_forward_condition ?S) ?can r fw
             then forward_step mc self topo ?d (ev_time ev) s' st1 else Inr st1) (\<lambda>st'.
            if ?can then bindR (upd (ss_decode_times st') ?d (Some (ev_time ev)))
                (\<lambda>times. Inr (st'\<lparr>ss_decode_times := times\<rparr>))
            else Inr st'))"
        using d None s rcv Inr by (cases r) (simp_all add: handle_event_def Let_def st1_def cong: if_cong)
      from run [unfolded this bindR_eq_Inr] obtain fw st2 where
        fwd: "(if sim_should_forward (st_forward_condition ?S) ?can r fw
           then forward_step mc self topo ?d (ev_time ev) s' st1 else Inr st1) = Inr st2"
        and fin: "ss_states st' = ss_states st2" "ss_queue st' = ss_queue st2"
        by (cases ?can) (auto simp: bindR_eq_Inr)
      show ?thesis
      proof (cases "sim_should_forward (st_forward_condition ?S) ?can r fw")
        case False
        with fwd fin st1 show ?thesis by (intro quiet) simp_all
      next
        case True
        then have go: "r \<or> ?can"
          by (auto simp: sim_should_forward_def split: forward_condition.splits)
        from True fwd have "forward_step mc self topo ?d (ev_time ev) s' st1 = Inr st2" by simp
        then obtain ps k rng' where f: "st_forward ?S self s' k (ss_rng st1) = Inr (ps, rng')"
          and eff: "ss_states st2 = ss_states st1"
            "ev_packet ` set (ss_queue st2) \<subseteq> set ps \<union> ev_packet ` set (ss_queue st1)"
          by (rule forward_step_effect)
        let ?w2 = "w\<lparr>nw_nodes := (nw_nodes w)[?d := s'], nw_sent := nw_sent w \<union> set ps\<rparr>"
        have "net_step ?S self w (Inr ?w2)"
          using i p rcv Inr by (intro net_step.relay [OF _ _ _ go f]) simp_all
        moreover have "sim_refines st' ?w2" using rel fin eff st1 by (auto simp: sim_refines_def)
        ultimately show ?thesis by blast
      qed
    qed
  qed
qed

text \<open>A whole run of the event loop is a run of the network.\<close>

lemma event_loop_refines:
  assumes pop: "pop_ok pop" and run: "event_loop pop mc self topo st = Some (Inr st')"
    and rel: "sim_refines st w"
  shows "\<exists>w'. net_reach (mc_strategy mc) self w (Inr w') \<and> sim_refines st' w'"
proof -
  let ?J = "\<lambda>st. \<exists>w'. net_reach (mc_strategy mc) self w (Inr w') \<and> sim_refines st w'"
  have "?J st" using rel by (blast intro: net_reach.start)
  then have "ss_queue st' = [] \<and> ?J st'"
  proof (rule event_loop_inv [OF run])
    fix st st1 ev q
    assume J: "?J st" and pq: "pop (ss_queue st) = (ev, q)" and ne: "ss_queue st \<noteq> []"
      and run: "handle_event mc self topo ev (st\<lparr>ss_queue := q\<rparr>) = Inr st1"
    from J obtain w' where w': "net_reach (mc_strategy mc) self w (Inr w')" "sim_refines st w'" by blast
    have "mset (ss_queue st) = add_mset ev (mset q)"
      using pop ne pq unfolding pop_ok_def by (metis fst_conv snd_conv)
    then have "set (ss_queue st) = insert ev (set q)"
      by (metis set_mset_add_mset_insert set_mset_mset)
    with w'(2) have "sim_refines (st\<lparr>ss_queue := q\<rparr>) w'" "ev_packet ev \<in> nw_sent w'"
      by (auto simp: sim_refines_def)
    from handle_event_refines [OF run this] w'(1) show "?J st1" by (metis net_reach.step)
  qed
  then show ?thesis ..
qed

end
