(* ===== verification/Bfkw.thy ===== *)
theory Bfkw
  imports Strategy_Core Crypto_Groups
begin

text \<open>
  \<open>crates/strategy/bfkw/src/bfkw.rs\<close> and \<open>pairing.rs\<close>: the linearly homomorphic signatures, with the
  hash points, the scheme, the proofs and the proposer's signer. The two source groups and the
  pairing-based verification of the library are the fields of \<open>bfkw_lib\<close>.

  The lemmas: a signature on a coded chunk verifies, and so does every homomorphic combination (an
  interpretation of \<open>coded_integrity\<close>); what acceptance means; which inputs panic.
\<close>

section \<open>Pairing group, proofs, context\<close>

record ('f, 'g1, 'g2) bfkw_lib =
  bf_g1 :: "('f, 'g1) group_ops"
  bf_g2 :: "('f, 'g2) group_ops"
  bf_minpk_verify :: "'g1 \<Rightarrow> 'g2 \<Rightarrow> 'g2 \<Rightarrow> bool"   \<comment> \<open>\<open>MinPk::verify(pk, hm, sig).is_ok()\<close>\<close>
  bf_g2_codec :: "'g2 codec"

definition pairing_check :: "('f, 'g1, 'g2) bfkw_lib \<Rightarrow> 'g1 \<Rightarrow> 'g2 \<Rightarrow> 'g2 \<Rightarrow> bool" where
  "pairing_check lib pk sigma p = bf_minpk_verify lib pk p sigma"

definition bfkw_dst :: bytes where
  "bfkw_dst = str_bytes ''RLNC-BFKW-H2G-v1''"

record 'g2 bfkw_proof =
  bp_sigma :: 'g2

record ('g1, 'g2) bfkw_context =
  bc_hash_points :: "'g2 list"
  bc_public_key :: 'g1

record ('f, 'g1) bfkw_signer =
  bs_sk :: 'f
  bs_pk :: 'g1

definition bfkw_integrity_proof :: "('f, 'g1, 'g2) bfkw_lib \<Rightarrow> 'g2 bfkw_proof integrity_proof" where
  "bfkw_integrity_proof lib =
     \<lparr>ip_serialize = (\<lambda>p. cd_write (bf_g2_codec lib) (bp_sigma p)),
      ip_deserialize = (\<lambda>buf. bindR (map_err BadSigma (cd_read (bf_g2_codec lib) buf))
         (\<lambda>(sigma, rest). Inr (\<lparr>bp_sigma = sigma\<rparr>, rest))),
      ip_wire_size = (\<lambda>p. cd_size (bf_g2_codec lib))\<rparr>"

section \<open>Scheme\<close>

definition bfkw_verify ::
  "('f, 'g1, 'g2) bfkw_lib \<Rightarrow> nat \<Rightarrow> ('g1, 'g2) bfkw_context \<Rightarrow> 'f coded_chunk \<Rightarrow> 'g2 bfkw_proof \<Rightarrow>
   (err + unit) run" where
  "bfkw_verify lib N ctx chunk proof =
     assertR (N \<le> length (bc_hash_points ctx)) TooFewHashPoints
       (let msg = chunk_v (cc_w chunk) @ cc_b chunk;
            p = g_msm (bf_g2 lib) (bc_hash_points ctx) msg in
        if pairing_check lib (bc_public_key ctx) (bp_sigma proof) p then Inr (Inr ())
        else Inr (Inl PairingMismatch))"

definition bfkw_combine ::
  "('f, 'g1, 'g2) bfkw_lib \<Rightarrow> 'g2 bfkw_proof list \<Rightarrow> 'f list \<Rightarrow> 'g2 bfkw_proof run" where
  "bfkw_combine lib proofs alphas =
     (let sigmas = map bp_sigma proofs in Inr \<lparr>bp_sigma = g_msm (bf_g2 lib) sigmas alphas\<rparr>)"

definition bfkw_scheme ::
  "('f, 'g1, 'g2) bfkw_lib \<Rightarrow> nat \<Rightarrow>
   (('g1, 'g2) bfkw_context, 'f, 'g2 bfkw_proof) integrity_scheme" where
  "bfkw_scheme lib N = \<lparr>is_verify = bfkw_verify lib N, is_combine = bfkw_combine lib\<rparr>"

definition derive_hash_points :: "('f, 'g1, 'g2) bfkw_lib \<Rightarrow> nat \<Rightarrow> bytes \<Rightarrow> nat \<Rightarrow> 'g2 list" where
  "derive_hash_points lib N block_id m =
     map (\<lambda>s. g_hash_to_group (bf_g2 lib) bfkw_dst (block_id @ to_le_bytes (of_nat s))) [0..<m + N]"

section \<open>Signer\<close>

definition bfkw_generate ::
  "('f, 'g1, 'g2) bfkw_lib \<Rightarrow> ('r \<Rightarrow> 'f \<times> 'r) \<Rightarrow> 'r \<Rightarrow> ('f, 'g1) bfkw_signer \<times> 'r" where
  "bfkw_generate lib random rng =
     (let (sk, rng') = random rng;
          pk = g_smul (bf_g1 lib) sk (g_generator (bf_g1 lib)) in
      (\<lparr>bs_sk = sk, bs_pk = pk\<rparr>, rng'))"

definition bfkw_setup_context ::
  "('f, 'g1, 'g2) bfkw_lib \<Rightarrow> nat \<Rightarrow> ('f, 'g1) bfkw_signer \<Rightarrow> bytes \<Rightarrow> nat \<Rightarrow> ('g1, 'g2) bfkw_context" where
  "bfkw_setup_context lib N signer block_id m =
     \<lparr>bc_hash_points = derive_hash_points lib N block_id m, bc_public_key = bs_pk signer\<rparr>"

definition bfkw_sign ::
  "('f::field, 'g1, 'g2) bfkw_lib \<Rightarrow> nat \<Rightarrow> ('f, 'g1) bfkw_signer \<Rightarrow> ('g1, 'g2) bfkw_context \<Rightarrow> nat \<Rightarrow>
   'f list \<Rightarrow> 'g2 bfkw_proof run" where
  "bfkw_sign lib N signer ctx chunk_index v_i =
     assertR (N \<le> length (bc_hash_points ctx)) TooFewHashPoints
       (let m = length (bc_hash_points ctx) - N in
        assertR (length v_i = m) SignChunkLength
          (assertR (chunk_index < N) ChunkIndexOutOfRange
            (let m_prime = v_i @ map (\<lambda>j. if j = chunk_index then 1 else 0) [0..<N];
                 p = g_msm (bf_g2 lib) (bc_hash_points ctx) m_prime in
             Inr \<lparr>bp_sigma = g_smul (bf_g2 lib) (bs_sk signer) p\<rparr>)))"

definition bfkw_sign_coded ::
  "('f::field, 'g1, 'g2) bfkw_lib \<Rightarrow> nat \<Rightarrow> ('f, 'g1) bfkw_signer \<Rightarrow> ('g1, 'g2) bfkw_context \<Rightarrow>
   'f list list \<Rightarrow> 'f list \<Rightarrow> 'g2 bfkw_proof run" where
  "bfkw_sign_coded lib N signer ctx chunks b =
     assertR (length chunks = N) WrongChunkCount
       (bindR (mapR (\<lambda>(i, v). bfkw_sign lib N signer ctx i v) (zip [0..<length chunks] chunks))
         (\<lambda>individual. bfkw_combine lib individual b))"

section \<open>Augmented messages\<close>

text \<open>\<open>[w || b]\<close>, the message a signature covers, and the documented behaviour of the pairing.\<close>

definition augmented :: "'f coded_chunk \<Rightarrow> 'f list" where
  "augmented ch = chunk_v (cc_w ch) @ cc_b ch"

definition bfkw_lib_ok :: "('f::field, 'g1::ab_group_add, 'g2::ab_group_add) bfkw_lib \<Rightarrow> bool" where
  "bfkw_lib_ok lib \<longleftrightarrow> group_ok (bf_g1 lib) \<and> group_ok (bf_g2 lib) \<and>
     (\<forall>sk sigma p. bf_minpk_verify lib (g_smul (bf_g1 lib) sk (g_generator (bf_g1 lib))) p sigma
        \<longleftrightarrow> sigma = g_smul (bf_g2 lib) sk p)"

definition bfkw_keypair :: "('f, 'g1, 'g2) bfkw_lib \<Rightarrow> 'f \<Rightarrow> 'g1 \<Rightarrow> bool" where
  "bfkw_keypair lib sk pk \<longleftrightarrow> pk = g_smul (bf_g1 lib) sk (g_generator (bf_g1 lib))"

lemma bfkw_generate_keypair:
  "bfkw_keypair lib (bs_sk (fst (bfkw_generate lib random rng))) (bs_pk (fst (bfkw_generate lib random rng)))"
  by (simp add: bfkw_keypair_def bfkw_generate_def case_prod_beta Let_def)

lemma pairing_check_iff:
  "bfkw_lib_ok lib \<Longrightarrow> bfkw_keypair lib sk pk \<Longrightarrow>
   pairing_check lib pk sigma p \<longleftrightarrow> sigma = g_smul (bf_g2 lib) sk p"
  by (simp add: pairing_check_def bfkw_lib_ok_def bfkw_keypair_def)

lemma nth_augmented:
  "k < length (chunk_v (cc_w ch)) + length (cc_b ch) \<Longrightarrow>
   augmented ch ! k = (if k < length (chunk_v (cc_w ch)) then chunk_v (cc_w ch) ! k
                       else cc_b ch ! (k - length (chunk_v (cc_w ch))))"
  by (simp add: augmented_def nth_append)

text \<open>The augmented message of a re-encoded chunk is the combination of the augmented messages.\<close>

lemma augmented_comb:
  assumes cs: "\<forall>ch \<in> set cs. length (chunk_v (cc_w ch)) = m \<and> length (cc_b ch) = N"
    and w: "chunk_v (cc_w new) = map (comb a (map (\<lambda>c. chunk_v (cc_w c)) cs)) [0..<m]"
    and b: "cc_b new = map (comb a (map cc_b cs)) [0..<N]"
    and k: "k < m + N"
  shows "augmented new ! k = comb a (map augmented cs) k"
proof (cases "k < m")
  case True
  have "comb a (map augmented cs) k = comb a (map (\<lambda>c. chunk_v (cc_w c)) cs) k"
    unfolding comb_def using cs True by (intro sum.cong) (simp_all add: nth_augmented)
  then show ?thesis using w b True by (simp add: nth_augmented)
next
  case False
  have "comb a (map augmented cs) k = comb a (map cc_b cs) (k - m)"
    unfolding comb_def using cs False k by (intro sum.cong) (simp_all add: nth_augmented)
  then show ?thesis using w b False k by (simp add: nth_augmented)
qed

section \<open>The contract\<close>

definition bfkw_setting ::
  "('f::field, 'g1::ab_group_add, 'g2::ab_group_add) bfkw_lib \<Rightarrow> nat \<Rightarrow> nat \<Rightarrow>
   ('g1, 'g2) bfkw_context \<Rightarrow> 'f list list \<Rightarrow> bool" where
  "bfkw_setting lib N m ctx V \<longleftrightarrow> bfkw_lib_ok lib \<and> originals N m V \<and>
     length (bc_hash_points ctx) = m + N \<and> (\<exists>sk. bfkw_keypair lib sk (bc_public_key ctx))"

definition bfkw_good ::
  "('f::field, 'g1, 'g2) bfkw_lib \<Rightarrow> nat \<Rightarrow> nat \<Rightarrow> ('g1, 'g2) bfkw_context \<Rightarrow> 'f list list \<Rightarrow>
   'f coded_chunk \<Rightarrow> 'g2 bfkw_proof \<Rightarrow> bool" where
  "bfkw_good lib N m ctx V ch p \<longleftrightarrow> coded_by N m V ch \<and>
     pairing_check lib (bc_public_key ctx) (bp_sigma p)
       (g_msm (bf_g2 lib) (bc_hash_points ctx) (augmented ch))"

definition bfkw_proofs ::
  "('f::field, 'g1, 'g2) bfkw_lib \<Rightarrow> nat \<Rightarrow> nat \<Rightarrow> ('g1, 'g2) bfkw_context \<Rightarrow> 'f list list \<Rightarrow>
   'f coded_chunk list \<Rightarrow> 'g2 bfkw_proof list \<Rightarrow> bool" where
  "bfkw_proofs lib N m ctx V = list_all2 (bfkw_good lib N m ctx V)"

text \<open>Combining signatures: \<open>\<Sum> \<alpha>\<^sub>l \<cdot> (sk \<cdot> P\<^sub>l) = sk \<cdot> MSM(H, \<Sum> \<alpha>\<^sub>l \<cdot> [w\<^sub>l || b\<^sub>l])\<close>.\<close>

lemma bfkw_combine_signature:
  fixes lib :: "('f::field, 'g1::ab_group_add, 'g2::ab_group_add) bfkw_lib"
  assumes G: "group_ok (bf_g2 lib)" and len: "length alphas = length cs"
    and H: "length H = m + N"
    and cs: "\<forall>ch \<in> set cs. length (chunk_v (cc_w ch)) = m \<and> length (cc_b ch) = N"
    and new: "length (chunk_v (cc_w new)) = m" "length (cc_b new) = N"
      "\<And>k. k < m + N \<Longrightarrow> augmented new ! k = comb ((!) alphas) (map augmented cs) k"
  shows "g_msm (bf_g2 lib) (map (\<lambda>ch. g_smul (bf_g2 lib) sk (g_msm (bf_g2 lib) H (augmented ch))) cs) alphas
    = g_smul (bf_g2 lib) sk (g_msm (bf_g2 lib) H (augmented new))"
proof -
  let ?P = "map (g_msm (bf_g2 lib) H) (map augmented cs)"
  have "g_msm (bf_g2 lib) H (augmented new) = g_msm (bf_g2 lib) ?P alphas"
    by (rule msm_linear [OF G]) (use assms in \<open>auto simp: augmented_def\<close>)
  then show ?thesis
    using msm_smul [OF G, of ?P alphas sk] len by (simp add: comp_def)
qed

interpretation bfkw: coded_integrity bfkw_scheme bfkw_setting bfkw_good bfkw_proofs
proof (unfold_locales, goal_cases)
  case (1 lib N m ctx V)
  then show ?case by (simp add: bfkw_setting_def)
next
  case (2 lib N m ctx V ch p)
  then show ?case by (simp add: bfkw_good_def)
next
  case (3 lib N m ctx V ch p)
  then show ?case
    by (simp add: bfkw_scheme_def bfkw_verify_def bfkw_setting_def bfkw_good_def augmented_def)
next
  case (4 lib N m ctx V)
  then show ?case by (simp add: bfkw_proofs_def)
next
  case (5 lib N m ctx V cs ps ch p)
  then show ?case by (simp add: bfkw_proofs_def list_all2_appendI)
next
  case (6 lib N m ctx V cs ps alphas new)
  let ?G = "bf_g2 lib" and ?H = "bc_hash_points ctx"
  from 6(1) obtain sk where key: "bfkw_keypair lib sk (bc_public_key ctx)"
    and ok: "bfkw_lib_ok lib" and H: "length ?H = m + N" by (auto simp: bfkw_setting_def)
  have lens: "\<forall>ch \<in> set cs. length (chunk_v (cc_w ch)) = m \<and> length (cc_b ch) = N"
    using 6(4) by (simp add: coded_by_def)
  have len: "length ps = length cs"
    using 6(2) by (auto simp: bfkw_proofs_def dest: list_all2_lengthD)
  have sig: "bp_sigma (ps ! i) = g_smul ?G sk (g_msm ?G ?H (augmented (cs ! i)))"
    if "i < length cs" for i
    using 6(2) that pairing_check_iff [OF ok key]
    by (auto simp: bfkw_proofs_def bfkw_good_def dest: list_all2_nthD)
  have sigs: "map bp_sigma ps = map (\<lambda>ch. g_smul ?G sk (g_msm ?G ?H (augmented ch))) cs"
    by (rule nth_equalityI) (use len sig in simp_all)
  have "g_msm ?G (map bp_sigma ps) alphas = g_smul ?G sk (g_msm ?G ?H (augmented new))"
    unfolding sigs
  proof (rule bfkw_combine_signature)
    show "group_ok ?G" using ok by (simp add: bfkw_lib_ok_def)
    show "augmented new ! k = comb ((!) alphas) (map augmented cs) k" if "k < m + N" for k
      by (rule augmented_comb [OF lens 6(7,8) that])
  qed (use 6 H lens in \<open>simp_all add: coded_by_def\<close>)
  then show ?case
    using 6(6) pairing_check_iff [OF ok key]
    by (simp add: bfkw_scheme_def bfkw_combine_def bfkw_good_def Let_def)
qed

section \<open>The proposer's signatures\<close>

lemma map_indicator_unit: "map (\<lambda>j. if j = i then 1 else 0) [0..<N] = (unit_vec N i :: 'f::field list)"
  by (rule nth_equalityI) simp_all

lemma bfkw_sign_spec:
  assumes "length (bc_hash_points ctx) = m + N" "length v = m" "i < N"
  shows "bfkw_sign lib N signer ctx i v = Inr \<lparr>bp_sigma = g_smul (bf_g2 lib) (bs_sk signer)
    (g_msm (bf_g2 lib) (bc_hash_points ctx) (v @ unit_vec N i))\<rparr>"
  using assms by (simp add: bfkw_sign_def map_indicator_unit Let_def)

text \<open>The signature of original chunk \<open>i\<close> is honest for the systematic coded chunk \<open>i\<close>.\<close>

lemma bfkw_sign_good:
  fixes lib :: "('f::field, 'g1::ab_group_add, 'g2::ab_group_add) bfkw_lib"
  assumes st: "bfkw_setting lib N m ctx V" and i: "i < N"
    and key: "bfkw_keypair lib (bs_sk signer) (bc_public_key ctx)"
  shows "\<exists>p. bfkw_sign lib N signer ctx i (V ! i) = Inr p \<and>
    bfkw_good lib N m ctx V (systematic N V ! i) p"
proof -
  from st have V: "originals N m V" and ok: "bfkw_lib_ok lib"
    and H: "length (bc_hash_points ctx) = m + N" by (auto simp: bfkw_setting_def)
  have vi: "length (V ! i) = m" using V i by (simp add: originals_def)
  have nth: "systematic N V ! i = \<lparr>cc_w = \<lparr>chunk_v = V ! i\<rparr>, cc_b = unit_vec N i\<rparr>"
    using V i by (simp add: systematic_def originals_def)
  moreover have "systematic N V ! i \<in> set (systematic N V)"
    using V i by (simp add: systematic_def originals_def)
  ultimately have "coded_by N m V (systematic N V ! i)"
    using systematic_coded [OF V] by blast
  then show ?thesis
    using bfkw_sign_spec [OF H vi i, of lib signer] pairing_check_iff [OF ok key]
    by (simp add: bfkw_good_def nth augmented_def)
qed

lemma systematic_data: "map (\<lambda>c. chunk_v (cc_w c)) (systematic N V) = V"
  by (rule nth_equalityI) (simp_all add: systematic_def)

text \<open>The coefficients are the combination of the unit vectors that they weight.\<close>

lemma systematic_comb:
  assumes V: "originals N m V" and b: "length b = N"
  shows "map (comb ((!) b) (map cc_b (systematic N V))) [0..<N] = b"
proof (rule nth_equalityI)
  fix k assume "k < length (map (comb ((!) b) (map cc_b (systematic N V))) [0..<N])"
  then have k: "k < N" by simp
  have "comb ((!) b) (map cc_b (systematic N V)) k = (\<Sum>i < N. if i = k then b ! k else 0)"
    unfolding comb_def using k V by (intro sum.cong) (simp_all add: systematic_def originals_def)
  with k show "map (comb ((!) b) (map cc_b (systematic N V))) [0..<N] ! k = b ! k" by simp
qed (simp add: b)

lemma bfkw_sign_coded_good:
  fixes lib :: "('f::field, 'g1::ab_group_add, 'g2::ab_group_add) bfkw_lib"
  assumes st: "bfkw_setting lib N m ctx V" and cd: "coded_by N m V ch"
    and key: "bfkw_keypair lib (bs_sk signer) (bc_public_key ctx)"
  shows "\<exists>p. bfkw_sign_coded lib N signer ctx V (cc_b ch) = Inr p \<and> bfkw_good lib N m ctx V ch p"
proof -
  let ?G = "bf_g2 lib" and ?H = "bc_hash_points ctx" and ?cs = "systematic N V"
  from st have V: "originals N m V" and ok: "bfkw_lib_ok lib"
    and H: "length ?H = m + N" by (auto simp: bfkw_setting_def)
  have lenV: "length V = N" and lenv: "\<forall>v \<in> set V. length v = m"
    using V by (simp_all add: originals_def)
  have cs: "\<forall>ch \<in> set ?cs. length (chunk_v (cc_w ch)) = m \<and> length (cc_b ch) = N"
    using systematic_coded [OF V] by (auto simp: coded_by_def)
  have "mapR (\<lambda>(i, v). bfkw_sign lib N signer ctx i v) (zip [0..<length V] V)
      = Inr (map (\<lambda>(i, v). \<lparr>bp_sigma = g_smul ?G (bs_sk signer) (g_msm ?G ?H (v @ unit_vec N i))\<rparr>)
          (zip [0..<length V] V))"
    by (rule mapR_pure)
       (use H lenV lenv in \<open>auto simp: set_zip intro!: bfkw_sign_spec\<close>)
  moreover have "map bp_sigma (map (\<lambda>(i, v). \<lparr>bp_sigma = g_smul ?G (bs_sk signer)
        (g_msm ?G ?H (v @ unit_vec N i))\<rparr>) (zip [0..<length V] V))
      = map (\<lambda>ch. g_smul ?G (bs_sk signer) (g_msm ?G ?H (augmented ch))) ?cs"
    by (rule nth_equalityI) (simp_all add: systematic_def augmented_def)
  moreover have "g_msm ?G (map (\<lambda>ch. g_smul ?G (bs_sk signer) (g_msm ?G ?H (augmented ch))) ?cs) (cc_b ch)
      = g_smul ?G (bs_sk signer) (g_msm ?G ?H (augmented ch))"
  proof (rule bfkw_combine_signature)
    show "group_ok ?G" using ok by (simp add: bfkw_lib_ok_def)
    have "cc_b ch = map (comb ((!) (cc_b ch)) (map cc_b ?cs)) [0..<N]"
      using systematic_comb [OF V] cd by (simp add: coded_by_def)
    moreover have "map (\<lambda>c. chunk_v (cc_w c)) ?cs = V" by (rule systematic_data)
    ultimately show "augmented ch ! k = comb ((!) (cc_b ch)) (map augmented ?cs) k" if "k < m + N" for k
      by (intro augmented_comb [OF cs _ _ that] nth_equalityI)
         (use cd in \<open>auto simp: coded_by_def\<close>)
  qed (use cd cs H lenV in \<open>auto simp: coded_by_def systematic_def\<close>)
  ultimately show ?thesis
    using cd lenV pairing_check_iff [OF ok key]
    by (simp add: bfkw_sign_coded_def bfkw_combine_def bfkw_good_def Let_def)
qed

section \<open>Acceptance\<close>

lemma bfkw_verify_iff:
  fixes lib :: "('f::field, 'g1::ab_group_add, 'g2::ab_group_add) bfkw_lib"
  assumes "bfkw_lib_ok lib" "bfkw_keypair lib sk (bc_public_key ctx)"
    and "N \<le> length (bc_hash_points ctx)"
  shows "bfkw_verify lib N ctx ch p =
    Inr (if bp_sigma p = g_smul (bf_g2 lib) sk (g_msm (bf_g2 lib) (bc_hash_points ctx) (augmented ch))
         then Inr () else Inl PairingMismatch)"
  using assms pairing_check_iff [OF assms(1,2)] by (simp add: bfkw_verify_def augmented_def Let_def)

text \<open>
  A signature that is accepted for one message is accepted for exactly those that differ from it by a
  relation between the hash points.
\<close>

lemma bfkw_binding:
  fixes lib :: "('f::field, 'g1::ab_group_add, 'g2::ab_group_add) bfkw_lib"
  assumes ok: "bfkw_lib_ok lib" and key: "bfkw_keypair lib sk (bc_public_key ctx)" and sk: "sk \<noteq> 0"
    and len: "length (augmented c1) = length (bc_hash_points ctx)"
      "length (augmented c2) = length (bc_hash_points ctx)"
    and v1: "bfkw_verify lib N ctx c1 p = Inr (Inr ())"
  shows "bfkw_verify lib N ctx c2 p = Inr (Inr ()) \<longleftrightarrow> augmented c1 = augmented c2 \<or>
    relation_among (bf_g2 lib) (bc_hash_points ctx) (map2 (-) (augmented c1) (augmented c2))"
proof -
  let ?G = "bf_g2 lib" and ?H = "bc_hash_points ctx"
  from ok have G: "group_ok ?G" by (simp add: bfkw_lib_ok_def)
  from v1 have N: "N \<le> length ?H" by (auto simp: bfkw_verify_def assertR_eq_Inr)
  have cancel: "g_smul ?G sk x = g_smul ?G sk y \<longleftrightarrow> x = y" for x y
  proof
    assume "g_smul ?G sk x = g_smul ?G sk y"
    from arg_cong [OF this, of "g_smul ?G (inverse sk)"] sk show "x = y"
      by (simp add: smul_smul [OF G] smul_one [OF G])
  qed simp
  from v1 have "bp_sigma p = g_smul ?G sk (g_msm ?G ?H (augmented c1))"
    by (simp add: bfkw_verify_iff [OF ok key N] split: if_splits)
  then show ?thesis
    by (simp add: bfkw_verify_iff [OF ok key N] cancel msm_collision [OF G len])
qed

lemma bfkw_proof_codec:
  assumes "\<And>rest. cd_read (bf_g2_codec lib) (cd_write (bf_g2_codec lib) (bp_sigma p) @ rest)
      = Inr (bp_sigma p, rest)"
    and "length (cd_write (bf_g2_codec lib) (bp_sigma p)) = cd_size (bf_g2_codec lib)"
  shows "proof_codec_ok (bfkw_integrity_proof lib) p"
  using assms by (simp add: proof_codec_ok_def bfkw_integrity_proof_def)

text \<open>
  The reader of \<open>sigma\<close> is the plain one, which refuses the identity: a packet whose signature is the
  identity (the signature of the zero message) is written and cannot be read.
\<close>

lemma bfkw_zero_sigma_unreadable:
  assumes "element_codec_ok (bf_g2_codec lib)"
  shows "\<exists>e. ip_deserialize (bfkw_integrity_proof lib)
    (ip_serialize (bfkw_integrity_proof lib) \<lparr>bp_sigma = 0\<rparr> @ rest) = Inl (BadSigma e)"
proof -
  obtain e where "cd_read (bf_g2_codec lib) (cd_write (bf_g2_codec lib) 0 @ rest) = Inl e"
    using assms unfolding element_codec_ok_def by metis
  then show ?thesis by (simp add: bfkw_integrity_proof_def)
qed

lemma derive_hash_points_length [simp]: "length (derive_hash_points lib N block_id m) = m + N"
  by (simp add: derive_hash_points_def)

end
