(* ===== verification/Bfkw_Strategy.thy ===== *)
theory Bfkw_Strategy
  imports Network Bfkw
begin

text \<open>
  \<open>crates/strategy/bfkw/src/strategy.rs\<close>: the RLNC + BFKW strategy of the simulator. Its
  \<open>RefCell\<close> cache of the context is a field of the strategy value that \<open>init_proposer\<close> returns
  updated. It keeps the contract \<open>honest_strategy\<close>.
\<close>

section \<open>The strategy\<close>

record ('f, 'g1, 'g2) bfkw_strategy_self =
  bf_signer :: "('f, 'g1) bfkw_signer"
  bf_m :: nat
  bf_ctx_cache :: "('g1, 'g2) bfkw_context option"

record ('f, 'g1, 'g2) bfkw_node_state =
  bn_decoder :: "'f block_decoder"
  bn_proofs :: "'g2 bfkw_proof list"
  bn_ctx :: "('g1, 'g2) bfkw_context"

definition bfkw_strategy_new ::
  "('f, 'g1, 'g2) bfkw_lib \<Rightarrow> ('r \<Rightarrow> 'f \<times> 'r) \<Rightarrow> nat \<Rightarrow> 'r \<Rightarrow> ('f, 'g1, 'g2) bfkw_strategy_self \<times> 'r" where
  "bfkw_strategy_new lib random m rng =
     (let (signer, rng') = bfkw_generate lib random rng in
      (\<lparr>bf_signer = signer, bf_m = m, bf_ctx_cache = None\<rparr>, rng'))"

text \<open>The loops over \<open>coded_chunks\<close> and over \<open>original_chunks\<close>; the node's \<open>propose\<close> has the same.\<close>

definition bfkw_sign_packets ::
  "('f::field, 'g1, 'g2) bfkw_lib \<Rightarrow> nat \<Rightarrow> ('f, 'g1) bfkw_signer \<Rightarrow> ('g1, 'g2) bfkw_context \<Rightarrow>
   'f list list \<Rightarrow> 'f coded_chunk list \<Rightarrow> ('f, 'g2 bfkw_proof) signed_packet list run" where
  "bfkw_sign_packets lib N signer ctx chunk_refs coded_chunks =
     mapR (\<lambda>chunk. bindR (bfkw_sign_coded lib N signer ctx chunk_refs (cc_b chunk)) (\<lambda>proof.
       Inr \<lparr>sp_chunk = chunk, sp_proof = proof\<rparr>)) coded_chunks"

definition bfkw_proposer_state ::
  "('f::field, 'g1, 'g2) bfkw_lib \<Rightarrow> nat \<Rightarrow> ('f, 'g1) bfkw_signer \<Rightarrow> ('g1, 'g2) bfkw_context \<Rightarrow>
   'f chunk list \<Rightarrow> ('f block_decoder \<times> 'g2 bfkw_proof list) run" where
  "bfkw_proposer_state lib N signer ctx original_chunks =
     foldR (\<lambda>(i, orig) (decoder, proposer_proofs).
         bindR (upd (replicate N 0) i 1) (\<lambda>b.
         bindR (coded_chunk_new N orig b) (\<lambda>coded.
         bindR (bfkw_sign lib N signer ctx i (chunk_v orig)) (\<lambda>proof.
         bindR (bd_add decoder coded) (\<lambda>(decoder', _).
           Inr (decoder', proposer_proofs @ [proof]))))))
       (zip [0..<length original_chunks] original_chunks) (bd_new N, [])"

definition bfkw_init_proposer ::
  "(bytes \<Rightarrow> bytes) \<Rightarrow> ('f::field, 'r) scalar_lib \<Rightarrow> ('f, 'g1, 'g2) bfkw_lib \<Rightarrow> nat \<Rightarrow>
   ('f, 'g1, 'g2) bfkw_strategy_self \<Rightarrow> block \<Rightarrow> nat \<Rightarrow> 'r \<Rightarrow>
   ((('f, 'g1, 'g2) bfkw_strategy_self \<times> ('f, 'g1, 'g2) bfkw_node_state \<times>
     ('f, 'g2 bfkw_proof) signed_packet list \<times> nat) \<times> 'r) run" where
  "bfkw_init_proposer keccak256 sl lib N self b num_peers rng =
     (let block_id = block_hash keccak256 (sl_wire sl) b in
     bindR (encode_chunks (sl_wire sl) (sl_pf sl) (sl_random sl) N (bf_m self) num_peers b rng)
       (\<lambda>((coded_chunks, byte_len), rng').
     bindR (as_chunks (sl_wire sl) (sl_pf sl) N (bf_m self) b) (\<lambda>(original_chunks, _).
       let chunk_refs = map chunk_v original_chunks;
           ctx = bfkw_setup_context lib N (bf_signer self) block_id (bf_m self);
           self' = self\<lparr>bf_ctx_cache := Some ctx\<rparr> in
     bindR (bfkw_sign_packets lib N (bf_signer self) ctx chunk_refs coded_chunks) (\<lambda>packets.
     bindR (bfkw_proposer_state lib N (bf_signer self) ctx original_chunks)
       (\<lambda>(decoder, proposer_proofs).
       let state = \<lparr>bn_decoder = decoder, bn_proofs = proposer_proofs, bn_ctx = ctx\<rparr> in
       Inr ((self', state, packets, byte_len), rng'))))))"

definition bfkw_init_receiver ::
  "nat \<Rightarrow> ('f, 'g1, 'g2) bfkw_strategy_self \<Rightarrow> ('f, 'g1, 'g2) bfkw_node_state run" where
  "bfkw_init_receiver N self =
     (case bf_ctx_cache self of
        None \<Rightarrow> Inl NoContext
      | Some ctx \<Rightarrow> Inr \<lparr>bn_decoder = bd_new N, bn_proofs = [], bn_ctx = ctx\<rparr>)"

definition bfkw_receive ::
  "('f::field, 'g1, 'g2) bfkw_lib \<Rightarrow> nat \<Rightarrow> ('f, 'g1, 'g2) bfkw_strategy_self \<Rightarrow>
   ('f, 'g1, 'g2) bfkw_node_state \<Rightarrow> ('f, 'g2 bfkw_proof) signed_packet \<Rightarrow>
   (('f, 'g1, 'g2) bfkw_node_state \<times> (err + bool)) run" where
  "bfkw_receive lib N self state packet =
     bindR (coded_receive (bfkw_scheme lib N) (bn_decoder state) (bn_proofs state) (bn_ctx state) packet)
       (\<lambda>((decoder, proofs), r). Inr (state\<lparr>bn_decoder := decoder, bn_proofs := proofs\<rparr>, r))"

definition bfkw_can_decode ::
  "('f, 'g1, 'g2) bfkw_strategy_self \<Rightarrow> ('f, 'g1, 'g2) bfkw_node_state \<Rightarrow> bool" where
  "bfkw_can_decode self state = bd_is_complete (bn_decoder state)"

definition bfkw_forward ::
  "('f::field, 'r) scalar_lib \<Rightarrow> ('f, 'g1, 'g2) bfkw_lib \<Rightarrow> nat \<Rightarrow> ('f, 'g1, 'g2) bfkw_strategy_self \<Rightarrow>
   ('f, 'g1, 'g2) bfkw_node_state \<Rightarrow> nat \<Rightarrow> 'r \<Rightarrow>
   (('f, 'g2 bfkw_proof) signed_packet list \<times> 'r) run" where
  "bfkw_forward sl lib N self state num_peers rng =
     coded_forward (bfkw_scheme lib N) (sl_random sl) N (bn_decoder state) (bn_proofs state)
       num_peers rng"

definition bfkw_packet_size ::
  "('f, 'g1, 'g2) bfkw_lib \<Rightarrow> nat \<Rightarrow> ('f, 'g1, 'g2) bfkw_strategy_self \<Rightarrow>
   ('f, 'g2 bfkw_proof) signed_packet \<Rightarrow> nat" where
  "bfkw_packet_size lib N self packet = 32 * bf_m self + 32 * N + cd_size (bf_g2_codec lib)"

definition bfkw_decode ::
  "('f::field, 'r) scalar_lib \<Rightarrow> nat \<Rightarrow> ('f, 'g1, 'g2) bfkw_strategy_self \<Rightarrow>
   ('f, 'g1, 'g2) bfkw_node_state \<Rightarrow> nat \<Rightarrow> block run" where
  "bfkw_decode sl N self state byte_len =
     bindR (bd_decode N (bn_decoder state)) (\<lambda>decoded_chunks.
       from_chunks (sl_wire sl) (sl_pf sl) N decoded_chunks byte_len)"

definition bfkw_strategy ::
  "(bytes \<Rightarrow> bytes) \<Rightarrow> ('f::field, 'r) scalar_lib \<Rightarrow> ('f, 'g1, 'g2) bfkw_lib \<Rightarrow> nat \<Rightarrow>
   (('f, 'g1, 'g2) bfkw_strategy_self, ('f, 'g1, 'g2) bfkw_node_state,
    ('f, 'g2 bfkw_proof) signed_packet, 'r) strategy" where
  "bfkw_strategy keccak256 sl lib N =
     \<lparr>st_name = ''BFKW'',
      st_forward_condition = UntilDecode,
      st_init_proposer = bfkw_init_proposer keccak256 sl lib N,
      st_init_receiver = bfkw_init_receiver N,
      st_receive = bfkw_receive lib N,
      st_can_decode = bfkw_can_decode,
      st_forward = bfkw_forward sl lib N,
      st_packet_size = bfkw_packet_size lib N,
      st_decode = bfkw_decode sl N\<rparr>"

lemma bfkw_init_receiver_panics: "bf_ctx_cache self = None \<Longrightarrow> bfkw_init_receiver N self = Inl NoContext"
  by (simp add: bfkw_init_receiver_def)

section \<open>The proposer's loops\<close>

lemma bfkw_sign_packets_good:
  fixes lib :: "('f::field, 'g1::ab_group_add, 'g2::ab_group_add) bfkw_lib"
  assumes st: "bfkw_setting lib N m ctx V"
    and key: "bfkw_keypair lib (bs_sk signer) (bc_public_key ctx)"
    and cs: "\<forall>ch \<in> set cs. coded_by N m V ch"
  shows "\<exists>ps. bfkw_sign_packets lib N signer ctx V cs = Inr ps \<and> map sp_chunk ps = cs \<and>
    (\<forall>p \<in> set ps. bfkw_good lib N m ctx V (sp_chunk p) (sp_proof p))"
  using cs
proof (induction cs)
  case (Cons ch cs)
  then obtain ps where "bfkw_sign_packets lib N signer ctx V cs = Inr ps" "map sp_chunk ps = cs"
    "\<forall>p \<in> set ps. bfkw_good lib N m ctx V (sp_chunk p) (sp_proof p)" by auto
  moreover from bfkw_sign_coded_good [OF st _ key, of ch] Cons.prems obtain p where
    "bfkw_sign_coded lib N signer ctx V (cc_b ch) = Inr p" "bfkw_good lib N m ctx V ch p" by auto
  ultimately show ?case by (simp add: bfkw_sign_packets_def)
qed (simp add: bfkw_sign_packets_def)

text \<open>The decoder does not depend on the signatures, which are appended one by one.\<close>

lemma bfkw_proposer_loop:
  assumes "\<forall>(i, orig) \<in> set xs. bfkw_sign lib N signer ctx i (chunk_v orig) = Inr (sg (i, orig))"
  shows "foldR (\<lambda>(i, orig) (decoder, ps).
         bindR (upd (replicate N 0) i 1) (\<lambda>b.
         bindR (coded_chunk_new N orig b) (\<lambda>coded.
         bindR (bfkw_sign lib N signer ctx i (chunk_v orig)) (\<lambda>proof.
         bindR (bd_add decoder coded) (\<lambda>(decoder', _). Inr (decoder', ps @ [proof])))))) xs (d, ps)
    = mapRes (\<lambda>d'. (d', ps @ map sg xs))
       (foldR (\<lambda>(i, orig) d. bindR (upd (replicate N 0) i 1) (\<lambda>b.
          bindR (coded_chunk_new N orig b) (\<lambda>coded. mapRes fst (bd_add d coded)))) xs d)"
  using assms
proof (induction xs arbitrary: d ps)
  case (Cons x xs)
  obtain i orig where x: "x = (i, orig)" by (cases x)
  show ?case
    using Cons by (auto simp: x bindR_def mapRes_def split: sum.splits)
qed simp

lemma bfkw_proposer_state_good:
  fixes lib :: "('f::field, 'g1::ab_group_add, 'g2::ab_group_add) bfkw_lib"
  assumes st: "bfkw_setting lib N m ctx V"
    and key: "bfkw_keypair lib (bs_sk signer) (bc_public_key ctx)"
  shows "\<exists>d ps. bfkw_proposer_state lib N signer ctx (map (\<lambda>v. \<lparr>chunk_v = v\<rparr>) V) = Inr (d, ps) \<and>
    node_ok (bfkw_proofs lib N m ctx V) N m V d ps \<and> bd_is_complete d"
proof -
  from st have V: "originals N m V" by (simp add: bfkw_setting_def)
  then have lenV: "length V = N" by (simp add: originals_def)
  define sg where "sg = (\<lambda>(i, orig :: 'f chunk). projr (bfkw_sign lib N signer ctx i (chunk_v orig)))"
  let ?xs = "zip [0..<length V] (map (\<lambda>v. \<lparr>chunk_v = v\<rparr>) V)"
  have each: "bfkw_sign lib N signer ctx i (V ! i) = Inr (sg (i, \<lparr>chunk_v = V ! i\<rparr>)) \<and>
      bfkw_good lib N m ctx V (systematic N V ! i) (sg (i, \<lparr>chunk_v = V ! i\<rparr>))" if "i < N" for i
    using bfkw_sign_good [OF st that key] by (auto simp: sg_def)
  have "\<forall>(i, orig) \<in> set ?xs. bfkw_sign lib N signer ctx i (chunk_v orig) = Inr (sg (i, orig))"
    using each lenV by (auto simp: set_zip)
  note loop = bfkw_proposer_loop [OF this, of "bd_new N" "[]"]
  from proposer_decoder_chunks [OF V] obtain d where
    d: "proposer_decoder N (map (\<lambda>v. \<lparr>chunk_v = v\<rparr>) V) = Inr d" "honest N m V d" "bd_is_complete d"
      "bd_coded_chunks d = systematic N V" by blast
  have "bfkw_proposer_state lib N signer ctx (map (\<lambda>v. \<lparr>chunk_v = v\<rparr>) V) = Inr (d, map sg ?xs)"
    using loop d(1) by (simp add: bfkw_proposer_state_def proposer_decoder_def)
  moreover have "bfkw_proofs lib N m ctx V (bd_coded_chunks d) (map sg ?xs)"
    unfolding bfkw_proofs_def d(4)
    by (rule list_all2_all_nthI) (use each lenV in \<open>simp_all add: systematic_def\<close>)
  ultimately show ?thesis using d(2,3) by (auto simp: node_ok_def)
qed

section \<open>The contract\<close>

type_synonym ('f, 'g1, 'g2, 'r) bfkw_generics =
  "(bytes \<Rightarrow> bytes) \<times> ('f, 'r) scalar_lib \<times> ('f, 'g1, 'g2) bfkw_lib \<times> nat \<times> nat"

definition bfkw_self_ok ::
  "('f::field, 'g1::ab_group_add, 'g2::ab_group_add, 'r) bfkw_generics \<Rightarrow>
   ('f, 'g1, 'g2) bfkw_strategy_self \<Rightarrow> bool" where
  "bfkw_self_ok c self \<longleftrightarrow> (case c of (keccak256, sl, lib, N, m) \<Rightarrow>
     packing_ok sl \<and> bfkw_lib_ok lib \<and> bf_m self = m \<and>
     bfkw_keypair lib (bs_sk (bf_signer self)) (bs_pk (bf_signer self)))"

text \<open>The context of the cache is the one of the block that was proposed last.\<close>

definition bfkw_ready ::
  "('f::field, 'g1::ab_group_add, 'g2::ab_group_add, 'r) bfkw_generics \<Rightarrow>
   ('f, 'g1, 'g2) bfkw_strategy_self \<Rightarrow> block \<Rightarrow> bool" where
  "bfkw_ready c self b \<longleftrightarrow> bfkw_self_ok c self \<and>
     (case c of (keccak256, sl, lib, N, m) \<Rightarrow> block_fits sl N m b \<and>
       bf_ctx_cache self = Some (bfkw_setup_context lib N (bf_signer self)
         (block_hash keccak256 (sl_wire sl) b) m))"

definition bfkw_node ::
  "('f::field, 'g1::ab_group_add, 'g2::ab_group_add, 'r) bfkw_generics \<Rightarrow>
   ('f, 'g1, 'g2) bfkw_strategy_self \<Rightarrow> block \<Rightarrow> ('f, 'g1, 'g2) bfkw_node_state \<Rightarrow> bool" where
  "bfkw_node c self b s \<longleftrightarrow> (case c of (keccak256, sl, lib, N, m) \<Rightarrow>
     \<exists>V. chunked sl N m b V \<and> bf_ctx_cache self = Some (bn_ctx s) \<and>
       node_ok (bfkw_proofs lib N m (bn_ctx s) V) N m V (bn_decoder s) (bn_proofs s))"

definition bfkw_packet ::
  "('f::field, 'g1::ab_group_add, 'g2::ab_group_add, 'r) bfkw_generics \<Rightarrow>
   ('f, 'g1, 'g2) bfkw_strategy_self \<Rightarrow> block \<Rightarrow> ('f, 'g2 bfkw_proof) signed_packet \<Rightarrow> bool" where
  "bfkw_packet c self b p \<longleftrightarrow> (case c of (keccak256, sl, lib, N, m) \<Rightarrow>
     \<exists>V ctx. chunked sl N m b V \<and> bf_ctx_cache self = Some ctx \<and>
       bfkw_good lib N m ctx V (sp_chunk p) (sp_proof p))"

lemma bfkw_setup_context_setting:
  assumes "bfkw_lib_ok lib" "bfkw_keypair lib (bs_sk signer) (bs_pk signer)" "chunked sl N m b V"
  shows "bfkw_setting lib N m (bfkw_setup_context lib N signer block_id m) V"
  using assms by (auto simp: bfkw_setting_def bfkw_setup_context_def chunked_def)

lemma bfkw_ready_setting:
  assumes "bfkw_ready (keccak256, sl, lib, N, m) self b" "chunked sl N m b V"
    "bf_ctx_cache self = Some ctx"
  shows "bfkw_setting lib N m ctx V"
  using assms by (auto simp: bfkw_ready_def bfkw_self_ok_def intro: bfkw_setup_context_setting)

lemma bfkw_init_proposer_ok:
  assumes ok: "bfkw_self_ok (keccak256, sl, lib, N, m) self" and ft: "block_fits sl N m b"
  shows "\<exists>self' s ps rng'. bfkw_init_proposer keccak256 sl lib N self b k rng
      = Inr ((self', s, ps, length (block_write (sl_wire sl) b)), rng') \<and>
    bfkw_ready (keccak256, sl, lib, N, m) self' b \<and>
    bfkw_node (keccak256, sl, lib, N, m) self' b s \<and> bd_is_complete (bn_decoder s) \<and> length ps = k \<and>
    (\<forall>p \<in> set ps. bfkw_packet (keccak256, sl, lib, N, m) self' b p)"
proof -
  from ok have slok: "packing_ok sl" and lok: "bfkw_lib_ok lib" and m: "bf_m self = m"
    and key: "bfkw_keypair lib (bs_sk (bf_signer self)) (bs_pk (bf_signer self))"
    by (simp_all add: bfkw_self_ok_def)
  from chunked_exists [OF slok ft] obtain V where V: "chunked sl N m b V" ..
  from chunked_encode [OF slok ft V] obtain cs rng' where
    enc: "encode_chunks (sl_wire sl) (sl_pf sl) (sl_random sl) N m k b rng
        = Inr ((cs, length (block_write (sl_wire sl) b)), rng')"
    and cs: "length cs = k" "\<forall>c \<in> set cs. coded_by N m V c" by metis
  define ctx where
    "ctx = bfkw_setup_context lib N (bf_signer self) (block_hash keccak256 (sl_wire sl) b) m"
  have st: "bfkw_setting lib N m ctx V"
    unfolding ctx_def by (rule bfkw_setup_context_setting [OF lok key V])
  have ckey: "bfkw_keypair lib (bs_sk (bf_signer self)) (bc_public_key ctx)"
    using key by (simp add: ctx_def bfkw_setup_context_def)
  from bfkw_sign_packets_good [OF st ckey cs(2)] obtain ps where
    ps: "bfkw_sign_packets lib N (bf_signer self) ctx V cs = Inr ps" "map sp_chunk ps = cs"
      "\<forall>p \<in> set ps. bfkw_good lib N m ctx V (sp_chunk p) (sp_proof p)" by blast
  from bfkw_proposer_state_good [OF st ckey] obtain d pfs where
    d: "bfkw_proposer_state lib N (bf_signer self) ctx (map (\<lambda>v. \<lparr>chunk_v = v\<rparr>) V) = Inr (d, pfs)"
      "node_ok (bfkw_proofs lib N m ctx V) N m V d pfs" "bd_is_complete d" by blast
  have refs: "map (chunk_v \<circ> (\<lambda>v. \<lparr>chunk_v = v\<rparr>)) V = V" by (simp add: comp_def)
  let ?self' = "self\<lparr>bf_ctx_cache := Some ctx\<rparr>"
  let ?s = "\<lparr>bn_decoder = d, bn_proofs = pfs, bn_ctx = ctx\<rparr>"
  have "bfkw_init_proposer keccak256 sl lib N self b k rng
      = Inr ((?self', ?s, ps, length (block_write (sl_wire sl) b)), rng')"
    using V enc ps(1) d(1) m refs
    by (simp add: bfkw_init_proposer_def chunked_def Let_def ctx_def)
  moreover have "bfkw_ready (keccak256, sl, lib, N, m) ?self' b"
    using ok ft by (simp add: bfkw_ready_def bfkw_self_ok_def ctx_def)
  moreover have "bfkw_node (keccak256, sl, lib, N, m) ?self' b ?s"
    using V d(2) by (auto simp: bfkw_node_def)
  moreover have "\<forall>q \<in> set ps. bfkw_packet (keccak256, sl, lib, N, m) ?self' b q"
    using V ps(3) by (auto simp: bfkw_packet_def)
  ultimately show ?thesis using cs(1) ps(2) d(3) by force
qed

lemma bfkw_node_setting:
  assumes "bfkw_ready (keccak256, sl, lib, N, m) self b" "bfkw_node (keccak256, sl, lib, N, m) self b s"
  obtains V where "chunked sl N m b V" "bf_ctx_cache self = Some (bn_ctx s)"
    "bfkw_setting lib N m (bn_ctx s) V"
    "node_ok (bfkw_proofs lib N m (bn_ctx s) V) N m V (bn_decoder s) (bn_proofs s)"
  using assms bfkw_ready_setting [OF assms(1)] by (auto simp: bfkw_node_def)

lemma bfkw_receive_ok:
  assumes rd: "bfkw_ready (keccak256, sl, lib, N, m) self b"
    and nd: "bfkw_node (keccak256, sl, lib, N, m) self b s"
    and pk: "bfkw_packet (keccak256, sl, lib, N, m) self b p"
  shows "\<exists>s' r. bfkw_receive lib N self s p = Inr (s', Inr r) \<and>
    bfkw_node (keccak256, sl, lib, N, m) self b s' \<and>
    bd_coded_chunks (bn_decoder s')
      = bd_coded_chunks (bn_decoder s) @ (if r then [sp_chunk p] else []) \<and>
    (bd_is_complete (bn_decoder s) \<longrightarrow> bd_is_complete (bn_decoder s') \<and> \<not> r)"
proof -
  from bfkw_node_setting [OF rd nd] obtain V where V: "chunked sl N m b V"
    and ctx: "bf_ctx_cache self = Some (bn_ctx s)" and st: "bfkw_setting lib N m (bn_ctx s) V"
    and ok: "node_ok (bfkw_proofs lib N m (bn_ctx s) V) N m V (bn_decoder s) (bn_proofs s)" .
  from pk obtain W where W: "chunked sl N m b W"
    "bfkw_good lib N m (bn_ctx s) W (sp_chunk p) (sp_proof p)"
    by (auto simp: bfkw_packet_def ctx)
  note gd = W(2) [unfolded chunked_unique [OF V W(1)]]
  let ?r = "\<not> bd_is_complete (bn_decoder s) \<and> \<not> bd_span N (bn_decoder s) (cc_b (sp_chunk p))"
  from bfkw.receive_good [OF st ok gd] obtain d' ps' where
    run: "coded_receive (bfkw_scheme lib N) (bn_decoder s) (bn_proofs s) (bn_ctx s) p
        = Inr ((d', ps'), Inr ?r)"
    and nd': "node_ok (bfkw_proofs lib N m (bn_ctx s) V) N m V d' ps'"
    and cs': "bd_coded_chunks d' = bd_coded_chunks (bn_decoder s) @ (if ?r then [sp_chunk p] else [])"
    and full: "bd_is_complete (bn_decoder s) \<Longrightarrow> bd_is_complete d'" by blast
  let ?s' = "s\<lparr>bn_decoder := d', bn_proofs := ps'\<rparr>"
  have "bfkw_receive lib N self s p = Inr (?s', Inr ?r)"
    using run by (simp add: bfkw_receive_def)
  moreover have "bfkw_node (keccak256, sl, lib, N, m) self b ?s'"
    using V ctx nd' by (auto simp: bfkw_node_def)
  ultimately show ?thesis using cs' full by force
qed

interpretation bfkw_strategy: honest_strategy
  "\<lambda>(keccak256, sl, lib, N, m). bfkw_strategy keccak256 sl lib N" bfkw_self_ok
  "\<lambda>(keccak256, sl, lib, N, m). block_fits sl N m"
  "\<lambda>(keccak256, sl, lib, N, m) b. length (block_write (sl_wire sl) b)"
  bfkw_ready bfkw_node bfkw_packet "\<lambda>c s. bd_coded_chunks (bn_decoder s) \<noteq> []"
  "\<lambda>(keccak256, sl, lib, N, m) s. N - length (bd_coded_chunks (bn_decoder s))"
  "\<lambda>(keccak256, sl, lib, N, m). N"
  "\<lambda>(keccak256, sl, lib, N, m) b. 32 * m + 32 * N + cd_size (bf_g2_codec lib)"
proof (unfold_locales, goal_cases)
  case (1 c self b k rng)
  obtain keccak256 sl lib N m where c: "c = (keccak256, sl, lib, N, m)" by (cases c)
  from 1 have "block_fits sl N m b" by (simp add: c)
  from bfkw_init_proposer_ok [OF 1(1) [unfolded c] this, of k rng] obtain self' s ps rng' where
    "bfkw_init_proposer keccak256 sl lib N self b k rng
      = Inr ((self', s, ps, length (block_write (sl_wire sl) b)), rng')"
    "bfkw_ready c self' b" "bfkw_node c self' b s" "bd_is_complete (bn_decoder s)" "length ps = k"
    "\<forall>p \<in> set ps. bfkw_packet c self' b p" unfolding c by metis
  then show ?case
    by (simp add: c bfkw_ready_def bfkw_strategy_def bfkw_can_decode_def)
next
  case (2 c self b)
  obtain keccak256 sl lib N m where c: "c = (keccak256, sl, lib, N, m)" by (cases c)
  from 2 obtain ctx where ctx: "bf_ctx_cache self = Some ctx" and ft: "block_fits sl N m b"
    and slok: "packing_ok sl"
    by (auto simp: c bfkw_ready_def bfkw_self_ok_def)
  from chunked_exists [OF slok ft] obtain V where V: "chunked sl N m b V" ..
  with bfkw.node_ok_new [OF bfkw_ready_setting [OF 2 [unfolded c] V ctx]] new_incomplete
    block_fits_pos [OF ft] ctx
  show ?case
    by (auto simp: c bfkw_strategy_def bfkw_init_receiver_def bfkw_node_def bfkw_can_decode_def)
next
  case (3 c self b s p)
  obtain keccak256 sl lib N m where c: "c = (keccak256, sl, lib, N, m)" by (cases c)
  from bfkw_receive_ok [OF 3 [unfolded c]] obtain s' r where
    "bfkw_receive lib N self s p = Inr (s', Inr r)" "bfkw_node c self b s'"
    "bd_coded_chunks (bn_decoder s')
      = bd_coded_chunks (bn_decoder s) @ (if r then [sp_chunk p] else [])"
    "bd_is_complete (bn_decoder s) \<Longrightarrow> bd_is_complete (bn_decoder s') \<and> \<not> r"
    unfolding c by metis
  moreover have "bd_wf N (bn_decoder s)"
    using 3(2) by (auto simp: c bfkw_node_def node_ok_def honest_def)
  then have "r \<Longrightarrow> length (bd_coded_chunks (bn_decoder s)) < N"
    using calculation(4) incomplete_room by blast
  ultimately show ?case by (auto simp: c bfkw_strategy_def bfkw_can_decode_def)
next
  case (4 c self b s)
  obtain keccak256 sl lib N m where c: "c = (keccak256, sl, lib, N, m)" by (cases c)
  from 4 show ?case
    by (auto simp: c bfkw_ready_def bfkw_node_def node_ok_def bfkw_strategy_def
        bfkw_can_decode_def dest: chunked_fed)
next
  case (5 c self b s k rng)
  obtain keccak256 sl lib N m where c: "c = (keccak256, sl, lib, N, m)" by (cases c)
  from bfkw_node_setting [OF 5(1,2) [unfolded c]] obtain V where V: "chunked sl N m b V"
    and ctx: "bf_ctx_cache self = Some (bn_ctx s)" and st: "bfkw_setting lib N m (bn_ctx s) V"
    and ok: "node_ok (bfkw_proofs lib N m (bn_ctx s) V) N m V (bn_decoder s) (bn_proofs s)" .
  from bfkw.forward_good [OF st ok 5(3), of "sl_random sl" k rng] V ctx show ?case
    by (auto simp: c bfkw_strategy_def bfkw_forward_def bfkw_packet_def)
next
  case (6 c self b s)
  obtain keccak256 sl lib N m where c: "c = (keccak256, sl, lib, N, m)" by (cases c)
  from 6(1) have slok: "packing_ok sl" and ft: "block_fits sl N m b"
    by (simp_all add: c bfkw_ready_def bfkw_self_ok_def)
  from bfkw_node_setting [OF 6(1,2) [unfolded c]] obtain V where V: "chunked sl N m b V"
    and st: "bfkw_setting lib N m (bn_ctx s) V"
    and ok: "node_ok (bfkw_proofs lib N m (bn_ctx s) V) N m V (bn_decoder s) (bn_proofs s)" .
  from 6(3) have "bd_is_complete (bn_decoder s)"
    by (simp add: c bfkw_strategy_def bfkw_can_decode_def)
  from bfkw.decode_good [OF st ok this] chunked_decode [OF slok ft V] show ?case
    by (simp add: c bfkw_strategy_def bfkw_decode_def)
next
  case (7 c self b p)
  obtain keccak256 sl lib N m where c: "c = (keccak256, sl, lib, N, m)" by (cases c)
  from 7(1) show ?case
    by (auto simp: c bfkw_ready_def bfkw_self_ok_def bfkw_strategy_def bfkw_packet_size_def)
qed

end
