(* ===== verification/Protocol_Bfkw.thy ===== *)
theory Protocol_Bfkw
  imports Actor_Honest Bfkw_Strategy
begin

text \<open>
  \<open>crates/node/src/bfkw.rs\<close>: the RLNC + BFKW protocol of the node, with its wire format and the
  context it derives from the block number of the announcement. It keeps the contract
  \<open>honest_protocol\<close>.
\<close>

section \<open>The protocol\<close>

record ('f, 'g1, 'g2) bfkw_protocol_state =
  bk_signer :: "('f, 'g1) bfkw_signer option"
  bk_m :: nat
  bk_proposer_pk :: 'g1
  bk_decoder :: "'f block_decoder"
  bk_proofs :: "'g2 bfkw_proof list"
  bk_ctx :: "('g1, 'g2) bfkw_context option"
  bk_byte_len :: nat

definition bfkw_protocol_new ::
  "nat \<Rightarrow> nat \<Rightarrow> 'g1 \<Rightarrow> ('f, 'g1) bfkw_signer option \<Rightarrow> ('f, 'g1, 'g2) bfkw_protocol_state" where
  "bfkw_protocol_new N m proposer_pk signer =
     \<lparr>bk_signer = signer, bk_m = m, bk_proposer_pk = proposer_pk, bk_decoder = bd_new N,
      bk_proofs = [], bk_ctx = None, bk_byte_len = 0\<rparr>"

definition bfkw_propose ::
  "('f::field, 'r) scalar_lib \<Rightarrow> ('f, 'g1, 'g2) bfkw_lib \<Rightarrow> nat \<Rightarrow> ('f, 'g1, 'g2) bfkw_protocol_state \<Rightarrow>
   block \<Rightarrow> nat \<Rightarrow> 'r \<Rightarrow> ((proposal \<times> ('f, 'g1, 'g2) bfkw_protocol_state) \<times> 'r) run" where
  "bfkw_propose sl lib N self b num_targets rng =
     (let block_num = bl_number b; block_id = to_be_bytes block_num in
     bindR (encode_chunks (sl_wire sl) (sl_pf sl) (sl_random sl) N (bk_m self) num_targets b rng)
       (\<lambda>((coded_chunks, byte_len), rng').
     bindR (as_chunks (sl_wire sl) (sl_pf sl) N (bk_m self) b) (\<lambda>(original_chunks, _).
       let chunk_refs = map chunk_v original_chunks in
       case bk_signer self of
         None \<Rightarrow> Inl NotProposer
       | Some signer \<Rightarrow>
           (let ctx = bfkw_setup_context lib N signer block_id (bk_m self) in
            bindR (bfkw_sign_packets lib N signer ctx chunk_refs coded_chunks) (\<lambda>pkts.
              let packets = map (sp_serialize (sl_codec sl) (bfkw_integrity_proof lib)) pkts in
            bindR (bfkw_proposer_state lib N signer ctx original_chunks)
              (\<lambda>(decoder, proposer_proofs).
              let self' = self\<lparr>bk_decoder := decoder, bk_proofs := proposer_proofs,
                               bk_ctx := Some ctx, bk_byte_len := byte_len\<rparr> in
              Inr ((\<lparr>pr_announcement = encode_announcement byte_len, pr_packets = packets\<rparr>, self'),
                   rng')))))))"

fun bfkw_ingest ::
  "('f::field, 'r) scalar_lib \<Rightarrow> ('f, 'g1, 'g2) bfkw_lib \<Rightarrow> nat \<Rightarrow> ('f, 'g1, 'g2) bfkw_protocol_state \<Rightarrow>
   channel \<Rightarrow> u64 \<Rightarrow> bytes \<Rightarrow> (('f, 'g1, 'g2) bfkw_protocol_state \<times> (err + bool)) run" where
  "bfkw_ingest sl lib N self Announce block_num data =
     (case read_announcement data of
        Inl e \<Rightarrow> Inr (self, Inl e)
      | Inr byte_len \<Rightarrow>
          (let block_id = to_be_bytes block_num;
               hash_points = derive_hash_points lib N block_id (bk_m self);
               ctx = \<lparr>bc_hash_points = hash_points, bc_public_key = bk_proposer_pk self\<rparr> in
           Inr (self\<lparr>bk_byte_len := byte_len, bk_ctx := Some ctx\<rparr>, Inr True)))"
| "bfkw_ingest sl lib N self Data block_num data =
     (case bk_ctx self of
        None \<Rightarrow> Inr (self, Inl DataBeforeAnnouncement)
      | Some ctx \<Rightarrow>
          bindR (sp_deserialize (sl_codec sl) (bfkw_integrity_proof lib) N data (bk_m self)) (\<lambda>r.
            case r of
              Inl e \<Rightarrow> Inr (self, Inl e)
            | Inr packet \<Rightarrow>
                bindR (coded_receive (bfkw_scheme lib N) (bk_decoder self) (bk_proofs self) ctx packet)
                  (\<lambda>((decoder, proofs), res).
                     Inr (self\<lparr>bk_decoder := decoder, bk_proofs := proofs\<rparr>, res))))"

definition bfkw_is_complete :: "('f, 'g1, 'g2) bfkw_protocol_state \<Rightarrow> bool" where
  "bfkw_is_complete self = bd_is_complete (bk_decoder self)"

definition bfkw_recode ::
  "('f::field, 'r) scalar_lib \<Rightarrow> ('f, 'g1, 'g2) bfkw_lib \<Rightarrow> nat \<Rightarrow> ('f, 'g1, 'g2) bfkw_protocol_state \<Rightarrow>
   nat \<Rightarrow> 'r \<Rightarrow> (bytes list \<times> 'r) run" where
  "bfkw_recode sl lib N self num_targets rng =
     bindR (coded_forward (bfkw_scheme lib N) (sl_random sl) N (bk_decoder self) (bk_proofs self)
              num_targets rng)
       (\<lambda>(packets, rng'). Inr (map (sp_serialize (sl_codec sl) (bfkw_integrity_proof lib)) packets, rng'))"

definition bfkw_protocol_decode ::
  "('f::field, 'r) scalar_lib \<Rightarrow> nat \<Rightarrow> ('f, 'g1, 'g2) bfkw_protocol_state \<Rightarrow>
   (block \<times> ('f, 'g1, 'g2) bfkw_protocol_state) run" where
  "bfkw_protocol_decode sl N self =
     bindR (bd_decode N (bk_decoder self)) (\<lambda>decoded_chunks.
     bindR (from_chunks (sl_wire sl) (sl_pf sl) N decoded_chunks (bk_byte_len self)) (\<lambda>b.
       Inr (b, self)))"

definition bfkw_reset :: "('f, 'g1, 'g2) bfkw_protocol_state \<Rightarrow> ('f, 'g1, 'g2) bfkw_protocol_state" where
  "bfkw_reset self =
     self\<lparr>bk_decoder := bd_reset (bk_decoder self), bk_proofs := [], bk_ctx := None, bk_byte_len := 0\<rparr>"

definition bfkw_packet_wire_size ::
  "('f, 'r) scalar_lib \<Rightarrow> ('f, 'g1, 'g2) bfkw_lib \<Rightarrow> nat \<Rightarrow> ('f, 'g1, 'g2) bfkw_protocol_state \<Rightarrow> nat" where
  "bfkw_packet_wire_size sl lib N self =
     cd_size (sl_codec sl) * bk_m self + cd_size (sl_codec sl) * N + cd_size (bf_g2_codec lib)"

definition bfkw_protocol ::
  "('f::field, 'r) scalar_lib \<Rightarrow> ('f, 'g1, 'g2) bfkw_lib \<Rightarrow> nat \<Rightarrow>
   (('f, 'g1, 'g2) bfkw_protocol_state, 'r) protocol" where
  "bfkw_protocol sl lib N =
     \<lparr>pt_name = ''BFKW'',
      pt_forward_condition = UntilDecode,
      pt_propose = bfkw_propose sl lib N,
      pt_ingest = bfkw_ingest sl lib N,
      pt_is_complete = bfkw_is_complete,
      pt_recode = bfkw_recode sl lib N,
      pt_decode = bfkw_protocol_decode sl N,
      pt_reset = bfkw_reset,
      pt_packet_wire_size = bfkw_packet_wire_size sl lib N\<rparr>"

lemma bfkw_data_before_announcement:
  "bk_ctx s = None \<Longrightarrow> bfkw_ingest sl lib N s Data num data = Inr (s, Inl DataBeforeAnnouncement)"
  by simp

section \<open>The contract\<close>

definition bfkw_codecs_ok :: "('f::field, 'g1::ab_group_add, 'g2::ab_group_add) bfkw_lib \<Rightarrow> bool" where
  "bfkw_codecs_ok lib \<longleftrightarrow> bfkw_lib_ok lib \<and> element_codec_ok (bf_g2_codec lib) \<and>
     (\<forall>x. encodable (bf_g2_codec lib) x)"

type_synonym ('f, 'g1, 'g2, 'r) bfkw_node_generics =
  "('f, 'r) scalar_lib \<times> ('f, 'g1, 'g2) bfkw_lib \<times> nat \<times> nat \<times> 'g1"

definition bfkw_fits ::
  "('f::field, 'g1::ab_group_add, 'g2::ab_group_add, 'r) bfkw_node_generics \<Rightarrow> block \<Rightarrow> bool" where
  "bfkw_fits c b \<longleftrightarrow> (case c of (sl, lib, N, m, pk) \<Rightarrow>
     scalar_lib_ok sl \<and> bfkw_codecs_ok lib \<and> (\<exists>sk. bfkw_keypair lib sk pk) \<and> block_fits sl N m b \<and>
     length (block_write (sl_wire sl) b) < 2 ^ 64)"

definition bfkw_block_ctx ::
  "('f::field, 'g1::ab_group_add, 'g2::ab_group_add, 'r) bfkw_node_generics \<Rightarrow> block \<Rightarrow>
   ('g1, 'g2) bfkw_context" where
  "bfkw_block_ctx c b = (case c of (sl, lib, N, m, pk) \<Rightarrow>
     \<lparr>bc_hash_points = derive_hash_points lib N (to_be_bytes (bl_number b)) m, bc_public_key = pk\<rparr>)"

definition bfkw_idle ::
  "('f::field, 'g1::ab_group_add, 'g2::ab_group_add, 'r) bfkw_node_generics \<Rightarrow>
   ('f, 'g1, 'g2) bfkw_protocol_state \<Rightarrow> bool" where
  "bfkw_idle c s \<longleftrightarrow> (case c of (sl, lib, N, m, pk) \<Rightarrow>
     bk_m s = m \<and> bk_proposer_pk s = pk \<and> bk_decoder s = bd_new N \<and> bk_proofs s = [])"

definition bfkw_proposer ::
  "('f::field, 'g1::ab_group_add, 'g2::ab_group_add, 'r) bfkw_node_generics \<Rightarrow>
   ('f, 'g1, 'g2) bfkw_protocol_state \<Rightarrow> bool" where
  "bfkw_proposer c s \<longleftrightarrow> (case c of (sl, lib, N, m, pk) \<Rightarrow>
     \<exists>signer. bk_signer s = Some signer \<and> bs_pk signer = pk \<and> bfkw_keypair lib (bs_sk signer) pk)"

definition bfkw_live ::
  "('f::field, 'g1::ab_group_add, 'g2::ab_group_add, 'r) bfkw_node_generics \<Rightarrow> block \<Rightarrow>
   ('f, 'g1, 'g2) bfkw_protocol_state \<Rightarrow> bool" where
  "bfkw_live c b s \<longleftrightarrow> bfkw_fits c b \<and> (case c of (sl, lib, N, m, pk) \<Rightarrow>
     bk_ctx s = Some (bfkw_block_ctx c b) \<and> bk_m s = m \<and> bk_proposer_pk s = pk \<and>
     bk_byte_len s = length (block_write (sl_wire sl) b) \<and>
     (\<exists>V. chunked sl N m b V \<and>
        node_ok (bfkw_proofs lib N m (bfkw_block_ctx c b) V) N m V (bk_decoder s) (bk_proofs s)))"

definition bfkw_honest_packet ::
  "('f::field, 'g1::ab_group_add, 'g2::ab_group_add, 'r) bfkw_node_generics \<Rightarrow> block \<Rightarrow> bytes \<Rightarrow> bool" where
  "bfkw_honest_packet c b data \<longleftrightarrow> (case c of (sl, lib, N, m, pk) \<Rightarrow>
     \<exists>V p. chunked sl N m b V \<and>
       bfkw_good lib N m (bfkw_block_ctx c b) V (sp_chunk p) (sp_proof p) \<and>
       data = sp_serialize (sl_codec sl) (bfkw_integrity_proof lib) p)"

lemma bfkw_fits_setting:
  assumes "bfkw_fits (sl, lib, N, m, pk) b" "chunked sl N m b V"
  shows "bfkw_setting lib N m (bfkw_block_ctx (sl, lib, N, m, pk) b) V"
  using assms
  by (simp add: bfkw_setting_def bfkw_fits_def bfkw_codecs_ok_def bfkw_block_ctx_def chunked_def)

lemma read_fields_prefix:
  assumes "element_codec_ok fc" "cd_write fc 0 = replicate (cd_size fc) 0" "\<forall>x. encodable fc x"
  shows "read_fields fc (length xs) (concat (map (cd_write fc) xs) @ rest) = Inr (xs, rest)"
  by (rule read_fields_write [OF assms(1,2)]) (simp add: assms(3))

text \<open>
  An honest packet survives the wire, unless its signature is the identity: the code then reports an
  error.
\<close>

lemma bfkw_packet_readable:
  assumes ft: "bfkw_fits (sl, lib, N, m, pk) b" and V: "chunked sl N m b V"
    and gd: "bfkw_good lib N m ctx V (sp_chunk p) (sp_proof p)"
  shows "sp_deserialize (sl_codec sl) (bfkw_integrity_proof lib) N
      (sp_serialize (sl_codec sl) (bfkw_integrity_proof lib) p) m
    = (if bp_sigma (sp_proof p) = 0
       then Inr (Inl (projl (ip_deserialize (bfkw_integrity_proof lib)
              (ip_serialize (bfkw_integrity_proof lib) (sp_proof p)))))
       else Inr (Inr p))"
proof -
  from ft have sl: "element_codec_ok (sl_codec sl)" "\<forall>x. encodable (sl_codec sl) x"
      "cd_write (sl_codec sl) 0 = replicate (cd_size (sl_codec sl)) 0"
    and lib: "element_codec_ok (bf_g2_codec lib)" "\<forall>x. encodable (bf_g2_codec lib) x"
    by (simp_all add: bfkw_fits_def scalar_lib_ok_def packing_ok_def bfkw_codecs_ok_def)
  from V gd have len: "length (chunk_v (cc_w (sp_chunk p))) = m" "0 < m"
    "length (cc_b (sp_chunk p)) = N"
    by (auto simp: chunked_def originals_def bfkw_good_def coded_by_def)
  show ?thesis
  proof (cases "bp_sigma (sp_proof p) = 0")
    case True
    then have p0: "sp_proof p = \<lparr>bp_sigma = 0\<rparr>" by simp
    from bfkw_zero_sigma_unreadable [OF lib(1), of "[]"] obtain e where
      e: "ip_deserialize (bfkw_integrity_proof lib)
        (ip_serialize (bfkw_integrity_proof lib) (sp_proof p)) = Inl (BadSigma e)"
      unfolding p0 by auto
    have "read_fields (sl_codec sl) m (sp_serialize (sl_codec sl) (bfkw_integrity_proof lib) p)
        = Inr (chunk_v (cc_w (sp_chunk p)), concat (map (cd_write (sl_codec sl)) (cc_b (sp_chunk p))) @
            ip_serialize (bfkw_integrity_proof lib) (sp_proof p))"
      using read_fields_prefix [OF sl(1,3,2), of "chunk_v (cc_w (sp_chunk p))"] len(1)
      by (simp add: sp_serialize_def)
    moreover have "read_fields (sl_codec sl) N (concat (map (cd_write (sl_codec sl)) (cc_b (sp_chunk p))) @
            ip_serialize (bfkw_integrity_proof lib) (sp_proof p))
        = Inr (cc_b (sp_chunk p), ip_serialize (bfkw_integrity_proof lib) (sp_proof p))"
      using read_fields_prefix [OF sl(1,3,2), of "cc_b (sp_chunk p)"] len(3) by simp
    ultimately show ?thesis using True e by (simp add: sp_deserialize_def)
  next
    case False
    have "\<And>rest. cd_read (bf_g2_codec lib) (cd_write (bf_g2_codec lib) (bp_sigma (sp_proof p)) @ rest)
        = Inr (bp_sigma (sp_proof p), rest)"
      using lib(2) False unfolding encodable_def by blast
    then have "proof_codec_ok (bfkw_integrity_proof lib) (sp_proof p)"
      using lib(1) by (intro bfkw_proof_codec) (simp_all add: element_codec_ok_def)
    then show ?thesis
      using sp_deserialize_serialize [of "sl_codec sl" p N "bfkw_integrity_proof lib" "[]"] sl len False
      by auto
  qed
qed

lemma bfkw_data_ok:
  assumes lv: "bfkw_live (sl, lib, N, m, pk) b s"
    and pk: "bfkw_honest_packet (sl, lib, N, m, pk) b data"
  shows "\<exists>s' r. bfkw_ingest sl lib N s Data num data = Inr (s', r) \<and>
    bfkw_live (sl, lib, N, m, pk) b s' \<and> (r = Inr True \<longrightarrow> bd_coded_chunks (bk_decoder s') \<noteq> []) \<and>
    (bd_is_complete (bk_decoder s) \<longrightarrow> bd_is_complete (bk_decoder s') \<and> r \<noteq> Inr True)"
proof -
  let ?ctx = "bfkw_block_ctx (sl, lib, N, m, pk) b"
  from lv obtain V where V: "chunked sl N m b V" and ft: "bfkw_fits (sl, lib, N, m, pk) b"
    and ok: "node_ok (bfkw_proofs lib N m ?ctx V) N m V (bk_decoder s) (bk_proofs s)"
    and s: "bk_ctx s = Some ?ctx" "bk_m s = m"
    by (auto simp: bfkw_live_def)
  from pk obtain W p where W: "chunked sl N m b W"
    "bfkw_good lib N m ?ctx W (sp_chunk p) (sp_proof p)"
    and data: "data = sp_serialize (sl_codec sl) (bfkw_integrity_proof lib) p"
    by (auto simp: bfkw_honest_packet_def)
  note gd = W(2) [unfolded chunked_unique [OF V W(1)]]
  show ?thesis
  proof (cases "bp_sigma (sp_proof p) = 0")
    case True
    then show ?thesis
      using lv s by (simp add: data bfkw_packet_readable [OF ft V gd])
  next
    case False
    let ?r = "\<not> bd_is_complete (bk_decoder s) \<and> \<not> bd_span N (bk_decoder s) (cc_b (sp_chunk p))"
    from bfkw.receive_good [OF bfkw_fits_setting [OF ft V] ok gd] obtain d' ps' where
      run: "coded_receive (bfkw_scheme lib N) (bk_decoder s) (bk_proofs s) ?ctx p
          = Inr ((d', ps'), Inr ?r)"
      and ok': "node_ok (bfkw_proofs lib N m ?ctx V) N m V d' ps'"
      and cs': "bd_coded_chunks d' = bd_coded_chunks (bk_decoder s) @ (if ?r then [sp_chunk p] else [])"
      and full: "bd_is_complete (bk_decoder s) \<Longrightarrow> bd_is_complete d'" by blast
    let ?s' = "s\<lparr>bk_decoder := d', bk_proofs := ps'\<rparr>"
    have "bfkw_ingest sl lib N s Data num data = Inr (?s', Inr ?r)"
      using run s False by (simp add: data bfkw_packet_readable [OF ft V gd])
    moreover have "bfkw_live (sl, lib, N, m, pk) b ?s'"
      using lv V ok' by (auto simp: bfkw_live_def)
    moreover have "?r \<longrightarrow> bd_coded_chunks d' \<noteq> []" using cs' by simp
    ultimately show ?thesis using full by force
  qed
qed

text \<open>What a proposal is, given the coded chunks that the encoder returned.\<close>

lemma bfkw_propose_spec:
  assumes id: "bfkw_idle (sl, lib, N, m, pk) s"
    and pr: "bfkw_proposer (sl, lib, N, m, pk) s" and ft: "bfkw_fits (sl, lib, N, m, pk) b"
    and V: "chunked sl N m b V"
    and enc: "encode_chunks (sl_wire sl) (sl_pf sl) (sl_random sl) N m k b rng
        = Inr ((cs, length (block_write (sl_wire sl) b)), rng')"
    and cs: "\<forall>ch \<in> set cs. coded_by N m V ch"
  obtains ps s' where
    "bfkw_propose sl lib N s b k rng
      = Inr ((\<lparr>pr_announcement = encode_announcement (length (block_write (sl_wire sl) b)),
               pr_packets = map (sp_serialize (sl_codec sl) (bfkw_integrity_proof lib)) ps\<rparr>, s'), rng')"
    "bfkw_live (sl, lib, N, m, pk) b s'" "bk_signer s' = bk_signer s" "bd_is_complete (bk_decoder s')"
    "map sp_chunk ps = cs"
    "\<forall>p \<in> set ps. bfkw_good lib N m (bfkw_block_ctx (sl, lib, N, m, pk) b) V (sp_chunk p) (sp_proof p)"
proof -
  let ?ctx = "bfkw_block_ctx (sl, lib, N, m, pk) b"
  from pr obtain signer where signer: "bk_signer s = Some signer" "bs_pk signer = pk"
    and key: "bfkw_keypair lib (bs_sk signer) pk" by (auto simp: bfkw_proposer_def)
  from id have s: "bk_m s = m" "bk_proposer_pk s = pk" by (simp_all add: bfkw_idle_def)
  have ctx: "bfkw_setup_context lib N signer (to_be_bytes (bl_number b)) m = ?ctx"
    using signer(2) by (simp add: bfkw_setup_context_def bfkw_block_ctx_def)
  have ckey: "bfkw_keypair lib (bs_sk signer) (bc_public_key ?ctx)"
    using key by (simp add: bfkw_block_ctx_def)
  note st = bfkw_fits_setting [OF ft V]
  from bfkw_sign_packets_good [OF st ckey cs] obtain ps where
    ps: "bfkw_sign_packets lib N signer ?ctx V cs = Inr ps" "map sp_chunk ps = cs"
      "\<forall>p \<in> set ps. bfkw_good lib N m ?ctx V (sp_chunk p) (sp_proof p)" by blast
  from bfkw_proposer_state_good [OF st ckey] obtain d pfs where
    d: "bfkw_proposer_state lib N signer ?ctx (map (\<lambda>v. \<lparr>chunk_v = v\<rparr>) V) = Inr (d, pfs)"
      "node_ok (bfkw_proofs lib N m ?ctx V) N m V d pfs" "bd_is_complete d" by blast
  have refs: "map (chunk_v \<circ> (\<lambda>v. \<lparr>chunk_v = v\<rparr>)) V = V" by (simp add: comp_def)
  let ?s' = "s\<lparr>bk_decoder := d, bk_proofs := pfs, bk_ctx := Some ?ctx,
    bk_byte_len := length (block_write (sl_wire sl) b)\<rparr>"
  have "bfkw_live (sl, lib, N, m, pk) b ?s'"
    using ft V s d(2) by (auto simp: bfkw_live_def)
  with that [of ps ?s'] show thesis
    using V enc ps d(1,3) s signer(1) refs ctx by (simp add: bfkw_propose_def chunked_def Let_def)
qed

lemma bfkw_propose_ok:
  assumes id: "bfkw_idle (sl, lib, N, m, pk) s"
    and pr: "bfkw_proposer (sl, lib, N, m, pk) s" and ft: "bfkw_fits (sl, lib, N, m, pk) b"
  shows "\<exists>prop s' rng'. bfkw_propose sl lib N s b k rng = Inr ((prop, s'), rng') \<and>
    bfkw_live (sl, lib, N, m, pk) b s' \<and> bk_signer s' = bk_signer s \<and>
    bd_is_complete (bk_decoder s') \<and>
    pr_announcement prop = encode_announcement (length (block_write (sl_wire sl) b)) \<and>
    length (pr_packets prop) = k \<and>
    (\<forall>p \<in> set (pr_packets prop). bfkw_honest_packet (sl, lib, N, m, pk) b p)"
proof -
  from ft have sl: "packing_ok sl" and bf: "block_fits sl N m b"
    by (simp_all add: bfkw_fits_def scalar_lib_ok_def)
  from chunked_exists [OF sl bf] obtain V where V: "chunked sl N m b V" ..
  from chunked_encode [OF sl bf V] obtain cs rng' where
    enc: "encode_chunks (sl_wire sl) (sl_pf sl) (sl_random sl) N m k b rng
        = Inr ((cs, length (block_write (sl_wire sl) b)), rng')"
    and cs: "length cs = k" "\<forall>c \<in> set cs. coded_by N m V c" by metis
  show ?thesis
  proof (rule bfkw_propose_spec [OF id pr ft V enc cs(2)])
    fix ps s' assume p: "bfkw_propose sl lib N s b k rng
      = Inr ((\<lparr>pr_announcement = encode_announcement (length (block_write (sl_wire sl) b)),
               pr_packets = map (sp_serialize (sl_codec sl) (bfkw_integrity_proof lib)) ps\<rparr>, s'), rng')"
        "bfkw_live (sl, lib, N, m, pk) b s'" "bk_signer s' = bk_signer s" "bd_is_complete (bk_decoder s')"
      and ps: "map sp_chunk ps = cs"
        "\<forall>p \<in> set ps. bfkw_good lib N m (bfkw_block_ctx (sl, lib, N, m, pk) b) V (sp_chunk p) (sp_proof p)"
    have "length ps = k" using ps(1) cs(1) by (metis length_map)
    with p V ps(2) show ?thesis by (auto simp: bfkw_honest_packet_def)
  qed
qed

lemma bfkw_live_wf:
  "bfkw_live (sl, lib, N, m, pk) b s \<Longrightarrow> bd_wf N (bk_decoder s) \<and> 0 < N"
  by (auto simp: bfkw_live_def node_ok_def honest_def bfkw_fits_def dest: block_fits_pos)

interpretation bfkw_node: honest_protocol
  "\<lambda>(sl, lib, N, m, pk). bfkw_protocol sl lib N" bfkw_fits bfkw_idle bfkw_proposer bfkw_live
  "\<lambda>c s. bd_coded_chunks (bk_decoder s) \<noteq> []"
  "\<lambda>(sl, lib, N, m, pk) b a. a = encode_announcement (length (block_write (sl_wire sl) b))"
  bfkw_honest_packet
proof (unfold_locales, goal_cases)
  case (1 c s b k rng)
  obtain sl lib N m pk where c: "c = (sl, lib, N, m, pk)" by (cases c)
  from bfkw_propose_ok [OF 1 [unfolded c], of k rng] obtain pr s' rng' where
    "bfkw_propose sl lib N s b k rng = Inr ((pr, s'), rng')" "bfkw_live c b s'"
    "bk_signer s' = bk_signer s" "bd_is_complete (bk_decoder s')"
    "pr_announcement pr = encode_announcement (length (block_write (sl_wire sl) b))"
    "length (pr_packets pr) = k" "\<forall>p \<in> set (pr_packets pr). bfkw_honest_packet c b p"
    unfolding c by metis
  with 1(2) show ?case
    by (simp add: c bfkw_protocol_def bfkw_is_complete_def bfkw_proposer_def)
next
  case (2 c s b a)
  obtain sl lib N m pk where c: "c = (sl, lib, N, m, pk)" by (cases c)
  let ?blen = "length (block_write (sl_wire sl) b)"
  from 2(2) have sl: "scalar_lib_ok sl" and bf: "block_fits sl N m b" and "?blen < 2 ^ 64"
    by (simp_all add: c bfkw_fits_def)
  from 2(1) have s: "bk_m s = m" "bk_proposer_pk s = pk" by (simp_all add: c bfkw_idle_def)
  from chunked_exists [OF scalar_lib_packing [OF sl] bf] obtain V where V: "chunked sl N m b V" ..
  let ?s' = "s\<lparr>bk_byte_len := ?blen, bk_ctx := Some (bfkw_block_ctx c b)\<rparr>"
  have "bfkw_ingest sl lib N s Announce (bl_number b) a = Inr (?s', Inr True)"
    using 2(3) read_encode_announcement [of ?blen "[]"] \<open>?blen < 2 ^ 64\<close> s
    by (simp add: c bfkw_block_ctx_def Let_def)
  moreover have "bfkw_live c b ?s'"
    using 2(1,2) V bfkw.node_ok_new [OF bfkw_fits_setting [OF 2(2) [unfolded c] V]]
    by (auto simp: c bfkw_live_def bfkw_idle_def)
  ultimately show ?case by (simp add: c bfkw_protocol_def)
next
  case (3 c b s p)
  obtain sl lib N m pk where c: "c = (sl, lib, N, m, pk)" by (cases c)
  from bfkw_data_ok [OF 3 [unfolded c], of "bl_number b"] obtain s' r where
    "bfkw_ingest sl lib N s Data (bl_number b) p = Inr (s', r)" "bfkw_live c b s'"
    "r = Inr True \<longrightarrow> bd_coded_chunks (bk_decoder s') \<noteq> []"
    "bd_is_complete (bk_decoder s) \<longrightarrow> bd_is_complete (bk_decoder s') \<and> r \<noteq> Inr True"
    unfolding c by metis
  then show ?case by (simp add: c bfkw_protocol_def bfkw_is_complete_def)
next
  case (4 c b s k rng)
  obtain sl lib N m pk where c: "c = (sl, lib, N, m, pk)" by (cases c)
  from 4(1) obtain V where V: "chunked sl N m b V" and ft: "bfkw_fits (sl, lib, N, m, pk) b"
    and ok: "node_ok (bfkw_proofs lib N m (bfkw_block_ctx c b) V) N m V (bk_decoder s) (bk_proofs s)"
    by (auto simp: c bfkw_live_def)
  from bfkw.forward_good [OF bfkw_fits_setting [OF ft V] ok [unfolded c] 4(2),
      of "sl_random sl" k rng] V
  show ?case
    by (fastforce simp: c bfkw_protocol_def bfkw_recode_def bfkw_honest_packet_def)
next
  case (5 c b s)
  obtain sl lib N m pk where c: "c = (sl, lib, N, m, pk)" by (cases c)
  from 5(1) obtain V where V: "chunked sl N m b V" and ft: "bfkw_fits (sl, lib, N, m, pk) b"
    and ok: "node_ok (bfkw_proofs lib N m (bfkw_block_ctx c b) V) N m V (bk_decoder s) (bk_proofs s)"
    and bl: "bk_byte_len s = length (block_write (sl_wire sl) b)"
    and cs: "bk_m s = m" "bk_proposer_pk s = pk"
    by (auto simp: c bfkw_live_def)
  from ft have sl: "scalar_lib_ok sl" and bf: "block_fits sl N m b" by (simp_all add: bfkw_fits_def)
  from 5(2) have "bd_is_complete (bk_decoder s)"
    by (simp add: c bfkw_protocol_def bfkw_is_complete_def)
  from bfkw.decode_good [OF bfkw_fits_setting [OF ft V] ok [unfolded c] this]
    chunked_decode [OF scalar_lib_packing [OF sl] bf V] bl cs bd_reset_new [of N "bk_decoder s"]
    bfkw_live_wf [OF 5(1) [unfolded c]]
  show ?case
    by (simp add: c bfkw_protocol_def bfkw_protocol_decode_def bfkw_idle_def bfkw_reset_def)
next
  case (6 c b s)
  obtain sl lib N m pk where c: "c = (sl, lib, N, m, pk)" by (cases c)
  from 6 bfkw_live_wf [OF 6 [unfolded c]] bd_reset_new [of N "bk_decoder s"] show ?case
    by (simp add: c bfkw_protocol_def bfkw_idle_def bfkw_reset_def bfkw_live_def)
next
  case (7 c s)
  then show ?case
    by (auto simp: bfkw_protocol_def bfkw_proposer_def bfkw_reset_def)
qed

end
