(* ===== verification/Pedersen_Strategy.thy ===== *)
theory Pedersen_Strategy
  imports Network Pedersen
begin

text \<open>
  \<open>crates/strategy/pedersen/src/strategy.rs\<close>: the RLNC + Pedersen strategy of the simulator. It keeps
  the contract \<open>honest_strategy\<close>. The generics \<open>G\<close>, \<open>S\<close>, \<open>N\<close> and the scalar are the arguments
  \<open>lib\<close>, \<open>N\<close> and \<open>sl\<close>.
\<close>

section \<open>The strategy\<close>

record ('g, 'sk) pedersen_strategy_self =
  ps_ck :: "'g commitment_key"
  ps_signer :: 'sk
  ps_m :: nat

record ('f, 'g, 'pk, 'sig) pedersen_node_state =
  pn_decoder :: "'f block_decoder"
  pn_proofs :: "('g, 'sig) pedersen_proof list"
  pn_ctx :: "('g, 'pk) pedersen_context"

text \<open>\<open>generate\<close> is the library's key generation (\<open>PrivateKey::random\<close>).\<close>

definition pedersen_strategy_new ::
  "('f, 'g, 'sk, 'pk, 'sig) pedersen_lib \<Rightarrow> ('r \<Rightarrow> 'sk \<times> 'r) \<Rightarrow> nat \<Rightarrow> 'r \<Rightarrow>
   ('g, 'sk) pedersen_strategy_self \<times> 'r" where
  "pedersen_strategy_new lib generate m rng =
     (let (signer, rng') = generate rng in
      (\<lparr>ps_ck = ck_canonical (pl_group lib) m, ps_signer = signer, ps_m = m\<rparr>, rng'))"

definition pedersen_strategy_context ::
  "('f, 'g, 'sk, 'pk, 'sig) pedersen_lib \<Rightarrow> ('g, 'sk) pedersen_strategy_self \<Rightarrow> ('g, 'pk) pedersen_context" where
  "pedersen_strategy_context lib self = pedersen_context_of lib (ps_signer self) (ps_ck self)"

definition pedersen_init_proposer ::
  "('f::field, 'r) scalar_lib \<Rightarrow> ('f, 'g, 'sk, 'pk, 'sig) pedersen_lib \<Rightarrow> nat \<Rightarrow>
   ('g, 'sk) pedersen_strategy_self \<Rightarrow> block \<Rightarrow> nat \<Rightarrow> 'r \<Rightarrow>
   ((('g, 'sk) pedersen_strategy_self \<times> ('f, 'g, 'pk, 'sig) pedersen_node_state \<times>
     ('f, ('g, 'sig) pedersen_proof) signed_packet list \<times> nat) \<times> 'r) run" where
  "pedersen_init_proposer sl lib N self b num_peers rng =
     bindR (encode_chunks (sl_wire sl) (sl_pf sl) (sl_random sl) N (ps_m self) num_peers b rng)
       (\<lambda>((coded_chunks, byte_len), rng').
     bindR (as_chunks (sl_wire sl) (sl_pf sl) N (ps_m self) b) (\<lambda>(original_chunks, _).
       let chunk_refs = map chunk_v original_chunks in
     bindR (pedersen_sign_block lib (ps_signer self) (ps_ck self) chunk_refs) (\<lambda>proof.
       let packets = map (\<lambda>chunk. \<lparr>sp_chunk = chunk, sp_proof = proof\<rparr>) coded_chunks in
     bindR (proposer_decoder N original_chunks) (\<lambda>decoder.
       let state = \<lparr>pn_decoder = decoder, pn_proofs = [proof],
                    pn_ctx = pedersen_strategy_context lib self\<rparr> in
       Inr ((self, state, packets, byte_len), rng')))))"

definition pedersen_init_receiver ::
  "('f, 'g, 'sk, 'pk, 'sig) pedersen_lib \<Rightarrow> nat \<Rightarrow> ('g, 'sk) pedersen_strategy_self \<Rightarrow>
   ('f, 'g, 'pk, 'sig) pedersen_node_state run" where
  "pedersen_init_receiver lib N self =
     Inr \<lparr>pn_decoder = bd_new N, pn_proofs = [], pn_ctx = pedersen_strategy_context lib self\<rparr>"

definition pedersen_receive ::
  "('f::field, 'g, 'sk, 'pk, 'sig) pedersen_lib \<Rightarrow> ('g, 'sk) pedersen_strategy_self \<Rightarrow>
   ('f, 'g, 'pk, 'sig) pedersen_node_state \<Rightarrow> ('f, ('g, 'sig) pedersen_proof) signed_packet \<Rightarrow>
   (('f, 'g, 'pk, 'sig) pedersen_node_state \<times> (err + bool)) run" where
  "pedersen_receive lib self state packet =
     bindR (coded_receive (pedersen_scheme lib) (pn_decoder state) (pn_proofs state) (pn_ctx state) packet)
       (\<lambda>((decoder, proofs), r). Inr (state\<lparr>pn_decoder := decoder, pn_proofs := proofs\<rparr>, r))"

definition pedersen_can_decode ::
  "('g, 'sk) pedersen_strategy_self \<Rightarrow> ('f, 'g, 'pk, 'sig) pedersen_node_state \<Rightarrow> bool" where
  "pedersen_can_decode self state = bd_is_complete (pn_decoder state)"

definition pedersen_forward ::
  "('f::field, 'r) scalar_lib \<Rightarrow> ('f, 'g, 'sk, 'pk, 'sig) pedersen_lib \<Rightarrow> nat \<Rightarrow>
   ('g, 'sk) pedersen_strategy_self \<Rightarrow> ('f, 'g, 'pk, 'sig) pedersen_node_state \<Rightarrow> nat \<Rightarrow> 'r \<Rightarrow>
   (('f, ('g, 'sig) pedersen_proof) signed_packet list \<times> 'r) run" where
  "pedersen_forward sl lib N self state num_peers rng =
     coded_forward (pedersen_scheme lib) (sl_random sl) N (pn_decoder state) (pn_proofs state)
       num_peers rng"

definition pedersen_packet_size ::
  "('f, 'g, 'sk, 'pk, 'sig) pedersen_lib \<Rightarrow> nat \<Rightarrow> ('g, 'sk) pedersen_strategy_self \<Rightarrow>
   ('f, ('g, 'sig) pedersen_proof) signed_packet \<Rightarrow> nat" where
  "pedersen_packet_size lib N self packet =
     32 * ps_m self + 32 * N + cd_size (pl_gcodec lib) * N + cd_size (pl_scodec lib)"

definition pedersen_decode ::
  "('f::field, 'r) scalar_lib \<Rightarrow> nat \<Rightarrow> ('g, 'sk) pedersen_strategy_self \<Rightarrow>
   ('f, 'g, 'pk, 'sig) pedersen_node_state \<Rightarrow> nat \<Rightarrow> block run" where
  "pedersen_decode sl N self state byte_len =
     bindR (bd_decode N (pn_decoder state)) (\<lambda>decoded_chunks.
       from_chunks (sl_wire sl) (sl_pf sl) N decoded_chunks byte_len)"

definition pedersen_strategy ::
  "('f::field, 'r) scalar_lib \<Rightarrow> ('f, 'g, 'sk, 'pk, 'sig) pedersen_lib \<Rightarrow> nat \<Rightarrow>
   (('g, 'sk) pedersen_strategy_self, ('f, 'g, 'pk, 'sig) pedersen_node_state,
    ('f, ('g, 'sig) pedersen_proof) signed_packet, 'r) strategy" where
  "pedersen_strategy sl lib N =
     \<lparr>st_name = ''Pedersen'',
      st_forward_condition = UntilDecode,
      st_init_proposer = pedersen_init_proposer sl lib N,
      st_init_receiver = pedersen_init_receiver lib N,
      st_receive = pedersen_receive lib,
      st_can_decode = pedersen_can_decode,
      st_forward = pedersen_forward sl lib N,
      st_packet_size = pedersen_packet_size lib N,
      st_decode = pedersen_decode sl N\<rparr>"

section \<open>The contract\<close>

definition pedersen_self_ok ::
  "('f::field, 'r) scalar_lib \<times> ('f, 'g::ab_group_add, 'sk, 'pk, 'sig) pedersen_lib \<times> nat \<times> nat \<Rightarrow>
   ('g, 'sk) pedersen_strategy_self \<Rightarrow> bool" where
  "pedersen_self_ok c self \<longleftrightarrow> (case c of (sl, lib, N, m) \<Rightarrow>
     packing_ok sl \<and> group_ok (pl_group lib) \<and> signer_ok (pl_signer lib) \<and>
     ps_m self = m \<and> length (ck_generators (ps_ck self)) = m)"

definition pedersen_ready ::
  "('f::field, 'r) scalar_lib \<times> ('f, 'g::ab_group_add, 'sk, 'pk, 'sig) pedersen_lib \<times> nat \<times> nat \<Rightarrow>
   ('g, 'sk) pedersen_strategy_self \<Rightarrow> block \<Rightarrow> bool" where
  "pedersen_ready c self b \<longleftrightarrow> pedersen_self_ok c self \<and>
     (case c of (sl, lib, N, m) \<Rightarrow> block_fits sl N m b)"

definition pedersen_node ::
  "('f::field, 'r) scalar_lib \<times> ('f, 'g::ab_group_add, 'sk, 'pk, 'sig) pedersen_lib \<times> nat \<times> nat \<Rightarrow>
   ('g, 'sk) pedersen_strategy_self \<Rightarrow> block \<Rightarrow> ('f, 'g, 'pk, 'sig) pedersen_node_state \<Rightarrow> bool" where
  "pedersen_node c self b s \<longleftrightarrow> (case c of (sl, lib, N, m) \<Rightarrow>
     \<exists>V. chunked sl N m b V \<and> pn_ctx s = pedersen_strategy_context lib self \<and>
       node_ok (pedersen_proofs lib N m (pn_ctx s) V) N m V (pn_decoder s) (pn_proofs s))"

definition pedersen_packet ::
  "('f::field, 'r) scalar_lib \<times> ('f, 'g::ab_group_add, 'sk, 'pk, 'sig) pedersen_lib \<times> nat \<times> nat \<Rightarrow>
   ('g, 'sk) pedersen_strategy_self \<Rightarrow> block \<Rightarrow> ('f, ('g, 'sig) pedersen_proof) signed_packet \<Rightarrow> bool" where
  "pedersen_packet c self b p \<longleftrightarrow> (case c of (sl, lib, N, m) \<Rightarrow>
     \<exists>V. chunked sl N m b V \<and>
       pedersen_good lib N m (pedersen_strategy_context lib self) V (sp_chunk p) (sp_proof p))"

lemma pedersen_strategy_setting:
  assumes "pedersen_self_ok (sl, lib, N, m) self" "chunked sl N m b V"
  shows "pedersen_setting lib N m (pedersen_strategy_context lib self) V"
  using assms
  by (simp add: pedersen_setting_def pedersen_self_ok_def pedersen_strategy_context_def
      pedersen_context_of_def chunked_def)

lemma pedersen_init_proposer_ok:
  assumes ok: "pedersen_self_ok (sl, lib, N, m) self" and ft: "block_fits sl N m b"
  shows "\<exists>s ps rng'. pedersen_init_proposer sl lib N self b k rng
      = Inr ((self, s, ps, length (block_write (sl_wire sl) b)), rng') \<and>
    pedersen_node (sl, lib, N, m) self b s \<and> bd_is_complete (pn_decoder s) \<and> length ps = k \<and>
    (\<forall>p \<in> set ps. pedersen_packet (sl, lib, N, m) self b p)"
proof -
  from ok have slok: "packing_ok sl" and sg: "signer_ok (pl_signer lib)"
    and m: "ps_m self = m" "length (ck_generators (ps_ck self)) = m"
    by (simp_all add: pedersen_self_ok_def)
  from chunked_exists [OF slok ft] obtain V where V: "chunked sl N m b V" ..
  then have orig: "originals N m V" by (simp add: chunked_def)
  from chunked_encode [OF slok ft V] obtain cs rng' where
    enc: "encode_chunks (sl_wire sl) (sl_pf sl) (sl_random sl) N m k b rng
        = Inr ((cs, length (block_write (sl_wire sl) b)), rng')"
    and cs: "length cs = k" "\<forall>c \<in> set cs. coded_by N m V c" by metis
  have "originals N (length (ck_generators (ps_ck self))) V" using orig m by simp
  from pedersen_sign_block_authentic [OF sg this, of "ps_signer self"] obtain p where
    p: "pedersen_sign_block lib (ps_signer self) (ps_ck self) V = Inr p"
      "pedersen_authentic lib (pedersen_strategy_context lib self) V p"
    unfolding pedersen_strategy_context_def by blast
  from proposer_decoder_complete [OF orig] obtain d where
    d: "proposer_decoder N (map (\<lambda>v. \<lparr>chunk_v = v\<rparr>) V) = Inr d" "honest N m V d"
      "bd_is_complete d" by blast
  have refs: "map (chunk_v \<circ> (\<lambda>v. \<lparr>chunk_v = v\<rparr>)) V = V" by (simp add: comp_def)
  let ?ctx = "pedersen_strategy_context lib self"
  let ?s = "\<lparr>pn_decoder = d, pn_proofs = [p], pn_ctx = ?ctx\<rparr>"
  let ?ps = "map (\<lambda>chunk. \<lparr>sp_chunk = chunk, sp_proof = p\<rparr>) cs"
  have "pedersen_init_proposer sl lib N self b k rng
      = Inr ((self, ?s, ?ps, length (block_write (sl_wire sl) b)), rng')"
    using V enc p(1) d(1) m refs by (simp add: pedersen_init_proposer_def chunked_def Let_def)
  moreover have "pedersen_node (sl, lib, N, m) self b ?s"
    using V p(2) d(2) by (auto simp: pedersen_node_def node_ok_def pedersen_proofs_def)
  moreover have "\<forall>q \<in> set ?ps. pedersen_packet (sl, lib, N, m) self b q"
    using V cs(2) p(2) by (auto simp: pedersen_packet_def pedersen_good_def)
  ultimately show ?thesis using cs(1) d(3) by force
qed

lemma pedersen_node_setting:
  assumes "pedersen_ready (sl, lib, N, m) self b" "pedersen_node (sl, lib, N, m) self b s"
  obtains V where "chunked sl N m b V" "pn_ctx s = pedersen_strategy_context lib self"
    "pedersen_setting lib N m (pn_ctx s) V"
    "node_ok (pedersen_proofs lib N m (pn_ctx s) V) N m V (pn_decoder s) (pn_proofs s)"
proof -
  from assms have ok: "pedersen_self_ok (sl, lib, N, m) self" by (simp add: pedersen_ready_def)
  from assms(2) obtain V where V: "chunked sl N m b V" and ctx: "pn_ctx s = pedersen_strategy_context lib self"
    and nd: "node_ok (pedersen_proofs lib N m (pn_ctx s) V) N m V (pn_decoder s) (pn_proofs s)"
    by (auto simp: pedersen_node_def)
  show thesis by (rule that [OF V ctx pedersen_strategy_setting [OF ok V, folded ctx] nd])
qed

lemma pedersen_receive_ok:
  assumes rd: "pedersen_ready (sl, lib, N, m) self b"
    and nd: "pedersen_node (sl, lib, N, m) self b s"
    and pk: "pedersen_packet (sl, lib, N, m) self b p"
  shows "\<exists>s' r. pedersen_receive lib self s p = Inr (s', Inr r) \<and>
    pedersen_node (sl, lib, N, m) self b s' \<and>
    bd_coded_chunks (pn_decoder s')
      = bd_coded_chunks (pn_decoder s) @ (if r then [sp_chunk p] else []) \<and>
    (bd_is_complete (pn_decoder s) \<longrightarrow> bd_is_complete (pn_decoder s') \<and> \<not> r)"
proof -
  from pedersen_node_setting [OF rd nd] obtain V where V: "chunked sl N m b V"
    and ctx: "pn_ctx s = pedersen_strategy_context lib self" and st: "pedersen_setting lib N m (pn_ctx s) V"
    and ok: "node_ok (pedersen_proofs lib N m (pn_ctx s) V) N m V (pn_decoder s) (pn_proofs s)" .
  from pk obtain W where W: "chunked sl N m b W"
    "pedersen_good lib N m (pn_ctx s) W (sp_chunk p) (sp_proof p)"
    by (auto simp: pedersen_packet_def ctx)
  note gd = W(2) [unfolded chunked_unique [OF V W(1)]]
  let ?r = "\<not> bd_is_complete (pn_decoder s) \<and> \<not> bd_span N (pn_decoder s) (cc_b (sp_chunk p))"
  from pedersen.receive_good [OF st ok gd] obtain d' ps' where
    run: "coded_receive (pedersen_scheme lib) (pn_decoder s) (pn_proofs s) (pn_ctx s) p
        = Inr ((d', ps'), Inr ?r)"
    and nd': "node_ok (pedersen_proofs lib N m (pn_ctx s) V) N m V d' ps'"
    and cs': "bd_coded_chunks d' = bd_coded_chunks (pn_decoder s) @ (if ?r then [sp_chunk p] else [])"
    and full: "bd_is_complete (pn_decoder s) \<Longrightarrow> bd_is_complete d'" by blast
  let ?s' = "s\<lparr>pn_decoder := d', pn_proofs := ps'\<rparr>"
  have "pedersen_receive lib self s p = Inr (?s', Inr ?r)"
    using run by (simp add: pedersen_receive_def)
  moreover have "pedersen_node (sl, lib, N, m) self b ?s'"
    using V ctx nd' by (auto simp: pedersen_node_def)
  ultimately show ?thesis using cs' full by force
qed

interpretation pedersen_strategy: honest_strategy
  "\<lambda>(sl, lib, N, m). pedersen_strategy sl lib N" pedersen_self_ok
  "\<lambda>(sl, lib, N, m). block_fits sl N m" "\<lambda>(sl, lib, N, m) b. length (block_write (sl_wire sl) b)"
  pedersen_ready pedersen_node pedersen_packet "\<lambda>c s. bd_coded_chunks (pn_decoder s) \<noteq> []"
  "\<lambda>(sl, lib, N, m) s. N - length (bd_coded_chunks (pn_decoder s))" "\<lambda>(sl, lib, N, m). N"
  "\<lambda>(sl, lib, N, m) b. 32 * m + 32 * N + cd_size (pl_gcodec lib) * N + cd_size (pl_scodec lib)"
proof (unfold_locales, goal_cases)
  case (1 c self b k rng)
  obtain sl lib N m where c: "c = (sl, lib, N, m)" by (cases c)
  from 1 have "block_fits sl N m b" by (simp add: c)
  with pedersen_init_proposer_ok [OF 1(1) [unfolded c] this, of k rng] 1(1) show ?case
    by (auto simp: c pedersen_ready_def pedersen_strategy_def pedersen_can_decode_def)
next
  case (2 c self b)
  obtain sl lib N m where c: "c = (sl, lib, N, m)" by (cases c)
  from 2 have ok: "pedersen_self_ok (sl, lib, N, m) self" and ft: "block_fits sl N m b"
    by (simp_all add: c pedersen_ready_def)
  from chunked_exists [OF _ ft] ok obtain V where V: "chunked sl N m b V"
    by (auto simp: pedersen_self_ok_def)
  with pedersen.node_ok_new [OF pedersen_strategy_setting [OF ok V]] new_incomplete block_fits_pos [OF ft]
  show ?case
    by (auto simp: c pedersen_strategy_def pedersen_init_receiver_def pedersen_node_def
        pedersen_can_decode_def)
next
  case (3 c self b s p)
  obtain sl lib N m where c: "c = (sl, lib, N, m)" by (cases c)
  from pedersen_receive_ok [OF 3 [unfolded c]] obtain s' r where
    "pedersen_receive lib self s p = Inr (s', Inr r)" "pedersen_node c self b s'"
    "bd_coded_chunks (pn_decoder s')
      = bd_coded_chunks (pn_decoder s) @ (if r then [sp_chunk p] else [])"
    "bd_is_complete (pn_decoder s) \<Longrightarrow> bd_is_complete (pn_decoder s') \<and> \<not> r"
    unfolding c by metis
  moreover have "bd_wf N (pn_decoder s)"
    using 3(2) by (auto simp: c pedersen_node_def node_ok_def honest_def)
  then have "r \<Longrightarrow> length (bd_coded_chunks (pn_decoder s)) < N"
    using calculation(4) incomplete_room by blast
  ultimately show ?case by (auto simp: c pedersen_strategy_def pedersen_can_decode_def)
next
  case (4 c self b s)
  obtain sl lib N m where c: "c = (sl, lib, N, m)" by (cases c)
  from 4 show ?case
    by (auto simp: c pedersen_ready_def pedersen_node_def node_ok_def pedersen_strategy_def
        pedersen_can_decode_def dest: chunked_fed)
next
  case (5 c self b s k rng)
  obtain sl lib N m where c: "c = (sl, lib, N, m)" by (cases c)
  from pedersen_node_setting [OF 5(1,2) [unfolded c]] obtain V where V: "chunked sl N m b V"
    and ctx: "pn_ctx s = pedersen_strategy_context lib self" and st: "pedersen_setting lib N m (pn_ctx s) V"
    and nd: "node_ok (pedersen_proofs lib N m (pn_ctx s) V) N m V (pn_decoder s) (pn_proofs s)" .
  from pedersen.forward_good [OF st nd 5(3), of "sl_random sl" k rng] V ctx show ?case
    by (auto simp: c pedersen_strategy_def pedersen_forward_def pedersen_packet_def)
next
  case (6 c self b s)
  obtain sl lib N m where c: "c = (sl, lib, N, m)" by (cases c)
  from 6(1) have slok: "packing_ok sl" and ft: "block_fits sl N m b"
    by (simp_all add: c pedersen_ready_def pedersen_self_ok_def)
  from pedersen_node_setting [OF 6(1,2) [unfolded c]] obtain V where V: "chunked sl N m b V"
    and st: "pedersen_setting lib N m (pn_ctx s) V"
    and nd: "node_ok (pedersen_proofs lib N m (pn_ctx s) V) N m V (pn_decoder s) (pn_proofs s)" .
  from 6(3) have "bd_is_complete (pn_decoder s)"
    by (simp add: c pedersen_strategy_def pedersen_can_decode_def)
  from pedersen.decode_good [OF st nd this] chunked_decode [OF slok ft V] show ?case
    by (simp add: c pedersen_strategy_def pedersen_decode_def)
next
  case (7 c self b p)
  obtain sl lib N m where c: "c = (sl, lib, N, m)" by (cases c)
  from 7(1) show ?case
    by (simp add: c pedersen_ready_def pedersen_self_ok_def pedersen_strategy_def pedersen_packet_size_def)
qed

end
