(* ===== verification/Instances.thy ===== *)
theory Instances
  imports Protocol_Pedersen Protocol_Bfkw Pedersen_Strategy
begin

text \<open>
  Concrete library functions, for the theorems that take library code as a parameter: they show that
  the hypotheses about that code can hold together. The scalars are the prime field of 257 elements
  with two-byte codecs and one data byte per element; the group is its additive group; signatures
  are checked by their defining equations.
\<close>

section \<open>The field of 257 elements\<close>

typedef gf = "{..<257 :: nat}" morphisms rep_gf mk_gf
  by (rule exI [of _ 0]) simp

setup_lifting type_definition_gf

definition inv257 :: "nat \<Rightarrow> nat" where
  "inv257 x = (case find (\<lambda>y. y * x mod 257 = 1) [0..<257] of None \<Rightarrow> 0 | Some y \<Rightarrow> y)"

lemma divisor_257: "g * h = (257 :: nat) \<Longrightarrow> g = 1 \<or> h = 1"
proof -
  have small: "a = 1" if "a * b = (257 :: nat)" "a \<le> 16" for a b
  proof -
    have "257 mod a = 0" using that(1) by (metis mod_mult_self1_is_0)
    moreover have "\<forall>a \<in> {..16 :: nat}. (257 :: nat) mod a = 0 \<longrightarrow> a = 1"
      by (simp add: atMost_nat_numeral atMost_Suc)
    ultimately show ?thesis using that(2) by simp
  qed
  assume gh: "g * h = 257"
  have "g \<le> 16 \<or> h \<le> 16"
  proof (rule ccontr)
    assume "\<not> (g \<le> 16 \<or> h \<le> 16)"
    then have "17 * 17 \<le> g * h" by (intro mult_le_mono) simp_all
    with gh show False by simp
  qed
  with small [of g h] small [of h g] gh show ?thesis by (auto simp: mult.commute)
qed

lemma inv257_exists:
  assumes "0 < (x :: nat)" "x < 257"
  shows "\<exists>y < 257. y * x mod 257 = 1"
proof -
  obtain h where h: "gcd x 257 * h = 257" using gcd_dvd2 [of x 257] by (metis dvdE)
  have "gcd x 257 < 257" using assms gcd_le1_nat [of x 257] by linarith
  with divisor_257 [OF h] h have g: "gcd x 257 = 1" by auto
  from bezout_nat [of x 257] assms(1) obtain u v where "x * u = 257 * v + gcd x 257" by auto
  then have "x * u mod 257 = 1" by (simp add: g)
  then have "(u mod 257) * x mod 257 = 1" by (simp add: mod_simps mult.commute)
  then show ?thesis by (intro exI [of _ "u mod 257"]) simp
qed

lemma inv257_left:
  assumes "0 < x" "x < 257"
  shows "inv257 x * x mod 257 = 1"
proof (cases "find (\<lambda>y. y * x mod 257 = 1) [0..<257]")
  case None
  with inv257_exists [OF assms] show ?thesis by (auto simp: find_None_iff)
next
  case (Some y)
  then have "y * x mod 257 = 1" by (auto simp: find_Some_iff)
  with Some show ?thesis by (simp add: inv257_def)
qed

lemma inv257_lt: "inv257 x < 257"
  by (auto simp: inv257_def find_Some_iff split: option.splits)

lemma inv257_0: "inv257 0 = 0"
  by (auto simp: inv257_def find_Some_iff split: option.splits)

instantiation gf :: field
begin

lift_definition zero_gf :: gf is 0 by simp
lift_definition one_gf :: gf is 1 by simp
lift_definition plus_gf :: "gf \<Rightarrow> gf \<Rightarrow> gf" is "\<lambda>x y. (x + y) mod 257" by simp
lift_definition times_gf :: "gf \<Rightarrow> gf \<Rightarrow> gf" is "\<lambda>x y. x * y mod 257" by simp
lift_definition uminus_gf :: "gf \<Rightarrow> gf" is "\<lambda>x. (257 - x) mod 257" by simp
lift_definition inverse_gf :: "gf \<Rightarrow> gf" is inv257 by (simp add: inv257_lt)

definition minus_gf :: "gf \<Rightarrow> gf \<Rightarrow> gf" where "minus_gf x y = x + - y"
definition divide_gf :: "gf \<Rightarrow> gf \<Rightarrow> gf" where "divide_gf x y = x * inverse y"

instance
proof
  fix a b c :: gf
  show "a + b + c = a + (b + c)" by transfer (simp add: mod_simps ac_simps)
  show "a + b = b + a" by transfer (simp add: ac_simps)
  show "0 + a = a" by transfer simp
  show "- a + a = 0" by transfer (simp add: mod_simps)
  show "a - b = a + - b" by (simp add: minus_gf_def)
  show "a * b * c = a * (b * c)" by transfer (simp add: mod_simps ac_simps)
  show "a * b = b * a" by transfer (simp add: ac_simps)
  show "1 * a = a" by transfer simp
  show "(a + b) * c = a * c + b * c" by transfer (simp add: mod_simps algebra_simps)
  show "(0 :: gf) \<noteq> 1" by transfer simp
  show "a \<noteq> 0 \<Longrightarrow> inverse a * a = 1" by transfer (simp add: inv257_left)
  show "a div b = a * inverse b" by (simp add: divide_gf_def)
  show "inverse (0 :: gf) = 0" by transfer (rule inv257_0)
qed

end

lemma rep_gf_lt [simp]: "rep_gf x < 257"
  using rep_gf [of x] by simp

lemma rep_gf_0 [simp]: "rep_gf 0 = 0"
  by (rule zero_gf.rep_eq)

section \<open>Codecs\<close>

definition gf_codec :: "gf codec" where
  "gf_codec =
     \<lparr>cd_size = 2,
      cd_write = (\<lambda>x. [of_nat (rep_gf x div 256), of_nat (rep_gf x mod 256)]),
      cd_read = (\<lambda>buf. case buf of
          hi # lo # rest \<Rightarrow>
            (let v = unat hi * 256 + unat lo in
             if v = 0 \<or> 257 \<le> v then Inl EndOfBuffer else Inr (mk_gf v, rest))
        | _ \<Rightarrow> Inl EndOfBuffer)\<rparr>"

lemma unat_byte: "n < 256 \<Longrightarrow> unat (of_nat n :: u8) = n"
  by (simp add: unat_of_nat)

lemma gf_read_write: "x \<noteq> 0 \<Longrightarrow> cd_read gf_codec (cd_write gf_codec x @ rest) = Inr (x, rest)"
proof -
  assume "x \<noteq> 0"
  have "rep_gf x div 256 < 256" using rep_gf_lt [of x] by linarith
  then have v: "unat (of_nat (rep_gf x div 256) :: u8) * 256 + unat (of_nat (rep_gf x mod 256) :: u8)
      = rep_gf x" by (simp add: unat_byte)
  moreover have "rep_gf x \<noteq> 0" using \<open>x \<noteq> 0\<close> by transfer simp
  ultimately have "cd_read gf_codec (cd_write gf_codec x @ rest) = Inr (mk_gf (rep_gf x), rest)"
    using rep_gf_lt [of x] unfolding gf_codec_def codec.simps append_Cons append_Nil list.case Let_def v
    by (simp add: not_le)
  then show ?thesis by (simp add: rep_gf_inverse)
qed

lemma gf_codec_ok:
  "element_codec_ok gf_codec" "\<forall>x. encodable gf_codec x"
  "cd_write gf_codec 0 = replicate (cd_size gf_codec) 0"
proof -
  show "element_codec_ok gf_codec"
    by (auto simp: element_codec_ok_def gf_codec_def)
  show "\<forall>x. encodable gf_codec x"
    using gf_read_write by (auto simp: encodable_def)
  show "cd_write gf_codec 0 = replicate (cd_size gf_codec) 0"
    by (simp add: gf_codec_def numeral_2_eq_2)
qed

definition gf_packable :: "gf packable" where
  "gf_packable =
     \<lparr>pf_data_bytes = 1,
      pf_pack = (\<lambda>w. case w of [] \<Rightarrow> Inr 0 | b # bs \<Rightarrow> Inr (mk_gf (unat b))),
      pf_unpack = (\<lambda>x. Inr [of_nat (rep_gf x)])\<rparr>"

lemma gf_packable_ok: "packable_ok gf_packable"
proof -
  have "rep_gf (mk_gf (unat b)) = unat b" for b :: u8
    using unsigned_less [of b, where 'a = nat] by (simp add: mk_gf_inverse)
  then show ?thesis
    by (auto simp: packable_ok_def gf_packable_def length_Suc_conv le_Suc_eq split: list.splits)
qed

definition wire_ex :: wire where
  "wire_ex =
     \<lparr>w_u64 = \<lparr>cd_size = 8, cd_write = to_be_bytes,
        cd_read = (\<lambda>buf. if length buf < 8 then Inl EndOfBuffer
                         else Inr (from_be_bytes (take 8 buf), drop 8 buf))\<rparr>,
      w_put_bytes = (\<lambda>bs. to_be_bytes (of_nat (length bs)) @ bs),
      w_bytes_size = (\<lambda>bs. 8 + length bs),
      w_get_bytes = (\<lambda>mx buf.
         if length buf < 8 then Inl EndOfBuffer
         else let len = unat (from_be_bytes (take 8 buf)) in
           if mx < len \<or> length (drop 8 buf) < len then Inl EndOfBuffer
           else Inr (take len (drop 8 buf), drop len (drop 8 buf))),
      w_leftover = (\<lambda>rest. if rest = [] then None else Some EndOfBuffer)\<rparr>"

lemma wire_ex_ok: "wire_ok wire_ex"
proof -
  have "unat (of_nat (length bs) :: u64) = length bs" if "length bs < 2 ^ 32" for bs :: bytes
    using that by (simp add: unat_of_nat)
  then show ?thesis by (auto simp: wire_ok_def wire_ex_def Let_def)
qed

definition sl_ex :: "(gf, nat) scalar_lib" where
  "sl_ex = \<lparr>sl_wire = wire_ex, sl_pf = gf_packable, sl_codec = gf_codec,
     sl_random = (\<lambda>r. (of_nat r, Suc r))\<rparr>"

lemma sl_ex_ok: "scalar_lib_ok sl_ex"
  using wire_ex_ok gf_packable_ok gf_codec_ok by (simp add: scalar_lib_ok_def packing_ok_def sl_ex_def)

lemma sl_ex_packing: "packing_ok sl_ex"
  using sl_ex_ok by (rule scalar_lib_packing)

section \<open>A block\<close>

text \<open>The empty block number \<open>n\<close>: 104 bytes, which two chunks of 52 elements hold.\<close>

definition block_ex :: "u64 \<Rightarrow> block" where
  "block_ex n = \<lparr>bl_parent_hash = replicate 32 1, bl_number = n, bl_timestamp = 0, bl_gas_used = 0,
     bl_gas_limit = 0, bl_state_root = replicate 32 2, bl_transactions = []\<rparr>"

lemma block_ex_number [simp]: "bl_number (block_ex n) = n"
  by (simp add: block_ex_def)

lemma block_ex_readable: "readable (block_ex n)"
  by (simp add: readable_def block_ok_def block_ex_def max_transactions_bytes_def)

lemma block_ex_length [simp]: "length (block_write wire_ex (block_ex n)) = 104"
  by (simp add: block_write_def block_ex_def wire_ex_def)

lemma block_ex_fits: "block_fits sl_ex 2 52 (block_ex n)"
  by (simp add: block_fits_def block_ex_readable sl_ex_def gf_packable_def elements_needed_def)

section \<open>Groups and schemes\<close>

definition group_ex :: "('f::field, 'f) group_ops" where
  "group_ex = \<lparr>g_smul = (*), g_msm = (\<lambda>ps ss. sum_list (map2 (*) ss ps)),
     g_hash_to_group = (\<lambda>dst msg. 1), g_generator = 1\<rparr>"

lemma group_ex_ok: "group_ok (group_ex :: ('f::field, 'f) group_ops)"
  by (auto simp: group_ok_def group_ex_def algebra_simps sum_list_sum_nth atLeast0LessThan)

definition pedersen_ex :: "(gf, gf, unit, unit, unit) pedersen_lib" where
  "pedersen_ex =
     \<lparr>pl_group = group_ex,
      pl_signer = \<lparr>sg_public_key = (\<lambda>_. ()), sg_sign = (\<lambda>_ _ _. ()), sg_verify = (\<lambda>_ _ _ _. True)\<rparr>,
      pl_gcodec = gf_codec,
      pl_scodec = \<lparr>cd_size = 0, cd_write = (\<lambda>_. []), cd_read = (\<lambda>buf. Inr ((), buf))\<rparr>,
      pl_u32 = \<lparr>cd_size = 4, cd_write = (\<lambda>x. drop 4 (to_be_bytes (ucast x))),
        cd_read = (\<lambda>buf. if length buf < 4 then Inl EndOfBuffer
          else Inr (ucast (from_be_bytes (replicate 4 0 @ take 4 buf)), drop 4 buf))\<rparr>\<rparr>"

lemma be_bytes_u32: "replicate 4 0 @ drop 4 (to_be_bytes (ucast (x :: u32))) = to_be_bytes (ucast x)"
proof -
  have "drop_bit n (ucast x :: u64) = 0" if "32 \<le> n" for n
    using that by (intro bit_word_eqI) (auto simp: bit_simps dest: bit_imp_le_length)
  then show ?thesis
    by (simp add: to_be_bytes_def to_le_bytes_def upt_rec numeral_eq_Suc)
qed

lemma pedersen_ex_ok: "pedersen_lib_ok pedersen_ex"
proof -
  have "ucast (ucast x :: u64) = x" for x :: u32
    by (rule bit_word_eqI) (auto simp: bit_simps)
  then show ?thesis
    using group_ex_ok gf_codec_ok
    by (simp add: pedersen_lib_ok_def pedersen_codecs_ok_def pedersen_ex_def signer_ok_def be_bytes_u32)
qed

definition bfkw_ex :: "(gf, gf, gf) bfkw_lib" where
  "bfkw_ex = \<lparr>bf_g1 = group_ex, bf_g2 = group_ex,
     bf_minpk_verify = (\<lambda>pk hm sig. sig = pk * hm), bf_g2_codec = gf_codec\<rparr>"

lemma bfkw_ex_ok: "bfkw_lib_ok bfkw_ex" "bfkw_codecs_ok bfkw_ex"
  using group_ex_ok gf_codec_ok
  by (simp_all add: bfkw_codecs_ok_def bfkw_lib_ok_def bfkw_ex_def group_ex_def)

lemma bfkw_ex_keypair: "bfkw_keypair bfkw_ex sk sk"
  by (simp add: bfkw_keypair_def bfkw_ex_def group_ex_def)

text \<open>The protocols' generics with two chunks of 52 elements; both fit the sample block.\<close>

definition pedersen_generics_ex :: "(gf, gf, unit, unit, unit, nat) pedersen_generics" where
  "pedersen_generics_ex = (sl_ex, pedersen_ex, 2, 52, ())"

definition bfkw_generics_ex :: "(gf, gf, gf, nat) bfkw_node_generics" where
  "bfkw_generics_ex = (sl_ex, bfkw_ex, 2, 52, 3)"

lemma block_ex_length_sl: "length (block_write (sl_wire sl_ex) (block_ex n)) = 104"
  by (simp add: sl_ex_def)

lemma pedersen_generics_ex_fits: "pedersen_fits pedersen_generics_ex (block_ex n)"
  by (simp add: pedersen_fits_def pedersen_generics_ex_def sl_ex_ok pedersen_ex_ok block_ex_fits
      block_ex_length_sl)

lemma bfkw_generics_ex_fits: "bfkw_fits bfkw_generics_ex (block_ex n)"
  using bfkw_ex_keypair [of 3]
  by (auto simp: bfkw_fits_def bfkw_generics_ex_def sl_ex_ok bfkw_ex_ok block_ex_fits
      block_ex_length_sl)

definition pedersen_node_ex :: "unit option \<Rightarrow> (gf, gf, unit, unit, unit) pedersen_protocol_state" where
  "pedersen_node_ex signer = pedersen_protocol_new pedersen_ex 2 52 () signer"

definition bfkw_node_ex :: "(gf, gf) bfkw_signer option \<Rightarrow> (gf, gf, gf) bfkw_protocol_state" where
  "bfkw_node_ex signer = bfkw_protocol_new 2 52 3 signer"

lemma pedersen_node_ex_ok:
  "pedersen_idle pedersen_generics_ex (pedersen_node_ex signer)"
  "pedersen_proposer pedersen_generics_ex (pedersen_node_ex (Some ()))"
  by (simp_all add: pedersen_idle_def pedersen_generics_ex_def pedersen_node_ex_def
      pedersen_protocol_new_def pedersen_ctx_def pedersen_proposer_def)

lemma bfkw_node_ex_ok:
  "bfkw_idle bfkw_generics_ex (bfkw_node_ex signer)"
  "bfkw_proposer bfkw_generics_ex (bfkw_node_ex (Some \<lparr>bs_sk = 3, bs_pk = 3\<rparr>))"
  using bfkw_ex_keypair [of 3]
  by (simp_all add: bfkw_idle_def bfkw_generics_ex_def bfkw_node_ex_def bfkw_protocol_new_def
      bfkw_proposer_def)

end
