(* ===== verification/Props_Block.thy ===== *)
theory Props_Block
  imports Instances
begin

text \<open>
  What the block layer promises: bytes and field elements, blocks and bytes, blocks and chunks are
  converted back and forth without loss; oversized input is refused where the code refuses it; the
  chunk dimension computed from the configuration is the least that is large enough.
\<close>

section \<open>A scalar codec over the rationals\<close>

text \<open>
  The rationals are a field with room for 31-byte integers: a concrete codec that behaves as the
  documentation of the BLS12-381 scalar codec says.
\<close>

fun le_num :: "bytes \<Rightarrow> nat" where
  "le_num [] = 0"
| "le_num (b # bs) = unat b + 256 * le_num bs"

fun le_digits :: "nat \<Rightarrow> nat \<Rightarrow> bytes" where
  "le_digits 0 n = []"
| "le_digits (Suc k) n = of_nat (n mod 256) # le_digits k (n div 256)"

lemma length_le_digits [simp]: "length (le_digits k n) = k"
  by (induction k arbitrary: n) simp_all

lemma le_digits_num [simp]: "le_digits (length bs) (le_num bs) = bs"
proof (induction bs)
  case (Cons b bs)
  have "unat b < 256" using unsigned_less [of b, where 'a = nat] by simp
  then have "(unat b + 256 * le_num bs) mod 256 = unat b" "(unat b + 256 * le_num bs) div 256 = le_num bs"
    by simp_all
  with Cons.IH show ?case by simp
qed simp

lemma le_num_zero: "le_num bs = 0 \<longleftrightarrow> list_all (\<lambda>b. b = 0) bs"
  by (induction bs) (auto simp: unat_eq_0)

definition rat_codec :: "rat codec" where
  "rat_codec = \<lparr>cd_size = 32,
     cd_write = (\<lambda>x. 0 # rev (le_digits 31 (nat \<lfloor>x\<rfloor>))),
     cd_read = (\<lambda>buf. let w = rev (take 31 (drop 1 buf)) in
       if length buf < 32 \<or> le_num w = 0 then Inl EndOfBuffer
       else Inr (of_nat (le_num w), drop 32 buf))\<rparr>"

lemma rat_codec_ok: "scalar_codec_ok rat_codec"
proof -
  have zero: "le_digits k 0 = replicate k 0" for k by (induction k) simp_all
  have z: "le_num (rev (replicate k (0::u8))) = 0" for k by (simp add: le_num_zero list_all_iff)
  have "\<exists>x. cd_read rat_codec (0 # w @ rest) = Inr (x, rest) \<and> cd_write rat_codec x = 0 # w"
    if "length w = 31" "\<not> list_all (\<lambda>b. b = 0) w" for w rest
  proof -
    have "le_num (rev w) \<noteq> 0" using that(2) by (simp add: le_num_zero list_all_iff)
    moreover have "le_digits 31 (le_num (rev w)) = rev w" using le_digits_num [of "rev w"] that(1) by simp
    ultimately show ?thesis using that(1)
      by (intro exI [of _ "of_nat (le_num (rev w))"]) (simp add: rat_codec_def Let_def)
  qed
  moreover have "cd_write rat_codec 0 = replicate 32 0"
    by (simp add: rat_codec_def zero replicate_Suc [symmetric] del: replicate_Suc)
  moreover have "element_codec_ok rat_codec"
    using z [of 31] by (auto simp: element_codec_ok_def rat_codec_def Let_def zero)
  ultimately show ?thesis by (simp add: scalar_codec_ok_def rat_codec_def)
qed

section \<open>Properties\<close>

text \<open>
  Bytes survive the scalar packing. \<open>bytes_to_field_elements\<close> never panics and uses
  \<open>max 1 (ceil (len / 31))\<close> scalars; \<open>field_elements_to_bytes\<close> of these scalars, followed by any number
  of padding zeros, starts with the original bytes, and every scalar gives 31 bytes.
\<close>

lemma scalar_bytes_roundtrip:
  fixes c :: "'f::field codec"
  assumes "scalar_codec_ok c"
  shows "\<exists>es. bytes_to_field_elements (scalar_packable c) data = Inr es \<and>
    length es = elements_needed 31 (length data) \<and>
    (\<forall>k. \<exists>bs. field_elements_to_bytes (scalar_packable c) (es @ replicate k 0) = Inr bs \<and>
      take (length data) bs = data \<and> length bs = 31 * (length es + k))"
  using scalar_pf.bytes_roundtrip [OF assms, of data]
  by (simp add: elements_needed_def scalar_packable_def)

text \<open>
  C23: The block codec. \<open>encode_size\<close> is the number of bytes \<open>write\<close> emits; \<open>decode\<close> of the bytes
  gives the block back when its transactions are at most 16 MiB, and refuses it otherwise; equality
  of blocks is equality of all fields.
\<close>

theorem block_codec:
  assumes "wire_ok wc" "block_ok b" "length (bl_transactions b) < 2 ^ 32"
  shows "block_encode_size wc b = length (block_write wc b) \<and>
    (if length (bl_transactions b) \<le> max_transactions_bytes
     then block_decode wc (block_write wc b) = Inr b
     else \<exists>e. block_decode wc (block_write wc b) = Inl e) \<and>
    (block_eq a b \<longleftrightarrow> a = b)"
proof -
  have "\<exists>e. block_decode wc (block_write wc b) = Inl e"
    if "max_transactions_bytes < length (bl_transactions b)"
    using block_read_oversized [OF assms(1,2) that assms(3), of "[]"] by (auto simp: block_decode_def)
  then show ?thesis
    using block_decode_write [OF assms(1,2)] block_encode_size_length [OF assms(1,2)]
    by (auto simp: block_eq_iff not_le)
qed

theorem block_codec_witness:
  "block_encode_size wire_ex (block_ex 7) = length (block_write wire_ex (block_ex 7)) \<and>
    (if length (bl_transactions (block_ex 7)) \<le> max_transactions_bytes
     then block_decode wire_ex (block_write wire_ex (block_ex 7)) = Inr (block_ex 7)
     else \<exists>e. block_decode wire_ex (block_write wire_ex (block_ex 7)) = Inl e) \<and>
    (block_eq (block_ex 7) (block_ex 7) \<longleftrightarrow> (block_ex 7) = (block_ex 7))"
  by (rule block_codec [OF wire_ex_ok, of "block_ex 7" "block_ex 7"])
     (simp_all add: block_ok_def block_ex_def)

text \<open>
  C2: Blocks survive chunking, up to the codec's bound. For a block with hashes of 32 bytes and fewer than
  \<open>2 ^ 32\<close> bytes of transactions, over a lawful packing and codec: \<open>as_chunks\<close> panics exactly when the
  encoded block needs more than \<open>N * m\<close> field elements; otherwise it gives \<open>N\<close> chunks of \<open>m\<close> elements, from
  which \<open>from_chunks\<close> rebuilds the block if its transactions are at most 16 MiB, and panics with an
  invalid block if they are longer, although \<open>as_chunks\<close> accepted them.
\<close>

theorem chunking_roundtrip:
  fixes pf :: "'f::field packable"
  assumes "packable_ok pf" "wire_ok wc" "block_ok b" "length (bl_transactions b) < 2 ^ 32"
  shows "if N * m < elements_needed (pf_data_bytes pf) (length (block_write wc b))
    then as_chunks wc pf N m b = Inl BlockTooLarge
    else \<exists>cs. as_chunks wc pf N m b = Inr (cs, length (block_write wc b)) \<and> length cs = N \<and>
      (\<forall>c \<in> set cs. length (chunk_v c) = m) \<and>
      from_chunks wc pf N cs (length (block_write wc b)) =
        (if length (bl_transactions b) \<le> max_transactions_bytes then Inr b else Inl InvalidBlock)"
proof (cases "N * m < elements_needed (pf_data_bytes pf) (length (block_write wc b))")
  case True
  then show ?thesis using any_pf.as_chunks_too_large [OF assms(1)] by simp
next
  case False
  then obtain V where V: "as_chunks wc pf N m b
      = Inr (map (\<lambda>v. \<lparr>chunk_v = v\<rparr>) V, length (block_write wc b))" "originals N m V"
    using any_pf.as_chunks_spec [OF assms(1), of wc b N m] by auto
  have "from_chunks wc pf N (map (\<lambda>v. \<lparr>chunk_v = v\<rparr>) V) (length (block_write wc b)) =
      (if length (bl_transactions b) \<le> max_transactions_bytes then Inr b else Inl InvalidBlock)"
    using any_pf.from_chunks_as_chunks [OF assms(1-3) _ V(1)]
      any_pf.from_chunks_oversized [OF assms(1-3) _ assms(4) V(1)]
    by (simp add: not_le)
  with V False show ?thesis by (auto simp: originals_def)
qed

theorem chunking_roundtrip_witness:
  "if 2 * 2 < elements_needed (pf_data_bytes (scalar_packable rat_codec))
        (length (block_write wire_ex (block_ex 7)))
    then as_chunks wire_ex (scalar_packable rat_codec) 2 2 (block_ex 7) = Inl BlockTooLarge
    else \<exists>cs. as_chunks wire_ex (scalar_packable rat_codec) 2 2 (block_ex 7)
        = Inr (cs, length (block_write wire_ex (block_ex 7))) \<and> length cs = 2 \<and>
      (\<forall>c \<in> set cs. length (chunk_v c) = 2) \<and>
      from_chunks wire_ex (scalar_packable rat_codec) 2 cs (length (block_write wire_ex (block_ex 7))) =
        (if length (bl_transactions (block_ex 7)) \<le> max_transactions_bytes then Inr (block_ex 7)
         else Inl InvalidBlock)"
  by (rule chunking_roundtrip [OF scalar_packable_ok [OF rat_codec_ok] wire_ex_ok])
     (simp_all add: block_ok_def block_ex_def)

text \<open>
  The configured chunk dimension. \<open>compute_m\<close> panics exactly for zero chunks; otherwise every
  block whose encoding has at most \<open>block_size + 100\<close> bytes fits \<open>n\<close> chunks of that many scalars, and
  no smaller dimension holds \<open>block_size + 100\<close> bytes.
\<close>

theorem chunk_dimension:
  fixes c :: "'f::field codec"
  assumes "scalar_codec_ok c" "length (block_write wc b) \<le> block_size + 100"
    and room: "compute_m_fits_usize block_size n"
  shows "if n = 0 then compute_m block_size n = Inl ArithmeticOverflow
    else \<exists>m. compute_m block_size n = Inr m \<and>
      (\<exists>cs. as_chunks wc (scalar_packable c) n m b = Inr (cs, length (block_write wc b))) \<and>
      (\<forall>k. block_size + 100 \<le> 31 * (n * k) \<longrightarrow> m \<le> k)"
proof (cases "n = 0")
  case False
  then obtain m where m: "compute_m block_size n = Inr m"
    by (simp add: compute_m_exact [OF room])
  have "elements_needed (pf_data_bytes (scalar_packable c)) (length (block_write wc b)) \<le> n * m"
    using compute_m_fits [OF room m assms(2)] by (simp add: scalar_packable_def)
  from any_pf.as_chunks_spec [OF scalar_packable_ok [OF assms(1)] this] compute_m_least [OF room m] m False
  show ?thesis by auto
qed (simp add: compute_m_def div_ceil_def)

theorem chunk_dimension_witness:
  "if 10 = (0::nat) then compute_m 1000 10 = Inl ArithmeticOverflow
    else \<exists>m. compute_m 1000 10 = Inr m \<and>
      (\<exists>cs. as_chunks wire_ex (scalar_packable rat_codec) 10 m (block_ex 7)
         = Inr (cs, length (block_write wire_ex (block_ex 7)))) \<and>
      (\<forall>k. 1000 + 100 \<le> 31 * (10 * k) \<longrightarrow> m \<le> k)"
  by (rule chunk_dimension [OF rat_codec_ok]) (simp_all add: compute_m_fits_usize_def)

text \<open>
  A forged announcement is fatal. The length given to \<open>from_chunks\<close> comes from the network; if it
  exceeds the capacity of the chunks, decoding the correct chunks panics.
\<close>

lemma forged_length_panics:
  fixes pf :: "'f::field packable"
  assumes "packable_ok pf" and "as_chunks wc pf N m b = Inr (cs, byte_len)"
    and "pf_data_bytes pf * (N * m) < forged"
  shows "from_chunks wc pf N cs forged = Inl SliceOutOfBounds"
proof -
  have "\<not> N * m < elements_needed (pf_data_bytes pf) (length (block_write wc b))"
    using any_pf.as_chunks_too_large [OF assms(1)] assms(2) by fastforce
  then obtain V bs where "as_chunks wc pf N m b
      = Inr (map (\<lambda>v. \<lparr>chunk_v = v\<rparr>) V, length (block_write wc b))" "originals N m V"
    and bs: "field_elements_to_bytes pf (concat V) = Inr bs" "length bs = pf_data_bytes pf * (N * m)"
    using any_pf.as_chunks_spec [OF assms(1), of wc b N m] by auto
  with any_pf.from_chunks_slice_panics [OF assms(1) bs(1), of N forged wc] assms(2,3) show ?thesis
    by (auto simp: originals_def)
qed

end
