(* ===== verification/Props_Schemes.thy ===== *)
theory Props_Schemes
  imports Instances Props_Coding
begin

text \<open>
  What the integrity schemes promise: honest packets verify and stay honest through any relay; what
  acceptance implies; the wire format; and the limits that the code has.
\<close>

section \<open>Receiving a list of packets\<close>

text \<open>A node that receives \<open>pkts\<close> one after the other, ignoring the results as the callers do.\<close>

definition coded_receive_all ::
  "('ctx, 'f::field, 'p) integrity_scheme \<Rightarrow> 'ctx \<Rightarrow> ('f, 'p) signed_packet list \<Rightarrow>
   'f block_decoder \<times> 'p list \<Rightarrow> ('f block_decoder \<times> 'p list) run" where
  "coded_receive_all S ctx pkts st =
     foldR (\<lambda>pkt (d, ps). mapRes fst (coded_receive S d ps ctx pkt)) pkts st"

context coded_integrity
begin

lemma receive_all_good:
  assumes st: "setting c N m ctx V" and "node_ok (proofs c N m ctx V) N m V d ps"
    and "\<forall>pkt \<in> set pkts. good c N m ctx V (sp_chunk pkt) (sp_proof pkt)"
  shows "\<exists>d' ps'. coded_receive_all (scheme c N) ctx pkts (d, ps) = Inr (d', ps') \<and>
    node_ok (proofs c N m ctx V) N m V d' ps'"
  using assms(2,3)
proof (induction pkts arbitrary: d ps)
  case Nil
  then show ?case by (simp add: coded_receive_all_def)
next
  case (Cons pkt pkts)
  then have "good c N m ctx V (sp_chunk pkt) (sp_proof pkt)" by simp
  from receive_good [OF st Cons.prems(1) this] obtain d1 ps1 r where
    r1: "coded_receive (scheme c N) d ps ctx pkt = Inr ((d1, ps1), Inr r)"
    and ok1: "node_ok (proofs c N m ctx V) N m V d1 ps1" by (elim exE conjE) (rule that)
  have "\<forall>pkt \<in> set pkts. good c N m ctx V (sp_chunk pkt) (sp_proof pkt)" using Cons.prems(2) by simp
  from Cons.IH [OF ok1 this] r1 show ?case by (simp add: coded_receive_all_def)
qed

text \<open>A relay that received honest packets decodes correctly and forwards packets that verify.\<close>

lemma relay_good:
  assumes st: "setting c N m ctx V"
    and good: "\<forall>pkt \<in> set pkts. good c N m ctx V (sp_chunk pkt) (sp_proof pkt)"
  shows "\<exists>d ps. coded_receive_all (scheme c N) ctx pkts (bd_new N, []) = Inr (d, ps) \<and>
    bd_decode N d = (if bd_is_complete d then Inr (map (\<lambda>v. \<lparr>chunk_v = v\<rparr>) V) else Inl CannotDecode) \<and>
    (if bd_coded_chunks d = [] then coded_forward (scheme c N) random N d ps (Suc k) rng = Inl CannotReencode
     else \<exists>out rng'. coded_forward (scheme c N) random N d ps (Suc k) rng = Inr (out, rng') \<and>
       length out = Suc k \<and>
       (\<forall>pkt \<in> set out. is_verify (scheme c N) ctx (sp_chunk pkt) (sp_proof pkt) = Inr (Inr ()) \<and>
          coded_by N m V (sp_chunk pkt)))"
proof -
  from receive_all_good [OF st node_ok_new [OF st] good] obtain d ps where
    run: "coded_receive_all (scheme c N) ctx pkts (bd_new N, []) = Inr (d, ps)"
    and ok: "node_ok (proofs c N m ctx V) N m V d ps" by (elim exE conjE) (rule that)
  have fwd: "\<exists>out rng'. coded_forward (scheme c N) random N d ps (Suc k) rng = Inr (out, rng') \<and>
      length out = Suc k \<and>
      (\<forall>pkt \<in> set out. is_verify (scheme c N) ctx (sp_chunk pkt) (sp_proof pkt) = Inr (Inr ()) \<and>
         coded_by N m V (sp_chunk pkt))" if ne: "bd_coded_chunks d \<noteq> []"
    using forward_good [OF st ok ne, of random "Suc k" rng] verify_good [OF st] good_coded [OF st]
    by blast
  show ?thesis
    using run decode_good [OF st ok] bd_decode_panics [of d N] fwd
      coded_forward_empty [of d "scheme c N" random N ps k rng] by auto
qed

end

text \<open>If every packet verifies, the decoder is the one that \<open>add\<close> builds from the chunks.\<close>

lemma coded_receive_all_adds:
  assumes "\<forall>pkt \<in> set pkts. is_verify S ctx (sp_chunk pkt) (sp_proof pkt) = Inr (Inr ())"
    and "bd_add_all (map sp_chunk pkts) d = Inr d'"
  shows "\<exists>ps'. coded_receive_all S ctx pkts (d, ps) = Inr (d', ps')"
  using assms
proof (induction pkts arbitrary: d ps)
  case Nil
  then show ?case by (simp add: coded_receive_all_def bd_add_all_def)
next
  case (Cons pkt pkts)
  from Cons.prems(2) obtain d1 r where d1: "bd_add d (sp_chunk pkt) = Inr (d1, r)"
    and rest: "bd_add_all (map sp_chunk pkts) d1 = Inr d'"
    by (auto simp: bd_add_all_def bindR_eq_Inr mapRes_def split: sum.splits)
  have v: "is_verify S ctx (sp_chunk pkt) (sp_proof pkt) = Inr (Inr ())" using Cons.prems(1) by simp
  have "\<exists>ps1. mapRes fst (coded_receive S d ps ctx pkt) = Inr (d1, ps1)"
    using d1 v by (cases r) (simp_all add: coded_receive_def)
  then obtain ps1 where "mapRes fst (coded_receive S d ps ctx pkt) = Inr (d1, ps1)" ..
  with Cons.IH [of d1 ps1] Cons.prems(1) rest show ?case by (auto simp: coded_receive_all_def)
qed

section \<open>Samples\<close>

definition V_ex :: "gf list list" where
  "V_ex = [[3], [5]]"

definition pctx_ex :: "(gf, unit) pedersen_context" where
  "pctx_ex = pedersen_context_of pedersen_ex () (ck_canonical group_ex 1)"

definition pproof_ex :: "gf list list \<Rightarrow> (gf, unit) pedersen_proof" where
  "pproof_ex V = projr (pedersen_sign_block pedersen_ex () (ck_canonical group_ex 1) V)"

definition bctx_ex :: "(gf, gf) bfkw_context" where
  "bctx_ex = bfkw_setup_context bfkw_ex 2 \<lparr>bs_sk = 3, bs_pk = 3\<rparr> [] 1"

lemma V_ex_originals: "originals 2 1 V_ex"
  by (simp add: originals_def V_ex_def)

lemma pctx_ex_setting: "originals 2 1 V \<Longrightarrow> pedersen_setting pedersen_ex 2 1 pctx_ex V"
  by (simp add: pedersen_setting_def pctx_ex_def pedersen_context_of_def pedersen_ex_def group_ex_ok)

lemma pproof_ex_authentic: "originals 2 1 V \<Longrightarrow> pedersen_authentic pedersen_ex pctx_ex V (pproof_ex V)"
  using pedersen_sign_block_authentic [of pedersen_ex 2 "ck_canonical group_ex 1" V "()"]
  by (auto simp: pproof_ex_def pctx_ex_def pedersen_ex_def signer_ok_def)

lemma bctx_ex_setting: "bfkw_setting bfkw_ex 2 1 bctx_ex V_ex"
  using bfkw_ex_ok(1) bfkw_ex_keypair [of 3] V_ex_originals
  by (auto simp: bfkw_setting_def bctx_ex_def bfkw_setup_context_def)

definition coded_ex :: "gf coded_chunk" where
  "coded_ex = systematic 2 V_ex ! 0"

lemma coded_ex_coded: "coded_by 2 1 V_ex coded_ex"
  using systematic_coded [OF V_ex_originals]
  by (simp add: coded_ex_def systematic_def V_ex_def numeral_2_eq_2)

definition bproof_ex :: "gf bfkw_proof" where
  "bproof_ex = projr (bfkw_sign bfkw_ex 2 \<lparr>bs_sk = 3, bs_pk = 3\<rparr> bctx_ex 0 (V_ex ! 0))"

lemma bproof_ex_good: "bfkw_good bfkw_ex 2 1 bctx_ex V_ex coded_ex bproof_ex"
  using bfkw_sign_good [OF bctx_ex_setting, of 0 "\<lparr>bs_sk = 3, bs_pk = 3\<rparr>"] bfkw_ex_keypair [of 3]
  by (auto simp: bproof_ex_def coded_ex_def bctx_ex_def bfkw_setup_context_def)

section \<open>Properties\<close>

text \<open>
  C30: \<open>coded_receive\<close> on every branch, for any scheme. On a decoder built by \<open>add\<close> calls and a packet with
  as many coefficients as chunks: a panic of \<open>verify\<close> is passed on; a packet that fails verification
  leaves decoder and proofs unchanged and gives the error; a verified one gives \<open>false\<close> and changes
  nothing exactly when the decoder is complete or the coefficients are a combination of those received
  so far; otherwise it gives \<open>true\<close>, appends the chunk to the decoder and the proof to the proofs, and the
  rank grows by one.
\<close>

theorem receive_atomic:
  fixes d :: "'f::field block_decoder"
  assumes "bd_add_all cs (bd_new N) = Inr d" "\<forall>c \<in> set cs. length (cc_b c) = N"
    and "length (cc_b (sp_chunk pkt)) = N"
  shows "case is_verify S ctx (sp_chunk pkt) (sp_proof pkt) of
      Inl e \<Rightarrow> coded_receive S d ps ctx pkt = Inl e
    | Inr (Inl e) \<Rightarrow> coded_receive S d ps ctx pkt = Inr ((d, ps), Inl e)
    | Inr (Inr _) \<Rightarrow>
        if bd_is_complete d \<or> in_span N (map cc_b cs) (cc_b (sp_chunk pkt))
        then coded_receive S d ps ctx pkt = Inr ((d, ps), Inr False)
        else \<exists>d'. coded_receive S d ps ctx pkt = Inr ((d', ps @ [sp_proof pkt]), Inr True) \<and>
          bd_coded_chunks d' = bd_coded_chunks d @ [sp_chunk pkt] \<and> bd_rank d' = bd_rank d + 1"
proof -
  from bd_add_all_keeps [OF bd_wf_new assms(2)] assms(1) have wf: "bd_wf N d" by auto
  note sp = bd_span_received [OF assms(1,2), symmetric]
  show ?thesis
  proof (cases rule: bd_add_cases [OF wf assms(3)])
    case 1
    then show ?thesis by (auto simp: coded_receive_def sp split: sum.splits)
  next
    case (2 d')
    then have "bd_rank d' = bd_rank d + 1" using wf by (simp add: bd_wf_rank)
    with 2 show ?thesis by (auto simp: coded_receive_def sp split: sum.splits)
  qed
qed

theorem receive_atomic_witness:
  "let pkt = \<lparr>sp_chunk = coded_ex, sp_proof = ()\<rparr>; d = bd_new 2 in
    case is_verify noop_scheme () (sp_chunk pkt) (sp_proof pkt) of
      Inl e \<Rightarrow> coded_receive noop_scheme d [] () pkt = Inl e
    | Inr (Inl e) \<Rightarrow> coded_receive noop_scheme d [] () pkt = Inr ((d, []), Inl e)
    | Inr (Inr _) \<Rightarrow>
        if bd_is_complete d \<or> in_span 2 (map cc_b ([] :: gf coded_chunk list)) (cc_b (sp_chunk pkt))
        then coded_receive noop_scheme d [] () pkt = Inr ((d, []), Inr False)
        else \<exists>d'. coded_receive noop_scheme d [] () pkt = Inr ((d', [] @ [sp_proof pkt]), Inr True) \<and>
          bd_coded_chunks d' = bd_coded_chunks d @ [sp_chunk pkt] \<and> bd_rank d' = bd_rank d + 1"
  unfolding Let_def
  by (rule receive_atomic) (use coded_ex_coded in \<open>simp_all add: bd_add_all_def coded_by_def\<close>)

text \<open>
  C18: Pedersen relays. A node that receives any list of honest packets of a block never panics; when
  its decoder is complete it decodes to the block's chunks; when it holds a chunk, every packet it
  forwards passes \<open>verify\<close> and encodes the same chunks, so relays can be chained.
\<close>

theorem pedersen_relay:
  fixes lib :: "('f::field, 'g::ab_group_add, 'sk, 'pk, 'sig) pedersen_lib"
  assumes "pedersen_setting lib N m ctx V"
    and "\<forall>pkt \<in> set pkts. coded_by N m V (sp_chunk pkt) \<and> pedersen_authentic lib ctx V (sp_proof pkt)"
  shows "\<exists>d ps. coded_receive_all (pedersen_scheme lib) ctx pkts (bd_new N, []) = Inr (d, ps) \<and>
    bd_decode N d = (if bd_is_complete d then Inr (map (\<lambda>v. \<lparr>chunk_v = v\<rparr>) V) else Inl CannotDecode) \<and>
    (if bd_coded_chunks d = []
     then coded_forward (pedersen_scheme lib) random N d ps (Suc k) rng = Inl CannotReencode
     else \<exists>out rng'. coded_forward (pedersen_scheme lib) random N d ps (Suc k) rng = Inr (out, rng') \<and>
       length out = Suc k \<and>
       (\<forall>pkt \<in> set out. is_verify (pedersen_scheme lib) ctx (sp_chunk pkt) (sp_proof pkt) = Inr (Inr ()) \<and>
          coded_by N m V (sp_chunk pkt)))"
  using pedersen.relay_good [OF assms(1), of pkts random k rng] assms(2)
  by (simp add: pedersen_good_def)

theorem pedersen_relay_witness:
  "\<exists>d ps. coded_receive_all (pedersen_scheme pedersen_ex) pctx_ex
      [\<lparr>sp_chunk = coded_ex, sp_proof = pproof_ex V_ex\<rparr>] (bd_new 2, []) = Inr (d, ps) \<and>
    bd_decode 2 d = (if bd_is_complete d then Inr (map (\<lambda>v. \<lparr>chunk_v = v\<rparr>) V_ex) else Inl CannotDecode) \<and>
    (if bd_coded_chunks d = []
     then coded_forward (pedersen_scheme pedersen_ex) (sl_random sl_ex) 2 d ps (Suc 2) 1 = Inl CannotReencode
     else \<exists>out rng'. coded_forward (pedersen_scheme pedersen_ex) (sl_random sl_ex) 2 d ps (Suc 2) 1
         = Inr (out, rng') \<and> length out = Suc 2 \<and>
       (\<forall>pkt \<in> set out. is_verify (pedersen_scheme pedersen_ex) pctx_ex (sp_chunk pkt) (sp_proof pkt)
            = Inr (Inr ()) \<and> coded_by 2 1 V_ex (sp_chunk pkt)))"
  by (rule pedersen_relay [OF pctx_ex_setting [OF V_ex_originals]])
     (use coded_ex_coded pproof_ex_authentic [OF V_ex_originals] in simp)

text \<open>
  C9: BFKW relays. The same for the homomorphic signatures: the signature a relay computes with
  \<open>combine\<close> passes the pairing check for the chunk it recodes.
\<close>

theorem bfkw_relay:
  fixes lib :: "('f::field, 'g1::ab_group_add, 'g2::ab_group_add) bfkw_lib"
  assumes "bfkw_setting lib N m ctx V"
    and "\<forall>pkt \<in> set pkts. bfkw_good lib N m ctx V (sp_chunk pkt) (sp_proof pkt)"
  shows "\<exists>d ps. coded_receive_all (bfkw_scheme lib N) ctx pkts (bd_new N, []) = Inr (d, ps) \<and>
    bd_decode N d = (if bd_is_complete d then Inr (map (\<lambda>v. \<lparr>chunk_v = v\<rparr>) V) else Inl CannotDecode) \<and>
    (if bd_coded_chunks d = []
     then coded_forward (bfkw_scheme lib N) random N d ps (Suc k) rng = Inl CannotReencode
     else \<exists>out rng'. coded_forward (bfkw_scheme lib N) random N d ps (Suc k) rng = Inr (out, rng') \<and>
       length out = Suc k \<and>
       (\<forall>pkt \<in> set out. is_verify (bfkw_scheme lib N) ctx (sp_chunk pkt) (sp_proof pkt) = Inr (Inr ()) \<and>
          coded_by N m V (sp_chunk pkt)))"
  by (rule bfkw.relay_good [OF assms])

theorem bfkw_relay_witness:
  "\<exists>d ps. coded_receive_all (bfkw_scheme bfkw_ex 2) bctx_ex
      [\<lparr>sp_chunk = coded_ex, sp_proof = bproof_ex\<rparr>] (bd_new 2, []) = Inr (d, ps) \<and>
    bd_decode 2 d = (if bd_is_complete d then Inr (map (\<lambda>v. \<lparr>chunk_v = v\<rparr>) V_ex) else Inl CannotDecode) \<and>
    (if bd_coded_chunks d = []
     then coded_forward (bfkw_scheme bfkw_ex 2) (sl_random sl_ex) 2 d ps (Suc 2) 1 = Inl CannotReencode
     else \<exists>out rng'. coded_forward (bfkw_scheme bfkw_ex 2) (sl_random sl_ex) 2 d ps (Suc 2) 1
         = Inr (out, rng') \<and> length out = Suc 2 \<and>
       (\<forall>pkt \<in> set out. is_verify (bfkw_scheme bfkw_ex 2) bctx_ex (sp_chunk pkt) (sp_proof pkt)
            = Inr (Inr ()) \<and> coded_by 2 1 V_ex (sp_chunk pkt)))"
  by (rule bfkw_relay [OF bctx_ex_setting]) (use bproof_ex_good in simp)

lemma concat_write_inj:
  assumes c: "element_codec_ok c" "\<And>x. encodable c x" "0 < cd_size c"
  shows "concat (map (cd_write c) xs) = concat (map (cd_write c) ys) \<Longrightarrow> xs = ys"
proof (induction xs arbitrary: ys)
  have len: "length (cd_write c x) = cd_size c" for x using c(1) by (simp add: element_codec_ok_def)
  have rd: "x \<noteq> 0 \<Longrightarrow> cd_write c x \<noteq> cd_write c 0" "x \<noteq> 0 \<Longrightarrow> cd_read c (cd_write c x @ []) = Inr (x, [])" for x
    by (rule encodable_nonzero [OF c(1,2)]; assumption)+
  have inj: "x = y" if eq: "cd_write c x = cd_write c y" for x y
  proof (cases "x = 0 \<or> y = 0")
    case True
    then show ?thesis using eq rd(1) [of x] rd(1) [of y] by (cases "x = 0"; cases "y = 0") simp_all
  next
    case False
    then show ?thesis using eq rd(2) [of x] rd(2) [of y] by simp
  qed
  have ne: "cd_write c x \<noteq> []" for x using len [of x] c(3) by auto
  {
    case Nil
    then show ?case using ne by (cases ys) auto
  next
    case (Cons x xs)
    then obtain y ys' where "ys = y # ys'" using ne by (cases ys) auto
    with Cons len inj show ?case by (simp add: append_eq_append_conv)
  }
qed

text \<open>
  C3: Pedersen soundness, as a reduction. Let \<open>Vs\<close> be the blocks whose commitments the proposer has signed,
  and take a packet whose signature, if it verifies at all, is not a forgery: it is over the commitments
  of one of them. Then \<open>verify\<close> accepts the packet if and only if its proof is authentic for some block \<open>V\<close>
  of \<open>Vs\<close> and either the chunk is exactly the combination of \<open>V\<close>'s original chunks that its coefficients
  say, or its data differs from that combination by a linear relation between the generators. So who
  gets a polluted chunk accepted has forged a signature or holds such a relation.
\<close>

theorem pedersen_soundness:
  fixes lib :: "('f::field, 'g::ab_group_add, 'sk, 'pk, 'sig) pedersen_lib"
  assumes st: "\<And>V. V \<in> set Vs \<Longrightarrow> pedersen_setting lib N m ctx V"
    and codec: "element_codec_ok (pl_gcodec lib)" "\<And>x. encodable (pl_gcodec lib) x"
      "0 < cd_size (pl_gcodec lib)"
    and unforged: "sg_verify (pl_signer lib) (pc_public_key ctx) pedersen_sig_ns
        (serialize_commitments (pl_gcodec lib) (pp_commitments p)) (pp_signature p) \<Longrightarrow>
      serialize_commitments (pl_gcodec lib) (pp_commitments p) \<in>
        set (map (\<lambda>V. serialize_commitments (pl_gcodec lib)
          (map (g_msm (pl_group lib) (ck_generators (pc_key ctx))) V)) Vs)"
    and len: "length (cc_b ch) = N"
  shows "pedersen_verify lib ctx ch p = Inr (Inr ()) \<longleftrightarrow>
    (\<exists>V \<in> set Vs. pedersen_authentic lib ctx V p \<and>
      (coded_by N m V ch \<or> length (chunk_v (cc_w ch)) = m \<and>
        relation_among (pl_group lib) (ck_generators (pc_key ctx))
          (map2 (-) (chunk_v (cc_w ch)) (map (comb ((!) (cc_b ch)) V) [0..<m]))))"
proof
  assume acc: "pedersen_verify lib ctx ch p = Inr (Inr ())"
  then have sig: "sg_verify (pl_signer lib) (pc_public_key ctx) pedersen_sig_ns
      (serialize_commitments (pl_gcodec lib) (pp_commitments p)) (pp_signature p)"
    by (simp add: pedersen_verify_cases split: if_splits)
  from unforged [OF sig] concat_write_inj [OF codec] obtain V where
    V: "V \<in> set Vs" "pp_commitments p = map (g_msm (pl_group lib) (ck_generators (pc_key ctx))) V"
    by (auto simp: serialize_commitments_def)
  with sig have auth: "pedersen_authentic lib ctx V p" by (simp add: pedersen_authentic_def)
  with acc pedersen_verify_authentic [OF st [OF V(1)] auth len] V(1)
  show "\<exists>V \<in> set Vs. pedersen_authentic lib ctx V p \<and>
      (coded_by N m V ch \<or> length (chunk_v (cc_w ch)) = m \<and>
        relation_among (pl_group lib) (ck_generators (pc_key ctx))
          (map2 (-) (chunk_v (cc_w ch)) (map (comb ((!) (cc_b ch)) V) [0..<m])))"
    unfolding coded_data_def by blast
qed (use pedersen_verify_authentic [OF st _ len] in \<open>auto simp: coded_data_def\<close>)

text \<open>
  A sample with a signer whose signatures say what they sign, two signed blocks of two chunks of two
  elements, and equal generators: a chunk of the first block with one more in its first element and one
  less in its second is polluted and accepted.
\<close>

definition signing_ex :: "(gf, gf, unit, unit, bytes) pedersen_lib" where
  "signing_ex = \<lparr>pl_group = group_ex,
     pl_signer = \<lparr>sg_public_key = (\<lambda>_. ()), sg_sign = (\<lambda>_ ns msg. ns @ msg), sg_verify = (\<lambda>_ ns msg sig. sig = ns @ msg)\<rparr>,
     pl_gcodec = gf_codec, pl_scodec = \<lparr>cd_size = 0, cd_write = (\<lambda>_. []), cd_read = (\<lambda>buf. Inl EndOfBuffer)\<rparr>,
     pl_u32 = pl_u32 pedersen_ex\<rparr>"

definition Vs_ex :: "gf list list list" where
  "Vs_ex = [[[3, 4], [5, 6]], [[1, 1], [0, 2]]]"

definition polluted_ex :: "gf coded_chunk" where
  "polluted_ex = \<lparr>cc_w = \<lparr>chunk_v = [4, 3]\<rparr>, cc_b = [1, 0]\<rparr>"

lemma polluted_ex_accepted:
  "\<not> coded_by 2 2 (Vs_ex ! 0) polluted_ex"
  "pedersen_verify signing_ex (pedersen_context_of signing_ex () (ck_canonical group_ex 2)) polluted_ex
     (projr (pedersen_sign_block signing_ex () (ck_canonical group_ex 2) (Vs_ex ! 0))) = Inr (Inr ())"
proof -
  have four: "(4 :: gf) = 3 + 1" by simp
  have "(4 :: gf) \<noteq> 3" unfolding four by (simp only: add_cancel_left_right one_neq_zero not_False_eq_True)
  then show "\<not> coded_by 2 2 (Vs_ex ! 0) polluted_ex"
    by (auto simp: coded_by_def polluted_ex_def Vs_ex_def comb_def lessThan_Suc numeral_2_eq_2 less_Suc_eq)
qed (simp add: polluted_ex_def Vs_ex_def signing_ex_def pedersen_verify_cases pedersen_context_of_def
    pedersen_sign_block_def ck_commit_def ck_canonical_def ck_deterministic_def group_ex_def upt_rec)

theorem pedersen_soundness_witness:
  "let ctx = pedersen_context_of signing_ex () (ck_canonical group_ex 2);
       p = projr (pedersen_sign_block signing_ex () (ck_canonical group_ex 2) (Vs_ex ! 0)) in
   pedersen_verify signing_ex ctx polluted_ex p = Inr (Inr ()) \<longleftrightarrow>
    (\<exists>V \<in> set Vs_ex. pedersen_authentic signing_ex ctx V p \<and>
      (coded_by 2 2 V polluted_ex \<or> length (chunk_v (cc_w polluted_ex)) = 2 \<and>
        relation_among (pl_group signing_ex) (ck_generators (pc_key ctx))
          (map2 (-) (chunk_v (cc_w polluted_ex)) (map (comb ((!) (cc_b polluted_ex)) V) [0..<2]))))"
proof -
  let ?ctx = "pedersen_context_of signing_ex () (ck_canonical group_ex 2)"
  let ?p = "projr (pedersen_sign_block signing_ex () (ck_canonical group_ex 2) (Vs_ex ! 0))"
  have lib: "pl_group signing_ex = group_ex" "pl_gcodec signing_ex = gf_codec"
    by (simp_all add: signing_ex_def)
  have V: "\<forall>V \<in> set Vs_ex. originals 2 2 V" by (simp add: Vs_ex_def originals_def)
  then have "originals 2 (length (ck_generators (ck_canonical group_ex 2 :: gf commitment_key))) (Vs_ex ! 0)"
    by (simp add: Vs_ex_def)
  from pedersen_sign_block_authentic [OF _ this, where lib = signing_ex and sk = "()"]
  have auth: "pedersen_authentic signing_ex ?ctx (Vs_ex ! 0) ?p"
    by (auto simp: signing_ex_def signer_ok_def)
  show ?thesis
    unfolding Let_def
  proof (rule pedersen_soundness)
    show "pedersen_setting signing_ex 2 2 ?ctx V" if "V \<in> set Vs_ex" for V
      using V that by (simp add: pedersen_setting_def pedersen_context_of_def lib group_ex_ok)
    show "serialize_commitments (pl_gcodec signing_ex) (pp_commitments ?p) \<in>
        set (map (\<lambda>V. serialize_commitments (pl_gcodec signing_ex)
          (map (g_msm (pl_group signing_ex) (ck_generators (pc_key ?ctx))) V)) Vs_ex)"
      using auth by (simp add: pedersen_authentic_def Vs_ex_def)
    show "encodable (pl_gcodec signing_ex) x" for x using gf_codec_ok(2) by (simp add: lib)
    show "0 < cd_size (pl_gcodec signing_ex)" by (simp add: lib gf_codec_def)
  qed (simp_all add: lib gf_codec_ok(1) polluted_ex_def)
qed

text \<open>
  Pedersen proofs do not name their block. The signature covers the commitments only, so a packet
  of another block by the same proposer passes verification: a node that takes the chunk with unit
  vector \<open>i\<close> from any block \<open>Vs i\<close>, each with that block's own proof, completes without an error and
  decodes to the mixture, which is in general none of the blocks.
\<close>

lemma pedersen_mixes_blocks:
  fixes lib :: "('f::field, 'g::ab_group_add, 'sk, 'pk, 'sig) pedersen_lib"
  assumes "\<And>i. i < N \<Longrightarrow> pedersen_setting lib N m ctx (Vs i) \<and> pedersen_authentic lib ctx (Vs i) (proof i)"
    and "0 < N"
  shows "\<exists>d ps. coded_receive_all (pedersen_scheme lib) ctx
      (map (\<lambda>i. \<lparr>sp_chunk = systematic N (Vs i) ! i, sp_proof = proof i\<rparr>) [0..<N]) (bd_new N, []) = Inr (d, ps) \<and>
    bd_is_complete d \<and> bd_decode N d = Inr (map (\<lambda>i. \<lparr>chunk_v = Vs i ! i\<rparr>) [0..<N])"
proof -
  let ?U = "map (\<lambda>i. Vs i ! i) [0..<N]"
  let ?pkts = "map (\<lambda>i. \<lparr>sp_chunk = systematic N (Vs i) ! i, sp_proof = proof i\<rparr>) [0..<N]"
  have V: "originals N m (Vs i)" if "i < N" for i
    using assms(1) [OF that] by (simp add: pedersen_setting_def)
  have U: "originals N m ?U"
    using V [OF assms(2)] V by (auto simp: originals_def)
  have sys: "map sp_chunk ?pkts = systematic N ?U"
    by (rule nth_equalityI) (use V in \<open>simp_all add: systematic_def originals_def\<close>)
  from systematic_completes [OF U] obtain d where
    d: "bd_add_all (map sp_chunk ?pkts) (bd_new N) = Inr d" "honest N m ?U d" "bd_is_complete d"
    unfolding sys by blast
  have "\<forall>pkt \<in> set ?pkts. is_verify (pedersen_scheme lib) ctx (sp_chunk pkt) (sp_proof pkt) = Inr (Inr ())"
  proof -
    have "pedersen_verify lib ctx (systematic N (Vs i) ! i) (proof i) = Inr (Inr ())" if i: "i < N" for i
    proof -
      have "systematic N (Vs i) ! i \<in> set (systematic N (Vs i))"
        using i V [OF i] by (simp add: systematic_def originals_def)
      with systematic_coded [OF V [OF i]] have "coded_by N m (Vs i) (systematic N (Vs i) ! i)" by blast
      with assms(1) [OF i] show ?thesis
        by (intro pedersen_verify_good [of lib N m ctx "Vs i"]) (simp_all add: pedersen_good_def)
    qed
    then show ?thesis by (simp add: pedersen_scheme_def)
  qed
  from coded_receive_all_adds [OF this d(1), of "[]"] d(3) bd_decode_correct [OF U d(2,3)] show ?thesis
    by (auto simp: comp_def)
qed

end
