(* ===== verification/Props_Wire.thy ===== *)
theory Props_Wire
  imports Props_Schemes
begin

text \<open>
  The BFKW signatures in closed form, and the wire formats of the packets of both schemes: what is
  written is read back, and its length is what the size functions say, with the exceptions the code
  has.
\<close>

section \<open>BFKW signatures\<close>

text \<open>
  C33: The proposer's signature of a coded chunk. With a generated key and the context set up for a
  block, \<open>sign_coded\<close> never panics; although it combines the signatures of the original chunks, it
  equals the secret key times the multi-scalar product of the hash points with the coded chunk
  itself, and it is the only signature that \<open>verify\<close> accepts for this chunk.
\<close>

theorem bfkw_sign_coded_exact:
  fixes lib :: "('f::field, 'g1::ab_group_add, 'g2::ab_group_add) bfkw_lib"
  assumes ok: "bfkw_lib_ok lib" and cd: "originals N m V" "coded_by N m V ch"
  shows "let signer = fst (bfkw_generate lib random rng);
      ctx = bfkw_setup_context lib N signer block_id m;
      sigma = g_smul (bf_g2 lib) (bs_sk signer)
        (g_msm (bf_g2 lib) (derive_hash_points lib N block_id m) (chunk_v (cc_w ch) @ cc_b ch)) in
    bfkw_sign_coded lib N signer ctx V (cc_b ch) = Inr \<lparr>bp_sigma = sigma\<rparr> \<and>
    (\<forall>p. bfkw_verify lib N ctx ch p = Inr (if bp_sigma p = sigma then Inr () else Inl PairingMismatch))"
proof -
  let ?signer = "fst (bfkw_generate lib random rng)"
  let ?ctx = "bfkw_setup_context lib N ?signer block_id m"
  have key: "bfkw_keypair lib (bs_sk ?signer) (bc_public_key ?ctx)"
    using bfkw_generate_keypair by (simp add: bfkw_setup_context_def)
  have st: "bfkw_setting lib N m ?ctx V"
    using ok cd(1) key by (auto simp: bfkw_setting_def bfkw_setup_context_def)
  have "N \<le> length (bc_hash_points ?ctx)" by (simp add: bfkw_setup_context_def)
  note v = bfkw_verify_iff [OF ok key this]
  from bfkw_sign_coded_good [OF st cd(2) key] obtain p where
    p: "bfkw_sign_coded lib N ?signer ?ctx V (cc_b ch) = Inr p" "bfkw_good lib N m ?ctx V ch p" by blast
  from p(2) have "bp_sigma p = g_smul (bf_g2 lib) (bs_sk ?signer)
      (g_msm (bf_g2 lib) (bc_hash_points ?ctx) (augmented ch))"
    by (simp add: bfkw_good_def pairing_check_iff [OF ok key])
  then have "p = \<lparr>bp_sigma = g_smul (bf_g2 lib) (bs_sk ?signer)
      (g_msm (bf_g2 lib) (bc_hash_points ?ctx) (augmented ch))\<rparr>" by (cases p) simp
  with p(1) v show ?thesis by (simp add: Let_def augmented_def bfkw_setup_context_def)
qed

theorem bfkw_sign_coded_exact_witness:
  "let signer = fst (bfkw_generate bfkw_ex (sl_random sl_ex) 3);
      ctx = bfkw_setup_context bfkw_ex 2 signer [7] 1;
      sigma = g_smul (bf_g2 bfkw_ex) (bs_sk signer)
        (g_msm (bf_g2 bfkw_ex) (derive_hash_points bfkw_ex 2 [7] 1) (chunk_v (cc_w coded_ex) @ cc_b coded_ex)) in
    bfkw_sign_coded bfkw_ex 2 signer ctx V_ex (cc_b coded_ex) = Inr \<lparr>bp_sigma = sigma\<rparr> \<and>
    (\<forall>p. bfkw_verify bfkw_ex 2 ctx coded_ex p = Inr (if bp_sigma p = sigma then Inr () else Inl PairingMismatch))"
  by (rule bfkw_sign_coded_exact [OF bfkw_ex_ok(1) V_ex_originals coded_ex_coded])

text \<open>
  C34: One BFKW signature fits one chunk, unless a linear relation between the hash points is known. If the
  secret key is not zero and \<open>verify\<close> accepts a signature for the chunk \<open>c1\<close>, it accepts it for a chunk
  \<open>c2\<close> of the same dimensions exactly when \<open>c2\<close> is \<open>c1\<close>, coefficients included, or the difference of the
  two, data followed by coefficients, is itself a relation: a vector that is not zero and whose
  product with the hash points is.
\<close>

theorem bfkw_signature_binds:
  fixes lib :: "('f::field, 'g1::ab_group_add, 'g2::ab_group_add) bfkw_lib"
  assumes ok: "bfkw_lib_ok lib" and key: "bfkw_keypair lib sk (bc_public_key ctx)" "sk \<noteq> 0"
    and points: "length (bc_hash_points ctx) = m + N"
    and len: "length (chunk_v (cc_w c1)) = m" "length (cc_b c1) = N"
      "length (chunk_v (cc_w c2)) = m" "length (cc_b c2) = N"
    and acc: "bfkw_verify lib N ctx c1 p = Inr (Inr ())"
  shows "bfkw_verify lib N ctx c2 p = Inr (Inr ()) \<longleftrightarrow> c2 = c1 \<or>
    relation_among (bf_g2 lib) (bc_hash_points ctx)
      (map2 (-) (chunk_v (cc_w c1) @ cc_b c1) (chunk_v (cc_w c2) @ cc_b c2))"
proof -
  have "augmented c1 = augmented c2 \<longleftrightarrow> c2 = c1" using len by (auto simp: augmented_def)
  moreover have "length (augmented c1) = length (bc_hash_points ctx)" "length (augmented c2) = length (bc_hash_points ctx)"
    using len points by (simp_all add: augmented_def)
  ultimately show ?thesis using bfkw_binding [OF ok key _ _ acc] by (simp add: augmented_def)
qed

text \<open>
  The sample library has a single point in all positions, so relations are at hand: the chunk moved by
  one in the data and back by one in a coefficient.
\<close>

definition shifted_ex :: "gf coded_chunk" where
  "shifted_ex = \<lparr>cc_w = \<lparr>chunk_v = map ((+) 1) (chunk_v (cc_w coded_ex))\<rparr>, cc_b = [cc_b coded_ex ! 0 - 1, cc_b coded_ex ! 1]\<rparr>"

theorem bfkw_signature_binds_witness:
  "bfkw_verify bfkw_ex 2 bctx_ex shifted_ex bproof_ex = Inr (Inr ()) \<longleftrightarrow> shifted_ex = coded_ex \<or>
    relation_among (bf_g2 bfkw_ex) (bc_hash_points bctx_ex)
      (map2 (-) (chunk_v (cc_w coded_ex) @ cc_b coded_ex) (chunk_v (cc_w shifted_ex) @ cc_b shifted_ex))"
proof (rule bfkw_signature_binds [where sk = 3 and m = 1, OF bfkw_ex_ok(1)])
  show "bfkw_verify bfkw_ex 2 bctx_ex coded_ex bproof_ex = Inr (Inr ())"
    using bfkw.verify_good [OF bctx_ex_setting bproof_ex_good] by (simp add: bfkw_scheme_def)
  have "(1 + 1 + 1 :: gf) \<noteq> 0" by transfer simp
  then show "(3 :: gf) \<noteq> 0" by simp
  show "bfkw_keypair bfkw_ex 3 (bc_public_key bctx_ex)" "length (bc_hash_points bctx_ex) = 1 + 2"
    using bfkw_ex_keypair [of 3] by (simp_all add: bctx_ex_def bfkw_setup_context_def)
qed (use coded_ex_coded in \<open>simp_all add: coded_by_def shifted_ex_def\<close>)

section \<open>Wire formats\<close>

text \<open>
  C35: The Pedersen packet on the wire. \<open>wire_size\<close> is the number of bytes \<open>serialize\<close> writes;
  \<open>deserialize\<close> gives the packet back, whatever bytes follow it, when the proof holds at most 1024
  commitments, and refuses it otherwise.
\<close>

theorem pedersen_packet_wire:
  fixes lib :: "('f::field, 'g::ab_group_add, 'sk, 'pk, 'sig) pedersen_lib"
  assumes sl: "scalar_lib_ok sl" and lib: "pedersen_lib_ok lib"
    and shape: "chunk_v (cc_w (sp_chunk pkt)) \<noteq> []" "length (cc_b (sp_chunk pkt)) = N"
    and small: "length (pp_commitments (sp_proof pkt)) < 2 ^ 32"
  shows "sp_wire_size (sl_codec sl) (pedersen_integrity_proof lib) N pkt
      = length (sp_serialize (sl_codec sl) (pedersen_integrity_proof lib) pkt) \<and>
    sp_deserialize (sl_codec sl) (pedersen_integrity_proof lib) N
      (sp_serialize (sl_codec sl) (pedersen_integrity_proof lib) pkt @ trailing)
      (length (chunk_v (cc_w (sp_chunk pkt))))
    = Inr (if length (pp_commitments (sp_proof pkt)) \<le> 1024 then Inr pkt else Inl TooManyCommitments)"
proof -
  let ?fc = "sl_codec sl" and ?ip = "pedersen_integrity_proof lib" and ?p = "sp_proof pkt"
  from sl have fc: "element_codec_ok ?fc" "cd_write ?fc 0 = replicate (cd_size ?fc) 0"
    "\<forall>x. encodable ?fc x" by (simp_all add: scalar_lib_ok_def packing_ok_def)
  from lib have codecs: "pedersen_codecs_ok lib" by (simp add: pedersen_lib_ok_def)
  have "sp_wire_size ?fc ?ip N pkt = length (sp_serialize ?fc ?ip pkt)"
    using fc(1) shape(2) codecs
    by (simp add: sp_wire_size_def sp_serialize_def length_write_all pedersen_integrity_proof_def
        pedersen_proof_wire_size_def pedersen_serialize_proof_def pedersen_codecs_ok_def Let_def)
  moreover have "sp_deserialize ?fc ?ip N (sp_serialize ?fc ?ip pkt @ trailing)
      (length (chunk_v (cc_w (sp_chunk pkt)))) = Inr (Inr pkt)"
    if few: "length (pp_commitments ?p) \<le> 1024"
  proof -
    have "proof_codec_ok ?ip ?p"
      using lib few by (intro pedersen_proof_roundtrip) (simp_all add: pedersen_lib_ok_def)
    then show ?thesis using fc shape by (intro sp_deserialize_serialize) simp_all
  qed
  moreover have "sp_deserialize ?fc ?ip N (sp_serialize ?fc ?ip pkt @ trailing)
      (length (chunk_v (cc_w (sp_chunk pkt)))) = Inr (Inl TooManyCommitments)"
    if "1024 < length (pp_commitments ?p)"
  proof -
    have "ip_deserialize ?ip (ip_serialize ?ip ?p @ trailing) = Inl TooManyCommitments"
      using pedersen_too_many [OF codecs that small] by (simp add: pedersen_integrity_proof_def)
    with shape(2) fc show ?thesis
      by (auto simp: sp_deserialize_def sp_serialize_def read_fields_write)
  qed
  ultimately show ?thesis by auto
qed

theorem pedersen_packet_wire_witness:
  "let pkt = \<lparr>sp_chunk = coded_ex, sp_proof = pproof_ex V_ex\<rparr> in
    sp_wire_size (sl_codec sl_ex) (pedersen_integrity_proof pedersen_ex) 2 pkt
      = length (sp_serialize (sl_codec sl_ex) (pedersen_integrity_proof pedersen_ex) pkt) \<and>
    sp_deserialize (sl_codec sl_ex) (pedersen_integrity_proof pedersen_ex) 2
      (sp_serialize (sl_codec sl_ex) (pedersen_integrity_proof pedersen_ex) pkt @ [1, 2, 3])
      (length (chunk_v (cc_w (sp_chunk pkt))))
    = Inr (if length (pp_commitments (sp_proof pkt)) \<le> 1024 then Inr pkt else Inl TooManyCommitments)"
  unfolding Let_def
proof (rule pedersen_packet_wire [OF sl_ex_ok pedersen_ex_ok])
  show "chunk_v (cc_w (sp_chunk \<lparr>sp_chunk = coded_ex, sp_proof = pproof_ex V_ex\<rparr>)) \<noteq> []"
    "length (cc_b (sp_chunk \<lparr>sp_chunk = coded_ex, sp_proof = pproof_ex V_ex\<rparr>)) = 2"
    using coded_ex_coded by (auto simp: coded_by_def)
  show "length (pp_commitments (sp_proof \<lparr>sp_chunk = coded_ex, sp_proof = pproof_ex V_ex\<rparr>)) < 2 ^ 32"
    using pproof_ex_authentic [OF V_ex_originals] by (simp add: pedersen_authentic_def V_ex_def)
qed

text \<open>
  C36: The BFKW packet on the wire. \<open>wire_size\<close> is the number of bytes \<open>serialize\<close> writes;
  \<open>deserialize\<close> gives the packet back unless its signature is the identity point, which \<open>serialize\<close>
  writes and \<open>deserialize\<close> refuses: an honest packet of the zero message cannot be received.
\<close>

theorem bfkw_packet_wire:
  fixes lib :: "('f::field, 'g1::ab_group_add, 'g2::ab_group_add) bfkw_lib"
  assumes sl: "scalar_lib_ok sl" and lib: "bfkw_codecs_ok lib"
    and shape: "chunk_v (cc_w (sp_chunk pkt)) \<noteq> []" "length (cc_b (sp_chunk pkt)) = N"
  shows "sp_wire_size (sl_codec sl) (bfkw_integrity_proof lib) N pkt
      = length (sp_serialize (sl_codec sl) (bfkw_integrity_proof lib) pkt) \<and>
    (if bp_sigma (sp_proof pkt) \<noteq> 0
     then sp_deserialize (sl_codec sl) (bfkw_integrity_proof lib) N
        (sp_serialize (sl_codec sl) (bfkw_integrity_proof lib) pkt @ trailing)
        (length (chunk_v (cc_w (sp_chunk pkt)))) = Inr (Inr pkt)
     else \<exists>e. sp_deserialize (sl_codec sl) (bfkw_integrity_proof lib) N
        (sp_serialize (sl_codec sl) (bfkw_integrity_proof lib) pkt @ trailing)
        (length (chunk_v (cc_w (sp_chunk pkt)))) = Inr (Inl (BadSigma e)))"
proof -
  let ?fc = "sl_codec sl" and ?ip = "bfkw_integrity_proof lib" and ?p = "sp_proof pkt"
  from sl have fc: "element_codec_ok ?fc" "cd_write ?fc 0 = replicate (cd_size ?fc) 0"
    "\<forall>x. encodable ?fc x" by (simp_all add: scalar_lib_ok_def packing_ok_def)
  from lib have g2: "element_codec_ok (bf_g2_codec lib)" "\<forall>x. encodable (bf_g2_codec lib) x"
    by (simp_all add: bfkw_codecs_ok_def)
  have "sp_wire_size ?fc ?ip N pkt = length (sp_serialize ?fc ?ip pkt)"
    using fc(1) shape(2) g2(1)
    by (simp add: sp_wire_size_def sp_serialize_def length_write_all bfkw_integrity_proof_def
        element_codec_ok_def Let_def)
  moreover have "sp_deserialize ?fc ?ip N (sp_serialize ?fc ?ip pkt @ trailing)
      (length (chunk_v (cc_w (sp_chunk pkt)))) = Inr (Inr pkt)" if "bp_sigma ?p \<noteq> 0"
  proof -
    have "proof_codec_ok ?ip ?p"
      using g2 that by (intro bfkw_proof_codec) (auto simp: encodable_def element_codec_ok_def)
    then show ?thesis using fc shape by (intro sp_deserialize_serialize) simp_all
  qed
  moreover have "\<exists>e. sp_deserialize ?fc ?ip N (sp_serialize ?fc ?ip pkt @ trailing)
      (length (chunk_v (cc_w (sp_chunk pkt)))) = Inr (Inl (BadSigma e))" if "bp_sigma ?p = 0"
  proof -
    have "?p = \<lparr>bp_sigma = 0\<rparr>" using that by (cases ?p) simp
    then obtain e where "ip_deserialize ?ip (ip_serialize ?ip ?p @ trailing) = Inl (BadSigma e)"
      using bfkw_zero_sigma_unreadable [OF g2(1), of trailing] by auto
    with shape(2) fc show ?thesis
      by (auto simp: sp_deserialize_def sp_serialize_def read_fields_write)
  qed
  ultimately show ?thesis by simp
qed

theorem bfkw_packet_wire_witness:
  "let pkt = \<lparr>sp_chunk = coded_ex, sp_proof = \<lparr>bp_sigma = 0\<rparr>\<rparr> in
    sp_wire_size (sl_codec sl_ex) (bfkw_integrity_proof bfkw_ex) 2 pkt
      = length (sp_serialize (sl_codec sl_ex) (bfkw_integrity_proof bfkw_ex) pkt) \<and>
    (if bp_sigma (sp_proof pkt) \<noteq> 0
     then sp_deserialize (sl_codec sl_ex) (bfkw_integrity_proof bfkw_ex) 2
        (sp_serialize (sl_codec sl_ex) (bfkw_integrity_proof bfkw_ex) pkt @ [9])
        (length (chunk_v (cc_w (sp_chunk pkt)))) = Inr (Inr pkt)
     else \<exists>e. sp_deserialize (sl_codec sl_ex) (bfkw_integrity_proof bfkw_ex) 2
        (sp_serialize (sl_codec sl_ex) (bfkw_integrity_proof bfkw_ex) pkt @ [9])
        (length (chunk_v (cc_w (sp_chunk pkt)))) = Inr (Inl (BadSigma e)))"
  unfolding Let_def
proof (rule bfkw_packet_wire [OF sl_ex_ok bfkw_ex_ok(2)])
  show "chunk_v (cc_w (sp_chunk \<lparr>sp_chunk = coded_ex, sp_proof = \<lparr>bp_sigma = 0 :: gf\<rparr>\<rparr>)) \<noteq> []"
    "length (cc_b (sp_chunk \<lparr>sp_chunk = coded_ex, sp_proof = \<lparr>bp_sigma = 0 :: gf\<rparr>\<rparr>)) = 2"
    using coded_ex_coded by (auto simp: coded_by_def)
qed

text \<open>
  The Pedersen node underestimates its packets. Every packet an honest Pedersen node sends is
  exactly four bytes longer than \<open>packet_wire_size\<close> says: the count of the commitments is missing.
\<close>

lemma pedersen_packet_wire_size_short:
  fixes c :: "('f::field, 'g::ab_group_add, 'sk, 'pk, 'sig, 'r) pedersen_generics"
  assumes "pedersen_live (sl, lib, N, m, pk) b s" "pedersen_honest_packet (sl, lib, N, m, pk) b p"
  shows "length p = pedersen_packet_wire_size sl lib N s + 4"
proof -
  from assms(1) have sl: "element_codec_ok (sl_codec sl)" and lib: "pedersen_codecs_ok lib"
    and m: "pd_m s = m"
    by (auto simp: pedersen_live_def pedersen_fits_def scalar_lib_ok_def packing_ok_def pedersen_lib_ok_def)
  from assms(2) obtain V pkt where V: "originals N m V"
    and gd: "coded_by N m V (sp_chunk pkt)" "length (pp_commitments (sp_proof pkt)) = N"
    and p: "p = sp_serialize (sl_codec sl) (pedersen_integrity_proof lib) pkt"
    by (auto simp: pedersen_honest_packet_def chunked_def pedersen_good_def pedersen_authentic_def
        originals_def)
  then show ?thesis
    using sl lib m
    by (simp add: sp_serialize_def length_write_all pedersen_integrity_proof_def coded_by_def
        pedersen_serialize_proof_def pedersen_codecs_ok_def pedersen_packet_wire_size_def Let_def)
qed

end
