(* ===== verification/Actor_Buffer.thy ===== *)
theory Actor_Buffer
  imports Actor_Facts
begin

text \<open>
  The receiver's buffer over a whole run, for every protocol: an invariant of the work loop relates it
  to the messages received, so that no message of a later block and no data of the current one is lost
  before the block is decoded.
\<close>

section \<open>What the buffer holds\<close>

text \<open>What a receiver has been sent of block \<open>k\<close>, in order.\<close>

definition received_messages :: "u64 \<Rightarrow> 'k event list \<Rightarrow> message list" where
  "received_messages k evs = concat (map (\<lambda>ev. case ev of
       Closed ch \<Rightarrow> []
     | Received ch sender msg \<Rightarrow>
         if 8 \<le> length msg \<and> from_be_bytes (take 8 msg) = k then [(ch, drop 8 msg)] else []) evs)"

text \<open>
  The buffer accounts for the messages \<open>got k\<close> of every block \<open>k\<close>: those of later blocks are all there,
  of the current block the data until its announcement is accepted, of earlier blocks nothing.
\<close>

definition buffer_accounts :: "(u64 \<Rightarrow> message list) \<Rightarrow> ('p, 'k, 'w, 'r) node_actor \<Rightarrow> bool" where
  "buffer_accounts got a \<longleftrightarrow>
     (\<forall>k. (current_block (na_state a) < k \<longrightarrow> buffered k (na_buffer a) = got k) \<and>
          (k < current_block (na_state a) \<longrightarrow> buffered k (na_buffer a) = [])) \<and>
     (case na_state a of
        Init n \<Rightarrow> buffered n (na_buffer a) = filter (\<lambda>(ch, pkt). ch = Data) (got n)
      | Decoding n \<Rightarrow> buffered n (na_buffer a) = [])"

section \<open>The work loop\<close>

text \<open>Inside the work loop the queue holds a part of the data of the current block.\<close>

definition queued :: "u64 \<Rightarrow> work_item list \<Rightarrow> message list" where
  "queued n work = concat (map (\<lambda>(ch, bn, pkt). if ch = Data \<and> bn = n then [(Data, pkt)] else []) work)"

definition work_accounts ::
  "(u64 \<Rightarrow> message list) \<Rightarrow> work_item list \<Rightarrow> actor_state \<Rightarrow> buffer \<Rightarrow> bool" where
  "work_accounts got work s buf \<longleftrightarrow>
     (\<forall>(ch, bn, pkt) \<in> set work. bn \<le> current_block s) \<and>
     (\<forall>k. (current_block s < k \<longrightarrow> buffered k buf = got k) \<and> (k < current_block s \<longrightarrow> buffered k buf = [])) \<and>
     (case s of
        Init n \<Rightarrow> buffered n buf @ queued n work = filter (\<lambda>(ch, pkt). ch = Data) (got n)
      | Decoding n \<Rightarrow> buffered n buf = [])"

lemma work_accounts_done: "work_accounts got [] (na_state a) (na_buffer a) = buffer_accounts got a"
  by (simp add: work_accounts_def buffer_accounts_def queued_def split: actor_state.splits)

lemma queued_simps [simp]:
  "queued n [] = []"
  "queued n ((ch, bn, pkt) # work) = (if ch = Data \<and> bn = n then [(Data, pkt)] else []) @ queued n work"
  "queued n (xs @ ys) = queued n xs @ queued n ys"
  by (simp_all add: queued_def)

lemma queued_replay [simp]:
  "queued n (map ((\<lambda>pkt. (Data, n, pkt)) \<circ> snd) (filter (\<lambda>(ch, pkt). ch = Data) ms)) = filter (\<lambda>(ch, pkt). ch = Data) ms"
  "queued n (map ((\<lambda>pkt. (Announce, m, pkt)) \<circ> snd) ms) = []"
  by (induction ms) auto

lemma queued_earlier: "(\<forall>(ch, bn, pkt) \<in> set work. bn \<noteq> n) \<Longrightarrow> queued n work = []"
  by (induction work) auto

lemma finish_block_accounts:
  assumes fin: "finish_block E n a work dc = Inr (a', work', dc')"
    and acc: "work_accounts got work (Decoding n) (na_buffer a)" and n: "Suc (unat n) < 2 ^ 64"
  shows "work_accounts got work' (na_state a') (na_buffer a')"
proof -
  have lt: "k < n + 1 \<longleftrightarrow> k \<le> n" for k
    using n by (simp add: word_less_nat_alt word_le_nat_alt unat_word_ariths less_Suc_eq_le)
  have "(\<forall>(ch, bn, pkt) \<in> set work. bn \<le> n)" using acc by (simp add: work_accounts_def)
  then have q: "queued (n + 1) work = []" "\<And>ch bn pkt. (ch, bn, pkt) \<in> set work \<Longrightarrow> bn \<le> n + 1"
    using lt [of n] lt [of "n + 1"] by (fastforce intro!: queued_earlier)+
  have later: "n + 1 < k \<Longrightarrow> n < k" for k using lt [of n] by simp
  have gone: "k \<le> n \<Longrightarrow> buffered k (na_buffer a) = []" for k
    using acc by (auto simp: work_accounts_def le_less)
  have "buffered (n + 1) (na_buffer a) = got (n + 1)" using acc lt [of n] by (simp add: work_accounts_def)
  moreover have "n + 1 < k \<Longrightarrow> buffered k (na_buffer a) = got k" for k
    using acc later by (simp add: work_accounts_def)
  ultimately show ?thesis using fin q gone
    by (auto simp: finish_block_def bindR_eq_Inr Let_def case_prod_beta buffered_remove work_accounts_def lt)
qed

lemma process_accounts:
  assumes run: "process E sender ch data a work dc = Inr (a', work', dc')"
    and acc: "work_accounts got ((ch, current_block (na_state a), data) # work) (na_state a) (na_buffer a)"
    and n: "Suc (unat (current_block (na_state a))) < 2 ^ 64"
  shows "work_accounts got work' (na_state a') (na_buffer a')"
proof (cases "na_state a")
  case (Init n)
  with run have p: "process_init E n ch data a work = Inr (a', work')" by (auto simp: process_def bindR_eq_Inr)
  show ?thesis
  proof (cases ch)
    case Announce
    from p [unfolded Announce] show ?thesis
      by (cases rule: process_init_Announce_cases)
         (use acc Init Announce in \<open>auto simp: work_accounts_def buffered_remove\<close>)
  next
    case Data
    with p acc Init show ?thesis by (auto simp: work_accounts_def buffered_push)
  qed
next
  case (Decoding n)
  with run have p: "process_decoding E n sender ch data a work dc = Inr (a', work', dc')" by (simp add: process_def)
  from acc have acc': "work_accounts got work (Decoding n) (na_buffer a)" by (simp add: work_accounts_def Decoding)
  show ?thesis
  proof (cases ch)
    case Data
    from p obtain s r where "pt_ingest (ae_protocol E) (na_protocol a) Data n data = Inr (s, r)"
      by (auto simp: Data bindR_eq_Inr)
    with p acc' n Decoding show ?thesis
      by (cases r)
         (auto simp: Data Let_def bindR_eq_Inr split: if_splits
            dest!: forward_packets_fields elim!: finish_block_accounts)
  qed (use p acc' Decoding in simp)
qed

lemma process_room:
  assumes "process E sender ch data a work dc = Inr (a', work', dc')"
    and "unat (current_block (na_state a)) + backlog (na_buffer a) + Suc (length work) \<le> M" "M < 2 ^ 64"
  shows "unat (current_block (na_state a')) + backlog (na_buffer a') + length work' \<le> M"
  using process_progress [OF assms(1)]
proof
  assume "current_block (na_state a') = current_block (na_state a) \<and> dc' = dc"
  with process_measure [OF assms(1)] assms(2) show ?thesis by auto
next
  let ?n = "current_block (na_state a)"
  assume *: "current_block (na_state a') = ?n + 1 \<and> dc' = dc + 1 \<and>
     backlog (na_buffer a') + length work' \<le> backlog (na_buffer a) + length work"
  have "unat (?n + 1) = Suc (unat ?n)" using assms(2,3) by (simp add: unat_word_ariths)
  with * assms(2) show ?thesis by simp
qed

lemma route_loop_accounts:
  assumes "route_loop E sender first work a dc = Inr (a', dc')"
    and "work_accounts got work (na_state a) (na_buffer a)"
    and "unat (current_block (na_state a)) + backlog (na_buffer a) + length work \<le> M" "M < 2 ^ 64"
  shows "buffer_accounts got a' \<and> unat (current_block (na_state a')) + backlog (na_buffer a') \<le> M"
  using assms(1-3)
proof (induction E sender first work a dc rule: route_loop.induct)
  case (1 E sender first a dc)
  then show ?case by (auto simp: work_accounts_done)
next
  case (2 E sender first ch bn data work a dc)
  show ?case
  proof (cases "bn = current_block (na_state a)")
    case False
    with 2(3) have r: "route_loop E sender first work a dc = Inr (a', dc')" by (simp add: Let_def)
    have "work_accounts got work (na_state a) (na_buffer a)"
      using 2(4) False by (auto simp: work_accounts_def split: actor_state.splits)
    from 2(1) [OF refl False r this] 2(5) show ?thesis by simp
  next
    case True
    with 2(3) obtain a1 work1 dc1 where
      step: "process E (if first then sender else None) ch data a work dc = Inr (a1, work1, dc1)"
      and rest: "route_loop E sender False work1 a1 dc1 = Inr (a', dc')"
      by (auto simp: Let_def bindR_eq_Inr)
    have "Suc (unat (current_block (na_state a))) < 2 ^ 64" using 2(5) assms(4) by simp
    from process_accounts [OF step _ this] 2(4) True
    have acc: "work_accounts got work1 (na_state a1) (na_buffer a1)" by simp
    have room: "unat (current_block (na_state a1)) + backlog (na_buffer a1) + length work1 \<le> M"
      using 2(5) by (intro process_room [OF step _ assms(4)]) simp
    from 2(2) [OF refl _ refl step refl refl rest acc room] True show ?thesis by simp
  qed
qed

lemma route_accounts:
  assumes run: "route E ch bn data sender a dc = Inr (a', dc')" and acc: "buffer_accounts got a"
    and room: "unat (current_block (na_state a)) + backlog (na_buffer a) < M" "M < 2 ^ 64"
  shows "buffer_accounts (got (bn := got bn @ [(ch, data)])) a' \<and>
    unat (current_block (na_state a')) + backlog (na_buffer a') \<le> M"
proof -
  let ?got = "got (bn := got bn @ [(ch, data)])"
  consider "bn < current_block (na_state a)" | "current_block (na_state a) < bn"
    | "bn = current_block (na_state a)" by (rule linorder_cases)
  then show ?thesis
  proof cases
    case 1
    then show ?thesis using run acc room
      by (auto simp: route_stale buffer_accounts_def split: actor_state.splits)
  next
    case 2
    then show ?thesis using run acc room
      by (auto simp: route_future buffer_accounts_def buffered_push split: actor_state.splits)
  next
    case 3
    with run have "route_loop E sender True [(ch, bn, data)] a dc = Inr (a', dc')"
      by (simp add: route_def)
    moreover have "work_accounts ?got [(ch, bn, data)] (na_state a) (na_buffer a)"
      using acc 3 by (cases ch) (auto simp: work_accounts_def buffer_accounts_def split: actor_state.splits)
    moreover have "unat (current_block (na_state a)) + backlog (na_buffer a) + length [(ch, bn, data)] \<le> M"
      using room(1) by simp
    ultimately show ?thesis using room(2) by (rule route_loop_accounts)
  qed
qed

section \<open>The receiver\<close>

lemma received_messages_simps [simp]:
  "received_messages k [] = []"
  "received_messages k (xs @ ys) = received_messages k xs @ received_messages k ys"
  "received_messages k (Closed ch # evs) = received_messages k evs"
  "received_messages k (Received ch sender msg # evs) =
     (if 8 \<le> length msg \<and> from_be_bytes (take 8 msg) = k then [(ch, drop 8 msg)] else []) @
     received_messages k evs"
  by (simp_all add: received_messages_def)

lemma run_receiver_accounts:
  assumes "run_receiver E num_blocks evs a dc = Inr (r, a', dc')"
    and "buffer_accounts (\<lambda>k. received_messages k past) a"
    and "unat (current_block (na_state a)) + backlog (na_buffer a) \<le> length past"
    and "length past + length evs < 2 ^ 64"
  shows "\<exists>j \<le> length evs. (r = Waiting \<longrightarrow> j = length evs) \<and>
    buffer_accounts (\<lambda>k. received_messages k (past @ take j evs)) a'"
  using assms
proof (induction E num_blocks evs a dc arbitrary: past rule: run_receiver.induct)
  case (1 E num_blocks a dc)
  then show ?case by (auto split: if_splits)
next
  case (2 E num_blocks ev evs a dc)
  show ?case
  proof (cases "num_blocks \<le> dc \<or> (\<exists>ch. ev = Closed ch)")
    case True
    then show ?thesis using 2(3,4) by (intro exI [of _ 0]) (auto split: if_splits)
  next
    case False
    then obtain ch sender msg where ev: "ev = Received ch sender msg" and go: "\<not> num_blocks \<le> dc"
      by (cases ev) auto
    let ?a = "count_received ch (length msg) a" and ?bn = "from_be_bytes (take 8 msg) :: u64"
    have f: "na_state ?a = na_state a" "na_buffer ?a = na_buffer a" by (simp_all add: count_received_def Let_def)
    have acc: "buffer_accounts (\<lambda>k. received_messages k past) ?a"
      using 2(4) unfolding buffer_accounts_def f .
    have room: "length (past @ [ev]) + length evs < 2 ^ 64" using 2(6) by simp
    have "\<exists>j \<le> length evs. (r = Waiting \<longrightarrow> j = length evs) \<and>
      buffer_accounts (\<lambda>k. received_messages k ((past @ [ev]) @ take j evs)) a'"
    proof (cases "length msg < 8")
      case True
      with 2(3) go have rest: "run_receiver E num_blocks evs ?a dc = Inr (r, a', dc')"
        by (simp add: ev Let_def)
      from 2(1) [OF go ev refl True rest _ _ room] acc 2(5) f True show ?thesis by (simp add: ev)
    next
      case False
      with 2(3) go obtain a1 dc1 where
        route: "route E ch ?bn (drop 8 msg) (Some sender) ?a dc = Inr (a1, dc1)"
        and rest: "run_receiver E num_blocks evs a1 dc1 = Inr (r, a', dc')"
        by (auto simp: ev Let_def bindR_eq_Inr)
      have "(\<lambda>k. received_messages k past)(?bn := received_messages ?bn past @ [(ch, drop 8 msg)])
          = (\<lambda>k. received_messages k (past @ [ev]))"
        using False by (auto simp: ev)
      with route_accounts [OF route acc, of "length (past @ [ev])"] 2(5) f room
      have "buffer_accounts (\<lambda>k. received_messages k (past @ [ev])) a1"
        "unat (current_block (na_state a1)) + backlog (na_buffer a1) \<le> length (past @ [ev])"
        by simp_all
      from 2(2) [OF go ev refl False refl refl route refl rest this room] show ?thesis .
    qed
    then obtain j where "j \<le> length evs" "r = Waiting \<longrightarrow> j = length evs"
      "buffer_accounts (\<lambda>k. received_messages k (past @ take (Suc j) (ev # evs))) a'"
      by auto
    then show ?thesis by (intro exI [of _ "Suc j"]) auto
  qed
qed

end
