(* ===== verification/Props_Node.thy ===== *)
theory Props_Node
  imports Instances Actor_Honest Actor_Buffer
begin

text \<open>
  What the node promises: blocks are delivered through each protocol, the actor never panics on
  honest traffic, sends only honest messages and advances one block per decoding; what it does with
  stale and early messages, how it chooses peers, and when the proposer starts.
\<close>

section \<open>A sample network\<close>

text \<open>The network keeps a log of what was sent; every send reaches peer 1.\<close>

definition env_ex :: "('p, nat) protocol \<Rightarrow> ('p, nat, (channel \<times> bytes) list, nat) actor_env" where
  "env_ex P = \<lparr>ae_protocol = P,
     ae_send = (\<lambda>w ch to msg prio. (Some [1], (ch, msg) # w)),
     ae_shuffle = (\<lambda>xs r. (rev xs, Suc r)),
     ae_random_byte = (\<lambda>r. (of_nat r, Suc r)), ae_fill = (\<lambda>r. (replicate 32 (of_nat r), Suc r))\<rparr>"

definition log_ok :: "(u64 \<Rightarrow> channel \<Rightarrow> bytes \<Rightarrow> bool) \<Rightarrow> (channel \<times> bytes) list \<Rightarrow> bool" where
  "log_ok hm w \<longleftrightarrow> (\<forall>(ch, msg) \<in> set w. msg = [] \<or> (\<exists>n d. msg = to_be_bytes n @ d \<and> hm n ch d))"

lemma env_ex_keep: "sends_keep hm (log_ok hm) (env_ex P)"
  by (auto simp: sends_keep_def env_ex_def log_ok_def)

lemma env_ex_protocol [simp]: "ae_protocol (env_ex P) = P"
  by (simp add: env_ex_def)

lemma env_ex_probe: "log_ok hm w \<Longrightarrow> log_ok hm (probe_net (env_ex P) w i)"
proof (induction i arbitrary: w)
  case (Suc i)
  have "log_ok hm (snd (ae_send (env_ex P) w Announce All [] False))"
    using Suc.prems by (simp add: env_ex_def log_ok_def)
  with Suc.IH show ?case by simp
qed simp

section \<open>Delivery through the protocols\<close>

text \<open>
  C13: Delivery with RLNC + Pedersen. A proposer with a signer and a receiver, both without a block in
  progress, and a block that fits: \<open>propose\<close> succeeds with one packet per target, the receiver
  accepts the announcement, and whatever packets of the proposal it then ingests, in any order and
  any number of times, it does not panic; when it is complete, \<open>decode\<close> returns the proposed block.
\<close>

theorem pedersen_delivers:
  fixes sl :: "('f::field, 'r) scalar_lib" and lib :: "('f, 'g::ab_group_add, 'sk, 'pk, 'sig) pedersen_lib"
  assumes "pedersen_idle (sl, lib, N, m, pk) s" "pedersen_proposer (sl, lib, N, m, pk) s"
    and "pedersen_idle (sl, lib, N, m, pk) r" "pedersen_fits (sl, lib, N, m, pk) b"
  shows "\<exists>pr s' rng' r0. pedersen_propose sl lib N s b k rng = Inr ((pr, s'), rng') \<and>
    length (pr_packets pr) = k \<and>
    pedersen_ingest sl lib N r Announce (bl_number b) (pr_announcement pr) = Inr (r0, Inr True) \<and>
    (\<forall>pkts. set pkts \<subseteq> set (pr_packets pr) \<longrightarrow>
      (\<exists>r1. ingest_all (pedersen_protocol sl lib N) (bl_number b) pkts r0 = Inr r1 \<and>
        (pedersen_is_complete r1 \<longrightarrow> (\<exists>r2. pedersen_protocol_decode sl N r1 = Inr (b, r2)))))"
  using pedersen_node.proposal_delivers [OF assms, of k rng] by (simp add: pedersen_protocol_def)

theorem pedersen_delivers_witness:
  "\<exists>pr s' rng' r0. pedersen_propose sl_ex pedersen_ex 2 (pedersen_node_ex (Some ())) (block_ex 7) 3 1
      = Inr ((pr, s'), rng') \<and>
    length (pr_packets pr) = 3 \<and>
    pedersen_ingest sl_ex pedersen_ex 2 (pedersen_node_ex None) Announce (bl_number (block_ex 7))
      (pr_announcement pr) = Inr (r0, Inr True) \<and>
    (\<forall>pkts. set pkts \<subseteq> set (pr_packets pr) \<longrightarrow>
      (\<exists>r1. ingest_all (pedersen_protocol sl_ex pedersen_ex 2) (bl_number (block_ex 7)) pkts r0 = Inr r1 \<and>
        (pedersen_is_complete r1 \<longrightarrow>
          (\<exists>r2. pedersen_protocol_decode sl_ex 2 r1 = Inr (block_ex 7, r2)))))"
  using pedersen_node_ex_ok pedersen_generics_ex_fits [of 7] unfolding pedersen_generics_ex_def
  by (intro pedersen_delivers) auto

text \<open>
  C14: Delivery with RLNC + BFKW: the same for the homomorphic signatures. (Packets whose signature is
  the identity are refused on arrival, without harm to the receiver.)
\<close>

theorem bfkw_delivers:
  fixes sl :: "('f::field, 'r) scalar_lib" and lib :: "('f, 'g1::ab_group_add, 'g2::ab_group_add) bfkw_lib"
  assumes "bfkw_idle (sl, lib, N, m, pk) s" "bfkw_proposer (sl, lib, N, m, pk) s"
    and "bfkw_idle (sl, lib, N, m, pk) r" "bfkw_fits (sl, lib, N, m, pk) b"
  shows "\<exists>pr s' rng' r0. bfkw_propose sl lib N s b k rng = Inr ((pr, s'), rng') \<and>
    length (pr_packets pr) = k \<and>
    bfkw_ingest sl lib N r Announce (bl_number b) (pr_announcement pr) = Inr (r0, Inr True) \<and>
    (\<forall>pkts. set pkts \<subseteq> set (pr_packets pr) \<longrightarrow>
      (\<exists>r1. ingest_all (bfkw_protocol sl lib N) (bl_number b) pkts r0 = Inr r1 \<and>
        (bfkw_is_complete r1 \<longrightarrow> (\<exists>r2. bfkw_protocol_decode sl N r1 = Inr (b, r2)))))"
  using bfkw_node.proposal_delivers [OF assms, of k rng] by (simp add: bfkw_protocol_def)

theorem bfkw_delivers_witness:
  "\<exists>pr s' rng' r0. bfkw_propose sl_ex bfkw_ex 2 (bfkw_node_ex (Some \<lparr>bs_sk = 3, bs_pk = 3\<rparr>)) (block_ex 7) 3 1
      = Inr ((pr, s'), rng') \<and>
    length (pr_packets pr) = 3 \<and>
    bfkw_ingest sl_ex bfkw_ex 2 (bfkw_node_ex None) Announce (bl_number (block_ex 7))
      (pr_announcement pr) = Inr (r0, Inr True) \<and>
    (\<forall>pkts. set pkts \<subseteq> set (pr_packets pr) \<longrightarrow>
      (\<exists>r1. ingest_all (bfkw_protocol sl_ex bfkw_ex 2) (bl_number (block_ex 7)) pkts r0 = Inr r1 \<and>
        (bfkw_is_complete r1 \<longrightarrow> (\<exists>r2. bfkw_protocol_decode sl_ex 2 r1 = Inr (block_ex 7, r2)))))"
  using bfkw_node_ex_ok bfkw_generics_ex_fits [of 7] unfolding bfkw_generics_ex_def
  by (intro bfkw_delivers) auto

section \<open>Receivers\<close>

text \<open>The honest messages about block \<open>n\<close> of each protocol.\<close>

abbreviation pedersen_message where
  "pedersen_message c \<equiv> honest_message
     (\<lambda>(sl, lib, N, m, pk) b a. a = encode_announcement (length (block_write (sl_wire sl) b)))
     pedersen_honest_packet c"

abbreviation bfkw_message where
  "bfkw_message c \<equiv> honest_message
     (\<lambda>(sl, lib, N, m, pk) b a. a = encode_announcement (length (block_write (sl_wire sl) b)))
     bfkw_honest_packet c"

abbreviation baseline_message where
  "baseline_message wc \<equiv> honest_message
     (\<lambda>wc b a. a = encode_announcement (length (block_write wc b))) (\<lambda>wc b p. p = block_write wc b) wc"

text \<open>
  C6: Receivers of RLNC + Pedersen are safe. A fresh receiver that gets any sequence of messages of
  the blocks \<open>B 0, B 1, ...\<close> (announcements and packets, honest, in any order, with losses,
  repetitions, stale and early ones, and messages shorter than eight bytes) never panics; it has
  decoded exactly as many blocks as its current block number says; every message it sent is itself
  honest (any property \<open>W\<close> of the network that honest sends keep still holds); and its protocol state
  belongs to the current block.
\<close>

theorem pedersen_receiver_safe:
  fixes sl :: "('f::field, 'r) scalar_lib" and lib :: "('f, 'g::ab_group_add, 'sk, 'pk, 'sig) pedersen_lib"
    and W :: "'w \<Rightarrow> bool" and peers :: "'k list"
  assumes "ae_protocol E = pedersen_protocol sl lib N"
    and "sends_keep (pedersen_message (sl, lib, N, m, pk) B) W E" and "W w"
    and "\<And>n. pedersen_fits (sl, lib, N, m, pk) (B n) \<and> bl_number (B n) = n"
    and "\<forall>ch sender msg. Received ch sender msg \<in> set evs \<longrightarrow> 8 \<le> length msg \<longrightarrow>
      pedersen_message (sl, lib, N, m, pk) B (from_be_bytes (take 8 msg)) ch (drop 8 msg)"
  shows "\<exists>r a dc. run_receiver E num_blocks evs
      (node_actor_new (pedersen_protocol_new lib N m pk None) w peers degree rng mt) 0 = Inr (r, a, dc) \<and>
    dc = current_block (na_state a) \<and> W (na_net a) \<and>
    (case na_state a of Init n \<Rightarrow> pedersen_idle (sl, lib, N, m, pk) (na_protocol a)
      | Decoding n \<Rightarrow> pedersen_live (sl, lib, N, m, pk) (B n) (na_protocol a))"
proof (rule pedersen_node.fresh_receiver_honest [OF _ assms(2,4) _ assms(3,5)])
  show "ae_protocol E = (case (sl, lib, N, m, pk) of (sl, lib, N, m, pk) \<Rightarrow> pedersen_protocol sl lib N)"
    using assms(1) by simp
  show "pedersen_idle (sl, lib, N, m, pk) (pedersen_protocol_new lib N m pk None)"
    by (simp add: pedersen_idle_def pedersen_protocol_new_def pedersen_ctx_def)
qed

theorem pedersen_receiver_safe_witness:
  "\<exists>r a dc. run_receiver (env_ex (pedersen_protocol sl_ex pedersen_ex 2)) 5
      [Received Announce 1 [], Received Announce 1
        (to_be_bytes 0 @ encode_announcement (length (block_write (sl_wire sl_ex) (block_ex 0)))), Closed Data]
      (node_actor_new (pedersen_protocol_new pedersen_ex 2 52 () None) [] [1, 2, 3] 2 (7::nat) metrics_default) 0
      = Inr (r, a, dc) \<and>
    dc = current_block (na_state a) \<and>
    log_ok (pedersen_message (sl_ex, pedersen_ex, 2, 52, ()) block_ex) (na_net a) \<and>
    (case na_state a of Init n \<Rightarrow> pedersen_idle (sl_ex, pedersen_ex, 2, 52, ()) (na_protocol a)
      | Decoding n \<Rightarrow> pedersen_live (sl_ex, pedersen_ex, 2, 52, ()) (block_ex n) (na_protocol a))"
proof (rule pedersen_receiver_safe [OF env_ex_protocol env_ex_keep])
  show "pedersen_fits (sl_ex, pedersen_ex, 2, 52, ()) (block_ex n) \<and> bl_number (block_ex n) = n" for n
    using pedersen_generics_ex_fits [of n] by (simp add: pedersen_generics_ex_def)
qed (auto simp: log_ok_def honest_message_def)

text \<open>C7: Receivers of RLNC + BFKW are safe, in the same sense.\<close>

theorem bfkw_receiver_safe:
  fixes sl :: "('f::field, 'r) scalar_lib" and lib :: "('f, 'g1::ab_group_add, 'g2::ab_group_add) bfkw_lib"
    and W :: "'w \<Rightarrow> bool" and peers :: "'k list"
  assumes "ae_protocol E = bfkw_protocol sl lib N"
    and "sends_keep (bfkw_message (sl, lib, N, m, pk) B) W E" and "W w"
    and "\<And>n. bfkw_fits (sl, lib, N, m, pk) (B n) \<and> bl_number (B n) = n"
    and "\<forall>ch sender msg. Received ch sender msg \<in> set evs \<longrightarrow> 8 \<le> length msg \<longrightarrow>
      bfkw_message (sl, lib, N, m, pk) B (from_be_bytes (take 8 msg)) ch (drop 8 msg)"
  shows "\<exists>r a dc. run_receiver E num_blocks evs
      (node_actor_new (bfkw_protocol_new N m pk None) w peers degree rng mt) 0 = Inr (r, a, dc) \<and>
    dc = current_block (na_state a) \<and> W (na_net a) \<and>
    (case na_state a of Init n \<Rightarrow> bfkw_idle (sl, lib, N, m, pk) (na_protocol a)
      | Decoding n \<Rightarrow> bfkw_live (sl, lib, N, m, pk) (B n) (na_protocol a))"
proof (rule bfkw_node.fresh_receiver_honest [OF _ assms(2,4) _ assms(3,5)])
  show "ae_protocol E = (case (sl, lib, N, m, pk) of (sl, lib, N, m, pk) \<Rightarrow> bfkw_protocol sl lib N)"
    using assms(1) by simp
  show "bfkw_idle (sl, lib, N, m, pk) (bfkw_protocol_new N m pk None)"
    by (simp add: bfkw_idle_def bfkw_protocol_new_def)
qed

theorem bfkw_receiver_safe_witness:
  "\<exists>r a dc. run_receiver (env_ex (bfkw_protocol sl_ex bfkw_ex 2)) 5
      [Received Announce 1 [], Received Announce 1
        (to_be_bytes 0 @ encode_announcement (length (block_write (sl_wire sl_ex) (block_ex 0)))), Closed Data]
      (node_actor_new (bfkw_protocol_new 2 52 3 None) [] [1, 2, 3] 2 (7::nat) metrics_default) 0
      = Inr (r, a, dc) \<and>
    dc = current_block (na_state a) \<and>
    log_ok (bfkw_message (sl_ex, bfkw_ex, 2, 52, 3) block_ex) (na_net a) \<and>
    (case na_state a of Init n \<Rightarrow> bfkw_idle (sl_ex, bfkw_ex, 2, 52, 3) (na_protocol a)
      | Decoding n \<Rightarrow> bfkw_live (sl_ex, bfkw_ex, 2, 52, 3) (block_ex n) (na_protocol a))"
proof (rule bfkw_receiver_safe [OF env_ex_protocol env_ex_keep])
  show "bfkw_fits (sl_ex, bfkw_ex, 2, 52, 3) (block_ex n) \<and> bl_number (block_ex n) = n" for n
    using bfkw_generics_ex_fits [of n] by (simp add: bfkw_generics_ex_def)
qed (auto simp: log_ok_def honest_message_def)

text \<open>
  Receivers of the baseline are safe, in the same sense: full copies instead of coded packets.
\<close>

theorem baseline_receiver_safe:
  fixes W :: "'w \<Rightarrow> bool" and peers :: "'k list" and rng :: 'r
  assumes "ae_protocol E = baseline_protocol wc"
    and "sends_keep (baseline_message wc B) W E" and "W w"
    and "\<And>n. wire_ok wc \<and> readable (B n) \<and> length (block_write wc (B n)) < 2 ^ 64 \<and> bl_number (B n) = n"
    and "\<forall>ch sender msg. Received ch sender msg \<in> set evs \<longrightarrow> 8 \<le> length msg \<longrightarrow>
      baseline_message wc B (from_be_bytes (take 8 msg)) ch (drop 8 msg)"
  shows "\<exists>r a dc. run_receiver E num_blocks evs
      (node_actor_new baseline_protocol_new w peers degree rng mt) 0 = Inr (r, a, dc) \<and>
    dc = current_block (na_state a) \<and> W (na_net a) \<and>
    (case na_state a of Init n \<Rightarrow> bp_block (na_protocol a) = None
      | Decoding n \<Rightarrow> baseline_live wc (B n) (na_protocol a))"
proof (rule baseline_node.fresh_receiver_honest [OF assms(1,2) _ _ assms(3,5)])
  show "(wire_ok wc \<and> readable (B n) \<and> length (block_write wc (B n)) < 2 ^ 64) \<and> bl_number (B n) = n" for n
    using assms(4) by simp
  show "bp_block baseline_protocol_new = None" by (simp add: baseline_protocol_new_def)
qed

theorem baseline_receiver_safe_witness:
  "\<exists>r a dc. run_receiver (env_ex (baseline_protocol wire_ex)) 5
      [Received Announce 1 [], Received Announce 1
        (to_be_bytes 0 @ encode_announcement (length (block_write wire_ex (block_ex 0)))),
       Received Data 2 (to_be_bytes 0 @ block_write wire_ex (block_ex 0)), Closed Data]
      (node_actor_new baseline_protocol_new [] [1, 2, 3] 2 (7::nat) metrics_default) 0 = Inr (r, a, dc) \<and>
    dc = current_block (na_state a) \<and> log_ok (baseline_message wire_ex block_ex) (na_net a) \<and>
    (case na_state a of Init n \<Rightarrow> bp_block (na_protocol a) = None
      | Decoding n \<Rightarrow> baseline_live wire_ex (block_ex n) (na_protocol a))"
proof (rule baseline_receiver_safe [OF env_ex_protocol env_ex_keep])
  show "wire_ok wire_ex \<and> readable (block_ex n) \<and> length (block_write wire_ex (block_ex n)) < 2 ^ 64 \<and>
      bl_number (block_ex n) = n" for n
    by (simp add: wire_ex_ok block_ex_readable)
qed (auto simp: log_ok_def honest_message_def)

section \<open>Proposers\<close>

text \<open>
  C28: The proposer starts exactly when a peer can be reached. \<open>probe_peers\<close> returns if and only if
  some probe reaches a peer, and then it has sent probes up to the first such one and nothing else.
\<close>

theorem probe_until_reached:
  "(\<forall>a'. probe_peers E a = Some a' \<longleftrightarrow>
     (\<exists>i. probe_reaches E (na_net a) i \<and> (\<forall>j < i. \<not> probe_reaches E (na_net a) j) \<and>
        a' = a\<lparr>na_net := probe_net E (na_net a) (Suc i)\<rparr>)) \<and>
   (probe_peers E a = None \<longleftrightarrow> \<not> (\<exists>i. probe_reaches E (na_net a) i))"
proof -
  let ?R = "probe_reaches E (na_net a)"
  have first: "\<exists>i. ?R i \<and> (\<forall>j < i. \<not> ?R j)" if "?R i" for i
    using that LeastI [of ?R i] not_less_Least [where P = ?R] by blast
  show ?thesis
  proof (cases "\<exists>i. ?R i")
    case True
    with first obtain i where i: "?R i" "\<forall>j < i. \<not> ?R j" by blast
    note eq = probe_peers_reaches [OF i]
    have "probe_peers E a = Some a' \<longleftrightarrow> (\<exists>i. ?R i \<and> (\<forall>j < i. \<not> ?R j) \<and>
        a' = a\<lparr>na_net := probe_net E (na_net a) (Suc i)\<rparr>)" for a'
    proof
      assume "probe_peers E a = Some a'"
      with eq have "a' = a\<lparr>na_net := probe_net E (na_net a) (Suc i)\<rparr>" by simp
      with i show "\<exists>i. ?R i \<and> (\<forall>j < i. \<not> ?R j) \<and> a' = a\<lparr>na_net := probe_net E (na_net a) (Suc i)\<rparr>"
        by blast
    next
      assume "\<exists>i. ?R i \<and> (\<forall>j < i. \<not> ?R j) \<and> a' = a\<lparr>na_net := probe_net E (na_net a) (Suc i)\<rparr>"
      then show "probe_peers E a = Some a'"
        by (elim exE conjE) (simp only: probe_peers_reaches)
    qed
    moreover have "probe_peers E a \<noteq> None" unfolding eq by simp
    ultimately show ?thesis using True by blast
  next
    case False
    then have "probe_peers E a \<noteq> Some a'" for a' using probe_peers_only_then by blast
    with False show ?thesis by (metis option.exhaust)
  qed
qed

theorem probe_until_reached_witness:
  "let E = env_ex (baseline_protocol wire_ex);
       a = node_actor_new baseline_protocol_new [] [1, 2] 2 (7::nat) metrics_default in
   (\<forall>a'. probe_peers E a = Some a' \<longleftrightarrow>
     (\<exists>i. probe_reaches E (na_net a) i \<and> (\<forall>j < i. \<not> probe_reaches E (na_net a) j) \<and>
        a' = a\<lparr>na_net := probe_net E (na_net a) (Suc i)\<rparr>)) \<and>
   (probe_peers E a = None \<longleftrightarrow> \<not> (\<exists>i. probe_reaches E (na_net a) i))"
  unfolding Let_def by (rule probe_until_reached)

text \<open>
  C29: Proposers of RLNC + Pedersen are safe. Once a peer is reached, the proposer proposes all its
  blocks without a panic, and every message it sends is an honest message of a block that it
  generated: any property of the network that such sends keep still holds at the end.
\<close>

theorem pedersen_proposer_safe:
  fixes sl :: "('f::field, 'r) scalar_lib" and lib :: "('f, 'g::ab_group_add, 'sk, 'pk, 'sig) pedersen_lib"
    and W :: "'w \<Rightarrow> bool" and peers :: "'k list"
  assumes "ae_protocol E = pedersen_protocol sl lib N"
    and "sends_keep (\<lambda>n ch d. \<exists>b. pedersen_fits (sl, lib, N, m, sg_public_key (pl_signer lib) sk) b \<and>
      bl_number b = n \<and>
      pedersen_message (sl, lib, N, m, sg_public_key (pl_signer lib) sk) (\<lambda>_. b) n ch d) W E"
    and "\<And>n rng. pedersen_fits (sl, lib, N, m, sg_public_key (pl_signer lib) sk)
      (fst (generate_random_block (ae_random_byte E) (ae_fill E) block_size n rng))"
    and "probe_reaches E w i" and "\<And>i. W (probe_net E w i)"
  shows "\<exists>a. run_proposer E num_blocks block_size
      (node_actor_new (pedersen_protocol_new lib N m (sg_public_key (pl_signer lib) sk) (Some sk))
         w peers degree rng mt) = Some (Inr a) \<and> W (na_net a)"
proof -
  let ?c = "(sl, lib, N, m, sg_public_key (pl_signer lib) sk)"
  let ?a = "node_actor_new (pedersen_protocol_new lib N m (sg_public_key (pl_signer lib) sk) (Some sk))
      w peers degree rng mt"
  let ?R = "probe_reaches E (na_net ?a)"
  have "?R i" using assms(4) by (simp add: node_actor_new_def)
  then obtain i where i: "?R i" "\<forall>j < i. \<not> ?R j" using LeastI [of ?R i] not_less_Least by blast
  have "proposer_ok pedersen_idle pedersen_proposer pedersen_live W ?c 0 ?a"
    using assms(5) [of 0]
    by (simp add: proposer_ok_def node_actor_new_def pedersen_proposer_def pedersen_idle_def
        pedersen_protocol_new_def pedersen_ctx_def)
  from pedersen_node.run_proposer_honest [where c = ?c, OF _ _ _ this probe_peers_reaches [OF i]]
    assms(1,2,3) assms(5) [of "Suc i"]
  show ?thesis by (simp add: proposed_message_def [abs_def] node_actor_new_def)
qed

theorem pedersen_proposer_safe_witness:
  "\<exists>a. run_proposer ((env_ex (pedersen_protocol sl_ex pedersen_ex 2))) 3 0
      (node_actor_new (pedersen_protocol_new pedersen_ex 2 52 (sg_public_key (pl_signer pedersen_ex) ()) (Some ()))
         [] [1, 2, 3] 2 (7::nat) metrics_default) = Some (Inr a) \<and>
    log_ok (\<lambda>n ch d. \<exists>b. pedersen_fits (sl_ex, pedersen_ex, 2, 52, sg_public_key (pl_signer pedersen_ex) ()) b \<and>
      bl_number b = n \<and>
      pedersen_message (sl_ex, pedersen_ex, 2, 52, sg_public_key (pl_signer pedersen_ex) ()) (\<lambda>_. b) n ch d) (na_net a)"
proof (rule pedersen_proposer_safe [OF env_ex_protocol env_ex_keep])
  show "pedersen_fits (sl_ex, pedersen_ex, 2, 52, sg_public_key (pl_signer pedersen_ex) ())
      (fst (generate_random_block (ae_random_byte (env_ex (pedersen_protocol sl_ex pedersen_ex 2)))
      (ae_fill (env_ex (pedersen_protocol sl_ex pedersen_ex 2))) 0 n rng))"
    for n and rng :: nat
  proof -
    let ?b = "fst (generate_random_block (ae_random_byte (env_ex (pedersen_protocol sl_ex pedersen_ex 2)))
      (ae_fill (env_ex (pedersen_protocol sl_ex pedersen_ex 2))) 0 n rng)"
    have "length (bl_transactions ?b) = 0" by (simp only: generate_random_block_number)
    moreover have "block_ok ?b" by (rule generate_random_block_ok) (simp add: env_ex_def)
    ultimately have b: "block_ok ?b" "bl_transactions ?b = []" by simp_all
    then have "length (block_write wire_ex ?b) = 104"
      by (simp add: block_write_def block_ok_def wire_ex_def)
    then show ?thesis
      using b sl_ex_ok pedersen_ex_ok
      by (simp add: pedersen_fits_def block_fits_def readable_def sl_ex_def gf_packable_def
          elements_needed_def max_transactions_bytes_def)
  qed
  show "probe_reaches (env_ex (pedersen_protocol sl_ex pedersen_ex 2)) [] 0"
    by (simp add: probe_reaches_def env_ex_def)
  show "log_ok hm (probe_net (env_ex (pedersen_protocol sl_ex pedersen_ex 2)) [] i)" for hm i
    by (rule env_ex_probe) (simp add: log_ok_def)
qed

section \<open>Routing\<close>

text \<open>
  C25: No early message is lost. Whatever the protocol and whatever fewer than \<open>2 ^ 64\<close> events arrive, if a
  fresh receiver handles them without a panic, then for the events it has handled (all of them, while it
  waits for more): the current block is the number of blocks decoded; the buffer holds every message
  received of each later block, in order, and none of an earlier one; of the current block it holds all
  the data received, in order, as long as no announcement has been accepted, and nothing afterwards.
\<close>

theorem early_messages_kept:
  assumes "run_receiver E num_blocks evs (node_actor_new protocol net peers degree rng mt) 0 = Inr (r, a, dc)"
    and "length evs < 2 ^ 64"
  shows "current_block (na_state a) = dc \<and>
    (\<exists>j \<le> length evs. (r = Waiting \<longrightarrow> j = length evs) \<and>
      (\<forall>k. (dc < k \<longrightarrow> buffered k (na_buffer a) = received_messages k (take j evs)) \<and>
           (k < dc \<longrightarrow> buffered k (na_buffer a) = [])) \<and>
      (case na_state a of
         Init n \<Rightarrow> buffered n (na_buffer a) = filter (\<lambda>(ch, pkt). ch = Data) (received_messages n (take j evs))
       | Decoding n \<Rightarrow> buffered n (na_buffer a) = []))"
proof -
  have cur: "current_block (na_state a) = dc"
    using run_receiver_progress [OF assms(1)] by (simp add: node_actor_new_def)
  show ?thesis
    using run_receiver_accounts [OF assms(1), of "[]"] assms(2) cur
    by (simp add: buffer_accounts_def node_actor_new_def backlog_def)
qed

theorem early_messages_kept_witness:
  "let E = env_ex (baseline_protocol wire_ex);
       evs = [Received Data 1 (to_be_bytes 1 @ [9]), Received Data 2 (to_be_bytes 0 @ [7]), Received Announce 1 [1, 2],
         Received Announce 2 (to_be_bytes 1 @ [3])] :: nat event list in
   \<exists>a. run_receiver E 3 evs (node_actor_new baseline_protocol_new [] [1, 2] 2 (7::nat) metrics_default) 0 = Inr (Waiting, a, 0) \<and>
    current_block (na_state a) = 0 \<and>
    (\<exists>j \<le> length evs. (Waiting = Waiting \<longrightarrow> j = length evs) \<and>
      (\<forall>k. (0 < k \<longrightarrow> buffered k (na_buffer a) = received_messages k (take j evs)) \<and>
           (k < 0 \<longrightarrow> buffered k (na_buffer a) = [])) \<and>
      (case na_state a of
         Init n \<Rightarrow> buffered n (na_buffer a) = filter (\<lambda>(ch, pkt). ch = Data) (received_messages n (take j evs))
       | Decoding n \<Rightarrow> buffered n (na_buffer a) = []))"
proof -
  let ?evs = "[Received Data 1 (to_be_bytes 1 @ [9]), Received Data 2 (to_be_bytes 0 @ [7]), Received Announce 1 [1, 2],
     Received Announce 2 (to_be_bytes 1 @ [3])] :: nat event list"
  let ?run = "run_receiver (env_ex (baseline_protocol wire_ex)) 3 ?evs
     (node_actor_new baseline_protocol_new [] [1, 2] 2 (7::nat) metrics_default) 0"
  obtain a where run: "?run = Inr (Waiting, a, 0)"
    by (simp add: route_def process_def node_actor_new_def count_received_def Let_def)
  show ?thesis
    unfolding Let_def by (rule exI, rule conjI [OF run], rule early_messages_kept [OF run]) simp
qed

text \<open>
  C26: Blocks are decoded one at a time, and only the protocol can fail. Handling one message panics only
  if the message is of the current block and a call of the protocol panics with the same cause; otherwise
  the current block and the decoded count have advanced by the same number \<open>k\<close>, and what is left in the
  buffer together with \<open>k\<close> is at most one more than what was buffered.
\<close>

theorem route_advances:
  "case route E ch bn data sender a dc of
     Inl e \<Rightarrow> bn = current_block (na_state a) \<and> protocol_panics (ae_protocol E) e
   | Inr (a', dc') \<Rightarrow> \<exists>k. k + backlog (na_buffer a') \<le> Suc (backlog (na_buffer a)) \<and>
       current_block (na_state a') = current_block (na_state a) + of_nat k \<and> dc' = dc + of_nat k"
  by (auto split: sum.splits dest: route_progress route_panics)

text \<open>
  C38: Peer selection. If the library's shuffle permutes, \<open>select_peers\<close> returns distinct peers of the
  node, never the excluded sender, exactly \<open>mesh_degree\<close> many or all there are.
\<close>

theorem select_peers_correct:
  assumes "\<And>xs r. mset (fst (ae_shuffle E xs r)) = mset xs" and "distinct (na_peers a)"
  shows "distinct (fst (select_peers E exclude a)) \<and>
    set (fst (select_peers E exclude a)) \<subseteq> set (na_peers a) - set_option exclude \<and>
    length (fst (select_peers E exclude a))
      = min (na_mesh_degree a) (length (filter (\<lambda>p. exclude \<noteq> Some p) (na_peers a)))"
  using select_peers_spec [OF assms, of exclude] by (auto simp: Let_def elem_set)

theorem select_peers_correct_witness:
  "let E = env_ex (baseline_protocol wire_ex);
       a = node_actor_new baseline_protocol_new [] [1, 2, 3] 2 (7::nat) metrics_default in
   distinct (fst (select_peers E (Some 2) a)) \<and>
    set (fst (select_peers E (Some 2) a)) \<subseteq> set (na_peers a) - set_option (Some 2) \<and>
    length (fst (select_peers E (Some 2) a))
      = min (na_mesh_degree a) (length (filter (\<lambda>p. Some 2 \<noteq> Some p) (na_peers a)))"
  unfolding Let_def by (rule select_peers_correct) (simp_all add: env_ex_def node_actor_new_def)

end
