(* ===== verification/Engine_Types.thy ===== *)
theory Engine_Types
  imports Engine_Facts
begin

text \<open>
  The types of a simulation run, for an arbitrary strategy: every table has one entry per node and
  every event goes to a node, so the engine never indexes outside a table. What is left to panic is
  the arithmetic of time, the checked parameters of the mesh, and the strategy itself.
\<close>

section \<open>The type of a run\<close>

definition sim_typed :: "nat \<Rightarrow> ('s, 'p, 'r) sim_state \<Rightarrow> bool" where
  "sim_typed n st \<longleftrightarrow> length (ss_states st) = n \<and> length (ss_upload st) = n \<and>
     length (ss_download st) = n \<and> length (ss_decode_times st) = n \<and> length (ss_has_forwarded st) = n \<and>
     (\<forall>ev \<in> set (ss_queue st). ev_to ev < n)"

definition mesh_typed :: "nat \<Rightarrow> topology \<Rightarrow> bool" where
  "mesh_typed n topo \<longleftrightarrow> tp_num_nodes topo = n \<and> (\<forall>i < n. set (tp_neighbors topo ! i) \<subseteq> {..<n})"

definition time_panic :: "panic \<Rightarrow> bool" where
  "time_panic e \<longleftrightarrow> e \<in> {BadDuration, DurationOverflow}"

definition strategy_panic :: "('self, 's, 'p, 'r) strategy \<Rightarrow> panic \<Rightarrow> bool" where
  "strategy_panic S e \<longleftrightarrow>
     (\<exists>self b k rng. st_init_proposer S self b k rng = Inl e) \<or> (\<exists>self. st_init_receiver S self = Inl e) \<or>
     (\<exists>self s p. st_receive S self s p = Inl e) \<or> (\<exists>self s k rng. st_forward S self s k rng = Inl e)"

abbreviation engine_panic :: "('self, 's, 'p, 'r) strategy \<Rightarrow> panic \<Rightarrow> bool" where
  "engine_panic S e \<equiv> time_panic e \<or> strategy_panic S e"

lemma strategy_run_ok:
  "run_ok (engine_panic S) (\<lambda>_. True) (st_init_proposer S self b k rng)"
  "run_ok (engine_panic S) (\<lambda>_. True) (st_init_receiver S self)"
  "run_ok (engine_panic S) (\<lambda>_. True) (st_receive S self s p)"
  "run_ok (engine_panic S) (\<lambda>_. True) (st_forward S self s k rng)"
  by (auto simp: run_ok_def strategy_panic_def split: sum.split)

section \<open>Every step keeps it\<close>

lemma delay_run_ok:
  "run_ok (engine_panic S) (\<lambda>_. True) (transmission_delay hop k bandwidth)"
  "run_ok (engine_panic S) (\<lambda>_. True) (duration_add a b)"
  by (auto simp: transmission_delay_def duration_from_secs_f64_def duration_add_def assertR_def time_panic_def
      Let_def)

lemma transmit_typed:
  assumes "sim_typed n st" "src < n" "fst pp < n"
  shows "run_ok (engine_panic S) (sim_typed n) (transmit mc self src now pp st)"
proof -
  obtain peer packet where pp: "pp = (peer, packet)" by (cases pp)
  from assms show ?thesis
    unfolding transmit_def pp prod.case Let_def
    by (intro run_ok_bind [OF delay_run_ok(1)] run_ok_bind [OF delay_run_ok(2)])
       (auto simp: add_at_def sim_typed_def)
qed

lemma forward_step_typed:
  fixes st :: "('s, 'p, 'r) sim_state"
  assumes "sim_typed n st" "mesh_typed n topo" "dest < n"
  shows "run_ok (engine_panic (mc_strategy mc)) (sim_typed n) (forward_step mc self topo dest now s st)"
proof -
  let ?peers = "tp_neighbors topo ! dest"
  have peers: "tp_neighbors_of topo dest = Inr ?peers" "set ?peers \<subseteq> {..<n}"
    using assms(2,3) by (simp_all add: mesh_typed_def tp_neighbors_of_def tp_num_nodes_def)
  have fw: "upd (ss_has_forwarded st) dest True = Inr ((ss_has_forwarded st)[dest := True])"
    using assms by (simp add: sim_typed_def)
  have "run_ok (engine_panic (mc_strategy mc)) (sim_typed n) (foldR (transmit mc self dest now) (zip ?peers packets)
      (st\<lparr>ss_has_forwarded := (ss_has_forwarded st)[dest := True], ss_rng := rng\<rparr>))" for packets rng
    using assms(1,3) peers(2)
    by (intro run_ok_foldR transmit_typed) (auto simp: sim_typed_def dest!: set_zip_leftD)
  then show ?thesis
    unfolding forward_step_def fw peers(1) bindR_simps
    by (intro run_ok_bind [OF strategy_run_ok(4)]) (simp add: case_prod_beta)
qed

lemma handle_event_typed:
  fixes st :: "('s, 'p, 'r) sim_state"
  assumes st: "sim_typed n st" and topo: "mesh_typed n topo" and to: "ev_to ev < n"
  shows "run_ok (engine_panic (mc_strategy mc)) (sim_typed n) (handle_event mc self topo ev st)"
proof -
  let ?Q = "engine_panic (mc_strategy mc)" and ?d = "ev_to ev"
  have idx: "idx (ss_decode_times st) ?d = Inr (ss_decode_times st ! ?d)" "idx (ss_states st) ?d = Inr (ss_states st ! ?d)"
    using st to by (simp_all add: sim_typed_def)
  have finish: "run_ok ?Q (sim_typed n) (if can then bindR (upd (ss_decode_times st') ?d (Some t))
      (\<lambda>times. Inr (st'\<lparr>ss_decode_times := times\<rparr>)) else Inr st')"
    if "sim_typed n st'" for st' :: "('s, 'p, 'r) sim_state" and can t
    using that to by (simp add: sim_typed_def)
  show ?thesis
  proof (cases "ss_decode_times st ! ?d = None")
    case True
    show ?thesis
      unfolding handle_event_def Let_def idx bindR_simps
    proof (simp only: True simp_thms if_False, intro run_ok_bind [OF strategy_run_ok(3)], goal_cases)
      case (1 x)
      obtain s' result where x: "x = (s', result)" by (cases x)
      let ?st = "\<lambda>r. let st = st\<lparr>ss_states := (ss_states st)[?d := s']\<rparr> in
        if r then st\<lparr>ss_useful_packets := ss_useful_packets st + 1\<rparr>
        else st\<lparr>ss_redundant_packets := ss_redundant_packets st + 1\<rparr>"
      have t: "sim_typed n (?st r)" for r using st by (simp add: sim_typed_def Let_def)
      show ?case
      proof (cases result)
        case (Inl e)
        with st show ?thesis by (simp add: x sim_typed_def)
      next
        case (Inr r)
        have fwd: "idx (ss_has_forwarded (?st r)) ?d = Inr (ss_has_forwarded (?st r) ! ?d)"
          using t [of r] to by (simp add: sim_typed_def)
        have "run_ok ?Q (sim_typed n) (if c then forward_step mc self topo ?d (ev_time ev) s' (?st r) else Inr (?st r))" for c
          using forward_step_typed [OF t topo to, of mc self "ev_time ev" s' r] t [of r] by (cases c) simp_all
        then show ?thesis
          using fwd unfolding x Inr prod.case sum.case Let_def
          by (simp only: bindR_simps) (intro run_ok_bind finish, assumption+)
      qed
    qed
  qed (use st in \<open>simp add: handle_event_def Let_def idx\<close>)
qed

section \<open>Whole runs\<close>

lemma event_loop_typed:
  fixes st :: "('s, 'p, 'r) sim_state"
  assumes pop: "pop_ok pop" and st: "sim_typed n st" and topo: "mesh_typed n topo"
    and run: "event_loop pop mc self topo st = Some y"
  shows "run_ok (engine_panic (mc_strategy mc)) (\<lambda>st'. ss_queue st' = [] \<and> sim_typed n st') y"
proof (rule event_loop_run [where J = "sim_typed n", OF run st])
  fix st :: "('s, 'p, 'r) sim_state" and ev q
  assume st: "sim_typed n st" and pq: "pop (ss_queue st) = (ev, q)" and ne: "ss_queue st \<noteq> []"
  have "mset (ss_queue st) = add_mset ev (mset q)"
    using pop ne pq unfolding pop_ok_def by (metis fst_conv snd_conv)
  then have "set (ss_queue st) = insert ev (set q)" by (metis set_mset_add_mset_insert set_mset_mset)
  with st have "sim_typed n (st\<lparr>ss_queue := q\<rparr>)" "ev_to ev < n" by (auto simp: sim_typed_def)
  then show "run_ok (engine_panic (mc_strategy mc)) (sim_typed n) (handle_event mc self topo ev (st\<lparr>ss_queue := q\<rparr>))"
    by (intro handle_event_typed [OF _ topo])
qed

lemma random_mesh_typed:
  assumes "\<And>xs r. mset (fst (shuffle xs r)) = mset xs" "\<And>xs k r. mset (fst (partial_shuffle xs k r)) = mset xs"
  shows "run_ok (\<lambda>e. e \<in> {DegreeTooLarge, ArithmeticOverflow}) (\<lambda>(topo, _). mesh_typed n topo)
    (random_mesh shuffle partial_shuffle n degree rng)"
proof -
  consider "n \<le> degree" | "degree = 0" "1 < n" | "degree < n" "0 < degree \<or> n = 1" by linarith
  then show ?thesis
  proof cases
    case 1
    then show ?thesis by (simp add: random_mesh_def)
  next
    case 2
    then show ?thesis using random_mesh_degree_zero [where shuffle = shuffle and partial_shuffle = partial_shuffle and rng = rng, OF assms(1) 2(2)]
      by (simp only: run_ok_simps) simp
  next
    case 3
    from random_mesh_ok [where shuffle = shuffle and partial_shuffle = partial_shuffle, OF assms 3, of rng]
    obtain topo rng' where "random_mesh shuffle partial_shuffle n degree rng = Inr (topo, rng')"
      "tp_num_nodes topo = n" "\<forall>i < n. peers_ok n i (tp_neighbors topo ! i)" by metis
    then show ?thesis by (simp add: mesh_typed_def peers_ok_def)
  qed
qed

text \<open>The parameters \<open>run\<close> checks itself.\<close>

definition setup_panic :: "panic \<Rightarrow> bool" where
  "setup_panic e \<longleftrightarrow> e \<in> {NoNodes, DegreeTooLarge, ArithmeticOverflow}"

lemma sim_start_typed:
  assumes perm: "\<And>xs r. mset (fst (lb_shuffle lb xs r)) = mset xs" "\<And>xs k r. mset (fst (lb_partial_shuffle lb xs k r)) = mset xs"
  shows "run_ok (\<lambda>e. setup_panic e \<or> engine_panic (mc_strategy mc) e)
    (\<lambda>(self, topo, byte_len, st). mesh_typed (mc_num_nodes mc) topo \<and> sim_typed (mc_num_nodes mc) st)
    (sim_start lb mc b rng)"
proof (cases "0 < mc_num_nodes mc")
  case True
  let ?n = "mc_num_nodes mc" and ?S = "mc_strategy mc"
  let ?Q = "\<lambda>e. setup_panic e \<or> engine_panic ?S e"
  have strat: "run_ok ?Q (\<lambda>_. True) (st_init_proposer ?S self b k rng)"
    "run_ok ?Q (\<lambda>ys. length ys = length xs) (mapR (\<lambda>_. st_init_receiver ?S self) xs)" for self b k rng and xs :: "nat list"
  proof -
    show "run_ok ?Q (\<lambda>_. True) (st_init_proposer ?S self b k rng)"
      by (rule run_ok_weaken [OF strategy_run_ok(1)]) simp_all
    have "run_ok ?Q (\<lambda>_. True) (st_init_receiver ?S self)"
      by (rule run_ok_weaken [OF strategy_run_ok(2)]) simp_all
    then show "run_ok ?Q (\<lambda>ys. length ys = length xs) (mapR (\<lambda>_. st_init_receiver ?S self) xs)"
      by (rule run_ok_mapR)
  qed
  have mesh: "run_ok ?Q (\<lambda>(topo, _). mesh_typed ?n topo)
      (random_mesh (lb_shuffle lb) (lb_partial_shuffle lb) ?n (mc_mesh_degree mc) rng)"
    by (rule run_ok_weaken [OF random_mesh_typed])
       (auto simp: setup_panic_def perm)
  have nb: "tp_neighbors_of topo 0 = Inr (tp_neighbors topo ! 0) \<and> set (tp_neighbors topo ! 0) \<subseteq> {..<?n}"
    if "mesh_typed ?n topo" for topo
    using that True by (simp add: mesh_typed_def tp_neighbors_of_def tp_num_nodes_def)
  have sent: "run_ok ?Q (sim_typed ?n) (foldR (transmit mc self 0 0) (zip ps packets) st)"
    if "sim_typed ?n st" "set ps \<subseteq> {..<?n}" for self ps packets st
    by (rule run_ok_weaken [OF run_ok_foldR [where P = "sim_typed ?n" and Q = "engine_panic ?S"]])
       (use that True in \<open>auto intro!: transmit_typed dest!: set_zip_leftD\<close>)
  show ?thesis
    unfolding sim_start_def Let_def using True
    apply (intro run_ok_assert run_ok_bind [OF mesh])
     apply (clarsimp simp: nb)
     apply (intro run_ok_bind [OF strat(1)])
     apply (clarsimp)
     apply (intro run_ok_bind [OF strat(2)] run_ok_bind [OF sent])
    by (auto simp: sim_typed_def nb)
qed (simp add: sim_start_def setup_panic_def)

end
