(* ===== verification/Props_Sim.thy ===== *)
theory Props_Sim
  imports Instances Engine_Types
begin

text \<open>
  What the simulator promises: the mesh it builds, what a run ends with, for each strategy, and how
  the engine relates to the abstract network.
\<close>

section \<open>Samples\<close>

definition lib_ex :: "nat sim_lib" where
  "lib_ex = \<lparr>lb_shuffle = (\<lambda>xs r. (rev xs, Suc r)), lb_partial_shuffle = (\<lambda>xs k r. (rev xs, Suc r))\<rparr>"

lemma lib_ex_perm: "mset (fst (lb_shuffle lib_ex xs r)) = mset xs"
  "mset (fst (lb_partial_shuffle lib_ex xs k r)) = mset xs"
  by (simp_all add: lib_ex_def)

text \<open>The heap as a list searched for an event of least time.\<close>

definition pop_ex :: "'p sim_event list \<Rightarrow> 'p sim_event \<times> 'p sim_event list" where
  "pop_ex q = (let ev = hd (sort_key ev_time q) in (ev, remove1 ev q))"

lemma pop_ex_ok: "pop_ok (pop_ex :: 'p sim_event list \<Rightarrow> _)"
proof -
  have "hd (sort_key ev_time q) \<in> set q \<and> (\<forall>e \<in> set q. ev_time (hd (sort_key ev_time q)) \<le> ev_time e)"
    if "q \<noteq> []" for q :: "'p sim_event list"
  proof -
    have "sort_key ev_time q \<noteq> []"
    proof
      assume "sort_key ev_time q = []"
      then have "length (sort_key ev_time q) = 0" by (simp only: list.size)
      with that show False by simp
    qed
    then obtain e es where s: "sort_key ev_time q = e # es" by (cases "sort_key ev_time q") simp_all
    have "set q = insert e (set es)" using set_sort [of ev_time q] unfolding s by simp
    moreover have "\<forall>x \<in> set es. ev_time e \<le> ev_time x"
      using sorted_sort_key [of ev_time q] unfolding s by simp
    ultimately show ?thesis unfolding s by auto
  qed
  then show ?thesis by (simp add: pop_ok_def pop_ex_def Let_def)
qed

definition mech_ex :: "('self, 's, 'p, nat) strategy \<Rightarrow> 'self \<Rightarrow> ('self, 's, 'p, nat) mechanism" where
  "mech_ex S self = \<lparr>mc_num_nodes = 5, mc_mesh_degree = 2, mc_hop_latency = 100, mc_bandwidth = 1,
     mc_strategy = S, mc_self = self\<rparr>"

lemma mech_ex_delays:
  assumes "k \<le> 10000" "cap \<le> 10"
  shows "delays_fit (mech_ex S self) k cap (100 + k * nanos_per_sec)"
proof -
  have "100 + k * nanos_per_sec \<le> 10001 * nanos_per_sec"
    using assms(1) by (simp add: nanos_per_sec_def)
  moreover have "Suc (5 * Suc cap) \<le> 56" using assms(2) by simp
  ultimately have "(100 + k * nanos_per_sec) * Suc (5 * Suc cap) \<le> 10001 * nanos_per_sec * 56"
    by (rule mult_le_mono)
  also have "\<dots> < 2 ^ 64 * nanos_per_sec" by (simp add: nanos_per_sec_def)
  finally have fits: "(100 + k * nanos_per_sec) * Suc (5 * Suc cap) < 2 ^ 64 * nanos_per_sec" .
  have "100 + k * nanos_per_sec < 2 ^ 64 * nanos_per_sec"
    using assms(1) by (simp add: nanos_per_sec_def)
  with assms(1) have "transmission_delay 100 k 1 = Inr (100 + k * nanos_per_sec)"
    by (intro transmission_delay_unit) simp_all
  with fits show ?thesis by (simp add: delays_fit_def mech_ex_def)
qed

definition pedersen_self_ex :: "(gf, unit) pedersen_strategy_self" where
  "pedersen_self_ex = fst (pedersen_strategy_new pedersen_ex (\<lambda>r. ((), r)) 52 (1::nat))"

definition bfkw_self_ex :: "(gf, gf, gf) bfkw_strategy_self" where
  "bfkw_self_ex = fst (bfkw_strategy_new bfkw_ex (sl_random sl_ex) 52 3)"

lemma pedersen_self_ex_ok: "pedersen_self_ok (sl_ex, pedersen_ex, 2, 52) pedersen_self_ex"
  using sl_ex_packing group_ex_ok
  by (simp add: pedersen_self_ok_def pedersen_self_ex_def pedersen_strategy_new_def pedersen_ex_def signer_ok_def)

lemma bfkw_self_ex_ok: "bfkw_self_ok ((\<lambda>bs. bs), sl_ex, bfkw_ex, 2, 52) bfkw_self_ex"
  using sl_ex_packing bfkw_ex_ok(1) bfkw_generate_keypair [of bfkw_ex "sl_random sl_ex" 3]
  by (simp add: bfkw_self_ok_def bfkw_self_ex_def bfkw_strategy_new_def case_prod_beta Let_def)

section \<open>The mesh\<close>

text \<open>
  C10: The mesh. With permuting shuffles, \<open>random_mesh\<close> panics when the degree is not below the number
  of nodes, as documented, and also for degree zero with two nodes or more, which is not; otherwise
  every node has exactly \<open>degree\<close> distinct neighbours, none of them itself, and every node can be
  reached from the proposer, node 0.
\<close>

theorem mesh_correct:
  assumes sh: "\<And>xs r. mset (fst (shuffle xs r)) = mset xs"
    and psh: "\<And>xs k r. mset (fst (partial_shuffle xs k r)) = mset xs"
  shows "if n \<le> degree then random_mesh shuffle partial_shuffle n degree rng = Inl DegreeTooLarge
    else if degree = 0 \<and> 1 < n then random_mesh shuffle partial_shuffle n degree rng = Inl ArithmeticOverflow
    else \<exists>t rng'. random_mesh shuffle partial_shuffle n degree rng = Inr (t, rng') \<and> tp_num_nodes t = n \<and>
      (\<forall>i < n. distinct (tp_neighbors t ! i) \<and> length (tp_neighbors t ! i) = degree \<and>
        set (tp_neighbors t ! i) \<subseteq> {..<n} - {i}) \<and>
      (\<forall>j < n. (0, j) \<in> {(i, k). i < n \<and> k \<in> set (tp_neighbors t ! i)}\<^sup>*)"
proof -
  have "random_mesh shuffle partial_shuffle n degree rng = Inl DegreeTooLarge" if "n \<le> degree"
    using that by (simp add: random_mesh_def)
  moreover have "random_mesh shuffle partial_shuffle n 0 rng = Inl ArithmeticOverflow" if "1 < n"
    by (rule random_mesh_degree_zero [OF sh that])
  moreover have "\<exists>t rng'. random_mesh shuffle partial_shuffle n degree rng = Inr (t, rng') \<and> tp_num_nodes t = n \<and>
      (\<forall>i < n. distinct (tp_neighbors t ! i) \<and> length (tp_neighbors t ! i) = degree \<and>
        set (tp_neighbors t ! i) \<subseteq> {..<n} - {i}) \<and>
      (\<forall>j < n. (0, j) \<in> {(i, k). i < n \<and> k \<in> set (tp_neighbors t ! i)}\<^sup>*)"
    if "degree < n" "0 < degree \<or> n = 1"
    using random_mesh_ok [where shuffle = shuffle and partial_shuffle = partial_shuffle, OF sh psh that, of rng]
    by (auto simp: peers_ok_def mesh_edges_def)
  ultimately show ?thesis by auto
qed

theorem mesh_correct_witness:
  "if 5 \<le> (2 :: nat) then random_mesh (lb_shuffle lib_ex) (lb_partial_shuffle lib_ex) 5 2 1 = Inl DegreeTooLarge
    else if 2 = (0 :: nat) \<and> 1 < (5 :: nat)
    then random_mesh (lb_shuffle lib_ex) (lb_partial_shuffle lib_ex) 5 2 1 = Inl ArithmeticOverflow
    else \<exists>t rng'. random_mesh (lb_shuffle lib_ex) (lb_partial_shuffle lib_ex) 5 2 1 = Inr (t, rng') \<and>
      tp_num_nodes t = 5 \<and>
      (\<forall>i < 5. distinct (tp_neighbors t ! i) \<and> length (tp_neighbors t ! i) = 2 \<and>
        set (tp_neighbors t ! i) \<subseteq> {..<5} - {i}) \<and>
      (\<forall>j < 5. (0, j) \<in> {(i, k). i < 5 \<and> k \<in> set (tp_neighbors t ! i)}\<^sup>*)"
  by (rule mesh_correct) (rule lib_ex_perm)+

section \<open>The abstract network\<close>

text \<open>
  C4: RLNC + Pedersen is safe in every network. Once a block that fits is proposed, whatever packets
  are delivered to whichever nodes, in any order, any number of times, and whenever nodes that learned
  something or can decode forward to any number of peers: no reachable step panics, and every node
  that can decode decodes to the proposed block.
\<close>

theorem pedersen_network_safe:
  fixes sl :: "('f::field, 'r) scalar_lib" and lib :: "('f, 'g::ab_group_add, 'sk, 'pk, 'sig) pedersen_lib"
  assumes "pedersen_self_ok (sl, lib, N, m) self" "block_fits sl N m b"
  shows "\<exists>self' w. net_start (pedersen_strategy sl lib N) self b k n rng
      = Inr (self', length (block_write (sl_wire sl) b), w) \<and>
    length (nw_nodes w) = Suc n \<and> bd_is_complete (pn_decoder (nw_nodes w ! 0)) \<and>
    (\<forall>r. net_reach (pedersen_strategy sl lib N) self' w r \<longrightarrow>
      (\<exists>w'. r = Inr w' \<and> (\<forall>s \<in> set (nw_nodes w'). bd_is_complete (pn_decoder s) \<longrightarrow>
        pedersen_decode sl N self' s (length (block_write (sl_wire sl) b)) = Inr b)))"
  using pedersen_strategy.network_safe [where c = "(sl, lib, N, m)" and b = b, of self k n rng] assms
  by (simp add: pedersen_strategy_def pedersen_can_decode_def)

theorem pedersen_network_safe_witness:
  "\<exists>self' w. net_start (pedersen_strategy sl_ex pedersen_ex 2) pedersen_self_ex (block_ex 7) 3 4 1
      = Inr (self', length (block_write (sl_wire sl_ex) (block_ex 7)), w) \<and>
    length (nw_nodes w) = Suc 4 \<and> bd_is_complete (pn_decoder (nw_nodes w ! 0)) \<and>
    (\<forall>r. net_reach (pedersen_strategy sl_ex pedersen_ex 2) self' w r \<longrightarrow>
      (\<exists>w'. r = Inr w' \<and> (\<forall>s \<in> set (nw_nodes w'). bd_is_complete (pn_decoder s) \<longrightarrow>
        pedersen_decode sl_ex 2 self' s (length (block_write (sl_wire sl_ex) (block_ex 7))) = Inr (block_ex 7))))"
  by (rule pedersen_network_safe [OF pedersen_self_ex_ok block_ex_fits])

text \<open>C5: RLNC + BFKW is safe in every network, in the same sense.\<close>

theorem bfkw_network_safe:
  fixes sl :: "('f::field, 'r) scalar_lib" and lib :: "('f, 'g1::ab_group_add, 'g2::ab_group_add) bfkw_lib"
  assumes "bfkw_self_ok (keccak256, sl, lib, N, m) self" "block_fits sl N m b"
  shows "\<exists>self' w. net_start (bfkw_strategy keccak256 sl lib N) self b k n rng
      = Inr (self', length (block_write (sl_wire sl) b), w) \<and>
    length (nw_nodes w) = Suc n \<and> bd_is_complete (bn_decoder (nw_nodes w ! 0)) \<and>
    (\<forall>r. net_reach (bfkw_strategy keccak256 sl lib N) self' w r \<longrightarrow>
      (\<exists>w'. r = Inr w' \<and> (\<forall>s \<in> set (nw_nodes w'). bd_is_complete (bn_decoder s) \<longrightarrow>
        bfkw_decode sl N self' s (length (block_write (sl_wire sl) b)) = Inr b)))"
  using bfkw_strategy.network_safe [where c = "(keccak256, sl, lib, N, m)" and b = b, of self k n rng] assms
  by (simp add: bfkw_strategy_def bfkw_can_decode_def)

theorem bfkw_network_safe_witness:
  "\<exists>self' w. net_start (bfkw_strategy (\<lambda>bs. bs) sl_ex bfkw_ex 2) bfkw_self_ex (block_ex 7) 3 4 1
      = Inr (self', length (block_write (sl_wire sl_ex) (block_ex 7)), w) \<and>
    length (nw_nodes w) = Suc 4 \<and> bd_is_complete (bn_decoder (nw_nodes w ! 0)) \<and>
    (\<forall>r. net_reach (bfkw_strategy (\<lambda>bs. bs) sl_ex bfkw_ex 2) self' w r \<longrightarrow>
      (\<exists>w'. r = Inr w' \<and> (\<forall>s \<in> set (nw_nodes w'). bd_is_complete (bn_decoder s) \<longrightarrow>
        bfkw_decode sl_ex 2 self' s (length (block_write (sl_wire sl_ex) (block_ex 7))) = Inr (block_ex 7))))"
  by (rule bfkw_network_safe [OF bfkw_self_ex_ok block_ex_fits])

section \<open>The simulation\<close>

lemma baseline_run_ex:
  "\<exists>self topo st st' m. sim_start lib_ex (mech_ex (baseline_strategy wire_ex) ()) (block_ex 7) 1
      = Inr (self, topo, 104, st) \<and>
    event_loop pop_ex (mech_ex (baseline_strategy wire_ex) ()) self topo st = Some (Inr st') \<and>
    sim_run lib_ex pop_ex (mech_ex (baseline_strategy wire_ex) ()) (block_ex 7) 1 = Some (Inr m)"
  using baseline.sim_honest [where c = wire_ex and lb = lib_ex and b = "block_ex 7" and rng = 1 and n = 5
      and D = 2 and ?self0.0 = "()" and mc = "mech_ex (baseline_strategy wire_ex) ()",
      OF wire_ex_ok block_ex_readable pop_ex_ok _ _ _ _ lib_ex_perm _ _ mech_ex_delays]
  by (simp add: mech_ex_def) blast


text \<open>
  C19: A simulation run is a run of the abstract network. For any strategy and any state of the
  engine, what the event loop reaches is reachable in the network that starts with the same node
  states and with the queued packets as the packets sent.
\<close>

theorem simulation_refines_network:
  assumes "pop_ok pop" and "event_loop pop mc self topo st = Some (Inr st')"
  shows "\<exists>w'. net_reach (mc_strategy mc) self
      \<lparr>nw_nodes = ss_states st, nw_sent = ev_packet ` set (ss_queue st)\<rparr> (Inr w') \<and>
    nw_nodes w' = ss_states st'"
  using event_loop_refines [OF assms, of "\<lparr>nw_nodes = ss_states st, nw_sent = ev_packet ` set (ss_queue st)\<rparr>"]
  by (auto simp: sim_refines_def)

theorem simulation_refines_network_witness:
  "\<exists>self topo st st' w'. sim_start lib_ex (mech_ex (baseline_strategy wire_ex) ()) (block_ex 7) 1
      = Inr (self, topo, 104, st) \<and>
    event_loop pop_ex (mech_ex (baseline_strategy wire_ex) ()) self topo st = Some (Inr st') \<and>
    net_reach (mc_strategy (mech_ex (baseline_strategy wire_ex) ())) self
      \<lparr>nw_nodes = ss_states st, nw_sent = ev_packet ` set (ss_queue st)\<rparr> (Inr w') \<and>
    nw_nodes w' = ss_states st'"
proof -
  from baseline_run_ex obtain self topo st st' where
    start: "sim_start lib_ex (mech_ex (baseline_strategy wire_ex) ()) (block_ex 7) 1 = Inr (self, topo, 104, st)"
    and loop: "event_loop pop_ex (mech_ex (baseline_strategy wire_ex) ()) self topo st = Some (Inr st')"
    by (elim exE conjE) (rule that)
  from simulation_refines_network [OF pop_ex_ok loop] start loop show ?thesis by blast
qed

text \<open>
  C12: Traffic is conserved. Whatever the strategy, when a run ends without a panic the bytes uploaded
  by all nodes are the bytes downloaded by all nodes (both counted in 64 bits), and the reported total
  is that number.
\<close>

theorem traffic_conserved:
  assumes "sim_run lb pop mc b rng = Some (Inr m)"
  shows "sm_total_bytes_sent m = sum_list (sm_per_node_upload m) \<and>
    sum_list (sm_per_node_upload m) = sum_list (sm_per_node_download m)"
proof -
  from assms obtain self topo byte_len st st' where
    start: "sim_start lb mc b rng = Inr (self, topo, byte_len, st)"
    and loop: "event_loop pop mc self topo st = Some (Inr st')"
    and m: "m = sim_metrics_of mc byte_len st'"
    by (auto simp: sim_run_def split: sum.splits option.splits)
  have "balanced st" by (rule sim_start_balanced [OF start])
  from event_loop_inv [where J = balanced, OF loop this] have "balanced st'"
    using handle_event_balanced by (fastforce simp: balanced_def)
  with m show ?thesis by (simp add: sim_metrics_of_def balanced_def Let_def)
qed

theorem traffic_conserved_witness:
  "\<exists>m. sim_run lib_ex pop_ex (mech_ex (baseline_strategy wire_ex) ()) (block_ex 7) 1 = Some (Inr m) \<and>
    sm_total_bytes_sent m = sum_list (sm_per_node_upload m) \<and>
    sum_list (sm_per_node_upload m) = sum_list (sm_per_node_download m)"
proof -
  from baseline_run_ex obtain m where
    "sim_run lib_ex pop_ex (mech_ex (baseline_strategy wire_ex) ()) (block_ex 7) 1 = Some (Inr m)"
    by (elim exE conjE) (rule that)
  with traffic_conserved [OF this] show ?thesis by blast
qed

text \<open>
  C24: Runs are well typed. For an arbitrary strategy, every index the simulator uses is in range: a run
  that panics does so because of its checked parameters (no nodes, the degree), because a duration
  overflows, or because the strategy itself panics. A run that ends reports exactly one upload, one
  download and one decode time for every node.
\<close>

theorem simulation_well_typed:
  fixes S :: "('self, 's, 'p, 'r) strategy"
  assumes "\<And>xs r. mset (fst (lb_shuffle lb xs r)) = mset xs" "\<And>xs k r. mset (fst (lb_partial_shuffle lb xs k r)) = mset xs"
    and "pop_ok pop" and "mc_strategy mc = S" and "sim_run lb pop mc b rng = Some result"
  shows "case result of
      Inl e \<Rightarrow> e \<in> {NoNodes, DegreeTooLarge, ArithmeticOverflow, BadDuration, DurationOverflow} \<or>
        (\<exists>self b k rng. st_init_proposer S self b k rng = Inl e) \<or> (\<exists>self. st_init_receiver S self = Inl e) \<or>
        (\<exists>self s p. st_receive S self s p = Inl e) \<or> (\<exists>self s k rng. st_forward S self s k rng = Inl e)
    | Inr metrics \<Rightarrow> length (sm_per_node_upload metrics) = mc_num_nodes mc \<and>
        length (sm_per_node_download metrics) = mc_num_nodes mc \<and>
        length (sm_decode_times metrics) = mc_num_nodes mc"
proof -
  let ?Q = "\<lambda>e. setup_panic e \<or> engine_panic S e"
  have start: "run_ok ?Q (\<lambda>(self, topo, byte_len, st). mesh_typed (mc_num_nodes mc) topo \<and> sim_typed (mc_num_nodes mc) st)
      (sim_start lb mc b rng)"
    using sim_start_typed [where lb = lb and mc = mc and b = b and rng = rng, OF assms(1,2)] assms(4) by simp
  have "run_ok ?Q (\<lambda>metrics. length (sm_per_node_upload metrics) = mc_num_nodes mc \<and>
      length (sm_per_node_download metrics) = mc_num_nodes mc \<and> length (sm_decode_times metrics) = mc_num_nodes mc) result"
  proof (cases "sim_start lb mc b rng")
    case (Inr x)
    obtain self topo byte_len st where x: "x = (self, topo, byte_len, st)" by (cases x) simp
    from start have "mesh_typed (mc_num_nodes mc) topo" "sim_typed (mc_num_nodes mc) st" by (simp_all add: Inr x)
    from event_loop_typed [where mc = mc, OF assms(3) this(2,1)] assms(4,5) Inr show ?thesis
      by (fastforce simp: sim_run_def x sim_metrics_of_def sim_typed_def Let_def split: option.splits sum.splits)
  qed (use start assms(5) in \<open>auto simp: sim_run_def\<close>)
  then show ?thesis
    by (auto simp: run_ok_def setup_panic_def time_panic_def strategy_panic_def split: sum.splits)
qed

theorem simulation_well_typed_witness:
  "(\<exists>m. sim_run lib_ex pop_ex (mech_ex (baseline_strategy wire_ex) ()) (block_ex 7) 1 = Some (Inr m) \<and>
      length (sm_per_node_upload m) = 5 \<and> length (sm_per_node_download m) = 5 \<and> length (sm_decode_times m) = 5)"
proof -
  from baseline_run_ex obtain m where
    "sim_run lib_ex pop_ex (mech_ex (baseline_strategy wire_ex) ()) (block_ex 7) 1 = Some (Inr m)"
    by (elim exE conjE) (rule that)
  with simulation_well_typed [OF lib_ex_perm pop_ex_ok refl this] show ?thesis
    by (auto simp: mech_ex_def)
qed

text \<open>
  C21: The simulated baseline is a breadth-first search. With any positive degree below the number of
  nodes, a heap that pops a least event, permuting shuffles, a block the codec accepts and delays that
  fit a \<open>Duration\<close> (which only a positive bandwidth gives), the simulation of the baseline ends without a panic, every node has decoded, and
  the time it reports for a node is the least number of hops from the proposer times the time of one
  transmission.
\<close>

theorem baseline_is_breadth_first:
  assumes "wire_ok wc" "readable b" "pop_ok pop"
    and "mc_strategy mc = baseline_strategy wc" "mc_mesh_degree mc < mc_num_nodes mc"
      "0 < mc_mesh_degree mc \<or> mc_num_nodes mc = 1"
    and "\<And>xs r. mset (fst (lb_shuffle lb xs r)) = mset xs"
      "\<And>xs k r. mset (fst (lb_partial_shuffle lb xs k r)) = mset xs"
    and "delays_fit mc (length (block_write wc b)) 1 delta"
  shows "\<exists>topo rng' m. random_mesh (lb_shuffle lb) (lb_partial_shuffle lb) (mc_num_nodes mc)
      (mc_mesh_degree mc) rng = Inr (topo, rng') \<and>
    sim_run lb pop mc b rng = Some (Inr m) \<and> sm_nodes_decoded m = mc_num_nodes mc \<and>
    sm_decode_times m = map (\<lambda>i. Some ((LEAST k. (0, i) \<in> mesh_edges topo ^^ k) * delta)) [0..<mc_num_nodes mc]"
  unfolding hops_def [symmetric]
proof (rule baseline.sim_breadth_first [where c = wc, OF assms(1-4) refl refl refl assms(7,8,5,6,9)])
  show "st_forward_condition (baseline_strategy wc) = AfterDecode" by (simp add: baseline_strategy_def)
  show "st_can_decode (baseline_strategy wc) self s'"
    if "st_receive (baseline_strategy wc) self s p = Inr (s', Inr r)" for self s p s' r
    using that by (auto simp: baseline_strategy_def baseline_receive_def baseline_can_decode_def split: if_splits)
qed

theorem baseline_is_breadth_first_witness:
  "\<exists>topo rng' m. random_mesh (lb_shuffle lib_ex) (lb_partial_shuffle lib_ex) 5 2 1 = Inr (topo, rng') \<and>
    sim_run lib_ex pop_ex (mech_ex (baseline_strategy wire_ex) ()) (block_ex 7) 1 = Some (Inr m) \<and>
    sm_nodes_decoded m = 5 \<and>
    sm_decode_times m = map (\<lambda>i. Some ((LEAST k. (0, i) \<in> mesh_edges topo ^^ k) *
      (100 + 104 * nanos_per_sec))) [0..<5]"
  using baseline_is_breadth_first [where mc = "mech_ex (baseline_strategy wire_ex) ()" and lb = lib_ex and rng = 1,
      OF wire_ex_ok block_ex_readable pop_ex_ok _ _ _ lib_ex_perm mech_ex_delays, of 7]
  by (simp add: mech_ex_def)

text \<open>
  C37: Simulations of RLNC + Pedersen end well. For a block that fits, a positive degree below the number
  of nodes, a heap that pops a least event, permuting shuffles and delays that fit a \<open>Duration\<close> (which only
  a positive bandwidth gives), the run terminates although the event loop is unbounded, nobody panics, no
  event is left, every node with a decode time decodes to the proposer's block, and none decodes before
  the time a packet needs to reach it.
\<close>

theorem pedersen_simulation:
  fixes sl :: "('f::field, 'r) scalar_lib" and lib :: "('f, 'g::ab_group_add, 'sk, 'pk, 'sig) pedersen_lib"
  assumes "pedersen_self_ok (sl, lib, N, m) (mc_self mc)" "block_fits sl N m b" "pop_ok pop"
    and "mc_strategy mc = pedersen_strategy sl lib N" "mc_mesh_degree mc < mc_num_nodes mc"
      "0 < mc_mesh_degree mc \<or> mc_num_nodes mc = 1"
    and "\<And>xs r. mset (fst (lb_shuffle lb xs r)) = mset xs"
      "\<And>xs k r. mset (fst (lb_partial_shuffle lb xs k r)) = mset xs"
    and "delays_fit mc (32 * m + 32 * N + cd_size (pl_gcodec lib) * N + cd_size (pl_scodec lib)) N delta"
  shows "\<exists>self topo byte_len st st'. sim_start lb mc b rng = Inr (self, topo, byte_len, st) \<and>
    event_loop pop mc self topo st = Some (Inr st') \<and> ss_queue st' = [] \<and>
    sim_run lb pop mc b rng = Some (Inr (sim_metrics_of mc byte_len st')) \<and>
    (\<forall>i < mc_num_nodes mc. \<forall>t. ss_decode_times st' ! i = Some t \<longrightarrow>
      (LEAST k. (0, i) \<in> mesh_edges topo ^^ k) * delta \<le> t \<and>
      pedersen_decode sl N self (ss_states st' ! i) byte_len = Inr b)"
proof -
  let ?c = "(sl, lib, N, m)"
  have "case ?c of (sl, lib, N, m) \<Rightarrow> block_fits sl N m b" using assms(2) by simp
  moreover have "mc_strategy mc = (case ?c of (sl, lib, N, m) \<Rightarrow> pedersen_strategy sl lib N)"
    using assms(4) by simp
  moreover have "delays_fit mc ((case ?c of (sl, lib, N, m) \<Rightarrow> \<lambda>b. 32 * m + 32 * N +
      cd_size (pl_gcodec lib) * N + cd_size (pl_scodec lib)) b) (case ?c of (sl, lib, N, m) \<Rightarrow> N) delta"
    using assms(9) by simp
  ultimately show ?thesis
    using pedersen_strategy.sim_honest [where c = ?c and b = b and mc = mc and rng = rng and delta = delta,
        OF assms(1) _ assms(3) _ refl refl refl assms(7,8,5,6)]
    unfolding hops_def [symmetric] by (fastforce simp: pedersen_strategy_def)
qed

theorem pedersen_simulation_witness:
  "let mc = mech_ex (pedersen_strategy sl_ex pedersen_ex 2) pedersen_self_ex in
    \<exists>self topo byte_len st st'. sim_start lib_ex mc (block_ex 7) 1 = Inr (self, topo, byte_len, st) \<and>
    event_loop pop_ex mc self topo st = Some (Inr st') \<and> ss_queue st' = [] \<and>
    sim_run lib_ex pop_ex mc (block_ex 7) 1 = Some (Inr (sim_metrics_of mc byte_len st')) \<and>
    (\<forall>i < mc_num_nodes mc. \<forall>t. ss_decode_times st' ! i = Some t \<longrightarrow>
      (LEAST k. (0, i) \<in> mesh_edges topo ^^ k) * (100 + (32 * 52 + 32 * 2 + cd_size (pl_gcodec pedersen_ex) * 2
        + cd_size (pl_scodec pedersen_ex)) * nanos_per_sec) \<le> t \<and>
      pedersen_decode sl_ex 2 self (ss_states st' ! i) byte_len = Inr (block_ex 7))"
  unfolding Let_def
  by (rule pedersen_simulation [OF _ block_ex_fits pop_ex_ok _ _ _ lib_ex_perm mech_ex_delays])
     (use pedersen_self_ex_ok in \<open>simp_all add: mech_ex_def pedersen_ex_def gf_codec_def\<close>)

text \<open>Simulations of RLNC + BFKW end well, in the same sense.\<close>

theorem bfkw_simulation:
  fixes sl :: "('f::field, 'r) scalar_lib" and lib :: "('f, 'g1::ab_group_add, 'g2::ab_group_add) bfkw_lib"
  assumes "bfkw_self_ok (keccak256, sl, lib, N, m) (mc_self mc)" "block_fits sl N m b" "pop_ok pop"
    and "mc_strategy mc = bfkw_strategy keccak256 sl lib N" "mc_mesh_degree mc < mc_num_nodes mc"
      "0 < mc_mesh_degree mc \<or> mc_num_nodes mc = 1"
    and "\<And>xs r. mset (fst (lb_shuffle lb xs r)) = mset xs"
      "\<And>xs k r. mset (fst (lb_partial_shuffle lb xs k r)) = mset xs"
    and "delays_fit mc (32 * m + 32 * N + cd_size (bf_g2_codec lib)) N delta"
  shows "\<exists>self topo byte_len st st'. sim_start lb mc b rng = Inr (self, topo, byte_len, st) \<and>
    event_loop pop mc self topo st = Some (Inr st') \<and> ss_queue st' = [] \<and>
    sim_run lb pop mc b rng = Some (Inr (sim_metrics_of mc byte_len st')) \<and>
    (\<forall>i < mc_num_nodes mc. \<forall>t. ss_decode_times st' ! i = Some t \<longrightarrow>
      (LEAST k. (0, i) \<in> mesh_edges topo ^^ k) * delta \<le> t \<and>
      bfkw_decode sl N self (ss_states st' ! i) byte_len = Inr b)"
proof -
  let ?c = "(keccak256, sl, lib, N, m)"
  have "case ?c of (keccak256, sl, lib, N, m) \<Rightarrow> block_fits sl N m b" using assms(2) by simp
  moreover have "mc_strategy mc = (case ?c of (keccak256, sl, lib, N, m) \<Rightarrow> bfkw_strategy keccak256 sl lib N)"
    using assms(4) by simp
  moreover have "delays_fit mc ((case ?c of (keccak256, sl, lib, N, m) \<Rightarrow> \<lambda>b. 32 * m + 32 * N +
      cd_size (bf_g2_codec lib)) b) (case ?c of (keccak256, sl, lib, N, m) \<Rightarrow> N) delta"
    using assms(9) by simp
  ultimately show ?thesis
    using bfkw_strategy.sim_honest [where c = ?c and b = b and mc = mc and rng = rng and delta = delta,
        OF assms(1) _ assms(3) _ refl refl refl assms(7,8,5,6)]
    unfolding hops_def [symmetric] by (fastforce simp: bfkw_strategy_def)
qed

theorem bfkw_simulation_witness:
  "let mc = mech_ex (bfkw_strategy (\<lambda>bs. bs) sl_ex bfkw_ex 2) bfkw_self_ex in
    \<exists>self topo byte_len st st'. sim_start lib_ex mc (block_ex 7) 1 = Inr (self, topo, byte_len, st) \<and>
    event_loop pop_ex mc self topo st = Some (Inr st') \<and> ss_queue st' = [] \<and>
    sim_run lib_ex pop_ex mc (block_ex 7) 1 = Some (Inr (sim_metrics_of mc byte_len st')) \<and>
    (\<forall>i < mc_num_nodes mc. \<forall>t. ss_decode_times st' ! i = Some t \<longrightarrow>
      (LEAST k. (0, i) \<in> mesh_edges topo ^^ k) * (100 + (32 * 52 + 32 * 2 + cd_size (bf_g2_codec bfkw_ex))
        * nanos_per_sec) \<le> t \<and>
      bfkw_decode sl_ex 2 self (ss_states st' ! i) byte_len = Inr (block_ex 7))"
  unfolding Let_def
  by (rule bfkw_simulation [OF _ block_ex_fits pop_ex_ok _ _ _ lib_ex_perm mech_ex_delays])
     (use bfkw_self_ex_ok in \<open>simp_all add: mech_ex_def bfkw_ex_def gf_codec_def\<close>)

text \<open>
  C39: The reported percentiles are sound. For any final state the report orders \<open>p50\<close>, \<open>p99\<close> and the
  propagation time, each of them is a decode time of some node (or zero when no node decoded), no node
  decoded after the propagation time, and at least half of the decoded nodes had decoded by \<open>p50\<close>,
  in spite of the indices being computed in floating point.
\<close>

theorem report_percentiles:
  assumes "length (ss_decode_times st) \<le> 2 ^ 53"
  shows "let m = sim_metrics_of mc byte_len st; decoded = map the (filter (\<lambda>t. t \<noteq> None) (sm_decode_times m)) in
    sm_p50_time m \<le> sm_p99_time m \<and> sm_p99_time m \<le> sm_propagation_time m \<and>
    (if decoded = [] then sm_propagation_time m = 0
     else {sm_p50_time m, sm_p99_time m, sm_propagation_time m} \<subseteq> set decoded) \<and>
    (\<forall>t \<in> set decoded. t \<le> sm_propagation_time m) \<and>
    sm_nodes_decoded m \<le> 2 * length (filter (\<lambda>t. t \<le> sm_p50_time m) decoded)"
proof (cases "filter (\<lambda>t. t \<noteq> None) (ss_decode_times st) = []")
  case True
  show ?thesis unfolding sim_metrics_of_def Let_def sim_metrics.simps True by (simp add: time_at_def)
next
  case False
  let ?dec = "map the (filter (\<lambda>t. t \<noteq> None) (ss_decode_times st))"
  define ts where "ts = sort ?dec"
  let ?i = "percentile_idx (length ts) (1 / 2)" and ?j = "percentile_idx (length ts) (f64_round (99 / 100))"
  have ts: "sorted ts" "set ts = set ?dec" "mset ts = mset ?dec" "length ts = length ?dec"
    by (simp_all add: ts_def)
  with False have len: "0 < length ts" by simp
  then have ne: "ts \<noteq> []" by simp
  note ij = percentile_indices [OF len]
  have "length ts \<le> length (ss_decode_times st)" unfolding ts(4) by simp
  then have half: "?i = (length ts - 1) div 2" using assms by (intro percentile_idx_half) simp
  have last: "last ts = ts ! (length ts - 1)" using ne by (rule last_conv_nth)
  have at: "time_at ts ?i = ts ! ?i" "time_at ts ?j = ts ! ?j" using ij by (simp_all add: time_at_def)
  have "time_at ts ?i \<le> time_at ts ?j" using ts(1) ij by (intro time_at_sorted)
  moreover have "ts ! ?j \<le> last ts" unfolding last using ts(1) ij by (intro sorted_nth_mono) simp_all
  moreover have "{ts ! ?i, ts ! ?j, last ts} \<subseteq> set ts" using ij ne by simp
  moreover have "\<forall>t \<in> set ts. t \<le> last ts"
    unfolding last using ts(1) by (auto simp: in_set_conv_nth intro!: sorted_nth_mono)
  moreover have "length ts \<le> 2 * length (filter (\<lambda>t. t \<le> ts ! ?i) ?dec)"
  proof -
    have "length (filter (\<lambda>t. t \<le> ts ! ?i) ?dec) = length (filter (\<lambda>t. t \<le> ts ! ?i) ts)"
      using ts(3) by (metis mset_filter size_mset)
    moreover have "?i < length ts" using ij by simp
    then have "Suc ?i \<le> length (filter (\<lambda>t. t \<le> ts ! ?i) ts)" by (rule sorted_prefix_count [OF ts(1)])
    moreover have "length ts \<le> 2 * Suc ((length ts - 1) div 2)" by presburger
    ultimately show ?thesis using half by linarith
  qed
  moreover have "length (filter (\<lambda>t. t \<noteq> None) (ss_decode_times st)) = length ts" using ts(4) by simp
  ultimately show ?thesis
    using False ne at ts(2) unfolding sim_metrics_of_def Let_def ts_def [symmetric] by simp
qed

theorem report_percentiles_witness:
  "let m = sim_metrics_of (mech_ex (baseline_strategy wire_ex) ()) 104
      \<lparr>ss_states = [\<lparr>bn_block_bytes = None\<rparr>], ss_upload = [0, 0, 0], ss_download = [0, 0, 0],
       ss_decode_times = [Some 0, None, Some 8], ss_has_forwarded = [True, True, True], ss_total_packets = 1,
       ss_useful_packets = 1, ss_redundant_packets = 0, ss_queue = [], ss_rng = 1\<rparr>;
     decoded = map the (filter (\<lambda>t. t \<noteq> None) (sm_decode_times m)) in
    sm_p50_time m \<le> sm_p99_time m \<and> sm_p99_time m \<le> sm_propagation_time m \<and>
    (if decoded = [] then sm_propagation_time m = 0
     else {sm_p50_time m, sm_p99_time m, sm_propagation_time m} \<subseteq> set decoded) \<and>
    (\<forall>t \<in> set decoded. t \<le> sm_propagation_time m) \<and>
    sm_nodes_decoded m \<le> 2 * length (filter (\<lambda>t. t \<le> sm_p50_time m) decoded)"
  by (rule report_percentiles) simp

end
