(* ===== verification/Text.thy ===== *)
theory Text
  imports Floats "HOL-Library.Char_ord"
begin

text \<open>
  The parts of \<open>core::fmt\<close> and \<open>core::str\<close> the sources use: decimal numbers, \<open>{:.p}\<close>, padding to a
  width, \<open>parse\<close> of unsigned numbers, \<open>strip_prefix\<close>, \<open>rsplit_once\<close>, \<open>join\<close>.
\<close>

section \<open>Printing\<close>

definition nl :: string where
  "nl = [char_of (10 :: nat)]"

definition digit :: "nat \<Rightarrow> char" where
  "digit d = char_of (48 + d)"

function show_nat :: "nat \<Rightarrow> string" where
  "show_nat n = (if n < 10 then [] else show_nat (n div 10)) @ [digit (n mod 10)]"
  by pat_completeness auto
termination by (relation "measure id") auto

declare show_nat.simps [simp del]

text \<open>\<open>{:<w}\<close>.\<close>

definition pad_right :: "nat \<Rightarrow> string \<Rightarrow> string" where
  "pad_right w s = s @ replicate (w - length s) CHR '' ''"

text \<open>
  \<open>{:.p}\<close> of a number that is not negative: its exact value, rounded to \<open>p\<close> decimals, ties to even.
\<close>

definition fmt_fixed :: "nat \<Rightarrow> f64 \<Rightarrow> string" where
  "fmt_fixed p x =
     (let k = nat (round_half_even (x * 10 ^ p)); frac = show_nat (k mod 10 ^ p) in
      show_nat (k div 10 ^ p) @
      (if p = 0 then [] else ''.'' @ replicate (p - length frac) CHR ''0'' @ frac))"

fun join :: "string \<Rightarrow> string list \<Rightarrow> string" where
  "join sep [] = []"
| "join sep [x] = x"
| "join sep (x # xs) = x @ sep @ join sep xs"

section \<open>Parsing\<close>

definition parse_digit :: "char \<Rightarrow> nat option" where
  "parse_digit c = (let k = of_char c in if 48 \<le> k \<and> k \<le> 57 then Some (k - 48) else None)"

fun parse_digits :: "nat \<Rightarrow> string \<Rightarrow> nat option" where
  "parse_digits acc [] = Some acc"
| "parse_digits acc (c # cs) =
     (case parse_digit c of None \<Rightarrow> None | Some d \<Rightarrow> parse_digits (10 * acc + d) cs)"

text \<open>\<open>str::parse\<close> for an unsigned type with largest value \<open>mx\<close>; a leading plus sign is accepted.\<close>

definition parse_unsigned :: "nat \<Rightarrow> string \<Rightarrow> nat option" where
  "parse_unsigned mx s =
     (let ds = (case s of [] \<Rightarrow> [] | c # cs \<Rightarrow> if c = CHR ''+'' then cs else s) in
      if ds = [] then None
      else case parse_digits 0 ds of None \<Rightarrow> None | Some n \<Rightarrow> if n \<le> mx then Some n else None)"

text \<open>
  \<open>str::parse\<close> for \<open>f64\<close>: an optional sign, digits with an optional point, an optional exponent; the
  number nearest to the decimal. The words for infinity and NaN, and decimals beyond the largest
  number, are left out, as \<open>Floats\<close> says.
\<close>

definition split_first :: "(char \<Rightarrow> bool) \<Rightarrow> string \<Rightarrow> string \<times> string option" where
  "split_first p s =
     (takeWhile (\<lambda>c. \<not> p c) s, case dropWhile (\<lambda>c. \<not> p c) s of [] \<Rightarrow> None | c # r \<Rightarrow> Some r)"

definition parse_sign :: "string \<Rightarrow> int \<times> string" where
  "parse_sign s =
     (case s of [] \<Rightarrow> (1, s)
      | c # r \<Rightarrow> if c = CHR ''-'' then (- 1, r) else if c = CHR ''+'' then (1, r) else (1, s))"

definition parse_exponent :: "string option \<Rightarrow> int option" where
  "parse_exponent e =
     (case e of None \<Rightarrow> Some 0
      | Some s \<Rightarrow> (let (sign, ds) = parse_sign s in
          if ds = [] then None else map_option (\<lambda>n. sign * int n) (parse_digits 0 ds)))"

definition parse_f64 :: "string \<Rightarrow> f64 option" where
  "parse_f64 s =
     (let (sign, body) = parse_sign s;
          (mantissa, exp) = split_first (\<lambda>c. c = CHR ''e'' \<or> c = CHR ''E'') body;
          (whole, frac) = split_first (\<lambda>c. c = CHR ''.'') mantissa;
          frac = (case frac of None \<Rightarrow> [] | Some f \<Rightarrow> f) in
      if whole = [] \<and> frac = [] then None
      else case parse_digits 0 (whole @ frac) of None \<Rightarrow> None
        | Some n \<Rightarrow> map_option (\<lambda>e. f64_round (of_int (sign * int n) * 10 powi (e - int (length frac))))
            (parse_exponent exp))"

definition strip_prefix :: "string \<Rightarrow> string \<Rightarrow> string option" where
  "strip_prefix p s = (if take (length p) s = p then Some (drop (length p) s) else None)"

definition rsplit_once :: "char \<Rightarrow> string \<Rightarrow> (string \<times> string) option" where
  "rsplit_once c s =
     (if c \<in> set s
      then let tail = takeWhile (\<lambda>x. x \<noteq> c) (rev s) in
           Some (rev (drop (Suc (length tail)) (rev s)), rev tail)
      else None)"

section \<open>Facts\<close>

lemma digit_parse: "d < 10 \<Longrightarrow> parse_digit (digit d) = Some d"
  by (simp add: parse_digit_def digit_def Let_def)

lemma parse_digits_append:
  "parse_digits acc (xs @ ys) = (case parse_digits acc xs of None \<Rightarrow> None | Some a \<Rightarrow> parse_digits a ys)"
  by (induction xs arbitrary: acc) (auto split: option.splits)

lemma parse_digits_show: "parse_digits 0 (show_nat n) = Some n"
proof (induction n rule: show_nat.induct)
  case (1 n)
  show ?case
    by (subst show_nat.simps) (use 1 in \<open>auto simp: parse_digits_append digit_parse\<close>)
qed

lemma show_nat_not_Nil [simp]: "show_nat n \<noteq> []"
  by (subst show_nat.simps) simp

lemma show_nat_digits: "c \<in> set (show_nat n) \<Longrightarrow> \<exists>d < 10. c = digit d"
proof (induction n rule: show_nat.induct)
  case (1 n)
  from 1(2) have "c = digit (n mod 10) \<or> \<not> n < 10 \<and> c \<in> set (show_nat (n div 10))"
    by (subst (asm) show_nat.simps) (auto split: if_splits)
  with 1(1) show ?case by (metis mod_less_divisor zero_less_numeral)
qed

lemma digit_inj: "d < 10 \<Longrightarrow> e < 10 \<Longrightarrow> digit d = digit e \<longleftrightarrow> d = e"
  by (metis digit_parse option.inject)

lemma show_nat_inj [simp]: "show_nat m = show_nat n \<longleftrightarrow> m = n"
  by (metis parse_digits_show option.inject)

lemma show_nat_no:
  assumes "parse_digit c = None"
  shows "c \<notin> set (show_nat n)"
proof
  assume "c \<in> set (show_nat n)"
  then obtain d where "d < 10" "c = digit d" by (auto dest: show_nat_digits)
  with assms show False by (simp add: digit_parse)
qed

lemma parse_unsigned_show [simp]: "parse_unsigned mx (show_nat n) = (if n \<le> mx then Some n else None)"
proof -
  obtain c cs where s: "show_nat n = c # cs" by (cases "show_nat n") simp_all
  have "CHR ''+'' \<notin> set (show_nat n)" by (rule show_nat_no) (simp add: parse_digit_def)
  with s have "c \<noteq> CHR ''+''" by auto
  with parse_digits_show [of n] show ?thesis by (simp add: parse_unsigned_def s)
qed

lemma strip_prefix_append [simp]: "strip_prefix p (p @ s) = Some s"
  by (simp add: strip_prefix_def)

lemma rsplit_once_append:
  assumes "c \<notin> set b"
  shows "rsplit_once c (a @ c # b) = Some (a, b)"
proof -
  have "takeWhile (\<lambda>x. x \<noteq> c) (rev b @ c # rev a) = rev b"
    using assms by (subst takeWhile_append2) auto
  then show ?thesis by (simp add: rsplit_once_def Let_def)
qed

lemma pad_right_length: "length s \<le> w \<Longrightarrow> length (pad_right w s) = w"
  by (simp add: pad_right_def)

end
