(* ===== verification/Sim_Report.thy ===== *)
theory Sim_Report
  imports Engine Text
begin

text \<open>
  \<open>crates/sim/src/metrics.rs\<close>: the printed report of one run, the accumulator over several blocks
  with its means, and the comparison table. The text handed to the logger is the result of \<open>compare\<close>.
\<close>

section \<open>One run\<close>

definition duration_ms :: "nat \<Rightarrow> f64" where
  "duration_ms d = f64_mult (duration_as_secs_f64 d) 1000"

definition fmt_mb :: "f64 \<Rightarrow> string" where
  "fmt_mb x = fmt_fixed 2 (f64_div x 1000000)"

text \<open>\<open>Display\<close> of \<open>SimMetrics\<close>.\<close>

definition sim_metrics_fmt :: "sim_metrics \<Rightarrow> string" where
  "sim_metrics_fmt m =
     sm_strategy m @ '' (D='' @ show_nat (sm_mesh_degree m) @ '')'' @ nl @
     ''  Nodes decoded:    '' @ show_nat (sm_nodes_decoded m) @ ''/'' @ show_nat (sm_num_nodes m) @ nl @
     ''  Block size:       '' @ show_nat (sm_block_size m) @ '' bytes'' @ nl @
     ''  Total BW:         '' @ fmt_mb (f64_of_nat (unat (sm_total_bytes_sent m))) @ '' MB'' @ nl @
     ''  Useful BW:        '' @ fmt_mb (f64_of_nat (unat (sm_useful_bytes m))) @ '' MB'' @ nl @
     ''  Redundancy:       '' @ fmt_fixed 2 (sm_redundancy_ratio m) @ ''x'' @ nl @
     ''  Propagation:      '' @ fmt_fixed 1 (duration_ms (sm_propagation_time m)) @ '' ms'' @ nl @
     ''  p50:              '' @ fmt_fixed 1 (duration_ms (sm_p50_time m)) @ '' ms'' @ nl @
     ''  p99:              '' @ fmt_fixed 1 (duration_ms (sm_p99_time m)) @ '' ms'' @ nl @
     ''  Packets:          '' @ show_nat (unat (sm_total_packets m)) @ '' total, '' @
       show_nat (unat (sm_useful_packets m)) @ '' useful, '' @
       show_nat (unat (sm_redundant_packets m)) @ '' redundant'' @ nl @
     ''  Mean upload:      '' @ fmt_mb (sm_mean_upload m) @ '' MB'' @ nl @
     ''  Max upload:       '' @ fmt_mb (f64_of_nat (unat (sm_max_upload m))) @ '' MB''"

section \<open>Several blocks\<close>

record cumulative_metrics =
  cm_name :: string
  cm_blocks :: "sim_metrics list"

definition cm_new :: "string \<Rightarrow> cumulative_metrics" where
  "cm_new name = \<lparr>cm_name = name, cm_blocks = []\<rparr>"

definition cm_accumulate :: "sim_metrics \<Rightarrow> cumulative_metrics \<Rightarrow> cumulative_metrics" where
  "cm_accumulate m cm = cm\<lparr>cm_blocks := cm_blocks cm @ [m]\<rparr>"

definition cm_total_bytes :: "cumulative_metrics \<Rightarrow> u64" where
  "cm_total_bytes cm = sum_list (map sm_total_bytes_sent (cm_blocks cm))"

definition mean_total_bytes :: "cumulative_metrics \<Rightarrow> f64" where
  "mean_total_bytes cm =
     (if cm_blocks cm = [] then 0
      else f64_div (f64_of_nat (unat (cm_total_bytes cm))) (f64_of_nat (length (cm_blocks cm))))"

definition mean_useful_bytes :: "cumulative_metrics \<Rightarrow> f64" where
  "mean_useful_bytes cm =
     (if cm_blocks cm = [] then 0
      else let sum = sum_list (map sm_useful_bytes (cm_blocks cm)) in
        f64_div (f64_of_nat (unat sum)) (f64_of_nat (length (cm_blocks cm))))"

definition mean_redundancy :: "cumulative_metrics \<Rightarrow> f64" where
  "mean_redundancy cm =
     (let useful = mean_useful_bytes cm in
      if useful = 0 then 0 else f64_div (mean_total_bytes cm) useful)"

text \<open>\<open>Sum for Duration\<close> panics on overflow; \<open>Duration / u32\<close> rounds down to nanoseconds.\<close>

definition duration_sum :: "nat list \<Rightarrow> nat run" where
  "duration_sum ds = assertR (sum_list ds < 2 ^ 64 * nanos_per_sec) DurationOverflow (Inr (sum_list ds))"

definition mean_duration :: "(sim_metrics \<Rightarrow> nat) \<Rightarrow> cumulative_metrics \<Rightarrow> nat run" where
  "mean_duration f cm =
     (if cm_blocks cm = [] then Inr 0
      else bindR (duration_sum (map f (cm_blocks cm))) (\<lambda>sum.
        assertR (length (cm_blocks cm) < 2 ^ 32) TooManyBlocks (Inr (sum div length (cm_blocks cm)))))"

definition mean_propagation :: "cumulative_metrics \<Rightarrow> nat run" where
  "mean_propagation cm = mean_duration sm_propagation_time cm"

definition mean_p99 :: "cumulative_metrics \<Rightarrow> nat run" where
  "mean_p99 cm = mean_duration sm_p99_time cm"

definition mean_nodes_decoded :: "cumulative_metrics \<Rightarrow> f64" where
  "mean_nodes_decoded cm =
     (if cm_blocks cm = [] then 0
      else let sum = sum_list (map sm_nodes_decoded (cm_blocks cm)) mod 2 ^ 64 in
        f64_div (f64_of_nat sum) (f64_of_nat (length (cm_blocks cm))))"

section \<open>The comparison table\<close>

definition format_bytes :: "f64 \<Rightarrow> string" where
  "format_bytes b =
     (if b \<ge> 1000000000 then fmt_fixed 1 (f64_div b 1000000000) @ '' GB''
      else if b \<ge> 1000000 then fmt_fixed 1 (f64_div b 1000000) @ '' MB''
      else if b \<ge> 1000 then fmt_fixed 1 (f64_div b 1000) @ '' KB''
      else fmt_fixed 0 b @ '' B'')"

text \<open>One line: a label of width 25 and one cell of width 20 for each strategy.\<close>

definition table_row :: "string \<Rightarrow> (cumulative_metrics \<Rightarrow> string run) \<Rightarrow> cumulative_metrics list \<Rightarrow> string run" where
  "table_row label cell results =
     bindR (mapR cell results) (\<lambda>cells. Inr (pad_right 25 label @ concat (map (pad_right 20) cells) @ nl))"

definition column_label :: "cumulative_metrics \<Rightarrow> string" where
  "column_label r =
     (case cm_blocks r of [] \<Rightarrow> cm_name r
      | b # _ \<Rightarrow> cm_name r @ '' (D='' @ show_nat (sm_mesh_degree b) @ '')'')"

definition decoded_cell :: "cumulative_metrics \<Rightarrow> string" where
  "decoded_cell r =
     (let total = (case cm_blocks r of [] \<Rightarrow> 0 | b # _ \<Rightarrow> sm_num_nodes b) in
      fmt_fixed 0 (mean_nodes_decoded r) @ ''/'' @ show_nat total)"

definition compare :: "cumulative_metrics list \<Rightarrow> string option run" where
  "compare results =
     (case results of
        [] \<Rightarrow> Inr None
      | r0 # _ \<Rightarrow>
          (case cm_blocks r0 of
             [] \<Rightarrow> Inr None
           | first # _ \<Rightarrow>
               (let title = nl @ ''Strategy Comparison ('' @ show_nat (sm_num_nodes first) @ '' nodes, '' @
                      show_nat (length (cm_blocks r0)) @ '' blocks of ~'' @
                      show_nat (sm_block_size first) @ '' bytes)'' @ nl;
                    double = replicate 70 (CHR ''='') @ nl;
                    single = replicate 70 (CHR ''-'') @ nl in
                bindR (table_row [] (\<lambda>r. Inr (column_label r)) results) (\<lambda>header.
                bindR (table_row ''Avg total BW/block'' (\<lambda>r. Inr (format_bytes (mean_total_bytes r))) results)
                  (\<lambda>total.
                bindR (table_row ''Avg useful BW/block'' (\<lambda>r. Inr (format_bytes (mean_useful_bytes r))) results)
                  (\<lambda>useful.
                bindR (table_row ''Redundancy ratio'' (\<lambda>r. Inr (fmt_fixed 2 (mean_redundancy r) @ ''x'')) results)
                  (\<lambda>redundancy.
                bindR (table_row ''Avg propagation''
                    (\<lambda>r. mapRes (\<lambda>d. fmt_fixed 1 (duration_ms d) @ '' ms'') (mean_propagation r)) results)
                  (\<lambda>propagation.
                bindR (table_row ''Avg p99 propagation''
                    (\<lambda>r. mapRes (\<lambda>d. fmt_fixed 1 (duration_ms d) @ '' ms'') (mean_p99 r)) results) (\<lambda>p99.
                bindR (table_row ''Avg nodes decoded'' (\<lambda>r. Inr (decoded_cell r)) results) (\<lambda>decoded.
                  Inr (Some (title @ double @ header @ single @ total @ useful @ redundancy @
                    propagation @ p99 @ decoded @ double))))))))))))"

section \<open>Facts\<close>

lemma sum_list_bounds:
  fixes xs :: "nat list"
  assumes "\<forall>x \<in> set xs. lo \<le> x \<and> x \<le> hi"
  shows "length xs * lo \<le> sum_list xs" "sum_list xs \<le> length xs * hi"
  using assms by (induction xs) auto

text \<open>The sums of the durations and the number of blocks are in range: then the means exist.\<close>

definition durations_fit :: "cumulative_metrics \<Rightarrow> bool" where
  "durations_fit cm \<longleftrightarrow> cm_blocks cm = [] \<or>
     (length (cm_blocks cm) < 2 ^ 32 \<and>
      sum_list (map sm_propagation_time (cm_blocks cm)) < 2 ^ 64 * nanos_per_sec \<and>
      sum_list (map sm_p99_time (cm_blocks cm)) < 2 ^ 64 * nanos_per_sec)"

lemma mean_duration_Inr:
  "(\<exists>d. mean_duration f cm = Inr d) \<longleftrightarrow> cm_blocks cm = [] \<or>
     (length (cm_blocks cm) < 2 ^ 32 \<and> sum_list (map f (cm_blocks cm)) < 2 ^ 64 * nanos_per_sec)"
  by (auto simp: mean_duration_def duration_sum_def assertR_def)

lemma durations_fit_iff:
  "durations_fit cm \<longleftrightarrow> (\<exists>d. mean_propagation cm = Inr d) \<and> (\<exists>d. mean_p99 cm = Inr d)"
  unfolding mean_propagation_def mean_p99_def mean_duration_Inr durations_fit_def by blast

lemma mean_duration_bounds:
  assumes "mean_duration f cm = Inr d" "cm_blocks cm \<noteq> []"
    and "\<forall>m \<in> set (cm_blocks cm). lo \<le> f m \<and> f m \<le> hi"
  shows "lo \<le> d \<and> d \<le> hi"
proof -
  let ?xs = "map f (cm_blocks cm)" and ?k = "length (cm_blocks cm)"
  have d: "d = sum_list ?xs div ?k"
    using assms(1,2) by (auto simp: mean_duration_def duration_sum_def assertR_def split: if_splits)
  have k: "0 < ?k" using assms(2) by simp
  have "\<forall>x \<in> set ?xs. lo \<le> x \<and> x \<le> hi" using assms(3) by simp
  from sum_list_bounds [OF this] have "?k * lo \<le> sum_list ?xs" "sum_list ?xs \<le> ?k * hi" by simp_all
  then have "?k * lo div ?k \<le> d" "d \<le> ?k * hi div ?k" unfolding d by (simp_all only: div_le_mono)
  with k show ?thesis by simp
qed

lemma mean_nodes_decoded_bounds:
  assumes ne: "cm_blocks cm \<noteq> []" and small: "hi * length (cm_blocks cm) < 2 ^ 53"
    and b: "\<forall>m \<in> set (cm_blocks cm). lo \<le> sm_nodes_decoded m \<and> sm_nodes_decoded m \<le> hi"
  shows "of_nat lo \<le> mean_nodes_decoded cm \<and> mean_nodes_decoded cm \<le> of_nat hi"
proof -
  let ?xs = "map sm_nodes_decoded (cm_blocks cm)" and ?k = "length (cm_blocks cm)"
  have k: "0 < ?k" using ne by simp
  have "\<forall>x \<in> set ?xs. lo \<le> x \<and> x \<le> hi" using b by simp
  from sum_list_bounds [OF this] have s: "?k * lo \<le> sum_list ?xs" "sum_list ?xs \<le> ?k * hi" by simp_all
  obtain m where m: "m \<in> set (cm_blocks cm)" using ne by (cases "cm_blocks cm") auto
  have lohi: "lo \<le> hi" using b m by fastforce
  have "hi * 1 \<le> hi * ?k" using k by (intro mult_le_mono2) (simp only: One_nat_def Suc_leI)
  then have "lo \<le> hi * ?k" "hi \<le> hi * ?k" using lohi by linarith+
  then have lt: "lo < 2 ^ 53" "hi < 2 ^ 53" "sum_list ?xs < 2 ^ 53"
    using small s(2) unfolding mult.commute [of ?k hi] by linarith+
  show ?thesis
  proof (cases "hi = 0")
    case True
    then have "sum_list ?xs = 0" "lo = 0" using lohi s(2) by simp_all
    with True ne show ?thesis unfolding mean_nodes_decoded_def Let_def by (simp only: f64_div_def) simp
  next
    case False
    then have "?k \<le> hi * ?k" by simp
    then have "?k < 2 ^ 53" using small by linarith
    with ne lt(3) have "mean_nodes_decoded cm = f64_round (of_nat (sum_list ?xs) / of_nat ?k)"
      by (simp add: mean_nodes_decoded_def f64_div_def Let_def)
    moreover have "(of_nat (?k * lo) :: rat) \<le> of_nat (sum_list ?xs)" "(of_nat (sum_list ?xs) :: rat) \<le> of_nat (?k * hi)"
      using s by (simp_all only: of_nat_le_iff)
    then have "of_nat lo \<le> (of_nat (sum_list ?xs) / of_nat ?k :: rat)" "(of_nat (sum_list ?xs) / of_nat ?k :: rat) \<le> of_nat hi"
      using k by (simp_all add: field_simps)
    then have "f64_round (of_nat lo) \<le> f64_round (of_nat (sum_list ?xs) / of_nat ?k)"
      "f64_round (of_nat (sum_list ?xs) / of_nat ?k) \<le> f64_round (of_nat hi)"
      by (auto intro: f64_round_mono)
    ultimately show ?thesis using lt(1,2) by simp
  qed
qed

text \<open>A row is printed exactly when all its cells are.\<close>

lemma mapR_Inr_ex: "(\<exists>ys. mapR f xs = Inr ys) \<longleftrightarrow> (\<forall>x \<in> set xs. \<exists>y. f x = Inr y)"
proof (induction xs)
  case (Cons x xs)
  show ?case
  proof (cases "f x")
    case (Inr y)
    then have "(\<exists>ys. mapR f (x # xs) = Inr ys) \<longleftrightarrow> (\<exists>ys. mapR f xs = Inr ys)"
      by (cases "mapR f xs") simp_all
    then show ?thesis using Cons.IH Inr by simp
  qed simp
qed simp

lemma table_row_Inr: "(\<exists>t. table_row label cell rs = Inr t) \<longleftrightarrow> (\<forall>r \<in> set rs. \<exists>y. cell r = Inr y)"
  unfolding table_row_def mapR_Inr_ex [symmetric] by (cases "mapR cell rs") simp_all

lemma table_row_pure: "table_row label (\<lambda>r. Inr (cell r)) rs
    = Inr (pad_right 25 label @ concat (map (pad_right 20) (map cell rs)) @ nl)"
  unfolding table_row_def by (simp add: mapR_pure [of rs _ cell])

lemma bindR_ex_Inr: "(\<And>x. m = Inr x \<Longrightarrow> (\<exists>y. f x = Inr y) \<longleftrightarrow> P) \<Longrightarrow> (\<exists>y. bindR m f = Inr y) \<longleftrightarrow> (\<exists>x. m = Inr x) \<and> P"
  by (cases m) auto

lemma mapRes_ex_Inr: "(\<exists>y. mapRes f m = Inr y) \<longleftrightarrow> (\<exists>x. m = Inr x)"
  by (cases m) simp_all

lemma compare_nothing: "results = [] \<or> cm_blocks (hd results) = [] \<Longrightarrow> compare results = Inr None"
  by (cases results) (auto simp: compare_def)

lemma compare_prints:
  assumes "results \<noteq> []" "cm_blocks (hd results) \<noteq> []"
  shows "if \<forall>r \<in> set results. durations_fit r then \<exists>t. compare results = Inr (Some t)
    else \<exists>e. compare results = Inl e"
proof -
  obtain r0 rs where rs: "results = r0 # rs" using assms(1) by (cases results) auto
  obtain b bs where bs: "cm_blocks r0 = b # bs" using assms(2) rs by (cases "cm_blocks r0") auto
  let ?prp = "table_row ''Avg propagation''
    (\<lambda>r. mapRes (\<lambda>d. fmt_fixed 1 (duration_ms d) @ '' ms'') (mean_propagation r)) results"
  let ?p99 = "table_row ''Avg p99 propagation''
    (\<lambda>r. mapRes (\<lambda>d. fmt_fixed 1 (duration_ms d) @ '' ms'') (mean_p99 r)) results"
  have "\<exists>F. compare results = bindR ?prp (\<lambda>x. bindR ?p99 (\<lambda>y. Inr (Some (F x y))))"
    unfolding compare_def rs list.case bs Let_def table_row_pure bindR_simps by (rule exI) (rule refl)
  then obtain F where F: "compare results = bindR ?prp (\<lambda>x. bindR ?p99 (\<lambda>y. Inr (Some (F x y))))" ..
  have fit: "(\<forall>r \<in> set results. durations_fit r) \<longleftrightarrow> (\<exists>x. ?prp = Inr x) \<and> (\<exists>y. ?p99 = Inr y)"
    unfolding table_row_Inr mapRes_ex_Inr durations_fit_iff by blast
  show ?thesis unfolding fit F by (cases ?prp; cases ?p99) simp_all
qed

end
