(* ===== verification/Sim_Driver.thy ===== *)
theory Sim_Driver
  imports Sim_Report Protocol Pedersen_Strategy Bfkw_Strategy Engine_Facts
begin

text \<open>
  \<open>crates/sim/src/config.rs\<close>, \<open>PropagationMechanism\<close> of \<open>crates/sim/src/strategy.rs\<close> and the
  binary \<open>crates/sim/src/bin/compare.rs\<close>: the three strategies are run over the same random blocks,
  and their reports are compared.

  The random number generator (\<open>ChaCha20Rng\<close>) and the libraries the strategies use are parameters.
  The environment is the map of variables after \<open>dotenvy\<close> has run.
\<close>

section \<open>Configuration\<close>

record sim_config =
  sc_num_nodes :: nat
  sc_baseline_degree :: nat
  sc_rlnc_degree :: nat
  sc_hop_latency :: nat
  sc_bandwidth :: f64
  sc_block_size :: nat
  sc_num_blocks :: nat
  sc_seed :: u64

definition env_or :: "(string \<Rightarrow> 'a option) \<Rightarrow> (string \<Rightarrow> string option) \<Rightarrow> string \<Rightarrow> 'a \<Rightarrow> 'a" where
  "env_or parse env key dflt =
     (case env key of None \<Rightarrow> dflt
      | Some v \<Rightarrow> (case parse v of None \<Rightarrow> dflt | Some x \<Rightarrow> x))"

definition parse_u64 :: "string \<Rightarrow> nat option" where
  "parse_u64 = parse_unsigned (2 ^ 64 - 1)"

definition sim_config_from_env :: "(string \<Rightarrow> string option) \<Rightarrow> sim_config" where
  "sim_config_from_env env =
     \<lparr>sc_num_nodes = env_or parse_u64 env ''RLNC_NUM_NODES'' 1000,
      sc_baseline_degree = env_or parse_u64 env ''RLNC_BASELINE_DEGREE'' 8,
      sc_rlnc_degree = env_or parse_u64 env ''RLNC_RLNC_DEGREE'' 40,
      sc_hop_latency = env_or parse_u64 env ''RLNC_HOP_LATENCY_MS'' 70 * 1000000,
      sc_bandwidth = f64_mult (env_or parse_f64 env ''RLNC_BANDWIDTH_MBPS'' 20) 1000000,
      sc_block_size = env_or parse_u64 env ''RLNC_BLOCK_SIZE'' 2000000,
      sc_num_blocks = env_or parse_u64 env ''RLNC_NUM_BLOCKS'' 10,
      sc_seed = of_nat (env_or parse_u64 env ''RLNC_SEED'' 2025)\<rparr>"

section \<open>Mechanisms\<close>

definition mechanism_new ::
  "nat \<Rightarrow> nat \<Rightarrow> nat \<Rightarrow> f64 \<Rightarrow> ('self, 's, 'p, 'r) strategy \<Rightarrow> 'self \<Rightarrow> ('self, 's, 'p, 'r) mechanism" where
  "mechanism_new num_nodes mesh_degree hop_latency bandwidth strategy self =
     \<lparr>mc_num_nodes = num_nodes, mc_mesh_degree = mesh_degree, mc_hop_latency = hop_latency,
      mc_bandwidth = bandwidth, mc_strategy = strategy, mc_self = self\<rparr>"

text \<open>
  One run. What \<open>init_proposer\<close> leaves in the strategy (the context BFKW caches) is there in the next
  run, so the mechanism is returned too.
\<close>

definition simulate ::
  "'r sim_lib \<Rightarrow> ('p sim_event list \<Rightarrow> 'p sim_event \<times> 'p sim_event list) \<Rightarrow>
   ('self, 's, 'p, 'r) mechanism \<Rightarrow> block \<Rightarrow> 'r \<Rightarrow> (sim_metrics \<times> ('self, 's, 'p, 'r) mechanism) run option" where
  "simulate lb pop mc b rng =
     (case sim_start lb mc b rng of
        Inl e \<Rightarrow> Some (Inl e)
      | Inr (self, _) \<Rightarrow> map_option (mapRes (\<lambda>m. (m, mc\<lparr>mc_self := self\<rparr>))) (sim_run lb pop mc b rng))"

section \<open>The comparison\<close>

definition num_chunks :: nat where
  "num_chunks = 10"

text \<open>\<open>SeedableRng\<close> and \<open>Rng\<close> of the \<open>rand\<close> crate, at the types the driver draws.\<close>

record 'r std_rng =
  rg_from_seed :: "u64 \<Rightarrow> 'r"
  rg_u8 :: "'r \<Rightarrow> u8 \<times> 'r"
  rg_u64 :: "'r \<Rightarrow> u64 \<times> 'r"
  rg_fill_32 :: "'r \<Rightarrow> bytes \<times> 'r"

definition sim_random_block :: "'r std_rng \<Rightarrow> nat \<Rightarrow> 'r \<Rightarrow> block \<times> 'r" where
  "sim_random_block rg size_bytes rng =
     (let (transactions, rng) = draw_n (rg_u8 rg) size_bytes rng;
          (parent, rng) = rg_fill_32 rg rng;
          (state_root, rng) = rg_fill_32 rg rng;
          (number, rng) = rg_u64 rg rng in
      (\<lparr>bl_parent_hash = parent, bl_number = number, bl_timestamp = 1700000000,
        bl_gas_used = 15000000, bl_gas_limit = 30000000, bl_state_root = state_root,
        bl_transactions = transactions\<rparr>, rng))"

record ('f, 'g, 'sk, 'pk, 'sig, 'g1, 'g2, 'r) driver_lib =
  dl_rng :: "'r std_rng"
  dl_sim :: "'r sim_lib"
  dl_scalar :: "('f, 'r) scalar_lib"
  dl_pedersen :: "('f, 'g, 'sk, 'pk, 'sig) pedersen_lib"
  dl_generate :: "'r \<Rightarrow> 'sk \<times> 'r"
  dl_bfkw :: "('f, 'g1, 'g2) bfkw_lib"
  dl_keccak256 :: "bytes \<Rightarrow> bytes"
  dl_pop_baseline :: "bytes sim_event list \<Rightarrow> bytes sim_event \<times> bytes sim_event list"
  dl_pop_pedersen :: "('f, ('g, 'sig) pedersen_proof) signed_packet sim_event list \<Rightarrow>
    ('f, ('g, 'sig) pedersen_proof) signed_packet sim_event \<times>
    ('f, ('g, 'sig) pedersen_proof) signed_packet sim_event list"
  dl_pop_bfkw :: "('f, 'g2 bfkw_proof) signed_packet sim_event list \<Rightarrow>
    ('f, 'g2 bfkw_proof) signed_packet sim_event \<times> ('f, 'g2 bfkw_proof) signed_packet sim_event list"

text \<open>The local variables of \<open>run_simulation\<close>.\<close>

record ('f, 'g, 'sk, 'pk, 'sig, 'g1, 'g2, 'r) driver_state =
  dr_rng :: 'r
  dr_baseline :: "(unit, baseline_node_state, bytes, 'r) mechanism"
  dr_pedersen :: "(('g, 'sk) pedersen_strategy_self, ('f, 'g, 'pk, 'sig) pedersen_node_state,
    ('f, ('g, 'sig) pedersen_proof) signed_packet, 'r) mechanism"
  dr_bfkw :: "(('f, 'g1, 'g2) bfkw_strategy_self, ('f, 'g1, 'g2) bfkw_node_state,
    ('f, 'g2 bfkw_proof) signed_packet, 'r) mechanism"
  dr_metrics_baseline :: cumulative_metrics
  dr_metrics_pedersen :: cumulative_metrics
  dr_metrics_bfkw :: cumulative_metrics

definition driver_start ::
  "('f::field, 'g, 'sk, 'pk, 'sig, 'g1, 'g2, 'r) driver_lib \<Rightarrow> sim_config \<Rightarrow> nat \<Rightarrow>
   ('f, 'g, 'sk, 'pk, 'sig, 'g1, 'g2, 'r) driver_state" where
  "driver_start L config m =
     (let rng = rg_from_seed (dl_rng L) (sc_seed config);
          (pedersen, rng) = pedersen_strategy_new (dl_pedersen L) (dl_generate L) m rng;
          (bfkw, rng) = bfkw_strategy_new (dl_bfkw L) (sl_random (dl_scalar L)) m rng in
      \<lparr>dr_rng = rng,
       dr_baseline = mechanism_new (sc_num_nodes config) (sc_baseline_degree config)
         (sc_hop_latency config) (sc_bandwidth config) (baseline_strategy (sl_wire (dl_scalar L))) (),
       dr_pedersen = mechanism_new (sc_num_nodes config) (sc_rlnc_degree config)
         (sc_hop_latency config) (sc_bandwidth config)
         (pedersen_strategy (dl_scalar L) (dl_pedersen L) num_chunks) pedersen,
       dr_bfkw = mechanism_new (sc_num_nodes config) (sc_rlnc_degree config)
         (sc_hop_latency config) (sc_bandwidth config)
         (bfkw_strategy (dl_keccak256 L) (dl_scalar L) (dl_bfkw L) num_chunks) bfkw,
       dr_metrics_baseline = cm_new ''Baseline'',
       dr_metrics_pedersen = cm_new ''Pedersen'',
       dr_metrics_bfkw = cm_new ''BFKW''\<rparr>)"

text \<open>
  The three runs of a block have generators of their own, so the threads do not interact. The scope
  waits for all of them; the third runs in the scope itself and its panic is the scope's.
\<close>

definition thread_scope :: "'a run option \<Rightarrow> 'b run option \<Rightarrow> 'c run option \<Rightarrow> ('a \<times> 'b \<times> 'c) run option" where
  "thread_scope h1 h2 h3 =
     (case h1 of None \<Rightarrow> None | Some h1 \<Rightarrow>
     (case h2 of None \<Rightarrow> None | Some h2 \<Rightarrow>
     (case h3 of None \<Rightarrow> None | Some r3 \<Rightarrow>
       Some (bindR r3 (\<lambda>r3.
             bindR (map_err (\<lambda>_. ThreadPanicked) h1) (\<lambda>r1.
             bindR (map_err (\<lambda>_. ThreadPanicked) h2) (\<lambda>r2. Inr (r1, r2, r3))))))))"

definition run_block ::
  "('f::field, 'g, 'sk, 'pk, 'sig, 'g1, 'g2, 'r) driver_lib \<Rightarrow> sim_config \<Rightarrow>
   ('f, 'g, 'sk, 'pk, 'sig, 'g1, 'g2, 'r) driver_state \<Rightarrow>
   ('f, 'g, 'sk, 'pk, 'sig, 'g1, 'g2, 'r) driver_state run option" where
  "run_block L config st =
     (let (b, rng) = sim_random_block (dl_rng L) (sc_block_size config) (dr_rng st);
          (seed_baseline, rng) = rg_u64 (dl_rng L) rng;
          (seed_pedersen, rng) = rg_u64 (dl_rng L) rng;
          (seed_bfkw, rng) = rg_u64 (dl_rng L) rng in
      map_option (mapRes (\<lambda>((r1, baseline), (r2, pedersen), (r3, bfkw)).
          st\<lparr>dr_rng := rng, dr_baseline := baseline, dr_pedersen := pedersen, dr_bfkw := bfkw,
             dr_metrics_baseline := cm_accumulate r1 (dr_metrics_baseline st),
             dr_metrics_pedersen := cm_accumulate r2 (dr_metrics_pedersen st),
             dr_metrics_bfkw := cm_accumulate r3 (dr_metrics_bfkw st)\<rparr>))
        (thread_scope
          (simulate (dl_sim L) (dl_pop_baseline L) (dr_baseline st) b (rg_from_seed (dl_rng L) seed_baseline))
          (simulate (dl_sim L) (dl_pop_pedersen L) (dr_pedersen st) b (rg_from_seed (dl_rng L) seed_pedersen))
          (simulate (dl_sim L) (dl_pop_bfkw L) (dr_bfkw st) b (rg_from_seed (dl_rng L) seed_bfkw))))"

fun run_blocks ::
  "('f::field, 'g, 'sk, 'pk, 'sig, 'g1, 'g2, 'r) driver_lib \<Rightarrow> sim_config \<Rightarrow> nat \<Rightarrow>
   ('f, 'g, 'sk, 'pk, 'sig, 'g1, 'g2, 'r) driver_state \<Rightarrow>
   ('f, 'g, 'sk, 'pk, 'sig, 'g1, 'g2, 'r) driver_state run option" where
  "run_blocks L config 0 st = Some (Inr st)"
| "run_blocks L config (Suc k) st =
     (case run_block L config st of
        None \<Rightarrow> None
      | Some (Inl e) \<Rightarrow> Some (Inl e)
      | Some (Inr st') \<Rightarrow> run_blocks L config k st')"

text \<open>The result is the table that is logged, if one is.\<close>

definition run_simulation ::
  "('f::field, 'g, 'sk, 'pk, 'sig, 'g1, 'g2, 'r) driver_lib \<Rightarrow> sim_config \<Rightarrow> nat \<Rightarrow>
   string option run option" where
  "run_simulation L config m =
     map_option (\<lambda>r. bindR r (\<lambda>st.
         compare [dr_metrics_baseline st, dr_metrics_pedersen st, dr_metrics_bfkw st]))
       (run_blocks L config (sc_num_blocks config) (driver_start L config m))"

definition compare_main ::
  "('f::field, 'g, 'sk, 'pk, 'sig, 'g1, 'g2, 'r) driver_lib \<Rightarrow> (string \<Rightarrow> string option) \<Rightarrow>
   string option run option" where
  "compare_main L env =
     (let config = sim_config_from_env env in
      case sim_compute_m (sc_block_size config) num_chunks of
        Inl e \<Rightarrow> Some (Inl e)
      | Inr m \<Rightarrow> run_simulation L config m)"

section \<open>One run\<close>

lemma sim_metrics_times_le:
  fixes mc :: "('self, 's, 'p, 'r) mechanism" and byte_len :: nat
  assumes "\<forall>i < length (ss_decode_times st). \<forall>t. ss_decode_times st ! i = Some t \<longrightarrow> t \<le> T"
  defines "m \<equiv> sim_metrics_of mc byte_len st"
  shows "sm_propagation_time m \<le> T" "sm_p99_time m \<le> T"
    "sm_nodes_decoded m \<le> length (ss_decode_times st)"
    "sm_num_nodes m = mc_num_nodes mc" "sm_block_size m = byte_len"
proof -
  define ts where "ts = sort (map the (filter (\<lambda>t. t \<noteq> None) (ss_decode_times st)))"
  have le: "t \<le> T" if "t \<in> set ts" for t
    using that assms(1) by (fastforce simp: ts_def in_set_conv_nth)
  have "last ts \<le> T" if "ts \<noteq> []" using that by (simp add: le)
  then show "sm_propagation_time m \<le> T"
    unfolding m_def sim_metrics_of_def Let_def ts_def [symmetric] by simp
  show "sm_p99_time m \<le> T"
    unfolding m_def sim_metrics_of_def Let_def ts_def [symmetric] by (simp add: time_at_def le)
qed (simp_all add: m_def sim_metrics_of_def Let_def)

context honest_strategy
begin

lemma simulate_honest:
  assumes sok: "self_ok c self0" and ft: "fits c b" and pop: "pop_ok pop"
    and mc: "mc_strategy mc = strat c" "mc_self mc = self0" "mc_num_nodes mc = n" "mc_mesh_degree mc = D"
    and perm: "\<And>xs r. mset (fst (lb_shuffle lb xs r)) = mset xs"
      "\<And>xs k r. mset (fst (lb_partial_shuffle lb xs k r)) = mset xs"
    and deg: "D < n" "0 < D \<or> n = 1"
    and del: "delays_fit mc (packet_len c b) (capacity c) delta"
  shows "\<exists>m self. simulate lb pop mc b rng = Some (Inr (m, mc\<lparr>mc_self := self\<rparr>)) \<and>
    sim_run lb pop mc b rng = Some (Inr m) \<and> self_ok c self \<and> sm_num_nodes m = n \<and>
    sm_nodes_decoded m \<le> n \<and> sm_propagation_time m \<le> delta * Suc (n * Suc (capacity c)) \<and>
    sm_p99_time m \<le> delta * Suc (n * Suc (capacity c))"
proof -
  from sim_honest [OF sok ft pop mc perm deg del, of rng] obtain self topo st st' where
    start: "sim_start lb mc b rng = Inr (self, topo, byte_len c b, st)"
    and run: "sim_run lb pop mc b rng = Some (Inr (sim_metrics_of mc (byte_len c b) st'))"
    and ok: "self_ok c self" and len: "length (ss_decode_times st') = n"
    and le: "\<forall>i < n. \<forall>t. ss_decode_times st' ! i = Some t \<longrightarrow> t \<le> delta * Suc (n * Suc (capacity c))"
    by (elim exE conjE) (rule that)
  have "simulate lb pop mc b rng
      = Some (Inr (sim_metrics_of mc (byte_len c b) st', mc\<lparr>mc_self := self\<rparr>))"
    using start run by (simp add: simulate_def)
  moreover have "\<forall>i < length (ss_decode_times st'). \<forall>t. ss_decode_times st' ! i = Some t \<longrightarrow>
      t \<le> delta * Suc (n * Suc (capacity c))" using le len by simp
  note sim_metrics_times_le [OF this, of mc "byte_len c b"]
  ultimately show ?thesis using run ok len mc(3) by auto
qed

end

end
