(* ===== verification/Driver_Facts.thy ===== *)
theory Driver_Facts
  imports Sim_Driver
begin

text \<open>
  The comparison ends well: with libraries as documented and a configuration whose degrees, sizes and
  delays are in range, every run of every strategy ends without a panic, and the table is printed.
\<close>

section \<open>Random blocks\<close>

lemma sim_compute_m_fits:
  assumes "compute_m_fits_usize block_size n" "sim_compute_m block_size n = Inr m" "len \<le> block_size + 100"
  shows "elements_needed 31 len \<le> n * m"
proof (rule compute_m_fits)
  show "compute_m block_size n = Inr m"
    using assms(2) by (auto simp: sim_compute_m_def compute_m_def div_ceil_def block_header_bytes_def Let_def split: if_splits)
qed (rule assms)+

text \<open>The length prefix takes at most four bytes for the sizes the codec reads.\<close>

definition short_prefix :: "wire \<Rightarrow> bool" where
  "short_prefix wc \<longleftrightarrow> (\<forall>bs. length bs \<le> max_transactions_bytes \<longrightarrow> length (w_put_bytes wc bs) \<le> length bs + 4)"

lemma random_block:
  assumes wc: "wire_ok wc" "short_prefix wc" and fill: "\<And>r. length (fst (rg_fill_32 rg r)) = 32"
    and size: "block_size \<le> max_transactions_bytes"
    and b: "sim_random_block rg block_size rng = (b, rng')"
  shows "readable b" "length (block_write wc b) \<le> block_size + 100" "length (bl_transactions b) = block_size"
proof -
  from b have tx: "length (bl_transactions b) = block_size" and h: "block_ok b"
    using fill by (auto simp: sim_random_block_def Let_def block_ok_def split: prod.splits)
      (metis fst_conv length_draw_n fill)+
  show "readable b" using tx h size by (simp add: readable_def)
  show "length (bl_transactions b) = block_size" by (rule tx)
  have "length (w_put_bytes wc (bl_transactions b)) \<le> block_size + 4"
    using wc(2) tx size unfolding short_prefix_def by metis
  with wc(1) h show "length (block_write wc b) \<le> block_size + 100"
    by (simp add: block_write_def wire_ok_def block_ok_def)
qed

section \<open>The loop over the blocks\<close>

definition driver_lib_ok ::
  "('f::field, 'g::ab_group_add, 'sk, 'pk, 'sig, 'g1::ab_group_add, 'g2::ab_group_add, 'r) driver_lib \<Rightarrow> bool" where
  "driver_lib_ok L \<longleftrightarrow> packing_ok (dl_scalar L) \<and> pf_data_bytes (sl_pf (dl_scalar L)) = 31 \<and>
     short_prefix (sl_wire (dl_scalar L)) \<and> group_ok (pl_group (dl_pedersen L)) \<and>
     signer_ok (pl_signer (dl_pedersen L)) \<and> bfkw_lib_ok (dl_bfkw L) \<and>
     pop_ok (dl_pop_baseline L) \<and> pop_ok (dl_pop_pedersen L) \<and> pop_ok (dl_pop_bfkw L) \<and>
     (\<forall>xs r. mset (fst (lb_shuffle (dl_sim L) xs r)) = mset xs) \<and>
     (\<forall>xs k r. mset (fst (lb_partial_shuffle (dl_sim L) xs k r)) = mset xs) \<and>
     (\<forall>r. length (fst (rg_fill_32 (dl_rng L) r)) = 32)"

text \<open>The largest packet of the three strategies.\<close>

definition largest_packet ::
  "('f, 'g, 'sk, 'pk, 'sig, 'g1, 'g2, 'r) driver_lib \<Rightarrow> nat \<Rightarrow> nat \<Rightarrow> nat" where
  "largest_packet L block_size m =
     max (block_size + 100) (32 * m + 32 * num_chunks +
       max (cd_size (pl_gcodec (dl_pedersen L)) * num_chunks + cd_size (pl_scodec (dl_pedersen L)))
           (cd_size (bf_g2_codec (dl_bfkw L))))"

text \<open>\<open>delta\<close> is the time that packet takes; \<open>config_time\<close> bounds the times of a run.\<close>

definition config_time :: "sim_config \<Rightarrow> nat \<Rightarrow> nat" where
  "config_time config delta = delta * Suc (sc_num_nodes config * Suc num_chunks)"

definition config_ok ::
  "('f, 'g, 'sk, 'pk, 'sig, 'g1, 'g2, 'r) driver_lib \<Rightarrow> sim_config \<Rightarrow> nat \<Rightarrow> nat \<Rightarrow> bool" where
  "config_ok L config m delta \<longleftrightarrow>
     sim_compute_m (sc_block_size config) num_chunks = Inr m \<and>
     sc_baseline_degree config < sc_num_nodes config \<and> sc_rlnc_degree config < sc_num_nodes config \<and>
     (sc_num_nodes config = 1 \<or> 0 < sc_baseline_degree config \<and> 0 < sc_rlnc_degree config) \<and>
     sc_block_size config \<le> max_transactions_bytes \<and> 0 \<le> sc_bandwidth config \<and>
     transmission_delay (sc_hop_latency config) (largest_packet L (sc_block_size config) m)
       (sc_bandwidth config) = Inr delta \<and>
     sc_num_blocks config < 2 ^ 32 \<and> sc_num_blocks config * sc_num_nodes config < 2 ^ 53 \<and>
     max 1 (sc_num_blocks config) * config_time config delta < 2 ^ 64 * nanos_per_sec"

text \<open>What the loop keeps: \<open>k\<close> blocks are done, and their times are in range.\<close>

definition report_ok :: "sim_config \<Rightarrow> nat \<Rightarrow> sim_metrics \<Rightarrow> bool" where
  "report_ok config delta m \<longleftrightarrow> sm_num_nodes m = sc_num_nodes config \<and>
     sm_nodes_decoded m \<le> sc_num_nodes config \<and>
     sm_propagation_time m \<le> config_time config delta \<and> sm_p99_time m \<le> config_time config delta"

definition metrics_ok :: "sim_config \<Rightarrow> nat \<Rightarrow> nat \<Rightarrow> cumulative_metrics \<Rightarrow> bool" where
  "metrics_ok config delta k cm \<longleftrightarrow> length (cm_blocks cm) = k \<and>
     (\<forall>m \<in> set (cm_blocks cm). report_ok config delta m)"

definition driver_mech ::
  "sim_config \<Rightarrow> nat \<Rightarrow> ('self, 's, 'p, 'r) strategy \<Rightarrow> ('self, 's, 'p, 'r) mechanism \<Rightarrow> bool" where
  "driver_mech config degree S mc \<longleftrightarrow>
     mc = mechanism_new (sc_num_nodes config) degree (sc_hop_latency config) (sc_bandwidth config) S (mc_self mc)"

definition driver_inv ::
  "('f::field, 'g::ab_group_add, 'sk, 'pk, 'sig, 'g1::ab_group_add, 'g2::ab_group_add, 'r) driver_lib \<Rightarrow>
   sim_config \<Rightarrow> nat \<Rightarrow> nat \<Rightarrow> nat \<Rightarrow> ('f, 'g, 'sk, 'pk, 'sig, 'g1, 'g2, 'r) driver_state \<Rightarrow> bool" where
  "driver_inv L config m delta k st \<longleftrightarrow>
     driver_mech config (sc_baseline_degree config) (baseline_strategy (sl_wire (dl_scalar L))) (dr_baseline st) \<and>
     driver_mech config (sc_rlnc_degree config)
       (pedersen_strategy (dl_scalar L) (dl_pedersen L) num_chunks) (dr_pedersen st) \<and>
     driver_mech config (sc_rlnc_degree config)
       (bfkw_strategy (dl_keccak256 L) (dl_scalar L) (dl_bfkw L) num_chunks) (dr_bfkw st) \<and>
     pedersen_self_ok (dl_scalar L, dl_pedersen L, num_chunks, m) (mc_self (dr_pedersen st)) \<and>
     bfkw_self_ok (dl_keccak256 L, dl_scalar L, dl_bfkw L, num_chunks, m) (mc_self (dr_bfkw st)) \<and>
     metrics_ok config delta k (dr_metrics_baseline st) \<and> metrics_ok config delta k (dr_metrics_pedersen st) \<and>
     metrics_ok config delta k (dr_metrics_bfkw st) \<and>
     (\<forall>r \<in> set (cm_blocks (dr_metrics_baseline st)). sm_nodes_decoded r = sc_num_nodes config)"

lemma metrics_ok_accumulate:
  "metrics_ok config delta k cm \<Longrightarrow> report_ok config delta r \<Longrightarrow>
   metrics_ok config delta (Suc k) (cm_accumulate r cm)"
  by (auto simp: metrics_ok_def cm_accumulate_def)

context honest_strategy
begin

lemma driver_simulate:
  assumes sok: "self_ok c (mc_self mc)" and ft: "fits c b" and pop: "pop_ok pop"
    and mc: "driver_mech config degree (strat c) mc"
    and perm: "\<And>xs r. mset (fst (lb_shuffle lb xs r)) = mset xs"
      "\<And>xs k r. mset (fst (lb_partial_shuffle lb xs k r)) = mset xs"
    and deg: "degree < sc_num_nodes config" "0 < degree \<or> sc_num_nodes config = 1"
    and del: "transmission_delay (sc_hop_latency config) K (sc_bandwidth config) = Inr delta"
      "0 \<le> sc_bandwidth config" "config_time config delta < 2 ^ 64 * nanos_per_sec"
    and K: "packet_len c b \<le> K" "capacity c \<le> num_chunks"
  shows "\<exists>m mc' d. simulate lb pop mc b rng = Some (Inr (m, mc')) \<and> sim_run lb pop mc b rng = Some (Inr m) \<and>
    driver_mech config degree (strat c) mc' \<and> self_ok c (mc_self mc') \<and> report_ok config delta m \<and>
    delays_fit mc (packet_len c b) (capacity c) d"
proof -
  let ?n = "sc_num_nodes config"
  have mc': "mc_strategy mc = strat c" "mc_num_nodes mc = ?n" "mc_mesh_degree mc = degree"
    "mc_hop_latency mc = sc_hop_latency config" "mc_bandwidth mc = sc_bandwidth config"
    using mc unfolding driver_mech_def by (metis mechanism.simps(1-5) mechanism_new_def)+
  have "delays_fit mc K num_chunks delta"
    using del mc' by (simp add: delays_fit_def config_time_def)
  from delays_fit_mono [OF this _ K] del(2) mc' obtain d where
    d: "d \<le> delta" "delays_fit mc (packet_len c b) (capacity c) d" by auto
  from simulate_honest [OF sok ft pop mc'(1) refl mc'(2,3) perm deg d(2), of rng] obtain m self where
    run: "simulate lb pop mc b rng = Some (Inr (m, mc\<lparr>mc_self := self\<rparr>))" "sim_run lb pop mc b rng = Some (Inr m)"
      "self_ok c self" "sm_num_nodes m = ?n" "sm_nodes_decoded m \<le> ?n"
    and t: "sm_propagation_time m \<le> d * Suc (?n * Suc (capacity c))"
      "sm_p99_time m \<le> d * Suc (?n * Suc (capacity c))"
    by (elim exE conjE) (rule that)
  have "d * Suc (?n * Suc (capacity c)) \<le> config_time config delta"
    unfolding config_time_def using d(1) K(2) by (intro mult_le_mono) simp_all
  with run t have "report_ok config delta m" by (simp add: report_ok_def)
  moreover have "driver_mech config degree (strat c) (mc\<lparr>mc_self := self\<rparr>)"
    using mc unfolding driver_mech_def mechanism_new_def by (cases mc) simp
  ultimately show ?thesis using run d(2) by auto
qed

end

text \<open>Every node decodes in a run of the baseline.\<close>

lemma baseline_all_decoded:
  assumes "wire_ok wc" "readable b" "pop_ok pop"
    and mc: "mc_strategy mc = baseline_strategy wc" "mc_num_nodes mc = n" "mc_mesh_degree mc = D"
    and perm: "\<And>xs r. mset (fst (lb_shuffle lb xs r)) = mset xs"
      "\<And>xs k r. mset (fst (lb_partial_shuffle lb xs k r)) = mset xs"
    and deg: "D < n" "0 < D \<or> n = 1"
    and del: "delays_fit mc (length (block_write wc b)) 1 delta"
    and run: "sim_run lb pop mc b rng = Some (Inr m)"
  shows "sm_nodes_decoded m = n"
proof -
  have "\<exists>topo rng' m. random_mesh (lb_shuffle lb) (lb_partial_shuffle lb) n D rng = Inr (topo, rng') \<and>
      sim_run lb pop mc b rng = Some (Inr m) \<and> sm_nodes_decoded m = n \<and>
      sm_decode_times m = map (\<lambda>i. Some (hops topo i * delta)) [0..<n]"
  proof (rule baseline.sim_breadth_first [where c = wc and b = b, OF assms(1-4) refl mc(2,3) perm deg del])
    show "st_forward_condition (baseline_strategy wc) = AfterDecode" by (simp add: baseline_strategy_def)
    show "st_can_decode (baseline_strategy wc) self s'"
      if "st_receive (baseline_strategy wc) self s p = Inr (s', Inr r)" for self s p s' r
      using that by (auto simp: baseline_strategy_def baseline_receive_def baseline_can_decode_def split: if_splits)
  qed
  with run show ?thesis by auto
qed

lemma config_time_fits:
  "config_ok L config m delta \<Longrightarrow> config_time config delta < 2 ^ 64 * nanos_per_sec"
proof -
  assume C: "config_ok L config m delta"
  have "1 * config_time config delta \<le> max 1 (sc_num_blocks config) * config_time config delta"
    by (intro mult_le_mono1) simp
  moreover have "max 1 (sc_num_blocks config) * config_time config delta < 2 ^ 64 * nanos_per_sec"
    using C by (auto simp: config_ok_def)
  ultimately show ?thesis by linarith
qed

lemma run_baseline_ok:
  assumes L: "driver_lib_ok L" and C: "config_ok L config m delta"
    and b: "readable b" "length (block_write (sl_wire (dl_scalar L)) b)
      \<le> largest_packet L (sc_block_size config) m"
    and mb: "driver_mech config (sc_baseline_degree config) (baseline_strategy (sl_wire (dl_scalar L))) mc"
  obtains x mc' where "simulate (dl_sim L) (dl_pop_baseline L) mc b rng = Some (Inr (x, mc'))"
    "driver_mech config (sc_baseline_degree config) (baseline_strategy (sl_wire (dl_scalar L))) mc'"
    "report_ok config delta x" "sm_nodes_decoded x = sc_num_nodes config"
proof -
  let ?wc = "sl_wire (dl_scalar L)" and ?lb = "dl_sim L"
  from L have wc: "wire_ok ?wc" and pop: "pop_ok (dl_pop_baseline L)"
    and perm: "\<And>xs r. mset (fst (lb_shuffle ?lb xs r)) = mset xs"
      "\<And>xs k r. mset (fst (lb_partial_shuffle ?lb xs k r)) = mset xs"
    by (simp_all add: driver_lib_ok_def packing_ok_def)
  from C have deg: "sc_baseline_degree config < sc_num_nodes config"
      "0 < sc_baseline_degree config \<or> sc_num_nodes config = 1"
    and bw: "0 \<le> sc_bandwidth config"
    and del: "transmission_delay (sc_hop_latency config) (largest_packet L (sc_block_size config) m)
      (sc_bandwidth config) = Inr delta" by (auto simp: config_ok_def)
  have one: "1 \<le> num_chunks" by (simp add: num_chunks_def)
  from baseline.driver_simulate [where c = ?wc and rng = rng, OF wc b(1) pop mb perm deg del bw
      config_time_fits [OF C] b(2) one]
  obtain x mc' d where run: "simulate ?lb (dl_pop_baseline L) mc b rng = Some (Inr (x, mc'))"
      "sim_run ?lb (dl_pop_baseline L) mc b rng = Some (Inr x)"
      "driver_mech config (sc_baseline_degree config) (baseline_strategy ?wc) mc'" "report_ok config delta x"
      "delays_fit mc (length (block_write ?wc b)) 1 d"
    by (elim exE conjE) (rule that)
  have mc: "mc_strategy mc = baseline_strategy ?wc" "mc_num_nodes mc = sc_num_nodes config"
    "mc_mesh_degree mc = sc_baseline_degree config"
    using mb unfolding driver_mech_def by (metis mechanism.simps(1,2,5) mechanism_new_def)+
  have "sm_nodes_decoded x = sc_num_nodes config"
    by (rule baseline_all_decoded [OF wc b(1) pop mc perm deg run(5,2)])
  with run that show ?thesis by blast
qed

lemma run_block_ok:
  assumes L: "driver_lib_ok L" and C: "config_ok L config m delta" and inv: "driver_inv L config m delta k st"
  shows "\<exists>st'. run_block L config st = Some (Inr st') \<and> driver_inv L config m delta (Suc k) st'"
proof -
  let ?wc = "sl_wire (dl_scalar L)" and ?rg = "dl_rng L" and ?lb = "dl_sim L" and ?n = "sc_num_nodes config"
  let ?K = "largest_packet L (sc_block_size config) m"
  obtain b rng0 s1 rng1 s2 rng2 s3 rng3 where draws:
    "sim_random_block ?rg (sc_block_size config) (dr_rng st) = (b, rng0)"
    "rg_u64 ?rg rng0 = (s1, rng1)" "rg_u64 ?rg rng1 = (s2, rng2)" "rg_u64 ?rg rng2 = (s3, rng3)"
    by (metis surj_pair)
  from L have wc: "wire_ok ?wc" "short_prefix ?wc" and pop: "pop_ok (dl_pop_pedersen L)" "pop_ok (dl_pop_bfkw L)"
    and perm: "\<And>xs r. mset (fst (lb_shuffle ?lb xs r)) = mset xs"
      "\<And>xs k r. mset (fst (lb_partial_shuffle ?lb xs k r)) = mset xs"
    and fill: "\<And>r. length (fst (rg_fill_32 ?rg r)) = 32"
    by (simp_all add: driver_lib_ok_def packing_ok_def)
  from C have size: "sc_block_size config \<le> max_transactions_bytes"
    and m: "sim_compute_m (sc_block_size config) num_chunks = Inr m"
    and deg: "sc_rlnc_degree config < ?n" "0 < sc_rlnc_degree config \<or> ?n = 1"
    and bw: "0 \<le> sc_bandwidth config"
    and del: "transmission_delay (sc_hop_latency config) ?K (sc_bandwidth config) = Inr delta"
    by (auto simp: config_ok_def)
  note del' = config_time_fits [OF C]
  note blk = random_block [OF wc fill size draws(1)]
  have room: "compute_m_fits_usize (sc_block_size config) num_chunks"
    using size by (simp add: compute_m_fits_usize_def num_chunks_def max_transactions_bytes_def)
  have fits: "block_fits (dl_scalar L) num_chunks m b"
    using blk(1) sim_compute_m_fits [OF room m blk(2)] L by (simp add: block_fits_def driver_lib_ok_def)
  note del3 = del bw del'
  from inv have mb: "driver_mech config (sc_baseline_degree config) (baseline_strategy ?wc) (dr_baseline st)"
    and mp: "driver_mech config (sc_rlnc_degree config)
       (pedersen_strategy (dl_scalar L) (dl_pedersen L) num_chunks) (dr_pedersen st)"
    and mf: "driver_mech config (sc_rlnc_degree config)
       (bfkw_strategy (dl_keccak256 L) (dl_scalar L) (dl_bfkw L) num_chunks) (dr_bfkw st)"
    and selves: "pedersen_self_ok (dl_scalar L, dl_pedersen L, num_chunks, m) (mc_self (dr_pedersen st))"
      "bfkw_self_ok (dl_keccak256 L, dl_scalar L, dl_bfkw L, num_chunks, m) (mc_self (dr_bfkw st))"
    by (simp_all add: driver_inv_def)
  let ?r1 = "rg_from_seed ?rg s1" and ?r2 = "rg_from_seed ?rg s2" and ?r3 = "rg_from_seed ?rg s3"
  have "length (block_write ?wc b) \<le> ?K" using blk(2) by (simp add: largest_packet_def)
  from run_baseline_ok [OF L C blk(1) this mb, of ?r1]
  obtain x1 mc1 where run1: "simulate ?lb (dl_pop_baseline L) (dr_baseline st) b ?r1 = Some (Inr (x1, mc1))"
      "driver_mech config (sc_baseline_degree config) (baseline_strategy ?wc) mc1"
      "report_ok config delta x1" "sm_nodes_decoded x1 = ?n" .
  note ped = pedersen_strategy.driver_simulate
    [where c = "(dl_scalar L, dl_pedersen L, num_chunks, m)", unfolded prod.case]
  have "32 * m + 32 * num_chunks + cd_size (pl_gcodec (dl_pedersen L)) * num_chunks +
      cd_size (pl_scodec (dl_pedersen L)) \<le> ?K" by (simp add: largest_packet_def)
  from ped [where rng = ?r2, OF selves(1) fits pop(1) mp perm deg del3 this order_refl]
  obtain x2 mc2 where run2: "simulate ?lb (dl_pop_pedersen L) (dr_pedersen st) b ?r2 = Some (Inr (x2, mc2))"
      "driver_mech config (sc_rlnc_degree config)
        (pedersen_strategy (dl_scalar L) (dl_pedersen L) num_chunks) mc2"
      "pedersen_self_ok (dl_scalar L, dl_pedersen L, num_chunks, m) (mc_self mc2)" "report_ok config delta x2"
    by (elim exE conjE) (rule that)
  note bfkw = bfkw_strategy.driver_simulate
    [where c = "(dl_keccak256 L, dl_scalar L, dl_bfkw L, num_chunks, m)", unfolded prod.case]
  have "32 * m + 32 * num_chunks + cd_size (bf_g2_codec (dl_bfkw L)) \<le> ?K"
    by (simp add: largest_packet_def)
  from bfkw [where rng = ?r3, OF selves(2) fits pop(2) mf perm deg del3 this order_refl]
  obtain x3 mc3 where run3: "simulate ?lb (dl_pop_bfkw L) (dr_bfkw st) b ?r3 = Some (Inr (x3, mc3))"
      "driver_mech config (sc_rlnc_degree config)
        (bfkw_strategy (dl_keccak256 L) (dl_scalar L) (dl_bfkw L) num_chunks) mc3"
      "bfkw_self_ok (dl_keccak256 L, dl_scalar L, dl_bfkw L, num_chunks, m) (mc_self mc3)" "report_ok config delta x3"
    by (elim exE conjE) (rule that)
  have "run_block L config st = Some (Inr (st\<lparr>dr_rng := rng3, dr_baseline := mc1, dr_pedersen := mc2,
      dr_bfkw := mc3, dr_metrics_baseline := cm_accumulate x1 (dr_metrics_baseline st),
      dr_metrics_pedersen := cm_accumulate x2 (dr_metrics_pedersen st),
      dr_metrics_bfkw := cm_accumulate x3 (dr_metrics_bfkw st)\<rparr>))"
    using draws run1(1) run2(1) run3(1) by (simp add: run_block_def thread_scope_def)
  then show ?thesis
    using inv run1(2-4) run2(2-4) run3(2-4) metrics_ok_accumulate
    by (simp add: driver_inv_def) (simp add: cm_accumulate_def)
qed

lemma run_blocks_ok:
  assumes "driver_lib_ok L" "config_ok L config m delta"
  shows "driver_inv L config m delta k st \<Longrightarrow>
    \<exists>st'. run_blocks L config j st = Some (Inr st') \<and> driver_inv L config m delta (k + j) st'"
proof (induction j arbitrary: k st)
  case (Suc j)
  from run_block_ok [OF assms Suc.prems] obtain st1 where
    "run_block L config st = Some (Inr st1)" "driver_inv L config m delta (Suc k) st1" by blast
  with Suc.IH [of "Suc k" st1] show ?case by simp
qed simp

lemma driver_start_ok:
  assumes "driver_lib_ok L"
  shows "driver_inv L config m delta 0 (driver_start L config m)"
proof -
  obtain ped rng1 where p: "pedersen_strategy_new (dl_pedersen L) (dl_generate L) m
      (rg_from_seed (dl_rng L) (sc_seed config)) = (ped, rng1)" by fastforce
  obtain bf rng2 where b: "bfkw_strategy_new (dl_bfkw L) (sl_random (dl_scalar L)) m rng1 = (bf, rng2)" by fastforce
  have "pedersen_self_ok (dl_scalar L, dl_pedersen L, num_chunks, m) ped"
    using p assms by (auto simp: pedersen_strategy_new_def pedersen_self_ok_def driver_lib_ok_def split: prod.splits)
  moreover have "bfkw_self_ok (dl_keccak256 L, dl_scalar L, dl_bfkw L, num_chunks, m) bf"
    using b assms bfkw_generate_keypair [of "dl_bfkw L" "sl_random (dl_scalar L)" rng1]
    by (auto simp: bfkw_strategy_new_def bfkw_self_ok_def driver_lib_ok_def case_prod_beta Let_def)
  ultimately show ?thesis
    by (simp add: driver_inv_def driver_start_def p b driver_mech_def mechanism_new_def metrics_ok_def cm_new_def)
qed

section \<open>The table\<close>

lemma metrics_ok_durations:
  assumes "metrics_ok config delta k cm" "k < 2 ^ 32" "k * config_time config delta < 2 ^ 64 * nanos_per_sec"
  shows "durations_fit cm"
proof -
  have "sum_list (map f (cm_blocks cm)) \<le> k * config_time config delta"
    if "\<forall>m \<in> set (cm_blocks cm). f m \<le> config_time config delta" for f :: "sim_metrics \<Rightarrow> nat"
    using that assms(1) sum_list_bounds(2) [of "map f (cm_blocks cm)" 0] by (simp add: metrics_ok_def)
  from this [of sm_propagation_time] this [of sm_p99_time] assms show ?thesis
    by (fastforce simp: durations_fit_def metrics_ok_def report_ok_def)
qed

lemma run_simulation_ok:
  assumes L: "driver_lib_ok L" and C: "config_ok L config m delta"
  shows "\<exists>st table. run_blocks L config (sc_num_blocks config) (driver_start L config m) = Some (Inr st) \<and>
    driver_inv L config m delta (sc_num_blocks config) st \<and>
    run_simulation L config m = Some (Inr (if sc_num_blocks config = 0 then None else Some table))"
proof -
  let ?k = "sc_num_blocks config"
  from run_blocks_ok [OF L C driver_start_ok [OF L]] obtain st where
    run: "run_blocks L config ?k (driver_start L config m) = Some (Inr st)"
    and inv: "driver_inv L config m delta ?k st" by auto
  let ?rs = "[dr_metrics_baseline st, dr_metrics_pedersen st, dr_metrics_bfkw st]"
  from C have k: "?k < 2 ^ 32" and T: "max 1 ?k * config_time config delta < 2 ^ 64 * nanos_per_sec"
    by (simp_all add: config_ok_def)
  have "?k * config_time config delta \<le> max 1 ?k * config_time config delta" by (intro mult_le_mono1) simp
  with T have T': "?k * config_time config delta < 2 ^ 64 * nanos_per_sec" by linarith
  have fit: "\<forall>r \<in> set ?rs. durations_fit r"
    using inv metrics_ok_durations [OF _ k T'] by (simp add: driver_inv_def)
  have len: "length (cm_blocks (dr_metrics_baseline st)) = ?k" using inv by (simp add: driver_inv_def metrics_ok_def)
  have "\<exists>table. compare ?rs = Inr (if ?k = 0 then None else Some table)"
  proof (cases "?k = 0")
    case True
    then show ?thesis using len by (simp add: compare_def)
  next
    case False
    then have "?rs \<noteq> []" "cm_blocks (hd ?rs) \<noteq> []" using len by auto
    from compare_prints [OF this] fit False show ?thesis by simp
  qed
  then show ?thesis using run inv by (auto simp: run_simulation_def)
qed

section \<open>The default configuration\<close>

text \<open>
  With no variable set: a packet of the baseline takes 100.005 ms on the link, computed in floating
  point from 2000100 bytes at 20 MB/s, and 70 ms of latency.
\<close>

lemma default_config:
  "sim_config_from_env (\<lambda>_. None) =
     \<lparr>sc_num_nodes = 1000, sc_baseline_degree = 8, sc_rlnc_degree = 40, sc_hop_latency = 70000000,
      sc_bandwidth = 20000000, sc_block_size = 2000000, sc_num_blocks = 10, sc_seed = 2025\<rparr>"
  by (simp add: sim_config_from_env_def env_or_def f64_mult_def)

lemma default_compute_m: "sim_compute_m 2000000 num_chunks = Inr 6452"
  by (simp add: sim_compute_m_def num_chunks_def block_header_bytes_def)

lemma default_quotient: "f64_round (20001 / 200000) = 7206119691762983 / 2 ^ 56"
proof -
  have e: "f64_exponent (20001 / 200000) = - 4"
    by (rule f64_exponent_unique) (simp_all add: power_int_minus)
  have u: "(2 :: rat) powi (- 4 - 52) = 1 / 2 ^ 56" by (simp add: power_int_def power_one_over)
  have "round_half_even (20001 / 200000 / (1 / 2 ^ 56)) = 7206119691762983"
    by (rule round_half_even_unique) simp
  then show ?thesis using f64_round_pos(1) [of "20001 / 200000"] by (simp add: e u)
qed

lemma default_delay: "transmission_delay 70000000 2000100 20000000 = Inr 170005000"
proof -
  have "round_half_even (7206119691762983 / 2 ^ 56 * of_nat nanos_per_sec) = 100005000"
    by (rule round_half_even_unique) (simp add: nanos_per_sec_def)
  then have "duration_from_secs_f64 (f64_div 2000100 20000000) = Inr 100005000"
    by (simp add: f64_div_def default_quotient duration_from_secs_f64_def nanos_per_sec_def Let_def)
  then show ?thesis
    by (simp add: transmission_delay_def f64_of_nat_def duration_add_def nanos_per_sec_def)
qed

lemma default_config_ok:
  assumes "cd_size (pl_gcodec (dl_pedersen L)) * 10 + cd_size (pl_scodec (dl_pedersen L)) \<le> 1000000"
    "cd_size (bf_g2_codec (dl_bfkw L)) \<le> 1000000"
  shows "config_ok L (sim_config_from_env (\<lambda>_. None)) 6452 170005000"
proof -
  have "largest_packet L 2000000 6452 = 2000100"
    using assms by (simp add: largest_packet_def num_chunks_def max_def)
  then show ?thesis
    by (simp add: config_ok_def default_config default_compute_m [unfolded num_chunks_def] default_delay max_transactions_bytes_def
        config_time_def num_chunks_def nanos_per_sec_def)
qed

end
