(* ===== verification/Props_Driver.thy ===== *)
theory Props_Driver
  imports Driver_Facts Props_Block Props_Sim
begin

text \<open>
  What the comparison binary promises: its report, and that a configuration in range ends with one.
\<close>

section \<open>Samples\<close>

text \<open>The libraries over the rationals, which have room for 31 bytes in an element.\<close>

definition wire4_ex :: wire where
  "wire4_ex =
     \<lparr>w_u64 = w_u64 wire_ex,
      w_put_bytes = (\<lambda>bs. drop 4 (to_be_bytes (ucast (of_nat (length bs) :: u32))) @ bs),
      w_bytes_size = (\<lambda>bs. 4 + length bs),
      w_get_bytes = (\<lambda>mx buf.
         if length buf < 4 then Inl EndOfBuffer
         else let len = unat (from_be_bytes (replicate 4 0 @ take 4 buf)) in
           if mx < len \<or> length (drop 4 buf) < len then Inl EndOfBuffer
           else Inr (take len (drop 4 buf), drop len (drop 4 buf))),
      w_leftover = (\<lambda>rest. if rest = [] then None else Some EndOfBuffer)\<rparr>"

lemma wire4_ex_ok: "wire_ok wire4_ex" "short_prefix wire4_ex"
proof -
  have "unat (ucast (of_nat (length bs) :: u32) :: u64) = length bs" if "length bs < 2 ^ 32" for bs :: bytes
  proof -
    have "unat (ucast x :: u64) = unat x" for x :: u32
      using unsigned_less [of x, where 'a = nat] by (simp add: unsigned_ucast_eq take_bit_nat_eq_self_iff)
    then show ?thesis using that by (simp add: unat_of_nat)
  qed
  moreover have "replicate 4 0 @ drop 4 (to_be_bytes (ucast (x :: u32))) = to_be_bytes (ucast x)" for x
    by (rule be_bytes_u32)
  ultimately show "wire_ok wire4_ex"
    using wire_ex_ok by (auto simp: wire_ok_def wire4_ex_def Let_def)
qed (simp add: short_prefix_def wire4_ex_def)

definition rat_sl :: "(rat, nat) scalar_lib" where
  "rat_sl = \<lparr>sl_wire = wire4_ex, sl_pf = scalar_packable rat_codec, sl_codec = rat_codec,
     sl_random = (\<lambda>r. (of_nat r, Suc r))\<rparr>"

definition rat_pedersen :: "(rat, rat, unit, unit, unit) pedersen_lib" where
  "rat_pedersen =
     \<lparr>pl_group = group_ex,
      pl_signer = \<lparr>sg_public_key = (\<lambda>_. ()), sg_sign = (\<lambda>_ _ _. ()), sg_verify = (\<lambda>_ _ _ _. True)\<rparr>,
      pl_gcodec = rat_codec,
      pl_scodec = \<lparr>cd_size = 0, cd_write = (\<lambda>_. []), cd_read = (\<lambda>buf. Inr ((), buf))\<rparr>,
      pl_u32 = pl_u32 pedersen_ex\<rparr>"

definition rat_bfkw :: "(rat, rat, rat) bfkw_lib" where
  "rat_bfkw = \<lparr>bf_g1 = group_ex, bf_g2 = group_ex,
     bf_minpk_verify = (\<lambda>pk hm sig. sig = pk * hm), bf_g2_codec = rat_codec\<rparr>"

definition rng_ex :: "nat std_rng" where
  "rng_ex = \<lparr>rg_from_seed = unat, rg_u8 = (\<lambda>r. (of_nat r, Suc r)), rg_u64 = (\<lambda>r. (of_nat r, Suc r)),
     rg_fill_32 = (\<lambda>r. (replicate 32 (of_nat r), Suc r))\<rparr>"

definition driver_ex :: "(rat, rat, unit, unit, unit, rat, rat, nat) driver_lib" where
  "driver_ex = \<lparr>dl_rng = rng_ex, dl_sim = lib_ex, dl_scalar = rat_sl, dl_pedersen = rat_pedersen,
     dl_generate = (\<lambda>r. ((), r)), dl_bfkw = rat_bfkw, dl_keccak256 = (\<lambda>bs. bs),
     dl_pop_baseline = pop_ex, dl_pop_pedersen = pop_ex, dl_pop_bfkw = pop_ex\<rparr>"

lemma driver_ex_ok: "driver_lib_ok driver_ex"
proof -
  have "packing_ok rat_sl" "pf_data_bytes (sl_pf rat_sl) = 31"
    using wire4_ex_ok(1) scalar_packable_ok [OF rat_codec_ok] by (simp_all add: packing_ok_def rat_sl_def scalar_packable_def)
  moreover have "bfkw_lib_ok rat_bfkw" using group_ex_ok by (simp add: bfkw_lib_ok_def rat_bfkw_def group_ex_def)
  moreover have "short_prefix (sl_wire rat_sl)" using wire4_ex_ok(2) by (simp add: rat_sl_def)
  moreover have "signer_ok (pl_signer rat_pedersen)" "group_ok (pl_group rat_pedersen)"
    using group_ex_ok by (simp_all add: rat_pedersen_def signer_ok_def)
  ultimately show ?thesis
    using lib_ex_perm by (simp add: driver_lib_ok_def driver_ex_def rng_ex_def pop_ex_ok)
qed

section \<open>The report\<close>

text \<open>
  C40: The comparison table. It is printed unless there is nothing to compare; printing panics exactly
  when some accumulator holds more than \<open>u32::MAX\<close> blocks or the durations it sums overflow. Means of
  propagation times, of p99 times and of decoded nodes lie between the least and the greatest value,
  although durations are divided as integers and node counts in floating point.
\<close>

theorem comparison_table:
  assumes "results \<noteq> []" "r \<in> set results"
    and "length (cm_blocks r) * most < 2 ^ 53"
    and "\<forall>b \<in> set (cm_blocks r). least \<le> sm_nodes_decoded b \<and> sm_nodes_decoded b \<le> most \<and>
      t1 \<le> sm_propagation_time b \<and> sm_propagation_time b \<le> t2 \<and> t1 \<le> sm_p99_time b \<and> sm_p99_time b \<le> t2"
  shows "(if cm_blocks (hd results) = [] then compare results = Inr None
      else if \<forall>r \<in> set results. durations_fit r then \<exists>t. compare results = Inr (Some t) else \<exists>e. compare results = Inl e) \<and>
    (cm_blocks r \<noteq> [] \<longrightarrow> of_nat least \<le> mean_nodes_decoded r \<and> mean_nodes_decoded r \<le> of_nat most) \<and>
    (\<forall>d. mean_propagation r = Inr d \<longrightarrow> cm_blocks r \<noteq> [] \<longrightarrow> t1 \<le> d \<and> d \<le> t2) \<and>
    (\<forall>d. mean_p99 r = Inr d \<longrightarrow> cm_blocks r \<noteq> [] \<longrightarrow> t1 \<le> d \<and> d \<le> t2)"
proof (intro conjI allI impI)
  show "if cm_blocks (hd results) = [] then compare results = Inr None
      else if \<forall>r \<in> set results. durations_fit r then \<exists>t. compare results = Inr (Some t) else \<exists>e. compare results = Inl e"
    using compare_prints [OF assms(1)] compare_nothing by simp
  assume ne: "cm_blocks r \<noteq> []"
  have "of_nat least \<le> mean_nodes_decoded r \<and> mean_nodes_decoded r \<le> of_nat most"
    using assms(3,4) by (intro mean_nodes_decoded_bounds [OF ne]) (simp_all add: mult.commute)
  then show "of_nat least \<le> mean_nodes_decoded r" "mean_nodes_decoded r \<le> of_nat most" by simp_all
next
  fix d assume d: "mean_propagation r = Inr d" and ne: "cm_blocks r \<noteq> []"
  from mean_duration_bounds [OF d [unfolded mean_propagation_def] ne, of t1 t2] assms(4)
  show "t1 \<le> d" "d \<le> t2" by simp_all
next
  fix d assume d: "mean_p99 r = Inr d" and ne: "cm_blocks r \<noteq> []"
  from mean_duration_bounds [OF d [unfolded mean_p99_def] ne, of t1 t2] assms(4)
  show "t1 \<le> d" "d \<le> t2" by simp_all
qed

definition report_ex :: "nat \<Rightarrow> nat \<Rightarrow> sim_metrics" where
  "report_ex decoded t = sim_metrics_of (mech_ex (baseline_strategy wire_ex) ()) 104
     \<lparr>ss_states = [\<lparr>bn_block_bytes = None\<rparr>], ss_upload = [0, 0, 0], ss_download = [0, 0, 0],
      ss_decode_times = replicate decoded (Some t), ss_has_forwarded = [True, True, True], ss_total_packets = 1,
      ss_useful_packets = 1, ss_redundant_packets = 0, ss_queue = [], ss_rng = 1\<rparr>"

lemma report_ex_values:
  assumes "0 < n"
  shows "sm_nodes_decoded (report_ex n t) = n" "sm_propagation_time (report_ex n t) = t"
    "sm_p99_time (report_ex n t) = t"
proof -
  have s: "sort (map the (replicate n (Some t))) = replicate n t" by (simp add: sorted_sort_id)
  have f: "filter (\<lambda>t. t \<noteq> None) (replicate n (Some t)) = replicate n (Some t)" by simp
  note d = report_ex_def sim_metrics_of_def Let_def sim_state.simps sim_metrics.simps f s
  show "sm_nodes_decoded (report_ex n t) = n" unfolding d by simp
  show "sm_propagation_time (report_ex n t) = t" unfolding d using assms by simp
  show "sm_p99_time (report_ex n t) = t"
    unfolding d using percentile_idx_less [OF assms] by (simp add: time_at_def)
qed

theorem comparison_table_witness:
  "let r = \<lparr>cm_name = ''Baseline'', cm_blocks = [report_ex 2 6, report_ex 3 7]\<rparr>; results = [r] in
    (if cm_blocks (hd results) = [] then compare results = Inr None
      else if \<forall>r \<in> set results. durations_fit r then \<exists>t. compare results = Inr (Some t)
      else \<exists>e. compare results = Inl e) \<and>
    (cm_blocks r \<noteq> [] \<longrightarrow> of_nat 2 \<le> mean_nodes_decoded r \<and> mean_nodes_decoded r \<le> of_nat 3) \<and>
    (\<forall>d. mean_propagation r = Inr d \<longrightarrow> cm_blocks r \<noteq> [] \<longrightarrow> 6 \<le> d \<and> d \<le> 7) \<and>
    (\<forall>d. mean_p99 r = Inr d \<longrightarrow> cm_blocks r \<noteq> [] \<longrightarrow> 6 \<le> d \<and> d \<le> 7)"
  unfolding Let_def by (rule comparison_table) (simp_all add: report_ex_values)

section \<open>The whole comparison\<close>

text \<open>
  C22: The comparison completes. With libraries as documented and an environment that gives a
  configuration in range (degrees positive and below the number of nodes, at most 16 MiB of
  transactions, times and counts that fit their types), \<open>main\<close> of the comparison ends without a panic
  and logs a table unless there are no blocks. Each strategy then has one report per block, in every
  report of the baseline all nodes decoded, and its mean of decoded nodes is exactly their number.
\<close>

theorem comparison_completes:
  assumes "driver_lib_ok L" and "config_ok L (sim_config_from_env env) m delta"
  shows "let config = sim_config_from_env env; k = sc_num_blocks config in
    \<exists>st table. run_blocks L config k (driver_start L config m) = Some (Inr st) \<and>
      compare_main L env = Some (Inr (if k = 0 then None else Some table)) \<and>
      length (cm_blocks (dr_metrics_baseline st)) = k \<and> length (cm_blocks (dr_metrics_pedersen st)) = k \<and>
      length (cm_blocks (dr_metrics_bfkw st)) = k \<and>
      (\<forall>r \<in> set (cm_blocks (dr_metrics_baseline st)). sm_nodes_decoded r = sc_num_nodes config) \<and>
      (0 < k \<longrightarrow> mean_nodes_decoded (dr_metrics_baseline st) = of_nat (sc_num_nodes config))"
proof -
  define config where "config = sim_config_from_env env"
  let ?n = "sc_num_nodes config" and ?k = "sc_num_blocks config"
  note C = assms(2) [folded config_def]
  from run_simulation_ok [OF assms(1) C] obtain st table where
    run: "run_blocks L config ?k (driver_start L config m) = Some (Inr st)"
    and inv: "driver_inv L config m delta ?k st"
    and out: "run_simulation L config m = Some (Inr (if ?k = 0 then None else Some table))"
    by (elim exE conjE) (rule that)
  let ?b = "dr_metrics_baseline st"
  from inv have len: "length (cm_blocks ?b) = ?k" "length (cm_blocks (dr_metrics_pedersen st)) = ?k"
      "length (cm_blocks (dr_metrics_bfkw st)) = ?k"
    and all: "\<forall>r \<in> set (cm_blocks ?b). sm_nodes_decoded r = ?n"
    by (simp_all add: driver_inv_def metrics_ok_def)
  have "mean_nodes_decoded ?b = of_nat ?n" if "0 < ?k"
  proof -
    have "cm_blocks ?b \<noteq> []" using that len(1) by auto
    moreover have "?n * length (cm_blocks ?b) < 2 ^ 53" using C len(1) by (simp add: config_ok_def mult.commute)
    ultimately have "of_nat ?n \<le> mean_nodes_decoded ?b \<and> mean_nodes_decoded ?b \<le> of_nat ?n"
      using all by (intro mean_nodes_decoded_bounds) simp_all
    then show ?thesis by simp
  qed
  moreover have "compare_main L env = Some (Inr (if ?k = 0 then None else Some table))"
    using C out by (simp add: compare_main_def config_def [symmetric] config_ok_def)
  ultimately show ?thesis using run len all unfolding config_def [symmetric] Let_def
    by (intro exI [of _ st] exI [of _ table]) simp
qed

text \<open>The witness is the default configuration: 1000 nodes, ten blocks of 2 MB.\<close>

theorem comparison_completes_witness:
  "let config = sim_config_from_env (\<lambda>_. None); k = sc_num_blocks config in
    \<exists>st table. run_blocks driver_ex config k (driver_start driver_ex config 6452) = Some (Inr st) \<and>
      compare_main driver_ex (\<lambda>_. None) = Some (Inr (if k = 0 then None else Some table)) \<and>
      length (cm_blocks (dr_metrics_baseline st)) = k \<and> length (cm_blocks (dr_metrics_pedersen st)) = k \<and>
      length (cm_blocks (dr_metrics_bfkw st)) = k \<and>
      (\<forall>r \<in> set (cm_blocks (dr_metrics_baseline st)). sm_nodes_decoded r = sc_num_nodes config) \<and>
      (0 < k \<longrightarrow> mean_nodes_decoded (dr_metrics_baseline st) = of_nat (sc_num_nodes config))"
  by (rule comparison_completes [OF driver_ex_ok default_config_ok])
     (simp_all add: driver_ex_def rat_pedersen_def rat_bfkw_def rat_codec_def)

end
