(* ===== verification/Node_Config.thy ===== *)
theory Node_Config
  imports Text
begin

text \<open>
  \<open>crates/node/src/config.rs\<close>: the configuration of a node and the peer list, loaded from YAML files.

  A YAML text is read into a \<open>yaml\<close> value by the library (\<open>serde_yaml\<close>, a parameter). What the derived
  \<open>Deserialize\<close> makes of the value follows the attributes of the fields: names, types, defaults. It
  does not say which error a bad value gives.
\<close>

section \<open>YAML values\<close>

datatype yaml =
    YNull
  | YBool bool
  | YInt int
  | YString string
  | YSeq "yaml list"
  | YMap "(string \<times> yaml) list"

fun as_string :: "yaml \<Rightarrow> string option" where
  "as_string (YString s) = Some s"
| "as_string _ = None"

fun as_bool :: "yaml \<Rightarrow> bool option" where
  "as_bool (YBool b) = Some b"
| "as_bool _ = None"

fun as_unsigned :: "nat \<Rightarrow> yaml \<Rightarrow> nat option" where
  "as_unsigned mx (YInt i) = (if 0 \<le> i \<and> i \<le> int mx then Some (nat i) else None)"
| "as_unsigned mx _ = None"

fun as_option :: "(yaml \<Rightarrow> 'a option) \<Rightarrow> yaml \<Rightarrow> 'a option option" where
  "as_option read YNull = Some None"
| "as_option read v = map_option Some (read v)"

definition max_u16 :: nat where "max_u16 = 2 ^ 16 - 1"
definition max_u64 :: nat where "max_u64 = 2 ^ 64 - 1"

text \<open>A field of the derived \<open>Deserialize\<close>; \<open>default\<close> is its \<open>serde\<close> attribute, if it has one.\<close>

definition get_field :: "(yaml \<Rightarrow> 'a option) \<Rightarrow> 'a option \<Rightarrow> (string \<times> yaml) list \<Rightarrow> string \<Rightarrow> 'a option" where
  "get_field read dflt m name = (case map_of m name of None \<Rightarrow> dflt | Some v \<Rightarrow> read v)"

section \<open>Configuration\<close>

definition default_block_size :: nat where "default_block_size = 2000000"
definition default_num_blocks :: nat where "default_num_blocks = 10"
definition default_block_interval :: nat where "default_block_interval = 5"
definition default_startup_delay :: nat where "default_startup_delay = 10"
definition default_mesh_degree :: nat where "default_mesh_degree = 8"
definition default_log_level :: string where "default_log_level = ''info''"
definition default_local :: bool where "default_local = True"
definition default_directory :: string where "default_directory = ''./data/node''"
definition default_seed :: nat where "default_seed = 42"

record node_config =
  nc_private_key :: string
  nc_port :: nat
  nc_metrics_port :: nat
  nc_strategy :: string
  nc_role :: string
  nc_proposer_signing_key :: "string option"
  nc_proposer_public_key :: string
  nc_block_size :: nat
  nc_num_blocks :: nat
  nc_block_interval_secs :: nat
  nc_startup_delay_secs :: nat
  nc_mesh_degree :: nat
  nc_log_level :: string
  nc_local :: bool
  nc_directory :: string
  nc_seed :: nat
  nc_dialable_address :: "string option"

record peer_entry =
  pe_public_key :: string
  pe_address :: string

definition node_config_fields :: "(string \<times> yaml) list \<Rightarrow> node_config option" where
  "node_config_fields m =
     Option.bind (get_field as_string None m ''private_key'') (\<lambda>private_key.
     Option.bind (get_field (as_unsigned max_u16) None m ''port'') (\<lambda>port.
     Option.bind (get_field (as_unsigned max_u16) None m ''metrics_port'') (\<lambda>metrics_port.
     Option.bind (get_field as_string None m ''strategy'') (\<lambda>strategy.
     Option.bind (get_field as_string None m ''role'') (\<lambda>role.
     Option.bind (get_field (as_option as_string) (Some None) m ''proposer_signing_key'') (\<lambda>signing_key.
     Option.bind (get_field as_string None m ''proposer_public_key'') (\<lambda>public_key.
     Option.bind (get_field (as_unsigned max_u64) (Some default_block_size) m ''block_size'') (\<lambda>block_size.
     Option.bind (get_field (as_unsigned max_u64) (Some default_num_blocks) m ''num_blocks'') (\<lambda>num_blocks.
     Option.bind (get_field (as_unsigned max_u64) (Some default_block_interval) m ''block_interval_secs'') (\<lambda>interval.
     Option.bind (get_field (as_unsigned max_u64) (Some default_startup_delay) m ''startup_delay_secs'') (\<lambda>delay.
     Option.bind (get_field (as_unsigned max_u64) (Some default_mesh_degree) m ''mesh_degree'') (\<lambda>mesh_degree.
     Option.bind (get_field as_string (Some default_log_level) m ''log_level'') (\<lambda>log_level.
     Option.bind (get_field as_bool (Some default_local) m ''local'') (\<lambda>local.
     Option.bind (get_field as_string (Some default_directory) m ''directory'') (\<lambda>directory.
     Option.bind (get_field (as_unsigned max_u64) (Some default_seed) m ''seed'') (\<lambda>seed.
     Option.bind (get_field (as_option as_string) (Some None) m ''dialable_address'') (\<lambda>dialable_address.
       Some \<lparr>nc_private_key = private_key, nc_port = port, nc_metrics_port = metrics_port,
         nc_strategy = strategy, nc_role = role, nc_proposer_signing_key = signing_key,
         nc_proposer_public_key = public_key, nc_block_size = block_size, nc_num_blocks = num_blocks,
         nc_block_interval_secs = interval, nc_startup_delay_secs = delay, nc_mesh_degree = mesh_degree,
         nc_log_level = log_level, nc_local = local, nc_directory = directory, nc_seed = seed,
         nc_dialable_address = dialable_address\<rparr>)))))))))))))))))"

text \<open>A field that occurs twice is an error.\<close>

fun node_config_of_yaml :: "yaml \<Rightarrow> node_config option" where
  "node_config_of_yaml (YMap m) = (if distinct (map fst m) then node_config_fields m else None)"
| "node_config_of_yaml _ = None"

fun peer_entry_of_yaml :: "yaml \<Rightarrow> peer_entry option" where
  "peer_entry_of_yaml (YMap m) =
     (if distinct (map fst m)
      then Option.bind (get_field as_string None m ''public_key'') (\<lambda>public_key.
           Option.bind (get_field as_string None m ''address'') (\<lambda>address.
             Some \<lparr>pe_public_key = public_key, pe_address = address\<rparr>))
      else None)"
| "peer_entry_of_yaml _ = None"

fun peers_of_yaml :: "yaml \<Rightarrow> peer_entry list option" where
  "peers_of_yaml (YSeq vs) = those (map peer_entry_of_yaml vs)"
| "peers_of_yaml _ = None"

section \<open>Loading\<close>

datatype load_error = FailedToRead | FailedToParse

text \<open>\<open>read_file\<close> is \<open>fs::read_to_string\<close>; \<open>yaml_read\<close> the library's parser of the text.\<close>

definition load_file ::
  "(string \<Rightarrow> string option) \<Rightarrow> (string \<Rightarrow> yaml option) \<Rightarrow> (yaml \<Rightarrow> 'a option) \<Rightarrow> string \<Rightarrow> load_error + 'a" where
  "load_file read_file yaml_read of_yaml path =
     (case read_file path of None \<Rightarrow> Inl FailedToRead
      | Some contents \<Rightarrow> (case Option.bind (yaml_read contents) of_yaml of
          None \<Rightarrow> Inl FailedToParse | Some x \<Rightarrow> Inr x))"

definition node_config_load ::
  "(string \<Rightarrow> string option) \<Rightarrow> (string \<Rightarrow> yaml option) \<Rightarrow> string \<Rightarrow> load_error + node_config" where
  "node_config_load read_file yaml_read path = load_file read_file yaml_read node_config_of_yaml path"

definition load_peers ::
  "(string \<Rightarrow> string option) \<Rightarrow> (string \<Rightarrow> yaml option) \<Rightarrow> string \<Rightarrow> load_error + peer_entry list" where
  "load_peers read_file yaml_read path = load_file read_file yaml_read peers_of_yaml path"

end
