(* ===== verification/Deploy.thy ===== *)
theory Deploy
  imports Node_Config "HOL-Library.AList" "HOL-Library.List_Lexorder"
begin

text \<open>
  \<open>crates/deploy/src/main.rs\<close>: the generator of configurations for a network of nodes, on one machine
  or in containers.

  Keys, hexadecimal, YAML and the random generator are library code: the records \<open>key_lib\<close> and
  \<open>yaml_lib\<close>. The file system is a value: files by path, created directories, printed lines; its
  operations are taken to succeed (the code aborts when one fails). Ports are \<open>u16\<close> and seeds \<open>u64\<close>
  words; on overflow they wrap, as in a release build (a debug build aborts).
\<close>

section \<open>Libraries\<close>

record ('r, 'ek, 'ep, 'bk, 'bp) key_lib =
  kl_seed_from_u64 :: "u64 \<Rightarrow> 'r"                    \<comment> \<open>\<open>ChaCha20Rng\<close>\<close>
  kl_from_seed :: "bytes \<Rightarrow> 'r"
  kl_hex_encode :: "bytes \<Rightarrow> string"
  kl_hex_decode :: "string \<Rightarrow> bytes option"
  kl_ed_random :: "'r \<Rightarrow> 'ek \<times> 'r"                  \<comment> \<open>\<open>ed25519\<close>\<close>
  kl_ed_public :: "'ek \<Rightarrow> 'ep"
  kl_ed_write :: "'ek \<Rightarrow> bytes"
  kl_ed_read :: "bytes \<Rightarrow> 'ek option"
  kl_ed_bytes :: "'ep \<Rightarrow> bytes"
  kl_ed_read_public :: "bytes \<Rightarrow> 'ep option"
  kl_bls_random :: "'r \<Rightarrow> 'bk \<times> 'r"                 \<comment> \<open>\<open>bls12381\<close>\<close>
  kl_bls_public :: "'bk \<Rightarrow> 'bp"
  kl_bls_bytes :: "'bp \<Rightarrow> bytes"
  kl_bls_read_public :: "bytes \<Rightarrow> 'bp option"

record yaml_lib =
  yl_print :: "yaml \<Rightarrow> string"
  yl_read :: "string \<Rightarrow> yaml option"

record world =
  wd_files :: "(string \<times> string) list"
  wd_dirs :: "string list"
  wd_printed :: "string list"

definition fs_create_dir_all :: "string \<Rightarrow> world \<Rightarrow> world" where
  "fs_create_dir_all dir w = w\<lparr>wd_dirs := List.insert dir (wd_dirs w)\<rparr>"

definition fs_write :: "string \<Rightarrow> string \<Rightarrow> world \<Rightarrow> world" where
  "fs_write path contents w = w\<lparr>wd_files := AList.update path contents (wd_files w)\<rparr>"

definition fs_read :: "world \<Rightarrow> string \<Rightarrow> string option" where
  "fs_read w path = map_of (wd_files w) path"

definition print_line :: "string \<Rightarrow> world \<Rightarrow> world" where
  "print_line s w = w\<lparr>wd_printed := wd_printed w @ [s]\<rparr>"

text \<open>\<open>Path::join\<close> of a relative name.\<close>

definition path_join :: "string \<Rightarrow> string \<Rightarrow> string" where
  "path_join dir name = (if dir = [] \<or> last dir = CHR ''/'' then dir @ name else dir @ CHR ''/'' # name)"

text \<open>The name of an entry of the directory, as \<open>read_dir\<close> gives it.\<close>

definition entry_name :: "string \<Rightarrow> string \<Rightarrow> string option" where
  "entry_name dir path =
     (case strip_prefix (path_join dir []) path of None \<Rightarrow> None
      | Some name \<Rightarrow> if name = [] \<or> CHR ''/'' \<in> set name then None else Some name)"

section \<open>Configurations as YAML\<close>

text \<open>
  The derived \<open>Serialize\<close> of \<open>NodeConfigYaml\<close>, whose fields are those of \<open>NodeConfig\<close>: an optional
  field is left out when it is \<open>None\<close>.
\<close>

definition optional_field :: "string \<Rightarrow> string option \<Rightarrow> (string \<times> yaml) list" where
  "optional_field name v = (case v of None \<Rightarrow> [] | Some s \<Rightarrow> [(name, YString s)])"

definition node_config_yaml :: "node_config \<Rightarrow> yaml" where
  "node_config_yaml c =
     YMap ([(''private_key'', YString (nc_private_key c)), (''port'', YInt (int (nc_port c))),
            (''metrics_port'', YInt (int (nc_metrics_port c))), (''strategy'', YString (nc_strategy c)),
            (''role'', YString (nc_role c))] @
       optional_field ''proposer_signing_key'' (nc_proposer_signing_key c) @
       [(''proposer_public_key'', YString (nc_proposer_public_key c)),
        (''block_size'', YInt (int (nc_block_size c))), (''num_blocks'', YInt (int (nc_num_blocks c))),
        (''block_interval_secs'', YInt (int (nc_block_interval_secs c))),
        (''startup_delay_secs'', YInt (int (nc_startup_delay_secs c))),
        (''mesh_degree'', YInt (int (nc_mesh_degree c))), (''log_level'', YString (nc_log_level c)),
        (''local'', YBool (nc_local c)), (''directory'', YString (nc_directory c)),
        (''seed'', YInt (int (nc_seed c)))] @
       optional_field ''dialable_address'' (nc_dialable_address c))"

definition peer_entry_yaml :: "peer_entry \<Rightarrow> yaml" where
  "peer_entry_yaml e =
     YMap [(''public_key'', YString (pe_public_key e)), (''address'', YString (pe_address e))]"

section \<open>Keys\<close>

definition hex_0x :: "('r, 'ek, 'ep, 'bk, 'bp) key_lib \<Rightarrow> bytes \<Rightarrow> string" where
  "hex_0x K bs = ''0x'' @ kl_hex_encode K bs"

fun random_keys :: "('r, 'ek, 'ep, 'bk, 'bp) key_lib \<Rightarrow> nat \<Rightarrow> 'r \<Rightarrow> ('ek \<times> 'ep) list" where
  "random_keys K 0 rng = []"
| "random_keys K (Suc n) rng =
     (let (sk, rng') = kl_ed_random K rng in (sk, kl_ed_public K sk) # random_keys K n rng')"

definition network_keys :: "('r, 'ek, 'ep, 'bk, 'bp) key_lib \<Rightarrow> nat \<Rightarrow> u64 \<Rightarrow> ('ek \<times> 'ep) list" where
  "network_keys K nodes seed =
     sort_key (\<lambda>(sk, pk). kl_ed_bytes K pk) (random_keys K nodes (kl_seed_from_u64 K seed))"

definition proposer_seed :: "u64 \<Rightarrow> bytes" where
  "proposer_seed seed = to_le_bytes (seed + 1000) @ replicate 24 0"

definition proposer_public_key_hex :: "('r, 'ek, 'ep, 'bk, 'bp) key_lib \<Rightarrow> u64 \<Rightarrow> string" where
  "proposer_public_key_hex K seed =
     (let (bls_sk, _) = kl_bls_random K (kl_from_seed K (proposer_seed seed)) in
      hex_0x K (kl_bls_bytes K (kl_bls_public K bls_sk)))"

section \<open>A network on one machine\<close>

definition local_port :: "u16 \<Rightarrow> nat \<Rightarrow> u16" where
  "local_port start_port i = start_port + of_nat i * 2"

definition local_config ::
  "('r, 'ek, 'ep, 'bk, 'bp) key_lib \<Rightarrow> string \<Rightarrow> nat \<Rightarrow> nat \<Rightarrow> u64 \<Rightarrow> u16 \<Rightarrow> string \<Rightarrow> u64 \<Rightarrow> nat \<Rightarrow> 'ek \<Rightarrow>
   node_config" where
  "local_config K strategy block_size mesh_degree num_blocks start_port output seed i sk =
     \<lparr>nc_private_key = hex_0x K (kl_ed_write K sk),
      nc_port = unat (local_port start_port i),
      nc_metrics_port = unat (local_port start_port i + 1),
      nc_strategy = strategy,
      nc_role = (if i = 0 then ''proposer'' else ''receiver''),
      nc_proposer_signing_key = (if i = 0 then Some (hex_0x K (proposer_seed seed)) else None),
      nc_proposer_public_key = proposer_public_key_hex K seed,
      nc_block_size = block_size, nc_num_blocks = unat num_blocks, nc_block_interval_secs = 5,
      nc_startup_delay_secs = 10, nc_mesh_degree = mesh_degree, nc_log_level = ''info'',
      nc_local = True, nc_directory = output @ ''/data/node-'' @ show_nat i,
      nc_seed = unat (seed + of_nat i), nc_dialable_address = None\<rparr>"

definition local_peer :: "('r, 'ek, 'ep, 'bk, 'bp) key_lib \<Rightarrow> u16 \<Rightarrow> nat \<Rightarrow> 'ep \<Rightarrow> peer_entry" where
  "local_peer K start_port i pk =
     \<lparr>pe_public_key = hex_0x K (kl_ed_bytes K pk),
      pe_address = ''127.0.0.1:'' @ show_nat (unat (local_port start_port i))\<rparr>"

definition write_peers :: "yaml_lib \<Rightarrow> string \<Rightarrow> peer_entry list \<Rightarrow> world \<Rightarrow> world" where
  "write_peers Y output entries w =
     fs_write (path_join output ''peers.yaml'') (yl_print Y (YSeq (map peer_entry_yaml entries))) w"

definition node_file :: "string \<Rightarrow> nat \<Rightarrow> string" where
  "node_file output i = path_join output (''node-'' @ show_nat i @ ''.yaml'')"

definition write_config :: "yaml_lib \<Rightarrow> string \<Rightarrow> nat \<Rightarrow> node_config \<Rightarrow> world \<Rightarrow> world" where
  "write_config Y output i c w = fs_write (node_file output i) (yl_print Y (node_config_yaml c)) w"

definition generate_local ::
  "('r, 'ek, 'ep, 'bk, 'bp) key_lib \<Rightarrow> yaml_lib \<Rightarrow> nat \<Rightarrow> string \<Rightarrow> nat \<Rightarrow> nat \<Rightarrow> u64 \<Rightarrow> u16 \<Rightarrow> string \<Rightarrow>
   u64 \<Rightarrow> world \<Rightarrow> world" where
  "generate_local K Y nodes strategy block_size mesh_degree num_blocks start_port output seed w =
     (let w = fs_create_dir_all output w;
          keys = zip [0..<nodes] (network_keys K nodes seed);
          w = write_peers Y output (map (\<lambda>(i, sk, pk). local_peer K start_port i pk) keys) w;
          w = fold (\<lambda>(i, sk, pk). write_config Y output i
                (local_config K strategy block_size mesh_degree num_blocks start_port output seed i sk)) keys w;
          w = print_line (''Generated configs in '' @ output @ ''/'') w;
          w = print_line [] w;
          w = print_line ''Start commands:'' w in
      fold (\<lambda>i. print_line (''  cargo run --release --bin node -- --peers '' @ output @
              ''/peers.yaml --config '' @ output @ ''/node-'' @ show_nat i @ ''.yaml'')) [0..<nodes] w)"

section \<open>A network of containers\<close>

definition docker_address :: "u16 \<Rightarrow> nat \<Rightarrow> string" where
  "docker_address p2p_port i = ''node-'' @ show_nat i @ '':'' @ show_nat (unat p2p_port)"

definition docker_config ::
  "('r, 'ek, 'ep, 'bk, 'bp) key_lib \<Rightarrow> string \<Rightarrow> nat \<Rightarrow> nat \<Rightarrow> u64 \<Rightarrow> u16 \<Rightarrow> u16 \<Rightarrow> u64 \<Rightarrow> u64 \<Rightarrow> u64 \<Rightarrow> nat \<Rightarrow>
   'ek \<Rightarrow> node_config" where
  "docker_config K strategy block_size mesh_degree num_blocks p2p_port metrics_port seed
     block_interval_secs startup_delay_secs i sk =
     \<lparr>nc_private_key = hex_0x K (kl_ed_write K sk),
      nc_port = unat p2p_port, nc_metrics_port = unat metrics_port,
      nc_strategy = strategy,
      nc_role = (if i = 0 then ''proposer'' else ''receiver''),
      nc_proposer_signing_key = (if i = 0 then Some (hex_0x K (proposer_seed seed)) else None),
      nc_proposer_public_key = proposer_public_key_hex K seed,
      nc_block_size = block_size, nc_num_blocks = unat num_blocks,
      nc_block_interval_secs = unat block_interval_secs,
      nc_startup_delay_secs = unat startup_delay_secs, nc_mesh_degree = mesh_degree,
      nc_log_level = ''info'', nc_local = True, nc_directory = ''/data'',
      nc_seed = unat (seed + of_nat i), nc_dialable_address = Some (docker_address p2p_port i)\<rparr>"

definition docker_peer :: "('r, 'ek, 'ep, 'bk, 'bp) key_lib \<Rightarrow> u16 \<Rightarrow> nat \<Rightarrow> 'ep \<Rightarrow> peer_entry" where
  "docker_peer K p2p_port i pk =
     \<lparr>pe_public_key = hex_0x K (kl_ed_bytes K pk), pe_address = docker_address p2p_port i\<rparr>"

text \<open>Node configurations of an earlier run are removed first.\<close>

definition stale :: "string \<Rightarrow> string \<Rightarrow> bool" where
  "stale output path =
     (case entry_name output path of None \<Rightarrow> False
      | Some name \<Rightarrow> take 5 name = ''node-'' \<and> 5 \<le> length name \<and> drop (length name - 5) name = ''.yaml'')"

definition remove_stale :: "string \<Rightarrow> world \<Rightarrow> world" where
  "remove_stale output w = w\<lparr>wd_files := filter (\<lambda>(path, _). \<not> stale output path) (wd_files w)\<rparr>"

definition lines_text :: "string list \<Rightarrow> string" where
  "lines_text ls = concat (map (\<lambda>l. l @ nl) ls)"

definition dquote :: string where "dquote = [char_of (34 :: nat)]"

definition squote :: string where "squote = [char_of (39 :: nat)]"

definition service_text :: "nat \<Rightarrow> string" where
  "service_text i =
     (let name = ''node-'' @ show_nat i; q = (\<lambda>s. dquote @ s @ dquote) in
      lines_text
       [''  '' @ name @ '':'',
        ''    image: rlnc-node:latest'',
        ''    container_name: '' @ name,
        ''    hostname: '' @ name,
        ''    networks: [rlnc-net]'',
        ''    environment:'',
        ''      - RUST_LOG=debug'',
        ''    volumes:'',
        ''      - ./'' @ name @ ''.yaml:/config/node.yaml:ro'',
        ''      - ./peers.yaml:/config/peers.yaml:ro'',
        ''    command: ['' @ q ''--config'' @ '', '' @ q ''/config/node.yaml'' @ '', '' @
          q ''--peers'' @ '', '' @ q ''/config/peers.yaml'' @ '']'',
        []])"

definition prometheus_text :: "u16 \<Rightarrow> string" where
  "prometheus_text prom_host_port =
     lines_text
      [''  prometheus:'',
       ''    image: prom/prometheus:v2.51.0'',
       ''    profiles: [monitoring]'',
       ''    container_name: prometheus'',
       ''    hostname: prometheus'',
       ''    networks: [rlnc-net]'',
       ''    volumes:'',
       ''      - ./prometheus.yml:/etc/prometheus/prometheus.yml:ro'',
       ''    ports:'',
       ''      - '' @ dquote @ show_nat (unat prom_host_port) @ '':9090'' @ dquote,
       []]"

definition compose_text :: "nat \<Rightarrow> u16 \<Rightarrow> bool \<Rightarrow> string" where
  "compose_text nodes metrics_port monitoring =
     ''services:'' @ nl @ concat (map service_text [0..<nodes]) @
     (if monitoring then prometheus_text (metrics_port + of_nat nodes + 1) else []) @
     lines_text [''networks:'', ''  rlnc-net:'', ''    driver: bridge'', ''    enable_ipv6: true'']"

definition scrape_text :: "nat \<Rightarrow> u16 \<Rightarrow> string" where
  "scrape_text nodes metrics_port =
     lines_text
      [''global:'',
       ''  scrape_interval: 5s'',
       ''scrape_configs:'',
       ''  - job_name: rlnc-nodes'',
       ''    static_configs:'',
       ''      - targets: ['' @ join '', '' (map (\<lambda>i. squote @ ''node-'' @ show_nat i @ '':'' @
          show_nat (unat metrics_port) @ squote) [0..<nodes]) @ '']'']"

definition docker_summary :: "nat \<Rightarrow> u16 \<Rightarrow> string \<Rightarrow> bool \<Rightarrow> string list" where
  "docker_summary nodes metrics_port output monitoring =
     [''Generated Docker configs in '' @ output @ ''/'', [],
      ''Build:    docker build -t rlnc-node:latest .'',
      ''Run:      cd '' @ output @ '' && docker compose up''] @
     (if monitoring
      then let prom_host_port = metrics_port + of_nat nodes in
           [''Monitor:  cd '' @ output @ '' && docker compose --profile monitoring up'',
            ''Prometheus UI: http://localhost:'' @ show_nat (unat prom_host_port)]
      else []) @
     [''Down:     cd '' @ output @ '' && docker compose down'']"

definition generate_docker ::
  "('r, 'ek, 'ep, 'bk, 'bp) key_lib \<Rightarrow> yaml_lib \<Rightarrow> nat \<Rightarrow> string \<Rightarrow> nat \<Rightarrow> nat \<Rightarrow> u64 \<Rightarrow> u16 \<Rightarrow> u16 \<Rightarrow> string \<Rightarrow>
   u64 \<Rightarrow> u64 \<Rightarrow> u64 \<Rightarrow> bool \<Rightarrow> world \<Rightarrow> world" where
  "generate_docker K Y nodes strategy block_size mesh_degree num_blocks p2p_port metrics_port output
     seed block_interval_secs startup_delay_secs monitoring w =
     (let w = remove_stale output (fs_create_dir_all output w);
          keys = zip [0..<nodes] (network_keys K nodes seed);
          w = write_peers Y output (map (\<lambda>(i, sk, pk). docker_peer K p2p_port i pk) keys) w;
          w = fold (\<lambda>(i, sk, pk). write_config Y output i
                (docker_config K strategy block_size mesh_degree num_blocks p2p_port metrics_port seed
                   block_interval_secs startup_delay_secs i sk)) keys w;
          w = fs_write (path_join output ''docker-compose.yml'') (compose_text nodes metrics_port monitoring) w;
          w = (if monitoring
               then fs_write (path_join output ''prometheus.yml'') (scrape_text nodes metrics_port) w
               else w) in
      fold print_line (docker_summary nodes metrics_port output monitoring) w)"

text \<open>The subcommands, with the arguments \<open>clap\<close> has parsed, and \<open>main\<close>.\<close>

datatype command =
    Local nat string nat nat u64 u16 string u64
  | Docker nat string nat nat u64 u16 u16 string u64 u64 u64 bool

text \<open>The commands with every argument left to its default value.\<close>

definition local_defaults :: command where
  "local_defaults = Local 5 ''pedersen'' 2000000 8 5 3000 ''/tmp/rlnc'' 42"

definition docker_defaults :: command where
  "docker_defaults = Docker 5 ''pedersen'' 2000000 8 5 3000 9090 ''./docker'' 42 5 10 False"

fun deploy_main :: "('r, 'ek, 'ep, 'bk, 'bp) key_lib \<Rightarrow> yaml_lib \<Rightarrow> command \<Rightarrow> world \<Rightarrow> world" where
  "deploy_main K Y (Local nodes strategy block_size mesh_degree num_blocks start_port output seed) w =
     generate_local K Y nodes strategy block_size mesh_degree num_blocks start_port output seed w"
| "deploy_main K Y (Docker nodes strategy block_size mesh_degree num_blocks p2p_port metrics_port output
       seed block_interval_secs startup_delay_secs monitoring) w =
     generate_docker K Y nodes strategy block_size mesh_degree num_blocks p2p_port metrics_port output
       seed block_interval_secs startup_delay_secs monitoring w"

end
