(* ===== verification/Address.thy ===== *)
theory Address
  imports Text
begin

text \<open>
  Addresses: \<open>core::net\<close>'s parser of \<open>SocketAddr\<close> as far as the sources use it, and the addresses a
  node dials, read from the text \<open>host:port\<close> by \<open>crates/node/src/main.rs\<close> (\<open>Ingress\<close> of the P2P
  library). The parser of the bracketed IPv6 form and the check of host names are parameters.
\<close>

section \<open>Socket addresses\<close>

datatype socket_addr =
    SocketV4 nat nat nat nat nat
  | SocketV6 "nat list" nat

definition is_digit :: "char \<Rightarrow> bool" where
  "is_digit c \<longleftrightarrow> parse_digit c \<noteq> None"

text \<open>\<open>read_number\<close>: at most \<open>max_digits\<close> digits (zero: any number), no leading zero unless allowed.\<close>

definition read_number :: "nat \<Rightarrow> nat \<Rightarrow> bool \<Rightarrow> string \<Rightarrow> (nat \<times> string) option" where
  "read_number max_value max_digits allow_zero_prefix s =
     (let ds = takeWhile is_digit s in
      if ds = [] \<or> (0 < max_digits \<and> max_digits < length ds) \<or>
         (\<not> allow_zero_prefix \<and> hd ds = CHR ''0'' \<and> 1 < length ds) then None
      else case parse_digits 0 ds of None \<Rightarrow> None
        | Some n \<Rightarrow> if n \<le> max_value then Some (n, dropWhile is_digit s) else None)"

definition read_char :: "char \<Rightarrow> string \<Rightarrow> string option" where
  "read_char c s = (case s of [] \<Rightarrow> None | x # r \<Rightarrow> if x = c then Some r else None)"

definition read_octet :: "char \<Rightarrow> string \<Rightarrow> (nat \<times> string) option" where
  "read_octet sep s =
     (case read_number 255 3 False s of None \<Rightarrow> None
      | Some (n, r) \<Rightarrow> map_option (\<lambda>r. (n, r)) (read_char sep r))"

definition parse_socket_v4 :: "string \<Rightarrow> socket_addr option" where
  "parse_socket_v4 s =
     Option.bind (read_octet CHR ''.'' s) (\<lambda>(a, s).
     Option.bind (read_octet CHR ''.'' s) (\<lambda>(b, s).
     Option.bind (read_octet CHR ''.'' s) (\<lambda>(c, s).
     Option.bind (read_octet CHR '':'' s) (\<lambda>(d, s).
     Option.bind (read_number 65535 0 True s) (\<lambda>(port, s).
       if s = [] then Some (SocketV4 a b c d port) else None)))))"

definition parse_socket_addr :: "(string \<Rightarrow> socket_addr option) \<Rightarrow> string \<Rightarrow> socket_addr option" where
  "parse_socket_addr parse_v6 s =
     (case parse_socket_v4 s of Some a \<Rightarrow> Some a | None \<Rightarrow> parse_v6 s)"

section \<open>Facts\<close>

lemma is_digit_show: "c \<in> set (show_nat n) \<Longrightarrow> is_digit c"
  by (auto simp: is_digit_def digit_parse dest!: show_nat_digits)

lemma takeWhile_show: "\<not> is_digit c \<Longrightarrow> takeWhile is_digit (show_nat n @ c # r) = show_nat n"
  "\<not> is_digit c \<Longrightarrow> dropWhile is_digit (show_nat n @ c # r) = c # r"
  "takeWhile is_digit (show_nat n) = show_nat n" "dropWhile is_digit (show_nat n) = []"
  by (simp_all add: takeWhile_append2 dropWhile_append2 takeWhile_eq_all_conv dropWhile_eq_Nil_conv is_digit_show)

lemma read_port_show: "n \<le> 65535 \<Longrightarrow> read_number 65535 0 True (show_nat n) = Some (n, [])"
  by (simp add: read_number_def takeWhile_show parse_digits_show Let_def)

lemma is_digit_simps: "is_digit c \<longleftrightarrow> 48 \<le> (of_char c :: nat) \<and> of_char c \<le> (57 :: nat)"
  by (simp add: is_digit_def parse_digit_def Let_def)

lemma read_octet_samples:
  "read_octet CHR ''.'' (CHR ''1'' # CHR ''2'' # CHR ''7'' # CHR ''.'' # s) = Some (127, s)"
  "read_octet CHR ''.'' (CHR ''0'' # CHR ''.'' # s) = Some (0, s)"
  "read_octet CHR '':'' (CHR ''1'' # CHR '':'' # s) = Some (1, s)"
  "read_octet CHR '':'' (CHR ''0'' # CHR '':'' # s) = Some (0, s)"
  by (simp_all add: read_octet_def read_number_def is_digit_simps parse_digit_def read_char_def Let_def)

lemma parse_localhost:
  "n \<le> 65535 \<Longrightarrow> parse_socket_v4 (''127.0.0.1:'' @ show_nat n) = Some (SocketV4 127 0 0 1 n)"
  "n \<le> 65535 \<Longrightarrow> parse_socket_v4 (''0.0.0.0:'' @ show_nat n) = Some (SocketV4 0 0 0 0 n)"
  by (simp_all add: parse_socket_v4_def read_octet_samples read_port_show)

lemma parse_v4_not_digit: "s \<noteq> [] \<Longrightarrow> \<not> is_digit (hd s) \<Longrightarrow> parse_socket_v4 s = None"
  by (cases s) (simp_all add: parse_socket_v4_def read_octet_def read_number_def Let_def)

end
