(* ===== verification/Node_Main.thy ===== *)
theory Node_Main
  imports Deploy Address Actor Protocol_Pedersen Protocol_Bfkw
begin

text \<open>
  \<open>crates/node/src/main.rs\<close>: from the two configuration files to a running actor. Keys and YAML are the
  libraries of \<open>Deploy\<close>; the P2P library takes the record \<open>p2p_config\<close> and gives the senders and
  receivers of the actor, the runtime the record \<open>telemetry\<close>.

  An abort of the process is a \<open>boot_panic\<close>.
\<close>

section \<open>Parsing\<close>

datatype role = Proposer | Receiver

datatype boot_panic =
    ConfigNotLoaded load_error
  | PeersNotLoaded load_error
  | InvalidPrivateKeyHex
  | InvalidPrivateKey
  | InvalidPeerKeyHex
  | InvalidPeerKey
  | AddressFormat            \<comment> \<open>address must be host:port\<close>
  | AddressPort              \<comment> \<open>port must be a number\<close>
  | InvalidHostname
  | DuplicatePeerKeys
  | InvalidProposerKeyHex
  | InvalidProposerKey
  | InvalidSigningKeyHex
  | SigningKeyLength
  | UnknownStrategy string
  | ActorPanic panic

datatype ingress = IngressSocket socket_addr | IngressDns string nat

datatype log_level = Trace | Debug | Info | Warn | Error

text \<open>\<open>bl_parse_v6\<close>: see \<open>Address\<close>; \<open>Hostname::new\<close>; \<open>G1::read_cfg\<close>; \<open>tracing::Level::from_str\<close>.\<close>

record 'g1 boot_lib =
  bl_parse_v6 :: "string \<Rightarrow> socket_addr option"
  bl_hostname_ok :: "string \<Rightarrow> bool"
  bl_g1_read :: "bytes \<Rightarrow> 'g1 option"
  bl_parse_level :: "string \<Rightarrow> log_level option"

definition expect :: "'e \<Rightarrow> 'a option \<Rightarrow> 'e + 'a" where
  "expect e x = (case x of None \<Rightarrow> Inl e | Some y \<Rightarrow> Inr y)"

text \<open>\<open>hex::decode(s.strip_prefix("0x").unwrap_or(s))\<close>.\<close>

definition decode_hex_0x :: "('r, 'ek, 'ep, 'bk, 'bp) key_lib \<Rightarrow> string \<Rightarrow> bytes option" where
  "decode_hex_0x K s = kl_hex_decode K (case strip_prefix ''0x'' s of None \<Rightarrow> s | Some t \<Rightarrow> t)"

text \<open>The addresses of peers and \<open>dialable_address\<close> are read by the same code.\<close>

definition parse_ingress :: "'g1 boot_lib \<Rightarrow> string \<Rightarrow> boot_panic + ingress" where
  "parse_ingress B addr =
     (case parse_socket_addr (bl_parse_v6 B) addr of
        Some sa \<Rightarrow> Inr (IngressSocket sa)
      | None \<Rightarrow>
          bindR (expect AddressFormat (rsplit_once CHR '':'' addr)) (\<lambda>(host, port_str).
          bindR (expect AddressPort (parse_unsigned (2 ^ 16 - 1) port_str)) (\<lambda>port.
            if bl_hostname_ok B host then Inr (IngressDns host port) else Inl InvalidHostname)))"

definition read_peer_key :: "('r, 'ek, 'ep, 'bk, 'bp) key_lib \<Rightarrow> peer_entry \<Rightarrow> boot_panic + 'ep" where
  "read_peer_key K e =
     bindR (expect InvalidPeerKeyHex (decode_hex_0x K (pe_public_key e))) (\<lambda>pk_bytes.
       expect InvalidPeerKey (kl_ed_read_public K pk_bytes))"

text \<open>The loop over the peers collects the others as bootstrappers.\<close>

fun parse_peers ::
  "('r, 'ek, 'ep, 'bk, 'bp) key_lib \<Rightarrow> 'g1 boot_lib \<Rightarrow> 'ep \<Rightarrow> peer_entry list \<Rightarrow>
   boot_panic + ('ep \<times> ingress) list" where
  "parse_peers K B my_pk [] = Inr []"
| "parse_peers K B my_pk (e # es) =
     bindR (read_peer_key K e) (\<lambda>pk.
       if pk \<noteq> my_pk
       then bindR (parse_ingress B (pe_address e)) (\<lambda>ingress.
            bindR (parse_peers K B my_pk es) (\<lambda>rest. Inr ((pk, ingress) # rest)))
       else parse_peers K B my_pk es)"

section \<open>Setup\<close>

definition node_namespace :: bytes where
  "node_namespace = str_bytes ''RLNC-P2P-v1''"

definition max_msg_size :: nat where
  "max_msg_size = 16 * 1024 * 1024"

definition announce_ch :: nat where "announce_ch = 0"

definition data_ch :: nat where "data_ch = 1"

definition node_chunks :: nat where "node_chunks = 10"

record ('ek, 'ep) p2p_config =
  pc_local :: bool
  pc_signer :: 'ek
  pc_namespace :: bytes
  pc_listen :: socket_addr
  pc_dialable :: ingress
  pc_bootstrappers :: "('ep \<times> ingress) list"
  pc_max_message_size :: nat
  pc_channels :: "(nat \<times> nat \<times> nat) list"     \<comment> \<open>channel, messages per second, backlog\<close>
  pc_tracked :: "'ep set"              \<comment> \<open>sorted into an \<open>ordered::Set\<close>\<close>

datatype ('ped, 'bfkw) node_protocol =
    BaselineNode baseline_protocol_state
  | PedersenNode 'ped
  | BfkwNode 'bfkw

text \<open>What the runtime is told: where to store, how to log, where to serve the metrics and their labels.\<close>

record telemetry =
  tm_storage_directory :: string
  tm_level :: log_level
  tm_json :: bool
  tm_metrics_addr :: socket_addr
  tm_labels :: "(string \<times> string) list"

definition telemetry_of :: "'g1 boot_lib \<Rightarrow> node_config \<Rightarrow> telemetry" where
  "telemetry_of B config =
     \<lparr>tm_storage_directory = nc_directory config,
      tm_level = (case bl_parse_level B (nc_log_level config) of None \<Rightarrow> Info | Some level \<Rightarrow> level),
      tm_json = False, tm_metrics_addr = SocketV4 0 0 0 0 (nc_metrics_port config),
      tm_labels = [(''strategy'', nc_strategy config), (''role'', nc_role config)]\<rparr>"

record ('ek, 'ep, 'ped, 'bfkw) node_setup =
  su_telemetry :: telemetry
  su_p2p :: "('ek, 'ep) p2p_config"
  su_peer_pks :: "'ep list"
  su_role :: role
  su_startup_delay :: nat
  su_block_interval :: nat
  su_protocol :: "('ped, 'bfkw) node_protocol"

definition signing_seed :: "('r, 'ek, 'ep, 'bk, 'bp) key_lib \<Rightarrow> string option \<Rightarrow> boot_panic + bytes option" where
  "signing_seed K key =
     (case key of None \<Rightarrow> Inr None
      | Some sk_hex \<Rightarrow>
          bindR (expect InvalidSigningKeyHex (decode_hex_0x K sk_hex)) (\<lambda>sk_bytes.
            if length sk_bytes = 32 then Inr (Some sk_bytes) else Inl SigningKeyLength))"

definition node_protocol_of ::
  "('r, 'ek, 'ep, 'bk, 'bp) key_lib \<Rightarrow> 'g1 boot_lib \<Rightarrow> ('f, 'r) scalar_lib \<Rightarrow>
   ('f, 'g, 'bk, 'bp, 'sig) pedersen_lib \<Rightarrow> ('f, 'g1, 'g2) bfkw_lib \<Rightarrow> node_config \<Rightarrow> nat \<Rightarrow> bytes \<Rightarrow>
   boot_panic + (('f, 'g, 'bk, 'bp, 'sig) pedersen_protocol_state, ('f, 'g1, 'g2) bfkw_protocol_state) node_protocol" where
  "node_protocol_of K B sl plib blib config m pk_bytes =
     (if nc_strategy config = ''baseline'' then Inr (BaselineNode baseline_protocol_new)
      else if nc_strategy config = ''pedersen'' then
        bindR (expect InvalidProposerKey (kl_bls_read_public K pk_bytes)) (\<lambda>bls_pk.
        bindR (signing_seed K (nc_proposer_signing_key config)) (\<lambda>seed.
          let signer_opt = map_option (\<lambda>s. fst (kl_bls_random K (kl_from_seed K s))) seed in
          Inr (PedersenNode (pedersen_protocol_new plib node_chunks m bls_pk signer_opt))))
      else if nc_strategy config = ''bfkw'' then
        bindR (expect InvalidProposerKey (bl_g1_read B pk_bytes)) (\<lambda>g1_pk.
        bindR (signing_seed K (nc_proposer_signing_key config)) (\<lambda>seed.
          let signer_opt = map_option (\<lambda>s. fst (bfkw_generate blib (sl_random sl) (kl_from_seed K s))) seed in
          Inr (BfkwNode (bfkw_protocol_new node_chunks m g1_pk signer_opt))))
      else Inl (UnknownStrategy (nc_strategy config)))"

definition node_setup_of ::
  "('r, 'ek, 'ep, 'bk, 'bp) key_lib \<Rightarrow> 'g1 boot_lib \<Rightarrow> ('f, 'r) scalar_lib \<Rightarrow>
   ('f, 'g, 'bk, 'bp, 'sig) pedersen_lib \<Rightarrow> ('f, 'g1, 'g2) bfkw_lib \<Rightarrow> node_config \<Rightarrow> peer_entry list \<Rightarrow>
   boot_panic + ('ek, 'ep, ('f, 'g, 'bk, 'bp, 'sig) pedersen_protocol_state,
     ('f, 'g1, 'g2) bfkw_protocol_state) node_setup" where
  "node_setup_of K B sl plib blib config peer_entries =
     bindR (map_err ActorPanic (compute_m (nc_block_size config) node_chunks)) (\<lambda>m.
     bindR (expect InvalidPrivateKeyHex (decode_hex_0x K (nc_private_key config))) (\<lambda>key_bytes.
     bindR (expect InvalidPrivateKey (kl_ed_read K key_bytes)) (\<lambda>signer.
     let my_pk = kl_ed_public K signer in
     bindR (parse_peers K B my_pk peer_entries) (\<lambda>bootstrappers.
     bindR (case nc_dialable_address config of
              Some addr \<Rightarrow> parse_ingress B addr
            | None \<Rightarrow> Inr (IngressSocket (SocketV4 127 0 0 1 (nc_port config)))) (\<lambda>dialable.
     bindR (mapR (read_peer_key K) peer_entries) (\<lambda>all_pks.
     if \<not> distinct all_pks then Inl DuplicatePeerKeys
     else
       let role = (if nc_role config = ''proposer'' then Proposer else Receiver) in
       bindR (expect InvalidProposerKeyHex (decode_hex_0x K (nc_proposer_public_key config))) (\<lambda>pk_bytes.
       bindR (node_protocol_of K B sl plib blib config m pk_bytes) (\<lambda>protocol.
         Inr \<lparr>su_telemetry = telemetry_of B config, su_p2p = \<lparr>pc_local = nc_local config, pc_signer = signer, pc_namespace = node_namespace,
                 pc_listen = SocketV4 0 0 0 0 (nc_port config), pc_dialable = dialable,
                 pc_bootstrappers = bootstrappers, pc_max_message_size = max_msg_size,
                 pc_channels = [(announce_ch, 10, 128), (data_ch, 256, 4096)], pc_tracked = set all_pks\<rparr>,
              su_peer_pks = map fst bootstrappers, su_role = role,
              su_startup_delay = nc_startup_delay_secs config,
              su_block_interval = nc_block_interval_secs config, su_protocol = protocol\<rparr>))))))))"

section \<open>Running\<close>

text \<open>What the P2P library and the generator give the actor, whatever its protocol.\<close>

record ('k, 'w, 'r) net_lib =
  nl_send :: "'w \<Rightarrow> channel \<Rightarrow> 'k recipients \<Rightarrow> bytes \<Rightarrow> bool \<Rightarrow> 'k list option \<times> 'w"
  nl_shuffle :: "'k list \<Rightarrow> 'r \<Rightarrow> 'k list \<times> 'r"
  nl_random_byte :: "'r \<Rightarrow> u8 \<times> 'r"
  nl_fill :: "'r \<Rightarrow> bytes \<times> 'r"

definition env_of :: "('k, 'w, 'r) net_lib \<Rightarrow> ('p, 'r) protocol \<Rightarrow> ('p, 'k, 'w, 'r) actor_env" where
  "env_of NL P = \<lparr>ae_protocol = P, ae_send = nl_send NL, ae_shuffle = nl_shuffle NL,
     ae_random_byte = nl_random_byte NL, ae_fill = nl_fill NL\<rparr>"

text \<open>The \<open>match role\<close> of each strategy. \<open>evs\<close> are the messages a receiver gets.\<close>

definition run_actor ::
  "('p, 'k, 'w, 'r) actor_env \<Rightarrow> role \<Rightarrow> node_config \<Rightarrow> 'k event list \<Rightarrow> ('p, 'k, 'w, 'r) node_actor \<Rightarrow>
   (boot_panic + ('p, 'k, 'w, 'r) node_actor) option" where
  "run_actor E role config evs actor =
     (case role of
        Proposer \<Rightarrow> map_option (map_err ActorPanic)
          (run_proposer E (of_nat (nc_num_blocks config)) (nc_block_size config) actor)
      | Receiver \<Rightarrow> Some (map_err ActorPanic (mapRes (\<lambda>(_, a, _). a)
          (run_receiver E (of_nat (nc_num_blocks config)) evs actor 0))))"

datatype ('k, 'w, 'r, 'ped, 'bfkw) node_end =
    BaselineEnd "(baseline_protocol_state, 'k, 'w, 'r) node_actor"
  | PedersenEnd "('ped, 'k, 'w, 'r) node_actor"
  | BfkwEnd "('bfkw, 'k, 'w, 'r) node_actor"

definition node_run ::
  "('r, 'ek, 'ep, 'bk, 'bp) key_lib \<Rightarrow> ('f::field, 'r) scalar_lib \<Rightarrow>
   ('f, 'g::zero, 'bk, 'bp, 'sig) pedersen_lib \<Rightarrow> ('f, 'g1, 'g2) bfkw_lib \<Rightarrow> ('ep, 'w, 'r) net_lib \<Rightarrow>
   node_config \<Rightarrow> 'ep event list \<Rightarrow> 'w \<Rightarrow>
   ('ek, 'ep, ('f, 'g, 'bk, 'bp, 'sig) pedersen_protocol_state, ('f, 'g1, 'g2) bfkw_protocol_state) node_setup \<Rightarrow>
   (boot_panic + ('ep, 'w, 'r, ('f, 'g, 'bk, 'bp, 'sig) pedersen_protocol_state,
      ('f, 'g1, 'g2) bfkw_protocol_state) node_end) option" where
  "node_run K sl plib blib NL config evs w su =
     (let rng = kl_seed_from_u64 K (of_nat (nc_seed config)) in
      case su_protocol su of
        BaselineNode proto \<Rightarrow> map_option (mapRes BaselineEnd)
          (run_actor (env_of NL (baseline_protocol (sl_wire sl))) (su_role su) config evs
             (node_actor_new proto w (su_peer_pks su) (nc_mesh_degree config) rng metrics_default))
      | PedersenNode proto \<Rightarrow> map_option (mapRes PedersenEnd)
          (run_actor (env_of NL (pedersen_protocol sl plib node_chunks)) (su_role su) config evs
             (node_actor_new proto w (su_peer_pks su) (nc_mesh_degree config) rng metrics_default))
      | BfkwNode proto \<Rightarrow> map_option (mapRes BfkwEnd)
          (run_actor (env_of NL (bfkw_protocol sl blib node_chunks)) (su_role su) config evs
             (node_actor_new proto w (su_peer_pks su) (nc_mesh_degree config) rng metrics_default)))"

text \<open>From the two files to the setup, then the run.\<close>

definition node_boot ::
  "('r, 'ek, 'ep, 'bk, 'bp) key_lib \<Rightarrow> yaml_lib \<Rightarrow> 'g1 boot_lib \<Rightarrow> ('f, 'r) scalar_lib \<Rightarrow>
   ('f, 'g, 'bk, 'bp, 'sig) pedersen_lib \<Rightarrow> ('f, 'g1, 'g2) bfkw_lib \<Rightarrow> (string \<Rightarrow> string option) \<Rightarrow> string \<Rightarrow> string \<Rightarrow>
   boot_panic + node_config \<times> ('ek, 'ep, ('f, 'g, 'bk, 'bp, 'sig) pedersen_protocol_state,
     ('f, 'g1, 'g2) bfkw_protocol_state) node_setup" where
  "node_boot K Y B sl plib blib read_file config_path peers_path =
     bindR (map_err ConfigNotLoaded (node_config_load read_file (yl_read Y) config_path)) (\<lambda>config.
     bindR (map_err PeersNotLoaded (load_peers read_file (yl_read Y) peers_path)) (\<lambda>peer_entries.
     bindR (node_setup_of K B sl plib blib config peer_entries) (\<lambda>su. Inr (config, su))))"

definition node_main ::
  "('r, 'ek, 'ep, 'bk, 'bp) key_lib \<Rightarrow> yaml_lib \<Rightarrow> 'g1 boot_lib \<Rightarrow> ('f::field, 'r) scalar_lib \<Rightarrow>
   ('f, 'g::zero, 'bk, 'bp, 'sig) pedersen_lib \<Rightarrow> ('f, 'g1, 'g2) bfkw_lib \<Rightarrow> ('ep, 'w, 'r) net_lib \<Rightarrow>
   (string \<Rightarrow> string option) \<Rightarrow> string \<Rightarrow> string \<Rightarrow> 'ep event list \<Rightarrow> 'w \<Rightarrow>
   (boot_panic + ('ep, 'w, 'r, ('f, 'g, 'bk, 'bp, 'sig) pedersen_protocol_state,
      ('f, 'g1, 'g2) bfkw_protocol_state) node_end) option" where
  "node_main K Y B sl plib blib NL read_file config_path peers_path evs w =
     (case node_boot K Y B sl plib blib read_file config_path peers_path of
        Inl e \<Rightarrow> Some (Inl e)
      | Inr (config, su) \<Rightarrow> node_run K sl plib blib NL config evs w su)"

end
