(* ===== verification/Deploy_Facts.thy ===== *)
theory Deploy_Facts
  imports Deploy
begin

text \<open>
  What the generator writes is what a node reads: configurations and peers survive the way through
  YAML, and the file of every node is there with its own configuration.
\<close>

section \<open>Through YAML\<close>

text \<open>The values a configuration holds are in the range of their types.\<close>

definition node_config_in_range :: "node_config \<Rightarrow> bool" where
  "node_config_in_range c \<longleftrightarrow> nc_port c \<le> max_u16 \<and> nc_metrics_port c \<le> max_u16 \<and>
     nc_block_size c \<le> max_u64 \<and> nc_num_blocks c \<le> max_u64 \<and> nc_block_interval_secs c \<le> max_u64 \<and>
     nc_startup_delay_secs c \<le> max_u64 \<and> nc_mesh_degree c \<le> max_u64 \<and> nc_seed c \<le> max_u64"

lemma as_option_string: "as_option as_string (YString s) = Some (Some s)"
  by simp

lemma node_config_roundtrip:
  assumes "node_config_in_range c"
  shows "node_config_of_yaml (node_config_yaml c) = Some c"
proof -
  obtain a b d e f g h i j k l m n p q r t where c: "c = \<lparr>nc_private_key = a, nc_port = b,
      nc_metrics_port = d, nc_strategy = e, nc_role = f, nc_proposer_signing_key = g,
      nc_proposer_public_key = h, nc_block_size = i, nc_num_blocks = j, nc_block_interval_secs = k,
      nc_startup_delay_secs = l, nc_mesh_degree = m, nc_log_level = n, nc_local = p, nc_directory = q,
      nc_seed = r, nc_dialable_address = t\<rparr>" by (cases c)
  show ?thesis
    using assms unfolding c
    by (cases g; cases t) (simp_all add: node_config_yaml_def optional_field_def node_config_fields_def
        get_field_def node_config_in_range_def)
qed

lemma peers_roundtrip: "peers_of_yaml (YSeq (map peer_entry_yaml es)) = Some es"
proof (induction es)
  case (Cons e es)
  have "peer_entry_of_yaml (peer_entry_yaml e) = Some e"
    by (cases e) (simp add: peer_entry_yaml_def get_field_def)
  then show ?case using Cons by simp
qed simp

text \<open>
  The library reads back what it prints, for the values that are written: maps with distinct keys from
  strings to strings, booleans and unsigned 64-bit numbers, and sequences of such maps.
\<close>

fun plain_scalar :: "yaml \<Rightarrow> bool" where
  "plain_scalar (YSeq vs) \<longleftrightarrow> False"
| "plain_scalar (YMap m) \<longleftrightarrow> False"
| "plain_scalar (YInt i) \<longleftrightarrow> 0 \<le> i \<and> i < 2 ^ 64"
| "plain_scalar _ \<longleftrightarrow> True"

definition plain_map :: "(string \<times> yaml) list \<Rightarrow> bool" where
  "plain_map m \<longleftrightarrow> distinct (map fst m) \<and> (\<forall>(k, v) \<in> set m. plain_scalar v)"

definition plain :: "yaml \<Rightarrow> bool" where
  "plain v \<longleftrightarrow> (\<exists>m. v = YMap m \<and> plain_map m) \<or> (\<exists>ms. v = YSeq (map YMap ms) \<and> (\<forall>m \<in> set ms. plain_map m))"

definition yaml_lib_ok :: "yaml_lib \<Rightarrow> bool" where
  "yaml_lib_ok Y \<longleftrightarrow> (\<forall>v. plain v \<longrightarrow> yl_read Y (yl_print Y v) = Some v)"

lemma node_config_plain: "node_config_in_range c \<Longrightarrow> plain (node_config_yaml c)"
  by (cases "nc_proposer_signing_key c"; cases "nc_dialable_address c")
     (auto simp: plain_def plain_map_def node_config_yaml_def optional_field_def node_config_in_range_def
        max_u16_def max_u64_def)

lemma peers_plain: "plain (YSeq (map peer_entry_yaml es))"
proof -
  have "\<exists>m. peer_entry_yaml e = YMap m \<and> plain_map m" for e
    by (simp add: peer_entry_yaml_def plain_map_def)
  then obtain f where f: "\<And>e. peer_entry_yaml e = YMap (f e) \<and> plain_map (f e)" by metis
  then show ?thesis
    unfolding plain_def by (intro disjI2 exI [of _ "map f es"]) (simp add: comp_def)
qed

lemma load_config_written:
  assumes "yaml_lib_ok Y" "node_config_in_range c"
    and "read_file path = Some (yl_print Y (node_config_yaml c))"
  shows "node_config_load read_file (yl_read Y) path = Inr c"
  using assms node_config_plain [OF assms(2)]
  by (simp add: node_config_load_def load_file_def yaml_lib_ok_def node_config_roundtrip)

lemma load_peers_written:
  assumes "yaml_lib_ok Y" "read_file path = Some (yl_print Y (YSeq (map peer_entry_yaml es)))"
  shows "load_peers read_file (yl_read Y) path = Inr es"
proof -
  have "yl_read Y (yl_print Y (YSeq (map peer_entry_yaml es))) = Some (YSeq (map peer_entry_yaml es))"
    using assms(1) peers_plain [of es] unfolding yaml_lib_ok_def by blast
  with assms(2) show ?thesis
    by (simp add: load_peers_def load_file_def peers_roundtrip del: peers_of_yaml.simps)
qed

section \<open>Files\<close>

lemma path_join_inj [simp]: "path_join dir a = path_join dir b \<longleftrightarrow> a = b"
  by (simp add: path_join_def)

lemma node_name_inj [simp]: "''node-'' @ show_nat i @ ''.yaml'' = ''node-'' @ show_nat j @ ''.yaml'' \<longleftrightarrow> i = j"
  by simp

lemma node_file_inj [simp]: "node_file out i = node_file out j \<longleftrightarrow> i = j"
  by (simp add: node_file_def)

lemma node_file_other [simp]: "node_file out i \<noteq> path_join out ''peers.yaml''"
  "path_join out ''peers.yaml'' \<noteq> node_file out i"
  by (simp_all add: node_file_def)

lemma fs_read_write [simp]: "fs_read (fs_write p c w) q = (if p = q then Some c else fs_read w q)"
  by (simp add: fs_read_def fs_write_def update_conv')

lemma fs_read_print [simp]: "fs_read (print_line s w) q = fs_read w q"
  "fs_read (fold print_line ls w) q = fs_read w q"
  "fs_read (fold (\<lambda>i. print_line (f i)) ks w) q = fs_read w q"
proof -
  show one: "fs_read (print_line s w) q = fs_read w q" for s w by (simp add: fs_read_def print_line_def)
  show "fs_read (fold print_line ls w) q = fs_read w q"
    by (induction ls arbitrary: w) (simp_all add: one)
  show "fs_read (fold (\<lambda>i. print_line (f i)) ks w) q = fs_read w q"
    by (induction ks arbitrary: w) (simp_all add: one)
qed

lemma fs_read_write_config [simp]: "fs_read (write_config Y out i c w) q
    = (if node_file out i = q then Some (yl_print Y (node_config_yaml c)) else fs_read w q)"
  by (simp add: write_config_def)

text \<open>Writing the configurations of the nodes \<open>k, k + 1, ...\<close> changes their files only.\<close>

lemma fs_read_configs_other:
  "\<forall>i. q \<noteq> node_file out i \<Longrightarrow>
   fs_read (fold (\<lambda>(i, sk, pk). write_config Y out i (conf i sk)) ks w) q = fs_read w q"
  by (induction ks arbitrary: w) auto

lemma fs_read_configs_later:
  "j < k \<Longrightarrow> fs_read (fold (\<lambda>(i, sk, pk). write_config Y out i (conf i sk)) (zip [k..<k + n] keys) w)
     (node_file out j) = fs_read w (node_file out j)"
proof (induction n arbitrary: k keys w)
  case (Suc n)
  show ?case
  proof (cases keys)
    case (Cons x xs)
    have "[k..<k + Suc n] = k # [Suc k..<Suc k + n]" by (simp add: upt_rec)
    then show ?thesis
      using Suc.IH [of "Suc k" xs] Suc.prems by (cases x) (simp add: Cons del: upt_Suc)
  qed simp
qed simp

lemma fs_read_configs:
  "i < length keys \<Longrightarrow>
   fs_read (fold (\<lambda>(i, sk, pk). write_config Y out i (conf i sk)) (zip [k..<k + length keys] keys) w)
     (node_file out (k + i)) = Some (yl_print Y (node_config_yaml (conf (k + i) (fst (keys ! i)))))"
proof (induction keys arbitrary: k i w)
  case (Cons x keys)
  have upt: "[k..<k + length (x # keys)] = k # [Suc k..<Suc k + length keys]" by (simp add: upt_rec)
  show ?case
  proof (cases i)
    case 0
    have "fs_read (fold (\<lambda>(i, sk, pk). write_config Y out i (conf i sk)) (zip [Suc k..<Suc k + length keys] keys)
        (write_config Y out k (conf k (fst x)) w)) (node_file out k)
      = fs_read (write_config Y out k (conf k (fst x)) w) (node_file out k)"
      by (rule fs_read_configs_later) simp
    then show ?thesis unfolding upt using 0 by (cases x) (simp del: upt_Suc)
  next
    case (Suc j)
    then show ?thesis unfolding upt using Cons.IH [of j "Suc k"] Cons.prems by (cases x) (simp del: upt_Suc)
  qed
qed simp

end
