(* ===== verification/Testing.thy ===== *)
theory Testing
  imports Echelon_Inverse
begin

text \<open>
  What the repository's tests share. A \<open>#[test]\<close> function is a computation that passes (\<open>Inr ()\<close>) or
  fails: at an \<open>assert!\<close>, at a panic of the code it runs, at an \<open>unwrap\<close> of an error, or, for
  \<open>#[should_panic]\<close>, because nothing panicked. The seeded generators of the tests are a state of the
  random source; scalars drawn from it are arbitrary. The theorems about a test say on which draws it
  passes.

  The theory holds the loops the tests write down, and the lemmas about the two questions they ask of
  random vectors: are they independent, and do they span.
\<close>

section \<open>Outcomes\<close>

datatype test_failure =
    AssertionFailed
  | Panicked panic
  | UnwrappedErr
  | DidNotPanic

type_synonym 'a test = "test_failure + 'a"

definition call :: "'a run \<Rightarrow> 'a test" where
  "call m = map_err Panicked m"

definition unwrap :: "'e + 'a \<Rightarrow> 'a test" where
  "unwrap r = map_err (\<lambda>_. UnwrappedErr) r"

definition check :: "bool \<Rightarrow> 'a test \<Rightarrow> 'a test" where
  "check c t = assertR c AssertionFailed t"

text \<open>\<open>#[should_panic(expected = ...)]\<close>.\<close>

definition should_panic :: "panic \<Rightarrow> 'a test \<Rightarrow> unit test" where
  "should_panic p t = (case t of
       Inr _ \<Rightarrow> Inl DidNotPanic
     | Inl (Panicked q) \<Rightarrow> if q = p then Inr () else Inl (Panicked q)
     | Inl f \<Rightarrow> Inl f)"

lemma foldR_Inr_unit: "(\<And>x. x \<in> set xs \<Longrightarrow> f x () = Inr ()) \<Longrightarrow> foldR f xs () = Inr ()"
  by (induction xs) simp_all

lemma bindR_assoc: "bindR (bindR m f) g = bindR m (\<lambda>x. bindR (f x) g)"
  by (cases m) simp_all

lemma bindR_InrE: "bindR m f = Inr y \<Longrightarrow> (\<And>x. m = Inr x \<Longrightarrow> f x = Inr y \<Longrightarrow> P) \<Longrightarrow> P"
  by (cases m) simp_all

lemma call_simps [simp]: "call (Inl p) = Inl (Panicked p)" "call (Inr x) = Inr x"
  by (simp_all add: call_def)

lemma unwrap_simps [simp]: "unwrap (Inl e) = Inl UnwrappedErr" "unwrap (Inr x) = Inr x"
  by (simp_all add: unwrap_def)

lemma check_simps [simp]: "check True t = t" "check False t = Inl AssertionFailed"
  by (simp_all add: check_def)

lemma check_if: "check c t = (if c then t else Inl AssertionFailed)"
  by simp

lemma should_panic_simps [simp]: "should_panic p (Inl (Panicked p)) = Inr ()"
  by (simp add: should_panic_def)

text \<open>\<open>for x in xs { ...; if full { break; } }\<close>.\<close>

fun until :: "('s \<Rightarrow> bool) \<Rightarrow> ('x \<Rightarrow> 's \<Rightarrow> 'e + 's) \<Rightarrow> 'x list \<Rightarrow> 's \<Rightarrow> 'e + 's" where
  "until full f [] s = Inr s"
| "until full f (x # xs) s = bindR (f x s) (\<lambda>s'. if full s' then Inr s' else until full f xs s')"

text \<open>An invariant of the body, counted by the elements taken in.\<close>

lemma until_steps:
  assumes "I i s" "\<not> full s" "i \<le> length xs"
    and "\<And>i s. i < length xs \<Longrightarrow> I i s \<Longrightarrow> \<not> full s \<Longrightarrow> \<exists>s'. f (xs ! i) s = Inr s' \<and> I (Suc i) s'"
  shows "\<exists>s' k. until full f (drop i xs) s = Inr s' \<and> k \<le> length xs \<and> I k s' \<and>
    (full s' \<or> k = length xs)"
  using assms(1-3)
proof (induction "length xs - i" arbitrary: i s)
  case 0
  then have "i = length xs" by simp
  with 0 show ?case by auto
next
  case (Suc n)
  then have i: "i < length xs" by simp
  with assms(4) [OF this Suc.prems(1,2)] obtain s1 where s1: "f (xs ! i) s = Inr s1" "I (Suc i) s1" by auto
  have step: "drop i xs = xs ! i # drop (Suc i) xs" using i by (simp add: Cons_nth_drop_Suc)
  show ?case
  proof (cases "full s1")
    case True
    with s1 i step show ?thesis by (intro exI [of _ s1] exI [of _ "Suc i"]) simp
  next
    case False
    with Suc.hyps(1) [of "Suc i" s1] Suc.hyps(2) s1 i step show ?thesis by simp
  qed
qed

lemma until_inv:
  assumes "I ys s" and "\<not> full s"
    and "\<And>x ys s. x \<in> set xs \<Longrightarrow> I ys s \<Longrightarrow> \<not> full s \<Longrightarrow> \<exists>s'. f x s = Inr s' \<and> I (ys @ [x]) s'"
  shows "\<exists>s' k. until full f xs s = Inr s' \<and> I (ys @ take k xs) s' \<and> (full s' \<or> length xs \<le> k)"
proof -
  have "\<exists>s' k. until full f (drop 0 xs) s = Inr s' \<and> k \<le> length xs \<and> I (ys @ take k xs) s' \<and>
      (full s' \<or> k = length xs)"
    by (rule until_steps) (use assms in \<open>simp_all add: take_Suc_conv_app_nth flip: append_assoc\<close>)
  then show ?thesis by auto
qed

section \<open>Random vectors and matrices\<close>

definition random_matrix :: "('r \<Rightarrow> 'f \<times> 'r) \<Rightarrow> nat \<Rightarrow> nat \<Rightarrow> 'r \<Rightarrow> 'f list list \<times> 'r" where
  "random_matrix random rows cols rng = draw_n (draw_n random cols) rows rng"

lemma draw_n_all:
  assumes "\<And>r. P (fst (draw r))"
  shows "\<forall>x \<in> set (fst (draw_n draw n r)). P x"
  using assms by (induction n arbitrary: r) (auto simp: case_prod_beta Let_def)

lemma draw_n_add:
  "draw_n draw (j + k) r =
    (let (xs, r1) = draw_n draw j r; (ys, r2) = draw_n draw k r1 in (xs @ ys, r2))"
  by (induction j arbitrary: r) (simp_all add: case_prod_beta Let_def)

lemma draw_n_take: "j \<le> n \<Longrightarrow> fst (draw_n draw j r) = take j (fst (draw_n draw n r))"
  using draw_n_add [of draw j "n - j" r] by (simp add: case_prod_beta Let_def)

lemma random_matrix_size:
  assumes "random_matrix random rows cols rng = (M, rng')"
  shows "length M = rows" "\<forall>v \<in> set M. length v = cols"
proof -
  have M: "M = fst (draw_n (draw_n random cols) rows rng)"
    using assms by (simp add: random_matrix_def)
  show "length M = rows" by (simp add: M)
  show "\<forall>v \<in> set M. length v = cols" unfolding M by (rule draw_n_all) simp
qed

section \<open>Independence and spanning\<close>

fun indep_after :: "nat \<Rightarrow> 'f::field list list \<Rightarrow> 'f list list \<Rightarrow> bool" where
  "indep_after n R [] \<longleftrightarrow> True"
| "indep_after n R (v # vs) \<longleftrightarrow> \<not> in_span n R v \<and> indep_after n (R @ [v]) vs"

text \<open>No vector of the list is a combination of the ones before it.\<close>

definition indep :: "nat \<Rightarrow> 'f::field list list \<Rightarrow> bool" where
  "indep n vs \<longleftrightarrow> indep_after n [] vs"

definition spans :: "nat \<Rightarrow> 'f::field list list \<Rightarrow> bool" where
  "spans n vs \<longleftrightarrow> (\<forall>i < n. in_span n vs (unit_vec n i))"

lemma indep_after_nth:
  "indep_after n R vs \<longleftrightarrow> (\<forall>i < length vs. \<not> in_span n (R @ take i vs) (vs ! i))"
  by (induction vs arbitrary: R) (auto simp: less_Suc_eq_0_disj)

lemma indep_nth: "indep n vs \<longleftrightarrow> (\<forall>i < length vs. \<not> in_span n (take i vs) (vs ! i))"
  by (simp add: indep_def indep_after_nth)

lemma indep_Nil [simp]: "indep n []"
  by (simp add: indep_def)

lemma indep_take: "indep n vs \<Longrightarrow> indep n (take k vs)"
  by (simp add: indep_nth min_def)

lemma in_span_mono:
  assumes "in_span n R v" "set R \<subseteq> set S"
  shows "in_span n S v"
proof (rule in_span_trans [OF assms(1)])
  fix i assume "i < length R"
  then have "R ! i \<in> set S" using assms(2) by auto
  then show "in_span n S (R ! i)" by (metis in_set_conv_nth in_span_member)
qed

lemma spans_mono: "spans n R \<Longrightarrow> set R \<subseteq> set S \<Longrightarrow> spans n S"
  unfolding spans_def using in_span_mono by blast

lemma spans_trans:
  assumes "spans n R" "\<And>v. v \<in> set R \<Longrightarrow> in_span n S v"
  shows "spans n S"
  using assms unfolding spans_def by (metis in_span_trans nth_mem)

text \<open>The unit vectors are independent: the entry that singles one out is zero in all the others.\<close>

lemma zero_entry_span:
  assumes "in_span n R v" "\<forall>r \<in> set R. r ! k = 0" "k < n"
  shows "v ! k = 0"
proof -
  from assms(1,3) obtain c where "v ! k = comb c R k" by (auto simp: in_span_def)
  also have "\<dots> = 0" using assms(2) by (simp add: comb_def)
  finally show ?thesis .
qed

lemma indep_units: "m \<le> n \<Longrightarrow> indep n (map (unit_vec n) [0..<m] :: 'f::field list list)"
proof -
  assume "m \<le> n"
  have "\<not> in_span n (take i (map (unit_vec n) [0..<m])) (unit_vec n i :: 'f list)" if "i < m" for i
  proof
    assume sp: "in_span n (take i (map (unit_vec n) [0..<m])) (unit_vec n i :: 'f list)"
    have "(unit_vec n i :: 'f list) ! i = 0"
      by (rule zero_entry_span [OF sp]) (use that \<open>m \<le> n\<close> in \<open>auto simp: take_map\<close>)
    with that \<open>m \<le> n\<close> show False by simp
  qed
  then show ?thesis by (simp add: indep_nth)
qed

lemma spans_units: "spans n (map (unit_vec n) [0..<n] :: 'f::field list list)"
  unfolding spans_def
proof (intro allI impI)
  fix i assume "i < n"
  then show "in_span n (map (unit_vec n) [0..<n]) (unit_vec n i :: 'f list)"
    using in_span_member [of i "map (unit_vec n) [0..<n] :: 'f list list" n] by simp
qed

end
