(* ===== verification/Tests_Math.thy ===== *)
theory Tests_Math
  imports Testing
begin

text \<open>
  The tests of \<open>crates/primitives/math/src/linalg.rs\<close> and \<open>echelon.rs\<close>. A test without randomness passes
  in every field, or in every field where its numbers are distinct; a test on a random matrix passes
  exactly when the drawn rows are independent.
\<close>

section \<open>linalg.rs\<close>

definition linear_combination_ones :: "'f::field itself \<Rightarrow> unit test" where
  "linear_combination_ones _ =
     (let a = [of_nat 1, of_nat 2, of_nat 3] :: 'f list; b = [of_nat 4, of_nat 5, of_nat 6];
          coeffs = [1, 1] in
      bindR (call (linear_combination [a, b] coeffs)) (\<lambda>result.
      bindR (call (idx result 0)) (\<lambda>r0. check (r0 = of_nat 5) (
      bindR (call (idx result 1)) (\<lambda>r1. check (r1 = of_nat 7) (
      bindR (call (idx result 2)) (\<lambda>r2. check (r2 = of_nat 9) (Inr ()))))))))"

definition linear_combination_weighted :: "'f::field itself \<Rightarrow> unit test" where
  "linear_combination_weighted _ =
     (let a = [of_nat 1, 0] :: 'f list; b = [0, of_nat 1]; coeffs = [of_nat 2, of_nat 3] in
      bindR (call (linear_combination [a, b] coeffs)) (\<lambda>result.
      bindR (call (idx result 0)) (\<lambda>r0. check (r0 = of_nat 2) (
      bindR (call (idx result 1)) (\<lambda>r1. check (r1 = of_nat 3) (Inr ()))))))"

definition reencode_single_identity :: "'f::field itself \<Rightarrow> unit test" where
  "reencode_single_identity _ =
     (let data = [of_nat 10, of_nat 20] :: 'f list; coeff = [of_nat 1, 0]; alphas = [1] in
      bindR (call (reencode [data] [coeff] alphas)) (\<lambda>(new_data, new_coeff).
      check (new_data = data) (check (new_coeff = coeff) (Inr ()))))"

definition reencode_valid_combination :: "('r \<Rightarrow> 'f::field \<times> 'r) \<Rightarrow> (u64 \<Rightarrow> 'r) \<Rightarrow> unit test" where
  "reencode_valid_combination random seed =
     (let rng0 = seed 42;
          (d0, rng1) = draw_n random 4 rng0;
          (d1, rng2) = draw_n random 4 rng1;
          c0 = [1, 0]; c1 = [0, 1];
          alpha = of_nat 3; beta = of_nat 5; alphas = [alpha, beta] in
      bindR (call (reencode [d0, d1] [c0, c1] alphas)) (\<lambda>(new_data, new_coeff).
      bindR (call (idx new_coeff 0)) (\<lambda>x. check (x = alpha) (
      bindR (call (idx new_coeff 1)) (\<lambda>y. check (y = beta) (
      foldR (\<lambda>j _.
         bindR (call (idx d0 j)) (\<lambda>a. bindR (call (idx d1 j)) (\<lambda>b.
         bindR (call (idx new_data j)) (\<lambda>z. check (z = a * alpha + b * beta) (Inr ())))))
        [0..<4] ()))))))"

definition random_coefficients_nonzero :: "('r \<Rightarrow> 'f::field \<times> 'r) \<Rightarrow> (u64 \<Rightarrow> 'r) \<Rightarrow> unit test" where
  "random_coefficients_nonzero random seed =
     (let (coeffs, rng) = random_coefficients random 100 (seed 0) in
      check (length coeffs = 100) (foldR (\<lambda>c _. check (c \<noteq> 0) (Inr ())) coeffs ()))"

lemma linear_combination_tests_pass:
  "linear_combination_ones TYPE('f::field) = (Inr () :: unit test)"
  "linear_combination_weighted TYPE('f) = (Inr () :: unit test)"
  "reencode_single_identity TYPE('f) = (Inr () :: unit test)"
  by (simp_all add: linear_combination_ones_def linear_combination_weighted_def
      reencode_single_identity_def reencode_def linear_combination_def lc_step_def eval_nat_numeral)

lemma foldR_check:
  "foldR (\<lambda>x _. check (P x) (Inr ())) xs () =
    (if \<forall>x \<in> set xs. P x then Inr () else Inl AssertionFailed)"
  by (induction xs) (simp_all add: check_if)

lemma random_coefficients_nonzero_passes:
  "random_coefficients_nonzero random seed = (Inr () :: unit test) \<longleftrightarrow>
     0 \<notin> set (fst (random_coefficients random 100 (seed 0)))"
proof -
  obtain coeffs rng where d: "random_coefficients random 100 (seed 0) = (coeffs, rng)" by force
  then have "length coeffs = 100"
    using length_draw_n [of random 100 "seed 0"] by (simp add: random_coefficients_def)
  with d show ?thesis by (auto simp: random_coefficients_nonzero_def foldR_check)
qed

lemma list4: "length xs = 4 \<Longrightarrow> \<exists>a b c d. xs = [a, b, c, d]"
  by (auto simp: length_Suc_conv eval_nat_numeral)

lemma reencode_valid_combination_passes:
  "reencode_valid_combination random seed = (Inr () :: unit test)"
proof -
  obtain d0 rng1 d1 rng2 where d: "draw_n random 4 (seed 42) = (d0, rng1)"
    "draw_n random 4 rng1 = (d1, rng2)" by (meson surj_pair)
  then have "length d0 = 4" "length d1 = 4"
    using length_draw_n [of random 4 "seed 42"] length_draw_n [of random 4 rng1] by simp_all
  then obtain a b c e a' b' c' e' where "d0 = [a, b, c, e]" "d1 = [a', b', c', e']"
    using list4 by metis
  with d show ?thesis
    by (simp add: reencode_valid_combination_def reencode_def linear_combination_def lc_step_def
        upt_rec [of _ 4] eval_nat_numeral)
qed

section \<open>Products of matrices\<close>

definition mat_cell :: "'f::field list list \<Rightarrow> 'f list list \<Rightarrow> nat \<Rightarrow> nat \<Rightarrow> nat \<Rightarrow> 'f list list \<Rightarrow> 'f list list run" where
  "mat_cell a b i j k result =
     bindR (idx a i) (\<lambda>ai. bindR (idx ai k) (\<lambda>x.
     bindR (idx b k) (\<lambda>bk. bindR (idx bk j) (\<lambda>y.
       let term = x * y in
       bindR (idx result i) (\<lambda>ri. bindR (idx ri j) (\<lambda>z.
       bindR (upd ri j (z + term)) (\<lambda>ri'. upd result i ri')))))))"

definition mat_mul :: "'f::field list list \<Rightarrow> 'f list list \<Rightarrow> 'f list list run" where
  "mat_mul a b =
     (let n = length a in
      foldR (\<lambda>i. foldR (\<lambda>j. foldR (mat_cell a b i j) [0..<n]) [0..<n]) [0..<n]
        (replicate n (replicate n 0)))"

fun identity_entries :: "'f::field list list \<Rightarrow> (nat \<times> nat) list \<Rightarrow> bool run" where
  "identity_entries m [] = Inr True"
| "identity_entries m ((i, j) # ijs) =
     (let expected = if i = j then 1 else 0 in
      bindR (idx m i) (\<lambda>mi. bindR (idx mi j) (\<lambda>x.
        if x \<noteq> expected then Inr False else identity_entries m ijs)))"

definition is_identity :: "'f::field list list \<Rightarrow> bool run" where
  "is_identity m = (let n = length m in identity_entries m (List.product [0..<n] [0..<n]))"

definition square :: "nat \<Rightarrow> 'f list list \<Rightarrow> bool" where
  "square n m \<longleftrightarrow> length m = n \<and> (\<forall>v \<in> set m. length v = n)"

lemma square_nth: "square n m \<Longrightarrow> i < n \<Longrightarrow> length (m ! i) = n"
  by (simp add: square_def)

lemma square_update: "square n M \<Longrightarrow> length v = n \<Longrightarrow> square n (M[i := v])"
  by (auto simp: square_def dest: subsetD [OF set_update_subset_insert])

lemma mat_cell_value:
  assumes "square n a" "square n b" "square n M" "i < n" "j < n" "k < n"
  shows "mat_cell a b i j k M = Inr (M[i := (M ! i)[j := M ! i ! j + a ! i ! k * b ! k ! j]])"
  using assms by (simp add: mat_cell_def square_nth) (simp add: square_def)

lemma mat_cell_loop:
  assumes "square n a" "square n b" "square n M" "i < n" "j < n" "K \<le> n"
  shows "foldR (mat_cell a b i j) [0..<K] M
    = Inr (M[i := (M ! i)[j := M ! i ! j + (\<Sum>k < K. a ! i ! k * b ! k ! j)]])"
  using assms(6)
proof (induction K)
  case (Suc K)
  let ?M = "M[i := (M ! i)[j := M ! i ! j + (\<Sum>k < K. a ! i ! k * b ! k ! j)]]"
  have "square n ?M" using assms(3,4) by (simp add: square_update square_nth)
  from mat_cell_value [OF assms(1,2) this assms(4,5), of K] Suc
  have "foldR (mat_cell a b i j) [0..<Suc K] M
      = Inr (?M[i := (?M ! i)[j := ?M ! i ! j + a ! i ! K * b ! K ! j]])"
    by (simp add: foldR_append)
  moreover have "i < length M" "j < length (M ! i)"
    using assms(3-5) by (simp_all add: square_nth square_def)
  ultimately show ?case by (simp add: add.assoc)
qed simp

lemma mat_row_loop:
  assumes "square n a" "square n b" "square n M" "i < n" "J \<le> n"
  shows "foldR (\<lambda>j. foldR (mat_cell a b i j) [0..<n]) [0..<J] M
    = Inr (M[i := map (\<lambda>j. M ! i ! j + (if j < J then comb ((!) (a ! i)) b j else 0)) [0..<n]])"
  using assms(5)
proof (induction J)
  case 0
  have "map (\<lambda>j. M ! i ! j) [0..<n] = M ! i"
    using assms(3,4) by (intro nth_equalityI) (simp_all add: square_nth)
  then show ?case by simp
next
  case (Suc J)
  let ?M = "M[i := map (\<lambda>j. M ! i ! j + (if j < J then comb ((!) (a ! i)) b j else 0)) [0..<n]]"
  have i: "i < length M" using assms(3,4) by (simp add: square_def)
  have "square n ?M" using assms(3) by (simp add: square_update)
  from mat_cell_loop [OF assms(1,2) this assms(4) _ order_refl, of J] Suc i
  have "foldR (\<lambda>j. foldR (mat_cell a b i j) [0..<n]) [0..<Suc J] M = Inr (M[i :=
      (map (\<lambda>j. M ! i ! j + (if j < J then comb ((!) (a ! i)) b j else 0)) [0..<n])
        [J := M ! i ! J + (\<Sum>k < n. a ! i ! k * b ! k ! J)]])"
    by (simp add: foldR_append)
  also have "(\<Sum>k < n. a ! i ! k * b ! k ! J) = comb ((!) (a ! i)) b J"
    using assms(2) by (simp add: comb_def square_def)
  also have "(map (\<lambda>j. M ! i ! j + (if j < J then comb ((!) (a ! i)) b j else 0)) [0..<n])
        [J := M ! i ! J + comb ((!) (a ! i)) b J]
      = map (\<lambda>j. M ! i ! j + (if j < Suc J then comb ((!) (a ! i)) b j else 0)) [0..<n]"
    using Suc.prems by (intro nth_equalityI) (auto simp: nth_list_update less_Suc_eq)
  finally show ?case .
qed

text \<open>The three loops compute the matrix product.\<close>

lemma mat_mul_comb:
  assumes a: "square n a" and b: "square n b"
  shows "mat_mul a b = Inr (map (\<lambda>i. map (comb ((!) (a ! i)) b) [0..<n]) [0..<n])"
proof -
  have "foldR (\<lambda>i. foldR (\<lambda>j. foldR (mat_cell a b i j) [0..<n]) [0..<n]) [0..<I]
      (replicate n (replicate n 0))
    = Inr (map (\<lambda>i. if i < I then map (comb ((!) (a ! i)) b) [0..<n] else replicate n 0) [0..<n])"
    if "I \<le> n" for I
    using that
  proof (induction I)
    case 0
    have "replicate n (replicate n (0::'a)) = map (\<lambda>i. replicate n 0) [0..<n]"
      by (rule nth_equalityI) simp_all
    then show ?case by simp
  next
    case (Suc I)
    let ?M = "map (\<lambda>i. if i < I then map (comb ((!) (a ! i)) b) [0..<n] else replicate n 0) [0..<n]"
    have "square n ?M" by (auto simp: square_def)
    moreover have row: "map (\<lambda>j. ?M ! I ! j + (if j < n then comb ((!) (a ! I)) b j else 0)) [0..<n]
        = map (comb ((!) (a ! I)) b) [0..<n]"
      using Suc.prems by (intro map_cong) simp_all
    ultimately have "foldR (\<lambda>j. foldR (mat_cell a b I j) [0..<n]) [0..<n] ?M
        = Inr (?M[I := map (comb ((!) (a ! I)) b) [0..<n]])"
      using mat_row_loop [OF a b, of ?M I n, unfolded row] Suc.prems by linarith
    with Suc
    have "foldR (\<lambda>i. foldR (\<lambda>j. foldR (mat_cell a b i j) [0..<n]) [0..<n]) [0..<Suc I]
        (replicate n (replicate n 0)) = Inr (?M[I := map (comb ((!) (a ! I)) b) [0..<n]])"
      by (simp add: foldR_append)
    also have "?M[I := map (comb ((!) (a ! I)) b) [0..<n]]
        = map (\<lambda>i. if i < Suc I then map (comb ((!) (a ! i)) b) [0..<n] else replicate n 0) [0..<n]"
      using Suc.prems by (intro nth_equalityI) (auto simp: nth_list_update less_Suc_eq)
    finally show ?case .
  qed
  from this [of n] a show ?thesis by (simp add: mat_mul_def square_def cong: map_cong)
qed

lemma identity_entries_spec:
  assumes "\<forall>(i, j) \<in> set ijs. i < length m \<and> j < length (m ! i)"
  shows "identity_entries m ijs = Inr (\<forall>(i, j) \<in> set ijs. m ! i ! j = (if i = j then 1 else 0))"
  using assms by (induction ijs) (auto simp: Let_def)

lemma is_identity_spec:
  assumes "square n m"
  shows "is_identity m = Inr (\<forall>i < n. \<forall>j < n. m ! i ! j = (if i = j then 1 else 0))"
  using assms unfolding is_identity_def Let_def
  by (subst identity_entries_spec) (auto simp: square_def)

lemma left_inverse_identity:
  assumes "square n R" "left_inverse n B R"
  shows "\<exists>p. mat_mul B R = Inr p \<and> is_identity p = Inr True"
proof -
  let ?p = "map (\<lambda>i. map (comb ((!) (B ! i)) R) [0..<n]) [0..<n]"
  have "square n B" using assms(2) by (auto simp: square_def left_inverse_def in_set_conv_nth)
  from mat_mul_comb [OF this assms(1)] have "mat_mul B R = Inr ?p" .
  moreover have "is_identity ?p = Inr (\<forall>i < n. \<forall>j < n. ?p ! i ! j = (if i = j then 1 else 0))"
    by (rule is_identity_spec) (simp add: square_def)
  ultimately show ?thesis using assms(2) by (auto simp: left_inverse_def)
qed

section \<open>echelon.rs\<close>

text \<open>\<open>for row in &matrix { assert!(ech.add_row(row)); }\<close>.\<close>

definition add_row_ok ::
  "'f::field list \<Rightarrow> 'f incremental_echelon \<Rightarrow> 'f incremental_echelon test" where
  "add_row_ok row ech = bindR (call (ie_add_row ech row)) (\<lambda>(ech', added). check added (Inr ech'))"

definition add_row_rejected ::
  "'f::field list \<Rightarrow> 'f incremental_echelon \<Rightarrow> 'f incremental_echelon test" where
  "add_row_rejected row ech = bindR (call (ie_add_row ech row)) (\<lambda>(ech', added). check (\<not> added) (Inr ech'))"

text \<open>The last lines of most tests: the inverse times the matrix is the identity.\<close>

definition inverse_is_left ::
  "'f::field list list \<Rightarrow> 'f incremental_echelon \<Rightarrow> unit test" where
  "inverse_is_left matrix ech =
     bindR (call (ie_inverse ech)) (\<lambda>inv.
     bindR (call (mat_mul inv matrix)) (\<lambda>product.
     bindR (call (is_identity product)) (\<lambda>ok. check ok (Inr ()))))"

definition inverse_3x3_random :: "('r \<Rightarrow> 'f::field \<times> 'r) \<Rightarrow> (u64 \<Rightarrow> 'r) \<Rightarrow> unit test" where
  "inverse_3x3_random random seed =
     (let (matrix, rng) = random_matrix random 3 3 (seed 42) in
      bindR (foldR add_row_ok matrix (ie_new 3)) (\<lambda>ech.
      check (ie_is_full ech) (inverse_is_left matrix ech)))"

definition dependent_row_rejected :: "('r \<Rightarrow> 'f::field \<times> 'r) \<Rightarrow> (u64 \<Rightarrow> 'r) \<Rightarrow> unit test" where
  "dependent_row_rejected random seed =
     (let (matrix, rng1) = random_matrix random 3 3 (seed 99) in
      bindR (call (idx matrix 0)) (\<lambda>m0. bindR (add_row_ok m0 (ie_new 3)) (\<lambda>ech.
      bindR (call (idx matrix 1)) (\<lambda>m1. bindR (add_row_ok m1 ech) (\<lambda>ech.
        let (alpha, rng2) = random rng1; (beta, rng3) = random rng2 in
        bindR (mapR (\<lambda>j. bindR (call (idx m0 j)) (\<lambda>x. bindR (call (idx m1 j)) (\<lambda>y.
          let a = x * alpha; b = y * beta in Inr (a + b)))) [0..<3]) (\<lambda>dep.
        bindR (add_row_rejected dep ech) (\<lambda>ech. check (ie_rank ech = 2) (Inr ()))))))))"

definition same_row_twice :: "('r \<Rightarrow> 'f::field \<times> 'r) \<Rightarrow> (u64 \<Rightarrow> 'r) \<Rightarrow> unit test" where
  "same_row_twice random seed =
     (let (row, rng) = draw_n random 4 (seed 7) in
      bindR (add_row_ok row (ie_new 4)) (\<lambda>ech.
      bindR (add_row_rejected row ech) (\<lambda>ech. check (ie_rank ech = 1) (Inr ()))))"

definition inverse_10x10_random :: "('r \<Rightarrow> 'f::field \<times> 'r) \<Rightarrow> (u64 \<Rightarrow> 'r) \<Rightarrow> unit test" where
  "inverse_10x10_random random seed =
     (let n = 10; (matrix, rng) = random_matrix random n n (seed 123) in
      bindR (foldR add_row_ok matrix (ie_new n)) (inverse_is_left matrix))"

definition incremental_rank :: "('r \<Rightarrow> 'f::field \<times> 'r) \<Rightarrow> (u64 \<Rightarrow> 'r) \<Rightarrow> unit test" where
  "incremental_rank random seed =
     (let n = 5; (matrix, rng) = random_matrix random n n (seed 55) in
      bindR (foldR (\<lambda>(i, row) ech.
          check (\<not> ie_is_full ech) (check (ie_rank ech = i) (add_row_ok row ech)))
        (zip [0..<length matrix] matrix) (ie_new n)) (\<lambda>ech.
      check (ie_is_full ech) (check (ie_rank ech = n) (Inr ()))))"

definition reset_clears_state :: "('r \<Rightarrow> 'f::field \<times> 'r) \<Rightarrow> (u64 \<Rightarrow> 'r) \<Rightarrow> unit test" where
  "reset_clears_state random seed =
     (let (matrix, rng1) = random_matrix random 3 3 (seed 77) in
      bindR (foldR add_row_ok matrix (ie_new 3)) (\<lambda>ech.
      check (ie_is_full ech)
        (let ech = ie_reset ech in
         check (ie_rank ech = 0) (check (\<not> ie_is_full ech)
           (let (matrix2, rng2) = random_matrix random 3 3 rng1 in
            bindR (foldR add_row_ok matrix2 ech) (\<lambda>ech.
            check (ie_is_full ech) (inverse_is_left matrix2 ech)))))))"

definition edge_case_n1 :: "('r \<Rightarrow> 'f::field \<times> 'r) \<Rightarrow> (u64 \<Rightarrow> 'r) \<Rightarrow> unit test" where
  "edge_case_n1 random seed =
     (let (s, rng) = random (seed 1) in
      bindR (add_row_ok [s] (ie_new 1)) (\<lambda>ech.
      check (ie_is_full ech)
        (bindR (call (ie_inverse ech)) (\<lambda>inv.
         check (length inv = 1)
          (bindR (call (idx inv 0)) (\<lambda>inv0.
           check (length inv0 = 1)
             (bindR (call (idx inv0 0)) (\<lambda>x.
              let product = x * s in check (product = 1) (Inr ())))))))))"

definition known_values_from_u64 :: "'f::field itself \<Rightarrow> unit test" where
  "known_values_from_u64 _ =
     (let two = of_nat 2 :: 'f; three = of_nat 3; one = of_nat 1; four = of_nat 4 in
      bindR (add_row_ok [two, three] (ie_new 2)) (\<lambda>ech.
      bindR (add_row_ok [one, four] ech) (\<lambda>ech.
      check (ie_is_full ech)
        (let original = [[two, three], [of_nat 1, four]] in inverse_is_left original ech))))"

lemma add_row_okE:
  assumes wf: "ie_wf R s" and room: "length R < ie_n s" and len: "length row = ie_n s"
  shows "if in_span (ie_n s) R row then add_row_ok row s = Inl AssertionFailed
    else \<exists>s'. add_row_ok row s = Inr s' \<and> ie_wf (R @ [row]) s' \<and> ie_n s' = ie_n s"
  using ie_add_row_spec [OF wf room len] by (auto simp: add_row_ok_def split: if_splits)

lemma add_rows_spec:
  assumes "ie_wf R s" and "length R + length rows \<le> ie_n s" and "\<forall>v \<in> set rows. length v = ie_n s"
  shows "if indep_after (ie_n s) R rows
    then \<exists>s'. foldR add_row_ok rows s = Inr s' \<and> ie_wf (R @ rows) s' \<and> ie_n s' = ie_n s
    else foldR add_row_ok rows s = Inl AssertionFailed"
  using assms
proof (induction rows arbitrary: R s)
  case (Cons v rows)
  then have "length R < ie_n s" "length v = ie_n s" by simp_all
  note step = add_row_okE [OF Cons.prems(1) this]
  show ?case
  proof (cases "in_span (ie_n s) R v")
    case True
    with step show ?thesis by simp
  next
    case False
    with step obtain s1 where s1: "add_row_ok v s = Inr s1" "ie_wf (R @ [v]) s1" "ie_n s1 = ie_n s"
      by auto
    have "if indep_after (ie_n s1) (R @ [v]) rows
      then \<exists>s'. foldR add_row_ok rows s1 = Inr s' \<and> ie_wf ((R @ [v]) @ rows) s' \<and> ie_n s' = ie_n s1
      else foldR add_row_ok rows s1 = Inl AssertionFailed"
      by (rule Cons.IH [OF s1(2)]) (use Cons.prems s1(3) in auto)
    with False s1 show ?thesis by (auto split: if_splits)
  qed
qed simp

text \<open>What all tests on a square matrix come down to.\<close>

lemma add_matrix:
  assumes M: "square n M"
  shows "if indep n M
    then \<exists>s. foldR add_row_ok M (ie_new n) = Inr s \<and> ie_is_full s \<and> ie_rank s = n \<and>
      inverse_is_left M s = Inr ()
    else foldR add_row_ok M (ie_new n) = Inl AssertionFailed"
proof (cases "indep n M")
  case True
  with add_rows_spec [OF ie_wf_new, of M n] M obtain s where
    s: "foldR add_row_ok M (ie_new n) = Inr s" "ie_wf M s" "ie_n s = n"
    by (auto simp: indep_def square_def)
  with M have full: "length M = ie_n s" by (simp add: square_def)
  from ie_inverse_spec [OF s(2) full] s(3) obtain B where
    "ie_inverse s = Inr B" "left_inverse n B M" by auto
  moreover from left_inverse_identity [OF M this(2)] obtain p where
    "mat_mul B M = Inr p" "is_identity p = Inr True" by auto
  ultimately have "inverse_is_left M s = Inr ()" by (simp add: inverse_is_left_def)
  with True s full show ?thesis by (simp add: ie_wf_full ie_wf_rank)
next
  case False
  with add_rows_spec [OF ie_wf_new, of M n] M show ?thesis
    by (simp add: indep_def square_def)
qed

lemma random_matrix_square: "random_matrix random n n rng = (M, rng') \<Longrightarrow> square n M"
  using random_matrix_size by (fastforce simp: square_def)

lemma inverse_tests_pass:
  "inverse_3x3_random random seed
    = (if indep 3 (fst (random_matrix random 3 3 (seed 42))) then Inr () else Inl AssertionFailed)"
  "inverse_10x10_random random seed
    = (if indep 10 (fst (random_matrix random 10 10 (seed 123))) then Inr () else Inl AssertionFailed)"
proof -
  obtain M rng where M: "random_matrix random 3 3 (seed 42) = (M, rng)" by force
  from add_matrix [OF random_matrix_square [OF M]] M show "inverse_3x3_random random seed
    = (if indep 3 (fst (random_matrix random 3 3 (seed 42))) then Inr () else Inl AssertionFailed)"
    by (auto simp: inverse_3x3_random_def split: if_splits)
next
  obtain M rng where M: "random_matrix random 10 10 (seed 123) = (M, rng)" by force
  from add_matrix [OF random_matrix_square [OF M]] M show "inverse_10x10_random random seed
    = (if indep 10 (fst (random_matrix random 10 10 (seed 123))) then Inr () else Inl AssertionFailed)"
    by (auto simp: inverse_10x10_random_def split: if_splits)
qed

lemma ie_new_empty [simp]: "ie_rank (ie_new n) = 0" "ie_is_full (ie_new n) \<longleftrightarrow> n = 0"
  by (auto simp: ie_rank_def ie_is_full_def ie_new_def)

lemma reset_clears_state_passes:
  assumes "random_matrix random 3 3 (seed 77) = (M1, rng1)" "random_matrix random 3 3 rng1 = (M2, rng2)"
  shows "reset_clears_state random seed
    = (if indep 3 M1 \<and> indep 3 M2 then Inr () else Inl AssertionFailed)"
proof (cases "indep 3 M1")
  case False
  with add_matrix [OF random_matrix_square [OF assms(1)]] assms show ?thesis
    by (simp add: reset_clears_state_def)
next
  case True
  with add_matrix [OF random_matrix_square [OF assms(1)]] obtain s where
    s: "foldR add_row_ok M1 (ie_new 3) = Inr s" "ie_is_full s" by auto
  from add_rows_spec [OF ie_wf_new, of M1 3] random_matrix_square [OF assms(1)] s(1)
  have "ie_n s = 3" by (auto simp: square_def split: if_splits)
  then have r: "ie_reset s = ie_new 3" by (simp add: ie_reset_new)
  from add_matrix [OF random_matrix_square [OF assms(2)]] True s assms show ?thesis
    by (auto simp: reset_clears_state_def r Let_def split: if_splits)
qed

lemma ranked_rows:
  assumes "ie_wf R s" "length R + length rows \<le> ie_n s" "\<forall>v \<in> set rows. length v = ie_n s"
  shows "foldR (\<lambda>(i, row) ech. check (\<not> ie_is_full ech) (check (ie_rank ech = i) (add_row_ok row ech)))
      (zip [length R..<length R + length rows] rows) s = foldR add_row_ok rows s"
  using assms
proof (induction rows arbitrary: R s)
  case (Cons v rows)
  then have room: "length R < ie_n s" "length v = ie_n s" by simp_all
  note here = ie_wf_full [OF Cons.prems(1)] ie_wf_rank [OF Cons.prems(1)]
  have zip: "zip [length R..<length R + length (v # rows)] (v # rows)
      = (length R, v) # zip [length (R @ [v])..<length (R @ [v]) + length rows] rows"
    by (simp add: upt_conv_Cons del: upt_Suc)
  show ?case
  proof (cases "in_span (ie_n s) R v")
    case True
    with add_row_okE [OF Cons.prems(1) room] here room show ?thesis unfolding zip by simp
  next
    case False
    with add_row_okE [OF Cons.prems(1) room] obtain s1 where
      s1: "add_row_ok v s = Inr s1" "ie_wf (R @ [v]) s1" "ie_n s1 = ie_n s" by auto
    with Cons.IH [OF s1(2)] Cons.prems here room show ?thesis unfolding zip by simp
  qed
qed simp

lemma incremental_rank_passes:
  "incremental_rank random seed
    = (if indep 5 (fst (random_matrix random 5 5 (seed 55))) then Inr () else Inl AssertionFailed)"
proof -
  obtain M rng where M: "random_matrix random 5 5 (seed 55) = (M, rng)" by force
  note sq = random_matrix_square [OF M]
  have "foldR (\<lambda>(i, row) ech. check (\<not> ie_is_full ech) (check (ie_rank ech = i) (add_row_ok row ech)))
      (zip [0..<length M] M) (ie_new 5) = foldR add_row_ok M (ie_new 5)"
    using ranked_rows [OF ie_wf_new, of M 5] sq by (simp add: square_def)
  with add_matrix [OF sq] M show ?thesis
    by (auto simp: incremental_rank_def split: if_splits)
qed

text \<open>A row given twice is refused the second time; so is a combination of the two rows before it.\<close>

lemma add_row_rejected_ok:
  assumes "ie_wf R s" "length R < ie_n s" "length row = ie_n s" "in_span (ie_n s) R row"
  shows "add_row_rejected row s = Inr s"
  using ie_add_row_spec [OF assms(1-3)] assms(4) by (simp add: add_row_rejected_def)

lemma indep_single: "indep n [v] \<longleftrightarrow> (\<exists>k < n. v ! k \<noteq> 0)"
  by (auto simp: indep_def in_span_def)

lemma same_row_twice_passes:
  assumes "draw_n random 4 (seed 7) = (row, rng)"
  shows "same_row_twice random seed
    = (if \<exists>k < 4. row ! k \<noteq> 0 then Inr () else Inl AssertionFailed)"
proof -
  have len: "length row = 4" using assms length_draw_n [of random 4 "seed 7"] by simp
  show ?thesis
  proof (cases "in_span 4 [] row")
    case True
    with add_row_okE [OF ie_wf_new, of 4 row] len indep_single [of 4 row] assms show ?thesis
      by (simp add: same_row_twice_def indep_def)
  next
    case False
    with add_row_okE [OF ie_wf_new, of 4 row] len obtain s where
      s: "add_row_ok row (ie_new 4) = Inr s" "ie_wf [row] s" "ie_n s = 4" by auto
    have "in_span 4 [row] row" using in_span_member [of 0 "[row]" 4] by simp
    with add_row_rejected_ok [OF s(2)] s len have "add_row_rejected row s = Inr s" by simp
    with s assms False indep_single [of 4 row] show ?thesis
      by (simp add: same_row_twice_def ie_wf_rank indep_def)
  qed
qed

lemma dependent_row_rejected_passes:
  "dependent_row_rejected random seed
    = (if indep 3 (take 2 (fst (random_matrix random 3 3 (seed 99)))) then Inr () else Inl AssertionFailed)"
proof -
  obtain M rng1 where M: "random_matrix random 3 3 (seed 99) = (M, rng1)" by force
  obtain alpha rng2 beta rng3 where ab: "random rng1 = (alpha, rng2)" "random rng2 = (beta, rng3)"
    by (meson surj_pair)
  from random_matrix_size [OF M] obtain m0 m1 m2 where M3: "M = [m0, m1, m2]"
    and len: "length m0 = 3" "length m1 = 3" by (auto simp: length_Suc_conv eval_nat_numeral)
  let ?dep = "map (\<lambda>j. m0 ! j * alpha + m1 ! j * beta) [0..<3]"
  have dep: "mapR (\<lambda>j. bindR (call (idx m0 j)) (\<lambda>x. bindR (call (idx m1 j)) (\<lambda>y.
      Inr (x * alpha + y * beta)))) [0..<3] = Inr ?dep"
    by (rule mapR_pure) (use len in simp)
  note run = dependent_row_rejected_def M M3 ab Let_def dep
  show ?thesis
  proof (cases "in_span 3 [] m0 \<or> in_span 3 [m0] m1")
    case True
    then have "\<not> indep 3 (take 2 M)" by (simp add: M3 indep_def)
    moreover have "bindR (add_row_ok m0 (ie_new 3)) (add_row_ok m1) = Inl AssertionFailed"
      using add_rows_spec [OF ie_wf_new, of "[m0, m1]" 3] True len
      by (cases "add_row_ok m0 (ie_new 3)"; cases "add_row_ok m1 (projr (add_row_ok m0 (ie_new 3)))") auto
    ultimately show ?thesis
      by (cases "add_row_ok m0 (ie_new 3)") (auto simp: run)
  next
    case False
    with add_row_okE [OF ie_wf_new, of 3 m0] len obtain s0 where
      s0: "add_row_ok m0 (ie_new 3) = Inr s0" "ie_wf [m0] s0" "ie_n s0 = 3" by auto
    with add_row_okE [OF s0(2), of m1] False len obtain s1 where
      s1: "add_row_ok m1 s0 = Inr s1" "ie_wf [m0, m1] s1" "ie_n s1 = 3" by auto
    have "in_span 3 [m0, m1] ?dep"
      by (rule in_spanI [where c = "\<lambda>i. if i = 0 then alpha else beta"]) (simp add: comb_Cons mult.commute)
    with add_row_rejected_ok [OF s1(2), of ?dep] s1(3) have "add_row_rejected ?dep s1 = Inr s1" by simp
    moreover have "indep 3 (take 2 M)" using False by (simp add: M3 indep_def)
    moreover have "ie_rank s1 = 2" using ie_wf_rank [OF s1(2)] by simp
    ultimately show ?thesis using s0(1) s1(1) by (simp add: run)
  qed
qed

lemma edge_case_n1_passes:
  "edge_case_n1 random seed = (if fst (random (seed 1)) \<noteq> 0 then Inr () else Inl AssertionFailed)"
proof -
  obtain s rng where s: "random (seed 1) = (s, rng)" by force
  have "ie_add_row (ie_new 1) [s] = (if s = 0 then Inr (ie_new 1, False)
      else Inr (\<lparr>ie_n = 1, ie_echelon = [[1]], ie_pivots = [0], ie_transform = [[inverse s]]\<rparr>, True))"
    by (simp add: ie_add_row_def ie_new_def ie_is_full_def)
  moreover have "ie_inverse \<lparr>ie_n = 1, ie_echelon = [[1]], ie_pivots = [0], ie_transform = [[inverse s]]\<rparr>
      = Inr [[inverse s]]"
    by (simp add: ie_inverse_def ie_is_full_def back_substitute_def place_rows_def)
  ultimately show ?thesis
    using s by (simp add: edge_case_n1_def add_row_ok_def ie_is_full_def)
qed

text \<open>The determinant of the known matrix is five.\<close>

lemma known_values_passes:
  "known_values_from_u64 TYPE('f::field)
    = (if (5 :: 'f) \<noteq> 0 then Inr () else Inl AssertionFailed)"
proof -
  let ?M = "[[2, 3], [1, 4]] :: 'f list list"
  have "(2 :: 'f) \<noteq> 0 \<or> (3 :: 'f) \<noteq> 0"
  proof (rule ccontr)
    assume "\<not> ?thesis"
    then have "(3 :: 'f) - 2 = 0" by simp
    then show False by simp
  qed
  then have "indep 2 ?M \<longleftrightarrow> \<not> in_span 2 [[2, 3]] [1, 4 :: 'f]"
    by (auto simp: indep_def in_span_def less_2_cases_iff)
  also have "in_span 2 [[2, 3]] [1, 4 :: 'f] \<longleftrightarrow> (\<exists>c :: 'f. 1 = c * 2 \<and> 4 = c * 3)"
    unfolding in_span_def
  proof safe
    fix c :: "nat \<Rightarrow> 'f" assume c: "\<forall>k < 2. [1, 4] ! k = comb c [[2, 3]] k"
    from c [rule_format, of 0] c [rule_format, of 1]
    show "\<exists>c :: 'f. 1 = c * 2 \<and> 4 = c * 3" by (auto simp: comb_Cons)
  next
    fix c :: 'f assume "1 = c * 2" "4 = c * 3"
    then show "\<exists>c. \<forall>k < 2. [1, 4] ! k = comb c [[2, 3 :: 'f]] k"
      by (intro exI [of _ "\<lambda>_. c"]) (auto simp: comb_Cons less_2_cases_iff)
  qed
  also have "(\<exists>c :: 'f. 1 = c * 2 \<and> 4 = c * 3) \<longleftrightarrow> (5 :: 'f) = 0"
  proof safe
    fix c :: 'f assume c: "1 = c * 2" "4 = c * 3"
    have "(3 :: 'f) = 3 * (c * 2)" using c(1) by simp
    also have "\<dots> = 2 * (c * 3)" by simp
    also have "\<dots> = 2 * 4" by (simp only: c(2) [symmetric])
    finally have e: "(3 :: 'f) = 2 * 4" .
    have "(5 :: 'f) = 2 * 4 - 3" by simp
    also have "\<dots> = 0" by (simp only: e [symmetric] diff_self)
    finally show "(5 :: 'f) = 0" .
  next
    assume five: "(5 :: 'f) = 0"
    have "(3 :: 'f) * 2 = 5 + 1" "(3 :: 'f) * 3 = 5 + 4" by simp_all
    with five show "\<exists>c :: 'f. 1 = c * 2 \<and> 4 = c * 3" by (intro exI [of _ 3]) simp
  qed
  finally have ind: "indep 2 ?M \<longleftrightarrow> (5 :: 'f) \<noteq> 0" by simp
  have sq: "square 2 ?M" by (simp add: square_def)
  have "known_values_from_u64 TYPE('f) = bindR (foldR add_row_ok ?M (ie_new 2)) (\<lambda>ech.
      check (ie_is_full ech) (inverse_is_left ?M ech))"
    by (simp add: known_values_from_u64_def bindR_assoc)
  with add_matrix [OF sq] ind show ?thesis by (auto split: if_splits)
qed

end
