(* ===== verification/Tests_Coding.thy ===== *)
theory Tests_Coding
  imports Tests_Math Coding
begin

text \<open>
  The tests of \<open>crates/primitives/types/src/coding.rs\<close>. The decoder tests draw chunks and coefficient
  vectors; each passes exactly on the draws whose coefficients are independent, or span where the
  test keeps drawing.
\<close>

section \<open>Tests of chunks\<close>

definition chunk_construction :: "'f::field itself \<Rightarrow> unit test" where
  "chunk_construction _ =
     (let v = map of_nat [0..<4] :: 'f list in
      bindR (call (chunk_new v)) (\<lambda>chunk.
      check (chunk_v chunk = v) (check (length (chunk_v chunk) = 4) (Inr ()))))"

definition chunk_wrong_length :: "'f::field itself \<Rightarrow> unit test" where
  "chunk_wrong_length _ =
     should_panic ChunkLengthMismatch
       (let v = replicate 3 0 :: 'f list in call (chunk_new_checked v 4))"

definition chunk_deref :: "'f::field itself \<Rightarrow> unit test" where
  "chunk_deref _ =
     (let v = map of_nat [0..<4] :: 'f list in
      bindR (call (chunk_new v)) (\<lambda>chunk.
        let slice = chunk_v chunk in check (slice = v) (Inr ())))"

definition coded_chunk_fields :: "'f::field itself \<Rightarrow> unit test" where
  "coded_chunk_fields _ =
     bindR (call (chunk_new [of_nat 10, of_nat 20 :: 'f])) (\<lambda>w.
     let b = [1, 0, of_nat 3] in
     bindR (call (coded_chunk_new 3 w b)) (\<lambda>coded.
     check (cc_w coded = w) (check (cc_b coded = b) (Inr ()))))"

definition coded_chunk_wrong_b_length :: "'f::field itself \<Rightarrow> unit test" where
  "coded_chunk_wrong_b_length _ =
     should_panic CoeffVectorLength
       (bindR (call (chunk_new (replicate 2 (0 :: 'f)))) (\<lambda>w.
        let b = replicate 2 0 in call (coded_chunk_new 3 w b)))"

lemma chunk_tests_pass:
  "chunk_construction TYPE('f::field) = Inr ()"
  "chunk_wrong_length TYPE('f) = Inr ()"
  "chunk_deref TYPE('f) = Inr ()"
  "coded_chunk_fields TYPE('f) = Inr ()"
  "coded_chunk_wrong_b_length TYPE('f) = Inr ()"
  by (simp_all add: chunk_construction_def chunk_wrong_length_def chunk_deref_def
      coded_chunk_fields_def coded_chunk_wrong_b_length_def chunk_new_def chunk_new_checked_def
      coded_chunk_new_def Let_def)

section \<open>What the decoder tests share\<close>

fun random_chunks :: "('r \<Rightarrow> 'f \<times> 'r) \<Rightarrow> nat \<Rightarrow> nat \<Rightarrow> 'r \<Rightarrow> ('f chunk list \<times> 'r) run" where
  "random_chunks random 0 m rng = Inr ([], rng)"
| "random_chunks random (Suc k) m rng =
     (let (v, rng1) = draw_n random m rng in
      bindR (chunk_new v) (\<lambda>c.
      bindR (random_chunks random k m rng1) (\<lambda>(cs, rng2). Inr (c # cs, rng2))))"

definition encode_one ::
  "('r \<Rightarrow> 'f::field \<times> 'r) \<Rightarrow> nat \<Rightarrow> 'f chunk list \<Rightarrow> 'r \<Rightarrow> ('f coded_chunk \<times> 'r) run" where
  "encode_one random N chunks rng =
     (let (coeffs, rng1) = random_coefficients random N rng;
          refs = map chunk_v chunks in
      bindR (linear_combination refs coeffs) (\<lambda>coded_data.
      bindR (chunk_new coded_data) (\<lambda>w.
      bindR (coded_chunk_new N w coeffs) (\<lambda>c. Inr (c, rng1)))))"

text \<open>\<open>assert!(decoder.add(coded))\<close>, and \<open>let coded = encode_one(..); assert!(decoder.add(coded));\<close>.\<close>

definition add_ok :: "'f::field coded_chunk \<Rightarrow> 'f block_decoder \<Rightarrow> 'f block_decoder test" where
  "add_ok coded decoder = bindR (call (bd_add decoder coded)) (\<lambda>(decoder', added). check added (Inr decoder'))"

definition add_encoded ::
  "('r \<Rightarrow> 'f::field \<times> 'r) \<Rightarrow> nat \<Rightarrow> 'f chunk list \<Rightarrow> nat \<Rightarrow> 'f block_decoder \<times> 'r \<Rightarrow>
   ('f block_decoder \<times> 'r) test" where
  "add_encoded random N origs _ = (\<lambda>(decoder, rng).
     bindR (call (encode_one random N origs rng)) (\<lambda>(coded, rng).
     bindR (add_ok coded decoder) (\<lambda>decoder. Inr (decoder, rng))))"

text \<open>\<open>for (orig, rec) in originals.iter().zip(&recovered) { assert_eq!(orig, rec); }\<close>.\<close>

definition all_recovered :: "'f chunk list \<Rightarrow> 'f chunk list \<Rightarrow> unit test" where
  "all_recovered origs recovered =
     foldR (\<lambda>(orig, rec) _. check (orig = rec) (Inr ())) (zip origs recovered) ()"

section \<open>Tests of the decoder\<close>

definition decoder_lifecycle :: "('r \<Rightarrow> 'f::field \<times> 'r) \<Rightarrow> (u64 \<Rightarrow> 'r) \<Rightarrow> unit test" where
  "decoder_lifecycle random seed =
     (let M = 8; N = 4 in
      bindR (call (random_chunks random N M (seed 42))) (\<lambda>(origs, rng).
      let decoder = bd_new N in
      check (bd_rank decoder = 0) (check (\<not> bd_is_complete decoder)
       (bindR (foldR (add_encoded random N origs) [0..<N] (decoder, rng)) (\<lambda>(decoder, rng).
        check (bd_is_complete decoder) (check (bd_rank decoder = N)
         (bindR (call (bd_decode N decoder)) (\<lambda>recovered.
          check (length recovered = N) (all_recovered origs recovered)))))))))"

definition decoder_dependent_rejection :: "('r \<Rightarrow> 'f::field \<times> 'r) \<Rightarrow> (u64 \<Rightarrow> 'r) \<Rightarrow> unit test" where
  "decoder_dependent_rejection random seed =
     (let M = 4; N = 3 in
      bindR (call (random_chunks random N M (seed 99))) (\<lambda>(origs, rng).
      let decoder = bd_new N in
      bindR (call (encode_one random N origs rng)) (\<lambda>(coded0, rng).
      bindR (add_ok coded0 decoder) (\<lambda>decoder.
      bindR (call (bd_add decoder coded0)) (\<lambda>(decoder, added).
      check (\<not> added) (check (bd_rank decoder = 1) (Inr ())))))))"

definition decoder_excess_chunks :: "('r \<Rightarrow> 'f::field \<times> 'r) \<Rightarrow> (u64 \<Rightarrow> 'r) \<Rightarrow> unit test" where
  "decoder_excess_chunks random seed =
     (let M = 4; N = 3 in
      bindR (call (random_chunks random N M (seed 77))) (\<lambda>(origs, rng).
      let decoder = bd_new N; added = 0 in
      bindR (until (\<lambda>(decoder, added, rng). bd_is_complete decoder)
        (\<lambda>_ (decoder, added :: nat, rng).
          bindR (call (encode_one random N origs rng)) (\<lambda>(coded, rng).
          bindR (call (bd_add decoder coded)) (\<lambda>(decoder, new).
            Inr (decoder, if new then added + 1 else added, rng))))
        [0..<10] (decoder, added, rng)) (\<lambda>(decoder, added, rng).
      check (added = N) (check (bd_is_complete decoder)
       (bindR (call (bd_decode N decoder)) (\<lambda>recovered. all_recovered origs recovered))))))"

text \<open>\<open>w' = \<Sum> b'\<^sub>i v\<^sub>i\<close> for a re-encoded chunk, as two tests check it.\<close>

definition reencoded_valid :: "'f::field chunk list \<Rightarrow> 'f coded_chunk \<Rightarrow> unit test" where
  "reencoded_valid origs reencoded =
     (let orig_refs = map chunk_v origs in
      bindR (call (linear_combination orig_refs (cc_b reencoded))) (\<lambda>expected_w.
      check (chunk_v (cc_w reencoded) = expected_w) (Inr ())))"

definition decoder_reencode :: "('r \<Rightarrow> 'f::field \<times> 'r) \<Rightarrow> (u64 \<Rightarrow> 'r) \<Rightarrow> unit test" where
  "decoder_reencode random seed =
     (let M = 8; N = 4 in
      bindR (call (random_chunks random N M (seed 55))) (\<lambda>(origs, rng).
      let decoder = bd_new N in
      bindR (foldR (add_encoded random N origs) [0..<2] (decoder, rng)) (\<lambda>(decoder, rng).
      check (bd_rank decoder = 2)
       (bindR (call (bd_reencode random N decoder rng)) (\<lambda>(reencoded, rng).
        check (length (chunk_v (cc_w reencoded)) = M) (check (length (cc_b reencoded) = N)
         (reencoded_valid origs reencoded)))))))"

definition decoder_reencode_with_matches_reencode ::
  "('r \<Rightarrow> 'f::field \<times> 'r) \<Rightarrow> (u64 \<Rightarrow> 'r) \<Rightarrow> unit test" where
  "decoder_reencode_with_matches_reencode random seed =
     (let M = 8; N = 4 in
      bindR (call (random_chunks random N M (seed 55))) (\<lambda>(origs, rng).
      let decoder = bd_new N in
      bindR (foldR (add_encoded random N origs) [0..<2] (decoder, rng)) (\<lambda>(decoder, rng).
      let (alphas, rng) = random_coefficients random 2 rng in
      bindR (call (bd_reencode_with N decoder alphas)) (\<lambda>reencoded.
        reencoded_valid origs reencoded))))"

definition decoder_reencode_with_wrong_alpha_len ::
  "('r \<Rightarrow> 'f::field \<times> 'r) \<Rightarrow> (u64 \<Rightarrow> 'r) \<Rightarrow> unit test" where
  "decoder_reencode_with_wrong_alpha_len random seed =
     should_panic AlphasLength
      (let M = 4; N = 3 in
       bindR (call (random_chunks random N M (seed 77))) (\<lambda>(origs, rng).
       let decoder = bd_new N in
       bindR (call (encode_one random N origs rng)) (\<lambda>(coded, rng).
       bindR (add_ok coded decoder) (\<lambda>decoder.
       let (alphas, rng) = random_coefficients random 5 rng in
       call (bd_reencode_with N decoder alphas)))))"

definition decoder_reencode_with_empty :: "'f::field itself \<Rightarrow> unit test" where
  "decoder_reencode_with_empty _ =
     should_panic CannotReencode
      (let decoder = bd_new 3 :: 'f block_decoder in call (bd_reencode_with 3 decoder []))"

definition decoder_reset :: "('r \<Rightarrow> 'f::field \<times> 'r) \<Rightarrow> (u64 \<Rightarrow> 'r) \<Rightarrow> unit test" where
  "decoder_reset random seed =
     (let M = 4; N = 2 in
      bindR (call (random_chunks random N M (seed 11))) (\<lambda>(origs, rng).
      let decoder = bd_new N in
      bindR (foldR (add_encoded random N origs) [0..<N] (decoder, rng)) (\<lambda>(decoder, rng).
      check (bd_is_complete decoder)
       (let decoder = bd_reset decoder in
        check (bd_rank decoder = 0) (check (\<not> bd_is_complete decoder)
         (bindR (call (random_chunks random N M rng)) (\<lambda>(originals2, rng).
          bindR (foldR (add_encoded random N originals2) [0..<N] (decoder, rng)) (\<lambda>(decoder, rng).
          check (bd_is_complete decoder)
           (bindR (call (bd_decode N decoder)) (\<lambda>recovered. all_recovered originals2 recovered))))))))))"

section \<open>Drawing originals and coefficients\<close>

text \<open>The originals are the rows of a random matrix, and so are the coefficient vectors after them.\<close>

abbreviation wrap :: "'f list list \<Rightarrow> 'f chunk list" where
  "wrap V \<equiv> map (\<lambda>v. \<lparr>chunk_v = v\<rparr>) V"

lemma random_chunks_matrix:
  assumes "0 < m"
  shows "random_chunks random k m rng = Inr (apfst wrap (random_matrix random k m rng))"
proof (induction k arbitrary: rng)
  case (Suc k)
  obtain v rng1 where v: "draw_n random m rng = (v, rng1)" by force
  then have "v \<noteq> []" using length_draw_n [of random m rng] assms by auto
  with v Suc show ?case
    by (simp add: random_matrix_def chunk_new_def case_prod_beta Let_def apfst_def map_prod_def)
qed (simp add: random_matrix_def apfst_def)

lemma random_originals:
  assumes "random_matrix random N m rng = (V, rng')" "0 < m"
  shows "originals N m V" "random_chunks random N m rng = Inr (wrap V, rng')"
  using random_matrix_size [OF assms(1)] random_chunks_matrix [OF assms(2), of random N rng] assms
  by (auto simp: originals_def)

lemma random_matrix_Suc:
  "random_matrix random (Suc k) n rng =
    (let (v, rng1) = draw_n random n rng; (vs, rng2) = random_matrix random k n rng1 in (v # vs, rng2))"
  by (simp add: random_matrix_def)

lemma encode_one_coded:
  assumes V: "originals N m V" and N: "0 < N" and draw: "draw_n random N rng = (b, rng')"
  shows "\<exists>c. encode_one random N (wrap V) rng = Inr (c, rng') \<and> coded_by N m V c \<and> cc_b c = b"
proof -
  have b: "length b = N" using draw length_draw_n [of random N rng] by simp
  have "linear_combination V b = Inr (map (comb ((!) b) V) [0..<m])"
    by (rule linear_combination_comb) (use V N b in \<open>auto simp: originals_def\<close>)
  then show ?thesis
    using V b draw
    by (simp add: encode_one_def random_coefficients_def chunk_new_def coded_chunk_new_def
        coded_by_def originals_def comp_def)
qed

lemma complete_iff_spans: "bd_wf N d \<Longrightarrow> bd_is_complete d \<longleftrightarrow> spans N (map cc_b (bd_coded_chunks d))"
  using complete_spans [of N d] spanning_completes [of N d] by (auto simp: spans_def bd_span_def)

text \<open>
  Adding one honest chunk: the assertion holds exactly for innovative ones. A decoder with fewer than
  \<open>N\<close> chunks is not complete, so only the coefficients matter.
\<close>

lemma add_ok_spec:
  assumes h: "honest N m V d" and c: "coded_by N m V c" and room: "length (bd_coded_chunks d) < N"
  shows "if bd_span N d (cc_b c) then add_ok c d = Inl AssertionFailed
    else \<exists>d'. add_ok c d = Inr d' \<and> honest N m V d' \<and> bd_coded_chunks d' = bd_coded_chunks d @ [c]"
proof -
  have wf: "bd_wf N d" "length (cc_b c) = N" using h c by (simp_all add: honest_def coded_by_def)
  from room bd_wf_complete [OF wf(1)] have "\<not> bd_is_complete d" by simp
  with bd_add_spec [OF wf] h c show ?thesis
    by (auto simp: add_ok_def honest_def split: if_splits)
qed

lemma add_encoded_spec:
  assumes V: "originals N m V"
  shows "honest N m V d \<Longrightarrow> length (bd_coded_chunks d) + k \<le> N \<Longrightarrow>
    random_matrix random k N rng = (B, rng') \<Longrightarrow>
    if indep_after N (map cc_b (bd_coded_chunks d)) B
    then \<exists>d'. foldR (add_encoded random N (wrap V)) [i..<i + k] (d, rng) = Inr (d', rng') \<and>
      honest N m V d' \<and> map cc_b (bd_coded_chunks d') = map cc_b (bd_coded_chunks d) @ B
    else foldR (add_encoded random N (wrap V)) [i..<i + k] (d, rng) = Inl AssertionFailed"
proof (induction k arbitrary: d rng B i)
  case 0
  then show ?case by (simp add: random_matrix_def)
next
  case (Suc k)
  obtain b rng1 where b: "draw_n random N rng = (b, rng1)" by force
  with Suc.prems(3) obtain B' where B: "B = b # B'" "random_matrix random k N rng1 = (B', rng')"
    by (auto simp: random_matrix_Suc split: prod.splits)
  from encode_one_coded [OF V _ b] Suc.prems(2) obtain c where
    c: "encode_one random N (wrap V) rng = Inr (c, rng1)" "coded_by N m V c" "cc_b c = b" by auto
  have upt: "[i..<i + Suc k] = i # [Suc i..<Suc i + k]" by (simp add: upt_conv_Cons del: upt_Suc)
  have room: "length (bd_coded_chunks d) < N" using Suc.prems(2) by simp
  show ?case
  proof (cases "bd_span N d b")
    case True
    with add_ok_spec [OF Suc.prems(1) c(2) room] c show ?thesis
      unfolding upt by (simp add: B bd_span_def add_encoded_def)
  next
    case False
    with add_ok_spec [OF Suc.prems(1) c(2) room] c(3) obtain d1 where
      d1: "add_ok c d = Inr d1" "honest N m V d1" "bd_coded_chunks d1 = bd_coded_chunks d @ [c]" by auto
    have "add_encoded random N (wrap V) i (d, rng) = Inr (d1, rng1)"
      using c(1) d1(1) by (simp add: add_encoded_def)
    moreover have "length (bd_coded_chunks d1) + k \<le> N" using Suc.prems(2) d1(3) by simp
    note Suc.IH [OF d1(2) this B(2), of "Suc i"]
    ultimately show ?thesis
      using False d1(3) c(3) unfolding upt by (auto simp: B bd_span_def split: if_splits)
  qed
qed

lemma all_recovered_same: "all_recovered cs cs = Inr ()"
  unfolding all_recovered_def by (induction cs) simp_all

section \<open>When the tests pass\<close>

lemma bd_new_empty [simp]: "bd_coded_chunks (bd_new N) = []" "bd_rank (bd_new N) = 0"
  "bd_is_complete (bd_new N) \<longleftrightarrow> N = 0"
  by (simp_all add: bd_new_def bd_rank_def bd_is_complete_def)

lemma honest_wf: "honest N m V d \<Longrightarrow> bd_wf N d"
  by (simp add: honest_def)

text \<open>Filling a fresh decoder.\<close>

lemma fill_decoder:
  assumes V: "originals N m V" and k: "k \<le> N" and B: "random_matrix random k N rng = (B, rng')"
  shows "if indep N B
    then \<exists>d. foldR (add_encoded random N (wrap V)) [0..<k] (bd_new N, rng) = Inr (d, rng') \<and>
      honest N m V d \<and> bd_rank d = k \<and> (bd_is_complete d \<longleftrightarrow> k = N)
    else foldR (add_encoded random N (wrap V)) [0..<k] (bd_new N, rng) = Inl AssertionFailed"
proof (cases "indep N B")
  case False
  with add_encoded_spec [OF V honest_new, of k random rng B rng' 0] k B show ?thesis
    by (simp add: indep_def)
next
  case True
  with add_encoded_spec [OF V honest_new, of k random rng B rng' 0] k B obtain d where
    d: "foldR (add_encoded random N (wrap V)) [0..<k] (bd_new N, rng) = Inr (d, rng')"
    "honest N m V d" "map cc_b (bd_coded_chunks d) = B" by (auto simp: indep_def)
  from random_matrix_size(1) [OF B] d(3) have "length (bd_coded_chunks d) = k"
    by (metis length_map)
  with True d bd_wf_rank [OF honest_wf [OF d(2)]] bd_wf_complete [OF honest_wf [OF d(2)]]
  show ?thesis by simp
qed

lemma decode_recovers:
  assumes "originals N m V" "honest N m V d" "bd_is_complete d"
  shows "bindR (call (bd_decode N d)) (\<lambda>r. check (length r = N) (all_recovered (wrap V) r)) = Inr ()"
    "bindR (call (bd_decode N d)) (all_recovered (wrap V)) = Inr ()"
  using bd_decode_correct [OF assms] assms(1) by (simp_all add: all_recovered_same originals_def)

lemma decoder_lifecycle_passes:
  assumes V: "random_matrix random 4 8 (seed 42) = (V, rng1)" and B: "random_matrix random 4 4 rng1 = (B, rng2)"
  shows "decoder_lifecycle random seed = (if indep 4 B then Inr () else Inl AssertionFailed)"
proof -
  have o: "originals 4 8 V" "random_chunks random 4 8 (seed 42) = Inr (wrap V, rng1)"
    using random_originals [OF V] by simp_all
  show ?thesis
  proof (cases "indep 4 B")
    case False
    with fill_decoder [OF o(1) order_refl B] show ?thesis
      by (simp add: decoder_lifecycle_def o(2) Let_def)
  next
    case True
    with fill_decoder [OF o(1) order_refl B] obtain d where
      d: "foldR (add_encoded random 4 (wrap V)) [0..<4] (bd_new 4, rng1) = Inr (d, rng2)"
      "honest 4 8 V d" "bd_rank d = 4" "bd_is_complete d" by auto
    with decode_recovers(1) [OF o(1) d(2,4)] True show ?thesis
      by (simp add: decoder_lifecycle_def o(2) Let_def)
  qed
qed

lemma decoder_dependent_rejection_passes:
  assumes V: "random_matrix random 3 4 (seed 99) = (V, rng1)" and b: "draw_n random 3 rng1 = (b, rng2)"
  shows "decoder_dependent_rejection random seed = (if indep 3 [b] then Inr () else Inl AssertionFailed)"
proof -
  have o: "originals 3 4 V" "random_chunks random 3 4 (seed 99) = Inr (wrap V, rng1)"
    using random_originals [OF V] by simp_all
  from encode_one_coded [OF o(1) _ b] obtain c where
    c: "encode_one random 3 (wrap V) rng1 = Inr (c, rng2)" "coded_by 3 4 V c" "cc_b c = b" by auto
  note add = add_ok_spec [OF honest_new c(2)]
  show ?thesis
  proof (cases "indep 3 [b]")
    case False
    with add c show ?thesis
      by (simp add: decoder_dependent_rejection_def o(2) Let_def indep_def bd_span_def)
  next
    case True
    with add c obtain d where d: "add_ok c (bd_new 3) = Inr d" "honest 3 4 V d" "bd_coded_chunks d = [c]"
      by (auto simp: indep_def bd_span_def)
    have "bd_span 3 d (cc_b c)"
      using in_span_member [of 0 "[b]" 3] by (simp add: bd_span_def d(3) c(3))
    moreover have "length (cc_b c) = 3" using c(2) by (simp add: coded_by_def)
    ultimately have "bd_add d c = Inr (d, False)" using bd_add_spec [OF honest_wf [OF d(2)]] by simp
    moreover have "bd_rank d = 1" using bd_wf_rank [OF honest_wf [OF d(2)]] d(3) by simp
    ultimately show ?thesis using d(1) c True by (simp add: decoder_dependent_rejection_def o(2) Let_def)
  qed
qed

lemma reencoded_valid_coded:
  assumes V: "originals N m V" and N: "0 < N" and c: "coded_by N m V c"
  shows "reencoded_valid (wrap V) c = Inr ()"
proof -
  have "linear_combination V (cc_b c) = Inr (map (comb ((!) (cc_b c)) V) [0..<m])"
    by (rule linear_combination_comb) (use V N c in \<open>auto simp: originals_def coded_by_def\<close>)
  moreover have "chunk_v (cc_w c) = map (comb ((!) (cc_b c)) V) [0..<m]"
    using c by (intro nth_equalityI) (simp_all add: coded_by_def)
  ultimately show ?thesis by (simp add: reencoded_valid_def comp_def)
qed

lemma reencode_tests_pass:
  assumes V: "random_matrix random 4 8 (seed 55) = (V, rng1)" and B: "random_matrix random 2 4 rng1 = (B, rng2)"
  shows "decoder_reencode random seed = (if indep 4 B then Inr () else Inl AssertionFailed)"
    and "decoder_reencode_with_matches_reencode random seed
      = (if indep 4 B then Inr () else Inl AssertionFailed)"
proof -
  have o: "originals 4 8 V" "random_chunks random 4 8 (seed 55) = Inr (wrap V, rng1)"
    using random_originals [OF V] by simp_all
  note fill = fill_decoder [OF o(1) _ B]
  have "decoder_reencode random seed = (if indep 4 B then Inr () else Inl AssertionFailed) \<and>
    decoder_reencode_with_matches_reencode random seed
      = (if indep 4 B then Inr () else Inl AssertionFailed)"
  proof (cases "indep 4 B")
    case False
    with fill show ?thesis
      by (simp add: decoder_reencode_def decoder_reencode_with_matches_reencode_def o(2) Let_def)
  next
    case True
    with fill obtain d where
      d: "foldR (add_encoded random 4 (wrap V)) [0..<2] (bd_new 4, rng1) = Inr (d, rng2)"
      "honest 4 8 V d" "bd_rank d = 2" by auto
    then have two: "length (bd_coded_chunks d) = 2" using bd_wf_rank [OF honest_wf [OF d(2)]] by simp
    then have ne: "bd_coded_chunks d \<noteq> []" by auto
    obtain alphas rng3 where al: "random_coefficients random 2 rng2 = (alphas, rng3)" by force
    then have "length alphas = length (bd_coded_chunks d)"
      using length_draw_n [of random 2 rng2] two by (simp add: random_coefficients_def)
    from bd_reencode_with_coded [OF o(1) d(2) ne this] obtain c where
      c: "bd_reencode_with 4 d alphas = Inr c" "coded_by 4 8 V c" by blast
    then have "reencoded_valid (wrap V) c = Inr ()" "length (chunk_v (cc_w c)) = 8" "length (cc_b c) = 4"
      using reencoded_valid_coded [OF o(1) _ c(2)] by (simp_all add: coded_by_def)
    with True d al c(1) two show ?thesis
      by (simp add: decoder_reencode_def decoder_reencode_with_matches_reencode_def o(2) Let_def
          bd_reencode_def)
  qed
  then show "decoder_reencode random seed = (if indep 4 B then Inr () else Inl AssertionFailed)"
    and "decoder_reencode_with_matches_reencode random seed
      = (if indep 4 B then Inr () else Inl AssertionFailed)" by blast+
qed

lemma reencode_panic_tests_pass:
  assumes V: "random_matrix random 3 4 (seed 77) = (V, rng1)" and b: "draw_n random 3 rng1 = (b, rng2)"
  shows "decoder_reencode_with_wrong_alpha_len random seed
      = (if indep 3 [b] then Inr () else Inl AssertionFailed)"
    and "decoder_reencode_with_empty TYPE('f::field) = Inr ()"
proof -
  show "decoder_reencode_with_empty TYPE('f) = Inr ()"
    by (simp add: decoder_reencode_with_empty_def bd_reencode_with_panics)
  have o: "originals 3 4 V" "random_chunks random 3 4 (seed 77) = Inr (wrap V, rng1)"
    using random_originals [OF V] by simp_all
  from encode_one_coded [OF o(1) _ b] obtain c where
    c: "encode_one random 3 (wrap V) rng1 = Inr (c, rng2)" "coded_by 3 4 V c" "cc_b c = b" by auto
  note run = decoder_reencode_with_wrong_alpha_len_def o(2) Let_def c(1)
  show "decoder_reencode_with_wrong_alpha_len random seed
      = (if indep 3 [b] then Inr () else Inl AssertionFailed)"
  proof (cases "indep 3 [b]")
    case False
    with add_ok_spec [OF honest_new c(2)] c(3) show ?thesis
      by (simp add: run should_panic_def indep_def bd_span_def)
  next
    case True
    with add_ok_spec [OF honest_new c(2)] c(3) obtain d where
      d: "add_ok c (bd_new 3) = Inr d" "bd_coded_chunks d = [c]" by (auto simp: indep_def bd_span_def)
    obtain alphas rng3 where al: "random_coefficients random 5 rng2 = (alphas, rng3)" by force
    then have "length alphas = 5" using length_draw_n [of random 5 rng2] by (simp add: random_coefficients_def)
    then have "bd_reencode_with 3 d alphas = Inl AlphasLength"
      using d(2) by (simp add: bd_reencode_with_panics)
    with d(1) al True show ?thesis by (simp add: run)
  qed
qed

lemma decoder_reset_passes:
  assumes V: "random_matrix random 2 4 (seed 11) = (V, rng1)" "random_matrix random 2 2 rng1 = (B, rng2)"
    and W: "random_matrix random 2 4 rng2 = (W, rng3)" "random_matrix random 2 2 rng3 = (C, rng4)"
  shows "decoder_reset random seed = (if indep 2 B \<and> indep 2 C then Inr () else Inl AssertionFailed)"
proof (cases "indep 2 B")
  case False
  with fill_decoder [OF random_originals(1) [OF V(1)] order_refl V(2)] random_originals(2) [OF V(1)]
  show ?thesis by (simp add: decoder_reset_def Let_def)
next
  case True
  with fill_decoder [OF random_originals(1) [OF V(1)] order_refl V(2)] obtain d where
    d: "foldR (add_encoded random 2 (wrap V)) [0..<2] (bd_new 2, rng1) = Inr (d, rng2)"
    "honest 2 4 V d" "bd_is_complete d" by auto
  note run = decoder_reset_def Let_def d(1,3) random_originals(2) [OF V(1)] random_originals(2) [OF W(1)]
    bd_reset_new [OF honest_wf [OF d(2)]]
  note fill = fill_decoder [OF random_originals(1) [OF W(1)] order_refl W(2)]
  show ?thesis
  proof (cases "indep 2 C")
    case False
    with fill show ?thesis by (simp add: run)
  next
    case indep: True
    with fill obtain e where
      e: "foldR (add_encoded random 2 (wrap W)) [0..<2] (bd_new 2, rng3) = Inr (e, rng4)"
      "honest 2 4 W e" "bd_is_complete e" by auto
    from decode_recovers(2) [OF random_originals(1) [OF W(1)] e(2,3)] True indep e show ?thesis
      by (simp add: run)
  qed
qed

section \<open>Receiving until complete\<close>

text \<open>
  A decoder that was given the chunks \<open>cs\<close>, all of the same originals: it keeps some of them, and
  their coefficients span what all of \<open>cs\<close> span. So it is complete exactly when \<open>cs\<close> spans.
\<close>

definition fed_with ::
  "nat \<Rightarrow> nat \<Rightarrow> 'f::field list list \<Rightarrow> 'f coded_chunk list \<Rightarrow> 'f block_decoder \<Rightarrow> bool" where
  "fed_with N m V cs d \<longleftrightarrow> honest N m V d \<and> (\<forall>c \<in> set cs. bd_span N d (cc_b c)) \<and>
     set (bd_coded_chunks d) \<subseteq> set cs"

lemma fed_with_new: "fed_with N m V [] (bd_new N)"
  by (simp add: fed_with_def honest_new)

lemma fed_with_complete:
  assumes "fed_with N m V cs d"
  shows "bd_is_complete d \<longleftrightarrow> spans N (map cc_b cs)"
proof -
  have "spans N (map cc_b (bd_coded_chunks d)) \<longleftrightarrow> spans N (map cc_b cs)"
  proof
    assume "spans N (map cc_b (bd_coded_chunks d))"
    then show "spans N (map cc_b cs)"
      by (rule spans_mono) (use assms in \<open>auto simp: fed_with_def\<close>)
  next
    assume "spans N (map cc_b cs)"
    then show "spans N (map cc_b (bd_coded_chunks d))"
      by (rule spans_trans) (use assms in \<open>auto simp: fed_with_def bd_span_def\<close>)
  qed
  moreover have "bd_wf N d" using assms honest_wf by (auto simp: fed_with_def)
  ultimately show ?thesis by (simp add: complete_iff_spans)
qed

lemma fed_with_add:
  assumes fw: "fed_with N m V cs d" and c: "coded_by N m V c"
  shows "\<exists>d' r. bd_add d c = Inr (d', r) \<and> fed_with N m V (cs @ [c]) d' \<and>
    length (bd_coded_chunks d') = length (bd_coded_chunks d) + (if r then 1 else 0)"
proof -
  have h: "honest N m V d" using fw by (simp add: fed_with_def)
  have wf: "bd_wf N d" "length (cc_b c) = N" using h c by (simp_all add: honest_def coded_by_def)
  show ?thesis
  proof (cases rule: bd_add_cases [OF wf])
    case 1
    then have "bd_span N d (cc_b c)" using complete_spans [OF wf(1) _ wf(2)] by blast
    with 1 fw show ?thesis by (auto simp: fed_with_def)
  next
    case (2 d')
    from bd_add_keeps [OF wf] 2(1) have "bd_span N d' (cc_b c)" "\<forall>v. bd_span N d v \<longrightarrow> bd_span N d' v"
      by auto
    moreover have "honest N m V d'" using 2(2,3) h c by (auto simp: honest_def)
    ultimately show ?thesis using 2(1,3) fw by (auto simp: fed_with_def)
  qed
qed

lemma decoder_excess_chunks_passes:
  assumes V: "random_matrix random 3 4 (seed 77) = (V, rng1)" and B: "random_matrix random 10 3 rng1 = (B, rng2)"
  shows "decoder_excess_chunks random seed = (if spans 3 B then Inr () else Inl AssertionFailed)"
proof -
  have o: "originals 3 4 V" "random_chunks random 3 4 (seed 77) = Inr (wrap V, rng1)"
    using random_originals [OF V] by simp_all
  let ?body = "\<lambda>_ (decoder, added :: nat, rng).
    bindR (call (encode_one random 3 (wrap V) rng)) (\<lambda>(coded, rng).
    bindR (call (bd_add decoder coded)) (\<lambda>(decoder, new).
      Inr (decoder, if new then added + 1 else added, rng)))"
  let ?I = "\<lambda>ys (d, added, rng). added = length (bd_coded_chunks d) \<and>
    (\<exists>cs. fed_with 3 4 V cs d \<and> random_matrix random (length ys) 3 rng1 = (map cc_b cs, rng))"
  have "\<exists>s' k. until (\<lambda>(d, added, rng). bd_is_complete d) ?body [0..<10] (bd_new 3, 0, rng1) = Inr s' \<and>
    ?I ([] @ take k [0..<10]) s' \<and> ((\<lambda>(d, added, rng). bd_is_complete d) s' \<or> length [0..<10] \<le> k)"
  proof (rule until_inv)
    show "?I [] (bd_new 3, 0, rng1)"
      by (auto simp: random_matrix_def fed_with_new intro!: exI [of _ "[]"])
  next
    fix x :: nat and ys :: "nat list" and s
    assume I: "?I ys s"
    obtain d added rng where s: "s = (d, added, rng)" by (cases s) auto
    with I obtain cs where cs: "fed_with 3 4 V cs d" "added = length (bd_coded_chunks d)"
      "random_matrix random (length ys) 3 rng1 = (map cc_b cs, rng)" by auto
    obtain b rng' where b: "draw_n random 3 rng = (b, rng')" by force
    from encode_one_coded [OF o(1) _ b] obtain c where
      c: "encode_one random 3 (wrap V) rng = Inr (c, rng')" "coded_by 3 4 V c" "cc_b c = b" by auto
    from fed_with_add [OF cs(1) c(2)] obtain d' r where
      d': "bd_add d c = Inr (d', r)" "fed_with 3 4 V (cs @ [c]) d'"
      "length (bd_coded_chunks d') = length (bd_coded_chunks d) + (if r then 1 else 0)" by blast
    have "random_matrix random (length (ys @ [x])) 3 rng1 = (map cc_b (cs @ [c]), rng')"
      using cs(3) b c(3) draw_n_add [of "draw_n random 3" "length ys" 1 rng1]
      by (simp add: random_matrix_def)
    with s c(1) d' cs(2) show "\<exists>s'. ?body x s = Inr s' \<and> ?I (ys @ [x]) s'" by auto
  qed simp
  then obtain s' k where s': "until (\<lambda>(d, added, rng). bd_is_complete d) ?body [0..<10] (bd_new 3, 0, rng1) = Inr s'"
    "?I ([] @ take k [0..<10]) s'" "(\<lambda>(d, added, rng). bd_is_complete d) s' \<or> length [0..<10] \<le> k"
    by (elim exE conjE) (rule that)
  obtain d added rng where "s' = (d, added, rng)" by (cases s') auto
  with s' obtain cs where
    run: "until (\<lambda>(d, added, rng). bd_is_complete d) ?body [0..<10] (bd_new 3, 0, rng1) = Inr (d, added, rng)"
    and added: "added = length (bd_coded_chunks d)" and cs: "fed_with 3 4 V cs d"
    and mat: "random_matrix random (length (take k [0..<10])) 3 rng1 = (map cc_b cs, rng)"
    and stop: "bd_is_complete d \<or> 10 \<le> k" by (simp only: append_Nil prod.case length_upt diff_zero) blast
  have pre: "map cc_b cs = take (min 10 k) B"
    using mat B draw_n_take [of "min 10 k" 10 "draw_n random 3" rng1] by (simp add: random_matrix_def)
  then have sub: "set (map cc_b cs) \<subseteq> set B" by (auto dest: in_set_takeD)
  have full: "bd_is_complete d \<longleftrightarrow> spans 3 B"
  proof (cases "10 \<le> k")
    case True
    then show ?thesis using fed_with_complete [OF cs] pre random_matrix_size(1) [OF B] by simp
  next
    case False
    with stop fed_with_complete [OF cs] spans_mono [OF _ sub] show ?thesis by blast
  qed
  have h: "honest 3 4 V d" using cs by (simp add: fed_with_def)
  then have "added = 3 \<longleftrightarrow> bd_is_complete d" using added bd_wf_complete [OF honest_wf [OF h]] by simp
  with full decode_recovers(2) [OF o(1) h] show ?thesis
    by (simp add: decoder_excess_chunks_def o(2) run Let_def)
qed

end
