(* ===== verification/Tests_Pipeline.thy ===== *)
theory Tests_Pipeline
  imports Tests_Coding Strategy_Contract Crypto_Groups
begin

text \<open>
  What the end-to-end tests of the coded schemes share (\<open>strategy/*/tests/integration.rs\<close>, the tests of
  \<open>types/src/block.rs\<close>): the sample block, coded chunks with their draws, the loop that verifies and
  adds chunks until the decoder is complete, and the last lines, which rebuild the block. The lemmas
  say what these loops do for any chunks of the same block, however they were made: the last check
  succeeds exactly when all coefficient vectors received together span.
\<close>

section \<open>The sample block\<close>

definition sample_block_num :: "u64 \<Rightarrow> block" where
  "sample_block_num num =
     \<lparr>bl_parent_hash = replicate 32 0xAA, bl_number = num, bl_timestamp = 1700000000,
      bl_gas_used = 15000000, bl_gas_limit = 30000000, bl_state_root = replicate 32 0xBB,
      bl_transactions = map of_nat [0..<200]\<rparr>"

definition sample_block :: block where
  "sample_block = sample_block_num 42"

lemma sample_block_number [simp]: "bl_number (sample_block_num n) = n"
  by (simp add: sample_block_num_def)

lemma sample_block_readable: "readable (sample_block_num n)" "readable sample_block"
  by (simp_all add: sample_block_def readable_def block_ok_def sample_block_num_def max_transactions_bytes_def)

section \<open>Loops of the tests\<close>

text \<open>\<open>assert!(S::verify(&ctx, coded, &proof).is_ok())\<close>.\<close>

definition verified :: "(err + unit) run \<Rightarrow> unit test" where
  "verified v = bindR (call v) (\<lambda>r. case r of Inl e \<Rightarrow> Inl AssertionFailed | Inr _ \<Rightarrow> Inr ())"

definition check_and_add ::
  "('f::field coded_chunk \<Rightarrow> unit test) \<Rightarrow> 'f coded_chunk \<Rightarrow> 'f block_decoder \<Rightarrow> 'f block_decoder test" where
  "check_and_add chk coded decoder =
     bindR (chk coded) (\<lambda>_. bindR (call (bd_add decoder coded)) (\<lambda>(decoder, added). Inr decoder))"

text \<open>\<open>&xs[..k]\<close> and \<open>&xs[k..]\<close>.\<close>

definition prefix_of :: "nat \<Rightarrow> 'a list \<Rightarrow> 'a list test" where
  "prefix_of k xs = call (assertR (k \<le> length xs) SliceOutOfBounds (Inr (take k xs)))"

definition suffix_of :: "nat \<Rightarrow> 'a list \<Rightarrow> 'a list test" where
  "suffix_of k xs = call (assertR (k \<le> length xs) SliceOutOfBounds (Inr (drop k xs)))"

lemma prefix_of_in [simp]: "k \<le> length xs \<Longrightarrow> prefix_of k xs = Inr (take k xs)"
  and suffix_of_in [simp]: "k \<le> length xs \<Longrightarrow> suffix_of k xs = Inr (drop k xs)"
  by (simp_all add: prefix_of_def suffix_of_def)

text \<open>The last lines: decode, reconstruct, compare.\<close>

definition recovers ::
  "('f::field, 'r) scalar_lib \<Rightarrow> nat \<Rightarrow> block \<Rightarrow> nat \<Rightarrow> 'f block_decoder \<Rightarrow> unit test" where
  "recovers sl N b byte_len decoder =
     bindR (call (bd_decode N decoder)) (\<lambda>decoded_chunks.
     bindR (call (from_chunks (sl_wire sl) (sl_pf sl) N decoded_chunks byte_len)) (\<lambda>recovered.
     check (block_eq b recovered) (Inr ())))"

section \<open>Coded chunks made by hand\<close>

text \<open>
  \<open>for (bi, vi) in b.iter().zip(&chunks) { for (wj, vj) in w.iter_mut().zip(vi) { *wj += vj * bi; } }\<close>.
\<close>

definition rows_combination :: "nat \<Rightarrow> 'f::field list \<Rightarrow> 'f list list \<Rightarrow> 'f list" where
  "rows_combination M b chunks =
     fold (\<lambda>(bi, vi) w. zip_update (\<lambda>wj vj. wj + vj * bi) w vi) (zip b chunks) (replicate M 0)"

definition encode_chunk ::
  "('r \<Rightarrow> 'f::field \<times> 'r) \<Rightarrow> nat \<Rightarrow> nat \<Rightarrow> 'f list list \<Rightarrow> 'r \<Rightarrow> ('f coded_chunk \<times> 'r) test" where
  "encode_chunk random N M chunks rng =
     (let (b, rng) = draw_n random N rng; w = rows_combination M b chunks in
      bindR (call (chunk_new w)) (\<lambda>w. bindR (call (coded_chunk_new N w b)) (\<lambda>c. Inr (c, rng))))"

text \<open>\<open>tampered[0] += &Scalar::from_u64(1)\<close>.\<close>

definition tamper_first :: "'f::field list \<Rightarrow> 'f list test" where
  "tamper_first w = bindR (call (idx w 0)) (\<lambda>x. call (upd w 0 (x + of_nat 1)))"

definition tampered_chunk :: "nat \<Rightarrow> 'f::field coded_chunk \<Rightarrow> 'f coded_chunk test" where
  "tampered_chunk N coded =
     (let (w, b) = coded_chunk_into_parts coded in
      bindR (tamper_first (chunk_v w)) (\<lambda>tampered.
      bindR (call (chunk_new tampered)) (\<lambda>w. call (coded_chunk_new N w b))))"

text \<open>\<open>assert!(matches!(S::verify(..), Err(e)))\<close>.\<close>

definition rejected :: "err \<Rightarrow> (err + unit) run \<Rightarrow> unit test" where
  "rejected e v = bindR (call v) (\<lambda>r. check (r = Inl e) (Inr ()))"

section \<open>What the loops do\<close>

lemma verified_simps [simp]:
  "verified (Inr (Inr ())) = Inr ()" "verified (Inr (Inl e)) = Inl AssertionFailed"
  "verified (Inl p) = Inl (Panicked p)"
  by (simp_all add: verified_def)

lemma rejected_simps [simp]:
  "rejected e (Inr (Inl e)) = Inr ()" "rejected e (Inr (Inr ())) = Inl AssertionFailed"
  by (simp_all add: rejected_def)

lemma check_and_add_fed:
  assumes "fed_with N m V cs d" "coded_by N m V c" "chk c = Inr ()"
  shows "\<exists>d'. check_and_add chk c d = Inr d' \<and> fed_with N m V (cs @ [c]) d'"
  using fed_with_add [OF assms(1,2)] assms(3) by (auto simp: check_and_add_def)

lemma receive_until:
  assumes "fed_with N m V cs0 d" "\<not> bd_is_complete d"
    and "\<forall>c \<in> set cs. coded_by N m V c \<and> chk c = Inr ()"
  shows "\<exists>d' k. until bd_is_complete (check_and_add chk) cs d = Inr d' \<and>
    fed_with N m V (cs0 @ take k cs) d' \<and> (bd_is_complete d' \<or> length cs \<le> k)"
proof (rule until_inv [where I = "fed_with N m V" and full = bd_is_complete, OF assms(1,2)])
  fix c ys d assume "c \<in> set cs" "fed_with N m V ys d"
  with assms(3) show "\<exists>d'. check_and_add chk c d = Inr d' \<and> fed_with N m V (ys @ [c]) d'"
    by (intro check_and_add_fed) simp_all
qed

lemma receive_all:
  assumes "fed_with N m V cs0 d" "\<forall>c \<in> set cs. coded_by N m V c \<and> chk c = Inr ()"
  shows "\<exists>d'. foldR (check_and_add chk) cs d = Inr d' \<and> fed_with N m V (cs0 @ cs) d'"
  using assms
proof (induction cs arbitrary: cs0 d)
  case (Cons c cs)
  then have "coded_by N m V c" "chk c = Inr ()" by simp_all
  from check_and_add_fed [where chk = chk, OF Cons.prems(1) this] obtain d1 where
    "check_and_add chk c d = Inr d1" "fed_with N m V (cs0 @ [c]) d1" by blast
  with Cons.IH [of "cs0 @ [c]" d1] Cons.prems(2) show ?case by simp
qed simp

text \<open>Whether the loop broke off or not: the decoder is complete exactly when all chunks span.\<close>

lemma complete_prefix:
  assumes fw: "fed_with N m V (cs0 @ take k cs) d" and stop: "bd_is_complete d \<or> length cs \<le> k"
  shows "bd_is_complete d \<longleftrightarrow> spans N (map cc_b (cs0 @ cs))"
proof (cases "length cs \<le> k")
  case True
  then show ?thesis using fed_with_complete [OF fw] by simp
next
  case False
  with stop fed_with_complete [OF fw] have full: "bd_is_complete d"
    and sp: "spans N (map cc_b (cs0 @ take k cs))" by simp_all
  from sp have "spans N (map cc_b (cs0 @ cs))"
    by (rule spans_mono) (auto dest: in_set_takeD)
  with full show ?thesis by simp
qed

lemma recovers_honest:
  assumes ok: "packing_ok sl" and ft: "block_fits sl N m b" and V: "chunked sl N m b V"
    and h: "honest N m V d" and full: "bd_is_complete d"
  shows "recovers sl N b (length (block_write (sl_wire sl) b)) d = Inr ()"
proof -
  have "originals N m V" using V by (simp add: chunked_def)
  from bd_decode_correct [OF this h full] chunked_decode [OF ok ft V] show ?thesis
    by (simp add: recovers_def block_eq_iff)
qed

text \<open>The whole tail of a test: receive, check completeness, rebuild the block.\<close>

lemma receive_and_recover:
  assumes lib: "packing_ok sl" "block_fits sl N m b" "chunked sl N m b V"
    and start: "fed_with N m V cs0 d0" "\<not> bd_is_complete d0"
    and cs: "\<forall>c \<in> set cs. coded_by N m V c \<and> chk c = Inr ()"
  shows "bindR (until bd_is_complete (check_and_add chk) cs d0) (\<lambda>d. check (bd_is_complete d)
      (recovers sl N b (length (block_write (sl_wire sl) b)) d))
    = (if spans N (map cc_b (cs0 @ cs)) then Inr () else Inl AssertionFailed)"
proof -
  from receive_until [OF start cs] obtain d k where
    d: "until bd_is_complete (check_and_add chk) cs d0 = Inr d" "fed_with N m V (cs0 @ take k cs) d"
    "bd_is_complete d \<or> length cs \<le> k" by blast
  have h: "honest N m V d" using d(2) by (simp add: fed_with_def)
  show ?thesis
    using d(1) complete_prefix [OF d(2,3)] recovers_honest [OF lib h]
    by (cases "bd_is_complete d") simp_all
qed

text \<open>Two rounds: re-encoded chunks first and, if they do not suffice, the remaining ones.\<close>

definition two_rounds ::
  "('f::field coded_chunk \<Rightarrow> unit test) \<Rightarrow> 'f coded_chunk list \<Rightarrow> 'f coded_chunk list test \<Rightarrow>
   'f block_decoder \<Rightarrow> 'f block_decoder test" where
  "two_rounds chk reencoded remaining decoder2 =
     bindR (until bd_is_complete (check_and_add (\<lambda>_. Inr ())) reencoded decoder2) (\<lambda>decoder2.
     if \<not> bd_is_complete decoder2
     then bindR remaining (\<lambda>coded_chunks. until bd_is_complete (check_and_add chk) coded_chunks decoder2)
     else Inr decoder2)"

lemma two_rounds_recover:
  assumes lib: "packing_ok sl" "block_fits sl N m b" "chunked sl N m b V"
    and rs: "\<forall>c \<in> set rs. coded_by N m V c"
    and cs: "\<forall>c \<in> set cs. coded_by N m V c \<and> chk c = Inr ()"
  shows "bindR (two_rounds chk rs (Inr cs) (bd_new N)) (\<lambda>d. check (bd_is_complete d)
      (recovers sl N b (length (block_write (sl_wire sl) b)) d))
    = (if spans N (map cc_b (rs @ cs)) then Inr () else Inl AssertionFailed)"
proof -
  have "0 < N" using block_fits_pos [OF lib(2)] by simp
  then have new: "\<not> bd_is_complete (bd_new N :: 'a block_decoder)" by simp
  from receive_until [OF fed_with_new new, of rs m V "\<lambda>_. Inr ()"] rs obtain d k where
    d: "until bd_is_complete (check_and_add (\<lambda>_. Inr ())) rs (bd_new N) = Inr d"
    "fed_with N m V (take k rs) d" "bd_is_complete d \<or> length rs \<le> k" by auto
  show ?thesis
  proof (cases "bd_is_complete d")
    case True
    have h: "honest N m V d" using d(2) by (simp add: fed_with_def)
    have "spans N (map cc_b (take k rs))" using fed_with_complete [OF d(2)] True by simp
    then have "spans N (map cc_b (rs @ cs))"
      by (rule spans_mono) (auto dest: in_set_takeD)
    with True d(1) recovers_honest [OF lib h True] show ?thesis by (simp add: two_rounds_def)
  next
    case False
    with d have "fed_with N m V rs d" by simp
    from receive_and_recover [OF lib this False cs] False d(1) show ?thesis
      by (simp add: two_rounds_def bindR_assoc)
  qed
qed

section \<open>Coded chunks and their draws\<close>

lemma encode_loop_draws:
  "encode_loop random N refs count rng = Inr (cs, rng') \<Longrightarrow>
   random_matrix random count N rng = (map cc_b cs, rng')"
proof (induction count arbitrary: rng cs)
  case (Suc count)
  obtain coeffs rng1 where r: "draw_n random N rng = (coeffs, rng1)" by force
  have run: "encode_loop random N refs (Suc count) rng
      = bindR (linear_combination refs coeffs) (\<lambda>coded_data. bindR (chunk_new coded_data) (\<lambda>w.
        bindR (coded_chunk_new N w coeffs) (\<lambda>c.
        bindR (encode_loop random N refs count rng1) (\<lambda>(cs, rng2). Inr (c # cs, rng2)))))"
    by (simp add: random_coefficients_def r)
  from Suc.prems [unfolded run] obtain w c cs' rng2 where
    "coded_chunk_new N w coeffs = Inr c" "encode_loop random N refs count rng1 = Inr (cs', rng2)"
    "cs = c # cs'" "rng' = rng2"
    by (elim bindR_InrE) (simp split: prod.splits)
  with Suc.IH [of rng1 cs'] r show ?case
    by (auto simp: random_matrix_Suc coded_chunk_new_def assertR_eq_Inr)
qed (simp add: random_matrix_def)

lemma encode_block:
  assumes ok: "packing_ok sl" and ft: "block_fits sl N m b" and V: "chunked sl N m b V"
    and B: "random_matrix random count N rng = (B, rng')"
  shows "\<exists>cs. encode_chunks (sl_wire sl) (sl_pf sl) random N m count b rng
      = Inr ((cs, length (block_write (sl_wire sl) b)), rng') \<and>
    length cs = count \<and> (\<forall>c \<in> set cs. coded_by N m V c) \<and> map cc_b cs = B"
proof -
  from chunked_encode [OF ok ft V, where random = random and count = count and rng = rng]
  obtain cs rng1 where
    cs: "encode_chunks (sl_wire sl) (sl_pf sl) random N m count b rng
      = Inr ((cs, length (block_write (sl_wire sl) b)), rng1)"
    "length cs = count" "\<forall>c \<in> set cs. coded_by N m V c" by blast
  have "encode_chunks (sl_wire sl) (sl_pf sl) random N m count b rng
      = bindR (encode_loop random N V count rng) (\<lambda>(coded, rng').
          Inr ((coded, length (block_write (sl_wire sl) b)), rng'))"
    using V by (simp add: encode_chunks_def chunked_def comp_def)
  with cs(1) have "encode_loop random N V count rng = Inr (cs, rng1)"
    by (cases "encode_loop random N V count rng") (auto split: prod.splits)
  from encode_loop_draws [OF this] B cs show ?thesis by auto
qed

lemma chunked_as_chunks:
  "chunked sl N m b V \<Longrightarrow> as_chunks (sl_wire sl) (sl_pf sl) N m b
    = Inr (wrap V, length (block_write (sl_wire sl) b))"
  by (simp add: chunked_def)

section \<open>Chunks made by hand\<close>

lemma rows_combination_comb:
  assumes "originals N m V" "length b = N"
  shows "rows_combination m b V = map (comb ((!) b) V) [0..<m]"
proof -
  have "zip b V = map prod.swap (zip V b)" by (simp add: zip_commute [of b V] prod.swap_def case_prod_beta)
  then have eq: "rows_combination m b V = fold lc_step (zip V b) (replicate m 0)"
    by (simp add: rows_combination_def fold_map lc_step_def comp_def case_prod_unfold)
  show ?thesis
    unfolding eq
    by (rule nth_equalityI)
       (use assms nth_fold_lc_step [of V b m "replicate m 0"] in \<open>simp_all add: originals_def\<close>)
qed

lemma encode_chunk_coded:
  assumes V: "originals N m V" and draw: "draw_n random N rng = (b, rng')"
  shows "\<exists>c. encode_chunk random N m V rng = Inr (c, rng') \<and> coded_by N m V c \<and> cc_b c = b"
proof -
  have b: "length b = N" using draw length_draw_n [of random N rng] by simp
  have "0 < m" using V by (simp add: originals_def)
  with b draw V show ?thesis
    by (simp add: encode_chunk_def rows_combination_comb chunk_new_def coded_chunk_new_def coded_by_def)
qed

text \<open>The tampered chunk, and what tampering does to a multi-scalar multiplication.\<close>

definition tampered :: "'f::field coded_chunk \<Rightarrow> 'f coded_chunk" where
  "tampered c = c\<lparr>cc_w := \<lparr>chunk_v = (chunk_v (cc_w c))[0 := chunk_v (cc_w c) ! 0 + 1]\<rparr>\<rparr>"

lemma tampered_chunk_spec:
  assumes "coded_by N m V c" "0 < m"
  shows "tampered_chunk N c = Inr (tampered c)"
proof -
  have "chunk_v (cc_w c) \<noteq> []" "length (cc_b c) = N" using assms by (auto simp: coded_by_def)
  then show ?thesis
    by (cases c) (simp add: tampered_chunk_def coded_chunk_into_parts_def tamper_first_def tampered_def
        chunk_new_def coded_chunk_new_def)
qed

lemma msm_first:
  fixes G :: "('f::field, 'g::ab_group_add) group_ops"
  assumes G: "group_ok G" and len: "length w = length P" and ne: "P \<noteq> []"
  shows "g_msm G P (w[0 := w ! 0 + x]) = g_msm G P w + g_smul G x (P ! 0)"
proof -
  obtain n where n: "length P = Suc n" using ne by (cases P) auto
  have "g_msm G P (w[0 := w ! 0 + x])
      = g_smul G (w ! 0 + x) (P ! 0) + (\<Sum>i < n. g_smul G (w ! Suc i) (P ! Suc i))"
    using len by (simp add: msm_sum [OF G] n sum.lessThan_Suc_shift del: sum.lessThan_Suc)
  moreover have "g_msm G P w = g_smul G (w ! 0) (P ! 0) + (\<Sum>i < n. g_smul G (w ! Suc i) (P ! Suc i))"
    using len by (simp add: msm_sum [OF G] n sum.lessThan_Suc_shift del: sum.lessThan_Suc)
  ultimately show ?thesis by (simp add: smul_add_left [OF G] add.assoc add.commute add.left_commute)
qed

section \<open>The intermediate node\<close>

text \<open>Independent chunks are all kept, in order.\<close>

lemma add_independent:
  assumes "honest N m V d" "indep_after N (map cc_b (bd_coded_chunks d)) (map cc_b cs)"
    and "length (bd_coded_chunks d) + length cs \<le> N"
    and "\<forall>c \<in> set cs. coded_by N m V c \<and> chk c = Inr ()"
  shows "\<exists>d'. foldR (check_and_add chk) cs d = Inr d' \<and> honest N m V d' \<and>
    bd_coded_chunks d' = bd_coded_chunks d @ cs"
  using assms
proof (induction cs arbitrary: d)
  case (Cons c cs)
  then have "coded_by N m V c" "length (bd_coded_chunks d) < N" "\<not> bd_span N d (cc_b c)"
    by (simp_all add: bd_span_def)
  with add_ok_spec [OF Cons.prems(1)] obtain d1 where
    d1: "add_ok c d = Inr d1" "honest N m V d1" "bd_coded_chunks d1 = bd_coded_chunks d @ [c]" by meson
  then have "check_and_add chk c d = Inr d1"
    using Cons.prems(4) by (auto simp: check_and_add_def add_ok_def bindR_eq_Inr check_def assertR_eq_Inr)
  moreover have "\<exists>d'. foldR (check_and_add chk) cs d1 = Inr d' \<and> honest N m V d' \<and>
      bd_coded_chunks d' = bd_coded_chunks d1 @ cs"
    by (rule Cons.IH [OF d1(2)]) (use Cons.prems(2-4) d1(3) in auto)
  ultimately show ?case using d1(3) by auto
qed simp

lemma intermediate_node:
  assumes cs: "\<forall>c \<in> set cs. coded_by N m V c \<and> chk c = Inr ()" "2 \<le> length cs" "2 < N"
    and two: "indep N (map cc_b (take 2 cs))"
  obtains d where "foldR (check_and_add chk) (take 2 cs) (bd_new N) = Inr d" "honest N m V d"
    "bd_coded_chunks d = take 2 cs" "bd_rank d = 2" "\<not> bd_is_complete d" "bd_coded_chunks d \<noteq> []"
proof -
  have "\<exists>d'. foldR (check_and_add chk) (take 2 cs) (bd_new N) = Inr d' \<and> honest N m V d' \<and>
      bd_coded_chunks d' = bd_coded_chunks (bd_new N) @ take 2 cs"
    by (rule add_independent [OF honest_new])
       (use cs two in \<open>auto simp: indep_def dest: in_set_takeD\<close>)
  then obtain d where d: "foldR (check_and_add chk) (take 2 cs) (bd_new N) = Inr d" "honest N m V d"
    "bd_coded_chunks d = take 2 cs" by auto
  moreover have "bd_rank d = 2" "\<not> bd_is_complete d" "bd_coded_chunks d \<noteq> []"
    using bd_wf_rank [OF honest_wf [OF d(2)]] bd_wf_complete [OF honest_wf [OF d(2)]] d(3) cs(2,3) by auto
  ultimately show thesis by (rule that)
qed

text \<open>The coefficient vector of a re-encoded chunk.\<close>

definition reencoded_coeffs :: "nat \<Rightarrow> 'f::field list list \<Rightarrow> 'f list \<Rightarrow> 'f list" where
  "reencoded_coeffs N B alphas = map (comb ((!) alphas) B) [0..<N]"

text \<open>
  A loop of rounds that each draw coefficients and keep the re-encoded chunk. What a round does with
  the proofs is left open: it has to succeed for every chunk that \<open>reencode_with\<close> can give.
\<close>

lemma reencode_rounds:
  assumes V: "originals N m V" and h: "honest N m V d" and ne: "bd_coded_chunks d \<noteq> []"
    and step: "\<And>i acc rng alphas rng' c. random_coefficients random (bd_rank d) rng = (alphas, rng') \<Longrightarrow>
      length alphas = length (bd_coded_chunks d) \<Longrightarrow>
      bd_reencode_with N d alphas = Inr c \<Longrightarrow> coded_by N m V c \<Longrightarrow>
      chunk_v (cc_w c) = map (comb ((!) alphas) (map (\<lambda>c. chunk_v (cc_w c)) (bd_coded_chunks d))) [0..<m] \<Longrightarrow>
      cc_b c = reencoded_coeffs N (map cc_b (bd_coded_chunks d)) alphas \<Longrightarrow>
      step i (acc, rng) = Inr (acc @ [c], rng')"
    and A: "random_matrix random k (bd_rank d) rng = (A, rng')"
  shows "\<exists>rs. foldR step [i..<i + k] (acc, rng) = Inr (acc @ rs, rng') \<and>
    (\<forall>c \<in> set rs. coded_by N m V c) \<and>
    map cc_b rs = map (reencoded_coeffs N (map cc_b (bd_coded_chunks d))) A"
  using A
proof (induction k arbitrary: i acc rng A)
  case 0
  then show ?case by (simp add: random_matrix_def)
next
  case (Suc k)
  obtain alphas rng1 where al: "draw_n random (bd_rank d) rng = (alphas, rng1)" by force
  with Suc.prems obtain A' where A': "A = alphas # A'" "random_matrix random k (bd_rank d) rng1 = (A', rng')"
    by (auto simp: random_matrix_Suc split: prod.splits)
  have la: "length alphas = length (bd_coded_chunks d)"
    using al length_draw_n [of random "bd_rank d" rng] bd_wf_rank [OF honest_wf [OF h]] by simp
  from bd_reencode_with_coded [OF V h ne la] obtain c where
    c: "bd_reencode_with N d alphas = Inr c" "coded_by N m V c"
      "chunk_v (cc_w c) = map (comb ((!) alphas) (map (\<lambda>c. chunk_v (cc_w c)) (bd_coded_chunks d))) [0..<m]"
      "cc_b c = reencoded_coeffs N (map cc_b (bd_coded_chunks d)) alphas"
    by (auto simp: reencoded_coeffs_def)
  have one: "step i (acc, rng) = Inr (acc @ [c], rng1)"
    by (rule step [OF _ la c]) (simp add: random_coefficients_def al)
  from Suc.IH [OF A'(2), of "Suc i" "acc @ [c]"] obtain rs where
    "foldR step [Suc i..<Suc i + k] (acc @ [c], rng1) = Inr ((acc @ [c]) @ rs, rng')"
    "\<forall>c \<in> set rs. coded_by N m V c"
    "map cc_b rs = map (reencoded_coeffs N (map cc_b (bd_coded_chunks d))) A'" by blast
  moreover have "[i..<i + Suc k] = i # [Suc i..<Suc i + k]" by (simp add: upt_conv_Cons del: upt_Suc)
  ultimately show ?case using one c A'(1) by (intro exI [of _ "c # rs"]) simp
qed

end
