(* ===== verification/Protocol_Traced.thy ===== *)
theory Protocol_Traced
  imports Tests_Pipeline Protocol_Pedersen Protocol_Bfkw
begin

text \<open>
  When a receiver is complete. The locale \<open>traced_protocol\<close> refines the contract \<open>honest_protocol\<close> by which
  coefficient vectors the packets of a proposal carry, and when a receiver is complete: exactly when
  the vectors of the readable packets it was given span. Both coded protocols are shown to keep it.
\<close>

section \<open>What the coded protocols are relied on for\<close>

text \<open>
  \<open>carries c b p ch\<close>: packet \<open>p\<close> holds the coded chunk \<open>ch\<close> of \<open>b\<close>. \<open>signable c b v\<close>: a packet with the
  coefficients \<open>v\<close> can be read; one that cannot is refused and changes nothing. \<open>holds c b ks cs s\<close>: the
  state \<open>s\<close> was given the readable chunks \<open>cs\<close> of \<open>b\<close> and kept \<open>ks\<close>. The chunks of \<open>c\<close> have \<open>dim c\<close>
  coefficients, drawn by \<open>draw c\<close>.
\<close>

locale traced_protocol = honest_protocol proto fits idle proposer live fed announcement packet
  for proto :: "'c \<Rightarrow> ('self, 'r) protocol" and fits idle proposer live fed announcement packet +
  fixes dim :: "'c \<Rightarrow> nat"
    and draw :: "'c \<Rightarrow> 'r \<Rightarrow> 'f::field \<times> 'r"
    and signable :: "'c \<Rightarrow> block \<Rightarrow> 'f list \<Rightarrow> bool"
    and carries :: "'c \<Rightarrow> block \<Rightarrow> bytes \<Rightarrow> 'f coded_chunk \<Rightarrow> bool"
    and holds :: "'c \<Rightarrow> block \<Rightarrow> 'f coded_chunk list \<Rightarrow> 'f coded_chunk list \<Rightarrow> 'self \<Rightarrow> bool"
  assumes holds_live: "holds c b ks cs s \<Longrightarrow> live c b s"
    and holds_complete: "holds c b ks cs s \<Longrightarrow>
      (pt_is_complete (proto c) s \<longleftrightarrow> spans (dim c) (map cc_b cs)) \<and>
      (pt_is_complete (proto c) s \<longleftrightarrow> length ks = dim c) \<and> 0 < dim c"
    and propose_traced: "idle c s \<Longrightarrow> proposer c s \<Longrightarrow> fits c b \<Longrightarrow>
      random_matrix (draw c) k (dim c) rng = (B, rng') \<Longrightarrow>
      \<exists>pr s' cs. pt_propose (proto c) s b k rng = Inr ((pr, s'), rng') \<and> live c b s' \<and> proposer c s' \<and>
        announcement c b (pr_announcement pr) \<and> list_all2 (carries c b) (pr_packets pr) cs \<and> map cc_b cs = B"
    and announce_traced: "idle c s \<Longrightarrow> fits c b \<Longrightarrow> announcement c b a \<Longrightarrow>
      \<exists>s'. pt_ingest (proto c) s Announce (bl_number b) a = Inr (s', Inr True) \<and> holds c b [] [] s'"
    and data_refused: "holds c b ks cs s \<Longrightarrow> carries c b p ch \<Longrightarrow> \<not> signable c b (cc_b ch) \<Longrightarrow>
      \<exists>e. pt_ingest (proto c) s Data (bl_number b) p = Inr (s, Inl e)"
    and data_traced: "holds c b ks cs s \<Longrightarrow> carries c b p ch \<Longrightarrow> signable c b (cc_b ch) \<Longrightarrow>
      \<exists>s' r. pt_ingest (proto c) s Data (bl_number b) p = Inr (s', Inr r) \<and>
        holds c b (if r then ks @ [ch] else ks) (cs @ [ch]) s' \<and>
        (r \<longleftrightarrow> \<not> pt_is_complete (proto c) s \<and> \<not> in_span (dim c) (map cc_b ks) (cc_b ch))"
    and recode_traced: "holds c b ks cs s \<Longrightarrow> ks \<noteq> [] \<Longrightarrow>
      random_matrix (draw c) k (length ks) rng = (A, rng') \<Longrightarrow>
      \<exists>ps rs. pt_recode (proto c) s k rng = Inr (ps, rng') \<and> list_all2 (carries c b) ps rs \<and>
        map cc_b rs = map (reencoded_coeffs (dim c) (map cc_b ks)) A"

context traced_protocol
begin

text \<open>
  Any selection of the packets, in any order: what the receiver holds are the readable ones, so it is
  complete exactly when their coefficient vectors span.
\<close>

lemma ingest_selection:
  assumes "holds c b ks cs s" "list_all2 (carries c b) ps chs"
  shows "\<exists>s' ks'. ingest_all (proto c) (bl_number b) ps s = Inr s' \<and>
    holds c b ks' (cs @ filter (\<lambda>ch. signable c b (cc_b ch)) chs) s'"
  using assms(2,1)
proof (induction ps chs arbitrary: ks cs s rule: list_all2_induct)
  case (Cons p ps ch chs)
  show ?case
  proof (cases "signable c b (cc_b ch)")
    case True
    from data_traced [OF Cons.prems Cons.hyps(1) True] obtain s1 r where
      "pt_ingest (proto c) s Data (bl_number b) p = Inr (s1, Inr r)"
      "holds c b (if r then ks @ [ch] else ks) (cs @ [ch]) s1" by blast
    with Cons.IH [OF this(2)] True show ?thesis by (simp add: ingest_all_def)
  next
    case False
    from data_refused [OF Cons.prems Cons.hyps(1) False] Cons.IH [OF Cons.prems] False
    show ?thesis by (auto simp: ingest_all_def)
  qed
qed (auto simp: ingest_all_def)

lemma proposal_spans:
  assumes id: "idle c s" "proposer c s" "idle c r" and ft: "fits c b"
    and B: "random_matrix (draw c) k (dim c) rng = (B, rng')"
  shows "\<exists>pr s' r0. pt_propose (proto c) s b k rng = Inr ((pr, s'), rng') \<and> length (pr_packets pr) = k \<and>
    pt_ingest (proto c) r Announce (bl_number b) (pr_announcement pr) = Inr (r0, Inr True) \<and>
    (\<forall>js. set js \<subseteq> {..<k} \<longrightarrow>
      (\<exists>r1. ingest_all (proto c) (bl_number b) (map ((!) (pr_packets pr)) js) r0 = Inr r1 \<and>
        (pt_is_complete (proto c) r1 \<longleftrightarrow> spans (dim c) (filter (signable c b) (map ((!) B) js))) \<and>
        (pt_is_complete (proto c) r1 \<longrightarrow> (\<exists>r2. pt_decode (proto c) r1 = Inr (b, r2)))))"
proof -
  from propose_traced [OF id(1,2) ft B] obtain pr s' cs where
    pr: "pt_propose (proto c) s b k rng = Inr ((pr, s'), rng')" "announcement c b (pr_announcement pr)"
      "list_all2 (carries c b) (pr_packets pr) cs" "map cc_b cs = B"
    by blast
  from announce_traced [OF id(3) ft pr(2)] obtain r0 where
    r0: "pt_ingest (proto c) r Announce (bl_number b) (pr_announcement pr) = Inr (r0, Inr True)" "holds c b [] [] r0"
    by blast
  have len: "length cs = k" "length (pr_packets pr) = k"
    using pr(4) random_matrix_size(1) [OF B] list_all2_lengthD [OF pr(3)] by (metis length_map)+
  have "\<exists>r1. ingest_all (proto c) (bl_number b) (map ((!) (pr_packets pr)) js) r0 = Inr r1 \<and>
        (pt_is_complete (proto c) r1 \<longleftrightarrow> spans (dim c) (filter (signable c b) (map ((!) B) js))) \<and>
        (pt_is_complete (proto c) r1 \<longrightarrow> (\<exists>r2. pt_decode (proto c) r1 = Inr (b, r2)))"
    if js: "set js \<subseteq> {..<k}" for js
  proof -
    have "list_all2 (carries c b) (map ((!) (pr_packets pr)) js) (map ((!) cs) js)"
      using js pr(3) len by (auto simp: list_all2_conv_all_nth subset_iff)
    from ingest_selection [OF r0(2) this] obtain r1 ks where
      r1: "ingest_all (proto c) (bl_number b) (map ((!) (pr_packets pr)) js) r0 = Inr r1"
        "holds c b ks (filter (\<lambda>ch. signable c b (cc_b ch)) (map ((!) cs) js)) r1" by auto
    have "map (\<lambda>j. cc_b (cs ! j)) js = map ((!) B) js"
      using js len(1) by (auto simp: subset_iff simp flip: pr(4))
    then have "map cc_b (filter (\<lambda>ch. signable c b (cc_b ch)) (map ((!) cs) js)) = filter (signable c b) (map ((!) B) js)"
      by (simp add: filter_map comp_def flip: \<open>map (\<lambda>j. cc_b (cs ! j)) js = map ((!) B) js\<close>)
    with holds_complete [OF r1(2)] decode [OF holds_live [OF r1(2)]] r1(1) show ?thesis by auto
  qed
  with pr(1) r0(1) len(2) show ?thesis by blast
qed

text \<open>Where all the vectors drawn are signable, all packets are readable.\<close>

lemma list_all2_signable:
  assumes "list_all2 (carries c b) ps cs" "\<forall>v \<in> set (map cc_b cs). signable c b v"
  shows "list_all2 (\<lambda>p ch. carries c b p ch \<and> signable c b (cc_b ch)) ps cs"
  using assms by (induction ps cs rule: list_all2_induct) simp_all

lemma propose_readable:
  assumes "idle c s" "proposer c s" "fits c b" "random_matrix (draw c) k (dim c) rng = (B, rng')"
    and "\<forall>v \<in> set B. signable c b v"
  shows "\<exists>pr s' cs. pt_propose (proto c) s b k rng = Inr ((pr, s'), rng') \<and> live c b s' \<and> proposer c s' \<and>
    announcement c b (pr_announcement pr) \<and>
    list_all2 (\<lambda>p ch. carries c b p ch \<and> signable c b (cc_b ch)) (pr_packets pr) cs \<and> map cc_b cs = B"
proof -
  from propose_traced [OF assms(1-4)] obtain pr s' cs where
    pr: "pt_propose (proto c) s b k rng = Inr ((pr, s'), rng')" "live c b s'" "proposer c s'"
      "announcement c b (pr_announcement pr)" "list_all2 (carries c b) (pr_packets pr) cs" and cs: "map cc_b cs = B"
    by blast
  from list_all2_signable [OF pr(5)] assms(5) pr(1-4) cs show ?thesis by blast
qed

lemma recode_readable:
  assumes "holds c b ks cs s" "ks \<noteq> []" "random_matrix (draw c) k (length ks) rng = (A, rng')"
    and "\<forall>a \<in> set A. signable c b (reencoded_coeffs (dim c) (map cc_b ks) a)"
  shows "\<exists>ps rs. pt_recode (proto c) s k rng = Inr (ps, rng') \<and>
    list_all2 (\<lambda>p ch. carries c b p ch \<and> signable c b (cc_b ch)) ps rs \<and>
    map cc_b rs = map (reencoded_coeffs (dim c) (map cc_b ks)) A"
proof -
  from recode_traced [OF assms(1-3)] obtain ps rs where
    ps: "pt_recode (proto c) s k rng = Inr (ps, rng')" "list_all2 (carries c b) ps rs"
    and rs: "map cc_b rs = map (reencoded_coeffs (dim c) (map cc_b ks)) A" by blast
  have "\<forall>v \<in> set (map cc_b rs). signable c b v" unfolding rs using assms(4) by simp
  from list_all2_signable [OF ps(2) this] ps(1) rs show ?thesis by blast
qed

end

section \<open>Both coded protocols can be traced\<close>

context coded_integrity
begin

lemma receive_fed:
  assumes st: "setting c N m ctx V" and ok: "node_ok (proofs c N m ctx V) N m V d ps"
    and gd: "good c N m ctx V (sp_chunk pkt) (sp_proof pkt)" and fed: "fed_with N m V cs d"
  obtains d' ps' r where "coded_receive (scheme c N) d ps ctx pkt = Inr ((d', ps'), Inr r)"
    "node_ok (proofs c N m ctx V) N m V d' ps'" "fed_with N m V (cs @ [sp_chunk pkt]) d'"
    "bd_coded_chunks d' = bd_coded_chunks d @ (if r then [sp_chunk pkt] else [])"
    "r \<longleftrightarrow> \<not> bd_is_complete d \<and> \<not> bd_span N d (cc_b (sp_chunk pkt))"
proof -
  let ?r = "\<not> bd_is_complete d \<and> \<not> bd_span N d (cc_b (sp_chunk pkt))"
  from receive_good [OF st ok gd] obtain d' ps' where
    run: "coded_receive (scheme c N) d ps ctx pkt = Inr ((d', ps'), Inr ?r)"
    and ok': "node_ok (proofs c N m ctx V) N m V d' ps'"
    and sp: "bd_span N d' (cc_b (sp_chunk pkt))" "\<forall>v. bd_span N d v \<longrightarrow> bd_span N d' v"
    and cs': "bd_coded_chunks d' = bd_coded_chunks d @ (if ?r then [sp_chunk pkt] else [])" by blast
  have "fed_with N m V (cs @ [sp_chunk pkt]) d'"
    using fed ok' sp cs' by (auto simp: fed_with_def node_ok_def split: if_splits)
  from that [OF run ok' this cs' refl] show thesis .
qed

lemma forward_draws:
  assumes st: "setting c N m ctx V" and ok: "node_ok (proofs c N m ctx V) N m V d ps"
    and ne: "bd_coded_chunks d \<noteq> []"
    and A: "random_matrix random k (length (bd_coded_chunks d)) rng = (A, rng')"
  shows "\<exists>pkts. coded_forward (scheme c N) random N d ps k rng = Inr (pkts, rng') \<and>
      (\<forall>pkt \<in> set pkts. good c N m ctx V (sp_chunk pkt) (sp_proof pkt)) \<and>
      map (\<lambda>pkt. cc_b (sp_chunk pkt)) pkts = map (reencoded_coeffs N (map cc_b (bd_coded_chunks d))) A"
  using A
proof (induction k arbitrary: rng A)
  case 0
  then show ?case by (simp add: random_matrix_def)
next
  case (Suc k)
  from ok have h: "honest N m V d" and pr: "proofs c N m ctx V (bd_coded_chunks d) ps"
    by (simp_all add: node_ok_def)
  then have cds: "\<forall>ch \<in> set (bd_coded_chunks d). coded_by N m V ch" by (simp add: honest_def)
  have rank: "bd_rank d = length (bd_coded_chunks d)" by (rule bd_wf_rank [OF honest_wf [OF h]])
  obtain alphas rng1 where al: "draw_n random (bd_rank d) rng = (alphas, rng1)" by force
  with Suc.prems rank obtain A' where
    A': "A = alphas # A'" "random_matrix random k (length (bd_coded_chunks d)) rng1 = (A', rng')"
    by (auto simp: random_matrix_Suc split: prod.splits)
  have la: "length alphas = length (bd_coded_chunks d)"
    using al length_draw_n [of random "bd_rank d" rng] rank by simp
  from bd_reencode_with_coded [OF setting_originals [OF st] h ne la] obtain new where
    new: "bd_reencode_with N d alphas = Inr new" "coded_by N m V new"
      "chunk_v (cc_w new)
        = map (comb ((!) alphas) (map (\<lambda>c. chunk_v (cc_w c)) (bd_coded_chunks d))) [0..<m]"
      "cc_b new = map (comb ((!) alphas) (map cc_b (bd_coded_chunks d))) [0..<N]" by blast
  from combine_good [OF st pr ne cds la new(2,3,4)] obtain p where
    p: "is_combine (scheme c N) ps alphas = Inr p" "good c N m ctx V new p" by blast
  from Suc.IH [OF A'(2)] obtain pkts where
    "coded_forward (scheme c N) random N d ps k rng1 = Inr (pkts, rng')"
    "\<forall>pkt \<in> set pkts. good c N m ctx V (sp_chunk pkt) (sp_proof pkt)"
    "map (\<lambda>pkt. cc_b (sp_chunk pkt)) pkts = map (reencoded_coeffs N (map cc_b (bd_coded_chunks d))) A'"
    by blast
  with new p al A'(1) show ?case by (simp add: random_coefficients_def reencoded_coeffs_def)
qed

end

definition pedersen_carries ::
  "('f::field, 'g::ab_group_add, 'sk, 'pk, 'sig, 'r) pedersen_generics \<Rightarrow> block \<Rightarrow> bytes \<Rightarrow> 'f coded_chunk \<Rightarrow> bool"
  where
  "pedersen_carries c b data ch \<longleftrightarrow> (case c of (sl, lib, N, m, pk) \<Rightarrow>
     \<exists>V p. chunked sl N m b V \<and> pedersen_good lib N m (pedersen_ctx c) V (sp_chunk p) (sp_proof p) \<and>
       data = sp_serialize (sl_codec sl) (pedersen_integrity_proof lib) p \<and> ch = sp_chunk p)"

lemma pedersen_carriesI:
  "chunked sl N m b V \<Longrightarrow>
   pedersen_good lib N m (pedersen_ctx (sl, lib, N, m, pk)) V (sp_chunk p) (sp_proof p) \<Longrightarrow>
   pedersen_carries (sl, lib, N, m, pk) b (sp_serialize (sl_codec sl) (pedersen_integrity_proof lib) p) (sp_chunk p)"
  by (auto simp: pedersen_carries_def)

definition pedersen_holds ::
  "('f::field, 'g::ab_group_add, 'sk, 'pk, 'sig, 'r) pedersen_generics \<Rightarrow> block \<Rightarrow> 'f coded_chunk list \<Rightarrow>
   'f coded_chunk list \<Rightarrow> ('f, 'g, 'sk, 'pk, 'sig) pedersen_protocol_state \<Rightarrow> bool" where
  "pedersen_holds c b ks cs s \<longleftrightarrow> pedersen_live c b s \<and> bd_coded_chunks (pd_decoder s) = ks \<and>
     (case c of (sl, lib, N, m, pk) \<Rightarrow> \<exists>V. chunked sl N m b V \<and> fed_with N m V cs (pd_decoder s))"

lemma pedersen_holdsE:
  assumes "pedersen_holds (sl, lib, N, m, pk) b ks cs s"
  obtains V where "chunked sl N m b V" "pedersen_fits (sl, lib, N, m, pk) b"
    "pedersen_live (sl, lib, N, m, pk) b s" "pd_ctx s = pedersen_ctx (sl, lib, N, m, pk)" "pd_m s = m"
    "node_ok (pedersen_proofs lib N m (pedersen_ctx (sl, lib, N, m, pk)) V) N m V (pd_decoder s) (pd_proofs s)"
    "fed_with N m V cs (pd_decoder s)" "bd_coded_chunks (pd_decoder s) = ks"
proof -
  from assms obtain W where W: "chunked sl N m b W" "fed_with N m W cs (pd_decoder s)"
    and lv: "pedersen_live (sl, lib, N, m, pk) b s" and ks: "bd_coded_chunks (pd_decoder s) = ks"
    by (auto simp: pedersen_holds_def)
  from lv obtain V where V: "chunked sl N m b V" "pedersen_fits (sl, lib, N, m, pk) b"
    "pd_ctx s = pedersen_ctx (sl, lib, N, m, pk)" "pd_m s = m"
    "node_ok (pedersen_proofs lib N m (pedersen_ctx (sl, lib, N, m, pk)) V) N m V (pd_decoder s) (pd_proofs s)"
    by (auto simp: pedersen_live_def)
  from that [OF V(1,2) lv V(3-5) _ ks] W(2) chunked_unique [OF V(1) W(1)] show thesis by simp
qed

lemma pedersen_propose_traced:
  assumes id: "pedersen_idle (sl, lib, N, m, pk) s" "pedersen_proposer (sl, lib, N, m, pk) s"
    and ft: "pedersen_fits (sl, lib, N, m, pk) b" and B: "random_matrix (sl_random sl) k N rng = (B, rng')"
  shows "\<exists>pr s' cs. pedersen_propose sl lib N s b k rng = Inr ((pr, s'), rng') \<and>
    pedersen_live (sl, lib, N, m, pk) b s' \<and> pedersen_proposer (sl, lib, N, m, pk) s' \<and>
    pr_announcement pr = encode_announcement (length (block_write (sl_wire sl) b)) \<and>
    list_all2 (pedersen_carries (sl, lib, N, m, pk) b) (pr_packets pr) cs \<and> map cc_b cs = B"
proof -
  from ft have sl: "packing_ok sl" and bf: "block_fits sl N m b"
    by (simp_all add: pedersen_fits_def scalar_lib_ok_def)
  from chunked_exists [OF sl bf] obtain V where V: "chunked sl N m b V" ..
  from encode_block [OF sl bf V B] obtain cs where
    enc: "encode_chunks (sl_wire sl) (sl_pf sl) (sl_random sl) N m k b rng
        = Inr ((cs, length (block_write (sl_wire sl) b)), rng')"
    and cs: "\<forall>c \<in> set cs. coded_by N m V c" "map cc_b cs = B" by blast
  show ?thesis
  proof (rule pedersen_propose_spec [OF id ft V enc])
    fix p s' assume p: "pedersen_propose sl lib N s b k rng
      = Inr ((\<lparr>pr_announcement = encode_announcement (length (block_write (sl_wire sl) b)),
               pr_packets = map (\<lambda>ch. sp_serialize (sl_codec sl) (pedersen_integrity_proof lib)
                 \<lparr>sp_chunk = ch, sp_proof = p\<rparr>) cs\<rparr>, s'), rng')" "pedersen_live (sl, lib, N, m, pk) b s'"
        "pd_signer s' = pd_signer s"
      and au: "pedersen_authentic lib (pedersen_ctx (sl, lib, N, m, pk)) V p"
    have "pedersen_carries (sl, lib, N, m, pk) b
        (sp_serialize (sl_codec sl) (pedersen_integrity_proof lib) \<lparr>sp_chunk = ch, sp_proof = p\<rparr>) ch"
      if "ch \<in> set cs" for ch
      using pedersen_carriesI [OF V, of lib pk "\<lparr>sp_chunk = ch, sp_proof = p\<rparr>"] cs(1) au that
      by (simp add: pedersen_good_def)
    then have "list_all2 (pedersen_carries (sl, lib, N, m, pk) b)
        (map (\<lambda>ch. sp_serialize (sl_codec sl) (pedersen_integrity_proof lib) \<lparr>sp_chunk = ch, sp_proof = p\<rparr>) cs) cs"
      by (simp add: list_all2_map1 list.rel_refl_strong)
    with p cs(2) id(2) show ?thesis by (auto simp: pedersen_proposer_def)
  qed
qed

lemma pedersen_data_traced:
  assumes h: "pedersen_holds (sl, lib, N, m, pk) b ks cs s"
    and cr: "pedersen_carries (sl, lib, N, m, pk) b data ch"
  shows "\<exists>s' r. pedersen_ingest sl lib N s Data num data = Inr (s', Inr r) \<and>
    pedersen_holds (sl, lib, N, m, pk) b (if r then ks @ [ch] else ks) (cs @ [ch]) s' \<and>
    (r \<longleftrightarrow> \<not> bd_is_complete (pd_decoder s) \<and> \<not> in_span N (map cc_b ks) (cc_b ch))"
proof (rule pedersen_holdsE [OF h])
  let ?ctx = "pedersen_ctx (sl, lib, N, m, pk)"
  fix V assume V: "chunked sl N m b V" and ft: "pedersen_fits (sl, lib, N, m, pk) b"
    and lv: "pedersen_live (sl, lib, N, m, pk) b s" and s: "pd_ctx s = ?ctx" "pd_m s = m"
    and ok: "node_ok (pedersen_proofs lib N m ?ctx V) N m V (pd_decoder s) (pd_proofs s)"
    and fed: "fed_with N m V cs (pd_decoder s)" and ks: "bd_coded_chunks (pd_decoder s) = ks"
  from cr obtain W pkt where W: "chunked sl N m b W" "pedersen_good lib N m ?ctx W (sp_chunk pkt) (sp_proof pkt)"
    and data: "data = sp_serialize (sl_codec sl) (pedersen_integrity_proof lib) pkt" and ch: "ch = sp_chunk pkt"
    by (auto simp: pedersen_carries_def)
  have gd: "pedersen_good lib N m ?ctx V (sp_chunk pkt) (sp_proof pkt)"
    using W(2) chunked_unique [OF V W(1)] by simp
  show ?thesis
  proof (rule pedersen.receive_fed [OF pedersen_fits_setting [OF ft V] ok gd fed])
    fix d' ps' r
    assume run: "coded_receive (pedersen_scheme lib) (pd_decoder s) (pd_proofs s) ?ctx pkt = Inr ((d', ps'), Inr r)"
      and ok': "node_ok (pedersen_proofs lib N m ?ctx V) N m V d' ps'"
      and d': "fed_with N m V (cs @ [sp_chunk pkt]) d'"
        "bd_coded_chunks d' = bd_coded_chunks (pd_decoder s) @ (if r then [sp_chunk pkt] else [])"
      and r: "r \<longleftrightarrow> \<not> bd_is_complete (pd_decoder s) \<and> \<not> bd_span N (pd_decoder s) (cc_b (sp_chunk pkt))"
    let ?s' = "s\<lparr>pd_decoder := d', pd_proofs := ps'\<rparr>"
    have "pedersen_ingest sl lib N s Data num data = Inr (?s', Inr r)"
      using run s by (simp add: data pedersen_packet_readable [OF ft V gd])
    moreover have "pedersen_live (sl, lib, N, m, pk) b ?s'"
      using lv V ok' by (auto simp: pedersen_live_def)
    ultimately show ?thesis using V d' r ks ch by (auto simp: pedersen_holds_def bd_span_def)
  qed
qed

interpretation pedersen_traced: traced_protocol
  "\<lambda>(sl, lib, N, m, pk). pedersen_protocol sl lib N" pedersen_fits pedersen_idle pedersen_proposer
  pedersen_live "\<lambda>c s. bd_coded_chunks (pd_decoder s) \<noteq> []"
  "\<lambda>(sl, lib, N, m, pk) b a. a = encode_announcement (length (block_write (sl_wire sl) b))"
  pedersen_honest_packet "\<lambda>(sl, lib, N, m, pk). N" "\<lambda>(sl, lib, N, m, pk). sl_random sl" "\<lambda>c b v. True"
  pedersen_carries pedersen_holds
proof (unfold_locales, goal_cases)
  case (1 c b ks cs s)
  then show ?case by (simp add: pedersen_holds_def)
next
  case (2 c b ks cs s)
  obtain sl lib N m pk where c: "c = (sl, lib, N, m, pk)" by (cases c)
  from 2 [unfolded c] obtain V where "fed_with N m V cs (pd_decoder s)" "bd_coded_chunks (pd_decoder s) = ks"
    "pedersen_live (sl, lib, N, m, pk) b s" by (rule pedersen_holdsE)
  with fed_with_complete pedersen_live_wf bd_wf_complete show ?case
    by (fastforce simp: c pedersen_protocol_def pedersen_is_complete_def)
next
  case (3 c s b k rng B rng')
  obtain sl lib N m pk where c: "c = (sl, lib, N, m, pk)" by (cases c)
  from pedersen_propose_traced [where lib = lib and sl = sl, of N m pk s b k rng B rng'] 3 show ?case
    by (simp add: c pedersen_protocol_def)
next
  case (4 c s b a)
  obtain sl lib N m pk where c: "c = (sl, lib, N, m, pk)" by (cases c)
  from pedersen_node.announce [OF 4] obtain s' where
    s': "pedersen_ingest sl lib N s Announce (bl_number b) a = Inr (s', Inr True)" "pedersen_live c b s'"
    by (auto simp: c pedersen_protocol_def)
  then have "pd_decoder s' = pd_decoder s" by (auto split: sum.splits)
  with 4(1) s' show ?case
    by (auto simp: c pedersen_protocol_def pedersen_holds_def pedersen_idle_def pedersen_live_def
        intro: fed_with_new)
next
  case (5 c b ks cs s p ch)
  then show ?case by simp
next
  case (6 c b ks cs s p ch)
  obtain sl lib N m pk where c: "c = (sl, lib, N, m, pk)" by (cases c)
  from pedersen_data_traced [OF 6(1,2) [unfolded c], of "bl_number b"] show ?case
    by (simp add: c pedersen_protocol_def pedersen_is_complete_def)
next
  case (7 c b ks cs s k rng A rng')
  obtain sl lib N m pk where c: "c = (sl, lib, N, m, pk)" by (cases c)
  show ?case
  proof (rule pedersen_holdsE [OF 7(1) [unfolded c]])
    let ?ctx = "pedersen_ctx (sl, lib, N, m, pk)"
    fix V assume V: "chunked sl N m b V" "pedersen_fits (sl, lib, N, m, pk) b"
      and ok: "node_ok (pedersen_proofs lib N m ?ctx V) N m V (pd_decoder s) (pd_proofs s)"
      and ks: "bd_coded_chunks (pd_decoder s) = ks"
    from pedersen.forward_draws [OF pedersen_fits_setting [OF V(2,1)] ok, of "sl_random sl" k rng A rng'] 7(2,3) ks
    obtain pkts where
      pkts: "coded_forward (pedersen_scheme lib) (sl_random sl) N (pd_decoder s) (pd_proofs s) k rng = Inr (pkts, rng')"
        "\<forall>pkt \<in> set pkts. pedersen_good lib N m ?ctx V (sp_chunk pkt) (sp_proof pkt)"
        "map (\<lambda>pkt. cc_b (sp_chunk pkt)) pkts = map (reencoded_coeffs N (map cc_b ks)) A" by (auto simp: c)
    have "list_all2 (pedersen_carries c b)
        (map (sp_serialize (sl_codec sl) (pedersen_integrity_proof lib)) pkts) (map sp_chunk pkts)"
      using pkts(2) pedersen_carriesI [OF V(1), of lib pk]
      by (simp add: list_all2_map1 list_all2_map2 c list.rel_refl_strong)
    with pkts show ?thesis
      by (auto simp: c pedersen_protocol_def pedersen_recode_def comp_def intro!: exI [of _ "map sp_chunk pkts"])
  qed
qed

text \<open>
  A BFKW packet can be read unless its signature is the identity, which depends on the key, the hash points
  and the chunk.
\<close>

definition bfkw_signable ::
  "('f::field, 'g1::ab_group_add, 'g2::ab_group_add, 'r) bfkw_node_generics \<Rightarrow> block \<Rightarrow> 'f list \<Rightarrow> bool" where
  "bfkw_signable c b v \<longleftrightarrow> (case c of (sl, lib, N, m, pk) \<Rightarrow>
     \<forall>V sk. chunked sl N m b V \<longrightarrow> bfkw_keypair lib sk pk \<longrightarrow>
       g_smul (bf_g2 lib) sk (g_msm (bf_g2 lib) (bc_hash_points (bfkw_block_ctx c b)) (rows_combination m v V @ v)) \<noteq> 0)"

definition bfkw_carries ::
  "('f::field, 'g1::ab_group_add, 'g2::ab_group_add, 'r) bfkw_node_generics \<Rightarrow> block \<Rightarrow> bytes \<Rightarrow> 'f coded_chunk \<Rightarrow> bool"
  where
  "bfkw_carries c b data ch \<longleftrightarrow> (case c of (sl, lib, N, m, pk) \<Rightarrow>
     \<exists>V p. chunked sl N m b V \<and> bfkw_good lib N m (bfkw_block_ctx c b) V (sp_chunk p) (sp_proof p) \<and>
       data = sp_serialize (sl_codec sl) (bfkw_integrity_proof lib) p \<and> ch = sp_chunk p)"

definition bfkw_holds ::
  "('f::field, 'g1::ab_group_add, 'g2::ab_group_add, 'r) bfkw_node_generics \<Rightarrow> block \<Rightarrow> 'f coded_chunk list \<Rightarrow>
   'f coded_chunk list \<Rightarrow> ('f, 'g1, 'g2) bfkw_protocol_state \<Rightarrow> bool" where
  "bfkw_holds c b ks cs s \<longleftrightarrow> bfkw_live c b s \<and> bd_coded_chunks (bk_decoder s) = ks \<and>
     (case c of (sl, lib, N, m, pk) \<Rightarrow> \<exists>V. chunked sl N m b V \<and> fed_with N m V cs (bk_decoder s))"

lemma bfkw_carriesI:
  "chunked sl N m b V \<Longrightarrow>
   bfkw_good lib N m (bfkw_block_ctx (sl, lib, N, m, pk) b) V (sp_chunk p) (sp_proof p) \<Longrightarrow>
   bfkw_carries (sl, lib, N, m, pk) b (sp_serialize (sl_codec sl) (bfkw_integrity_proof lib) p) (sp_chunk p)"
  by (auto simp: bfkw_carries_def)

lemma bfkw_signable_sigma:
  assumes ft: "bfkw_fits (sl, lib, N, m, pk) b" and V: "chunked sl N m b V"
    and gd: "bfkw_good lib N m (bfkw_block_ctx (sl, lib, N, m, pk) b) V ch p"
  shows "bfkw_signable (sl, lib, N, m, pk) b (cc_b ch) \<longleftrightarrow> bp_sigma p \<noteq> 0"
proof -
  let ?ctx = "bfkw_block_ctx (sl, lib, N, m, pk) b"
  from ft obtain sk where sk: "bfkw_keypair lib sk pk" and ok: "bfkw_lib_ok lib"
    by (auto simp: bfkw_fits_def bfkw_codecs_ok_def)
  have orig: "originals N m V" using V by (simp add: chunked_def)
  have cd: "coded_by N m V ch" using gd by (simp add: bfkw_good_def)
  then have w: "chunk_v (cc_w ch) = rows_combination m (cc_b ch) V"
    using rows_combination_comb [OF orig, of "cc_b ch"]
    by (intro nth_equalityI) (simp_all add: coded_by_def)
  have sigma: "bp_sigma p
      = g_smul (bf_g2 lib) sk (g_msm (bf_g2 lib) (bc_hash_points ?ctx) (rows_combination m (cc_b ch) V @ cc_b ch))"
    if "bfkw_keypair lib sk pk" for sk
  proof -
    have "bfkw_keypair lib sk (bc_public_key ?ctx)" using that by (simp add: bfkw_block_ctx_def)
    from pairing_check_iff [OF ok this] gd show ?thesis by (simp add: bfkw_good_def augmented_def w)
  qed
  have only: "chunked sl N m b W \<longleftrightarrow> W = V" for W using V chunked_unique [OF V, of W] by blast
  have "bfkw_signable (sl, lib, N, m, pk) b (cc_b ch) \<longleftrightarrow>
      (\<forall>sk. bfkw_keypair lib sk pk \<longrightarrow> g_smul (bf_g2 lib) sk
        (g_msm (bf_g2 lib) (bc_hash_points ?ctx) (rows_combination m (cc_b ch) V @ cc_b ch)) \<noteq> 0)"
    by (simp add: bfkw_signable_def only)
  with sigma sk show ?thesis by metis
qed

lemma bfkw_holdsE:
  assumes "bfkw_holds (sl, lib, N, m, pk) b ks cs s"
  obtains V where "chunked sl N m b V" "bfkw_fits (sl, lib, N, m, pk) b" "bfkw_live (sl, lib, N, m, pk) b s"
    "bk_ctx s = Some (bfkw_block_ctx (sl, lib, N, m, pk) b)" "bk_m s = m"
    "node_ok (bfkw_proofs lib N m (bfkw_block_ctx (sl, lib, N, m, pk) b) V) N m V (bk_decoder s) (bk_proofs s)"
    "fed_with N m V cs (bk_decoder s)" "bd_coded_chunks (bk_decoder s) = ks"
proof -
  from assms obtain W where W: "chunked sl N m b W" "fed_with N m W cs (bk_decoder s)"
    and lv: "bfkw_live (sl, lib, N, m, pk) b s" and ks: "bd_coded_chunks (bk_decoder s) = ks"
    by (auto simp: bfkw_holds_def)
  from lv obtain V where V: "chunked sl N m b V" "bfkw_fits (sl, lib, N, m, pk) b"
    "bk_ctx s = Some (bfkw_block_ctx (sl, lib, N, m, pk) b)" "bk_m s = m"
    "node_ok (bfkw_proofs lib N m (bfkw_block_ctx (sl, lib, N, m, pk) b) V) N m V (bk_decoder s) (bk_proofs s)"
    by (auto simp: bfkw_live_def)
  from that [OF V(1,2) lv V(3-5) _ ks] W(2) chunked_unique [OF V(1) W(1)] show thesis by simp
qed

lemma bfkw_propose_traced:
  assumes id: "bfkw_idle (sl, lib, N, m, pk) s" "bfkw_proposer (sl, lib, N, m, pk) s"
    and ft: "bfkw_fits (sl, lib, N, m, pk) b" and B: "random_matrix (sl_random sl) k N rng = (B, rng')"
  shows "\<exists>pr s' cs. bfkw_propose sl lib N s b k rng = Inr ((pr, s'), rng') \<and>
    bfkw_live (sl, lib, N, m, pk) b s' \<and> bfkw_proposer (sl, lib, N, m, pk) s' \<and>
    pr_announcement pr = encode_announcement (length (block_write (sl_wire sl) b)) \<and>
    list_all2 (bfkw_carries (sl, lib, N, m, pk) b) (pr_packets pr) cs \<and> map cc_b cs = B"
proof -
  from ft have sl: "packing_ok sl" and bf: "block_fits sl N m b"
    by (simp_all add: bfkw_fits_def scalar_lib_ok_def)
  from chunked_exists [OF sl bf] obtain V where V: "chunked sl N m b V" ..
  from encode_block [OF sl bf V B] obtain cs where
    enc: "encode_chunks (sl_wire sl) (sl_pf sl) (sl_random sl) N m k b rng
        = Inr ((cs, length (block_write (sl_wire sl) b)), rng')"
    and cs: "\<forall>c \<in> set cs. coded_by N m V c" "map cc_b cs = B" by blast
  show ?thesis
  proof (rule bfkw_propose_spec [OF id ft V enc cs(1)])
    fix ps s' assume p: "bfkw_propose sl lib N s b k rng
      = Inr ((\<lparr>pr_announcement = encode_announcement (length (block_write (sl_wire sl) b)),
               pr_packets = map (sp_serialize (sl_codec sl) (bfkw_integrity_proof lib)) ps\<rparr>, s'), rng')"
        "bfkw_live (sl, lib, N, m, pk) b s'" "bk_signer s' = bk_signer s"
      and ps: "map sp_chunk ps = cs"
        "\<forall>p \<in> set ps. bfkw_good lib N m (bfkw_block_ctx (sl, lib, N, m, pk) b) V (sp_chunk p) (sp_proof p)"
    from ps(2) bfkw_carriesI [OF V, of lib pk]
    have "list_all2 (bfkw_carries (sl, lib, N, m, pk) b)
        (map (sp_serialize (sl_codec sl) (bfkw_integrity_proof lib)) ps) (map sp_chunk ps)"
      by (simp add: list_all2_map1 list_all2_map2 list.rel_refl_strong)
    with p ps(1) cs(2) id(2) show ?thesis by (auto simp: bfkw_proposer_def)
  qed
qed

lemma bfkw_data_traced:
  assumes h: "bfkw_holds (sl, lib, N, m, pk) b ks cs s" and cr: "bfkw_carries (sl, lib, N, m, pk) b data ch"
  shows "if bfkw_signable (sl, lib, N, m, pk) b (cc_b ch)
    then \<exists>s' r. bfkw_ingest sl lib N s Data num data = Inr (s', Inr r) \<and>
      bfkw_holds (sl, lib, N, m, pk) b (if r then ks @ [ch] else ks) (cs @ [ch]) s' \<and>
      (r \<longleftrightarrow> \<not> bd_is_complete (bk_decoder s) \<and> \<not> in_span N (map cc_b ks) (cc_b ch))
    else \<exists>e. bfkw_ingest sl lib N s Data num data = Inr (s, Inl e)"
proof (rule bfkw_holdsE [OF h])
  let ?ctx = "bfkw_block_ctx (sl, lib, N, m, pk) b"
  fix V assume V: "chunked sl N m b V" and ft: "bfkw_fits (sl, lib, N, m, pk) b"
    and lv: "bfkw_live (sl, lib, N, m, pk) b s" and s: "bk_ctx s = Some ?ctx" "bk_m s = m"
    and ok: "node_ok (bfkw_proofs lib N m ?ctx V) N m V (bk_decoder s) (bk_proofs s)"
    and fed: "fed_with N m V cs (bk_decoder s)" and ks: "bd_coded_chunks (bk_decoder s) = ks"
  from cr obtain W pkt where W: "chunked sl N m b W" "bfkw_good lib N m ?ctx W (sp_chunk pkt) (sp_proof pkt)"
    and data: "data = sp_serialize (sl_codec sl) (bfkw_integrity_proof lib) pkt" and ch: "ch = sp_chunk pkt"
    by (auto simp: bfkw_carries_def)
  have gd: "bfkw_good lib N m ?ctx V (sp_chunk pkt) (sp_proof pkt)"
    using W(2) chunked_unique [OF V W(1)] by simp
  note sg = bfkw_signable_sigma [OF ft V gd]
  show ?thesis
  proof (cases "bp_sigma (sp_proof pkt) = 0")
    case True
    then show ?thesis using s sg by (simp add: data ch bfkw_packet_readable [OF ft V gd])
  next
    case sigma: False
    show ?thesis
    proof (rule bfkw.receive_fed [OF bfkw_fits_setting [OF ft V] ok gd fed])
      fix d' ps' r
      assume run: "coded_receive (bfkw_scheme lib N) (bk_decoder s) (bk_proofs s) ?ctx pkt = Inr ((d', ps'), Inr r)"
        and ok': "node_ok (bfkw_proofs lib N m ?ctx V) N m V d' ps'"
        and d': "fed_with N m V (cs @ [sp_chunk pkt]) d'"
          "bd_coded_chunks d' = bd_coded_chunks (bk_decoder s) @ (if r then [sp_chunk pkt] else [])"
        and r: "r \<longleftrightarrow> \<not> bd_is_complete (bk_decoder s) \<and> \<not> bd_span N (bk_decoder s) (cc_b (sp_chunk pkt))"
      let ?s' = "s\<lparr>bk_decoder := d', bk_proofs := ps'\<rparr>"
      have "bfkw_ingest sl lib N s Data num data = Inr (?s', Inr r)"
        using run s sigma by (simp add: data bfkw_packet_readable [OF ft V gd])
      moreover have "bfkw_live (sl, lib, N, m, pk) b ?s'"
        using lv V ok' by (auto simp: bfkw_live_def)
      ultimately show ?thesis using V d' r ks ch sg sigma by (auto simp: bfkw_holds_def bd_span_def)
    qed
  qed
qed

interpretation bfkw_traced: traced_protocol
  "\<lambda>(sl, lib, N, m, pk). bfkw_protocol sl lib N" bfkw_fits bfkw_idle bfkw_proposer bfkw_live
  "\<lambda>c s. bd_coded_chunks (bk_decoder s) \<noteq> []"
  "\<lambda>(sl, lib, N, m, pk) b a. a = encode_announcement (length (block_write (sl_wire sl) b))"
  bfkw_honest_packet "\<lambda>(sl, lib, N, m, pk). N" "\<lambda>(sl, lib, N, m, pk). sl_random sl" bfkw_signable
  bfkw_carries bfkw_holds
proof (unfold_locales, goal_cases)
  case (1 c b ks cs s)
  then show ?case by (simp add: bfkw_holds_def)
next
  case (2 c b ks cs s)
  obtain sl lib N m pk where c: "c = (sl, lib, N, m, pk)" by (cases c)
  from 2 [unfolded c] obtain V where "fed_with N m V cs (bk_decoder s)" "bd_coded_chunks (bk_decoder s) = ks"
    "bfkw_live (sl, lib, N, m, pk) b s" by (rule bfkw_holdsE)
  with fed_with_complete bfkw_live_wf bd_wf_complete show ?case
    by (fastforce simp: c bfkw_protocol_def bfkw_is_complete_def)
next
  case (3 c s b k rng B rng')
  obtain sl lib N m pk where c: "c = (sl, lib, N, m, pk)" by (cases c)
  from bfkw_propose_traced [where lib = lib and sl = sl, of N m pk s b k rng B rng'] 3 show ?case
    by (simp add: c bfkw_protocol_def)
next
  case (4 c s b a)
  obtain sl lib N m pk where c: "c = (sl, lib, N, m, pk)" by (cases c)
  from bfkw_node.announce [OF 4] obtain s' where
    s': "bfkw_ingest sl lib N s Announce (bl_number b) a = Inr (s', Inr True)" "bfkw_live c b s'"
    by (auto simp: c bfkw_protocol_def)
  then have "bk_decoder s' = bk_decoder s" by (auto simp: Let_def split: sum.splits)
  with 4(1) s' show ?case
    by (auto simp: c bfkw_protocol_def bfkw_holds_def bfkw_idle_def bfkw_live_def intro: fed_with_new)
next
  case (5 c b ks cs s p ch)
  obtain sl lib N m pk where c: "c = (sl, lib, N, m, pk)" by (cases c)
  from bfkw_data_traced [OF 5(1,2) [unfolded c], of "bl_number b"] 5(3) show ?case
    by (simp add: c bfkw_protocol_def)
next
  case (6 c b ks cs s p ch)
  obtain sl lib N m pk where c: "c = (sl, lib, N, m, pk)" by (cases c)
  from bfkw_data_traced [OF 6(1,2) [unfolded c], of "bl_number b"] 6(3) show ?case
    by (simp add: c bfkw_protocol_def bfkw_is_complete_def)
next
  case (7 c b ks cs s k rng A rng')
  obtain sl lib N m pk where c: "c = (sl, lib, N, m, pk)" by (cases c)
  show ?case
  proof (rule bfkw_holdsE [OF 7(1) [unfolded c]])
    let ?ctx = "bfkw_block_ctx (sl, lib, N, m, pk) b"
    fix V assume V: "chunked sl N m b V" "bfkw_fits (sl, lib, N, m, pk) b"
      and ok: "node_ok (bfkw_proofs lib N m ?ctx V) N m V (bk_decoder s) (bk_proofs s)"
      and ks: "bd_coded_chunks (bk_decoder s) = ks"
    from bfkw.forward_draws [OF bfkw_fits_setting [OF V(2,1)] ok, of "sl_random sl" k rng A rng'] 7(2,3) ks
    obtain pkts where
      pkts: "coded_forward (bfkw_scheme lib N) (sl_random sl) N (bk_decoder s) (bk_proofs s) k rng = Inr (pkts, rng')"
        "\<forall>pkt \<in> set pkts. bfkw_good lib N m ?ctx V (sp_chunk pkt) (sp_proof pkt)"
        "map (\<lambda>pkt. cc_b (sp_chunk pkt)) pkts = map (reencoded_coeffs N (map cc_b ks)) A" by (auto simp: c)
    have "list_all2 (bfkw_carries c b)
        (map (sp_serialize (sl_codec sl) (bfkw_integrity_proof lib)) pkts) (map sp_chunk pkts)"
      using pkts(2) bfkw_carriesI [OF V(1), of lib pk]
      by (simp add: list_all2_map1 list_all2_map2 c list.rel_refl_strong)
    with pkts show ?thesis
      by (auto simp: c bfkw_protocol_def bfkw_recode_def comp_def intro!: exI [of _ "map sp_chunk pkts"])
  qed
qed

end
