(* ===== verification/Boot_Facts.thy ===== *)
theory Boot_Facts
  imports Node_Main Deploy_Facts Protocol_Traced
begin

text \<open>
  A generated network starts: every node reads its files, finds all the other nodes at the addresses
  they listen on, and sets up its protocol, the first node with the signer of the proposer's key.
\<close>

section \<open>What the libraries promise\<close>

definition key_lib_ok :: "('r, 'ek, 'ep, 'bk, 'bp) key_lib \<Rightarrow> bool" where
  "key_lib_ok K \<longleftrightarrow> (\<forall>bs. kl_hex_decode K (kl_hex_encode K bs) = Some bs) \<and>
     (\<forall>sk. kl_ed_read K (kl_ed_write K sk) = Some sk) \<and>
     (\<forall>pk. kl_ed_read_public K (kl_ed_bytes K pk) = Some pk) \<and>
     (\<forall>sk. kl_bls_read_public K (kl_bls_bytes K (kl_bls_public K sk)) = Some (kl_bls_public K sk))"

text \<open>Only bracketed addresses are IPv6; the names \<open>node-i\<close> are host names.\<close>

definition boot_lib_ok :: "'g1 boot_lib \<Rightarrow> bool" where
  "boot_lib_ok B \<longleftrightarrow> (\<forall>s. s \<noteq> [] \<and> hd s \<noteq> CHR ''['' \<longrightarrow> bl_parse_v6 B s = None) \<and>
     (\<forall>i. bl_hostname_ok B (''node-'' @ show_nat i))"

text \<open>Both readers of BLS keys, and both ways to draw one from a seed, agree.\<close>

definition bls_keys_agree ::
  "('r, 'ek, 'ep, 'bk, 'bp) key_lib \<Rightarrow> 'g1 boot_lib \<Rightarrow> ('f, 'r) scalar_lib \<Rightarrow>
   ('f, 'g, 'bk, 'bp, 'sig) pedersen_lib \<Rightarrow> ('f, 'g1, 'g2) bfkw_lib \<Rightarrow> bool" where
  "bls_keys_agree K B sl plib blib \<longleftrightarrow> sg_public_key (pl_signer plib) = kl_bls_public K \<and>
     (\<forall>r. bl_g1_read B (kl_bls_bytes K (kl_bls_public K (fst (kl_bls_random K r)))) =
        Some (bs_pk (fst (bfkw_generate blib (sl_random sl) r))))"

section \<open>Keys and addresses\<close>

lemma decode_hex_0x [simp]: "key_lib_ok K \<Longrightarrow> decode_hex_0x K (hex_0x K bs) = Some bs"
  by (simp add: decode_hex_0x_def hex_0x_def key_lib_ok_def strip_prefix_append [of "''0x''", simplified])

lemma expect_Some [simp]: "expect e (Some x) = Inr x"
  by (simp add: expect_def)

lemma read_peer_key_hex:
  "key_lib_ok K \<Longrightarrow> pe_public_key e = hex_0x K (kl_ed_bytes K pk) \<Longrightarrow> read_peer_key K e = Inr pk"
  by (simp add: read_peer_key_def) (simp add: key_lib_ok_def)

lemma parse_ingress_local:
  "p \<le> 65535 \<Longrightarrow> parse_ingress B (''127.0.0.1:'' @ show_nat p) = Inr (IngressSocket (SocketV4 127 0 0 1 p))"
  using parse_localhost(1) [of p] by (simp add: parse_ingress_def parse_socket_addr_def)

lemma parse_ingress_docker:
  assumes "boot_lib_ok B"
  shows "parse_ingress B (docker_address port i) = Inr (IngressDns (''node-'' @ show_nat i) (unat port))"
proof -
  let ?s = "docker_address port i"
  have "parse_socket_v4 ?s = None"
    by (rule parse_v4_not_digit) (simp_all add: docker_address_def is_digit_simps)
  moreover have "bl_parse_v6 B ?s = None" using assms by (simp add: boot_lib_ok_def docker_address_def)
  moreover have "CHR '':'' \<notin> set (show_nat (unat port))" by (rule show_nat_no) (simp add: parse_digit_def)
  then have "rsplit_once CHR '':'' ?s = Some (''node-'' @ show_nat i, show_nat (unat port))"
    using rsplit_once_append [of "CHR '':''" "show_nat (unat port)" "''node-'' @ show_nat i"]
    by (simp add: docker_address_def)
  moreover have "unat port \<le> 65535" using unsigned_less [of port, where 'a = nat] by simp
  ultimately show ?thesis using assms
    by (simp add: parse_ingress_def parse_socket_addr_def boot_lib_ok_def)
qed

lemma parse_peers_ok:
  assumes "\<forall>e \<in> set es. read_peer_key K e = Inr (key e) \<and> parse_ingress B (pe_address e) = Inr (addr e)"
  shows "parse_peers K B my_pk es = Inr (filter (\<lambda>(pk, _). pk \<noteq> my_pk) (map (\<lambda>e. (key e, addr e)) es))"
  using assms by (induction es) auto

section \<open>Setup\<close>

lemma node_protocol_ok:
  assumes K: "key_lib_ok K" and agree: "bls_keys_agree K B sl plib blib"
    and key: "nc_proposer_signing_key config = None \<or>
      nc_proposer_signing_key config = Some (hex_0x K (proposer_seed seed))"
    and bytes: "pk_bytes = kl_bls_bytes K (kl_bls_public K (fst (kl_bls_random K (kl_from_seed K (proposer_seed seed)))))"
  defines "bls_pk \<equiv> kl_bls_public K (fst (kl_bls_random K (kl_from_seed K (proposer_seed seed))))"
    and "g1_pk \<equiv> bs_pk (fst (bfkw_generate blib (sl_random sl) (kl_from_seed K (proposer_seed seed))))"
  shows "nc_strategy config = ''baseline'' \<Longrightarrow>
      node_protocol_of K B sl plib blib config m pk_bytes = Inr (BaselineNode baseline_protocol_new)"
    "nc_strategy config = ''pedersen'' \<Longrightarrow>
      \<exists>p. node_protocol_of K B sl plib blib config m pk_bytes = Inr (PedersenNode p) \<and>
        pedersen_idle (sl, plib, node_chunks, m, bls_pk) p \<and>
        (nc_proposer_signing_key config \<noteq> None \<longrightarrow> pedersen_proposer (sl, plib, node_chunks, m, bls_pk) p)"
    "nc_strategy config = ''bfkw'' \<Longrightarrow>
      \<exists>p. node_protocol_of K B sl plib blib config m pk_bytes = Inr (BfkwNode p) \<and>
        bfkw_idle (sl, blib, node_chunks, m, g1_pk) p \<and>
        (nc_proposer_signing_key config \<noteq> None \<longrightarrow> bfkw_proposer (sl, blib, node_chunks, m, g1_pk) p)"
    "nc_strategy config \<notin> {''baseline'', ''pedersen'', ''bfkw''} \<Longrightarrow>
      node_protocol_of K B sl plib blib config m pk_bytes = Inl (UnknownStrategy (nc_strategy config))"
proof -
  have "length (proposer_seed seed) = 32" by (simp add: proposer_seed_def)
  with key K have seed: "signing_seed K (nc_proposer_signing_key config)
      = Inr (if nc_proposer_signing_key config = None then None else Some (proposer_seed seed))"
    by (auto simp: signing_seed_def)
  show "node_protocol_of K B sl plib blib config m pk_bytes = Inr (BaselineNode baseline_protocol_new)"
    if "nc_strategy config = ''baseline''" using that by (simp add: node_protocol_of_def)
  show "\<exists>p. node_protocol_of K B sl plib blib config m pk_bytes = Inr (PedersenNode p) \<and>
        pedersen_idle (sl, plib, node_chunks, m, bls_pk) p \<and>
        (nc_proposer_signing_key config \<noteq> None \<longrightarrow> pedersen_proposer (sl, plib, node_chunks, m, bls_pk) p)"
    if "nc_strategy config = ''pedersen''"
    using that seed K agree
    by (simp add: node_protocol_of_def bytes key_lib_ok_def pedersen_idle_def pedersen_protocol_new_def
        pedersen_ctx_def pedersen_proposer_def bls_pk_def bls_keys_agree_def)
  show "\<exists>p. node_protocol_of K B sl plib blib config m pk_bytes = Inr (BfkwNode p) \<and>
        bfkw_idle (sl, blib, node_chunks, m, g1_pk) p \<and>
        (nc_proposer_signing_key config \<noteq> None \<longrightarrow> bfkw_proposer (sl, blib, node_chunks, m, g1_pk) p)"
    if "nc_strategy config = ''bfkw''"
    using that seed agree bfkw_generate_keypair [of blib "sl_random sl" "kl_from_seed K (proposer_seed seed)"]
    by (simp add: node_protocol_of_def bytes bfkw_idle_def bfkw_protocol_new_def
        bfkw_proposer_def g1_pk_def bls_keys_agree_def)
  show "node_protocol_of K B sl plib blib config m pk_bytes = Inl (UnknownStrategy (nc_strategy config))"
    if "nc_strategy config \<notin> {''baseline'', ''pedersen'', ''bfkw''}" using that by (simp add: node_protocol_of_def)
qed

section \<open>A generated network\<close>

lemma network_keys_ok:
  "length (network_keys K nodes seed) = nodes"
  "\<forall>x \<in> set (network_keys K nodes seed). snd x = kl_ed_public K (fst x)"
proof -
  have "length (random_keys K n rng) = n \<and> (\<forall>x \<in> set (random_keys K n rng). snd x = kl_ed_public K (fst x))" for n rng
    by (induction n arbitrary: rng) (auto simp: case_prod_beta Let_def)
  then show "length (network_keys K nodes seed) = nodes"
    "\<forall>x \<in> set (network_keys K nodes seed). snd x = kl_ed_public K (fst x)" by (simp_all add: network_keys_def)
qed

lemma zip_upt_map: "map (\<lambda>(j, sk, pk). f j sk pk) (zip [0..<length keys] keys)
    = map (\<lambda>j. f j (fst (keys ! j)) (snd (keys ! j))) [0..<length keys]"
  by (rule nth_equalityI) (simp_all add: case_prod_beta)

text \<open>The peers a node finds are all the others, in the order of the network.\<close>

lemma parse_network_peers:
  assumes K: "key_lib_ok K" and dist: "distinct (map snd keys)" and i: "i < length keys"
    and peer: "\<forall>j < length keys. pe_public_key (peer j (snd (keys ! j))) = hex_0x K (kl_ed_bytes K (snd (keys ! j))) \<and>
      parse_ingress B (pe_address (peer j (snd (keys ! j)))) = Inr (addr j)"
  shows "parse_peers K B (snd (keys ! i)) (map (\<lambda>(j, sk, pk). peer j pk) (zip [0..<length keys] keys))
      = Inr (map (\<lambda>j. (snd (keys ! j), addr j)) (filter (\<lambda>j. j \<noteq> i) [0..<length keys]))"
    and "mapR (read_peer_key K) (map (\<lambda>(j, sk, pk). peer j pk) (zip [0..<length keys] keys)) = Inr (map snd keys)"
proof -
  let ?n = "length keys" and ?es = "map (\<lambda>j. peer j (snd (keys ! j))) [0..<length keys]"
  have es: "map (\<lambda>(j, sk, pk). peer j pk) (zip [0..<length keys] keys) = ?es" by (rule zip_upt_map)
  have rd: "read_peer_key K (peer j (snd (keys ! j))) = Inr (snd (keys ! j))" if "j < ?n" for j
    using that peer by (intro read_peer_key_hex [OF K]) simp
  have "parse_peers K B (snd (keys ! i)) ?es = Inr (filter (\<lambda>(pk, _). pk \<noteq> snd (keys ! i))
      (map (\<lambda>e. (projr (read_peer_key K e), projr (parse_ingress B (pe_address e)))) ?es))"
    by (rule parse_peers_ok) (use rd peer in auto)
  also have "map (\<lambda>e. (projr (read_peer_key K e), projr (parse_ingress B (pe_address e)))) ?es
      = map (\<lambda>j. (snd (keys ! j), addr j)) [0..<?n]"
    using rd peer by (auto simp: comp_def)
  also have "filter (\<lambda>(pk, _). pk \<noteq> snd (keys ! i)) \<dots> = map (\<lambda>j. (snd (keys ! j), addr j))
      (filter (\<lambda>j. snd (keys ! j) \<noteq> snd (keys ! i)) [0..<?n])"
    by (simp add: filter_map comp_def)
  also have "filter (\<lambda>j. snd (keys ! j) \<noteq> snd (keys ! i)) [0..<?n] = filter (\<lambda>j. j \<noteq> i) [0..<?n]"
    using i nth_eq_iff_index_eq [OF dist] by (intro filter_cong) auto
  finally show "parse_peers K B (snd (keys ! i)) (map (\<lambda>(j, sk, pk). peer j pk) (zip [0..<length keys] keys))
      = Inr (map (\<lambda>j. (snd (keys ! j), addr j)) (filter (\<lambda>j. j \<noteq> i) [0..<?n]))" unfolding es .
  have "mapR (read_peer_key K) ?es = Inr (map (\<lambda>e. projr (read_peer_key K e)) ?es)"
    by (rule mapR_pure) (use rd in auto)
  moreover have "map (\<lambda>e. projr (read_peer_key K e)) ?es = map snd keys"
    using rd by (auto simp: comp_def intro: nth_equalityI)
  ultimately show "mapR (read_peer_key K) (map (\<lambda>(j, sk, pk). peer j pk) (zip [0..<length keys] keys)) = Inr (map snd keys)"
    unfolding es by simp
qed

text \<open>The keys, addresses and roles of a configuration as either generator writes them.\<close>

definition generated_config ::
  "('r, 'ek, 'ep, 'bk, 'bp) key_lib \<Rightarrow> u64 \<Rightarrow> ('ek \<times> 'ep) list \<Rightarrow> nat \<Rightarrow> node_config \<Rightarrow> bool" where
  "generated_config K seed keys i c \<longleftrightarrow>
     nc_private_key c = hex_0x K (kl_ed_write K (fst (keys ! i))) \<and>
     nc_proposer_public_key c = proposer_public_key_hex K seed \<and>
     nc_role c = (if i = 0 then ''proposer'' else ''receiver'') \<and>
     nc_proposer_signing_key c = (if i = 0 then Some (hex_0x K (proposer_seed seed)) else None)"

lemma node_setup_ok:
  assumes K: "key_lib_ok K" and dist: "distinct (map snd keys)" and i: "i < length keys"
    and pks: "\<forall>x \<in> set keys. snd x = kl_ed_public K (fst x)"
    and peer: "\<forall>j < length keys. pe_public_key (peer j (snd (keys ! j))) = hex_0x K (kl_ed_bytes K (snd (keys ! j))) \<and>
      parse_ingress B (pe_address (peer j (snd (keys ! j)))) = Inr (addr j)"
    and c: "generated_config K seed keys i c"
    and dial: "(case nc_dialable_address c of Some a \<Rightarrow> parse_ingress B a
      | None \<Rightarrow> Inr (IngressSocket (SocketV4 127 0 0 1 (nc_port c)))) = Inr (addr i)"
    and m: "compute_m (nc_block_size c) node_chunks = Inr m"
  shows "node_setup_of K B sl plib blib c (map (\<lambda>(j, sk, pk). peer j pk) (zip [0..<length keys] keys)) =
    mapRes (\<lambda>protocol. \<lparr>su_telemetry = telemetry_of B c, su_p2p = \<lparr>pc_local = nc_local c, pc_signer = fst (keys ! i),
        pc_namespace = node_namespace, pc_listen = SocketV4 0 0 0 0 (nc_port c), pc_dialable = addr i,
        pc_bootstrappers = map (\<lambda>j. (snd (keys ! j), addr j)) (filter (\<lambda>j. j \<noteq> i) [0..<length keys]),
        pc_max_message_size = max_msg_size,
        pc_channels = [(announce_ch, 10, 128), (data_ch, 256, 4096)], pc_tracked = set (map snd keys)\<rparr>,
      su_peer_pks = map (\<lambda>j. snd (keys ! j)) (filter (\<lambda>j. j \<noteq> i) [0..<length keys]),
      su_role = (if i = 0 then Proposer else Receiver),
      su_startup_delay = nc_startup_delay_secs c, su_block_interval = nc_block_interval_secs c,
      su_protocol = protocol\<rparr>)
    (node_protocol_of K B sl plib blib c m
      (kl_bls_bytes K (kl_bls_public K (fst (kl_bls_random K (kl_from_seed K (proposer_seed seed)))))))"
proof -
  note ps = parse_network_peers [where peer = peer and addr = addr and B = B, OF K dist i peer]
  have my: "kl_ed_public K (fst (keys ! i)) = snd (keys ! i)" using pks i by (metis nth_mem)
  have sk: "kl_ed_read K (kl_ed_write K (fst (keys ! i))) = Some (fst (keys ! i))" using K by (simp add: key_lib_ok_def)
  have pk: "decode_hex_0x K (proposer_public_key_hex K seed) = Some (kl_bls_bytes K (kl_bls_public K
      (fst (kl_bls_random K (kl_from_seed K (proposer_seed seed))))))"
    using K by (simp add: proposer_public_key_hex_def case_prod_beta)
  show ?thesis
    using c unfolding node_setup_of_def
    by (simp add: m K sk my ps dial dist pk generated_config_def Let_def comp_def mapRes_def bindR_def
        split: sum.splits)
qed

section \<open>The files of the generators\<close>

lemma fs_read_dirs [simp]: "fs_read (fs_create_dir_all d w) = fs_read w"
  by (rule ext) (simp add: fs_read_def fs_create_dir_all_def)

lemma written_network:
  assumes "length keys = nodes"
  shows "i < nodes \<Longrightarrow> fs_read (fold (\<lambda>(i, sk, pk). write_config Y out i (conf i sk)) (zip [0..<nodes] keys) w)
      (node_file out i) = Some (yl_print Y (node_config_yaml (conf i (fst (keys ! i)))))"
    "fs_read (fold (\<lambda>(i, sk, pk). write_config Y out i (conf i sk)) (zip [0..<nodes] keys) w)
      (path_join out ''peers.yaml'') = fs_read w (path_join out ''peers.yaml'')"
  using fs_read_configs [of i keys Y out conf 0 w] fs_read_configs_other [of "path_join out ''peers.yaml''" out]
  unfolding assms [symmetric] by simp_all

lemma local_files:
  fixes K :: "('r, 'ek, 'ep, 'bk, 'bp) key_lib" and Y :: yaml_lib
  shows "i < nodes \<Longrightarrow>
      fs_read (generate_local K Y nodes strategy block_size degree num start out seed w) (node_file out i)
      = Some (yl_print Y (node_config_yaml
          (local_config K strategy block_size degree num start out seed i (fst (network_keys K nodes seed ! i)))))"
    "fs_read (generate_local K Y nodes strategy block_size degree num start out seed w) (path_join out ''peers.yaml'')
      = Some (yl_print Y (YSeq (map peer_entry_yaml
          (map (\<lambda>(i, sk, pk). local_peer K start i pk) (zip [0..<nodes] (network_keys K nodes seed))))))"
  using written_network [where conf = "\<lambda>i sk. local_config K strategy block_size degree num start out seed i sk",
      OF network_keys_ok(1) [of K nodes seed]]
  unfolding generate_local_def Let_def by (simp_all add: write_peers_def)

lemma docker_files:
  fixes K :: "('r, 'ek, 'ep, 'bk, 'bp) key_lib" and Y :: yaml_lib
  shows "i < nodes \<Longrightarrow>
      fs_read (generate_docker K Y nodes strategy block_size degree num port metrics out seed interval delay monitoring w)
        (node_file out i)
      = Some (yl_print Y (node_config_yaml (docker_config K strategy block_size degree num port metrics seed
          interval delay i (fst (network_keys K nodes seed ! i)))))"
    "fs_read (generate_docker K Y nodes strategy block_size degree num port metrics out seed interval delay monitoring w)
        (path_join out ''peers.yaml'')
      = Some (yl_print Y (YSeq (map peer_entry_yaml
          (map (\<lambda>(i, sk, pk). docker_peer K port i pk) (zip [0..<nodes] (network_keys K nodes seed))))))"
  using written_network [where conf = "\<lambda>i sk. docker_config K strategy block_size degree num port metrics seed
      interval delay i sk", OF network_keys_ok(1) [of K nodes seed]]
  unfolding generate_docker_def Let_def by (simp_all add: write_peers_def node_file_def)

section \<open>Booting\<close>

text \<open>The protocol of node \<open>i\<close> as the theorems on the protocols need it.\<close>

definition protocol_ready ::
  "('r, 'ek, 'ep, 'bk, 'bp) key_lib \<Rightarrow> ('f::field, 'r) scalar_lib \<Rightarrow>
   ('f, 'g::ab_group_add, 'bk, 'bp, 'sig) pedersen_lib \<Rightarrow> ('f, 'g1::ab_group_add, 'g2::ab_group_add) bfkw_lib \<Rightarrow>
   string \<Rightarrow> u64 \<Rightarrow> nat \<Rightarrow> nat \<Rightarrow>
   (('f, 'g, 'bk, 'bp, 'sig) pedersen_protocol_state, ('f, 'g1, 'g2) bfkw_protocol_state) node_protocol \<Rightarrow> bool" where
  "protocol_ready K sl plib blib strategy seed m i protocol \<longleftrightarrow>
     (let rng = kl_from_seed K (proposer_seed seed);
          bls_pk = kl_bls_public K (fst (kl_bls_random K rng));
          g1_pk = bs_pk (fst (bfkw_generate blib (sl_random sl) rng)) in
      case protocol of
        BaselineNode p \<Rightarrow> strategy = ''baseline'' \<and> p = baseline_protocol_new
      | PedersenNode p \<Rightarrow> strategy = ''pedersen'' \<and> pedersen_idle (sl, plib, node_chunks, m, bls_pk) p \<and>
          (i = 0 \<longrightarrow> pedersen_proposer (sl, plib, node_chunks, m, bls_pk) p)
      | BfkwNode p \<Rightarrow> strategy = ''bfkw'' \<and> bfkw_idle (sl, blib, node_chunks, m, g1_pk) p \<and>
          (i = 0 \<longrightarrow> bfkw_proposer (sl, blib, node_chunks, m, g1_pk) p))"

text \<open>
  The setup of node \<open>i\<close> with configuration \<open>c\<close> in a network with these keys and addresses: everybody
  else is known by key and address, node 0 proposes.
\<close>

definition setup_in_network ::
  "('ek \<times> 'ep) list \<Rightarrow> (nat \<Rightarrow> ingress) \<Rightarrow> nat \<Rightarrow> nat \<Rightarrow> node_config \<Rightarrow>
   ('ek, 'ep, 'ped, 'bfkw) node_setup \<Rightarrow> bool" where
  "setup_in_network keys addr nodes i c su \<longleftrightarrow>
    tm_metrics_addr (su_telemetry su) = SocketV4 0 0 0 0 (nc_metrics_port c) \<and>
    pc_listen (su_p2p su) = SocketV4 0 0 0 0 (nc_port c) \<and> pc_dialable (su_p2p su) = addr i \<and>
    pc_bootstrappers (su_p2p su) = map (\<lambda>j. (snd (keys ! j), addr j)) (filter (\<lambda>j. j \<noteq> i) [0..<nodes]) \<and>
    su_peer_pks su = map (\<lambda>j. snd (keys ! j)) (filter (\<lambda>j. j \<noteq> i) [0..<nodes]) \<and>
    su_role su = (if i = 0 then Proposer else Receiver)"

lemma node_boots:
  assumes K: "key_lib_ok K" and Y: "yaml_lib_ok Y" and agree: "bls_keys_agree K B sl plib blib"
    and keys: "keys = network_keys K nodes seed" and dist: "distinct (map snd keys)" and i: "i < nodes"
    and files: "fs_read w (node_file out i) = Some (yl_print Y (node_config_yaml c))"
      "fs_read w (path_join out ''peers.yaml'') = Some (yl_print Y (YSeq (map peer_entry_yaml
        (map (\<lambda>(j, sk, pk). peer j pk) (zip [0..<nodes] keys)))))"
    and c: "node_config_in_range c" "generated_config K seed keys i c"
      "nc_strategy c \<in> {''baseline'', ''pedersen'', ''bfkw''}"
    and peer: "\<forall>j < nodes. pe_public_key (peer j (snd (keys ! j))) = hex_0x K (kl_ed_bytes K (snd (keys ! j))) \<and>
      parse_ingress B (pe_address (peer j (snd (keys ! j)))) = Inr (addr j)"
    and dial: "(case nc_dialable_address c of Some a \<Rightarrow> parse_ingress B a
      | None \<Rightarrow> Inr (IngressSocket (SocketV4 127 0 0 1 (nc_port c)))) = Inr (addr i)"
  shows "\<exists>su m. node_boot K Y B sl plib blib (fs_read w) (node_file out i) (path_join out ''peers.yaml'') = Inr (c, su) \<and>
    setup_in_network keys addr nodes i c su \<and> compute_m (nc_block_size c) node_chunks = Inr m \<and>
    protocol_ready K sl plib blib (nc_strategy c) seed m i (su_protocol su)"
proof -
  have len: "length keys = nodes" unfolding keys by (rule network_keys_ok)
  obtain m where m: "compute_m (nc_block_size c) node_chunks = Inr m"
    by (simp add: compute_m_def div_ceil_def node_chunks_def)
  let ?entries = "map (\<lambda>(j, sk, pk). peer j pk) (zip [0..<nodes] keys)"
  let ?pk = "kl_bls_bytes K (kl_bls_public K (fst (kl_bls_random K (kl_from_seed K (proposer_seed seed)))))"
  have key: "nc_proposer_signing_key c = None \<or> nc_proposer_signing_key c = Some (hex_0x K (proposer_seed seed))"
    "nc_proposer_signing_key c \<noteq> None \<longleftrightarrow> i = 0"
    using c(2) by (auto simp: generated_config_def)
  note P = node_protocol_ok [OF K agree key(1) refl, of m]
  have "\<exists>protocol. node_protocol_of K B sl plib blib c m ?pk = Inr protocol \<and>
      protocol_ready K sl plib blib (nc_strategy c) seed m i protocol"
    using c(3) P(1-3) key(2) unfolding protocol_ready_def Let_def by auto
  then obtain protocol where protocol: "node_protocol_of K B sl plib blib c m ?pk = Inr protocol"
    "protocol_ready K sl plib blib (nc_strategy c) seed m i protocol" by blast
  have "\<forall>x \<in> set keys. snd x = kl_ed_public K (fst x)" unfolding keys by (rule network_keys_ok)
  from node_setup_ok [where peer = peer and addr = addr and B = B and sl = sl and plib = plib and blib = blib,
      OF K dist _ this _ c(2) dial m] i peer len protocol(1)
  have ex: "\<exists>su. node_setup_of K B sl plib blib c ?entries = Inr su \<and>
      tm_metrics_addr (su_telemetry su) = SocketV4 0 0 0 0 (nc_metrics_port c) \<and>
    pc_listen (su_p2p su) = SocketV4 0 0 0 0 (nc_port c) \<and> pc_dialable (su_p2p su) = addr i \<and>
      pc_bootstrappers (su_p2p su) = map (\<lambda>j. (snd (keys ! j), addr j)) (filter (\<lambda>j. j \<noteq> i) [0..<nodes]) \<and>
      su_peer_pks su = map (\<lambda>j. snd (keys ! j)) (filter (\<lambda>j. j \<noteq> i) [0..<nodes]) \<and>
      su_role su = (if i = 0 then Proposer else Receiver) \<and> su_protocol su = protocol"
    by (simp add: telemetry_of_def)
  then obtain su where su: "node_setup_of K B sl plib blib c ?entries = Inr su"
      "tm_metrics_addr (su_telemetry su) = SocketV4 0 0 0 0 (nc_metrics_port c)"
      "pc_listen (su_p2p su) = SocketV4 0 0 0 0 (nc_port c)" "pc_dialable (su_p2p su) = addr i"
      "pc_bootstrappers (su_p2p su) = map (\<lambda>j. (snd (keys ! j), addr j)) (filter (\<lambda>j. j \<noteq> i) [0..<nodes])"
      "su_peer_pks su = map (\<lambda>j. snd (keys ! j)) (filter (\<lambda>j. j \<noteq> i) [0..<nodes])"
      "su_role su = (if i = 0 then Proposer else Receiver)" "su_protocol su = protocol"
    by (elim exE conjE) (rule that)
  show ?thesis
    using load_config_written [where read_file = "fs_read w", OF Y c(1) files(1)]
      load_peers_written [where read_file = "fs_read w", OF Y files(2)] su protocol(2) m
    by (intro exI [of _ su] exI [of _ m]) (simp add: node_boot_def setup_in_network_def)
qed

lemma unat_local_port:
  assumes "unat start + 2 * i < 2 ^ 16"
  shows "unat (local_port start i) = unat start + 2 * i"
proof -
  have "local_port start i = of_nat (unat start + 2 * i)" by (simp add: local_port_def)
  with assms show ?thesis by (simp only: unat_of_nat) (simp add: take_bit_nat_eq_self)
qed

lemma u64_in_range: "unat (x :: u64) \<le> max_u64"
  using unsigned_less [of x, where 'a = nat] by (simp add: max_u64_def)

lemma u16_in_range: "unat (x :: u16) \<le> max_u16"
  using unsigned_less [of x, where 'a = nat] by (simp add: max_u16_def)

lemma unat_local_ports:
  assumes "j < nodes" "unat start + 2 * nodes \<le> 2 ^ 16"
  shows "unat (local_port start j) = unat start + 2 * j" "unat (local_port start j + 1) = unat start + 2 * j + 1"
proof -
  have lt: "unat start + 2 * j + 1 < 2 ^ 16" using assms by simp
  show "unat (local_port start j) = unat start + 2 * j" using lt by (intro unat_local_port) simp
  have "local_port start j + 1 = of_nat (unat start + 2 * j + 1)" by (simp add: local_port_def)
  with lt show "unat (local_port start j + 1) = unat start + 2 * j + 1"
    by (simp only: unat_of_nat) (simp add: take_bit_nat_eq_self)
qed

lemma local_boots:
  assumes "key_lib_ok K" "yaml_lib_ok Y" "bls_keys_agree K B sl plib blib"
    and "distinct (map snd (network_keys K nodes seed))" "unat start_port + 2 * nodes \<le> 2 ^ 16"
    and "strategy \<in> {''baseline'', ''pedersen'', ''bfkw''}"
    and "block_size < 2 ^ 64" "mesh_degree < 2 ^ 64" "i < nodes"
    and keys: "keys = network_keys K nodes seed"
    and c: "c = local_config K strategy block_size mesh_degree num_blocks start_port out seed i (fst (keys ! i))"
    and w: "w = generate_local K Y nodes strategy block_size mesh_degree num_blocks start_port out seed old"
    and addr: "addr = (\<lambda>j. IngressSocket (SocketV4 127 0 0 1 (unat start_port + 2 * j)))"
  shows "\<exists>su m. node_boot K Y B sl plib blib (fs_read w) (node_file out i) (path_join out ''peers.yaml'')
      = Inr (c, su) \<and>
    setup_in_network keys addr nodes i c su \<and> compute_m block_size node_chunks = Inr m \<and>
    protocol_ready K sl plib blib strategy seed m i (su_protocol su)"
proof -
  note port = unat_local_ports [OF _ assms(5)]
  have peer: "\<forall>j < nodes. pe_public_key (local_peer K start_port j (snd (keys ! j)))
        = hex_0x K (kl_ed_bytes K (snd (keys ! j))) \<and>
      parse_ingress B (pe_address (local_peer K start_port j (snd (keys ! j)))) = Inr (addr j)"
  proof (intro allI impI)
    fix j assume "j < nodes"
    with assms(5) show "pe_public_key (local_peer K start_port j (snd (keys ! j)))
        = hex_0x K (kl_ed_bytes K (snd (keys ! j))) \<and>
      parse_ingress B (pe_address (local_peer K start_port j (snd (keys ! j)))) = Inr (addr j)"
      using parse_ingress_local [of "unat start_port + 2 * j" B] by (simp add: addr local_peer_def port)
  qed
  have "node_config_in_range c"
    using assms(7,8) u64_in_range [of num_blocks] u64_in_range [of "seed + of_nat i"]
      u16_in_range [of "local_port start_port i"] u16_in_range [of "local_port start_port i + 1"]
    by (simp add: node_config_in_range_def c local_config_def max_u64_def)
  moreover have "generated_config K seed keys i c" by (simp add: generated_config_def c local_config_def)
  moreover have "nc_strategy c \<in> {''baseline'', ''pedersen'', ''bfkw''}" using assms(6) by (simp add: c local_config_def)
  moreover have "(case nc_dialable_address c of Some a \<Rightarrow> parse_ingress B a
      | None \<Rightarrow> Inr (IngressSocket (SocketV4 127 0 0 1 (nc_port c)))) = Inr (addr i)"
    using port(1) [OF assms(9)] by (simp add: c addr local_config_def)
  ultimately have "\<exists>su m. node_boot K Y B sl plib blib (fs_read w) (node_file out i) (path_join out ''peers.yaml'')
      = Inr (c, su) \<and> setup_in_network keys addr nodes i c su \<and> compute_m (nc_block_size c) node_chunks = Inr m \<and>
    protocol_ready K sl plib blib (nc_strategy c) seed m i (su_protocol su)"
    by (intro node_boots [where K = K and Y = Y and keys = keys and peer = "local_peer K start_port"
        and addr = addr and out = out and c = c, OF assms(1-3) keys])
       (use assms(4,9) local_files [where K = K] peer in \<open>simp_all add: keys w c\<close>)
  then show ?thesis by (simp add: c local_config_def)
qed

lemma docker_boots:
  assumes "key_lib_ok K" "yaml_lib_ok Y" "bls_keys_agree K B sl plib blib"
    and "boot_lib_ok B" "distinct (map snd (network_keys K nodes seed))"
    and "strategy \<in> {''baseline'', ''pedersen'', ''bfkw''}"
    and "block_size < 2 ^ 64" "mesh_degree < 2 ^ 64" "i < nodes"
    and keys: "keys = network_keys K nodes seed"
    and c: "c = docker_config K strategy block_size mesh_degree num_blocks p2p_port metrics_port
      seed interval delay i (fst (keys ! i))"
    and w: "w = generate_docker K Y nodes strategy block_size mesh_degree num_blocks p2p_port metrics_port
      out seed interval delay monitoring old"
    and addr: "addr = (\<lambda>j. IngressDns (''node-'' @ show_nat j) (unat p2p_port))"
  shows "\<exists>su m. node_boot K Y B sl plib blib (fs_read w) (node_file out i) (path_join out ''peers.yaml'')
      = Inr (c, su) \<and>
    setup_in_network keys addr nodes i c su \<and> compute_m block_size node_chunks = Inr m \<and>
    protocol_ready K sl plib blib strategy seed m i (su_protocol su)"
proof -
  have "node_config_in_range c"
    using assms(7,8) u64_in_range [of num_blocks] u64_in_range [of "seed + of_nat i"] u64_in_range [of interval]
      u64_in_range [of delay] u16_in_range [of p2p_port] u16_in_range [of metrics_port]
    by (simp add: node_config_in_range_def c docker_config_def max_u64_def)
  moreover have "generated_config K seed keys i c" by (simp add: generated_config_def c docker_config_def)
  moreover have "nc_strategy c \<in> {''baseline'', ''pedersen'', ''bfkw''}" using assms(6) by (simp add: c docker_config_def)
  moreover have "(case nc_dialable_address c of Some a \<Rightarrow> parse_ingress B a
      | None \<Rightarrow> Inr (IngressSocket (SocketV4 127 0 0 1 (nc_port c)))) = Inr (addr i)"
    by (simp add: c addr docker_config_def parse_ingress_docker [OF assms(4)])
  moreover have "\<forall>j < nodes. pe_public_key (docker_peer K p2p_port j (snd (keys ! j)))
        = hex_0x K (kl_ed_bytes K (snd (keys ! j))) \<and>
      parse_ingress B (pe_address (docker_peer K p2p_port j (snd (keys ! j)))) = Inr (addr j)"
    by (simp add: addr docker_peer_def parse_ingress_docker [OF assms(4)])
  ultimately have "\<exists>su m. node_boot K Y B sl plib blib (fs_read w) (node_file out i) (path_join out ''peers.yaml'')
      = Inr (c, su) \<and> setup_in_network keys addr nodes i c su \<and> compute_m (nc_block_size c) node_chunks = Inr m \<and>
    protocol_ready K sl plib blib (nc_strategy c) seed m i (su_protocol su)"
    by (intro node_boots [where K = K and Y = Y and keys = keys and peer = "docker_peer K p2p_port"
        and addr = addr and out = out and c = c, OF assms(1-3) keys])
       (use assms(5,9) docker_files [where K = K] in \<open>simp_all add: keys w c\<close>)
  then show ?thesis by (simp add: c docker_config_def)
qed

section \<open>From files to blocks\<close>

text \<open>
  A block and its proposal to \<open>k\<close> targets reach a node: \<open>s\<close> proposes and \<open>r\<close> accepts the announcement and
  ingests the packets numbered \<open>js\<close>, any selection in any order. It is complete exactly when these are
  \<open>enough\<close>, and then decodes the block.
\<close>

definition delivers ::
  "('p, 'r) protocol \<Rightarrow> (nat list \<Rightarrow> bool) \<Rightarrow> block \<Rightarrow> nat \<Rightarrow> 'r \<Rightarrow> 'p \<Rightarrow> 'p \<Rightarrow> bool" where
  "delivers P enough b k rng s r \<longleftrightarrow>
     (\<exists>pr s' rng' r0. pt_propose P s b k rng = Inr ((pr, s'), rng') \<and> length (pr_packets pr) = k \<and>
        pt_ingest P r Announce (bl_number b) (pr_announcement pr) = Inr (r0, Inr True) \<and>
        (\<forall>js. set js \<subseteq> {..<k} \<longrightarrow>
          (\<exists>r1. ingest_all P (bl_number b) (map ((!) (pr_packets pr)) js) r0 = Inr r1 \<and>
            (pt_is_complete P r1 \<longleftrightarrow> enough js) \<and> (enough js \<longrightarrow> (\<exists>r2. pt_decode P r1 = Inr (b, r2))))))"

lemma baseline_ingest_all:
  fixes P :: "(baseline_protocol_state, 'r) protocol"
  assumes "wire_ok wc" "readable b" "bp_block r = None \<or> bp_block r = Some b" and P: "P = baseline_protocol wc"
  shows "\<exists>r1. ingest_all P n (replicate l (block_write wc b)) r = Inr r1 \<and>
    bp_block r1 = (if l = 0 then bp_block r else Some b)"
  using assms(3)
proof (induction l arbitrary: r)
  case (Suc l)
  have "block_decode wc (block_write wc b) = Inr b"
    using block_decode_write [OF assms(1)] assms(2) by (simp add: readable_def)
  then obtain r1 x where r1: "pt_ingest P r Data n (block_write wc b) = Inr (r1, x)"
    "bp_block r1 = Some b"
    using Suc.prems by (auto simp: P baseline_protocol_def)
  from Suc.IH [of r1] r1 show ?case by (auto simp: ingest_all_def)
qed (simp add: ingest_all_def)

lemma baseline_delivers:
  fixes rng :: 'r
  assumes wc: "wire_ok wc" and b: "readable b" "length (block_write wc b) < 2 ^ 64" and r: "bp_block r = None"
  shows "delivers (baseline_protocol wc) (\<lambda>js. js \<noteq> []) b k rng s r"
proof -
  let ?w = "block_write wc b" and ?P = "baseline_protocol wc :: (baseline_protocol_state, 'r) protocol"
  let ?r0 = "r\<lparr>bp_byte_len := length ?w\<rparr>"
  have sel: "map ((!) (replicate k ?w)) js = replicate (length js) ?w" if "set js \<subseteq> {..<k}" for js
    using that by (induction js) auto
  have "\<exists>r1. ingest_all ?P (bl_number b) (map ((!) (replicate k ?w)) js) ?r0 = Inr r1 \<and>
      (pt_is_complete ?P r1 \<longleftrightarrow> js \<noteq> []) \<and> (js \<noteq> [] \<longrightarrow> (\<exists>r2. pt_decode ?P r1 = Inr (b, r2)))"
    if "set js \<subseteq> {..<k}" for js
  proof -
    from baseline_ingest_all [OF wc b(1) _ refl, of ?r0 "bl_number b" "length js", where 'r = 'r] r obtain r1 where
      "ingest_all ?P (bl_number b) (replicate (length js) ?w) ?r0 = Inr r1"
      "bp_block r1 = (if js = [] then None else Some b)" by auto
    then show ?thesis
      unfolding sel [OF that] by (auto simp: baseline_protocol_def baseline_is_complete_def baseline_protocol_decode_def)
  qed
  moreover have "pt_ingest ?P r Announce (bl_number b) (encode_announcement (length ?w)) = Inr (?r0, Inr True)"
    using read_encode_announcement [OF b(2), of "[]"] by (simp add: baseline_protocol_def)
  ultimately show ?thesis
    unfolding delivers_def by (simp add: baseline_protocol_def baseline_propose_def Let_def)
qed

text \<open>A block that the nodes configured for \<open>block_size\<close> can carry, over libraries as documented.\<close>

definition deployable ::
  "('f::field, 'r) scalar_lib \<Rightarrow> ('f, 'g::ab_group_add, 'bk, 'bp, 'sig) pedersen_lib \<Rightarrow>
   ('f, 'g1::ab_group_add, 'g2::ab_group_add) bfkw_lib \<Rightarrow> nat \<Rightarrow> block \<Rightarrow> bool" where
  "deployable sl plib blib block_size b \<longleftrightarrow>
     scalar_lib_ok sl \<and> pedersen_lib_ok plib \<and> bfkw_codecs_ok blib \<and> readable b \<and>
     block_size + 100 < 2 ^ 64 \<and>
     length (block_write (sl_wire sl) b) < 2 ^ 64 \<and>
     elements_needed (pf_data_bytes (sl_pf sl)) (length (block_write (sl_wire sl) b))
       \<le> elements_needed 31 (block_size + 100)"

lemma deployable_fits:
  assumes "deployable sl plib blib block_size b" "compute_m block_size node_chunks = Inr m"
  shows "pedersen_fits (sl, plib, node_chunks, m, pk) b"
    "bfkw_keypair blib sk pk' \<Longrightarrow> bfkw_fits (sl, blib, node_chunks, m, pk') b"
  using assms(1) compute_m_fits [OF _ assms(2) order.refl]
  by (auto simp: compute_m_fits_usize_def deployable_def pedersen_fits_def bfkw_fits_def block_fits_def node_chunks_def)

lemma ready_delivers:
  fixes sl :: "('f::field, 'r) scalar_lib" and plib :: "('f, 'g::ab_group_add, 'bk, 'bp, 'sig) pedersen_lib"
    and blib :: "('f, 'g1::ab_group_add, 'g2::ab_group_add) bfkw_lib"
  assumes ready: "protocol_ready K sl plib blib strategy seed m 0 p0" "protocol_ready K sl plib blib strategy seed m i p"
    and b: "deployable sl plib blib block_size b" "compute_m block_size node_chunks = Inr m"
  shows "case (p0, p) of
      (BaselineNode s, BaselineNode r) \<Rightarrow> strategy = ''baseline'' \<and> delivers (baseline_protocol (sl_wire sl)) (\<lambda>js. js \<noteq> []) b k rng s r
    | (PedersenNode s, PedersenNode r) \<Rightarrow> strategy = ''pedersen'' \<and> delivers (pedersen_protocol sl plib node_chunks)
        (\<lambda>js. spans node_chunks (map ((!) (fst (random_matrix (sl_random sl) k node_chunks rng))) js)) b k rng s r
    | (BfkwNode s, BfkwNode r) \<Rightarrow> strategy = ''bfkw'' \<and> delivers (bfkw_protocol sl blib node_chunks)
        (\<lambda>js. spans node_chunks (filter (bfkw_signable (sl, blib, node_chunks, bk_m r, bk_proposer_pk r) b)
          (map ((!) (fst (random_matrix (sl_random sl) k node_chunks rng))) js))) b k rng s r
    | _ \<Rightarrow> False"
proof -
  define pk where "pk = kl_bls_public K (fst (kl_bls_random K (kl_from_seed K (proposer_seed seed))))"
  define gpk where "gpk = bs_pk (fst (bfkw_generate blib (sl_random sl) (kl_from_seed K (proposer_seed seed))))"
  note R = ready [unfolded protocol_ready_def Let_def, folded pk_def gpk_def]
  show ?thesis
  proof (cases p0)
    case (BaselineNode s)
    with R obtain r where "p = BaselineNode r" "strategy = ''baseline''"
      and s: "s = baseline_protocol_new" "r = baseline_protocol_new"
      by (cases p) auto
    moreover have "delivers (baseline_protocol (sl_wire sl)) (\<lambda>js. js \<noteq> []) b k rng s r"
      by (rule baseline_delivers)
         (use b(1) in \<open>simp_all add: s baseline_protocol_new_def deployable_def scalar_lib_ok_def packing_ok_def\<close>)
    ultimately show ?thesis using BaselineNode by simp
  next
    case (PedersenNode s)
    with R obtain r where p: "p = PedersenNode r" "strategy = ''pedersen''"
      and ok: "pedersen_idle (sl, plib, node_chunks, m, pk) s" "pedersen_proposer (sl, plib, node_chunks, m, pk) s"
        "pedersen_idle (sl, plib, node_chunks, m, pk) r"
      by (cases p) auto
    obtain B rng' where B: "random_matrix (sl_random sl) k node_chunks rng = (B, rng')" by force
    have "delivers (pedersen_protocol sl plib node_chunks) (\<lambda>js. spans node_chunks (map ((!) B) js)) b k rng s r"
      using pedersen_traced.proposal_spans [OF ok deployable_fits(1) [OF b], of k rng B rng'] B
      unfolding delivers_def by (simp cong: conj_cong) blast
    with PedersenNode p B show ?thesis by simp
  next
    case (BfkwNode s)
    with R obtain r where p: "p = BfkwNode r" "strategy = ''bfkw''"
      and ok: "bfkw_idle (sl, blib, node_chunks, m, gpk) s" "bfkw_proposer (sl, blib, node_chunks, m, gpk) s"
        "bfkw_idle (sl, blib, node_chunks, m, gpk) r"
      by (cases p) auto
    from ok(2) obtain sk where "bfkw_keypair blib sk gpk" by (auto simp: bfkw_proposer_def)
    note ft = deployable_fits(2) [OF b this]
    obtain B rng' where B: "random_matrix (sl_random sl) k node_chunks rng = (B, rng')" by force
    have r: "bk_m r = m" "bk_proposer_pk r = gpk" using ok(3) by (simp_all add: bfkw_idle_def)
    have "delivers (bfkw_protocol sl blib node_chunks)
        (\<lambda>js. spans node_chunks (filter (bfkw_signable (sl, blib, node_chunks, m, gpk) b) (map ((!) B) js))) b k rng s r"
      using bfkw_traced.proposal_spans [OF ok ft, of k rng B rng'] B
      unfolding delivers_def by (simp cong: conj_cong) blast
    with BfkwNode p B r show ?thesis by simp
  qed
qed

end
