(* ===== verification/Props_Deploy.thy ===== *)
theory Props_Deploy
  imports Boot_Facts Props_Node "HOL-Library.Countable"
begin

text \<open>
  What the generator of deployments and the node binary promise together: the networks it generates
  start.
\<close>

section \<open>Samples\<close>

definition hex_ex :: "bytes \<Rightarrow> string" where
  "hex_ex bs = concat (map (\<lambda>b. [digit (unat b div 100), digit (unat b div 10 mod 10), digit (unat b mod 10)]) bs)"

fun unhex_ex :: "string \<Rightarrow> bytes option" where
  "unhex_ex [] = Some []"
| "unhex_ex (a # b # c # r) =
     (case (parse_digit a, parse_digit b, parse_digit c) of
        (Some x, Some y, Some z) \<Rightarrow> map_option (\<lambda>bs. of_nat (100 * x + 10 * y + z) # bs) (unhex_ex r)
      | _ \<Rightarrow> None)"
| "unhex_ex _ = None"

lemma three_digits: "100 * (n div 100) + 10 * (n div 10 mod 10) + n mod 10 = (n::nat)"
proof -
  have "n div 100 = n div 10 div 10" by (simp add: div_mult2_eq [symmetric])
  then show ?thesis using div_mult_mod_eq [of n 10] div_mult_mod_eq [of "n div 10" 10] by linarith
qed

lemma unhex_hex: "unhex_ex (hex_ex bs) = Some bs"
proof (induction bs)
  case (Cons b bs)
  have "unat b < 256" using unsigned_less [of b, where 'a = nat] by simp
  then have "unat b div 100 < 10" by (simp add: less_mult_imp_div_less)
  moreover have "hex_ex (b # bs) = digit (unat b div 100) # digit (unat b div 10 mod 10) # digit (unat b mod 10) # hex_ex bs"
    by (simp add: hex_ex_def)
  ultimately show ?case
    using Cons by (simp only: unhex_ex.simps digit_parse option.case prod.case mod_less_divisor zero_less_numeral
        three_digits option.map of_nat_unat ucast_id)
qed (simp add: hex_ex_def)

text \<open>Ed25519 keys are numbers that are their own public keys; BLS keys are elements of the sample field.\<close>

definition gf_read :: "bytes \<Rightarrow> gf option" where
  "gf_read bs = (case bs of [hi, lo] \<Rightarrow> Some (mk_gf (unat hi * 256 + unat lo)) | _ \<Rightarrow> None)"

definition key_lib_ex :: "(nat, u64, u64, gf, gf) key_lib" where
  "key_lib_ex =
     \<lparr>kl_seed_from_u64 = unat, kl_from_seed = length, kl_hex_encode = hex_ex, kl_hex_decode = unhex_ex,
      kl_ed_random = (\<lambda>r. (of_nat r, Suc r)), kl_ed_public = (\<lambda>k. k),
      kl_ed_write = to_be_bytes, kl_ed_read = (\<lambda>bs. Some (from_be_bytes bs)),
      kl_ed_bytes = to_be_bytes, kl_ed_read_public = (\<lambda>bs. Some (from_be_bytes bs)),
      kl_bls_random = sl_random sl_ex, kl_bls_public = (\<lambda>k. k), kl_bls_bytes = cd_write gf_codec,
      kl_bls_read_public = gf_read\<rparr>"

definition boot_lib_ex :: "gf boot_lib" where
  "boot_lib_ex = \<lparr>bl_parse_v6 = (\<lambda>s. None), bl_hostname_ok = (\<lambda>s. s \<noteq> []), bl_g1_read = gf_read,
     bl_parse_level = (\<lambda>s. None)\<rparr>"

definition sig_codec_ex :: "gf codec" where
  "sig_codec_ex = \<lparr>cd_size = 2, cd_write = cd_write gf_codec,
     cd_read = (\<lambda>buf. case gf_read (take 2 buf) of None \<Rightarrow> Inl EndOfBuffer | Some x \<Rightarrow> Inr (x, drop 2 buf))\<rparr>"

definition signing_pedersen_ex :: "(gf, gf, gf, gf, gf) pedersen_lib" where
  "signing_pedersen_ex =
     \<lparr>pl_group = group_ex,
      pl_signer = \<lparr>sg_public_key = (\<lambda>k. k), sg_sign = (\<lambda>k _ _. k), sg_verify = (\<lambda>p _ _ s. s = p)\<rparr>,
      pl_gcodec = gf_codec, pl_scodec = sig_codec_ex, pl_u32 = pl_u32 pedersen_ex\<rparr>"

lemma gf_read_write_bytes: "gf_read (cd_write gf_codec x) = Some x"
proof -
  have "rep_gf x div 256 < 256" using rep_gf_lt [of x] by linarith
  then have "unat (of_nat (rep_gf x div 256) :: u8) * 256 + unat (of_nat (rep_gf x mod 256) :: u8) = rep_gf x"
    by (simp add: unat_byte)
  then show ?thesis by (simp only: gf_read_def gf_codec_def codec.simps list.case rep_gf_inverse)
qed

lemma key_lib_ex_ok: "key_lib_ok key_lib_ex" "boot_lib_ok boot_lib_ex"
  "bls_keys_agree key_lib_ex boot_lib_ex sl_ex signing_pedersen_ex bfkw_ex"
  by (simp_all add: key_lib_ok_def key_lib_ex_def unhex_hex gf_read_write_bytes boot_lib_ok_def boot_lib_ex_def
      bls_keys_agree_def signing_pedersen_ex_def bfkw_generate_def bfkw_ex_def group_ex_def case_prod_beta Let_def)

text \<open>A printer of YAML: the number of the value in an enumeration of all of them.\<close>

instance yaml :: countable by countable_datatype

definition yaml_lib_ex :: yaml_lib where
  "yaml_lib_ex = \<lparr>yl_print = (\<lambda>v. show_nat (to_nat v)), yl_read = (\<lambda>s. map_option from_nat (parse_digits 0 s))\<rparr>"

lemma yaml_lib_ex_ok: "yaml_lib_ok yaml_lib_ex"
  by (simp add: yaml_lib_ok_def yaml_lib_ex_def parse_digits_show)

lemma network_keys_ex: "distinct (map snd (network_keys key_lib_ex 5 42))"
proof -
  have "random_keys key_lib_ex 5 42 = map (\<lambda>r. (of_nat r, of_nat r)) [42, 43, 44, 45, 46]"
    by (simp add: numeral_eq_Suc key_lib_ex_def)
  then have "distinct (map snd (random_keys key_lib_ex 5 42))" by simp
  moreover have "mset (map snd (network_keys key_lib_ex 5 42)) = mset (map snd (random_keys key_lib_ex 5 42))"
    by (simp add: network_keys_def key_lib_ex_def)
  ultimately show ?thesis using mset_eq_imp_distinct_iff by blast
qed

section \<open>Networks on one machine\<close>

text \<open>
  C16: Generated local networks start. With libraries that read back what they write, distinct node keys
  and ports that fit 16 bits, every node of a network generated for this machine loads its files,
  listens on its own port, different from the port and the metrics port of every other node, finds each
  other node under the key and at the address that node has, and sets up the chosen protocol with the
  proposer's key; node 0 is the proposer and holds the key that belongs to it.
\<close>

theorem local_network_boots:
  fixes sl :: "('f::field, 'r) scalar_lib" and plib :: "('f, 'g::ab_group_add, 'bk, 'bp, 'sig) pedersen_lib"
    and blib :: "('f, 'g1::ab_group_add, 'g2::ab_group_add) bfkw_lib"
  assumes "key_lib_ok K" "yaml_lib_ok Y" "bls_keys_agree K B sl plib blib"
    and "distinct (map snd (network_keys K nodes seed))" "unat start_port + 2 * nodes \<le> 2 ^ 16"
    and "strategy \<in> {''baseline'', ''pedersen'', ''bfkw''}"
    and "block_size < 2 ^ 64" "mesh_degree < 2 ^ 64" "i < nodes"
  shows "let w = generate_local K Y nodes strategy block_size mesh_degree num_blocks start_port out seed old;
      key = (\<lambda>j. snd (network_keys K nodes seed ! j)); port = (\<lambda>j. unat start_port + 2 * j);
      others = filter (\<lambda>j. j \<noteq> i) [0..<nodes] in
    \<exists>c su m. node_boot K Y B sl plib blib (fs_read w) (node_file out i) (path_join out ''peers.yaml'')
        = Inr (c, su) \<and>
      tm_metrics_addr (su_telemetry su) = SocketV4 0 0 0 0 (port i + 1) \<and> pc_listen (su_p2p su) = SocketV4 0 0 0 0 (port i) \<and>
      pc_dialable (su_p2p su) = IngressSocket (SocketV4 127 0 0 1 (port i)) \<and>
      pc_bootstrappers (su_p2p su) = map (\<lambda>j. (key j, IngressSocket (SocketV4 127 0 0 1 (port j)))) others \<and>
      su_peer_pks su = map key others \<and> su_role su = (if i = 0 then Proposer else Receiver) \<and>
      compute_m block_size node_chunks = Inr m \<and>
      protocol_ready K sl plib blib strategy seed m i (su_protocol su)"
proof -
  let ?c = "local_config K strategy block_size mesh_degree num_blocks start_port out seed i
    (fst (network_keys K nodes seed ! i))"
  have "nc_metrics_port ?c = unat start_port + 2 * i + 1" "nc_port ?c = unat start_port + 2 * i"
    using unat_local_ports [of i nodes start_port] assms(5,9) by (simp_all add: local_config_def)
  with local_boots [where old = old and num_blocks = num_blocks and out = out, OF assms refl refl refl refl]
  show ?thesis unfolding Let_def setup_in_network_def
    by (intro exI [of _ ?c]) (simp split del: if_split)
qed


text \<open>The network \<open>deploy generate local\<close> writes, over the sample libraries: its second node boots.\<close>

theorem local_network_boots_witness:
  "\<exists>c su.
     node_boot key_lib_ex yaml_lib_ex boot_lib_ex sl_ex signing_pedersen_ex bfkw_ex
       (fs_read (deploy_main key_lib_ex yaml_lib_ex local_defaults
         \<lparr>wd_files = [], wd_dirs = [], wd_printed = []\<rparr>))
       (node_file ''/tmp/rlnc'' 1) (path_join ''/tmp/rlnc'' ''peers.yaml'') = Inr (c, su) \<and>
     tm_metrics_addr (su_telemetry su) = SocketV4 0 0 0 0 3003 \<and> pc_listen (su_p2p su) = SocketV4 0 0 0 0 3002 \<and>
     su_role su = Receiver \<and> length (su_peer_pks su) = 4"
proof -
  have len: "length (filter (\<lambda>j. j \<noteq> 1) [0..<5]) = 4" by (simp add: upt_conv_Cons)
  have small: "unat (3000 :: u16) + 2 * 5 \<le> 2 ^ 16" "''pedersen'' \<in> {''baseline'', ''pedersen'', ''bfkw''}"
    "(2000000 :: nat) < 2 ^ 64" "(8 :: nat) < 2 ^ 64" "(1 :: nat) < 5" by simp_all
  show ?thesis
    using local_network_boots [of key_lib_ex yaml_lib_ex boot_lib_ex sl_ex signing_pedersen_ex bfkw_ex 5 42 3000
      "''pedersen''" 2000000 8 1 5 "''/tmp/rlnc''" "\<lparr>wd_files = [], wd_dirs = [], wd_printed = []\<rparr>",
      OF key_lib_ex_ok(1) yaml_lib_ex_ok key_lib_ex_ok(3) network_keys_ex small]
    unfolding Let_def local_defaults_def deploy_main.simps
  proof (elim exE conjE, goal_cases)
    case (1 c su m)
    then show ?case by (intro exI [of _ c] exI [of _ su]) (simp only: length_map len, simp)
  qed
qed

section \<open>Networks of containers\<close>

text \<open>
  C31: Generated container networks start. Whatever the file system held before, and for every choice of
  the two ports, which all containers share, every node of a network generated for containers loads its
  files, listens on the shared port, announces its own container's name, finds each other node under the
  key and at the container name that node has, and sets up the chosen protocol as on one machine.
\<close>

theorem docker_network_boots:
  fixes sl :: "('f::field, 'r) scalar_lib" and plib :: "('f, 'g::ab_group_add, 'bk, 'bp, 'sig) pedersen_lib"
    and blib :: "('f, 'g1::ab_group_add, 'g2::ab_group_add) bfkw_lib"
  assumes "key_lib_ok K" "yaml_lib_ok Y" "bls_keys_agree K B sl plib blib" "boot_lib_ok B"
    and "distinct (map snd (network_keys K nodes seed))"
    and "strategy \<in> {''baseline'', ''pedersen'', ''bfkw''}"
    and "block_size < 2 ^ 64" "mesh_degree < 2 ^ 64" "i < nodes"
  shows "let w = generate_docker K Y nodes strategy block_size mesh_degree num_blocks p2p_port metrics_port
        out seed interval delay monitoring old;
      key = (\<lambda>j. snd (network_keys K nodes seed ! j));
      addr = (\<lambda>j. IngressDns (''node-'' @ show_nat j) (unat p2p_port));
      others = filter (\<lambda>j. j \<noteq> i) [0..<nodes] in
    \<exists>c su m. node_boot K Y B sl plib blib (fs_read w) (node_file out i) (path_join out ''peers.yaml'')
        = Inr (c, su) \<and>
      tm_metrics_addr (su_telemetry su) = SocketV4 0 0 0 0 (unat metrics_port) \<and> pc_listen (su_p2p su) = SocketV4 0 0 0 0 (unat p2p_port) \<and>
      pc_dialable (su_p2p su) = addr i \<and>
      pc_bootstrappers (su_p2p su) = map (\<lambda>j. (key j, addr j)) others \<and>
      su_peer_pks su = map key others \<and> su_role su = (if i = 0 then Proposer else Receiver) \<and>
      compute_m block_size node_chunks = Inr m \<and>
      protocol_ready K sl plib blib strategy seed m i (su_protocol su)"
proof -
  let ?c = "docker_config K strategy block_size mesh_degree num_blocks p2p_port metrics_port seed interval delay i
    (fst (network_keys K nodes seed ! i))"
  have "nc_metrics_port ?c = unat metrics_port" "nc_port ?c = unat p2p_port" by (simp_all add: docker_config_def)
  with docker_boots [where old = old and num_blocks = num_blocks and out = out and p2p_port = p2p_port
      and metrics_port = metrics_port and interval = interval and delay = delay and monitoring = monitoring, OF assms refl refl refl refl]
  show ?thesis unfolding Let_def setup_in_network_def
    by (intro exI [of _ ?c]) (simp split del: if_split)
qed

theorem docker_network_boots_witness:
  "\<exists>c su.
     node_boot key_lib_ex yaml_lib_ex boot_lib_ex sl_ex signing_pedersen_ex bfkw_ex
       (fs_read (deploy_main key_lib_ex yaml_lib_ex (Docker 5 ''bfkw'' 1000 3 10 3000 9090 ''out'' 42 5 10 True)
         \<lparr>wd_files = [(''out/node-7.yaml'', [])], wd_dirs = [], wd_printed = []\<rparr>))
       (node_file ''out'' 0) (path_join ''out'' ''peers.yaml'') = Inr (c, su) \<and>
     pc_dialable (su_p2p su) = IngressDns ''node-0'' 3000 \<and> tm_metrics_addr (su_telemetry su) = SocketV4 0 0 0 0 9090 \<and>
     su_role su = Proposer \<and> length (su_peer_pks su) = 4"
proof -
  have len: "length (filter (\<lambda>j. j \<noteq> 0) [0..<5]) = 4" by (simp add: upt_conv_Cons)
  have name: "show_nat 0 = ''0''" by (subst show_nat.simps) (simp add: digit_def, code_simp)
  have small: "''bfkw'' \<in> {''baseline'', ''pedersen'', ''bfkw''}"
    "(1000 :: nat) < 2 ^ 64" "(3 :: nat) < 2 ^ 64" "(0 :: nat) < 5" by simp_all
  show ?thesis
    using docker_network_boots [of key_lib_ex yaml_lib_ex boot_lib_ex sl_ex signing_pedersen_ex bfkw_ex 5 42
      "''bfkw''" 1000 3 0 10 3000 9090 "''out''" 5 10 True
      "\<lparr>wd_files = [(''out/node-7.yaml'', [])], wd_dirs = [], wd_printed = []\<rparr>",
      OF key_lib_ex_ok(1) yaml_lib_ex_ok key_lib_ex_ok(3) key_lib_ex_ok(2) network_keys_ex small]
    unfolding Let_def deploy_main.simps
  proof (elim exE conjE, goal_cases)
    case (1 c su m)
    then show ?case
      by (intro exI [of _ c] exI [of _ su]) (simp only: length_map len name, simp)
  qed
qed

section \<open>From files to blocks\<close>

text \<open>
  C11: A generated network delivers blocks. Boot the proposer and any node from the files generated for
  this machine, with any of the three strategies: the two run the same protocol, and for every block
  whose encoding has at most \<open>block_size + 100\<close> bytes (31 to a scalar; \<open>block_size + 100\<close> below \<open>2 ^ 64\<close>) the
  proposer's proposal of \<open>k\<close> packets succeeds, the node accepts its announcement and ingests any selection
  of the packets, in any order and with repetitions, without a panic. It is then complete exactly when the
  selection is enough, and if it is, it decodes the proposed block. Enough is one packet with the
  baseline; with RLNC + Pedersen, that the coefficient vectors which the proposer's generator drew for
  the packets span; with BFKW, that those of the packets whose signature is not the identity do.
\<close>

theorem deployed_network_delivers:
  fixes sl :: "('f::field, 'r) scalar_lib" and plib :: "('f, 'g::ab_group_add, 'bk, 'bp, 'sig) pedersen_lib"
    and blib :: "('f, 'g1::ab_group_add, 'g2::ab_group_add) bfkw_lib"
  assumes "key_lib_ok K" "yaml_lib_ok Y" "bls_keys_agree K B sl plib blib"
    and "distinct (map snd (network_keys K nodes seed))" "unat start_port + 2 * nodes \<le> 2 ^ 16"
    and "strategy \<in> {''baseline'', ''pedersen'', ''bfkw''}"
    and "block_size < 2 ^ 64" "mesh_degree < 2 ^ 64" "i < nodes"
    and "deployable sl plib blib block_size b"
  shows "let w = generate_local K Y nodes strategy block_size mesh_degree num_blocks start_port out seed old;
      boot = (\<lambda>j. node_boot K Y B sl plib blib (fs_read w) (node_file out j) (path_join out ''peers.yaml'')) in
    \<exists>c0 su0 c su. boot 0 = Inr (c0, su0) \<and> boot i = Inr (c, su) \<and>
      (case (su_protocol su0, su_protocol su) of
         (BaselineNode s, BaselineNode r) \<Rightarrow>
           strategy = ''baseline'' \<and> delivers (baseline_protocol (sl_wire sl)) (\<lambda>js. js \<noteq> []) b k rng s r
       | (PedersenNode s, PedersenNode r) \<Rightarrow>
           strategy = ''pedersen'' \<and> delivers (pedersen_protocol sl plib node_chunks)
             (\<lambda>js. spans node_chunks (map ((!) (fst (random_matrix (sl_random sl) k node_chunks rng))) js)) b k rng s r
       | (BfkwNode s, BfkwNode r) \<Rightarrow>
           strategy = ''bfkw'' \<and> delivers (bfkw_protocol sl blib node_chunks)
             (\<lambda>js. spans node_chunks (filter (bfkw_signable (sl, blib, node_chunks, bk_m r, bk_proposer_pk r) b)
               (map ((!) (fst (random_matrix (sl_random sl) k node_chunks rng))) js))) b k rng s r
       | _ \<Rightarrow> False)"
proof -
  let ?w = "generate_local K Y nodes strategy block_size mesh_degree num_blocks start_port out seed old"
  let ?c = "\<lambda>i. local_config K strategy block_size mesh_degree num_blocks start_port out seed i
    (fst (network_keys K nodes seed ! i))"
  have "0 < nodes" using assms(9) by simp
  note boots = local_boots [where old = old and num_blocks = num_blocks and out = out, OF assms(1-8) _ refl refl refl refl]
  from boots [OF \<open>0 < nodes\<close>] obtain su0 m where
    b0: "node_boot K Y B sl plib blib (fs_read ?w) (node_file out 0) (path_join out ''peers.yaml'') = Inr (?c 0, su0)"
    and m: "compute_m block_size node_chunks = Inr m"
    and r0: "protocol_ready K sl plib blib strategy seed m 0 (su_protocol su0)"
    by (elim exE conjE) (rule that)
  from boots [OF assms(9)] m obtain su where
    b: "node_boot K Y B sl plib blib (fs_read ?w) (node_file out i) (path_join out ''peers.yaml'') = Inr (?c i, su)"
    and r: "protocol_ready K sl plib blib strategy seed m i (su_protocol su)"
    by auto
  show ?thesis
    unfolding Let_def using b0 b ready_delivers [OF r0 r assms(10) m, of k rng]
    by (intro exI [of _ "?c 0"] exI [of _ su0] exI [of _ "?c i"] exI [of _ su]) simp
qed

lemma deployable_ex:
  "deployable sl_ex signing_pedersen_ex bfkw_ex 2000000 (block_ex n)"
proof -
  have two: "length (cd_write gf_codec x) = 2" for x by (simp add: gf_codec_def)
  then have "take 2 (cd_write gf_codec x @ rest) = cd_write gf_codec x"
    "drop 2 (cd_write gf_codec x @ rest) = rest" for x rest by simp_all
  with two have "(\<forall>s. length (cd_write sig_codec_ex s) = cd_size sig_codec_ex) \<and>
      (\<forall>s rest. cd_read sig_codec_ex (cd_write sig_codec_ex s @ rest) = Inr (s, rest))"
    by (simp add: sig_codec_ex_def gf_read_write_bytes)
  then have "pedersen_lib_ok signing_pedersen_ex"
    using pedersen_ex_ok gf_codec_ok group_ex_ok
    by (simp add: pedersen_lib_ok_def pedersen_codecs_ok_def signing_pedersen_ex_def signer_ok_def)
  then show ?thesis
    by (simp add: deployable_def sl_ex_ok bfkw_ex_ok block_ex_readable block_ex_length_sl)
       (simp add: elements_needed_def sl_ex_def gf_packable_def)
qed

theorem deployed_network_delivers_witness:
  "\<exists>c0 su0 c su s r.
     node_boot key_lib_ex yaml_lib_ex boot_lib_ex sl_ex signing_pedersen_ex bfkw_ex
       (fs_read (deploy_main key_lib_ex yaml_lib_ex local_defaults \<lparr>wd_files = [], wd_dirs = [], wd_printed = []\<rparr>))
       (node_file ''/tmp/rlnc'' 0) (path_join ''/tmp/rlnc'' ''peers.yaml'') = Inr (c0, su0) \<and>
     node_boot key_lib_ex yaml_lib_ex boot_lib_ex sl_ex signing_pedersen_ex bfkw_ex
       (fs_read (deploy_main key_lib_ex yaml_lib_ex local_defaults \<lparr>wd_files = [], wd_dirs = [], wd_printed = []\<rparr>))
       (node_file ''/tmp/rlnc'' 4) (path_join ''/tmp/rlnc'' ''peers.yaml'') = Inr (c, su) \<and>
     su_protocol su0 = PedersenNode s \<and> su_protocol su = PedersenNode r \<and>
     delivers (pedersen_protocol sl_ex signing_pedersen_ex node_chunks)
       (\<lambda>js. spans node_chunks (map ((!) (fst (random_matrix (sl_random sl_ex) 15 node_chunks 1))) js)) (block_ex 7) 15 1 s r"
proof -
  have small: "unat (3000 :: u16) + 2 * 5 \<le> 2 ^ 16" "''pedersen'' \<in> {''baseline'', ''pedersen'', ''bfkw''}"
    "(2000000 :: nat) < 2 ^ 64" "(8 :: nat) < 2 ^ 64" "(4 :: nat) < 5" by simp_all
  show ?thesis
    using deployed_network_delivers [of key_lib_ex yaml_lib_ex boot_lib_ex sl_ex signing_pedersen_ex bfkw_ex 5 42 3000
      "''pedersen''" 2000000 8 4 "block_ex 7" 5 "''/tmp/rlnc''" "\<lparr>wd_files = [], wd_dirs = [], wd_printed = []\<rparr>" 15 1,
      OF key_lib_ex_ok(1) yaml_lib_ex_ok key_lib_ex_ok(3) network_keys_ex small deployable_ex]
    unfolding Let_def local_defaults_def deploy_main.simps
  proof (elim exE conjE, goal_cases)
    case (1 c0 su0 c su)
    from 1(3) obtain s r where "su_protocol su0 = PedersenNode s" "su_protocol su = PedersenNode r"
      "delivers (pedersen_protocol sl_ex signing_pedersen_ex node_chunks)
        (\<lambda>js. spans node_chunks (map ((!) (fst (random_matrix (sl_random sl_ex) 15 node_chunks 1))) js)) (block_ex 7) 15 1 s r"
      by (auto split: node_protocol.splits)
    with 1(1,2) show ?case by blast
  qed
qed

section \<open>The receiver binary\<close>

text \<open>
  C20: A receiver of a generated network runs. Started on its files with RLNC + Pedersen and fed any
  sequence of honest messages about blocks that fit, in any order, early, late or repeated, the
  binary of every node but the proposer loads, runs and ends without an abort, and any property \<open>W\<close> of
  the network that honest sends keep still holds at the end.
\<close>

theorem deployed_receiver_runs:
  fixes sl :: "('f::field, 'r) scalar_lib" and plib :: "('f, 'g::ab_group_add, 'bk, 'bp, 'sig) pedersen_lib"
    and blib :: "('f, 'g1::ab_group_add, 'g2::ab_group_add) bfkw_lib" and NL :: "('ep, 'w, 'r) net_lib"
    and K :: "('r, 'ek, 'ep, 'bk, 'bp) key_lib" and W :: "'w \<Rightarrow> bool"
  assumes "key_lib_ok K" "yaml_lib_ok Y" "bls_keys_agree K B sl plib blib"
    and "distinct (map snd (network_keys K nodes seed))" "unat start_port + 2 * nodes \<le> 2 ^ 16"
    and "block_size < 2 ^ 64" "mesh_degree < 2 ^ 64" "0 < i" "i < nodes"
    and "compute_m block_size node_chunks = Inr m"
    and "pk = kl_bls_public K (fst (kl_bls_random K (kl_from_seed K (proposer_seed seed))))"
    and "\<And>n. deployable sl plib blib block_size (Bs n) \<and> bl_number (Bs n) = n"
    and "sends_keep (pedersen_message (sl, plib, node_chunks, m, pk) Bs) W
      (env_of NL (pedersen_protocol sl plib node_chunks))" "W w"
    and "\<forall>ch sender msg. Received ch sender msg \<in> set evs \<longrightarrow> 8 \<le> length msg \<longrightarrow>
      pedersen_message (sl, plib, node_chunks, m, pk) Bs (from_be_bytes (take 8 msg)) ch (drop 8 msg)"
  shows "\<exists>a. node_main K Y B sl plib blib NL
      (fs_read (generate_local K Y nodes ''pedersen'' block_size mesh_degree num_blocks start_port out seed old))
      (node_file out i) (path_join out ''peers.yaml'') evs w = Some (Inr (PedersenEnd a)) \<and> W (na_net a)"
proof -
  let ?c = "local_config K ''pedersen'' block_size mesh_degree num_blocks start_port out seed i
    (fst (network_keys K nodes seed ! i))"
  let ?P = "pedersen_protocol sl plib node_chunks"
  have "''pedersen'' \<in> {''baseline'', ''pedersen'', ''bfkw''}" by simp
  from local_boots [where old = old and num_blocks = num_blocks and out = out, OF assms(1-5) this assms(6,7,9) refl refl refl refl]
    assms(8,10)
  obtain su where boot: "node_boot K Y B sl plib blib
      (fs_read (generate_local K Y nodes ''pedersen'' block_size mesh_degree num_blocks start_port out seed old))
      (node_file out i) (path_join out ''peers.yaml'') = Inr (?c, su)"
    and role: "su_role su = Receiver"
    and ready: "protocol_ready K sl plib blib ''pedersen'' seed m i (su_protocol su)"
    by (auto simp: setup_in_network_def)
  from ready obtain p where p: "su_protocol su = PedersenNode p"
    and idle: "pedersen_idle (sl, plib, node_chunks, m, pk) p"
    unfolding protocol_ready_def Let_def assms(11) by (cases "su_protocol su") auto
  let ?a = "node_actor_new p w (su_peer_pks su) (nc_mesh_degree ?c) (kl_seed_from_u64 K (of_nat (nc_seed ?c))) metrics_default"
  have E: "ae_protocol (env_of NL ?P) = (case (sl, plib, node_chunks, m, pk) of (sl, lib, N, m, pk) \<Rightarrow> pedersen_protocol sl lib N)"
    by (simp add: env_of_def)
  have fits: "pedersen_fits (sl, plib, node_chunks, m, pk) (Bs n) \<and> bl_number (Bs n) = n" for n
    using deployable_fits(1) [OF conjunct1 [OF assms(12) [of n]] assms(10)] assms(12) [of n] by simp
  from pedersen_node.fresh_receiver_honest [where num_blocks = "of_nat (nc_num_blocks ?c)"
      and peers = "su_peer_pks su" and degree = "nc_mesh_degree ?c" and rng = "kl_seed_from_u64 K (of_nat (nc_seed ?c))"
      and mt = metrics_default, OF E assms(13) fits idle assms(14,15)]
  obtain r a dc where "run_receiver (env_of NL ?P) (of_nat (nc_num_blocks ?c)) evs ?a 0 = Inr (r, a, dc)" "W (na_net a)"
    by (elim exE conjE) (rule that)
  then show ?thesis
    using boot role p by (simp add: node_main_def node_run_def run_actor_def Let_def)
qed

text \<open>The P2P library of the witness logs what is sent and reaches the peer with key 43.\<close>

definition net_ex :: "(u64, (channel \<times> bytes) list, nat) net_lib" where
  "net_ex = \<lparr>nl_send = (\<lambda>w ch to msg prio. (Some [43], (ch, msg) # w)),
     nl_shuffle = (\<lambda>xs r. (rev xs, Suc r)), nl_random_byte = (\<lambda>r. (of_nat r, Suc r)),
     nl_fill = (\<lambda>r. (replicate 32 (of_nat r), Suc r))\<rparr>"

lemma net_ex_keep: "sends_keep hm (log_ok hm) (env_of net_ex P)"
  by (auto simp: sends_keep_def env_of_def net_ex_def log_ok_def)

theorem deployed_receiver_runs_witness:
  "\<exists>a. node_main key_lib_ex yaml_lib_ex boot_lib_ex sl_ex signing_pedersen_ex bfkw_ex net_ex
      (fs_read (deploy_main key_lib_ex yaml_lib_ex local_defaults \<lparr>wd_files = [], wd_dirs = [], wd_printed = []\<rparr>))
      (node_file ''/tmp/rlnc'' 1) (path_join ''/tmp/rlnc'' ''peers.yaml'')
      [Received Announce 43 [], Received Announce 43
        (to_be_bytes 0 @ encode_announcement (length (block_write (sl_wire sl_ex) (block_ex 0)))), Closed Data] []
      = Some (Inr (PedersenEnd a)) \<and>
    log_ok (pedersen_message (sl_ex, signing_pedersen_ex, node_chunks, 6452,
      kl_bls_public key_lib_ex (fst (kl_bls_random key_lib_ex (kl_from_seed key_lib_ex (proposer_seed 42))))) block_ex)
      (na_net a)"
  unfolding local_defaults_def deploy_main.simps
proof (rule deployed_receiver_runs [OF key_lib_ex_ok(1) yaml_lib_ex_ok key_lib_ex_ok(3) network_keys_ex
      _ _ _ _ _ _ refl _ net_ex_keep])
  show "compute_m 2000000 node_chunks = Inr 6452" by (simp add: compute_m_def div_ceil_def node_chunks_def)
  show "deployable sl_ex signing_pedersen_ex bfkw_ex 2000000 (block_ex n) \<and> bl_number (block_ex n) = n" for n
    using deployable_ex by simp
qed (auto simp: log_ok_def honest_message_def)

end
