(* ===== verification/Tests_Types.thy ===== *)
theory Tests_Types
  imports Tests_Pipeline Protocol
begin

text \<open>
  The tests of the crates' roots and of the data types: the encoding and decoding cycle of
  \<open>primitives/math/src/lib.rs\<close>, the pipeline of \<open>primitives/types/src/lib.rs\<close>, the tests of
  \<open>block.rs\<close> and \<open>util.rs\<close>, and those of \<open>strategy/core/src/proof.rs\<close>. The round trips pass for
  lawful codecs; the tests that draw coefficients pass exactly when these span.
\<close>

section \<open>The cycle without commitments\<close>

definition cycle_encode ::
  "('r \<Rightarrow> 'f::field \<times> 'r) \<Rightarrow> nat \<Rightarrow> 'f list list \<Rightarrow> nat \<Rightarrow> 'f list list \<times> 'f list list \<times> 'r \<Rightarrow>
   ('f list list \<times> 'f list list \<times> 'r) test" where
  "cycle_encode random n b _ = (\<lambda>(coded_data, coded_coeffs, rng).
     let (coeffs, rng) = random_coefficients random n rng; chunk_refs = b in
     bindR (call (linear_combination chunk_refs coeffs)) (\<lambda>coded.
     Inr (coded_data @ [coded], coded_coeffs @ [coeffs], rng)))"

definition cycle_feed ::
  "'f::field list list \<Rightarrow> 'f list list \<Rightarrow> nat \<Rightarrow> 'f incremental_echelon \<times> 'f list list \<times> nat \<Rightarrow>
   ('f incremental_echelon \<times> 'f list list \<times> nat) test" where
  "cycle_feed coded_data coded_coeffs i = (\<lambda>(ech, selected_data, count).
     bindR (call (idx coded_coeffs i)) (\<lambda>row.
     bindR (call (ie_add_row ech row)) (\<lambda>(ech, added).
     if added
     then bindR (call (idx coded_data i)) (\<lambda>d. Inr (ech, selected_data @ [d], count + 1))
     else Inr (ech, selected_data, count))))"

definition rlnc_encode_decode_cycle :: "('r \<Rightarrow> 'f::field \<times> 'r) \<Rightarrow> (u64 \<Rightarrow> 'r) \<Rightarrow> unit test" where
  "rlnc_encode_decode_cycle random seed =
     (let n = 8; m = 16; k = 12; (b, rng) = random_matrix random n m (seed 2025) in
      bindR (foldR (cycle_encode random n b) [0..<k] ([], [], rng)) (\<lambda>(coded_data, coded_coeffs, rng).
      bindR (until (\<lambda>(ech, selected_data, count). count = n) (cycle_feed coded_data coded_coeffs)
          [0..<k] (ie_new n, [], 0)) (\<lambda>(ech, selected_data, count).
      check (ie_is_full ech)
       (bindR (call (ie_inverse ech)) (\<lambda>inv.
        foldR (\<lambda>i _. let data_refs = selected_data in
          bindR (call (idx inv i)) (\<lambda>row.
          bindR (call (linear_combination data_refs row)) (\<lambda>recovered.
          bindR (call (idx b i)) (\<lambda>v. check (recovered = v) (Inr ()))))) [0..<n] ())))))"

lemma cycle_encode_loop:
  assumes V: "originals N m V" and N: "0 < N" and B: "random_matrix random k N rng = (B, rng')"
  shows "\<exists>cs. foldR (cycle_encode random N V) [i..<i + k] (D, C, rng)
      = Inr (D @ map (\<lambda>c. chunk_v (cc_w c)) cs, C @ B, rng') \<and>
    (\<forall>c \<in> set cs. coded_by N m V c) \<and> map cc_b cs = B"
  using B
proof (induction k arbitrary: i D C rng B)
  case 0
  then show ?case by (simp add: random_matrix_def)
next
  case (Suc k)
  obtain b rng1 where b: "draw_n random N rng = (b, rng1)" by force
  with Suc.prems obtain B' where B': "B = b # B'" "random_matrix random k N rng1 = (B', rng')"
    by (auto simp: random_matrix_Suc split: prod.splits)
  have lb: "length b = N" using b length_draw_n [of random N rng] by simp
  let ?c = "\<lparr>cc_w = \<lparr>chunk_v = map (comb ((!) b) V) [0..<m]\<rparr>, cc_b = b\<rparr>"
  have "linear_combination V b = Inr (map (comb ((!) b) V) [0..<m])"
    by (rule linear_combination_comb) (use V N lb in \<open>auto simp: originals_def\<close>)
  then have one: "cycle_encode random N V i (D, C, rng) = Inr (D @ [chunk_v (cc_w ?c)], C @ [b], rng1)"
    by (simp add: cycle_encode_def random_coefficients_def b)
  have c: "coded_by N m V ?c" by (simp add: coded_by_def lb)
  from Suc.IH [OF B'(2), of "Suc i" "D @ [chunk_v (cc_w ?c)]" "C @ [b]"] obtain cs where
    cs: "foldR (cycle_encode random N V) [Suc i..<Suc i + k] (D @ [chunk_v (cc_w ?c)], C @ [b], rng1)
      = Inr ((D @ [chunk_v (cc_w ?c)]) @ map (\<lambda>c. chunk_v (cc_w c)) cs, (C @ [b]) @ B', rng')"
    "\<forall>c \<in> set cs. coded_by N m V c" "map cc_b cs = B'" by blast
  have "[i..<i + Suc k] = i # [Suc i..<Suc i + k]" by (simp add: upt_conv_Cons del: upt_Suc)
  with cs c B'(1) one show ?case by (intro exI [of _ "?c # cs"]) simp
qed

text \<open>Feeding the rows to the tracker is feeding the chunks to a decoder.\<close>

lemma cycle_feed_decoder:
  assumes fw: "fed_with N m V (take i cs) d" and i: "i < length cs" and c: "coded_by N m V (cs ! i)"
    and room: "length (bd_coded_chunks d) \<noteq> N"
  shows "\<exists>d'. cycle_feed (map (\<lambda>c. chunk_v (cc_w c)) cs) (map cc_b cs) i
      (bd_echelon d, map (\<lambda>c. chunk_v (cc_w c)) (bd_coded_chunks d), length (bd_coded_chunks d))
    = Inr (bd_echelon d', map (\<lambda>c. chunk_v (cc_w c)) (bd_coded_chunks d'), length (bd_coded_chunks d')) \<and>
    fed_with N m V (take (Suc i) cs) d'"
proof -
  have wf: "bd_wf N d" using fw honest_wf by (auto simp: fed_with_def)
  with room bd_wf_complete have "\<not> ie_is_full (bd_echelon d)" by (auto simp: bd_is_complete_def)
  moreover from fed_with_add [OF fw c] obtain d' r where
    d': "bd_add d (cs ! i) = Inr (d', r)" "fed_with N m V (take i cs @ [cs ! i]) d'" by blast
  ultimately obtain ech where r: "ie_add_row (bd_echelon d) (cc_b (cs ! i)) = Inr (ech, r)"
    and "d' = (if r then d\<lparr>bd_echelon := ech, bd_coded_chunks := bd_coded_chunks d @ [cs ! i]\<rparr>
      else d\<lparr>bd_echelon := ech\<rparr>)"
    by (auto simp: bd_add_def bindR_eq_Inr split: if_splits)
  then show ?thesis
    using i d'(2) by (intro exI [of _ d']) (simp add: cycle_feed_def take_Suc_conv_app_nth)
qed

lemma rlnc_encode_decode_cycle_passes:
  assumes V: "random_matrix random 8 16 (seed 2025) = (V, rng1)"
    and B: "random_matrix random 12 8 rng1 = (B, rng2)"
  shows "rlnc_encode_decode_cycle random seed = (if spans 8 B then Inr () else Inl AssertionFailed)"
proof -
  have o: "originals 8 16 V" using random_originals [OF V] by simp
  let ?w = "\<lambda>cs. map (\<lambda>c. chunk_v (cc_w c)) cs"
  let ?st = "\<lambda>d. (bd_echelon d, ?w (bd_coded_chunks d), length (bd_coded_chunks d))"
  from cycle_encode_loop [OF o _ B, of 0 "[]" "[]"] obtain cs where
    enc: "foldR (cycle_encode random 8 V) [0..<12] ([], [], rng1) = Inr (?w cs, B, rng2)"
    and cs: "\<forall>c \<in> set cs. coded_by 8 16 V c" "map cc_b cs = B" by auto
  have len: "length cs = 12" using cs(2) random_matrix_size(1) [OF B] by (metis length_map)
  let ?I = "\<lambda>i s. \<exists>d. s = ?st d \<and> fed_with 8 16 V (take i cs) d"
  let ?full = "\<lambda>(ech, selected_data, count). count = (8 :: nat)"
  have "\<exists>s k. until ?full (cycle_feed (?w cs) (map cc_b cs)) (drop 0 [0..<12]) (?st (bd_new 8)) = Inr s \<and>
      k \<le> length [0..<12] \<and> ?I k s \<and> (?full s \<or> k = length [0..<12])"
  proof (rule until_steps)
    show "?I 0 (?st (bd_new 8))" using fed_with_new by (intro exI [of _ "bd_new 8"]) simp
    show "\<not> ?full (?st (bd_new 8))" by (simp add: bd_new_def)
  next
    fix i s assume i: "i < length [0..<12]" and "?I i s" and nf: "\<not> ?full s"
    then obtain d where s: "s = ?st d" "fed_with 8 16 V (take i cs) d" by blast
    have "i < length cs" "coded_by 8 16 V (cs ! i)" using i cs(1) len by auto
    from cycle_feed_decoder [OF s(2) this] nf i s(1)
    show "\<exists>s'. cycle_feed (?w cs) (map cc_b cs) ([0..<12] ! i) s = Inr s' \<and> ?I (Suc i) s'" by auto
  qed simp
  then obtain d k where
    run: "until ?full (cycle_feed (?w cs) B) [0..<12] (ie_new 8, [], 0) = Inr (?st d)"
    and d: "fed_with 8 16 V (take k cs) d" and stop: "length (bd_coded_chunks d) = 8 \<or> length cs \<le> k"
    by (auto simp: cs(2) bd_new_def len)
  have h: "honest 8 16 V d" using d by (simp add: fed_with_def)
  have full: "ie_is_full (bd_echelon d) \<longleftrightarrow> spans 8 B"
    using complete_prefix [where ?cs0.0 = "[]", simplified, OF d] stop bd_wf_complete [OF honest_wf [OF h]] cs(2)
    by (simp add: bd_is_complete_def)
  show ?thesis
  proof (cases "spans 8 B")
    case True
    with full have "bd_is_complete d" by (simp add: bd_is_complete_def)
    from inverse_recovers [OF o h this] obtain inv where
      inv: "ie_inverse (bd_echelon d) = Inr inv" "length inv = 8"
        "\<And>i. i < 8 \<Longrightarrow> linear_combination (?w (bd_coded_chunks d)) (inv ! i) = Inr (V ! i)" by blast
    have lV: "length V = 8" using o by (simp add: originals_def)
    have "foldR (\<lambda>i _. bindR (call (idx inv i)) (\<lambda>row.
        bindR (call (linear_combination (?w (bd_coded_chunks d)) row)) (\<lambda>recovered.
        bindR (call (idx V i)) (\<lambda>v. check (recovered = v) (Inr ()))))) [0..<8] () = Inr ()"
      by (rule foldR_Inr_unit) (use inv(2,3) lV in simp)
    with True full V enc run inv(1) show ?thesis
      by (simp add: rlnc_encode_decode_cycle_def Let_def)
  next
    case False
    with full V enc run show ?thesis by (simp add: rlnc_encode_decode_cycle_def Let_def)
  qed
qed

section \<open>Blocks\<close>

definition pipeline_block :: block where
  "pipeline_block =
     \<lparr>bl_parent_hash = replicate 32 0x11, bl_number = 100, bl_timestamp = 1700000000,
      bl_gas_used = 12000000, bl_gas_limit = 30000000, bl_state_root = replicate 32 0x22,
      bl_transactions = map (\<lambda>i. of_nat (i mod 256)) [0..<300]\<rparr>"

definition full_pipeline :: "('f::field, 'r) scalar_lib \<Rightarrow> (u64 \<Rightarrow> 'r) \<Rightarrow> unit test" where
  "full_pipeline sl seed =
     (let M = 16; N = 4; k = 6;
          b = pipeline_block in
      bindR (call (encode_chunks (sl_wire sl) (sl_pf sl) (sl_random sl) N M k b (seed 2025)))
        (\<lambda>((coded_chunks, byte_len), rng).
      bindR (until bd_is_complete (check_and_add (\<lambda>_. Inr ())) coded_chunks (bd_new N)) (\<lambda>decoder.
      check (bd_is_complete decoder) (recovers sl N b byte_len decoder))))"

definition codec_roundtrip :: "wire \<Rightarrow> unit test" where
  "codec_roundtrip wc =
     (let b = sample_block; encoded = block_write wc b in
      bindR (unwrap (block_decode wc encoded)) (\<lambda>decoded. check (block_eq b decoded) (Inr ())))"

definition as_chunks_from_chunks_roundtrip :: "('f::field, 'r) scalar_lib \<Rightarrow> unit test" where
  "as_chunks_from_chunks_roundtrip sl =
     (let b = sample_block in
      bindR (call (as_chunks (sl_wire sl) (sl_pf sl) 8 16 b)) (\<lambda>(chunks, byte_len).
      check (length chunks = 8)
       (bindR (foldR (\<lambda>c _. check (length (chunk_v c) = 16) (Inr ())) chunks ()) (\<lambda>_.
        bindR (call (from_chunks (sl_wire sl) (sl_pf sl) 8 chunks byte_len)) (\<lambda>recovered.
        check (block_eq b recovered) (Inr ()))))))"

definition encode_decode_roundtrip :: "('f::field, 'r) scalar_lib \<Rightarrow> (u64 \<Rightarrow> 'r) \<Rightarrow> unit test" where
  "encode_decode_roundtrip sl seed =
     (let b = sample_block; M = 16; N = 8; k = 12 in
      bindR (call (encode_chunks (sl_wire sl) (sl_pf sl) (sl_random sl) N M k b (seed 42)))
        (\<lambda>((coded_chunks, byte_len), rng).
      check (length coded_chunks = k)
       (bindR (until bd_is_complete (check_and_add (\<lambda>_. Inr ())) coded_chunks (bd_new N)) (\<lambda>decoder.
        check (bd_is_complete decoder) (recovers sl N b byte_len decoder)))))"

definition hash_deterministic :: "(bytes \<Rightarrow> bytes) \<Rightarrow> wire \<Rightarrow> unit test" where
  "hash_deterministic keccak256 wc =
     (let b = sample_block; h1 = block_hash keccak256 wc b; h2 = block_hash keccak256 wc b in
      check (h1 = h2) (Inr ()))"

definition empty_block :: block where
  "empty_block =
     \<lparr>bl_parent_hash = replicate 32 0, bl_number = 0, bl_timestamp = 0, bl_gas_used = 0,
      bl_gas_limit = 0, bl_state_root = replicate 32 0, bl_transactions = []\<rparr>"

definition empty_transactions :: "('f::field, 'r) scalar_lib \<Rightarrow> unit test" where
  "empty_transactions sl =
     (let b = empty_block;
          encoded = block_write (sl_wire sl) b in
      bindR (unwrap (block_decode (sl_wire sl) encoded)) (\<lambda>decoded.
      check (block_eq b decoded)
       (bindR (call (as_chunks (sl_wire sl) (sl_pf sl) 4 16 b)) (\<lambda>(chunks, byte_len).
        bindR (call (from_chunks (sl_wire sl) (sl_pf sl) 4 chunks byte_len)) (\<lambda>recovered.
        check (block_eq b recovered) (Inr ()))))))"

text \<open>Encoded, received by a decoder until it is complete, decoded: what two of the tests run.\<close>

lemma encoded_and_received:
  assumes sl: "packing_ok sl" "block_fits sl N m b" and B: "random_matrix random k N rng = (B, rng')"
  obtains cs where
    "encode_chunks (sl_wire sl) (sl_pf sl) random N m k b rng
      = Inr ((cs, length (block_write (sl_wire sl) b)), rng')" "length cs = k"
    "bindR (until bd_is_complete (check_and_add (\<lambda>_. Inr ())) cs (bd_new N)) (\<lambda>d. check (bd_is_complete d)
      (recovers sl N b (length (block_write (sl_wire sl) b)) d))
    = (if spans N B then Inr () else Inl AssertionFailed)"
proof -
  from chunked_exists [OF sl] obtain V where V: "chunked sl N m b V" by blast
  from encode_block [OF sl V B] obtain cs where
    cs: "encode_chunks (sl_wire sl) (sl_pf sl) random N m k b rng
      = Inr ((cs, length (block_write (sl_wire sl) b)), rng')"
    "length cs = k" "\<forall>c \<in> set cs. coded_by N m V c" "map cc_b cs = B" by blast
  have new: "\<not> bd_is_complete (bd_new N :: 'a block_decoder)" using block_fits_pos [OF sl(2)] by simp
  have "\<forall>c \<in> set cs. coded_by N m V c \<and> (\<lambda>_. Inr ()) c = (Inr () :: unit test)" using cs(3) by simp
  from that [OF cs(1,2)] receive_and_recover [OF sl V fed_with_new new this] cs(4) show thesis by simp
qed

lemma full_pipeline_passes:
  assumes "packing_ok sl" "block_fits sl 4 16 pipeline_block"
    and "random_matrix (sl_random sl) 6 4 (seed 2025) = (B, rng)"
  shows "full_pipeline sl seed = (if spans 4 B then Inr () else Inl AssertionFailed)"
  by (rule encoded_and_received [OF assms]) (simp add: full_pipeline_def Let_def)

lemma block_tests_pass:
  assumes sl: "packing_ok sl"
  shows "codec_roundtrip (sl_wire sl) = Inr ()"
    and "hash_deterministic keccak256 (sl_wire sl) = Inr ()"
    and "block_fits sl 8 16 sample_block \<Longrightarrow> as_chunks_from_chunks_roundtrip sl = Inr ()"
    and "block_fits sl 8 16 sample_block \<Longrightarrow> random_matrix (sl_random sl) 12 8 (seed 42) = (B, rng) \<Longrightarrow>
      encode_decode_roundtrip sl seed = (if spans 8 B then Inr () else Inl AssertionFailed)"
proof -
  have wc: "wire_ok (sl_wire sl)" using sl by (simp add: packing_ok_def)
  show "codec_roundtrip (sl_wire sl) = Inr ()"
    using block_decode_write [OF wc, of sample_block] sample_block_readable(2)
    by (simp add: codec_roundtrip_def readable_def block_eq_iff)
  show "hash_deterministic keccak256 (sl_wire sl) = Inr ()"
    by (simp add: hash_deterministic_def)
  show "as_chunks_from_chunks_roundtrip sl = Inr ()" if ft: "block_fits sl 8 16 sample_block"
  proof -
    from chunked_exists [OF sl ft] obtain V where V: "chunked sl 8 16 sample_block V" by blast
    then have "originals 8 16 V" by (simp add: chunked_def)
    with chunked_as_chunks [OF V] chunked_decode [OF sl ft V] show ?thesis
      by (simp add: as_chunks_from_chunks_roundtrip_def block_eq_iff originals_def foldR_check)
  qed
  show "encode_decode_roundtrip sl seed = (if spans 8 B then Inr () else Inl AssertionFailed)"
    if "block_fits sl 8 16 sample_block" "random_matrix (sl_random sl) 12 8 (seed 42) = (B, rng)"
    by (rule encoded_and_received [OF sl that]) (simp add: encode_decode_roundtrip_def)
qed

lemma empty_transactions_passes:
  assumes sl: "packing_ok sl" and ft: "block_fits sl 4 16 empty_block"
  shows "empty_transactions sl = Inr ()"
proof -
  from chunked_exists [OF sl ft] obtain V where V: "chunked sl 4 16 empty_block V" by blast
  have "wire_ok (sl_wire sl)" using sl by (simp add: packing_ok_def)
  from block_decode_write [OF this, of empty_block] ft chunked_as_chunks [OF V] chunked_decode [OF sl ft V]
  show ?thesis by (simp add: empty_transactions_def block_fits_def readable_def block_eq_iff)
qed

section \<open>Bytes and field elements\<close>

text \<open>What the round-trip tests of \<open>util.rs\<close> do with their data: pack, count, unpack, compare.\<close>

definition packing_roundtrip :: "'f::field codec \<Rightarrow> bytes \<Rightarrow> nat \<Rightarrow> ('f list \<Rightarrow> unit test) \<Rightarrow> unit test" where
  "packing_roundtrip c data count inspect =
     bindR (call (bytes_to_field_elements (scalar_packable c) data)) (\<lambda>elems.
     check (length elems = count)
      (bindR (inspect elems) (\<lambda>_.
       bindR (call (field_elements_to_bytes (scalar_packable c) elems)) (\<lambda>recovered.
       bindR (prefix_of (length data) recovered) (\<lambda>front. check (front = data) (Inr ()))))))"

definition roundtrip_exact_multiple :: "'f::field codec \<Rightarrow> unit test" where
  "roundtrip_exact_multiple c = packing_roundtrip c (map of_nat [0..<62]) 2 (\<lambda>_. Inr ())"

definition roundtrip_non_multiple :: "'f::field codec \<Rightarrow> unit test" where
  "roundtrip_non_multiple c = packing_roundtrip c (map of_nat [100..<150]) 2 (\<lambda>_. Inr ())"

definition zero_bytes_roundtrip :: "'f::field codec \<Rightarrow> unit test" where
  "zero_bytes_roundtrip c = packing_roundtrip c (replicate 31 0) 1
     (\<lambda>elems. bindR (call (idx elems 0)) (\<lambda>x. check (x = 0) (Inr ())))"

definition empty_input :: "'f::field codec \<Rightarrow> unit test" where
  "empty_input c =
     bindR (call (bytes_to_field_elements (scalar_packable c) [])) (\<lambda>elems.
     check (length elems = 1) (bindR (call (idx elems 0)) (\<lambda>x. check (x = 0) (Inr ()))))"

definition single_byte :: "'f::field codec \<Rightarrow> unit test" where
  "single_byte c =
     (let data = [0x42] in
      bindR (call (bytes_to_field_elements (scalar_packable c) data)) (\<lambda>elems.
      check (length elems = 1)
       (bindR (call (field_elements_to_bytes (scalar_packable c) elems)) (\<lambda>recovered.
        bindR (call (idx recovered 0)) (\<lambda>x. check (x = 0x42) (Inr ()))))))"

definition short_final_window :: "'f::field codec \<Rightarrow> unit test" where
  "short_final_window c = packing_roundtrip c (map of_nat [1..<34]) 2 (\<lambda>_. Inr ())"

definition large_roundtrip :: "'f::field codec \<Rightarrow> unit test" where
  "large_roundtrip c =
     (let data = map (\<lambda>i. of_nat (i mod 256)) [0..<1000] in
      bindR (call (div_ceil (length data) 31)) (\<lambda>expected_count.
      packing_roundtrip c data expected_count (\<lambda>_. Inr ())))"

text \<open>The readers: write a value, read it, nothing is left over.\<close>

definition reads_back :: "(bytes \<Rightarrow> err + 'a \<times> bytes) \<Rightarrow> 'a codec \<Rightarrow> 'a list \<Rightarrow> unit test" where
  "reads_back rd c xs =
     bindR (foldR (\<lambda>x (ys, cursor). bindR (unwrap (rd cursor)) (\<lambda>(y, cursor). Inr (ys @ [y], cursor)))
       xs ([], concat (map (cd_write c) xs))) (\<lambda>(ys, cursor).
     check (ys = xs) (check (cursor = []) (Inr ())))"

definition read_field_zero_scalar :: "'f::field codec \<Rightarrow> unit test" where
  "read_field_zero_scalar c = reads_back (read_field c) c [0]"

definition read_field_nonzero_scalar :: "'f::field codec \<Rightarrow> unit test" where
  "read_field_nonzero_scalar c = reads_back (read_field c) c [of_nat 42]"

definition read_field_buffer_too_short :: "'f::field codec \<Rightarrow> unit test" where
  "read_field_buffer_too_short c = check (isl (read_field c (replicate 16 0))) (Inr ())"

definition read_field_multiple_scalars :: "'f::field codec \<Rightarrow> unit test" where
  "read_field_multiple_scalars c = reads_back (read_field c) c [of_nat 7, 0]"

text \<open>\<open>G1\<close> and \<open>G2\<close>: the tests of the two groups are the same.\<close>

definition read_group_identity :: "'g::zero codec \<Rightarrow> unit test" where
  "read_group_identity c = reads_back (read_group c) c [0]"

definition read_group_nonzero :: "('f, 'g::zero) group_ops \<Rightarrow> 'g codec \<Rightarrow> unit test" where
  "read_group_nonzero G c = reads_back (read_group c) c [g_generator G]"

definition read_group_buffer_too_short :: "'g::zero codec \<Rightarrow> unit test" where
  "read_group_buffer_too_short c = check (isl (read_group c (replicate 16 0))) (Inr ())"

definition read_group_multiple :: "('f, 'g::zero) group_ops \<Rightarrow> 'g codec \<Rightarrow> unit test" where
  "read_group_multiple G c = reads_back (read_group c) c [g_generator G, 0]"

lemma scalar_roundtrip:
  fixes c :: "'f::field codec"
  assumes "scalar_codec_ok c"
  shows "\<exists>es bs. bytes_to_field_elements (scalar_packable c) data = Inr es \<and>
    length es = elements_needed 31 (length data) \<and>
    field_elements_to_bytes (scalar_packable c) es = Inr bs \<and> take (length data) bs = data"
proof -
  have "pf_data_bytes (scalar_packable c) = 31" by (simp add: scalar_packable_def)
  with scalar_pf.bytes_roundtrip [OF assms, of data] obtain es where
    "bytes_to_field_elements (scalar_packable c) data = Inr es" "length es = elements_needed 31 (length data)"
    and all: "\<And>k. \<exists>bs. field_elements_to_bytes (scalar_packable c) (es @ replicate k 0) = Inr bs \<and>
      take (length data) bs = data"
    unfolding elements_needed_def by metis
  with all [of 0] show ?thesis by auto
qed

lemma packing_roundtrip_passes:
  fixes c :: "'f::field codec"
  assumes "scalar_codec_ok c" and n: "n = elements_needed 31 (length data)"
    and inspect: "\<And>es. bytes_to_field_elements (scalar_packable c) data = Inr es \<Longrightarrow> inspect es = Inr ()"
  shows "packing_roundtrip c data n inspect = Inr ()"
proof -
  from scalar_roundtrip [OF assms(1), of data] n obtain es bs where
    es: "bytes_to_field_elements (scalar_packable c) data = Inr es" "length es = n"
    and bs: "field_elements_to_bytes (scalar_packable c) es = Inr bs" "take (length data) bs = data" by blast
  have "length data \<le> length bs" using arg_cong [OF bs(2), of length] by simp
  with es bs inspect [OF es(1)] show ?thesis by (simp add: packing_roundtrip_def)
qed

lemma packing_tests_pass:
  fixes c :: "'f::field codec"
  assumes ok: "scalar_codec_ok c"
  shows "roundtrip_exact_multiple c = Inr ()" "roundtrip_non_multiple c = Inr ()"
    "zero_bytes_roundtrip c = Inr ()" "empty_input c = Inr ()" "single_byte c = Inr ()"
    "short_final_window c = Inr ()" "large_roundtrip c = Inr ()"
proof -
  note pass = packing_roundtrip_passes [OF ok] elements_needed_def
  show "roundtrip_exact_multiple c = Inr ()" "roundtrip_non_multiple c = Inr ()" "short_final_window c = Inr ()"
    "large_roundtrip c = Inr ()"
    by (simp_all add: roundtrip_exact_multiple_def roundtrip_non_multiple_def short_final_window_def
        large_roundtrip_def div_ceil_def pass)
  have zeros: "bytes_to_field_elements (scalar_packable c) (replicate 31 0) = Inr [0]"
    by (simp add: bytes_to_field_elements_def scalar_packable_def chunks_of_step scalar_pack_def list_all_iff)
  show "zero_bytes_roundtrip c = Inr ()"
    unfolding zero_bytes_roundtrip_def
    by (rule packing_roundtrip_passes [OF ok]) (use zeros in \<open>simp_all add: elements_needed_def\<close>)
  show "empty_input c = Inr ()"
    by (simp add: empty_input_def bytes_to_field_elements_def)
  from scalar_roundtrip [OF ok, of "[0x42]"] obtain es bs where
    es: "bytes_to_field_elements (scalar_packable c) [0x42] = Inr es" "length es = 1"
      "field_elements_to_bytes (scalar_packable c) es = Inr bs" "take 1 bs = [0x42]"
    by (auto simp: elements_needed_def)
  then have "bs \<noteq> []" "bs ! 0 = 0x42" by (cases bs; auto)+
  with es show "single_byte c = Inr ()" by (simp add: single_byte_def)
qed

lemma reads_back_passes:
  assumes "\<And>x rest. x \<in> set xs \<Longrightarrow> rd (cd_write c x @ rest) = Inr (x, rest)"
  shows "reads_back rd c xs = Inr ()"
proof -
  have "foldR (\<lambda>x (ys, cursor). bindR (unwrap (rd cursor)) (\<lambda>(y, cursor). Inr (ys @ [y], cursor)))
      xs (ys, concat (map (cd_write c) xs)) = Inr (ys @ xs, [])" for ys
    using assms by (induction xs arbitrary: ys) simp_all
  then show ?thesis by (simp add: reads_back_def)
qed

lemma reader_tests_pass:
  fixes c :: "'f::field codec"
  assumes ok: "scalar_codec_ok c" and enc: "encodable c (of_nat 42)" "encodable c (of_nat 7)"
  shows "read_field_zero_scalar c = Inr ()" "read_field_nonzero_scalar c = Inr ()"
    "read_field_buffer_too_short c = Inr ()" "read_field_multiple_scalars c = Inr ()"
proof -
  from ok have c: "element_codec_ok c" "cd_write c 0 = replicate (cd_size c) 0" "cd_size c = 32"
    by (simp_all add: scalar_codec_ok_def)
  have zero: "encodable c 0" by (simp add: encodable_def)
  show "read_field_zero_scalar c = Inr ()" "read_field_nonzero_scalar c = Inr ()" "read_field_multiple_scalars c = Inr ()"
    unfolding read_field_zero_scalar_def read_field_nonzero_scalar_def read_field_multiple_scalars_def
    by (rule reads_back_passes, use enc zero read_field_write [OF c(1,2)] in auto)+
  show "read_field_buffer_too_short c = Inr ()"
    by (simp add: read_field_buffer_too_short_def read_field_def c(3))
qed

lemma group_reader_tests_pass:
  fixes c :: "'g::zero codec"
  assumes c: "element_codec_ok c" and enc: "encodable c (g_generator G)" and size: "16 < cd_size c"
  shows "read_group_identity c = Inr ()" "read_group_nonzero G c = Inr ()"
    "read_group_buffer_too_short c = Inr ()" "read_group_multiple G c = Inr ()"
proof -
  have zero: "encodable c 0" by (simp add: encodable_def)
  show "read_group_identity c = Inr ()" "read_group_nonzero G c = Inr ()" "read_group_multiple G c = Inr ()"
    unfolding read_group_identity_def read_group_nonzero_def read_group_multiple_def
    by (rule reads_back_passes, use enc zero read_group_write [OF c] in auto)+
  show "read_group_buffer_too_short c = Inr ()"
    using size by (simp add: read_group_buffer_too_short_def read_group_def)
qed

section \<open>Packets\<close>

definition sample_coded_chunk :: "'f::field itself \<Rightarrow> 'f coded_chunk run" where
  "sample_coded_chunk _ =
     bindR (chunk_new [of_nat 1, of_nat 2]) (\<lambda>w. let b = [of_nat 1, 0] in coded_chunk_new 2 w b)"

definition signed_packet_verify_noop :: "'f::field itself \<Rightarrow> unit test" where
  "signed_packet_verify_noop ty =
     bindR (call (sample_coded_chunk ty)) (\<lambda>c.
     let pkt = \<lparr>sp_chunk = c, sp_proof = ()\<rparr> in verified (sp_verify noop_scheme () pkt))"

definition signed_packet_into_parts_roundtrip :: "'f::field itself \<Rightarrow> unit test" where
  "signed_packet_into_parts_roundtrip ty =
     bindR (call (sample_coded_chunk ty)) (\<lambda>c.
     let original_w = chunk_v (cc_w c); original_b = cc_b c; pkt = \<lparr>sp_chunk = c, sp_proof = ()\<rparr>;
         (recovered_chunk, proof) = (sp_chunk pkt, sp_proof pkt) in
     check (chunk_v (cc_w recovered_chunk) = original_w) (check (cc_b recovered_chunk = original_b) (Inr ())))"

definition signed_packet_accessors :: "'f::field itself \<Rightarrow> unit test" where
  "signed_packet_accessors ty =
     bindR (call (sample_coded_chunk ty)) (\<lambda>c.
     let pkt = \<lparr>sp_chunk = c, sp_proof = ()\<rparr> in
     bindR (call (idx (chunk_v (cc_w (sp_chunk pkt))) 0)) (\<lambda>x.
     check (x = of_nat 1) (check (sp_proof pkt = ()) (Inr ()))))"

lemma packet_tests_pass:
  "signed_packet_verify_noop TYPE('f::field) = Inr ()"
  "signed_packet_into_parts_roundtrip TYPE('f) = Inr ()"
  "signed_packet_accessors TYPE('f) = Inr ()"
  by (simp_all add: signed_packet_verify_noop_def signed_packet_into_parts_roundtrip_def
      signed_packet_accessors_def sample_coded_chunk_def chunk_new_def coded_chunk_new_def sp_verify_def
      noop_scheme_def)

end
