(* ===== verification/Tests_Bfkw.thy ===== *)
theory Tests_Bfkw
  imports Tests_Pipeline Bfkw
begin

text \<open>
  The tests of \<open>crates/strategy/bfkw\<close>: of \<open>pairing.rs\<close>, of \<open>bfkw.rs\<close>, and the three integration tests.
  For a lawful pairing the honest tests pass; the tampering tests pass exactly when the secret key
  does not annihilate the first hash point.
\<close>

section \<open>pairing.rs\<close>

definition pairing_check_valid :: "('f::field, 'g1, 'g2) bfkw_lib \<Rightarrow> unit test" where
  "pairing_check_valid lib =
     (let sk = of_nat 7; pk = g_smul (bf_g1 lib) sk (g_generator (bf_g1 lib));
          p = g_smul (bf_g2 lib) (of_nat 13) (g_generator (bf_g2 lib)); sigma = g_smul (bf_g2 lib) sk p in
      check (pairing_check lib pk sigma p) (Inr ()))"

definition pairing_check_rejects_mismatch :: "('f::field, 'g1, 'g2) bfkw_lib \<Rightarrow> unit test" where
  "pairing_check_rejects_mismatch lib =
     (let sk = of_nat 7; pk = g_smul (bf_g1 lib) sk (g_generator (bf_g1 lib));
          p = g_smul (bf_g2 lib) (of_nat 13) (g_generator (bf_g2 lib));
          sigma = g_smul (bf_g2 lib) (of_nat 99) (g_generator (bf_g2 lib)) in
      check (\<not> pairing_check lib pk sigma p) (Inr ()))"

section \<open>bfkw.rs\<close>

definition bfkw_setup ::
  "('f::field, 'g1, 'g2) bfkw_lib \<Rightarrow> ('r \<Rightarrow> 'f \<times> 'r) \<Rightarrow> 'r \<Rightarrow>
   (('f, 'g1) bfkw_signer \<times> ('g1, 'g2) bfkw_context \<times> 'f list list) \<times> 'r" where
  "bfkw_setup lib random rng =
     (let M = 4; N = 3; (signer, rng) = bfkw_generate lib random rng; block_id = replicate 32 0xAB;
          ctx = bfkw_setup_context lib N signer block_id M;
          (chunks, rng) = random_matrix random N M rng in
      ((signer, ctx, chunks), rng))"

definition bfkw_sign_verify_roundtrip ::
  "('f::field, 'g1, 'g2) bfkw_lib \<Rightarrow> ('r \<Rightarrow> 'f \<times> 'r) \<Rightarrow> (u64 \<Rightarrow> 'r) \<Rightarrow> unit test" where
  "bfkw_sign_verify_roundtrip lib random seed =
     (let ((signer, ctx, chunks), rng) = bfkw_setup lib random (seed 42) in
      bindR (encode_chunk random 3 4 chunks rng) (\<lambda>(coded, rng).
      bindR (call (bfkw_sign_coded lib 3 signer ctx chunks (cc_b coded))) (\<lambda>proof.
      verified (bfkw_verify lib 3 ctx coded proof))))"

definition bfkw_rejects_tampered_data ::
  "('f::field, 'g1, 'g2) bfkw_lib \<Rightarrow> ('r \<Rightarrow> 'f \<times> 'r) \<Rightarrow> (u64 \<Rightarrow> 'r) \<Rightarrow> unit test" where
  "bfkw_rejects_tampered_data lib random seed =
     (let ((signer, ctx, chunks), rng) = bfkw_setup lib random (seed 42) in
      bindR (encode_chunk random 3 4 chunks rng) (\<lambda>(coded, rng).
      bindR (call (bfkw_sign_coded lib 3 signer ctx chunks (cc_b coded))) (\<lambda>proof.
      bindR (tampered_chunk 3 coded) (\<lambda>coded.
      rejected PairingMismatch (bfkw_verify lib 3 ctx coded proof)))))"

text \<open>\<open>for (x, (x1, x2)) in new.iter_mut().zip(..) { *x = x1 * alpha1 + x2 * alpha2; }\<close>.\<close>

definition mix :: "nat \<Rightarrow> 'f::field \<Rightarrow> 'f \<Rightarrow> 'f list \<Rightarrow> 'f list \<Rightarrow> 'f list" where
  "mix n alpha1 alpha2 xs ys =
     zip_update (\<lambda>_ (x, y). x * alpha1 + y * alpha2) (replicate n 0) (zip xs ys)"

definition combine_linearity ::
  "('f::field, 'g1, 'g2) bfkw_lib \<Rightarrow> ('r \<Rightarrow> 'f \<times> 'r) \<Rightarrow> (u64 \<Rightarrow> 'r) \<Rightarrow> unit test" where
  "combine_linearity lib random seed =
     (let M = 4; N = 3; ((signer, ctx, chunks), rng) = bfkw_setup lib random (seed 55) in
      bindR (encode_chunk random N M chunks rng) (\<lambda>(coded1, rng).
      bindR (encode_chunk random N M chunks rng) (\<lambda>(coded2, rng).
      bindR (call (bfkw_sign_coded lib N signer ctx chunks (cc_b coded1))) (\<lambda>proof1.
      bindR (call (bfkw_sign_coded lib N signer ctx chunks (cc_b coded2))) (\<lambda>proof2.
      bindR (verified (bfkw_verify lib N ctx coded1 proof1)) (\<lambda>_.
      bindR (verified (bfkw_verify lib N ctx coded2 proof2)) (\<lambda>_.
      let (alpha1, rng) = random rng; (alpha2, rng) = random rng; alphas = [alpha1, alpha2];
          new_w = mix M alpha1 alpha2 (chunk_v (cc_w coded1)) (chunk_v (cc_w coded2));
          new_b = mix N alpha1 alpha2 (cc_b coded1) (cc_b coded2) in
      bindR (call (chunk_new new_w)) (\<lambda>w. bindR (call (coded_chunk_new N w new_b)) (\<lambda>new_coded.
      bindR (call (bfkw_combine lib [proof1, proof2] alphas)) (\<lambda>combined.
      verified (bfkw_verify lib N ctx new_coded combined)))))))))))"

definition basis_vector_trick ::
  "('f::field, 'g1, 'g2) bfkw_lib \<Rightarrow> ('r \<Rightarrow> 'f \<times> 'r) \<Rightarrow> (u64 \<Rightarrow> 'r) \<Rightarrow> unit test" where
  "basis_vector_trick lib random seed =
     (let M = 4; N = 3; ((signer, ctx, chunks), rng) = bfkw_setup lib random (seed 77) in
      bindR (mapR (\<lambda>i. bindR (call (idx chunks i)) (\<lambda>v. call (bfkw_sign lib N signer ctx i v))) [0..<N])
        (\<lambda>individual_proofs.
      bindR (foldR (\<lambda>(i, proof) _.
          bindR (call (upd (replicate N 0) i 1)) (\<lambda>b.
          bindR (call (idx chunks i)) (\<lambda>v.
          bindR (call (chunk_new v)) (\<lambda>w.
          bindR (call (coded_chunk_new N w b)) (\<lambda>coded.
          verified (bfkw_verify lib N ctx coded proof))))))
        (zip [0..<length individual_proofs] individual_proofs) ()) (\<lambda>_.
      let (b, rng) = draw_n random N rng in
      bindR (call (bfkw_combine lib individual_proofs b)) (\<lambda>combined.
      let w = rows_combination M b chunks in
      bindR (call (chunk_new w)) (\<lambda>w. bindR (call (coded_chunk_new N w b)) (\<lambda>coded.
      verified (bfkw_verify lib N ctx coded combined)))))))"

definition bfkw_packet_roundtrip ::
  "('f::field, 'g1, 'g2) bfkw_lib \<Rightarrow> ('r \<Rightarrow> 'f \<times> 'r) \<Rightarrow> (u64 \<Rightarrow> 'r) \<Rightarrow> unit test" where
  "bfkw_packet_roundtrip lib random seed =
     (let ((signer, ctx, chunks), rng) = bfkw_setup lib random (seed 99) in
      bindR (encode_chunk random 3 4 chunks rng) (\<lambda>(coded, rng).
      bindR (call (bfkw_sign_coded lib 3 signer ctx chunks (cc_b coded))) (\<lambda>proof.
      let pkt = \<lparr>sp_chunk = coded, sp_proof = proof\<rparr> in
      bindR (verified (sp_verify (bfkw_scheme lib 3) ctx pkt)) (\<lambda>_.
      let recovered = sp_chunk pkt in
      check (length (chunk_v (cc_w recovered)) = 4) (check (length (cc_b recovered) = 3) (Inr ()))))))"

section \<open>Integration tests\<close>

text \<open>\<open>let proof = signer.sign_coded(..); assert!(Scheme::verify(&ctx, coded, &proof).is_ok());\<close>.\<close>

definition signed_and_verified ::
  "('f::field, 'g1, 'g2) bfkw_lib \<Rightarrow> nat \<Rightarrow> ('f, 'g1) bfkw_signer \<Rightarrow> ('g1, 'g2) bfkw_context \<Rightarrow>
   'f list list \<Rightarrow> 'f coded_chunk \<Rightarrow> 'g2 bfkw_proof test" where
  "signed_and_verified lib N signer ctx chunk_refs coded =
     bindR (call (bfkw_sign_coded lib N signer ctx chunk_refs (cc_b coded))) (\<lambda>proof.
     bindR (verified (bfkw_verify lib N ctx coded proof)) (\<lambda>_. Inr proof))"

definition bfkw_direct_pipeline ::
  "('f::field, 'r) scalar_lib \<Rightarrow> ('f, 'g1, 'g2) bfkw_lib \<Rightarrow> (u64 \<Rightarrow> 'r) \<Rightarrow> unit test" where
  "bfkw_direct_pipeline sl lib seed =
     (let M = 16; N = 4; K = 8; b = sample_block in
      bindR (call (encode_chunks (sl_wire sl) (sl_pf sl) (sl_random sl) N M K b (seed 42)))
        (\<lambda>((coded_chunks, byte_len), rng).
      bindR (call (as_chunks (sl_wire sl) (sl_pf sl) N M b)) (\<lambda>(original_chunks, _).
      let chunk_refs = map chunk_v original_chunks; (signer, rng) = bfkw_generate lib (sl_random sl) rng;
          block_id = replicate 32 0xCC; ctx = bfkw_setup_context lib N signer block_id M;
          decoder = bd_new N in
      bindR (until bd_is_complete (check_and_add (\<lambda>coded.
            bindR (signed_and_verified lib N signer ctx chunk_refs coded) (\<lambda>_. Inr ())))
          coded_chunks decoder) (\<lambda>decoder.
      check (bd_is_complete decoder) (recovers sl N b byte_len decoder)))))"

definition bfkw_first_step ::
  "('f::field, 'g1, 'g2) bfkw_lib \<Rightarrow> nat \<Rightarrow> ('f, 'g1) bfkw_signer \<Rightarrow> ('g1, 'g2) bfkw_context \<Rightarrow>
   'f list list \<Rightarrow> 'f coded_chunk \<Rightarrow> 'f block_decoder \<times> 'g2 bfkw_proof list \<Rightarrow>
   ('f block_decoder \<times> 'g2 bfkw_proof list) test" where
  "bfkw_first_step lib N signer ctx chunk_refs coded = (\<lambda>(decoder1, received_proofs).
     bindR (signed_and_verified lib N signer ctx chunk_refs coded) (\<lambda>proof.
     bindR (call (bd_add decoder1 coded)) (\<lambda>(decoder1, added).
     Inr (decoder1, received_proofs @ [proof]))))"

definition bfkw_reencode_step ::
  "('f::field, 'r) scalar_lib \<Rightarrow> ('f, 'g1, 'g2) bfkw_lib \<Rightarrow> nat \<Rightarrow> ('g1, 'g2) bfkw_context \<Rightarrow>
   'g2 bfkw_proof list \<Rightarrow> 'f block_decoder \<Rightarrow> nat \<Rightarrow> 'f coded_chunk list \<times> 'r \<Rightarrow>
   ('f coded_chunk list \<times> 'r) test" where
  "bfkw_reencode_step sl lib N ctx received_proofs decoder1 _ = (\<lambda>(reencoded, rng).
     let (alphas, rng) = random_coefficients (sl_random sl) (bd_rank decoder1) rng in
     bindR (call (bd_reencode_with N decoder1 alphas)) (\<lambda>new_chunk.
     bindR (call (bfkw_combine lib received_proofs alphas)) (\<lambda>new_proof.
     bindR (verified (bfkw_verify lib N ctx new_chunk new_proof)) (\<lambda>_.
     Inr (reencoded @ [new_chunk], rng)))))"

definition bfkw_reencode_pipeline ::
  "('f::field, 'r) scalar_lib \<Rightarrow> ('f, 'g1, 'g2) bfkw_lib \<Rightarrow> (u64 \<Rightarrow> 'r) \<Rightarrow> unit test" where
  "bfkw_reencode_pipeline sl lib seed =
     (let M = 16; N = 4; K = 8; b = sample_block in
      bindR (call (encode_chunks (sl_wire sl) (sl_pf sl) (sl_random sl) N M K b (seed 99)))
        (\<lambda>((coded_chunks, byte_len), rng).
      bindR (call (as_chunks (sl_wire sl) (sl_pf sl) N M b)) (\<lambda>(original_chunks, _).
      let chunk_refs = map chunk_v original_chunks; (signer, rng) = bfkw_generate lib (sl_random sl) rng;
          block_id = replicate 32 0xCC; ctx = bfkw_setup_context lib N signer block_id M in
      bindR (bindR (prefix_of 2 coded_chunks) (\<lambda>first.
          foldR (bfkw_first_step lib N signer ctx chunk_refs) first (bd_new N, [])))
        (\<lambda>(decoder1, received_proofs).
      check (\<not> bd_is_complete decoder1)
       (bindR (foldR (bfkw_reencode_step sl lib N ctx received_proofs decoder1) [0..<4] ([], rng))
         (\<lambda>(reencoded, rng).
        bindR (two_rounds (\<lambda>coded. bindR (signed_and_verified lib N signer ctx chunk_refs coded) (\<lambda>_. Inr ()))
            reencoded (suffix_of 2 coded_chunks) (bd_new N)) (\<lambda>decoder2.
        check (bd_is_complete decoder2) (recovers sl N b byte_len decoder2))))))))"

definition bfkw_rejects_tampered_block ::
  "('f::field, 'r) scalar_lib \<Rightarrow> ('f, 'g1, 'g2) bfkw_lib \<Rightarrow> (u64 \<Rightarrow> 'r) \<Rightarrow> unit test" where
  "bfkw_rejects_tampered_block sl lib seed =
     (let M = 16; N = 4; K = 8; b = sample_block in
      bindR (call (encode_chunks (sl_wire sl) (sl_pf sl) (sl_random sl) N M K b (seed 42)))
        (\<lambda>((coded_chunks, _), rng).
      bindR (call (as_chunks (sl_wire sl) (sl_pf sl) N M b)) (\<lambda>(original_chunks, _).
      let chunk_refs = map chunk_v original_chunks; (signer, rng) = bfkw_generate lib (sl_random sl) rng;
          block_id = replicate 32 0xCC; ctx = bfkw_setup_context lib N signer block_id M in
      bindR (call (idx coded_chunks 0)) (\<lambda>coded.
      bindR (call (bfkw_sign_coded lib N signer ctx chunk_refs (cc_b coded))) (\<lambda>proof.
      bindR (tampered_chunk N coded) (\<lambda>tampered.
      rejected PairingMismatch (bfkw_verify lib N ctx tampered proof)))))))"

section \<open>When the tests pass\<close>

lemma pairing_tests_pass:
  fixes lib :: "('f::field, 'g1::ab_group_add, 'g2::ab_group_add) bfkw_lib"
  assumes ok: "bfkw_lib_ok lib"
  shows "pairing_check_valid lib = Inr ()"
    and "pairing_check_rejects_mismatch lib
      = (if g_smul (bf_g2 lib) 8 (g_generator (bf_g2 lib)) = 0 then Inl AssertionFailed else Inr ())"
proof -
  have G: "group_ok (bf_g2 lib)" using ok by (simp add: bfkw_lib_ok_def)
  have key: "bfkw_keypair lib (of_nat 7) (g_smul (bf_g1 lib) (of_nat 7) (g_generator (bf_g1 lib)))"
    by (simp add: bfkw_keypair_def)
  show "pairing_check_valid lib = Inr ()"
    using pairing_check_iff [OF ok key] by (simp add: pairing_check_valid_def Let_def)
  have "g_smul (bf_g2 lib) (91 + 8) x = g_smul (bf_g2 lib) 91 x + g_smul (bf_g2 lib) 8 x" for x
    by (rule smul_add_left [OF G])
  then have "g_smul (bf_g2 lib) 99 x = g_smul (bf_g2 lib) 91 x \<longleftrightarrow> g_smul (bf_g2 lib) 8 x = 0" for x
    by simp
  then show "pairing_check_rejects_mismatch lib
      = (if g_smul (bf_g2 lib) 8 (g_generator (bf_g2 lib)) = 0 then Inl AssertionFailed else Inr ())"
    using pairing_check_iff [OF ok key]
    by (simp add: pairing_check_rejects_mismatch_def Let_def smul_smul [OF G] check_if)
qed

text \<open>A signer with its context, and original chunks: what every test starts from.\<close>

lemma context_setting:
  fixes lib :: "('f::field, 'g1::ab_group_add, 'g2::ab_group_add) bfkw_lib"
  assumes ok: "bfkw_lib_ok lib" and V: "originals N m V" and g: "bfkw_generate lib random r = (signer, r')"
  shows "bfkw_setting lib N m (bfkw_setup_context lib N signer block_id m) V"
    and "bfkw_keypair lib (bs_sk signer) (bc_public_key (bfkw_setup_context lib N signer block_id m))"
proof -
  show key: "bfkw_keypair lib (bs_sk signer) (bc_public_key (bfkw_setup_context lib N signer block_id m))"
    using bfkw_generate_keypair [of lib random r] g by (simp add: bfkw_setup_context_def)
  with ok V show "bfkw_setting lib N m (bfkw_setup_context lib N signer block_id m) V"
    by (auto simp: bfkw_setting_def bfkw_setup_context_def)
qed

lemma good_verifies:
  "bfkw_setting lib N m ctx V \<Longrightarrow> bfkw_good lib N m ctx V ch p \<Longrightarrow> bfkw_verify lib N ctx ch p = Inr (Inr ())"
  using bfkw.verify_good by (fastforce simp: bfkw_scheme_def)

lemma bfkw_tampering_detected:
  fixes lib :: "('f::field, 'g1::ab_group_add, 'g2::ab_group_add) bfkw_lib"
  assumes st: "bfkw_setting lib N m ctx V" and key: "bfkw_keypair lib sk (bc_public_key ctx)"
    and gd: "bfkw_good lib N m ctx V c p"
  shows "bfkw_verify lib N ctx (tampered c) p
    = Inr (if g_smul (bf_g2 lib) sk (bc_hash_points ctx ! 0) = 0 then Inr () else Inl PairingMismatch)"
proof -
  from st have ok: "bfkw_lib_ok lib" and V: "originals N m V" and H: "length (bc_hash_points ctx) = m + N"
    by (auto simp: bfkw_setting_def)
  then have G: "group_ok (bf_g2 lib)" by (simp add: bfkw_lib_ok_def)
  have c: "coded_by N m V c" and "0 < m" using gd V by (simp_all add: bfkw_good_def originals_def)
  then obtain x xs where w: "chunk_v (cc_w c) = x # xs" by (cases "chunk_v (cc_w c)") (auto simp: coded_by_def)
  have aug: "augmented (tampered c) = (augmented c)[0 := augmented c ! 0 + 1]"
    by (simp add: augmented_def tampered_def w)
  have "length (augmented c) = length (bc_hash_points ctx)" "bc_hash_points ctx \<noteq> []"
    using c H \<open>0 < m\<close> by (auto simp: augmented_def coded_by_def)
  from msm_first [OF G this, of 1]
  have "g_msm (bf_g2 lib) (bc_hash_points ctx) (augmented (tampered c))
      = g_msm (bf_g2 lib) (bc_hash_points ctx) (augmented c) + bc_hash_points ctx ! 0"
    unfolding aug by (simp add: smul_one [OF G])
  moreover have "bp_sigma p = g_smul (bf_g2 lib) sk (g_msm (bf_g2 lib) (bc_hash_points ctx) (augmented c))"
    using gd pairing_check_iff [OF ok key] by (simp add: bfkw_good_def)
  ultimately show ?thesis
    using bfkw_verify_iff [OF ok key, of N "tampered c" p] H by (simp add: smul_add_right [OF G])
qed

lemma bfkw_setup_spec:
  fixes lib :: "('f::field, 'g1::ab_group_add, 'g2::ab_group_add) bfkw_lib"
  assumes ok: "bfkw_lib_ok lib"
  obtains signer ctx V r1 c1 r2 c2 r3 p1 p2 where
    "bfkw_setup lib random r = ((signer, ctx, V), r1)" "bfkw_setting lib 3 4 ctx V"
    "bfkw_keypair lib (bs_sk signer) (bc_public_key ctx)"
    "encode_chunk random 3 4 V r1 = Inr (c1, r2)" "encode_chunk random 3 4 V r2 = Inr (c2, r3)"
    "bfkw_sign_coded lib 3 signer ctx V (cc_b c1) = Inr p1" "bfkw_good lib 3 4 ctx V c1 p1"
    "bfkw_sign_coded lib 3 signer ctx V (cc_b c2) = Inr p2" "bfkw_good lib 3 4 ctx V c2 p2"
proof -
  obtain signer r0 V r1 b1 r2 b2 r3 where
    d: "bfkw_generate lib random r = (signer, r0)" "random_matrix random 3 4 r0 = (V, r1)"
      "draw_n random 3 r1 = (b1, r2)" "draw_n random 3 r2 = (b2, r3)" by (meson surj_pair)
  have V: "originals 3 4 V" using random_originals [OF d(2)] by simp
  let ?ctx = "bfkw_setup_context lib 3 signer (replicate 32 0xAB) 4"
  note st = context_setting [OF ok V d(1), where block_id = "replicate 32 0xAB"]
  have s: "bfkw_setup lib random r = ((signer, ?ctx, V), r1)" using d(1,2) by (simp add: bfkw_setup_def Let_def)
  from encode_chunk_coded [OF V d(3)] obtain c1 where
    c1: "encode_chunk random 3 4 V r1 = Inr (c1, r2)" "coded_by 3 4 V c1" by blast
  from encode_chunk_coded [OF V d(4)] obtain c2 where
    c2: "encode_chunk random 3 4 V r2 = Inr (c2, r3)" "coded_by 3 4 V c2" by blast
  from bfkw_sign_coded_good [OF st(1) c1(2) st(2)] obtain p1 where
    p1: "bfkw_sign_coded lib 3 signer ?ctx V (cc_b c1) = Inr p1" "bfkw_good lib 3 4 ?ctx V c1 p1" by blast
  from bfkw_sign_coded_good [OF st(1) c2(2) st(2)] obtain p2 where
    p2: "bfkw_sign_coded lib 3 signer ?ctx V (cc_b c2) = Inr p2" "bfkw_good lib 3 4 ?ctx V c2 p2" by blast
  from that [OF s st c1(1) c2(1) p1 p2] show thesis .
qed

lemma bfkw_roundtrip_tests_pass:
  fixes lib :: "('f::field, 'g1::ab_group_add, 'g2::ab_group_add) bfkw_lib"
  assumes ok: "bfkw_lib_ok lib"
  shows "bfkw_sign_verify_roundtrip lib random seed = Inr ()"
    and "bfkw_packet_roundtrip lib random seed = Inr ()"
proof -
  show "bfkw_sign_verify_roundtrip lib random seed = Inr ()"
    by (rule bfkw_setup_spec [OF ok, of random "seed 42"])
       (simp add: bfkw_sign_verify_roundtrip_def good_verifies)
  show "bfkw_packet_roundtrip lib random seed = Inr ()"
    by (rule bfkw_setup_spec [OF ok, of random "seed 99"])
       (simp add: bfkw_packet_roundtrip_def sp_verify_def bfkw_scheme_def good_verifies Let_def,
        simp add: bfkw_good_def coded_by_def)
qed

lemma bfkw_rejects_tampered_data_passes:
  fixes lib :: "('f::field, 'g1::ab_group_add, 'g2::ab_group_add) bfkw_lib"
  assumes ok: "bfkw_lib_ok lib" and s: "bfkw_setup lib random (seed 42) = ((signer, ctx, V), r1)"
  shows "bfkw_rejects_tampered_data lib random seed
    = (if g_smul (bf_g2 lib) (bs_sk signer) (bc_hash_points ctx ! 0) = 0 then Inl AssertionFailed else Inr ())"
proof (rule bfkw_setup_spec [OF ok, of random "seed 42"])
  fix signer' ctx' V' r1' c r2 p
  assume "bfkw_setup lib random (seed 42) = ((signer', ctx', V'), r1')"
    and st: "bfkw_setting lib 3 4 ctx' V'" "bfkw_keypair lib (bs_sk signer') (bc_public_key ctx')"
    and c: "encode_chunk random 3 4 V' r1' = Inr (c, r2)"
    and p: "bfkw_sign_coded lib 3 signer' ctx' V' (cc_b c) = Inr p" "bfkw_good lib 3 4 ctx' V' c p"
  with s have [simp]: "signer' = signer" "ctx' = ctx" "V' = V" "r1' = r1" by simp_all
  have "coded_by 3 4 V c" using p(2) by (simp add: bfkw_good_def)
  from tampered_chunk_spec [OF this] bfkw_tampering_detected [OF st p(2)] s c p(1)
  show ?thesis by (simp add: bfkw_rejects_tampered_data_def)
qed

text \<open>The test's own mixing loop is the combination that the scheme signs.\<close>

lemma mix_comb:
  assumes "length xs = n" "length ys = n"
  shows "mix n a b xs ys = map (comb ((!) [a, b]) [xs, ys]) [0..<n]"
  by (rule nth_equalityI) (simp_all add: mix_def assms nth_zip_update comb_Cons mult.commute)

lemma combine_linearity_passes:
  fixes lib :: "('f::field, 'g1::ab_group_add, 'g2::ab_group_add) bfkw_lib"
  assumes ok: "bfkw_lib_ok lib"
  shows "combine_linearity lib random seed = Inr ()"
proof (rule bfkw_setup_spec [OF ok, of random "seed 55"])
  fix signer ctx V r1 c1 r2 c2 r3 p1 p2
  assume s: "bfkw_setup lib random (seed 55) = ((signer, ctx, V), r1)"
    and st: "bfkw_setting lib 3 4 ctx V"
    and c: "encode_chunk random 3 4 V r1 = Inr (c1, r2)" "encode_chunk random 3 4 V r2 = Inr (c2, r3)"
    and p: "bfkw_sign_coded lib 3 signer ctx V (cc_b c1) = Inr p1" "bfkw_good lib 3 4 ctx V c1 p1"
      "bfkw_sign_coded lib 3 signer ctx V (cc_b c2) = Inr p2" "bfkw_good lib 3 4 ctx V c2 p2"
  obtain alpha1 r4 alpha2 r5 where a: "random r3 = (alpha1, r4)" "random r4 = (alpha2, r5)" by (meson surj_pair)
  have V: "originals 3 4 V" using st by (simp add: bfkw_setting_def)
  have cs: "coded_by 3 4 V c1" "coded_by 3 4 V c2" using p(2,4) by (simp_all add: bfkw_good_def)
  let ?w = "mix 4 alpha1 alpha2 (chunk_v (cc_w c1)) (chunk_v (cc_w c2))"
  let ?b = "mix 3 alpha1 alpha2 (cc_b c1) (cc_b c2)"
  let ?new = "\<lparr>cc_w = \<lparr>chunk_v = ?w\<rparr>, cc_b = ?b\<rparr>"
  have w: "?w = map (comb ((!) [alpha1, alpha2]) (map (\<lambda>c. chunk_v (cc_w c)) [c1, c2])) [0..<4]"
    and b: "?b = map (comb ((!) [alpha1, alpha2]) (map cc_b [c1, c2])) [0..<3]"
    using cs by (simp_all add: mix_comb coded_by_def)
  have new: "coded_by 3 4 V ?new"
    by (rule coded_by_combination [OF V, of "[c1, c2]" _ "[alpha1, alpha2]"]) (use cs w b in simp_all)
  have "\<exists>q. is_combine (bfkw_scheme lib 3) [p1, p2] [alpha1, alpha2] = Inr q \<and> bfkw_good lib 3 4 ctx V ?new q"
    by (rule bfkw.combine_good [OF st, of "[c1, c2]"])
       (use p(2,4) cs new w b in \<open>simp_all add: bfkw_proofs_def\<close>)
  then obtain q where q: "bfkw_combine lib [p1, p2] [alpha1, alpha2] = Inr q" "bfkw_good lib 3 4 ctx V ?new q"
    by (auto simp: bfkw_scheme_def)
  have "chunk_new ?w = Inr \<lparr>chunk_v = ?w\<rparr>" by (simp add: chunk_new_def w)
  moreover have "coded_chunk_new 3 \<lparr>chunk_v = ?w\<rparr> ?b = Inr ?new" by (simp add: coded_chunk_new_def b)
  ultimately show ?thesis
    using s c p a q good_verifies [OF st] by (simp add: combine_linearity_def)
qed

lemma unit_chunk:
  assumes "originals N m V" "i < N"
  shows "coded_chunk_new N \<lparr>chunk_v = V ! i\<rparr> ((replicate N 0)[i := 1]) = Inr (systematic N V ! i)"
proof -
  have "(replicate N 0)[i := 1] = unit_vec N i" by (rule nth_equalityI) (simp_all add: nth_list_update)
  then show ?thesis using assms by (simp add: coded_chunk_new_def systematic_def originals_def)
qed

lemma basis_vector_trick_passes:
  fixes lib :: "('f::field, 'g1::ab_group_add, 'g2::ab_group_add) bfkw_lib"
  assumes ok: "bfkw_lib_ok lib"
  shows "basis_vector_trick lib random seed = Inr ()"
proof (rule bfkw_setup_spec [OF ok, of random "seed 77"])
  fix signer ctx V r1
  assume s: "bfkw_setup lib random (seed 77) = ((signer, ctx, V), r1)"
    and st: "bfkw_setting lib 3 4 ctx V" and key: "bfkw_keypair lib (bs_sk signer) (bc_public_key ctx)"
  obtain b r2 where b: "draw_n random 3 r1 = (b, r2)" by force
  have V: "originals 3 4 V" using st by (simp add: bfkw_setting_def)
  then have lV: "length V = 3" and v: "i < 3 \<Longrightarrow> length (V ! i) = 4" for i by (simp_all add: originals_def)
  have lS: "length (systematic 3 V) = 3" "systematic 3 V \<noteq> []" using lV by (auto simp: systematic_def)
  have lb: "length b = 3" using b length_draw_n [of random 3 r1] by simp
  obtain q where q: "\<And>i. i < 3 \<Longrightarrow> bfkw_sign lib 3 signer ctx i (V ! i) = Inr (q i)"
    "\<And>i. i < 3 \<Longrightarrow> bfkw_good lib 3 4 ctx V (systematic 3 V ! i) (q i)"
    using bfkw_sign_good [OF st _ key] by metis
  let ?qs = "map q [0..<3]" and ?w = "rows_combination 4 b V"
  have signs: "mapR (\<lambda>i. bindR (call (idx V i)) (\<lambda>v. call (bfkw_sign lib 3 signer ctx i v))) [0..<3] = Inr ?qs"
    by (rule mapR_pure) (use lV q(1) in simp)
  have verifies: "foldR (\<lambda>(i, proof) _.
          bindR (call (upd (replicate 3 0) i 1)) (\<lambda>b. bindR (call (idx V i)) (\<lambda>v.
          bindR (call (chunk_new v)) (\<lambda>w. bindR (call (coded_chunk_new 3 w b)) (\<lambda>coded.
          verified (bfkw_verify lib 3 ctx coded proof))))))
        (zip [0..<length ?qs] ?qs) () = Inr ()"
  proof (rule foldR_Inr_unit)
    fix x assume "x \<in> set (zip [0..<length ?qs] ?qs)"
    then obtain i where i: "x = (i, q i)" "i < 3" by (auto simp: set_zip)
    then have "chunk_new (V ! i) = Inr \<lparr>chunk_v = V ! i\<rparr>" using v [of i] by (cases "V ! i") (auto simp: chunk_new_def)
    with i lV unit_chunk [OF V i(2)] good_verifies [OF st q(2) [OF i(2)]]
    show "(case x of (i, proof) \<Rightarrow> \<lambda>_.
          bindR (call (upd (replicate 3 0) i 1)) (\<lambda>b. bindR (call (idx V i)) (\<lambda>v.
          bindR (call (chunk_new v)) (\<lambda>w. bindR (call (coded_chunk_new 3 w b)) (\<lambda>coded.
          verified (bfkw_verify lib 3 ctx coded proof)))))) () = Inr ()" by simp
  qed
  let ?new = "\<lparr>cc_w = \<lparr>chunk_v = ?w\<rparr>, cc_b = b\<rparr>"
  have w: "?w = map (comb ((!) b) V) [0..<4]" by (rule rows_combination_comb [OF V lb])
  have new: "coded_by 3 4 V ?new" by (simp add: coded_by_def w lb)
  have "\<exists>p. is_combine (bfkw_scheme lib 3) ?qs b = Inr p \<and> bfkw_good lib 3 4 ctx V ?new p"
    by (rule bfkw.combine_good [OF st, of "systematic 3 V"])
       (use q(2) lb lS new w systematic_coded [OF V] systematic_comb [OF V lb] in
         \<open>simp_all add: bfkw_proofs_def list_all2_conv_all_nth systematic_data\<close>)
  then obtain p where p: "bfkw_combine lib ?qs b = Inr p" "bfkw_good lib 3 4 ctx V ?new p"
    by (auto simp: bfkw_scheme_def)
  have "chunk_new ?w = Inr \<lparr>chunk_v = ?w\<rparr>" "coded_chunk_new 3 \<lparr>chunk_v = ?w\<rparr> b = Inr ?new"
    by (simp_all add: chunk_new_def w coded_chunk_new_def lb)
  then show ?thesis
    using s signs verifies b p good_verifies [OF st p(2)] by (simp add: basis_vector_trick_def)
qed

section \<open>When the integration tests pass\<close>

text \<open>A signer whose context belongs to the chunks: every coded chunk is signed and verifies.\<close>

lemma signed_good:
  fixes lib :: "('f::field, 'g1::ab_group_add, 'g2::ab_group_add) bfkw_lib"
  assumes st: "bfkw_setting lib N m ctx V" and key: "bfkw_keypair lib (bs_sk signer) (bc_public_key ctx)"
    and c: "coded_by N m V c"
  shows "\<exists>p. signed_and_verified lib N signer ctx V c = Inr p \<and> bfkw_good lib N m ctx V c p \<and>
    bfkw_sign_coded lib N signer ctx V (cc_b c) = Inr p"
  using bfkw_sign_coded_good [OF st c key] good_verifies [OF st]
  by (fastforce simp: signed_and_verified_def)

text \<open>The loop of the intermediate node keeps a proof for each of the chunks it adds.\<close>

lemma first_steps:
  assumes "foldR (check_and_add (\<lambda>c. bindR (signed_and_verified lib N signer ctx V c) (\<lambda>_. Inr ()))) cs d = Inr d'"
    and "\<And>c. c \<in> set cs \<Longrightarrow> \<exists>p. signed_and_verified lib N signer ctx V c = Inr p \<and> good c p"
  shows "\<exists>qs. foldR (bfkw_first_step lib N signer ctx V) cs (d, ps) = Inr (d', ps @ qs) \<and> list_all2 good cs qs"
  using assms
proof (induction cs arbitrary: d ps)
  case (Cons c cs)
  from Cons.prems(2) obtain p where p: "signed_and_verified lib N signer ctx V c = Inr p" "good c p" by auto
  let ?add = "check_and_add (\<lambda>c. bindR (signed_and_verified lib N signer ctx V c) (\<lambda>_. Inr ()))"
  have "bindR (?add c d) (foldR ?add cs) = Inr d'" using Cons.prems(1) by simp
  then obtain d1 where d1: "?add c d = Inr d1" "foldR ?add cs d1 = Inr d'" by (rule bindR_InrE)
  from d1(1) p(1) obtain a where a: "call (bd_add d c) = Inr (d1, a)"
    by (auto simp: check_and_add_def bindR_eq_Inr)
  from Cons.IH [OF d1(2), of "ps @ [p]"] Cons.prems(2) obtain qs where
    "foldR (bfkw_first_step lib N signer ctx V) cs (d1, ps @ [p]) = Inr (d', (ps @ [p]) @ qs)"
    "list_all2 good cs qs" by auto
  moreover have "bfkw_first_step lib N signer ctx V c (d, ps) = Inr (d1, ps @ [p])"
    using p(1) a by (simp add: bfkw_first_step_def)
  ultimately show ?case using p(2) by (intro exI [of _ "p # qs"]) simp
qed simp

lemma bfkw_direct_pipeline_passes:
  fixes lib :: "('f::field, 'g1::ab_group_add, 'g2::ab_group_add) bfkw_lib"
  assumes sl: "packing_ok sl" "block_fits sl 4 16 sample_block" and ok: "bfkw_lib_ok lib"
    and B: "random_matrix (sl_random sl) 8 4 (seed 42) = (B, rng)"
  shows "bfkw_direct_pipeline sl lib seed = (if spans 4 B then Inr () else Inl AssertionFailed)"
proof -
  from chunked_exists [OF sl] obtain V where V: "chunked sl 4 16 sample_block V" by blast
  then have orig: "originals 4 16 V" by (simp add: chunked_def)
  from encode_block [OF sl V B] obtain cs where
    cs: "encode_chunks (sl_wire sl) (sl_pf sl) (sl_random sl) 4 16 8 sample_block (seed 42)
      = Inr ((cs, length (block_write (sl_wire sl) sample_block)), rng)"
    "\<forall>c \<in> set cs. coded_by 4 16 V c" "map cc_b cs = B" by blast
  obtain signer rng1 where g: "bfkw_generate lib (sl_random sl) rng = (signer, rng1)" by force
  let ?ctx = "bfkw_setup_context lib 4 signer (replicate 32 0xCC) 16"
  note st = context_setting [OF ok orig g, where block_id = "replicate 32 0xCC"]
  let ?chk = "\<lambda>coded. bindR (signed_and_verified lib 4 signer ?ctx V coded) (\<lambda>_. Inr ())"
  have "\<forall>c \<in> set cs. coded_by 4 16 V c \<and> ?chk c = Inr ()" using cs(2) signed_good [OF st] by fastforce
  from receive_and_recover [OF sl V fed_with_new _ this] cs(3)
  have "bindR (until bd_is_complete (check_and_add ?chk) cs (bd_new 4)) (\<lambda>d. check (bd_is_complete d)
      (recovers sl 4 sample_block (length (block_write (sl_wire sl) sample_block)) d))
    = (if spans 4 B then Inr () else Inl AssertionFailed)" by simp
  then show ?thesis
    using cs(1) chunked_as_chunks [OF V] g by (simp add: bfkw_direct_pipeline_def Let_def comp_def)
qed

lemma bfkw_reencode_step_spec:
  fixes lib :: "('f::field, 'g1::ab_group_add, 'g2::ab_group_add) bfkw_lib"
  assumes st: "bfkw_setting lib N m ctx V" and h: "honest N m V d" and ne: "bd_coded_chunks d \<noteq> []"
    and ps: "list_all2 (bfkw_good lib N m ctx V) (bd_coded_chunks d) ps"
    and a: "random_coefficients (sl_random sl) (bd_rank d) rng = (alphas, rng')"
      "length alphas = length (bd_coded_chunks d)"
    and c: "bd_reencode_with N d alphas = Inr c" "coded_by N m V c"
      "chunk_v (cc_w c) = map (comb ((!) alphas) (map (\<lambda>c. chunk_v (cc_w c)) (bd_coded_chunks d))) [0..<m]"
      "cc_b c = reencoded_coeffs N (map cc_b (bd_coded_chunks d)) alphas"
  shows "bfkw_reencode_step sl lib N ctx ps d i (acc, rng) = Inr (acc @ [c], rng')"
proof -
  have cs: "\<forall>ch \<in> set (bd_coded_chunks d). coded_by N m V ch" using h by (simp add: honest_def)
  have "\<exists>q. is_combine (bfkw_scheme lib N) ps alphas = Inr q \<and> bfkw_good lib N m ctx V c q"
    by (rule bfkw.combine_good [OF st, of "bd_coded_chunks d"])
       (use ps ne a(2) c cs in \<open>simp_all add: bfkw_proofs_def reencoded_coeffs_def\<close>)
  then obtain q where "bfkw_combine lib ps alphas = Inr q" "bfkw_good lib N m ctx V c q"
    by (auto simp: bfkw_scheme_def)
  with a(1) c(1) good_verifies [OF st] show ?thesis by (simp add: bfkw_reencode_step_def)
qed

lemma bfkw_reencode_pipeline_passes:
  fixes lib :: "('f::field, 'g1::ab_group_add, 'g2::ab_group_add) bfkw_lib"
  assumes sl: "packing_ok sl" "block_fits sl 4 16 sample_block" and ok: "bfkw_lib_ok lib"
    and B: "random_matrix (sl_random sl) 8 4 (seed 99) = (B, rng)" and two: "indep 4 (take 2 B)"
    and g: "bfkw_generate lib (sl_random sl) rng = (signer, rng1)"
    and A: "random_matrix (sl_random sl) 4 2 rng1 = (A, rng2)"
  shows "bfkw_reencode_pipeline sl lib seed
    = (if spans 4 (map (reencoded_coeffs 4 (take 2 B)) A @ drop 2 B) then Inr () else Inl AssertionFailed)"
proof -
  from chunked_exists [OF sl] obtain V where V: "chunked sl 4 16 sample_block V" by blast
  then have orig: "originals 4 16 V" by (simp add: chunked_def)
  from encode_block [OF sl V B] obtain cs where
    cs: "encode_chunks (sl_wire sl) (sl_pf sl) (sl_random sl) 4 16 8 sample_block (seed 99)
      = Inr ((cs, length (block_write (sl_wire sl) sample_block)), rng)"
    "length cs = 8" "\<forall>c \<in> set cs. coded_by 4 16 V c" "map cc_b cs = B" by blast
  let ?ctx = "bfkw_setup_context lib 4 signer (replicate 32 0xCC) 16"
  note st = context_setting [OF ok orig g, where block_id = "replicate 32 0xCC"]
  let ?chk = "\<lambda>coded. bindR (signed_and_verified lib 4 signer ?ctx V coded) (\<lambda>_. Inr ())"
  have chk: "\<forall>c \<in> set cs. coded_by 4 16 V c \<and> ?chk c = Inr ()" using cs(3) signed_good [OF st] by fastforce
  have first: "map cc_b (take 2 cs) = take 2 B" "map cc_b (drop 2 cs) = drop 2 B"
    using cs(4) by (auto simp: take_map drop_map)
  have "indep 4 (map cc_b (take 2 cs))" using first two by simp
  with cs(2) intermediate_node [OF chk] obtain d where
    d: "foldR (check_and_add ?chk) (take 2 cs) (bd_new 4) = Inr d" "honest 4 16 V d"
      "bd_coded_chunks d = take 2 cs"
    and rank: "bd_rank d = 2" and inc: "\<not> bd_is_complete d" and ne: "bd_coded_chunks d \<noteq> []" by auto
  have "\<exists>qs. foldR (bfkw_first_step lib 4 signer ?ctx V) (take 2 cs) (bd_new 4, []) = Inr (d, [] @ qs) \<and>
      list_all2 (bfkw_good lib 4 16 ?ctx V) (take 2 cs) qs"
    by (rule first_steps [OF d(1)]) (use signed_good [OF st] cs(3) in \<open>auto dest!: in_set_takeD\<close>)
  then obtain qs where
    qs: "foldR (bfkw_first_step lib 4 signer ?ctx V) (take 2 cs) (bd_new 4, []) = Inr (d, qs)"
    "list_all2 (bfkw_good lib 4 16 ?ctx V) (bd_coded_chunks d) qs" unfolding d(3) by auto
  have "\<exists>rs. foldR (bfkw_reencode_step sl lib 4 ?ctx qs d) [0..<0 + 4] ([], rng1) = Inr ([] @ rs, rng2) \<and>
    (\<forall>c \<in> set rs. coded_by 4 16 V c) \<and>
    map cc_b rs = map (reencoded_coeffs 4 (map cc_b (bd_coded_chunks d))) A"
    by (rule reencode_rounds [OF orig d(2) ne _ A [folded rank]])
       (rule bfkw_reencode_step_spec [OF st(1) d(2) ne qs(2)])
  then obtain rs where
    rs: "foldR (bfkw_reencode_step sl lib 4 ?ctx qs d) [0..<4] ([], rng1) = Inr (rs, rng2)"
    "\<forall>c \<in> set rs. coded_by 4 16 V c" "map cc_b rs = map (reencoded_coeffs 4 (take 2 B)) A"
    unfolding d(3) first(1) by auto
  have "\<forall>c \<in> set (drop 2 cs). coded_by 4 16 V c \<and> ?chk c = Inr ()" using chk by (auto dest: in_set_dropD)
  from two_rounds_recover [OF sl V rs(2) this] rs(3) first(2)
  have "bindR (two_rounds ?chk rs (Inr (drop 2 cs)) (bd_new 4)) (\<lambda>d. check (bd_is_complete d)
      (recovers sl 4 sample_block (length (block_write (sl_wire sl) sample_block)) d))
    = (if spans 4 (map (reencoded_coeffs 4 (take 2 B)) A @ drop 2 B) then Inr () else Inl AssertionFailed)"
    by simp
  then show ?thesis
    using cs(1,2) chunked_as_chunks [OF V] g qs(1) inc rs(1)
    by (simp add: bfkw_reencode_pipeline_def Let_def comp_def)
qed

lemma bfkw_rejects_tampered_block_passes:
  fixes lib :: "('f::field, 'g1::ab_group_add, 'g2::ab_group_add) bfkw_lib"
  assumes sl: "packing_ok sl" "block_fits sl 4 16 sample_block" and ok: "bfkw_lib_ok lib"
    and B: "random_matrix (sl_random sl) 8 4 (seed 42) = (B, rng)"
    and g: "bfkw_generate lib (sl_random sl) rng = (signer, rng1)"
  shows "bfkw_rejects_tampered_block sl lib seed
    = (if g_smul (bf_g2 lib) (bs_sk signer) (derive_hash_points lib 4 (replicate 32 0xCC) 16 ! 0) = 0
       then Inl AssertionFailed else Inr ())"
proof -
  from chunked_exists [OF sl] obtain V where V: "chunked sl 4 16 sample_block V" by blast
  then have orig: "originals 4 16 V" by (simp add: chunked_def)
  from encode_block [OF sl V B] obtain cs where
    cs: "encode_chunks (sl_wire sl) (sl_pf sl) (sl_random sl) 4 16 8 sample_block (seed 42)
      = Inr ((cs, length (block_write (sl_wire sl) sample_block)), rng)"
    "length cs = 8" "\<forall>c \<in> set cs. coded_by 4 16 V c" by blast
  let ?ctx = "bfkw_setup_context lib 4 signer (replicate 32 0xCC) 16"
  note st = context_setting [OF ok orig g, where block_id = "replicate 32 0xCC"]
  have c: "coded_by 4 16 V (cs ! 0)" using cs(2,3) by simp
  from signed_good [OF st c] obtain p where
    p: "bfkw_sign_coded lib 4 signer ?ctx V (cc_b (cs ! 0)) = Inr p" "bfkw_good lib 4 16 ?ctx V (cs ! 0) p"
    by blast
  from bfkw_tampering_detected [OF st p(2)]
  have "bfkw_verify lib 4 ?ctx (tampered (cs ! 0)) p
      = Inr (if g_smul (bf_g2 lib) (bs_sk signer) (derive_hash_points lib 4 (replicate 32 0xCC) 16 ! 0) = 0
             then Inr () else Inl PairingMismatch)"
    by (simp add: bfkw_setup_context_def)
  with cs(1,2) chunked_as_chunks [OF V] g p(1) tampered_chunk_spec [OF c] show ?thesis
    by (simp add: bfkw_rejects_tampered_block_def Let_def comp_def)
qed

end
