(* ===== verification/Tests_Pedersen.thy ===== *)
theory Tests_Pedersen
  imports Tests_Pipeline Pedersen
begin

text \<open>
  The tests of \<open>crates/strategy/pedersen\<close>: of \<open>commitment.rs\<close>, of \<open>pedersen.rs\<close>, and the three
  integration tests. The signer's key generation is a parameter. For lawful groups and signers the
  honest tests pass; the tampering tests pass exactly when the first generator is not the identity,
  those with a foreign signer exactly when the signature does not verify under the wrong key.
\<close>

section \<open>commitment.rs\<close>

definition deterministic_generators_are_stable :: "('f, 'g) group_ops \<Rightarrow> unit test" where
  "deterministic_generators_are_stable G =
     (let ck1 = ck_canonical G 4; ck2 = ck_canonical G 4 in
      check (ck_generators ck1 = ck_generators ck2) (Inr ()))"

definition generators_are_not_identity :: "('f, 'g::zero) group_ops \<Rightarrow> unit test" where
  "generators_are_not_identity G =
     (let ck = ck_canonical G 8 in foldR (\<lambda>g _. check (g \<noteq> 0) (Inr ())) (ck_generators ck) ())"

definition commit_roundtrip :: "('f::field, 'g) group_ops \<Rightarrow> unit test" where
  "commit_roundtrip G =
     (let ck = ck_canonical G 4; scalars = [of_nat 1, of_nat 2, of_nat 3, of_nat 4] in
      bindR (call (ck_commit G ck scalars)) (\<lambda>c.
      bindR (call (ck_commit G ck scalars)) (\<lambda>c'. check (c = c') (Inr ()))))"

definition verify_honest_coded_chunk ::
  "('f::field, 'g) group_ops \<Rightarrow> ('r \<Rightarrow> 'f \<times> 'r) \<Rightarrow> (u64 \<Rightarrow> 'r) \<Rightarrow> unit test" where
  "verify_honest_coded_chunk G random seed =
     (let M = 4; N = 3; ck = ck_canonical G M;
          (chunks, rng) = random_matrix random N M (seed 42) in
      bindR (mapR (\<lambda>v. call (ck_commit G ck v)) chunks) (\<lambda>commitments.
      let (b, rng) = draw_n random N rng; w = rows_combination M b chunks in
      bindR (call (ck_verify G ck w b commitments)) (\<lambda>ok. check ok (Inr ()))))"

definition verify_detects_tampered_data ::
  "('f::field, 'g) group_ops \<Rightarrow> ('r \<Rightarrow> 'f \<times> 'r) \<Rightarrow> (u64 \<Rightarrow> 'r) \<Rightarrow> unit test" where
  "verify_detects_tampered_data G random seed =
     (let M = 4; N = 2; ck = ck_canonical G M;
          (chunks, rng) = random_matrix random N M (seed 99) in
      bindR (mapR (\<lambda>v. call (ck_commit G ck v)) chunks) (\<lambda>commitments.
      let (b, rng) = draw_n random N rng; w = rows_combination M b chunks in
      bindR (tamper_first w) (\<lambda>w.
      bindR (call (ck_verify G ck w b commitments)) (\<lambda>ok. check (\<not> ok) (Inr ())))))"

section \<open>pedersen.rs\<close>

definition pedersen_setup ::
  "('f::field, 'g, 'sk, 'pk, 'sig) pedersen_lib \<Rightarrow> ('r \<Rightarrow> 'sk \<times> 'r) \<Rightarrow> ('r \<Rightarrow> 'f \<times> 'r) \<Rightarrow> 'r \<Rightarrow>
   (('sk \<times> 'g commitment_key \<times> ('g, 'pk) pedersen_context \<times> 'f list list \<times> ('g, 'sig) pedersen_proof) \<times> 'r) test"
  where
  "pedersen_setup lib generate random rng =
     (let M = 4; N = 3; (signer, rng) = generate rng; ck = ck_canonical (pl_group lib) M;
          (chunks, rng) = random_matrix random N M rng in
      bindR (call (pedersen_sign_block lib signer ck chunks)) (\<lambda>proof.
      let ctx = pedersen_context_of lib signer ck in Inr ((signer, ck, ctx, chunks, proof), rng)))"

definition pedersen_sign_verify_roundtrip ::
  "('f::field, 'g, 'sk, 'pk, 'sig) pedersen_lib \<Rightarrow> ('r \<Rightarrow> 'sk \<times> 'r) \<Rightarrow> ('r \<Rightarrow> 'f \<times> 'r) \<Rightarrow> (u64 \<Rightarrow> 'r) \<Rightarrow> unit test"
  where
  "pedersen_sign_verify_roundtrip lib generate random seed =
     bindR (pedersen_setup lib generate random (seed 42)) (\<lambda>((signer, ck, ctx, chunks, proof), rng).
     bindR (encode_chunk random 3 4 chunks rng) (\<lambda>(coded, rng).
     verified (pedersen_verify lib ctx coded proof)))"

definition pedersen_rejects_tampered_data ::
  "('f::field, 'g, 'sk, 'pk, 'sig) pedersen_lib \<Rightarrow> ('r \<Rightarrow> 'sk \<times> 'r) \<Rightarrow> ('r \<Rightarrow> 'f \<times> 'r) \<Rightarrow> (u64 \<Rightarrow> 'r) \<Rightarrow> unit test"
  where
  "pedersen_rejects_tampered_data lib generate random seed =
     bindR (pedersen_setup lib generate random (seed 42)) (\<lambda>((signer, ck, ctx, chunks, proof), rng).
     bindR (encode_chunk random 3 4 chunks rng) (\<lambda>(coded, rng).
     bindR (tampered_chunk 3 coded) (\<lambda>coded.
     rejected CommitmentMismatch (pedersen_verify lib ctx coded proof))))"

definition pedersen_rejects_wrong_signature ::
  "('f::field, 'g, 'sk, 'pk, 'sig) pedersen_lib \<Rightarrow> ('r \<Rightarrow> 'sk \<times> 'r) \<Rightarrow> ('r \<Rightarrow> 'f \<times> 'r) \<Rightarrow> (u64 \<Rightarrow> 'r) \<Rightarrow> unit test"
  where
  "pedersen_rejects_wrong_signature lib generate random seed =
     bindR (pedersen_setup lib generate random (seed 42)) (\<lambda>((signer, ck, ctx, chunks, proof), rng).
     let (other_signer, rng) = generate rng; ck2 = ck_canonical (pl_group lib) 4 in
     bindR (call (pedersen_sign_block lib other_signer ck2 chunks)) (\<lambda>bad_proof.
     bindR (encode_chunk random 3 4 chunks rng) (\<lambda>(coded, rng).
     bindR (rejected SignatureInvalid (pedersen_verify lib ctx coded bad_proof)) (\<lambda>_.
     let other_ctx = pedersen_context_of lib other_signer ck2 in
     verified (pedersen_verify lib other_ctx coded bad_proof)))))"

definition combine_preserves_commitments ::
  "('f::field, 'g, 'sk, 'pk, 'sig) pedersen_lib \<Rightarrow> ('r \<Rightarrow> 'sk \<times> 'r) \<Rightarrow> ('r \<Rightarrow> 'f \<times> 'r) \<Rightarrow> (u64 \<Rightarrow> 'r) \<Rightarrow> unit test"
  where
  "combine_preserves_commitments lib generate random seed =
     bindR (pedersen_setup lib generate random (seed 99)) (\<lambda>((signer, ck, ctx, chunks, proof), rng).
     bindR (encode_chunk random 3 4 chunks rng) (\<lambda>(coded1, rng).
     bindR (encode_chunk random 3 4 chunks rng) (\<lambda>(coded2, rng).
     bindR (verified (pedersen_verify lib ctx coded1 proof)) (\<lambda>_.
     bindR (verified (pedersen_verify lib ctx coded2 proof)) (\<lambda>_.
     let alphas = [of_nat 3, of_nat 7 :: 'f] in
     bindR (call (pedersen_combine [proof, proof] alphas)) (\<lambda>combined.
     check (pp_commitments combined = pp_commitments proof)
       (check (pp_signature combined = pp_signature proof) (Inr ()))))))))"

definition pedersen_packet_roundtrip ::
  "('f::field, 'g, 'sk, 'pk, 'sig) pedersen_lib \<Rightarrow> ('r \<Rightarrow> 'sk \<times> 'r) \<Rightarrow> ('r \<Rightarrow> 'f \<times> 'r) \<Rightarrow> (u64 \<Rightarrow> 'r) \<Rightarrow> unit test"
  where
  "pedersen_packet_roundtrip lib generate random seed =
     bindR (pedersen_setup lib generate random (seed 55)) (\<lambda>((signer, ck, ctx, chunks, proof), rng).
     bindR (encode_chunk random 3 4 chunks rng) (\<lambda>(coded, rng).
     let pkt = \<lparr>sp_chunk = coded, sp_proof = proof\<rparr> in
     bindR (verified (sp_verify (pedersen_scheme lib) ctx pkt)) (\<lambda>_.
     let recovered = sp_chunk pkt in
     check (length (chunk_v (cc_w recovered)) = 4) (check (length (cc_b recovered) = 3) (Inr ())))))"

text \<open>The Ed25519 tests repeat the setup without the helper; the second uses two signers.\<close>

definition ed25519_sign_verify_roundtrip ::
  "('f::field, 'g, 'sk, 'pk, 'sig) pedersen_lib \<Rightarrow> ('r \<Rightarrow> 'sk \<times> 'r) \<Rightarrow> ('r \<Rightarrow> 'f \<times> 'r) \<Rightarrow> (u64 \<Rightarrow> 'r) \<Rightarrow> unit test"
  where
  "ed25519_sign_verify_roundtrip lib generate random seed =
     (let (signer, rng) = generate (seed 42); ck = ck_canonical (pl_group lib) 4;
          (chunks, rng) = random_matrix random 3 4 rng in
      bindR (call (pedersen_sign_block lib signer ck chunks)) (\<lambda>proof.
      let ctx = pedersen_context_of lib signer ck in
      bindR (encode_chunk random 3 4 chunks rng) (\<lambda>(coded, rng).
      verified (pedersen_verify lib ctx coded proof))))"

definition ed25519_rejects_wrong_signer ::
  "('f::field, 'g, 'sk, 'pk, 'sig) pedersen_lib \<Rightarrow> ('r \<Rightarrow> 'sk \<times> 'r) \<Rightarrow> ('r \<Rightarrow> 'f \<times> 'r) \<Rightarrow> (u64 \<Rightarrow> 'r) \<Rightarrow> unit test"
  where
  "ed25519_rejects_wrong_signer lib generate random seed =
     (let (signer1, rng) = generate (seed 42); (signer2, rng) = generate rng;
          ck = ck_canonical (pl_group lib) 4; (chunks, rng) = random_matrix random 3 4 rng in
      bindR (call (pedersen_sign_block lib signer1 ck chunks)) (\<lambda>proof.
      let ctx = pedersen_context_of lib signer2 ck in
      bindR (encode_chunk random 3 4 chunks rng) (\<lambda>(coded, rng).
      rejected SignatureInvalid (pedersen_verify lib ctx coded proof))))"

section \<open>Integration tests\<close>

definition pedersen_direct_pipeline ::
  "('f::field, 'r) scalar_lib \<Rightarrow> ('f, 'g, 'sk, 'pk, 'sig) pedersen_lib \<Rightarrow> ('r \<Rightarrow> 'sk \<times> 'r) \<Rightarrow> (u64 \<Rightarrow> 'r) \<Rightarrow> unit test"
  where
  "pedersen_direct_pipeline sl lib generate seed =
     (let M = 16; N = 4; K = 8; b = sample_block in
      bindR (call (encode_chunks (sl_wire sl) (sl_pf sl) (sl_random sl) N M K b (seed 42)))
        (\<lambda>((coded_chunks, byte_len), rng).
      bindR (call (as_chunks (sl_wire sl) (sl_pf sl) N M b)) (\<lambda>(original_chunks, _).
      let chunk_refs = map chunk_v original_chunks; (signer, rng) = generate rng;
          ck = ck_canonical (pl_group lib) M in
      bindR (call (pedersen_sign_block lib signer ck chunk_refs)) (\<lambda>proof.
      let ctx = pedersen_context_of lib signer ck; decoder = bd_new N in
      bindR (until bd_is_complete (check_and_add (\<lambda>coded. verified (pedersen_verify lib ctx coded proof)))
          coded_chunks decoder) (\<lambda>decoder.
      check (bd_is_complete decoder) (recovers sl N b byte_len decoder))))))"

text \<open>One round of the intermediate node: re-encode, combine the proofs, check the result.\<close>

definition pedersen_reencode_step ::
  "('f::field, 'r) scalar_lib \<Rightarrow> ('f, 'g, 'sk, 'pk, 'sig) pedersen_lib \<Rightarrow> nat \<Rightarrow> ('g, 'pk) pedersen_context \<Rightarrow>
   ('g, 'sig) pedersen_proof \<Rightarrow> 'f block_decoder \<Rightarrow> nat \<Rightarrow> 'f coded_chunk list \<times> 'r \<Rightarrow>
   ('f coded_chunk list \<times> 'r) test" where
  "pedersen_reencode_step sl lib N ctx proof decoder1 _ = (\<lambda>(reencoded, rng).
     let (alphas, rng) = random_coefficients (sl_random sl) (bd_rank decoder1) rng in
     bindR (call (bd_reencode_with N decoder1 alphas)) (\<lambda>new_chunk.
     bindR (call (pedersen_combine [proof, proof] alphas)) (\<lambda>new_proof.
     bindR (verified (pedersen_verify lib ctx new_chunk new_proof)) (\<lambda>_.
     Inr (reencoded @ [new_chunk], rng)))))"

definition pedersen_reencode_pipeline ::
  "('f::field, 'r) scalar_lib \<Rightarrow> ('f, 'g, 'sk, 'pk, 'sig) pedersen_lib \<Rightarrow> ('r \<Rightarrow> 'sk \<times> 'r) \<Rightarrow> (u64 \<Rightarrow> 'r) \<Rightarrow> unit test"
  where
  "pedersen_reencode_pipeline sl lib generate seed =
     (let M = 16; N = 4; K = 8; b = sample_block in
      bindR (call (encode_chunks (sl_wire sl) (sl_pf sl) (sl_random sl) N M K b (seed 99)))
        (\<lambda>((coded_chunks, byte_len), rng).
      bindR (call (as_chunks (sl_wire sl) (sl_pf sl) N M b)) (\<lambda>(original_chunks, _).
      let chunk_refs = map chunk_v original_chunks; (signer, rng) = generate rng;
          ck = ck_canonical (pl_group lib) M in
      bindR (call (pedersen_sign_block lib signer ck chunk_refs)) (\<lambda>proof.
      let ctx = pedersen_context_of lib signer ck;
          chk = (\<lambda>coded. verified (pedersen_verify lib ctx coded proof)) in
      bindR (bindR (prefix_of 2 coded_chunks) (\<lambda>first. foldR (check_and_add chk) first (bd_new N)))
        (\<lambda>decoder1.
      check (\<not> bd_is_complete decoder1)
       (bindR (foldR (pedersen_reencode_step sl lib N ctx proof decoder1) [0..<4] ([], rng))
         (\<lambda>(reencoded, rng).
        bindR (two_rounds chk reencoded (suffix_of 2 coded_chunks) (bd_new N)) (\<lambda>decoder2.
        check (bd_is_complete decoder2) (recovers sl N b byte_len decoder2)))))))))"

definition pedersen_rejects_tampered_block ::
  "('f::field, 'r) scalar_lib \<Rightarrow> ('f, 'g, 'sk, 'pk, 'sig) pedersen_lib \<Rightarrow> ('r \<Rightarrow> 'sk \<times> 'r) \<Rightarrow> (u64 \<Rightarrow> 'r) \<Rightarrow> unit test"
  where
  "pedersen_rejects_tampered_block sl lib generate seed =
     (let M = 16; N = 4; K = 8; b = sample_block in
      bindR (call (encode_chunks (sl_wire sl) (sl_pf sl) (sl_random sl) N M K b (seed 42)))
        (\<lambda>((coded_chunks, _), rng).
      bindR (call (as_chunks (sl_wire sl) (sl_pf sl) N M b)) (\<lambda>(original_chunks, _).
      let chunk_refs = map chunk_v original_chunks; (signer, rng) = generate rng;
          ck = ck_canonical (pl_group lib) M in
      bindR (call (pedersen_sign_block lib signer ck chunk_refs)) (\<lambda>proof.
      let ctx = pedersen_context_of lib signer ck in
      bindR (call (idx coded_chunks 0)) (\<lambda>coded.
      bindR (tampered_chunk N coded) (\<lambda>tampered.
      rejected CommitmentMismatch (pedersen_verify lib ctx tampered proof)))))))"

section \<open>When the tests pass\<close>

text \<open>A signed matrix: what \<open>setup\<close> and the integration tests start from.\<close>

lemma signed_block:
  fixes lib :: "('f::field, 'g::ab_group_add, 'sk, 'pk, 'sig) pedersen_lib"
  assumes ok: "group_ok (pl_group lib)" "signer_ok (pl_signer lib)" and V: "originals N m V"
  shows "\<exists>p. pedersen_sign_block lib sk (ck_canonical (pl_group lib) m) V = Inr p \<and>
    (\<forall>ch. coded_by N m V ch \<longrightarrow>
      pedersen_verify lib (pedersen_context_of lib sk (ck_canonical (pl_group lib) m)) ch p = Inr (Inr ())) \<and>
    pp_commitments p = map (g_msm (pl_group lib) (ck_generators (ck_canonical (pl_group lib) m))) V \<and>
    pp_signature p = sg_sign (pl_signer lib) sk pedersen_sig_ns
      (serialize_commitments (pl_gcodec lib) (pp_commitments p))"
proof -
  let ?ck = "ck_canonical (pl_group lib) m"
  let ?ctx = "pedersen_context_of lib sk ?ck"
  from pedersen_sign_block_authentic [OF ok(2), of N ?ck V sk] V obtain p where
    p: "pedersen_sign_block lib sk ?ck V = Inr p" "pedersen_authentic lib ?ctx V p" by auto
  have st: "pedersen_setting lib N m ?ctx V"
    using ok V by (simp add: pedersen_setting_def pedersen_context_of_def)
  have "pedersen_verify lib ?ctx ch p = Inr (Inr ())" if "coded_by N m V ch" for ch
    using pedersen_verify_good [OF st, of ch p] that p(2) by (simp add: pedersen_good_def)
  moreover have "pp_signature p = sg_sign (pl_signer lib) sk pedersen_sig_ns
      (serialize_commitments (pl_gcodec lib) (pp_commitments p))"
    using p(1) by (auto simp: pedersen_sign_block_def bindR_eq_Inr Let_def)
  ultimately show ?thesis
    using p by (auto simp: pedersen_authentic_def pedersen_context_of_def)
qed

text \<open>Tampering is refused exactly when the first generator is not the identity.\<close>

lemma tampering_detected:
  fixes lib :: "('f::field, 'g::ab_group_add, 'sk, 'pk, 'sig) pedersen_lib"
  assumes G: "group_ok (pl_group lib)" and V: "originals N m V" and c: "coded_by N m V c"
    and key: "length (ck_generators (pc_key ctx)) = m"
    and good: "pedersen_verify lib ctx c p = Inr (Inr ())"
  shows "pedersen_verify lib ctx (tampered c) p
    = Inr (if ck_generators (pc_key ctx) ! 0 \<noteq> 0 then Inl CommitmentMismatch else Inr ())"
proof -
  let ?P = "ck_generators (pc_key ctx)" and ?w = "chunk_v (cc_w c)"
  have "?P \<noteq> []" "length ?w = length ?P" using V c key by (auto simp: originals_def coded_by_def)
  from msm_first [OF G this(2,1), of 1] have "g_msm (pl_group lib) ?P (?w[0 := ?w ! 0 + 1])
      = g_msm (pl_group lib) ?P ?w + ?P ! 0" by (simp add: smul_one [OF G])
  with good show ?thesis
    by (auto simp: pedersen_verify_cases tampered_def split: if_splits)
qed

lemma pedersen_setup_spec:
  fixes lib :: "('f::field, 'g::ab_group_add, 'sk, 'pk, 'sig) pedersen_lib"
  assumes ok: "group_ok (pl_group lib)" "signer_ok (pl_signer lib)"
  obtains sk r0 V r1 p c1 r2 c2 r3 where
    "generate r = (sk, r0)" "random_matrix random 3 4 r0 = (V, r1)" "originals 3 4 V"
    "pedersen_sign_block lib sk (ck_canonical (pl_group lib) 4) V = Inr p"
    "pedersen_setup lib generate random r = Inr ((sk, ck_canonical (pl_group lib) 4,
      pedersen_context_of lib sk (ck_canonical (pl_group lib) 4), V, p), r1)"
    "encode_chunk random 3 4 V r1 = Inr (c1, r2)" "coded_by 3 4 V c1"
    "encode_chunk random 3 4 V r2 = Inr (c2, r3)" "coded_by 3 4 V c2"
    "\<And>ch. coded_by 3 4 V ch \<Longrightarrow>
      pedersen_verify lib (pedersen_context_of lib sk (ck_canonical (pl_group lib) 4)) ch p = Inr (Inr ())"
proof -
  obtain sk r0 V r1 b1 r2 b2 r3 where
    d: "generate r = (sk, r0)" "random_matrix random 3 4 r0 = (V, r1)" "draw_n random 3 r1 = (b1, r2)"
      "draw_n random 3 r2 = (b2, r3)" by (meson surj_pair)
  have V: "originals 3 4 V" using random_originals [OF d(2)] by simp
  from signed_block [OF ok V, of sk] obtain p where
    p: "pedersen_sign_block lib sk (ck_canonical (pl_group lib) 4) V = Inr p"
    "\<forall>ch. coded_by 3 4 V ch \<longrightarrow>
      pedersen_verify lib (pedersen_context_of lib sk (ck_canonical (pl_group lib) 4)) ch p = Inr (Inr ())"
    by blast
  from encode_chunk_coded [OF V d(3)] obtain c1 where
    c1: "encode_chunk random 3 4 V r1 = Inr (c1, r2)" "coded_by 3 4 V c1" by blast
  from encode_chunk_coded [OF V d(4)] obtain c2 where
    c2: "encode_chunk random 3 4 V r2 = Inr (c2, r3)" "coded_by 3 4 V c2" by blast
  have "pedersen_setup lib generate random r = Inr ((sk, ck_canonical (pl_group lib) 4,
      pedersen_context_of lib sk (ck_canonical (pl_group lib) 4), V, p), r1)"
    using d(1,2) p(1) by (simp add: pedersen_setup_def Let_def)
  from that [OF d(1,2) V p(1) this c1 c2] p(2) show thesis by blast
qed

lemma signer_tests_pass:
  fixes lib :: "('f::field, 'g::ab_group_add, 'sk, 'pk, 'sig) pedersen_lib"
  assumes ok: "group_ok (pl_group lib)" "signer_ok (pl_signer lib)"
  shows "pedersen_sign_verify_roundtrip lib generate random seed = Inr ()"
    and "ed25519_sign_verify_roundtrip lib generate random seed = Inr ()"
    and "combine_preserves_commitments lib generate random seed = Inr ()"
    and "pedersen_packet_roundtrip lib generate random seed = Inr ()"
proof -
  show "pedersen_sign_verify_roundtrip lib generate random seed = Inr ()"
    by (rule pedersen_setup_spec [OF ok, of generate "seed 42" random])
       (simp add: pedersen_sign_verify_roundtrip_def)
  show "ed25519_sign_verify_roundtrip lib generate random seed = Inr ()"
    by (rule pedersen_setup_spec [OF ok, of generate "seed 42" random])
       (simp add: ed25519_sign_verify_roundtrip_def)
  show "combine_preserves_commitments lib generate random seed = Inr ()"
    by (rule pedersen_setup_spec [OF ok, of generate "seed 99" random])
       (simp add: combine_preserves_commitments_def pedersen_combine_def Let_def)
  show "pedersen_packet_roundtrip lib generate random seed = Inr ()"
    by (rule pedersen_setup_spec [OF ok, of generate "seed 55" random])
       (simp add: pedersen_packet_roundtrip_def sp_verify_def pedersen_scheme_def coded_by_def Let_def)
qed

lemma pedersen_rejects_tampered_data_passes:
  fixes lib :: "('f::field, 'g::ab_group_add, 'sk, 'pk, 'sig) pedersen_lib"
  assumes ok: "group_ok (pl_group lib)" "signer_ok (pl_signer lib)"
  shows "pedersen_rejects_tampered_data lib generate random seed
    = (if ck_generators (ck_canonical (pl_group lib) 4) ! 0 \<noteq> 0 then Inr () else Inl AssertionFailed)"
proof (rule pedersen_setup_spec [OF ok, of generate "seed 42" random])
  let ?ck = "ck_canonical (pl_group lib) 4"
  fix sk r1 V p c r2 assume V: "originals 3 4 V" and c: "coded_by 3 4 V c"
    and run: "pedersen_setup lib generate random (seed 42)
      = Inr ((sk, ?ck, pedersen_context_of lib sk ?ck, V, p), r1)" "encode_chunk random 3 4 V r1 = Inr (c, r2)"
    and good: "\<And>ch. coded_by 3 4 V ch \<Longrightarrow> pedersen_verify lib (pedersen_context_of lib sk ?ck) ch p = Inr (Inr ())"
  have "pedersen_verify lib (pedersen_context_of lib sk ?ck) (tampered c) p
      = Inr (if ck_generators ?ck ! 0 \<noteq> 0 then Inl CommitmentMismatch else Inr ())"
    using tampering_detected [OF ok(1) V c _ good [OF c]] by (simp add: pedersen_context_of_def)
  with run tampered_chunk_spec [OF c] show ?thesis by (simp add: pedersen_rejects_tampered_data_def)
qed

text \<open>A proof signed with \<open>sk\<close> under the context of \<open>other\<close>.\<close>

definition foreign_accepted ::
  "('f, 'g, 'sk, 'pk, 'sig) pedersen_lib \<Rightarrow> 'sk \<Rightarrow> 'sk \<Rightarrow> 'f list list \<Rightarrow> bool" where
  "foreign_accepted lib sk other V \<longleftrightarrow>
     (let msg = serialize_commitments (pl_gcodec lib)
            (map (g_msm (pl_group lib) (ck_generators (ck_canonical (pl_group lib) 4))) V) in
      sg_verify (pl_signer lib) (sg_public_key (pl_signer lib) other) pedersen_sig_ns msg
        (sg_sign (pl_signer lib) sk pedersen_sig_ns msg))"

lemma foreign_proof:
  fixes lib :: "('f::field, 'g::ab_group_add, 'sk, 'pk, 'sig) pedersen_lib"
  assumes ok: "group_ok (pl_group lib)" "signer_ok (pl_signer lib)" and V: "originals 3 4 V"
    and c: "coded_by 3 4 V c"
    and p: "pedersen_sign_block lib sk (ck_canonical (pl_group lib) 4) V = Inr p"
  shows "pedersen_verify lib (pedersen_context_of lib other (ck_canonical (pl_group lib) 4)) c p
    = Inr (if foreign_accepted lib sk other V then Inr () else Inl SignatureInvalid)"
proof -
  from signed_block [OF ok V, of sk] p have
    sig: "pp_signature p = sg_sign (pl_signer lib) sk pedersen_sig_ns
      (serialize_commitments (pl_gcodec lib) (pp_commitments p))"
    and com: "pp_commitments p = map (g_msm (pl_group lib) (ck_generators (ck_canonical (pl_group lib) 4))) V"
    and good: "pedersen_verify lib (pedersen_context_of lib sk (ck_canonical (pl_group lib) 4)) c p = Inr (Inr ())"
    using c by auto
  from good show ?thesis
    by (auto simp: pedersen_verify_cases foreign_accepted_def sig com pedersen_context_of_def Let_def
        split: if_splits)
qed

lemma foreign_signer_tests_pass:
  fixes lib :: "('f::field, 'g::ab_group_add, 'sk, 'pk, 'sig) pedersen_lib"
  assumes ok: "group_ok (pl_group lib)" "signer_ok (pl_signer lib)"
  shows "generate (seed 42) = (sk, r0) \<Longrightarrow> random_matrix random 3 4 r0 = (V, r1) \<Longrightarrow>
      pedersen_rejects_wrong_signature lib generate random seed
        = (if foreign_accepted lib (fst (generate r1)) sk V then Inl AssertionFailed else Inr ())"
    and "generate (seed 42) = (sk1, r0) \<Longrightarrow> generate r0 = (sk2, r2) \<Longrightarrow>
      random_matrix random 3 4 r2 = (W, r3) \<Longrightarrow>
      ed25519_rejects_wrong_signer lib generate random seed
        = (if foreign_accepted lib sk1 sk2 W then Inl AssertionFailed else Inr ())"
proof -
  let ?ck = "ck_canonical (pl_group lib) 4"
  assume d: "generate (seed 42) = (sk, r0)" "random_matrix random 3 4 r0 = (V, r1)"
  have V: "originals 3 4 V" using random_originals [OF d(2)] by simp
  obtain other r2 b r3 where g: "generate r1 = (other, r2)" "draw_n random 3 r2 = (b, r3)" by (meson surj_pair)
  from signed_block [OF ok V] obtain p q where
    p: "pedersen_sign_block lib sk ?ck V = Inr p" and q: "pedersen_sign_block lib other ?ck V = Inr q" by blast
  from encode_chunk_coded [OF V g(2)] obtain c where
    c: "encode_chunk random 3 4 V r2 = Inr (c, r3)" "coded_by 3 4 V c" by blast
  have "foreign_accepted lib other other V"
    using ok(2) by (simp add: foreign_accepted_def signer_ok_def Let_def)
  with foreign_proof [OF ok V c(2) q, of other]
  have "pedersen_verify lib (pedersen_context_of lib other ?ck) c q = Inr (Inr ())" by simp
  with foreign_proof [OF ok V c(2) q, of sk] d g p q c
  show "pedersen_rejects_wrong_signature lib generate random seed
      = (if foreign_accepted lib (fst (generate r1)) sk V then Inl AssertionFailed else Inr ())"
    by (simp add: pedersen_rejects_wrong_signature_def pedersen_setup_def Let_def)
next
  let ?ck = "ck_canonical (pl_group lib) 4"
  assume d: "generate (seed 42) = (sk1, r0)" "generate r0 = (sk2, r2)" "random_matrix random 3 4 r2 = (W, r3)"
  have W: "originals 3 4 W" using random_originals [OF d(3)] by simp
  obtain b r4 where b: "draw_n random 3 r3 = (b, r4)" by force
  from signed_block [OF ok W] obtain p where p: "pedersen_sign_block lib sk1 ?ck W = Inr p" by blast
  from encode_chunk_coded [OF W b] obtain c where
    c: "encode_chunk random 3 4 W r3 = Inr (c, r4)" "coded_by 3 4 W c" by blast
  with foreign_proof [OF ok W c(2) p, of sk2] d p
  show "ed25519_rejects_wrong_signer lib generate random seed
      = (if foreign_accepted lib sk1 sk2 W then Inl AssertionFailed else Inr ())"
    by (simp add: ed25519_rejects_wrong_signer_def Let_def)
qed

lemma commitments_of:
  assumes "originals N m V"
  shows "mapR (\<lambda>v. call (ck_commit G (ck_canonical G m) v)) V
    = Inr (map (g_msm G (ck_generators (ck_canonical G m))) V)"
  by (rule mapR_pure) (use assms in \<open>auto simp: originals_def ck_commit_def\<close>)

lemma ck_verify_combination:
  fixes G :: "('f::field, 'g::ab_group_add) group_ops"
  assumes G: "group_ok G" and V: "originals N m V" and b: "length b = N"
  shows "ck_verify G (ck_canonical G m) (rows_combination m b V) b
      (map (g_msm G (ck_generators (ck_canonical G m))) V) = Inr True"
    and "ck_verify G (ck_canonical G m) ((rows_combination m b V)[0 := rows_combination m b V ! 0 + 1]) b
      (map (g_msm G (ck_generators (ck_canonical G m))) V)
        = Inr (ck_generators (ck_canonical G m) ! 0 = 0)"
proof -
  let ?P = "ck_generators (ck_canonical G m)" and ?w = "rows_combination m b V"
  have w: "?w = map (comb ((!) b) V) [0..<m]" by (rule rows_combination_comb [OF V b])
  have lin: "g_msm G ?P ?w = g_msm G (map (g_msm G ?P) V) b"
    by (rule msm_linear [OF G]) (use V b w in \<open>simp_all add: originals_def\<close>)
  have len: "length ?w = length ?P" "?P \<noteq> []"
    using w V by (auto simp: originals_def simp flip: length_0_conv)
  show "ck_verify G (ck_canonical G m) ?w b (map (g_msm G ?P) V) = Inr True"
    using lin len by (simp add: ck_verify_def ck_commit_def)
  from msm_first [OF G len, of 1] lin len
  show "ck_verify G (ck_canonical G m) (?w[0 := ?w ! 0 + 1]) b (map (g_msm G ?P) V) = Inr (?P ! 0 = 0)"
    by (simp add: ck_verify_def ck_commit_def smul_one [OF G])
qed

lemma commitment_tests_pass:
  fixes G :: "('f::field, 'g::ab_group_add) group_ops"
  assumes G: "group_ok G"
  shows "deterministic_generators_are_stable G = Inr ()"
    and "generators_are_not_identity G
      = (if 0 \<in> set (ck_generators (ck_canonical G 8)) then Inl AssertionFailed else Inr ())"
    and "commit_roundtrip G = Inr ()"
    and "verify_honest_coded_chunk G random seed = Inr ()"
    and "verify_detects_tampered_data G random seed
      = (if ck_generators (ck_canonical G 4) ! 0 = 0 then Inl AssertionFailed else Inr ())"
proof -
  show "deterministic_generators_are_stable G = Inr ()"
    by (simp add: deterministic_generators_are_stable_def Let_def)
  show "generators_are_not_identity G
      = (if 0 \<in> set (ck_generators (ck_canonical G 8)) then Inl AssertionFailed else Inr ())"
    by (auto simp: generators_are_not_identity_def foldR_check)
  show "commit_roundtrip G = Inr ()"
    by (simp add: commit_roundtrip_def ck_commit_def Let_def)
  obtain V r b r' where d: "random_matrix random 3 4 (seed 42) = (V, r)" "draw_n random 3 r = (b, r')"
    by (meson surj_pair)
  have V: "originals 3 4 V" and b: "length b = 3"
    using random_originals [OF d(1)] d(2) length_draw_n [of random 3 r] by simp_all
  show "verify_honest_coded_chunk G random seed = Inr ()"
    using d commitments_of [OF V, of G] ck_verify_combination(1) [OF G V b]
    by (simp add: verify_honest_coded_chunk_def Let_def)
  obtain W s c s' where e: "random_matrix random 2 4 (seed 99) = (W, s)" "draw_n random 2 s = (c, s')"
    by (meson surj_pair)
  have W: "originals 2 4 W" and c: "length c = 2"
    using random_originals [OF e(1)] e(2) length_draw_n [of random 2 s] by simp_all
  have "tamper_first (rows_combination 4 c W)
      = Inr ((rows_combination 4 c W)[0 := rows_combination 4 c W ! 0 + 1])"
    using rows_combination_comb [OF W c] by (simp add: tamper_first_def)
  then show "verify_detects_tampered_data G random seed
      = (if ck_generators (ck_canonical G 4) ! 0 = 0 then Inl AssertionFailed else Inr ())"
    using e commitments_of [OF W, of G] ck_verify_combination(2) [OF G W c]
    by (simp add: verify_detects_tampered_data_def Let_def)
qed

section \<open>When the integration tests pass\<close>

lemma pedersen_direct_pipeline_passes:
  fixes lib :: "('f::field, 'g::ab_group_add, 'sk, 'pk, 'sig) pedersen_lib"
  assumes sl: "packing_ok sl" "block_fits sl 4 16 sample_block"
    and ok: "group_ok (pl_group lib)" "signer_ok (pl_signer lib)"
    and B: "random_matrix (sl_random sl) 8 4 (seed 42) = (B, rng)"
  shows "pedersen_direct_pipeline sl lib generate seed = (if spans 4 B then Inr () else Inl AssertionFailed)"
proof -
  from chunked_exists [OF sl] obtain V where V: "chunked sl 4 16 sample_block V" by blast
  then have orig: "originals 4 16 V" by (simp add: chunked_def)
  from encode_block [OF sl V B] obtain cs where
    cs: "encode_chunks (sl_wire sl) (sl_pf sl) (sl_random sl) 4 16 8 sample_block (seed 42)
      = Inr ((cs, length (block_write (sl_wire sl) sample_block)), rng)"
    "\<forall>c \<in> set cs. coded_by 4 16 V c" "map cc_b cs = B" by blast
  obtain sk rng1 where g: "generate rng = (sk, rng1)" by force
  let ?ctx = "pedersen_context_of lib sk (ck_canonical (pl_group lib) 16)"
  from signed_block [OF ok orig, of sk] obtain p where
    p: "pedersen_sign_block lib sk (ck_canonical (pl_group lib) 16) V = Inr p"
    "\<forall>ch. coded_by 4 16 V ch \<longrightarrow> pedersen_verify lib ?ctx ch p = Inr (Inr ())" by blast
  let ?chk = "\<lambda>coded. verified (pedersen_verify lib ?ctx coded p)"
  have "\<forall>c \<in> set cs. coded_by 4 16 V c \<and> ?chk c = Inr ()" using cs(2) p(2) by simp
  from receive_and_recover [OF sl V fed_with_new _ this] cs(3)
  have "bindR (until bd_is_complete (check_and_add ?chk) cs (bd_new 4)) (\<lambda>d. check (bd_is_complete d)
      (recovers sl 4 sample_block (length (block_write (sl_wire sl) sample_block)) d))
    = (if spans 4 B then Inr () else Inl AssertionFailed)" by simp
  then show ?thesis
    using cs(1) chunked_as_chunks [OF V] g p(1) by (simp add: pedersen_direct_pipeline_def Let_def comp_def)
qed

lemma pedersen_reencode_pipeline_passes:
  fixes lib :: "('f::field, 'g::ab_group_add, 'sk, 'pk, 'sig) pedersen_lib"
  assumes sl: "packing_ok sl" "block_fits sl 4 16 sample_block"
    and ok: "group_ok (pl_group lib)" "signer_ok (pl_signer lib)"
    and B: "random_matrix (sl_random sl) 8 4 (seed 99) = (B, rng)" and two: "indep 4 (take 2 B)"
    and g: "generate rng = (sk, rng1)" and A: "random_matrix (sl_random sl) 4 2 rng1 = (A, rng2)"
  shows "pedersen_reencode_pipeline sl lib generate seed
    = (if spans 4 (map (reencoded_coeffs 4 (take 2 B)) A @ drop 2 B) then Inr () else Inl AssertionFailed)"
proof -
  from chunked_exists [OF sl] obtain V where V: "chunked sl 4 16 sample_block V" by blast
  then have orig: "originals 4 16 V" by (simp add: chunked_def)
  from encode_block [OF sl V B] obtain cs where
    cs: "encode_chunks (sl_wire sl) (sl_pf sl) (sl_random sl) 4 16 8 sample_block (seed 99)
      = Inr ((cs, length (block_write (sl_wire sl) sample_block)), rng)"
    "length cs = 8" "\<forall>c \<in> set cs. coded_by 4 16 V c" "map cc_b cs = B" by blast
  let ?ctx = "pedersen_context_of lib sk (ck_canonical (pl_group lib) 16)"
  from signed_block [OF ok orig, of sk] obtain p where
    p: "pedersen_sign_block lib sk (ck_canonical (pl_group lib) 16) V = Inr p"
    "\<forall>ch. coded_by 4 16 V ch \<longrightarrow> pedersen_verify lib ?ctx ch p = Inr (Inr ())" by blast
  let ?chk = "\<lambda>coded. verified (pedersen_verify lib ?ctx coded p)"
  have chk: "\<forall>c \<in> set cs. coded_by 4 16 V c \<and> ?chk c = Inr ()" using cs(3) p(2) by simp
  have first: "map cc_b (take 2 cs) = take 2 B" "map cc_b (drop 2 cs) = drop 2 B"
    using cs(4) by (auto simp: take_map drop_map)
  have "indep 4 (map cc_b (take 2 cs))" using first two by simp
  with cs(2) intermediate_node [OF chk] obtain d where
    d: "foldR (check_and_add ?chk) (take 2 cs) (bd_new 4) = Inr d" "honest 4 16 V d"
      "bd_coded_chunks d = take 2 cs"
    and rank: "bd_rank d = 2" and inc: "\<not> bd_is_complete d" and ne: "bd_coded_chunks d \<noteq> []" by auto
  have "\<exists>rs. foldR (pedersen_reencode_step sl lib 4 ?ctx p d) [0..<0 + 4] ([], rng1) = Inr ([] @ rs, rng2) \<and>
    (\<forall>c \<in> set rs. coded_by 4 16 V c) \<and>
    map cc_b rs = map (reencoded_coeffs 4 (map cc_b (bd_coded_chunks d))) A"
  proof (rule reencode_rounds [OF orig d(2) ne _ A [folded rank]])
    fix i acc r alphas r' c
    assume "random_coefficients (sl_random sl) (bd_rank d) r = (alphas, r')"
      "bd_reencode_with 4 d alphas = Inr c" "coded_by 4 16 V c"
    then show "pedersen_reencode_step sl lib 4 ?ctx p d i (acc, r) = Inr (acc @ [c], r')"
      using p(2) by (simp add: pedersen_reencode_step_def pedersen_combine_def)
  qed
  then obtain rs where
    rs: "foldR (pedersen_reencode_step sl lib 4 ?ctx p d) [0..<4] ([], rng1) = Inr (rs, rng2)"
    "\<forall>c \<in> set rs. coded_by 4 16 V c" "map cc_b rs = map (reencoded_coeffs 4 (take 2 B)) A"
    unfolding d(3) first(1) by auto
  have "\<forall>c \<in> set (drop 2 cs). coded_by 4 16 V c \<and> ?chk c = Inr ()" using chk by (auto dest: in_set_dropD)
  from two_rounds_recover [OF sl V rs(2) this] rs(3) first(2)
  have "bindR (two_rounds ?chk rs (Inr (drop 2 cs)) (bd_new 4)) (\<lambda>d. check (bd_is_complete d)
      (recovers sl 4 sample_block (length (block_write (sl_wire sl) sample_block)) d))
    = (if spans 4 (map (reencoded_coeffs 4 (take 2 B)) A @ drop 2 B) then Inr () else Inl AssertionFailed)"
    by simp
  then show ?thesis
    using cs(1,2) chunked_as_chunks [OF V] g p(1) d(1) inc rs(1)
    by (simp add: pedersen_reencode_pipeline_def Let_def comp_def)
qed

lemma pedersen_rejects_tampered_block_passes:
  fixes lib :: "('f::field, 'g::ab_group_add, 'sk, 'pk, 'sig) pedersen_lib"
  assumes sl: "packing_ok sl" "block_fits sl 4 16 sample_block"
    and ok: "group_ok (pl_group lib)" "signer_ok (pl_signer lib)"
  shows "pedersen_rejects_tampered_block sl lib generate seed
    = (if ck_generators (ck_canonical (pl_group lib) 16) ! 0 \<noteq> 0 then Inr () else Inl AssertionFailed)"
proof -
  obtain B rng sk rng1 where B: "random_matrix (sl_random sl) 8 4 (seed 42) = (B, rng)"
    and g: "generate rng = (sk, rng1)" by (meson surj_pair)
  from chunked_exists [OF sl] obtain V where V: "chunked sl 4 16 sample_block V" by blast
  then have orig: "originals 4 16 V" by (simp add: chunked_def)
  from encode_block [OF sl V B] obtain cs where
    cs: "encode_chunks (sl_wire sl) (sl_pf sl) (sl_random sl) 4 16 8 sample_block (seed 42)
      = Inr ((cs, length (block_write (sl_wire sl) sample_block)), rng)"
    "length cs = 8" "\<forall>c \<in> set cs. coded_by 4 16 V c" by blast
  let ?ck = "ck_canonical (pl_group lib) 16"
  let ?ctx = "pedersen_context_of lib sk ?ck"
  from signed_block [OF ok orig, of sk] obtain p where
    p: "pedersen_sign_block lib sk ?ck V = Inr p"
    "\<forall>ch. coded_by 4 16 V ch \<longrightarrow> pedersen_verify lib ?ctx ch p = Inr (Inr ())" by blast
  have c: "coded_by 4 16 V (cs ! 0)" using cs(2,3) by simp
  with p(2) have "pedersen_verify lib ?ctx (cs ! 0) p = Inr (Inr ())" by blast
  from tampering_detected [OF ok(1) orig c _ this]
  have "pedersen_verify lib ?ctx (tampered (cs ! 0)) p
      = Inr (if ck_generators ?ck ! 0 \<noteq> 0 then Inl CommitmentMismatch else Inr ())"
    by (simp add: pedersen_context_of_def)
  with cs(1,2) chunked_as_chunks [OF V] g p(1) tampered_chunk_spec [OF c] show ?thesis
    by (simp add: pedersen_rejects_tampered_block_def Let_def comp_def)
qed

end
