(* ===== verification/Tests_Topology.thy ===== *)
theory Tests_Topology
  imports Testing Topology
begin

text \<open>
  The tests of \<open>sim/src/topology.rs\<close>. One of them is an algorithm of its own, a breadth-first search
  from the proposer: it is shown to end and to mark exactly the nodes that can be reached. With shuffles that
  permute, all these tests pass whatever the generator draws.
\<close>

section \<open>The tests\<close>

text \<open>\<open>for node in 0..n { .. topo.neighbors(node) .. }\<close>.\<close>

definition each_node :: "topology \<Rightarrow> nat \<Rightarrow> (nat \<Rightarrow> nat list \<Rightarrow> unit test) \<Rightarrow> unit test" where
  "each_node topo n body =
     foldR (\<lambda>node _. bindR (call (tp_neighbors_of topo node)) (body node)) [0..<n] ()"

type_synonym 'r shuffle = "nat list \<Rightarrow> 'r \<Rightarrow> nat list \<times> 'r"
type_synonym 'r partial_shuffle = "nat list \<Rightarrow> nat \<Rightarrow> 'r \<Rightarrow> nat list \<times> 'r"

definition correct_degree :: "'r shuffle \<Rightarrow> 'r partial_shuffle \<Rightarrow> (u64 \<Rightarrow> 'r) \<Rightarrow> unit test" where
  "correct_degree shuffle partial_shuffle seed =
     bindR (call (random_mesh shuffle partial_shuffle 100 8 (seed 42))) (\<lambda>(topo, rng).
     check (tp_num_nodes topo = 100) (check (tp_degree topo = 8)
       (each_node topo 100 (\<lambda>node peers. check (length peers = 8) (Inr ())))))"

definition no_self_loops :: "'r shuffle \<Rightarrow> 'r partial_shuffle \<Rightarrow> (u64 \<Rightarrow> 'r) \<Rightarrow> unit test" where
  "no_self_loops shuffle partial_shuffle seed =
     bindR (call (random_mesh shuffle partial_shuffle 50 10 (seed 99))) (\<lambda>(topo, rng).
     each_node topo 50 (\<lambda>node peers. check (node \<notin> set peers) (Inr ())))"

definition no_duplicate_peers :: "'r shuffle \<Rightarrow> 'r partial_shuffle \<Rightarrow> (u64 \<Rightarrow> 'r) \<Rightarrow> unit test" where
  "no_duplicate_peers shuffle partial_shuffle seed =
     bindR (call (random_mesh shuffle partial_shuffle 50 10 (seed 77))) (\<lambda>(topo, rng).
     each_node topo 50 (\<lambda>node peers. let sorted = remdups_adj (sort peers) in
       check (length sorted = length peers) (Inr ())))"

definition visit_peer :: "nat \<Rightarrow> bool list \<times> nat list \<Rightarrow> (bool list \<times> nat list) test" where
  "visit_peer peer = (\<lambda>(visited, queue).
     bindR (call (idx visited peer)) (\<lambda>seen.
     if \<not> seen then bindR (call (upd visited peer True)) (\<lambda>visited. Inr (visited, queue @ [peer]))
     else Inr (visited, queue)))"

lemma count_update_False:
  "i < length v \<Longrightarrow> \<not> v ! i \<Longrightarrow> Suc (count_list (v[i := True]) False) = count_list v False"
  by (induction v arbitrary: i) (auto split: nat.splits)

lemma visit_peers_measure:
  assumes "foldR visit_peer peers (v, q) = Inr (v', q')"
  shows "count_list v' False + length q' = count_list v False + length q"
proof -
  have "(\<lambda>(v', q'). count_list v' False + length q' = count_list v False + length q) (v', q')"
  proof (rule foldR_inv [OF assms])
    fix x and a a' :: "bool list \<times> nat list"
    assume I: "case a of (v', q') \<Rightarrow> count_list v' False + length q' = count_list v False + length q"
      and run: "visit_peer x a = Inr a'"
    obtain va qa where a: "a = (va, qa)" by force
    show "case a' of (v', q') \<Rightarrow> count_list v' False + length q' = count_list v False + length q"
    proof (cases "x < length va \<and> \<not> va ! x")
      case True
      with count_update_False [of x va] I run a show ?thesis by (auto simp: visit_peer_def)
    next
      case False
      with I run a show ?thesis by (cases "x < length va") (auto simp: visit_peer_def idx_def)
    qed
  qed simp
  then show ?thesis by simp
qed

text \<open>\<open>while let Some(node) = queue.pop_front()\<close>: each round removes a node, and only unmarked nodes enter.\<close>

function visit_all :: "topology \<Rightarrow> bool list \<Rightarrow> nat list \<Rightarrow> bool list test" where
  "visit_all topo visited [] = Inr visited"
| "visit_all topo visited (node # queue) =
     bindR (call (tp_neighbors_of topo node)) (\<lambda>peers.
     bindR (foldR visit_peer peers (visited, queue)) (\<lambda>st. visit_all topo (fst st) (snd st)))"
  by pat_completeness auto
termination
proof (relation "measure (\<lambda>(topo, visited, queue). count_list visited False + length queue)", simp)
  fix topo node and visited :: "bool list" and queue peers :: "nat list" and st
  assume "foldR visit_peer peers (visited, queue) = Inr st"
  with visit_peers_measure [of peers visited queue "fst st" "snd st"]
  show "((topo, fst st, snd st), (topo, visited, node # queue))
    \<in> measure (\<lambda>(topo, visited, queue). count_list visited False + length queue)"
    by (simp add: case_prod_beta)
qed

definition reachable_in :: "'r shuffle \<Rightarrow> 'r partial_shuffle \<Rightarrow> nat \<times> nat \<Rightarrow> 'r \<Rightarrow> 'r test" where
  "reachable_in shuffle partial_shuffle = (\<lambda>(num_nodes, degree) rng.
     bindR (call (random_mesh shuffle partial_shuffle num_nodes degree rng)) (\<lambda>(topo, rng).
     bindR (call (upd (replicate num_nodes False) 0 True)) (\<lambda>visited.
     bindR (visit_all topo visited [0]) (\<lambda>visited.
     let reachable = length (filter (\<lambda>v. v) visited) in
     check (reachable = num_nodes) (Inr rng)))))"

definition reachable_from_proposer :: "'r shuffle \<Rightarrow> 'r partial_shuffle \<Rightarrow> (u64 \<Rightarrow> 'r) \<Rightarrow> unit test" where
  "reachable_from_proposer shuffle partial_shuffle seed =
     bindR (foldR (reachable_in shuffle partial_shuffle) [(5, 1), (10, 2), (20, 4), (50, 3), (100, 8)] (seed 123))
       (\<lambda>rng. Inr ())"

definition deterministic :: "'r shuffle \<Rightarrow> 'r partial_shuffle \<Rightarrow> (u64 \<Rightarrow> 'r) \<Rightarrow> unit test" where
  "deterministic shuffle partial_shuffle seed =
     (let rng1 = seed 42; rng2 = seed 42 in
      bindR (call (random_mesh shuffle partial_shuffle 20 5 rng1)) (\<lambda>(topo1, rng1).
      bindR (call (random_mesh shuffle partial_shuffle 20 5 rng2)) (\<lambda>(topo2, rng2).
      foldR (\<lambda>node _. bindR (call (tp_neighbors_of topo1 node)) (\<lambda>n1.
        bindR (call (tp_neighbors_of topo2 node)) (\<lambda>n2. check (n1 = n2) (Inr ())))) [0..<20] ())))"

section \<open>The search\<close>

lemma visit_peers_spec:
  assumes "length v = n" "set peers \<subseteq> {..<n}"
  shows "\<exists>v' q'. foldR visit_peer peers (v, q) = Inr (v', q @ q') \<and> length v' = n \<and>
    (\<forall>i < n. v' ! i \<longleftrightarrow> v ! i \<or> i \<in> set peers) \<and> set q' = {i \<in> set peers. \<not> v ! i}"
  using assms
proof (induction peers arbitrary: v q)
  case (Cons p peers)
  then have p: "p < n" by simp
  show ?case
  proof (cases "v ! p")
    case True
    then have "visit_peer p (v, q) = Inr (v, q)" using p Cons.prems by (simp add: visit_peer_def)
    with True Cons.IH [of v q] Cons.prems show ?thesis by fastforce
  next
    case False
    then have one: "visit_peer p (v, q) = Inr (v[p := True], q @ [p])"
      using p Cons.prems by (simp add: visit_peer_def)
    from Cons.IH [of "v[p := True]" "q @ [p]"] Cons.prems obtain v' q' where
      "foldR visit_peer peers (v[p := True], q @ [p]) = Inr (v', (q @ [p]) @ q')" "length v' = n"
      "\<forall>i < n. v' ! i \<longleftrightarrow> v[p := True] ! i \<or> i \<in> set peers" "set q' = {i \<in> set peers. \<not> v[p := True] ! i}"
      by auto
    with one False p Cons.prems show ?thesis
      by (intro exI [of _ v'] exI [of _ "p # q'"]) (auto simp: nth_list_update)
  qed
qed simp

lemma visit_all_spec:
  assumes t: "tp_num_nodes t = n" "\<forall>i < n. set (tp_neighbors t ! i) \<subseteq> {..<n}"
    and "length v = n" "\<forall>i \<in> set q. i < n \<and> v ! i"
    and "\<forall>i < n. v ! i \<longrightarrow> i \<notin> set q \<longrightarrow> (\<forall>k \<in> set (tp_neighbors t ! i). v ! k)"
  shows "\<exists>v'. visit_all t v q = Inr v' \<and> length v' = n \<and> (\<forall>i < n. v ! i \<longrightarrow> v' ! i) \<and>
    (\<forall>i < n. v' ! i \<longrightarrow> (\<forall>k \<in> set (tp_neighbors t ! i). v' ! k)) \<and>
    (\<forall>i < n. v' ! i \<longrightarrow> (\<exists>j < n. v ! j \<and> (j, i) \<in> (mesh_edges t)\<^sup>*))"
  using assms(3-5)
proof (induction "count_list v False + length q" arbitrary: v q rule: less_induct)
  case less
  show ?case
  proof (cases q)
    case Nil
    with less.prems show ?thesis by (intro exI [of _ v]) auto
  next
    case (Cons node q1)
    with less.prems have node: "node < n" "v ! node" by auto
    let ?peers = "tp_neighbors t ! node"
    have nb: "tp_neighbors_of t node = Inr ?peers" using t(1) node by (simp add: tp_neighbors_of_def tp_num_nodes_def)
    from visit_peers_spec [OF less.prems(1), of ?peers q1] t(2) node obtain v1 q2 where
      v1: "foldR visit_peer ?peers (v, q1) = Inr (v1, q1 @ q2)" "length v1 = n"
        "\<forall>i < n. v1 ! i \<longleftrightarrow> v ! i \<or> i \<in> set ?peers" "set q2 = {i \<in> set ?peers. \<not> v ! i}" by auto
    have run: "visit_all t v q = visit_all t v1 (q1 @ q2)" by (simp add: Cons nb v1(1))
    have small: "count_list v1 False + length (q1 @ q2) < count_list v False + length q"
      using visit_peers_measure [OF v1(1)] Cons by simp
    have peers: "set ?peers \<subseteq> {..<n}" using t(2) node by simp
    have "\<forall>i \<in> set (q1 @ q2). i < n \<and> v1 ! i" using less.prems(2) Cons v1(3,4) peers by auto
    moreover have "\<forall>i < n. v1 ! i \<longrightarrow> i \<notin> set (q1 @ q2) \<longrightarrow> (\<forall>k \<in> set (tp_neighbors t ! i). v1 ! k)"
    proof (intro allI impI ballI)
      fix i k assume i: "i < n" "v1 ! i" "i \<notin> set (q1 @ q2)" "k \<in> set (tp_neighbors t ! i)"
      then have k: "k < n" using t(2) by auto
      from i v1(3,4) have "v ! i" by auto
      show "v1 ! k"
      proof (cases "i = node")
        case True
        with i(4) k v1(3) show ?thesis by simp
      next
        case False
        with i \<open>v ! i\<close> less.prems(3) Cons have "v ! k" by auto
        with k v1(3) show ?thesis by simp
      qed
    qed
    ultimately obtain v' where
      v': "visit_all t v1 (q1 @ q2) = Inr v'" "length v' = n" "\<forall>i < n. v1 ! i \<longrightarrow> v' ! i"
        "\<forall>i < n. v' ! i \<longrightarrow> (\<forall>k \<in> set (tp_neighbors t ! i). v' ! k)"
        "\<forall>i < n. v' ! i \<longrightarrow> (\<exists>j < n. v1 ! j \<and> (j, i) \<in> (mesh_edges t)\<^sup>*)"
      using less.hyps [OF small v1(2)] by blast
    have "\<exists>j < n. v ! j \<and> (j, i) \<in> (mesh_edges t)\<^sup>*" if "i < n" "v' ! i" for i
    proof -
      from v'(5) that obtain j where j: "j < n" "v1 ! j" "(j, i) \<in> (mesh_edges t)\<^sup>*" by blast
      show ?thesis
      proof (cases "v ! j")
        case True
        with j show ?thesis by blast
      next
        case False
        with j v1(3) t(1) node have "(node, j) \<in> mesh_edges t" by (auto simp: mesh_edges_def)
        with j(3) node show ?thesis by (meson converse_rtrancl_into_rtrancl)
      qed
    qed
    with v' v1(3) run show ?thesis by (intro exI [of _ v']) auto
  qed
qed

text \<open>Started at the proposer, the search marks exactly what can be reached from it.\<close>

lemma search_reaches:
  assumes t: "tp_num_nodes t = n" "\<forall>i < n. set (tp_neighbors t ! i) \<subseteq> {..<n}" and n: "0 < n"
  shows "\<exists>v. visit_all t ((replicate n False)[0 := True]) [0] = Inr v \<and> length v = n \<and>
    (\<forall>i < n. v ! i \<longleftrightarrow> (0, i) \<in> (mesh_edges t)\<^sup>*)"
proof -
  let ?v0 = "(replicate n False)[0 := True]"
  have v0: "?v0 ! i \<longleftrightarrow> i = 0" if "i < n" for i using that by (simp add: nth_list_update)
  have "\<exists>v'. visit_all t ?v0 [0] = Inr v' \<and> length v' = n \<and> (\<forall>i < n. ?v0 ! i \<longrightarrow> v' ! i) \<and>
      (\<forall>i < n. v' ! i \<longrightarrow> (\<forall>k \<in> set (tp_neighbors t ! i). v' ! k)) \<and>
      (\<forall>i < n. v' ! i \<longrightarrow> (\<exists>j < n. ?v0 ! j \<and> (j, i) \<in> (mesh_edges t)\<^sup>*))"
    by (rule visit_all_spec [OF t]) (use n v0 in simp_all)
  then obtain v where v: "visit_all t ?v0 [0] = Inr v" "length v = n" "\<forall>i < n. ?v0 ! i \<longrightarrow> v ! i"
      "\<forall>i < n. v ! i \<longrightarrow> (\<forall>k \<in> set (tp_neighbors t ! i). v ! k)"
    and from0: "\<forall>i < n. v ! i \<longrightarrow> (\<exists>j < n. ?v0 ! j \<and> (j, i) \<in> (mesh_edges t)\<^sup>*)" by blast
  have start: "v ! 0" using v(3) v0 n by blast
  have sound: "(0, i) \<in> (mesh_edges t)\<^sup>*" if i: "i < n" "v ! i" for i
  proof -
    from from0 i obtain j where "j < n" "?v0 ! j" "(j, i) \<in> (mesh_edges t)\<^sup>*" by blast
    with v0 show ?thesis by blast
  qed
  have "i < n \<and> v ! i" if "(0, i) \<in> (mesh_edges t)\<^sup>*" for i
    using that
  proof (induction rule: rtrancl_induct)
    case (step i k)
    then show ?case using v(4) t by (auto simp: mesh_edges_def)
  qed (use n start in simp)
  with v(1,2) sound show ?thesis by blast
qed

section \<open>When the tests pass\<close>

lemma each_node_passes:
  assumes "tp_num_nodes t = n" "\<And>i. i < n \<Longrightarrow> body i (tp_neighbors t ! i) = Inr ()"
  shows "each_node t n body = Inr ()"
  unfolding each_node_def
  by (rule foldR_Inr_unit) (use assms in \<open>simp add: tp_neighbors_of_def tp_num_nodes_def\<close>)

lemma distinct_dedup_sorted: "sorted xs \<Longrightarrow> distinct (remdups_adj (xs :: nat list))"
  by (induction xs rule: remdups_adj.induct) auto

lemma sorted_dedup_length: "length (remdups_adj (sort xs)) = card (set (xs :: nat list))"
  using distinct_card [OF distinct_dedup_sorted, of "sort xs"] by simp

lemma mesh_tests_pass:
  assumes sh: "\<And>xs r. mset (fst (shuffle xs r)) = mset xs"
    and psh: "\<And>xs k r. mset (fst (partial_shuffle xs k r)) = mset xs"
  shows "correct_degree shuffle partial_shuffle seed = Inr ()"
    and "no_self_loops shuffle partial_shuffle seed = Inr ()"
    and "no_duplicate_peers shuffle partial_shuffle seed = Inr ()"
    and "reachable_from_proposer shuffle partial_shuffle seed = Inr ()"
    and "deterministic shuffle partial_shuffle seed = Inr ()"
proof -
  have mesh: "\<exists>t rng'. random_mesh shuffle partial_shuffle n degree rng = Inr (t, rng') \<and>
      tp_num_nodes t = n \<and> tp_degree t = degree \<and>
      (\<forall>i < n. peers_ok n i (tp_neighbors t ! i) \<and> length (tp_neighbors t ! i) = degree) \<and>
      (\<forall>j < n. (0, j) \<in> (mesh_edges t)\<^sup>*)" if "degree < n" "0 < degree" for n degree rng
    using random_mesh_ok [where shuffle = shuffle and partial_shuffle = partial_shuffle, OF sh psh that(1)] that(2)
    by simp
  show "correct_degree shuffle partial_shuffle seed = Inr ()"
    using mesh [of 8 100 "seed 42"] by (auto simp: correct_degree_def each_node_passes)
  show "no_self_loops shuffle partial_shuffle seed = Inr ()"
    using mesh [of 10 50 "seed 99"] by (auto simp: no_self_loops_def peers_ok_def each_node_passes)
  show "no_duplicate_peers shuffle partial_shuffle seed = Inr ()"
    using mesh [of 10 50 "seed 77"]
    by (auto simp: no_duplicate_peers_def peers_ok_def sorted_dedup_length distinct_card each_node_passes)
  have "\<exists>rng'. reachable_in shuffle partial_shuffle (n, degree) rng = Inr rng'" if "degree < n" "0 < degree" for n degree rng
  proof -
    from mesh [OF that, of rng] obtain t rng' where
      t: "random_mesh shuffle partial_shuffle n degree rng = Inr (t, rng')" "tp_num_nodes t = n"
        "\<forall>i < n. set (tp_neighbors t ! i) \<subseteq> {..<n}" "\<forall>j < n. (0, j) \<in> (mesh_edges t)\<^sup>*"
      by (auto simp: peers_ok_def)
    from search_reaches [OF t(2,3)] that t(4) obtain v where
      v: "visit_all t ((replicate n False)[0 := True]) [0] = Inr v" "length v = n" "\<forall>i < n. v ! i" by auto
    from v(2,3) have "filter (\<lambda>v. v) v = v" by (auto simp: filter_id_conv in_set_conv_nth)
    with t(1) v that show ?thesis by (simp add: reachable_in_def)
  qed
  note reach = this
  have "\<exists>rng'. foldR (reachable_in shuffle partial_shuffle) xs rng = Inr rng'"
    if "\<forall>(n, degree) \<in> set xs. 0 < degree \<and> degree < n" for xs rng
    using that
  proof (induction xs arbitrary: rng)
    case (Cons x xs)
    with reach [of "snd x" "fst x" rng] show ?case by (auto split: prod.splits)
  qed simp
  from this [of "[(5, 1), (10, 2), (20, 4), (50, 3), (100, 8)]" "seed 123"]
  show "reachable_from_proposer shuffle partial_shuffle seed = Inr ()"
    by (auto simp del: foldR.simps simp: reachable_from_proposer_def)
  from mesh [of 5 20 "seed 42"] obtain t rng' where
    t: "random_mesh shuffle partial_shuffle 20 5 (seed 42) = Inr (t, rng')" "tp_num_nodes t = 20" by auto
  have "foldR (\<lambda>node _. bindR (call (tp_neighbors_of t node)) (\<lambda>n1.
      bindR (call (tp_neighbors_of t node)) (\<lambda>n2. check (n1 = n2) (Inr ())))) [0..<20] () = Inr ()"
    by (rule foldR_Inr_unit) (use t(2) in \<open>simp add: tp_neighbors_of_def tp_num_nodes_def\<close>)
  with t(1) show "deterministic shuffle partial_shuffle seed = Inr ()"
    by (simp add: deterministic_def Let_def)
qed

end
