(* ===== verification/Tests_Node.thy ===== *)
theory Tests_Node
  imports Protocol_Traced
begin

text \<open>
  The tests of the node's protocols (\<open>node/src/baseline.rs\<close>, \<open>node/src/pedersen.rs\<close>,
  \<open>node/src/bfkw.rs\<close>): a block is proposed, announced, received, recoded and decoded over serialized
  packets. The Pedersen and the BFKW tests have the same text over two protocols; here they are
  written once, over the record of a protocol's functions, and what they do is derived from the contract
  \<open>traced_protocol\<close>: each test passes exactly when the vectors drawn span.
\<close>

section \<open>The tests\<close>

definition ingest_ok ::
  "('self, 'r) protocol \<Rightarrow> channel \<Rightarrow> u64 \<Rightarrow> bytes \<Rightarrow> 'self \<Rightarrow> 'self test" where
  "ingest_ok P ch num data receiver =
     bindR (call (pt_ingest P receiver ch num data)) (\<lambda>(receiver, result).
     check (\<not> isl result) (Inr receiver))"

definition ingest_unwrap ::
  "('self, 'r) protocol \<Rightarrow> channel \<Rightarrow> u64 \<Rightarrow> bytes \<Rightarrow> 'self \<Rightarrow> 'self test" where
  "ingest_unwrap P ch num data receiver =
     bindR (call (pt_ingest P receiver ch num data)) (\<lambda>(receiver, result).
     bindR (unwrap result) (\<lambda>_. Inr receiver))"

text \<open>\<open>let decoded = receiver.decode(); assert_eq!(block, decoded);\<close>.\<close>

definition decodes_to :: "('self, 'r) protocol \<Rightarrow> block \<Rightarrow> 'self \<Rightarrow> 'self test" where
  "decodes_to P b receiver =
     bindR (call (pt_decode P receiver)) (\<lambda>(decoded, receiver). check (block_eq b decoded) (Inr receiver))"

definition propose_ingest_decode ::
  "('self, 'r) protocol \<Rightarrow> 'self \<Rightarrow> 'self \<Rightarrow> 'r \<Rightarrow> unit test" where
  "propose_ingest_decode P proposer receiver rng =
     (let b = sample_block_num 0 in
      bindR (call (pt_propose P proposer b 15 rng)) (\<lambda>((proposal, proposer), rng).
      bindR (ingest_unwrap P Announce 0 (pr_announcement proposal) receiver) (\<lambda>receiver.
      bindR (until (pt_is_complete P) (ingest_ok P Data 0) (pr_packets proposal) receiver) (\<lambda>receiver.
      check (pt_is_complete P receiver)
       (bindR (decodes_to P b receiver) (\<lambda>_. Inr ()))))))"

definition recode_and_decode ::
  "('self, 'r) protocol \<Rightarrow> 'self \<Rightarrow> 'self \<Rightarrow> 'self \<Rightarrow> 'r \<Rightarrow> unit test" where
  "recode_and_decode P proposer intermediate receiver rng =
     (let b = sample_block_num 1 in
      bindR (call (pt_propose P proposer b 15 rng)) (\<lambda>((proposal, proposer), rng).
      bindR (ingest_unwrap P Announce 1 (pr_announcement proposal) intermediate) (\<lambda>intermediate.
      bindR (bindR (prefix_of 3 (pr_packets proposal)) (\<lambda>first.
          foldR (ingest_unwrap P Data 1) first intermediate)) (\<lambda>intermediate.
      check (\<not> pt_is_complete P intermediate)
       (bindR (call (pt_recode P intermediate 15 rng)) (\<lambda>(recoded, rng).
        bindR (ingest_unwrap P Announce 1 (pr_announcement proposal) receiver) (\<lambda>receiver.
        bindR (until (pt_is_complete P) (ingest_unwrap P Data 1) recoded receiver) (\<lambda>receiver.
        bindR (if \<not> pt_is_complete P receiver
               then bindR (suffix_of 3 (pr_packets proposal)) (\<lambda>pkts.
                 until (pt_is_complete P) (ingest_unwrap P Data 1) pkts receiver)
               else Inr receiver) (\<lambda>receiver.
        check (pt_is_complete P receiver)
         (bindR (decodes_to P b receiver) (\<lambda>_. Inr ())))))))))))"

definition block_round ::
  "('self, 'r) protocol \<Rightarrow> nat \<Rightarrow> ('self \<times> 'self) \<times> 'r \<Rightarrow> (('self \<times> 'self) \<times> 'r) test" where
  "block_round P block_num = (\<lambda>((proposer, receiver), rng).
     let b = sample_block_num (of_nat block_num) in
     bindR (call (pt_propose P proposer b 15 rng)) (\<lambda>((proposal, proposer), rng).
     bindR (ingest_unwrap P Announce (of_nat block_num) (pr_announcement proposal) receiver) (\<lambda>receiver.
     bindR (until (pt_is_complete P) (ingest_unwrap P Data (of_nat block_num)) (pr_packets proposal) receiver)
       (\<lambda>receiver.
     check (pt_is_complete P receiver)
      (bindR (decodes_to P b receiver) (\<lambda>receiver.
       Inr ((pt_reset P proposer, pt_reset P receiver), rng)))))))"

definition multi_block_with_reset ::
  "('self, 'r) protocol \<Rightarrow> 'self \<Rightarrow> 'self \<Rightarrow> 'r \<Rightarrow> unit test" where
  "multi_block_with_reset P proposer receiver rng =
     bindR (foldR (block_round P) [0..<3] ((proposer, receiver), rng)) (\<lambda>_. Inr ())"

text \<open>The tests of \<open>pedersen.rs\<close> and of \<open>bfkw.rs\<close>: how they make the signer and the protocols.\<close>

definition pedersen_node_tests ::
  "('f::field, 'r) scalar_lib \<Rightarrow> ('f, 'g::zero, 'sk, 'pk, 'sig) pedersen_lib \<Rightarrow> ('r \<Rightarrow> 'sk \<times> 'r) \<Rightarrow> (u64 \<Rightarrow> 'r) \<Rightarrow>
   unit test list" where
  "pedersen_node_tests sl lib generate seed =
     (let N = 10; M = 16; P = pedersen_protocol sl lib N;
          make = (\<lambda>test n. let (signer, rng) = generate (seed n); pk = sg_public_key (pl_signer lib) signer in
            test (pedersen_protocol_new lib N M pk (Some signer)) (pedersen_protocol_new lib N M pk None) rng) in
      [make (propose_ingest_decode P) 42,
       make (\<lambda>proposer receiver. recode_and_decode P proposer receiver receiver) 99,
       make (multi_block_with_reset P) 42])"

definition bfkw_node_tests ::
  "('f::field, 'r) scalar_lib \<Rightarrow> ('f, 'g1, 'g2) bfkw_lib \<Rightarrow> (u64 \<Rightarrow> 'r) \<Rightarrow> unit test list" where
  "bfkw_node_tests sl lib seed =
     (let N = 10; M = 16; P = bfkw_protocol sl lib N;
          make = (\<lambda>test n. let (signer, rng) = bfkw_generate lib (sl_random sl) (seed n); pk = bs_pk signer in
            test (bfkw_protocol_new N M pk (Some signer)) (bfkw_protocol_new N M pk None) rng) in
      [make (propose_ingest_decode P) 42,
       make (\<lambda>proposer receiver. recode_and_decode P proposer receiver receiver) 99,
       make (multi_block_with_reset P) 42])"

text \<open>The tests of \<open>baseline.rs\<close>.\<close>

definition baseline_propose_ingest_decode :: "wire \<Rightarrow> 'r \<Rightarrow> unit test" where
  "baseline_propose_ingest_decode wc rng =
     (let P = baseline_protocol wc; b = sample_block_num 0 in
      bindR (call (pt_propose P baseline_protocol_new b 3 rng)) (\<lambda>((proposal, proposer), rng).
      check (length (pr_packets proposal) = 3) (check (length (pr_announcement proposal) = 8)
       (bindR (call (pt_ingest P baseline_protocol_new Announce 0 (pr_announcement proposal)))
         (\<lambda>(receiver, result).
        bindR (unwrap result) (\<lambda>r. check r
         (bindR (call (idx (pr_packets proposal) 0)) (\<lambda>packet.
          bindR (call (pt_ingest P receiver Data 0 packet)) (\<lambda>(receiver, result).
          bindR (unwrap result) (\<lambda>r. check r
           (check (pt_is_complete P receiver)
            (bindR (decodes_to P b receiver) (\<lambda>_. Inr ())))))))))))))"

definition baseline_round :: "wire \<Rightarrow> nat \<Rightarrow> 'r \<Rightarrow> 'r test" where
  "baseline_round wc block_num rng =
     (let P = baseline_protocol wc; b = sample_block_num (of_nat block_num) in
      bindR (call (pt_propose P baseline_protocol_new b 1 rng)) (\<lambda>((proposal, proposer), rng).
      bindR (ingest_unwrap P Announce (of_nat block_num) (pr_announcement proposal) baseline_protocol_new) (\<lambda>receiver.
      bindR (call (idx (pr_packets proposal) 0)) (\<lambda>packet.
      bindR (ingest_unwrap P Data (of_nat block_num) packet receiver) (\<lambda>receiver.
      bindR (decodes_to P b receiver) (\<lambda>receiver.
      check (\<not> pt_is_complete P (pt_reset P receiver)) (Inr rng)))))))"

definition baseline_multi_block :: "wire \<Rightarrow> 'r \<Rightarrow> unit test" where
  "baseline_multi_block wc rng = bindR (foldR (baseline_round wc) [0..<3] rng) (\<lambda>_. Inr ())"

definition duplicate_data_returns_false :: "wire \<Rightarrow> 'r \<Rightarrow> unit test" where
  "duplicate_data_returns_false wc rng =
     (let P = baseline_protocol wc; b = sample_block_num 0 in
      bindR (call (pt_propose P baseline_protocol_new b 1 rng)) (\<lambda>((proposal, proposer), rng).
      bindR (ingest_unwrap P Announce 0 (pr_announcement proposal) baseline_protocol_new) (\<lambda>receiver.
      bindR (call (idx (pr_packets proposal) 0)) (\<lambda>packet.
      bindR (call (pt_ingest P receiver Data 0 packet)) (\<lambda>(receiver, result).
      bindR (unwrap result) (\<lambda>r. check r
       (bindR (call (pt_ingest P receiver Data 0 packet)) (\<lambda>(receiver, result).
        bindR (unwrap result) (\<lambda>r. check (\<not> r) (Inr ()))))))))))"

section \<open>The baseline\<close>

lemma baseline_tests_pass:
  assumes wc: "wire_ok wc" and small: "\<And>n. length (block_write wc (sample_block_num n)) < 2 ^ 64"
  shows "baseline_propose_ingest_decode wc rng = Inr ()"
    and "baseline_multi_block wc rng = Inr ()"
    and "duplicate_data_returns_false wc rng = Inr ()"
proof -
  have dec: "block_decode wc (block_write wc (sample_block_num n)) = Inr (sample_block_num n)" for n
    using block_decode_write [OF wc, of "sample_block_num n"] sample_block_readable(1) [of n]
    by (simp add: readable_def)
  have ann: "read_announcement (encode_announcement (length (block_write wc (sample_block_num n))))
      = Inr (length (block_write wc (sample_block_num n)))" for n
    using read_encode_announcement [OF small, of n "[]"] by simp
  note run = baseline_protocol_def baseline_protocol_new_def baseline_propose_def ann dec ingest_unwrap_def
    baseline_is_complete_def decodes_to_def baseline_protocol_decode_def baseline_reset_def block_eq_iff Let_def
  show "baseline_propose_ingest_decode wc rng = Inr ()"
    by (simp add: baseline_propose_ingest_decode_def run) (simp add: encode_announcement_def)
  show "duplicate_data_returns_false wc rng = Inr ()"
    by (simp add: duplicate_data_returns_false_def run)
  have round: "baseline_round wc n rng = Inr rng" for n rng
    by (simp add: baseline_round_def run)
  show "baseline_multi_block wc rng = Inr ()"
    by (simp add: baseline_multi_block_def round upt_rec [of _ 3] eval_nat_numeral)
qed

section \<open>The tests over a traced protocol\<close>

context traced_protocol
begin

text \<open>One packet, however the test unpacks the result.\<close>

lemma ingest_step:
  assumes "holds c b ks cs s" "carries c b p ch" "signable c b (cc_b ch)"
  obtains s' r where "ingest_ok (proto c) Data (bl_number b) p s = Inr s'"
    "ingest_unwrap (proto c) Data (bl_number b) p s = Inr s'"
    "holds c b (if r then ks @ [ch] else ks) (cs @ [ch]) s'"
    "r \<longleftrightarrow> \<not> pt_is_complete (proto c) s \<and> \<not> in_span (dim c) (map cc_b ks) (cc_b ch)"
  using data_traced [OF assms] by (auto simp: ingest_ok_def ingest_unwrap_def)

lemma announce_step:
  assumes "idle c s" "fits c b" "announcement c b a"
  obtains s' where "ingest_unwrap (proto c) Announce (bl_number b) a s = Inr s'" "holds c b [] [] s'"
  using announce_traced [OF assms] by (auto simp: ingest_unwrap_def)

text \<open>The receiving loop ends, and the receiver is complete exactly when all packets together span.\<close>

lemma receive_packets:
  assumes "holds c b ks cs s" "\<not> pt_is_complete (proto c) s" "list_all2 (\<lambda>p ch. carries c b p ch \<and> signable c b (cc_b ch)) ps chs"
    and f: "f = ingest_ok (proto c) Data (bl_number b) \<or> f = ingest_unwrap (proto c) Data (bl_number b)"
  obtains s' ks' k where "until (pt_is_complete (proto c)) f ps s = Inr s'"
    "holds c b ks' (cs @ take k chs) s'" "pt_is_complete (proto c) s' \<or> length chs \<le> k"
    "pt_is_complete (proto c) s' \<longleftrightarrow> spans (dim c) (map cc_b (cs @ chs))"
proof -
  have len: "length ps = length chs" using assms(3) by (rule list_all2_lengthD)
  have "\<exists>s' k. until (pt_is_complete (proto c)) f (drop 0 ps) s = Inr s' \<and> k \<le> length ps \<and>
      (\<exists>ks'. holds c b ks' (cs @ take k chs) s') \<and> (pt_is_complete (proto c) s' \<or> k = length ps)"
  proof (rule until_steps)
    fix i s assume i: "i < length ps" and "\<exists>ks'. holds c b ks' (cs @ take i chs) s"
    then obtain ks' where h: "holds c b ks' (cs @ take i chs) s" by blast
    from list_all2_nthD [OF assms(3) i] have "carries c b (ps ! i) (chs ! i)" "signable c b (cc_b (chs ! i))"
      by simp_all
    from ingest_step [OF h this] f i len
    show "\<exists>s'. f (ps ! i) s = Inr s' \<and> (\<exists>ks'. holds c b ks' (cs @ take (Suc i) chs) s')"
      by (metis append.assoc take_Suc_conv_app_nth)
  qed (use assms(1,2) in auto)
  then obtain s' k ks' where run: "until (pt_is_complete (proto c)) f ps s = Inr s'"
    and h: "holds c b ks' (cs @ take k chs) s'" and stop: "pt_is_complete (proto c) s' \<or> length chs \<le> k"
    by (auto simp: len)
  have "pt_is_complete (proto c) s' \<longleftrightarrow> spans (dim c) (map cc_b (cs @ chs))"
  proof (cases "length chs \<le> k")
    case True
    then show ?thesis using holds_complete [OF h] by simp
  next
    case False
    with stop holds_complete [OF h] have full: "pt_is_complete (proto c) s'"
      and sp: "spans (dim c) (map cc_b (cs @ take k chs))" by simp_all
    from sp have "spans (dim c) (map cc_b (cs @ chs))"
      by (rule spans_mono) (auto dest: in_set_takeD)
    with full show ?thesis by simp
  qed
  with that run h stop show thesis by blast
qed

lemma decode_step:
  assumes "live c b s" "pt_is_complete (proto c) s"
  obtains s' where "decodes_to (proto c) b s = Inr s'" "idle c (pt_reset (proto c) s')"
  using decode [OF assms] by (auto simp: decodes_to_def block_eq_iff)

text \<open>From the proposal to the receiver's last packet, however many packets there are.\<close>

lemma proposal_received:
  assumes id: "idle c s" "proposer c s" "idle c r" and ft: "fits c b"
    and B: "random_matrix (draw c) k (dim c) rng = (B, rng')" "\<forall>v \<in> set B. signable c b v"
    and f: "f = ingest_ok (proto c) Data (bl_number b) \<or> f = ingest_unwrap (proto c) Data (bl_number b)"
  obtains pr s' r0 r1 where "pt_propose (proto c) s b k rng = Inr ((pr, s'), rng')"
    "live c b s'" "proposer c s'"
    "ingest_unwrap (proto c) Announce (bl_number b) (pr_announcement pr) r = Inr r0"
    "until (pt_is_complete (proto c)) f (pr_packets pr) r0 = Inr r1"
    "live c b r1" "pt_is_complete (proto c) r1 \<longleftrightarrow> spans (dim c) B"
proof -
  from propose_readable [OF id(1,2) ft B] obtain pr s' cs where
    pr: "pt_propose (proto c) s b k rng = Inr ((pr, s'), rng')" "live c b s'" "proposer c s'"
      "announcement c b (pr_announcement pr)" "list_all2 (\<lambda>p ch. carries c b p ch \<and> signable c b (cc_b ch)) (pr_packets pr) cs" "map cc_b cs = B"
    by blast
  from announce_step [OF id(3) ft pr(4)] obtain r0 where
    r0: "ingest_unwrap (proto c) Announce (bl_number b) (pr_announcement pr) r = Inr r0" "holds c b [] [] r0" .
  have new: "\<not> pt_is_complete (proto c) r0" using holds_complete [OF r0(2)] by auto
  from receive_packets [OF r0(2) new pr(5) f] obtain r1 ks j where
    r1: "until (pt_is_complete (proto c)) f (pr_packets pr) r0 = Inr r1"
      "holds c b ks ([] @ take j cs) r1" "pt_is_complete (proto c) r1 \<longleftrightarrow> spans (dim c) (map cc_b ([] @ cs))" .
  with that pr r0(1) holds_live [OF r1(2)] show thesis by simp
qed

lemma proposal_completes:
  assumes id: "idle c s" "proposer c s" "idle c r" and ft: "fits c b"
    and B: "random_matrix (draw c) k (dim c) rng = (B, rng')" "\<forall>v \<in> set B. signable c b v"
  shows "\<exists>pr s' r0 r1. pt_propose (proto c) s b k rng = Inr ((pr, s'), rng') \<and>
    ingest_unwrap (proto c) Announce (bl_number b) (pr_announcement pr) r = Inr r0 \<and>
    until (pt_is_complete (proto c)) (ingest_unwrap (proto c) Data (bl_number b)) (pr_packets pr) r0 = Inr r1 \<and>
    (pt_is_complete (proto c) r1 \<longleftrightarrow> spans (dim c) B) \<and>
    (spans (dim c) B \<longrightarrow> (\<exists>r2. pt_decode (proto c) r1 = Inr (b, r2)))"
proof (rule proposal_received [OF id ft B disjI2 [OF refl]])
  fix pr s' r0 r1
  assume "pt_propose (proto c) s b k rng = Inr ((pr, s'), rng')"
      "ingest_unwrap (proto c) Announce (bl_number b) (pr_announcement pr) r = Inr r0"
      "until (pt_is_complete (proto c)) (ingest_unwrap (proto c) Data (bl_number b)) (pr_packets pr) r0 = Inr r1"
    and "live c b r1" "pt_is_complete (proto c) r1 \<longleftrightarrow> spans (dim c) B"
  moreover from this have "\<exists>r2. pt_decode (proto c) r1 = Inr (b, r2)" if "spans (dim c) B"
    using decode [of c b r1] that by blast
  ultimately show ?thesis by blast
qed

lemma propose_ingest_decode_passes:
  assumes id: "idle c s" "proposer c s" "idle c r" and ft: "fits c (sample_block_num 0)"
    and B: "random_matrix (draw c) 15 (dim c) rng = (B, rng')" "\<forall>v \<in> set B. signable c (sample_block_num 0) v"
  shows "propose_ingest_decode (proto c) s r rng = (if spans (dim c) B then Inr () else Inl AssertionFailed)"
proof (rule proposal_received [OF id ft B disjI1 [OF refl]])
  fix pr s' r0 r1
  assume run: "pt_propose (proto c) s (sample_block_num 0) 15 rng = Inr ((pr, s'), rng')"
      "ingest_unwrap (proto c) Announce (bl_number (sample_block_num 0)) (pr_announcement pr) r = Inr r0"
      "until (pt_is_complete (proto c)) (ingest_ok (proto c) Data (bl_number (sample_block_num 0)))
        (pr_packets pr) r0 = Inr r1"
    and r1: "live c (sample_block_num 0) r1" and full: "pt_is_complete (proto c) r1 \<longleftrightarrow> spans (dim c) B"
  show ?thesis
  proof (cases "spans (dim c) B")
    case True
    with full have "pt_is_complete (proto c) r1" by simp
    from decode_step [OF r1 this] obtain r2 where "decodes_to (proto c) (sample_block_num 0) r1 = Inr r2" .
    with True run full show ?thesis by (simp add: propose_ingest_decode_def)
  next
    case False
    with run full show ?thesis by (simp add: propose_ingest_decode_def)
  qed
qed

lemma block_round_spec:
  assumes id: "idle c s" "proposer c s" "idle c r" and ft: "fits c (sample_block_num (of_nat n))"
    and B: "random_matrix (draw c) 15 (dim c) rng = (B, rng')"
      "\<forall>v \<in> set B. signable c (sample_block_num (of_nat n)) v"
  shows "if spans (dim c) B
    then \<exists>s' r'. block_round (proto c) n ((s, r), rng) = Inr ((s', r'), rng') \<and>
      idle c s' \<and> proposer c s' \<and> idle c r'
    else block_round (proto c) n ((s, r), rng) = Inl AssertionFailed"
proof (rule proposal_received [OF id ft B disjI2 [OF refl]])
  let ?b = "sample_block_num (of_nat n)"
  fix pr s' r0 r1
  assume run: "pt_propose (proto c) s ?b 15 rng = Inr ((pr, s'), rng')"
      "ingest_unwrap (proto c) Announce (bl_number ?b) (pr_announcement pr) r = Inr r0"
      "until (pt_is_complete (proto c)) (ingest_unwrap (proto c) Data (bl_number ?b)) (pr_packets pr) r0 = Inr r1"
    and s': "live c ?b s'" "proposer c s'"
    and r1: "live c ?b r1" and full: "pt_is_complete (proto c) r1 \<longleftrightarrow> spans (dim c) B"
  show ?thesis
  proof (cases "spans (dim c) B")
    case True
    with full have "pt_is_complete (proto c) r1" by simp
    from decode_step [OF r1 this] obtain r2 where
      "decodes_to (proto c) ?b r1 = Inr r2" "idle c (pt_reset (proto c) r2)" .
    with True run full reset [OF s'(1)] reset_proposer [OF s'(2)] show ?thesis
      by (simp add: block_round_def Let_def)
  next
    case False
    with run full show ?thesis by (simp add: block_round_def Let_def)
  qed
qed

lemma multi_block_with_reset_passes:
  assumes id: "idle c s" "proposer c s" "idle c r" and ft: "\<And>n. fits c (sample_block_num n)"
    and B: "random_matrix (draw c) 15 (dim c) rng0 = (B0, rng1)" "random_matrix (draw c) 15 (dim c) rng1 = (B1, rng2)"
      "random_matrix (draw c) 15 (dim c) rng2 = (B2, rng3)"
    and sg: "\<forall>v \<in> set B0. signable c (sample_block_num 0) v" "\<forall>v \<in> set B1. signable c (sample_block_num 1) v"
      "\<forall>v \<in> set B2. signable c (sample_block_num 2) v"
  shows "multi_block_with_reset (proto c) s r rng0
    = (if spans (dim c) B0 \<and> spans (dim c) B1 \<and> spans (dim c) B2 then Inr () else Inl AssertionFailed)"
proof -
  have xs: "[0..<3] = [0, 1, 2 :: nat]" by (simp add: upt_rec eval_nat_numeral)
  note run = multi_block_with_reset_def xs
  show ?thesis
  proof (cases "spans (dim c) B0")
    case False
    with block_round_spec [OF id ft B(1), of 0] sg(1) show ?thesis by (simp add: run)
  next
    case 0: True
    with block_round_spec [OF id ft B(1), of 0] sg(1) obtain s1 r1 where
      1: "block_round (proto c) 0 ((s, r), rng0) = Inr ((s1, r1), rng1)" "idle c s1" "proposer c s1" "idle c r1"
      by auto
    show ?thesis
    proof (cases "spans (dim c) B1")
      case False
      with block_round_spec [OF 1(2-4) ft B(2), of 1] sg(2) 1(1) show ?thesis by (simp add: run)
    next
      case True
      with block_round_spec [OF 1(2-4) ft B(2), of 1] sg(2) obtain s2 r2 where
        2: "block_round (proto c) 1 ((s1, r1), rng1) = Inr ((s2, r2), rng2)" "idle c s2" "proposer c s2" "idle c r2"
        by auto
      from block_round_spec [OF 2(2-4) ft B(3), of 2] sg(3) 0 True 1(1) 2(1) show ?thesis
        by (auto simp: run split: if_splits)
    qed
  qed
qed

text \<open>Independent packets are all kept.\<close>

lemma ingest_independent:
  assumes "holds c b ks cs s" "list_all2 (\<lambda>p ch. carries c b p ch \<and> signable c b (cc_b ch)) ps chs"
    and "indep_after (dim c) (map cc_b ks) (map cc_b chs)" "length ks + length chs \<le> dim c"
  shows "\<exists>s'. foldR (ingest_unwrap (proto c) Data (bl_number b)) ps s = Inr s' \<and>
    holds c b (ks @ chs) (cs @ chs) s'"
  using assms(2,1,3,4)
proof (induction ps chs arbitrary: ks cs s rule: list_all2_induct)
  case (Cons p ps ch chs)
  from ingest_step [OF Cons.prems(1) conjunct1 [OF Cons.hyps(1)] conjunct2 [OF Cons.hyps(1)]] obtain s1 r where
    s1: "ingest_unwrap (proto c) Data (bl_number b) p s = Inr s1"
      "holds c b (if r then ks @ [ch] else ks) (cs @ [ch]) s1"
      "r \<longleftrightarrow> \<not> pt_is_complete (proto c) s \<and> \<not> in_span (dim c) (map cc_b ks) (cc_b ch)" .
  have "length ks \<noteq> dim c" using Cons.prems(3) by simp
  with holds_complete [OF Cons.prems(1)] Cons.prems(2) s1(3) have r by auto
  with s1(2) have h: "holds c b (ks @ [ch]) (cs @ [ch]) s1" by simp
  from Cons.IH [OF h] Cons.prems(2,3) s1(1) show ?case by auto
qed simp

text \<open>The second receiver: first the recoded packets and, if they do not suffice, the remaining ones.\<close>

lemma receive_in_two_rounds:
  assumes h: "holds c b [] [] s" and rs: "list_all2 (\<lambda>p ch. carries c b p ch \<and> signable c b (cc_b ch)) ps rs" and qs: "list_all2 (\<lambda>p ch. carries c b p ch \<and> signable c b (cc_b ch)) qs cs"
  shows "\<exists>s' ks ds. bindR (until (pt_is_complete (proto c)) (ingest_unwrap (proto c) Data (bl_number b)) ps s)
      (\<lambda>s. if \<not> pt_is_complete (proto c) s
           then until (pt_is_complete (proto c)) (ingest_unwrap (proto c) Data (bl_number b)) qs s
           else Inr s) = Inr s' \<and>
    holds c b ks ds s' \<and> (pt_is_complete (proto c) s' \<longleftrightarrow> spans (dim c) (map cc_b (rs @ cs)))"
proof -
  have new: "\<not> pt_is_complete (proto c) s" using holds_complete [OF h] by auto
  from receive_packets [OF h new rs disjI2 [OF refl]] obtain s1 k1 n where
    s1: "until (pt_is_complete (proto c)) (ingest_unwrap (proto c) Data (bl_number b)) ps s = Inr s1"
      "holds c b k1 ([] @ take n rs) s1" "pt_is_complete (proto c) s1 \<or> length rs \<le> n"
      "pt_is_complete (proto c) s1 \<longleftrightarrow> spans (dim c) (map cc_b ([] @ rs))" .
  show ?thesis
  proof (cases "pt_is_complete (proto c) s1")
    case True
    with s1(4) have "spans (dim c) (map cc_b rs)" by simp
    then have "spans (dim c) (map cc_b (rs @ cs))" by (rule spans_mono) auto
    with True s1(1,2) show ?thesis by auto
  next
    case False
    with s1(2,3) have "holds c b k1 rs s1" by simp
    from receive_packets [OF this False qs disjI2 [OF refl]] obtain s2 k2 n' where
      "until (pt_is_complete (proto c)) (ingest_unwrap (proto c) Data (bl_number b)) qs s1 = Inr s2"
      "holds c b k2 (rs @ take n' cs) s2" "pt_is_complete (proto c) s2 \<longleftrightarrow> spans (dim c) (map cc_b (rs @ cs))" .
    with False s1(1) show ?thesis by auto
  qed
qed

lemma recode_and_decode_passes:
  assumes id: "idle c s" "proposer c s" "idle c i" "idle c r" and ft: "fits c (sample_block_num 1)"
    and B: "random_matrix (draw c) 15 (dim c) rng = (B, rng1)" "\<forall>v \<in> set B. signable c (sample_block_num 1) v"
    and three: "indep (dim c) (take 3 B)" "3 < dim c"
    and A: "random_matrix (draw c) 15 3 rng1 = (A, rng2)"
      "\<forall>a \<in> set A. signable c (sample_block_num 1) (reencoded_coeffs (dim c) (take 3 B) a)"
  shows "recode_and_decode (proto c) s i r rng
    = (if spans (dim c) (map (reencoded_coeffs (dim c) (take 3 B)) A @ drop 3 B) then Inr () else Inl AssertionFailed)"
proof -
  let ?b = "sample_block_num 1"
  from propose_readable [OF id(1,2) ft B] obtain pr s' cs where
    pr: "pt_propose (proto c) s ?b 15 rng = Inr ((pr, s'), rng1)"
      "announcement c ?b (pr_announcement pr)" "list_all2 (\<lambda>p ch. carries c ?b p ch \<and> signable c ?b (cc_b ch)) (pr_packets pr) cs" "map cc_b cs = B"
    by blast
  have "length cs = 15" using pr(4) random_matrix_size(1) [OF B(1)] by (metis length_map)
  then have len: "length cs = 15" "length (pr_packets pr) = 15" using list_all2_lengthD [OF pr(3)] by simp_all
  have parts: "list_all2 (\<lambda>p ch. carries c ?b p ch \<and> signable c ?b (cc_b ch)) (take 3 (pr_packets pr)) (take 3 cs)"
    "list_all2 (\<lambda>p ch. carries c ?b p ch \<and> signable c ?b (cc_b ch)) (drop 3 (pr_packets pr)) (drop 3 cs)"
    "map cc_b (take 3 cs) = take 3 B" "map cc_b (drop 3 cs) = drop 3 B"
    using pr(3,4) by (auto simp: list_all2_takeI list_all2_dropI simp flip: take_map drop_map)
  from announce_step [OF id(3) ft pr(2)] obtain i0 where
    i0: "ingest_unwrap (proto c) Announce (bl_number ?b) (pr_announcement pr) i = Inr i0" "holds c ?b [] [] i0" .
  from announce_step [OF id(4) ft pr(2)] obtain r0 where
    r0: "ingest_unwrap (proto c) Announce (bl_number ?b) (pr_announcement pr) r = Inr r0" "holds c ?b [] [] r0" .
  have "\<exists>s'. foldR (ingest_unwrap (proto c) Data (bl_number ?b)) (take 3 (pr_packets pr)) i0 = Inr s' \<and>
      holds c ?b ([] @ take 3 cs) ([] @ take 3 cs) s'"
    by (rule ingest_independent [OF i0(2) parts(1)]) (use three parts(3) len in \<open>simp_all add: indep_def\<close>)
  then obtain i1 where
    i1: "foldR (ingest_unwrap (proto c) Data (bl_number ?b)) (take 3 (pr_packets pr)) i0 = Inr i1"
      "holds c ?b (take 3 cs) (take 3 cs) i1" by auto
  have inc: "\<not> pt_is_complete (proto c) i1" using holds_complete [OF i1(2)] three(2) len by auto
  have ks: "take 3 cs \<noteq> []" "length (take 3 cs) = 3" using len by auto
  have "\<forall>a \<in> set A. signable c ?b (reencoded_coeffs (dim c) (map cc_b (take 3 cs)) a)"
    unfolding parts(3) by (rule A(2))
  moreover have "random_matrix (draw c) 15 (length (take 3 cs)) rng1 = (A, rng2)"
    unfolding ks(2) by (rule A(1))
  ultimately obtain ps rs where
    ps: "pt_recode (proto c) i1 15 rng1 = Inr (ps, rng2)" "list_all2 (\<lambda>p ch. carries c ?b p ch \<and> signable c ?b (cc_b ch)) ps rs"
      "map cc_b rs = map (reencoded_coeffs (dim c) (take 3 B)) A"
    using recode_readable [OF i1(2) ks(1)] unfolding parts(3) by blast
  from receive_in_two_rounds [OF r0(2) ps(2) parts(2)] obtain r1 ks ds where
    r1: "bindR (until (pt_is_complete (proto c)) (ingest_unwrap (proto c) Data (bl_number ?b)) ps r0)
      (\<lambda>s. if \<not> pt_is_complete (proto c) s
           then until (pt_is_complete (proto c)) (ingest_unwrap (proto c) Data (bl_number ?b)) (drop 3 (pr_packets pr)) s
           else Inr s) = Inr r1" "holds c ?b ks ds r1"
      "pt_is_complete (proto c) r1 \<longleftrightarrow> spans (dim c) (map cc_b (rs @ drop 3 cs))" by blast
  have full: "pt_is_complete (proto c) r1 \<longleftrightarrow>
      spans (dim c) (map (reencoded_coeffs (dim c) (take 3 B)) A @ drop 3 B)"
    using r1(3) ps(3) parts(4) by simp
  have run: "recode_and_decode (proto c) s i r rng = bindR (bindR (until (pt_is_complete (proto c))
        (ingest_unwrap (proto c) Data (bl_number ?b)) ps r0)
      (\<lambda>s. if \<not> pt_is_complete (proto c) s
           then until (pt_is_complete (proto c)) (ingest_unwrap (proto c) Data (bl_number ?b)) (drop 3 (pr_packets pr)) s
           else Inr s)) (\<lambda>receiver. check (pt_is_complete (proto c) receiver)
         (bindR (decodes_to (proto c) ?b receiver) (\<lambda>_. Inr ())))"
    using pr(1) i0(1) r0(1) i1(1) inc ps(1) len
    by (simp add: recode_and_decode_def bindR_assoc cong: if_cong)
  show ?thesis
  proof (cases "pt_is_complete (proto c) r1")
    case True
    from decode_step [OF holds_live [OF r1(2)] True] obtain r2 where "decodes_to (proto c) ?b r1 = Inr r2" .
    with True full show ?thesis unfolding run r1(1) by simp
  next
    case False
    with full show ?thesis unfolding run r1(1) by simp
  qed
qed

end

section \<open>When the tests of the coded protocols pass\<close>

lemma pedersen_new_idle:
  "pedersen_idle (sl, lib, N, m, pk) (pedersen_protocol_new lib N m pk signer)"
  "sg_public_key (pl_signer lib) sk = pk \<Longrightarrow>
   pedersen_proposer (sl, lib, N, m, pk) (pedersen_protocol_new lib N m pk (Some sk))"
  by (simp_all add: pedersen_idle_def pedersen_proposer_def pedersen_protocol_new_def pedersen_ctx_def)

lemma pedersen_node_tests_pass:
  assumes fits: "\<And>n pk. pedersen_fits (sl, lib, 10, 16, pk) (sample_block_num n)"
    and keys: "generate (seed 42) = (sk1, rng0)" "generate (seed 99) = (sk2, rng4)"
    and B: "random_matrix (sl_random sl) 15 10 rng0 = (B0, rng1)"
      "random_matrix (sl_random sl) 15 10 rng1 = (B1, rng2)" "random_matrix (sl_random sl) 15 10 rng2 = (B2, rng3)"
    and C: "random_matrix (sl_random sl) 15 10 rng4 = (C, rng5)" "random_matrix (sl_random sl) 15 3 rng5 = (A, rng6)"
    and three: "indep 10 (take 3 C)"
  shows "pedersen_node_tests sl lib generate seed = map (\<lambda>ok. if ok then Inr () else Inl AssertionFailed)
    [spans 10 B0, spans 10 (map (reencoded_coeffs 10 (take 3 C)) A @ drop 3 C),
     spans 10 B0 \<and> spans 10 B1 \<and> spans 10 B2]"
proof -
  let ?c = "\<lambda>sk. (sl, lib, 10, 16, sg_public_key (pl_signer lib) sk)"
  let ?s = "\<lambda>sk. pedersen_protocol_new lib 10 16 (sg_public_key (pl_signer lib) sk) (Some sk)"
  let ?r = "\<lambda>sk. pedersen_protocol_new lib 10 16 (sg_public_key (pl_signer lib) sk) None"
  have id: "pedersen_idle (?c sk) (?s sk)" "pedersen_proposer (?c sk) (?s sk)" "pedersen_idle (?c sk) (?r sk)" for sk
    by (simp_all add: pedersen_new_idle)
  have 1: "propose_ingest_decode (pedersen_protocol sl lib 10) (?s sk1) (?r sk1) rng0
      = (if spans 10 B0 then Inr () else Inl AssertionFailed)"
    using pedersen_traced.propose_ingest_decode_passes [OF id(1,2,3) fits] B(1) by simp
  have 2: "recode_and_decode (pedersen_protocol sl lib 10) (?s sk2) (?r sk2) (?r sk2) rng4
      = (if spans 10 (map (reencoded_coeffs 10 (take 3 C)) A @ drop 3 C) then Inr () else Inl AssertionFailed)"
    using pedersen_traced.recode_and_decode_passes [OF id(1,2,3,3) fits] C three by simp
  have 3: "multi_block_with_reset (pedersen_protocol sl lib 10) (?s sk1) (?r sk1) rng0
      = (if spans 10 B0 \<and> spans 10 B1 \<and> spans 10 B2 then Inr () else Inl AssertionFailed)"
    using pedersen_traced.multi_block_with_reset_passes [OF id(1,2,3) fits] B by simp
  show ?thesis using keys 1 2 3 by (simp add: pedersen_node_tests_def Let_def)
qed

lemma bfkw_new_idle:
  "bfkw_idle (sl, lib, N, m, pk) (bfkw_protocol_new N m pk signer)"
  "bs_pk signer' = pk \<Longrightarrow> bfkw_keypair lib (bs_sk signer') pk \<Longrightarrow>
   bfkw_proposer (sl, lib, N, m, pk) (bfkw_protocol_new N m pk (Some signer'))"
  by (simp_all add: bfkw_idle_def bfkw_proposer_def bfkw_protocol_new_def)

text \<open>The BFKW tests, when no signature happens to be the identity.\<close>

lemma bfkw_node_tests_pass:
  fixes lib :: "('f::field, 'g1::ab_group_add, 'g2::ab_group_add) bfkw_lib"
  assumes fits: "\<And>n sk pk. bfkw_keypair lib sk pk \<Longrightarrow> bfkw_fits (sl, lib, 10, 16, pk) (sample_block_num n)"
    and keys: "bfkw_generate lib (sl_random sl) (seed 42) = (signer1, rng0)"
      "bfkw_generate lib (sl_random sl) (seed 99) = (signer2, rng4)"
    and B: "random_matrix (sl_random sl) 15 10 rng0 = (B0, rng1)"
      "random_matrix (sl_random sl) 15 10 rng1 = (B1, rng2)" "random_matrix (sl_random sl) 15 10 rng2 = (B2, rng3)"
    and C: "random_matrix (sl_random sl) 15 10 rng4 = (C, rng5)" "random_matrix (sl_random sl) 15 3 rng5 = (A, rng6)"
    and three: "indep 10 (take 3 C)"
    and sg: "\<forall>v \<in> set B0. bfkw_signable (sl, lib, 10, 16, bs_pk signer1) (sample_block_num 0) v"
      "\<forall>v \<in> set B1. bfkw_signable (sl, lib, 10, 16, bs_pk signer1) (sample_block_num 1) v"
      "\<forall>v \<in> set B2. bfkw_signable (sl, lib, 10, 16, bs_pk signer1) (sample_block_num 2) v"
      "\<forall>v \<in> set C. bfkw_signable (sl, lib, 10, 16, bs_pk signer2) (sample_block_num 1) v"
      "\<forall>a \<in> set A. bfkw_signable (sl, lib, 10, 16, bs_pk signer2) (sample_block_num 1)
        (reencoded_coeffs 10 (take 3 C) a)"
  shows "bfkw_node_tests sl lib seed = map (\<lambda>ok. if ok then Inr () else Inl AssertionFailed)
    [spans 10 B0, spans 10 (map (reencoded_coeffs 10 (take 3 C)) A @ drop 3 C),
     spans 10 B0 \<and> spans 10 B1 \<and> spans 10 B2]"
proof -
  let ?c = "\<lambda>sg. (sl, lib, 10, 16, bs_pk sg)"
  let ?s = "\<lambda>sg. bfkw_protocol_new 10 16 (bs_pk sg) (Some sg)" and ?r = "\<lambda>sg. bfkw_protocol_new 10 16 (bs_pk sg) None"
  have key: "bfkw_keypair lib (bs_sk signer1) (bs_pk signer1)" "bfkw_keypair lib (bs_sk signer2) (bs_pk signer2)"
    using bfkw_generate_keypair [of lib "sl_random sl" "seed 42"] bfkw_generate_keypair [of lib "sl_random sl" "seed 99"] keys
    by simp_all
  have id: "bfkw_idle (?c signer1) (?s signer1)" "bfkw_proposer (?c signer1) (?s signer1)" "bfkw_idle (?c signer1) (?r signer1)"
    "bfkw_idle (?c signer2) (?s signer2)" "bfkw_proposer (?c signer2) (?s signer2)" "bfkw_idle (?c signer2) (?r signer2)"
    using key by (simp_all add: bfkw_new_idle)
  have 1: "propose_ingest_decode (bfkw_protocol sl lib 10) (?s signer1) (?r signer1) rng0
      = (if spans 10 B0 then Inr () else Inl AssertionFailed)"
    using bfkw_traced.propose_ingest_decode_passes [OF id(1,2,3) fits [OF key(1)]] B(1) sg(1) by simp
  have 2: "recode_and_decode (bfkw_protocol sl lib 10) (?s signer2) (?r signer2) (?r signer2) rng4
      = (if spans 10 (map (reencoded_coeffs 10 (take 3 C)) A @ drop 3 C) then Inr () else Inl AssertionFailed)"
    using bfkw_traced.recode_and_decode_passes [OF id(4,5,6,6) fits [OF key(2)]] C three sg(4,5) by simp
  have 3: "multi_block_with_reset (bfkw_protocol sl lib 10) (?s signer1) (?r signer1) rng0
      = (if spans 10 B0 \<and> spans 10 B1 \<and> spans 10 B2 then Inr () else Inl AssertionFailed)"
    using bfkw_traced.multi_block_with_reset_passes [OF id(1,2,3) fits [OF key(1)]] B sg(1-3) by simp
  show ?thesis using keys 1 2 3 by (simp add: bfkw_node_tests_def Let_def)
qed

end
