(* ===== verification/Tests_Sim.thy ===== *)
theory Tests_Sim
  imports Testing Sim_Driver
begin

text \<open>
  The tests of \<open>sim/src/config.rs\<close> and \<open>sim/src/metrics.rs\<close>: the default configuration and the
  accumulation of reports. Floating-point differences are rounded, and so is the literal \<open>0.01\<close>.
\<close>

definition f64_close :: "f64 \<Rightarrow> f64 \<Rightarrow> f64 \<Rightarrow> bool" where
  "f64_close a b tolerance \<longleftrightarrow> \<bar>f64_add a (- b)\<bar> < tolerance"

definition default_config :: sim_config where
  "default_config =
     \<lparr>sc_num_nodes = 1000, sc_baseline_degree = 8, sc_rlnc_degree = 40, sc_hop_latency = 70 * 1000000,
      sc_bandwidth = f64_mult 20 1000000, sc_block_size = 2000000, sc_num_blocks = 10, sc_seed = 2025\<rparr>"

definition defaults_are_sane :: "unit test" where
  "defaults_are_sane =
     (let config = default_config in
      check (sc_num_nodes config = 1000) (check (sc_baseline_degree config = 8)
       (check (sc_rlnc_degree config = 40) (check (sc_hop_latency config = 70 * 1000000)
        (check (f64_close (sc_bandwidth config) 20000000 1) (check (sc_block_size config = 2000000)
         (check (sc_num_blocks config = 10) (check (sc_seed config = 2025) (Inr ())))))))))"

definition sample_metrics :: sim_metrics where
  "sample_metrics =
     \<lparr>sm_strategy = ''test'', sm_num_nodes = 10, sm_mesh_degree = 4, sm_block_size = 1000,
      sm_total_bytes_sent = 40000, sm_useful_bytes = 10000, sm_redundancy_ratio = 4,
      sm_per_node_upload = replicate 10 4000, sm_per_node_download = replicate 10 4000, sm_mean_upload = 4000,
      sm_max_upload = 4000, sm_decode_times = replicate 10 (Some (100 * 1000000)), sm_nodes_decoded = 10,
      sm_propagation_time = 100 * 1000000, sm_p50_time = 80 * 1000000, sm_p99_time = 95 * 1000000,
      sm_total_packets = 40, sm_useful_packets = 30, sm_redundant_packets = 10\<rparr>"

definition cumulative_metrics_basic :: "unit test" where
  "cumulative_metrics_basic =
     (let cm = cm_new ''test'' in
      check (cm_total_bytes cm = 0) (check (mean_total_bytes cm = 0)
       (let m = sample_metrics; cm = cm_accumulate m cm in
        check (cm_total_bytes cm = 40000) (check (f64_close (mean_redundancy cm) 4 (f64_round (1 / 100)))
         (Inr ())))))"

section \<open>They pass\<close>

text \<open>The configuration the test writes out is the one an empty environment gives.\<close>

lemma default_config_from_env: "sim_config_from_env (\<lambda>_. None) = default_config"
  by (simp add: sim_config_from_env_def default_config_def env_or_def)

lemma f64_round_hundredth_pos: "0 < f64_round (1 / 100)"
  using less_le_trans [OF powi_2_pos f64_round_binade(1) [of "1 / 100"]] by simp

lemma report_tests_pass: "defaults_are_sane = Inr ()" "cumulative_metrics_basic = Inr ()"
proof -
  have r: "f64_round (of_nat n) = of_nat n" if "n < 2 ^ 53" for n
    using that by (simp add: f64_of_nat_small [unfolded f64_of_nat_def])
  have band: "f64_round 20000000 = 20000000" "f64_round 4 = 4" using r [of 20000000] r [of 4] by simp_all
  have "f64_close (f64_mult 20 1000000) 20000000 1"
    by (simp add: f64_close_def f64_mult_def f64_add_def band)
  then show "defaults_are_sane = Inr ()" by (simp add: defaults_are_sane_def default_config_def)
  have "f64_close 4 4 (f64_round (1 / 100))"
    using f64_round_hundredth_pos by (simp add: f64_close_def f64_add_def)
  then show "cumulative_metrics_basic = Inr ()"
    using r [of 40000] r [of 10000]
    by (simp add: cumulative_metrics_basic_def sample_metrics_def cm_new_def cm_accumulate_def cm_total_bytes_def
        mean_total_bytes_def mean_useful_bytes_def mean_redundancy_def f64_div_def band)
qed

end
