(* ===== verification/Props_Tests.thy ===== *)
theory Props_Tests
  imports Tests_Types Tests_Math Tests_Bfkw Tests_Pedersen Tests_Topology Tests_Node Tests_Sim Props_Driver
begin

text \<open>
  What the repository's tests rest on, as properties of the code they run: when a proposal completes its
  receiver, when recoded packets do, and that the search of the mesh test finds what can be reached.
\<close>

section \<open>Completion\<close>

text \<open>
  C15: A Pedersen proposal completes its receiver exactly when its coefficients span. From idle protocols and a block
  that fits, \<open>propose\<close> draws \<open>k\<close> coefficient vectors; the receiver accepts the announcement and every packet up
  to the one that completes it, without a panic or a refusal; it is then complete if and only if the
  vectors drawn span the \<open>N\<close>-dimensional space, and in this case decodes the proposed block.
\<close>

theorem pedersen_completes_when_spanning:
  fixes sl :: "('f::field, 'r) scalar_lib" and lib :: "('f, 'g::ab_group_add, 'sk, 'pk, 'sig) pedersen_lib"
  assumes "pedersen_idle (sl, lib, N, m, pk) s" "pedersen_proposer (sl, lib, N, m, pk) s"
    and "pedersen_idle (sl, lib, N, m, pk) r" "pedersen_fits (sl, lib, N, m, pk) b"
    and "random_matrix (sl_random sl) k N rng = (B, rng')"
  shows "\<exists>pr s' r0 r1. pedersen_propose sl lib N s b k rng = Inr ((pr, s'), rng') \<and>
    ingest_unwrap (pedersen_protocol sl lib N) Announce (bl_number b) (pr_announcement pr) r = Inr r0 \<and>
    until pedersen_is_complete (ingest_unwrap (pedersen_protocol sl lib N) Data (bl_number b))
      (pr_packets pr) r0 = Inr r1 \<and>
    (pedersen_is_complete r1 \<longleftrightarrow> spans N B) \<and>
    (spans N B \<longrightarrow> (\<exists>r2. pedersen_protocol_decode sl N r1 = Inr (b, r2)))"
  using pedersen_traced.proposal_completes [OF assms(1-4), of k rng B rng'] assms(5)
  by (simp add: pedersen_protocol_def)

text \<open>The sample's vectors \<open>(1, 2), (3, 4), (5, 6)\<close> over 257 elements span.\<close>

theorem pedersen_completes_when_spanning_witness:
  "\<exists>pr s' r0 r1. pedersen_propose sl_ex pedersen_ex 2 (pedersen_node_ex (Some ())) (block_ex 7) 3 1
      = Inr ((pr, s'), 7) \<and>
    ingest_unwrap (pedersen_protocol sl_ex pedersen_ex 2) Announce (bl_number (block_ex 7)) (pr_announcement pr)
      (pedersen_node_ex None) = Inr r0 \<and>
    until pedersen_is_complete (ingest_unwrap (pedersen_protocol sl_ex pedersen_ex 2) Data (bl_number (block_ex 7)))
      (pr_packets pr) r0 = Inr r1 \<and>
    (pedersen_is_complete r1 \<longleftrightarrow> spans 2 [[1, 2], [3, 4], [5, 6 :: gf]]) \<and>
    (spans 2 [[1, 2], [3, 4], [5, 6 :: gf]] \<longrightarrow>
      (\<exists>r2. pedersen_protocol_decode sl_ex 2 r1 = Inr (block_ex 7, r2)))"
proof -
  have B: "random_matrix (sl_random sl_ex) 3 2 1 = ([[1, 2], [3, 4], [5, 6 :: gf]], 7)"
    by (simp add: random_matrix_def sl_ex_def eval_nat_numeral)
  show ?thesis
    using pedersen_node_ex_ok pedersen_generics_ex_fits [of 7] B unfolding pedersen_generics_ex_def
    by (intro pedersen_completes_when_spanning) auto
qed

section \<open>Recoding\<close>

text \<open>
  C27: What a receiver of recoded packets can decode. The proposer's block is encoded into eight chunks, an
  intermediate node keeps the first two and recodes four chunks from them, and a second receiver is
  fed these and then the other six until it is complete. Every chunk verifies, recoded or not, and
  the receiver recovers the block exactly when the combined coefficient vectors of the recoded chunks
  and those of the remaining ones span; the two first vectors must be independent.
\<close>

theorem recoded_pipeline_passes:
  fixes lib :: "('f::field, 'g::ab_group_add, 'sk, 'pk, 'sig) pedersen_lib"
  assumes "packing_ok sl" "block_fits sl 4 16 sample_block" "group_ok (pl_group lib)" "signer_ok (pl_signer lib)"
    and "random_matrix (sl_random sl) 8 4 (seed 99) = (B, rng)" "indep 4 (take 2 B)"
    and "generate rng = (sk, rng1)" "random_matrix (sl_random sl) 4 2 rng1 = (A, rng2)"
  shows "pedersen_reencode_pipeline sl lib generate seed
    = (if spans 4 (map (reencoded_coeffs 4 (take 2 B)) A @ drop 2 B) then Inr () else Inl AssertionFailed)"
  using assms by (rule pedersen_reencode_pipeline_passes)

text \<open>A source whose numbers are one at every fifth place draws the unit vectors in turn.\<close>

definition unit_sl :: "(rat, nat) scalar_lib" where
  "unit_sl = rat_sl\<lparr>sl_random := (\<lambda>r. (if r mod 5 = 0 then 1 else 0, Suc r))\<rparr>"

lemma wire4_ex_length: "block_ok b \<Longrightarrow> length (block_write wire4_ex b) = 100 + length (bl_transactions b)"
  by (simp add: block_write_def block_ok_def wire4_ex_def wire_ex_def)

lemma unit_sl_ok: "packing_ok unit_sl" "block_fits unit_sl 4 16 sample_block"
proof -
  show "packing_ok unit_sl"
    using wire4_ex_ok(1) scalar_packable_ok [OF rat_codec_ok] by (simp add: packing_ok_def unit_sl_def rat_sl_def)
  have "length (block_write wire4_ex sample_block) = 300"
    using wire4_ex_length [of sample_block] sample_block_readable(2)
    by (simp add: readable_def) (simp add: sample_block_def sample_block_num_def)
  then show "block_fits unit_sl 4 16 sample_block"
    using sample_block_readable(2)
    by (simp add: block_fits_def unit_sl_def rat_sl_def scalar_packable_def elements_needed_def)
qed

lemma draw_n_counter:
  assumes "\<And>r. draw r = (f r, r + j)"
  shows "draw_n draw n r = (map (\<lambda>i. f (r + j * i)) [0..<n], r + j * n)"
proof (induction n arbitrary: r)
  case (Suc n)
  have "map g [0..<Suc n] = g 0 # map (\<lambda>i. g (Suc i)) [0..<n]" for g :: "nat \<Rightarrow> 'a"
    by (simp add: upt_conv_Cons map_Suc_upt [symmetric] o_def del: upt_Suc)
  from this [of "\<lambda>i. f (r + j * i)"] Suc assms show ?case by (simp add: add.assoc)
qed simp

lemma unit_sl_draws:
  "random_matrix (sl_random unit_sl) rows cols r =
    (map (\<lambda>i. map (\<lambda>k. if (r + cols * i + k) mod 5 = 0 then 1 else 0) [0..<cols]) [0..<rows], r + cols * rows)"
  unfolding random_matrix_def
proof (rule draw_n_counter)
  fix r
  show "draw_n (sl_random unit_sl) cols r = (map (\<lambda>k. if (r + k) mod 5 = 0 then 1 else 0) [0..<cols], r + cols)"
    by (subst draw_n_counter [where f = "\<lambda>r. if r mod 5 = 0 then 1 else 0" and j = 1])
       (simp_all add: unit_sl_def)
qed

theorem recoded_pipeline_passes_witness:
  "pedersen_reencode_pipeline unit_sl rat_pedersen (\<lambda>r. ((), r)) (\<lambda>_. 0) = Inr ()"
proof -
  let ?u = "unit_vec 4 :: nat \<Rightarrow> rat list"
  let ?B = "map ?u [0, 1, 2, 3] @ [replicate 4 0] @ map ?u [0, 1, 2]"
  obtain A rng2 where A: "random_matrix (sl_random unit_sl) 4 2 32 = (A, rng2)" by force
  have B: "random_matrix (sl_random unit_sl) 8 4 0 = (?B, 32)"
    by (simp add: unit_sl_draws unit_vec_def upt_rec) (simp add: eval_nat_numeral)
  have two: "indep 4 (take 2 ?B)" using indep_units [of 2 4, where 'f = rat] by (simp add: upt_rec eval_nat_numeral)
  have "spans 4 (map (reencoded_coeffs 4 (take 2 ?B)) A @ drop 2 ?B)"
    by (rule spans_mono [OF spans_units]) (auto simp: upt_rec eval_nat_numeral)
  moreover have "group_ok (pl_group rat_pedersen)" "signer_ok (pl_signer rat_pedersen)"
    using group_ex_ok by (simp_all add: rat_pedersen_def signer_ok_def)
  ultimately show ?thesis
    using recoded_pipeline_passes [OF unit_sl_ok, of rat_pedersen "\<lambda>_. 0" ?B 32 "\<lambda>r. ((), r)" "()" 32 A rng2] B two A
    by simp
qed

section \<open>Reachability\<close>

text \<open>
  C32: The search of the mesh test is correct. Started at node 0 of any topology whose neighbours are nodes,
  the breadth-first loop ends without a panic, and it has marked a node exactly if a path leads there.
\<close>

theorem search_marks_reachable:
  assumes "tp_num_nodes t = n" "\<forall>i < n. set (tp_neighbors t ! i) \<subseteq> {..<n}" "0 < n"
  shows "\<exists>v. visit_all t ((replicate n False)[0 := True]) [0] = Inr v \<and> length v = n \<and>
    (\<forall>i < n. v ! i \<longleftrightarrow> (0, i) \<in> (mesh_edges t)\<^sup>*)"
  using assms by (rule search_reaches)

theorem search_marks_reachable_witness:
  "\<exists>v. visit_all \<lparr>tp_neighbors = [[1], [2], [0], [1]], tp_degree = 1\<rparr> ((replicate 4 False)[0 := True]) [0] = Inr v \<and>
    length v = 4 \<and> (\<forall>i < 4. v ! i \<longleftrightarrow> (0, i) \<in> (mesh_edges \<lparr>tp_neighbors = [[1], [2], [0], [1]], tp_degree = 1\<rparr>)\<^sup>*)"
  by (rule search_marks_reachable)
     (auto simp: tp_num_nodes_def less_Suc_eq eval_nat_numeral nth_Cons')

end
