(* ===== verification/Spec2Isabelle.thy ===== *)
theory Spec2Isabelle
  imports Props_Coding Props_Block Props_Schemes Props_Wire Props_Node Props_Sim Props_Driver Props_Deploy Props_Tests
begin

text \<open>
  \<^bold>\<open>rlnc: block propagation by random linear network coding.\<close> The repository is a Rust workspace. A
  proposer splits an encoded block into \<open>N\<close> chunks of \<open>m\<close> scalars and sends random linear combinations
  of them (coded chunks) to its peers; nodes verify a chunk, keep the innovative ones, recode and
  forward them, and decode the block after \<open>N\<close> independent ones. Chunks are authenticated either by
  Pedersen commitments under one signature or by the homomorphic BFKW signatures; a baseline sends
  whole blocks. The same cryptographic code runs in a P2P node (\<open>crates/node\<close>) and in a discrete-event
  simulation (\<open>crates/sim\<close>), which a comparison binary drives for the three strategies; a generator
  (\<open>crates/deploy\<close>) writes the files of a network of nodes.

  \<^bold>\<open>How the model reads the code.\<close>
  A function that can panic returns a value of type \<open>'a run = panic + 'a\<close>: every \<open>assert!\<close>, index,
  slice, \<open>expect\<close> and checked arithmetic step is a \<open>panic\<close> constructor of \<open>Prelude\<close> on the branch on
  which it happens. A \<open>Result\<close> is a sum \<open>err + 'a\<close> inside \<open>run\<close>, and mutated state is
  returned. The model is the release build: \<open>debug_assert!\<close> has no effect, and \<open>u64\<close> counters and block
  numbers wrap (\<open>64 word\<close>), as do the generator's \<open>u16\<close> ports. \<open>usize\<close> values, lengths of data in
  memory and indices, are \<open>nat\<close>. \<open>f64\<close> values are rationals rounded to 53 bits (\<open>Floats\<close>; no value of the
  model comes near the largest or the subnormal numbers). Durations are nanoseconds, with the overflow
  checks of \<open>Duration\<close>. Strings are character lists, formatted and parsed as the standard library does.
  Files are a map from paths to contents.
  Code outside \<open>src/\<close> is an argument: the scalar field is any HOL field; groups, generators, signature
  schemes and the pairing are the records \<open>group_ops\<close>, \<open>signer_ops\<close>, \<open>pedersen_lib\<close>, \<open>bfkw_lib\<close>;
  commonware's codecs are \<open>codec\<close>, \<open>packable\<close>, \<open>wire\<close>; keys and hexadecimal are \<open>key_lib\<close>, YAML text is
  \<open>yaml_lib\<close>, addresses of IPv6 and host names are \<open>boot_lib\<close>; random sources are functions on a
  generator state; the P2P network is \<open>ae_send\<close>. What the code relies on is said by the predicates \<open>group_ok\<close>,
  \<open>signer_ok\<close>, \<open>element_codec_ok\<close>, \<open>packable_ok\<close>, \<open>wire_ok\<close>, \<open>packing_ok\<close>, \<open>scalar_lib_ok\<close>,
  \<open>pedersen_lib_ok\<close>, \<open>bfkw_lib_ok\<close>, \<open>pop_ok\<close>, \<open>driver_lib_ok\<close>, \<open>key_lib_ok\<close>, \<open>yaml_lib_ok\<close>, \<open>boot_lib_ok\<close>,
  \<open>bls_keys_agree\<close>; \<open>Instances\<close> and the samples of the \<open>Props\<close> theories show for each that it can hold (a
  field of 257 elements with trivial groups, rationals, concrete codecs, signatures and printers).

  \<^bold>\<open>Theories and sources\<close> (paths below \<open>src/crates/\<close>).
  \<^item> \<open>Prelude\<close>: the \<open>run\<close> monad (\<open>bindR\<close>, \<open>assertR\<close>, \<open>foldR\<close>, \<open>mapR\<close>), checked indexing (\<open>idx\<close>, \<open>upd\<close>),
    slices and big- and little-endian words.
  \<^item> \<open>Linalg\<close>: \<open>primitives/math/src/linalg.rs\<close>; linear combinations, spans.
  \<^item> \<open>Echelon\<close>, \<open>Echelon_Inverse\<close>: \<open>primitives/math/src/echelon.rs\<close>; the invariant \<open>ie_wf\<close> of the
    incremental echelon form, that \<open>add_row\<close> accepts exactly independent rows, that \<open>inverse\<close> inverts.
  \<^item> \<open>Coding\<close>: \<open>primitives/types/src/coding.rs\<close>; the decoder, the abstract specification \<open>honest\<close>
    (all stored chunks are combinations of the same originals) and its preservation.
  \<^item> \<open>Packing\<close>, \<open>Block\<close>: \<open>primitives/types/src/util.rs\<close>, \<open>block.rs\<close>; packing of bytes into scalars (locale
    \<open>packable_field\<close>), the block codec, \<open>as_chunks\<close>, \<open>encode_chunks\<close>, \<open>from_chunks\<close>.
  \<^item> \<open>Strategy_Core\<close>: \<open>strategy/core\<close>; the traits as records, \<open>SignedPacket\<close>, \<open>coded_receive\<close>,
    \<open>coded_forward\<close>. Locale \<open>coded_integrity\<close> states what an integrity scheme owes (honest chunks verify,
    combined proofs are good) and proves that nodes stay honest; interpreted for the no-op scheme,
    Pedersen and BFKW.
  \<^item> \<open>Baseline\<close>: \<open>strategy/baseline\<close>. \<open>Crypto_Groups\<close>, \<open>Pedersen\<close>, \<open>Pedersen_Strategy\<close>:
    \<open>strategy/pedersen\<close>. \<open>Bfkw\<close>, \<open>Bfkw_Strategy\<close>: \<open>strategy/bfkw\<close>.
  \<^item> \<open>Strategy_Contract\<close>: locale \<open>honest_strategy\<close>, the contract of the \<open>Strategy\<close> trait on which the
    simulation rests, interpreted for the three strategies.
  \<^item> \<open>Protocol\<close>, \<open>Protocol_Pedersen\<close>, \<open>Protocol_Bfkw\<close>: \<open>node/src/protocol.rs\<close>, \<open>baseline.rs\<close>,
    \<open>pedersen.rs\<close>, \<open>bfkw.rs\<close>, and \<open>compute_m\<close> of \<open>config.rs\<close>; locale \<open>honest_protocol\<close> is the contract of
    the \<open>BlockProtocol\<close> trait, interpreted for the three protocols.
  \<^item> \<open>Actor\<close>, \<open>Actor_Facts\<close>, \<open>Actor_Honest\<close>: \<open>node/src/actor.rs\<close>, \<open>metrics.rs\<close>; the state machine
    \<open>Init n \<rightarrow> Decoding n \<rightarrow> Init (n + 1)\<close> with its work queue, buffers, peer selection, both loops; the
    safety of receivers and proposers over any \<open>honest_protocol\<close>.
  \<^item> \<open>Topology\<close>, \<open>Engine\<close>, \<open>Engine_Facts\<close>: \<open>sim/src/topology.rs\<close>, \<open>engine.rs\<close>, \<open>strategy.rs\<close>,
    \<open>config.rs\<close>; the mesh, the event loop, conservation of traffic, that runs end and reach everyone.
    \<open>Engine_Types\<close>: the invariant \<open>sim_typed\<close>, by which no strategy makes the engine index out of range.
  \<^item> \<open>Network\<close>: the abstract specification of propagation. \<open>net_step\<close> delivers any packet sent so far to
    any node or lets a node forward to any number of peers; \<open>network_safe\<close> (in \<open>honest_strategy\<close>) is its
    invariant, and \<open>sim_refines\<close> the simulation relation with the engine.
  \<^item> \<open>Floats\<close>, \<open>Text\<close>: \<open>f64\<close> and \<open>Duration\<close>, formatting and parsing, as far as the code uses them.
  \<^item> \<open>Sim_Report\<close>: \<open>sim/src/metrics.rs\<close>; the report as text, the means over blocks, the comparison table.
    \<open>Sim_Driver\<close>, \<open>Driver_Facts\<close>: \<open>sim/src/config.rs\<close>, \<open>strategy.rs\<close> and the binary \<open>compare.rs\<close>; that the runs
    of all strategies over all blocks end and are reported.
  \<^item> \<open>Address\<close>, \<open>Node_Config\<close>: socket addresses, and \<open>node/src/config.rs\<close> with what the derived
    \<open>Deserialize\<close> makes of a YAML value. \<open>Node_Main\<close>: \<open>node/src/main.rs\<close>, from the two files (\<open>node_boot\<close>) to the
    running actor (\<open>node_main\<close>), every abort a \<open>boot_panic\<close>.
  \<^item> \<open>Deploy\<close>, \<open>Deploy_Facts\<close>: \<open>deploy/src/main.rs\<close>; what is written is what is read. \<open>Boot_Facts\<close>: the nodes
    of a generated network start (\<open>local_boots\<close>, \<open>docker_boots\<close>) and their protocols deliver blocks.
  \<^item> \<open>Instances\<close>: the concrete parameters of the witnesses.
  \<^item> \<open>Testing\<close>: what the repository's tests share. A \<open>#[test]\<close> function is a computation of type
    \<open>unit test\<close>, a \<open>run\<close> that can also fail at an assertion or an \<open>unwrap\<close> (\<open>test_failure\<close>); the loop that
    breaks when it has enough is \<open>until\<close>. Random vectors are \<open>random_matrix\<close>; \<open>indep\<close> and \<open>spans\<close> are the two
    questions the tests ask of them. \<open>Tests_Math\<close> (\<open>linalg.rs\<close>, \<open>echelon.rs\<close>), \<open>Tests_Coding\<close> (\<open>coding.rs\<close>),
    \<open>Tests_Types\<close> (\<open>block.rs\<close>, \<open>util.rs\<close>, \<open>proof.rs\<close> and the roots of \<open>primitives/math\<close> and \<open>primitives/types\<close>),
    \<open>Tests_Pipeline\<close>, \<open>Tests_Pedersen\<close>, \<open>Tests_Bfkw\<close> (the unit tests of the two strategies and the six tests of
    \<open>tests/integration.rs\<close>), \<open>Tests_Topology\<close>, \<open>Tests_Sim\<close> (\<open>sim\<close>) and \<open>Tests_Node\<close> (the protocols of
    \<open>node\<close>) hold the tests of these files. Their lemmas (\<open>.._passes\<close>, \<open>.._pass\<close>) say on which draws a test
    passes: always, or exactly when the vectors it draws are independent or span. In \<open>Tests_Node\<close> the
    locale \<open>traced_protocol\<close> extends \<open>honest_protocol\<close> by which vectors a proposal carries and when a
    receiver is complete; both coded protocols are interpretations.
  \<^item> \<open>Props_Coding\<close>, \<open>Props_Block\<close>, \<open>Props_Schemes\<close>, \<open>Props_Wire\<close>, \<open>Props_Node\<close>, \<open>Props_Sim\<close>,
    \<open>Props_Driver\<close>, \<open>Props_Deploy\<close>, \<open>Props_Tests\<close>: the properties C1 to C40 with their witnesses.

  \<^bold>\<open>Termination.\<close> The work loop of \<open>route\<close> is a total \<open>function\<close>: each round takes an item out of
  the queue and the buffers together. The probing loop of the proposer and the event loop of the
  simulation may run forever, so they are \<open>partial_function (option)\<close>; the first ends exactly when a
  probe reaches a peer, the second always for an \<open>honest_strategy\<close> (a potential counts the
  forwards a node can still make). The search of the mesh test is a \<open>function\<close> with the unmarked nodes and the
  queue as its measure. No definition uses fuel.

  \<^bold>\<open>Not modelled.\<close> Wall-clock time, sleeping between blocks, log lines and the histogram of decode
  durations; the tokio runtime and the P2P library behind \<open>p2p_config\<close> and \<open>ae_send\<close>; parsing of the command
  lines (\<open>clap\<close>; their default values are \<open>local_defaults\<close> and \<open>docker_defaults\<close>); the \<open>Display\<close> texts of
  error types; which error a malformed YAML value gives; failing file operations of the generator
  (they abort it); infinities, NaN and subnormal numbers of \<open>f64\<close>; the crate roots that only
  re-export. The tests' \<open>ChaCha20Rng\<close> is any random source with a seed.
\<close>

end
